(* ===== verification/Tango_Prelude.thy ===== *)
theory Tango_Prelude
  imports Main "HOL-Library.Signed_Division"
begin

text \<open>
  Shared vocabulary of the development: the outcome type of a C++ operation
  (a value, a thrown exception, or undefined behaviour), bounds-checked access
  to a \<open>std::vector\<close>, fixed-size C character buffers, the \<open>std::string\<close>
  searches the sources use, decimal output of stream insertion, and the generic
  lemmas that the component theories rely on.
\<close>

section \<open>Outcomes of C++ operations\<close>

text \<open>
  One level of an error stack, as the IDL declares it.
\<close>

datatype ErrSeverity = WARN | ERR | PANIC

record DevError =
  err_reason :: string
  err_desc :: string
  err_origin :: string
  err_severity :: ErrSeverity

text \<open>
  An exception thrown by a macro carries its class and the reason and description
  strings given to the macro (the origin and the severity are fixed by the macro
  and not modelled). \<open>DevFailed_stack\<close> is the rethrow of a stored
  \<open>DevFailed\<close> with its whole error stack, and \<open>Thread_exit\<close> the
  unwinding started by \<open>omni_thread::exit\<close>; \<open>Std_out_of_range\<close> is the exception
  of the \<open>std::string\<close> operations on a position past the end, \<open>Std_length_error\<close> that of a
  container of impossible size, and \<open>CORBA_exception\<close> an exception of the transport.
\<close>

datatype exn =
    DevFailed string string
  | EventSystemFailed string string
  | DevFailed_stack "DevError list"
  | Thread_exit
  | Std_out_of_range
  | Std_length_error
  | CORBA_exception

datatype 'a result =
    Ok 'a
  | Throw exn
  | Undef

text \<open>
  \<open>Undef\<close> is the outcome of an execution that leaves the defined behaviour
  of C++: an index outside a vector, a null dereference, a C string without its
  terminator, a copy past the end of a buffer.
\<close>

primrec rbind :: "'a result \<Rightarrow> ('a \<Rightarrow> 'b result) \<Rightarrow> 'b result" where
  "rbind (Ok x) f = f x"
| "rbind (Throw e) f = Throw e"
| "rbind Undef f = Undef"

primrec is_ok :: "'a result \<Rightarrow> bool" where
  "is_ok (Ok x) = True"
| "is_ok (Throw e) = False"
| "is_ok Undef = False"

named_theorems result_simps "rewrite rules for outcomes, vectors and C buffers"

lemma rbind_eq_Ok [result_simps]:
  "rbind m f = Ok y \<longleftrightarrow> (\<exists>x. m = Ok x \<and> f x = Ok y)"
  by (cases m) auto

lemma rbind_assoc: "rbind (rbind m f) g = rbind m (\<lambda>x. rbind (f x) g)"
  by (cases m) auto

lemma rbind_ext: "(\<And>x. m = Ok x \<Longrightarrow> f x = g x) \<Longrightarrow> rbind m f = rbind m g"
  by (cases m) auto

lemma rbind_Ok_right [simp]: "rbind m Ok = m"
  by (cases m) auto

lemma is_ok_iff: "is_ok m \<longleftrightarrow> (\<exists>x. m = Ok x)"
  by (cases m) auto

fun rmap :: "('a \<Rightarrow> 'b result) \<Rightarrow> 'a list \<Rightarrow> 'b list result" where
  "rmap f [] = Ok []"
| "rmap f (x # xs) = rbind (f x) (\<lambda>y. rbind (rmap f xs) (\<lambda>ys. Ok (y # ys)))"

lemma rmap_Ok: "(\<And>x. x \<in> set xs \<Longrightarrow> f x = Ok (g x)) \<Longrightarrow> rmap f xs = Ok (map g xs)"
  by (induction xs) auto


section \<open>Outcomes with a state\<close>

fun sbind :: "'a result \<times> 's \<Rightarrow> ('a \<Rightarrow> 's \<Rightarrow> 'b result \<times> 's) \<Rightarrow> 'b result \<times> 's" where
  "sbind (Ok x, s) f = f x s"
| "sbind (Throw e, s) f = (Throw e, s)"
| "sbind (Undef, s) f = (Undef, s)"

text \<open>A check that leaves the state as it is.\<close>

definition checked :: "'a result \<Rightarrow> 's \<Rightarrow> 'a result \<times> 's" where
  "checked r s = (r, s)"

lemma sbind_checked [simp]:
  "sbind (checked (Ok x) s) f = f x s" "sbind (checked (Throw e) s) f = (Throw e, s)"
  "sbind (checked Undef s) f = (Undef, s)"
  by (simp_all add: checked_def)


section \<open>Integer division\<close>

lemma sdiv_div_nonneg: "0 \<le> a \<Longrightarrow> 0 < b \<Longrightarrow> a sdiv b = a div (b :: int)"
  by (cases "a = 0") (simp_all add: signed_divide_int_def)

lemma div_mult_below: "0 < n \<Longrightarrow> x div n * n \<le> (x :: int)"
  using div_mult_mod_eq [of x n] pos_mod_sign [of n x] by linarith


section \<open>Vectors\<close>

text \<open>
  \<open>std::vector::operator[]\<close> with an index of type \<open>long\<close>: reading or
  writing outside the vector is undefined.
\<close>

definition vec_get :: "'a list \<Rightarrow> int \<Rightarrow> 'a result" where
  "vec_get xs i = (if 0 \<le> i \<and> i < int (length xs) then Ok (xs ! nat i) else Undef)"

definition vec_set :: "'a list \<Rightarrow> int \<Rightarrow> 'a \<Rightarrow> 'a list result" where
  "vec_set xs i v = (if 0 \<le> i \<and> i < int (length xs) then Ok (xs[nat i := v]) else Undef)"

lemma vec_get_nat [result_simps]:
  "n < length xs \<Longrightarrow> vec_get xs (int n) = Ok (xs ! n)"
  by (simp add: vec_get_def)

lemma vec_set_nat [result_simps]:
  "n < length xs \<Longrightarrow> vec_set xs (int n) v = Ok (xs[n := v])"
  by (simp add: vec_set_def)

lemma vec_get_in [result_simps]:
  "0 \<le> i \<Longrightarrow> i < int (length xs) \<Longrightarrow> vec_get xs i = Ok (xs ! nat i)"
  by (simp add: vec_get_def)

lemma vec_set_in [result_simps]:
  "0 \<le> i \<Longrightarrow> i < int (length xs) \<Longrightarrow> vec_set xs i v = Ok (xs[nat i := v])"
  by (simp add: vec_set_def)

lemma vec_get_Nil [simp]: "vec_get [] i = Undef"
  by (simp add: vec_get_def)

lemma vec_set_Nil [simp]: "vec_set [] i v = Undef"
  by (simp add: vec_set_def)

lemma vec_set_length: "vec_set xs i v = Ok ys \<Longrightarrow> length ys = length xs"
  by (auto simp: vec_set_def split: if_splits)


section \<open>C character buffers\<close>

text \<open>
  A \<open>char\<close> array of fixed size is a list of characters of that length; the C
  string it holds ends before its first NUL. Bytes after the terminator keep what
  they held before.
\<close>

type_synonym cbuf = "char list"

abbreviation NUL :: char where "NUL \<equiv> CHR 0x00"

definition c_str :: "cbuf \<Rightarrow> string result" where
  "c_str buf = (if NUL \<in> set buf then Ok (takeWhile (\<lambda>c. c \<noteq> NUL) buf) else Undef)"

text \<open>\<open>strcpy\<close> of a NUL-free string into a buffer.\<close>

definition strcpy_buf :: "cbuf \<Rightarrow> string \<Rightarrow> cbuf result" where
  "strcpy_buf dst s =
     (if length s < length dst then Ok (s @ NUL # drop (Suc (length s)) dst) else Undef)"

definition cbuf_ok :: "nat \<Rightarrow> cbuf \<Rightarrow> bool" where
  "cbuf_ok n buf \<longleftrightarrow> length buf = n \<and> NUL \<in> set buf"

lemma takeWhile_append_stop:
  "(\<forall>x \<in> set xs. P x) \<Longrightarrow> \<not> P y \<Longrightarrow> takeWhile P (xs @ y # ys) = xs"
  by (induction xs) auto

lemma c_str_strcpy [result_simps]:
  "NUL \<notin> set s \<Longrightarrow> strcpy_buf dst s = Ok buf \<Longrightarrow> c_str buf = Ok s"
  by (auto simp: strcpy_buf_def c_str_def intro!: takeWhile_append_stop split: if_splits)

lemma strcpy_buf_ok:
  "cbuf_ok n dst \<Longrightarrow> length s < n \<Longrightarrow>
     \<exists>buf. strcpy_buf dst s = Ok buf \<and> cbuf_ok n buf"
  by (auto simp: strcpy_buf_def cbuf_ok_def)

lemma c_str_Ok: "cbuf_ok n buf \<Longrightarrow> c_str buf = Ok (takeWhile (\<lambda>c. c \<noteq> NUL) buf)"
  by (simp add: c_str_def cbuf_ok_def)

lemma c_str_props:
  "c_str buf = Ok s \<Longrightarrow> NUL \<notin> set s \<and> length s < length buf"
proof -
  assume "c_str buf = Ok s"
  then have nul: "NUL \<in> set buf" and s: "s = takeWhile (\<lambda>c. c \<noteq> NUL) buf"
    by (auto simp: c_str_def split: if_splits)
  have "takeWhile (\<lambda>c. c \<noteq> NUL) buf \<noteq> buf"
    using nul by (metis (mono_tags, lifting) set_takeWhileD)
  then have "length s < length buf"
    unfolding s by (metis length_takeWhile_le takeWhile_eq_take take_all order_le_less)
  then show ?thesis
    unfolding s by (auto dest: set_takeWhileD)
qed


section \<open>String searches\<close>

text \<open>
  \<open>std::string::find(char, pos)\<close>: the first position at or after \<open>pos\<close>
  that holds the character, \<open>None\<close> for \<open>npos\<close>. A position past the end
  finds nothing.
\<close>

fun find_char :: "char \<Rightarrow> string \<Rightarrow> nat option" where
  "find_char c [] = None"
| "find_char c (x # xs) = (if x = c then Some 0 else map_option Suc (find_char c xs))"

definition find_from :: "char \<Rightarrow> nat \<Rightarrow> string \<Rightarrow> nat option" where
  "find_from c pos s = map_option (\<lambda>k. pos + k) (find_char c (drop pos s))"

text \<open>\<open>std::string::find(const char *)\<close>.\<close>

fun prefix_at :: "string \<Rightarrow> string \<Rightarrow> bool" where
  "prefix_at [] s = True"
| "prefix_at (p # ps) [] = False"
| "prefix_at (p # ps) (x # xs) = (p = x \<and> prefix_at ps xs)"

fun find_str :: "string \<Rightarrow> string \<Rightarrow> nat option" where
  "find_str p [] = (if p = [] then Some 0 else None)"
| "find_str p (x # xs) =
     (if prefix_at p (x # xs) then Some 0 else map_option Suc (find_str p xs))"

lemma find_char_None_iff: "find_char c s = None \<longleftrightarrow> c \<notin> set s"
  by (induction s) auto

lemma find_char_append [simp]:
  "c \<notin> set xs \<Longrightarrow> find_char c (xs @ c # ys) = Some (length xs)"
  by (induction xs) auto

lemma find_char_Some_less: "find_char c s = Some k \<Longrightarrow> k < length s"
  by (induction s arbitrary: k) (auto split: if_splits)

lemma find_from_zero [simp]: "find_from c 0 s = find_char c s"
  by (cases "find_char c s") (simp_all add: find_from_def)

lemma find_from_append:
  "c \<notin> set ys \<Longrightarrow> find_from c (length xs) (xs @ ys @ c # zs) = Some (length xs + length ys)"
  by (simp add: find_from_def)

text \<open>\<open>substr(pos)\<close> and \<open>substr(0, len)\<close> for positions within the string.\<close>

abbreviation substr_from :: "nat \<Rightarrow> string \<Rightarrow> string" where
  "substr_from pos s \<equiv> drop pos s"

abbreviation substr_to :: "nat \<Rightarrow> string \<Rightarrow> string" where
  "substr_to len s \<equiv> take len s"


text \<open>\<open>::tolower\<close> in the C locale.\<close>

definition tolower :: "char \<Rightarrow> char" where
  "tolower c = (let n = of_char c :: nat in if 65 \<le> n \<and> n \<le> 90 then char_of (n + 32) else c)"

abbreviation lower :: "string \<Rightarrow> string" where
  "lower s \<equiv> map tolower s"


section \<open>Decimal output\<close>

text \<open>Stream insertion of an unsigned integer.\<close>

definition digit_char :: "nat \<Rightarrow> char" where
  "digit_char d = char_of (48 + d)"

fun dec :: "nat \<Rightarrow> string" where
  "dec n = (if n < 10 then [digit_char n] else dec (n div 10) @ [digit_char (n mod 10)])"

declare dec.simps [simp del]

text \<open>\<open>std::setfill('0') << std::setw(w)\<close>: pad on the left up to width \<open>w\<close>.\<close>

definition pad0 :: "nat \<Rightarrow> string \<Rightarrow> string" where
  "pad0 w s = replicate (w - length s) (CHR ''0'') @ s"

lemma digit_char_0 [simp]: "digit_char 0 = CHR ''0''"
  by code_simp

lemma dec_less_10: "n < 10 \<Longrightarrow> dec n = [digit_char n]"
  by (simp add: dec.simps)

lemma dec_ge_10: "\<not> n < 10 \<Longrightarrow> dec n = dec (n div 10) @ [digit_char (n mod 10)]"
  by (subst dec.simps) simp

lemma dec_nonempty [simp]: "dec n \<noteq> []"
  by (subst dec.simps) simp

text \<open>Reading digits.\<close>

definition is_digit :: "char \<Rightarrow> bool" where
  "is_digit c \<longleftrightarrow> (48 :: nat) \<le> of_char c \<and> of_char c \<le> (57 :: nat)"

definition is_blank :: "char \<Rightarrow> bool" where
  "is_blank c \<longleftrightarrow> of_char c = (32 :: nat) \<or> (9 :: nat) \<le> of_char c \<and> of_char c \<le> (13 :: nat)"

definition digits_value :: "string \<Rightarrow> nat" where
  "digits_value ds = fold (\<lambda>c n. 10 * n + (of_char c - 48)) ds 0"

lemma of_char_digit: "d < 10 \<Longrightarrow> of_char (digit_char d) = 48 + d"
  by (simp add: digit_char_def)

lemma dec_digits: "list_all is_digit (dec n)"
proof (induction n rule: less_induct)
  case (less n)
  have *: "is_digit (digit_char d)" if "d < 10" for d using that by (simp add: is_digit_def of_char_digit)
  show ?case
  proof (cases "n < 10")
    case False
    then show ?thesis using less [of "n div 10"] * [of "n mod 10"] by (simp add: dec_ge_10)
  qed (simp add: dec_less_10 *)
qed

lemma digits_value_dec [simp]: "digits_value (dec n) = n"
proof (induction n rule: less_induct)
  case (less n)
  show ?case
  proof (cases "n < 10")
    case False
    then show ?thesis using less [of "n div 10"] by (simp add: dec_ge_10 digits_value_def of_char_digit)
  qed (simp add: dec_less_10 digits_value_def of_char_digit)
qed

lemma length_dec: "n < 10 ^ k \<Longrightarrow> 0 < k \<Longrightarrow> length (dec n) \<le> k"
proof (induction k arbitrary: n)
  case (Suc k)
  show ?case
  proof (cases "n < 10")
    case False
    then have "0 < k" using Suc.prems(1) by (cases k) auto
    moreover have "n div 10 < 10 ^ k" using Suc.prems(1) by (simp add: div_less_iff_less_mult mult.commute)
    ultimately show ?thesis using Suc.IH False by (simp add: dec_ge_10)
  qed (simp add: dec_less_10)
qed simp

lemma length_dec_2: "n < 100 \<Longrightarrow> length (dec n) \<le> 2"
  by (cases "n < 10") (auto simp: dec_less_10 dec_ge_10)

lemma length_dec_3: "n < 1000 \<Longrightarrow> length (dec n) \<le> 3"
proof (cases "n < 10")
  case False
  assume "n < 1000"
  then have "n div 10 < 100" by linarith
  then show ?thesis using False length_dec_2 by (fastforce simp: dec_ge_10)
qed (simp add: dec_less_10)

lemma length_pad0: "length s \<le> w \<Longrightarrow> length (pad0 w s) = w"
  by (simp add: pad0_def)


section \<open>Comma-separated lists\<close>

text \<open>
  The loop that prints a vector of names with \<open>", "\<close> between neighbours:
  a separator follows every element but the last.
\<close>

fun join_names :: "string list \<Rightarrow> string" where
  "join_names [] = []"
| "join_names [x] = x"
| "join_names (x # y # ys) = x @ '', '' @ join_names (y # ys)"


section \<open>Sequences of requests\<close>

fun run_steps :: "('q \<Rightarrow> 's \<Rightarrow> 'r \<times> 's) \<Rightarrow> 'q list \<Rightarrow> 's \<Rightarrow> 'r list \<times> 's" where
  "run_steps step [] s = ([], s)"
| "run_steps step (q # qs) s =
     (case step q s of (r, s1) \<Rightarrow> case run_steps step qs s1 of (rs, s2) \<Rightarrow> (r # rs, s2))"

lemma run_steps_append:
  "run_steps step (qs @ qs') s =
     (case run_steps step qs s of (rs, s1) \<Rightarrow> case run_steps step qs' s1 of (rs', s2) \<Rightarrow> (rs @ rs', s2))"
  by (induction qs arbitrary: s) (auto split: prod.splits)

lemma run_steps_length: "length (fst (run_steps step qs s)) = length qs"
  by (induction qs arbitrary: s) (auto simp: split_def)

text \<open>
  A resource with an owner: legal requests keep its invariant and have a defined answer,
  and requests that are foreign to the owner leave everything the owner relies on
  (\<open>same\<close>) and get the answer due to a stranger.
\<close>

locale owned_resource =
  fixes step :: "'q \<Rightarrow> 's \<Rightarrow> 'r \<times> 's"
    and inv :: "'s \<Rightarrow> bool"
    and legal :: "'q \<Rightarrow> bool"
    and defined :: "'r \<Rightarrow> bool"
    and foreign :: "'q \<Rightarrow> 's \<Rightarrow> bool"
    and answer :: "'q \<Rightarrow> 's \<Rightarrow> 'r \<Rightarrow> bool"
    and same :: "'s \<Rightarrow> 's \<Rightarrow> bool"
  assumes step_inv: "inv s \<Longrightarrow> legal q \<Longrightarrow> inv (snd (step q s)) \<and> defined (fst (step q s))"
    and foreign_legal: "foreign q s \<Longrightarrow> legal q"
    and foreign_step: "inv s \<Longrightarrow> foreign q s \<Longrightarrow> same s (snd (step q s)) \<and> answer q s (fst (step q s))"
    and same_refl: "same s s"
    and same_trans: "same s s' \<Longrightarrow> same s' s'' \<Longrightarrow> same s s''"
    and same_foreign: "same s s' \<Longrightarrow> foreign q s' = foreign q s"
    and same_answer: "same s s' \<Longrightarrow> answer q s' r \<Longrightarrow> answer q s r"
begin

lemma run_inv:
  assumes "inv s" "\<forall>q \<in> set qs. legal q"
  shows "inv (snd (run_steps step qs s)) \<and> (\<forall>r \<in> set (fst (run_steps step qs s)). defined r)"
  using assms
proof (induction qs arbitrary: s)
  case (Cons q qs)
  then show ?case using step_inv[of s q] Cons.IH[of "snd (step q s)"] by (auto simp: split_def)
qed simp

lemma run_foreign:
  assumes "inv s" "\<forall>q \<in> set qs. foreign q s"
  shows "same s (snd (run_steps step qs s)) \<and> list_all2 (\<lambda>q r. answer q s r) qs (fst (run_steps step qs s))"
  using assms
proof (induction qs arbitrary: s)
  case (Cons q qs)
  let ?s = "snd (step q s)"
  have q: "same s ?s" "answer q s (fst (step q s))" "inv ?s"
    using foreign_step[of s q] step_inv[of s q] foreign_legal[of q s] Cons.prems by auto
  then have IH: "same ?s (snd (run_steps step qs ?s))" "list_all2 (\<lambda>q r. answer q ?s r) qs (fst (run_steps step qs ?s))"
    using Cons.IH[of ?s] Cons.prems same_foreign[OF q(1)] by auto
  from IH(2) have "list_all2 (\<lambda>q r. answer q s r) qs (fst (run_steps step qs ?s))"
    by (rule list_all2_mono) (rule same_answer[OF q(1)])
  then show ?case using q(2) same_trans[OF q(1) IH(1)] by (auto simp: split_def)
qed (simp add: same_refl)

end

end
