(* ===== verification/Circular_Buffer.thy ===== *)
theory Circular_Buffer
  imports Tango_Prelude
begin

text \<open>
  The three circular buffers of the library (the black box, the polling ring and
  the client event queue) keep a vector, an insertion index, a count and a depth,
  and walk backwards from the last insertion. This theory holds the index
  arithmetic they share, the abstract contract of a bounded history
  (\<open>bounded_history\<close>: newest record first, at most \<open>cap\<close> of them), and the
  proof, once, that a circular store keeps that contract (\<open>circular_store\<close>).
  Each component interprets \<open>circular_store\<close> on its own record and operations.
\<close>

section \<open>Index arithmetic\<close>

definition prev_idx :: "int \<Rightarrow> int \<Rightarrow> int" where
  "prev_idx mx i = (if i = 0 then mx - 1 else i - 1)"

definition next_idx :: "int \<Rightarrow> int \<Rightarrow> int" where
  "next_idx mx i = (if i + 1 = mx then 0 else i + 1)"

definition ring_inv :: "nat \<Rightarrow> int \<Rightarrow> int \<Rightarrow> int \<Rightarrow> bool" where
  "ring_inv len ins nb mx \<longleftrightarrow>
     0 < mx \<and> int len = mx \<and> 0 \<le> ins \<and> ins < mx \<and> 0 \<le> nb \<and> nb \<le> mx \<and>
     (nb < mx \<longrightarrow> ins = nb)"

lemma prev_idx_mod: "0 \<le> i \<Longrightarrow> i < mx \<Longrightarrow> prev_idx mx i = (i - 1) mod mx"
proof (cases "i = 0")
  case True
  assume "0 \<le> i" "i < mx"
  have "(- 1) mod mx = mx - 1"
    using \<open>i < mx\<close> True by (simp add: zmod_minus1)
  then show ?thesis using True by (simp add: prev_idx_def)
qed (simp add: prev_idx_def)

lemma next_idx_mod: "0 \<le> i \<Longrightarrow> i < mx \<Longrightarrow> next_idx mx i = (i + 1) mod mx"
  by (auto simp: next_idx_def)

lemma prev_idx_range [simp]:
  "0 < mx \<Longrightarrow> 0 \<le> i \<Longrightarrow> i < mx \<Longrightarrow> 0 \<le> prev_idx mx i \<and> prev_idx mx i < mx"
  by (auto simp: prev_idx_def)

lemma prev_next_idx: "0 \<le> i \<Longrightarrow> i < mx \<Longrightarrow> prev_idx mx (next_idx mx i) = i"
  by (auto simp: prev_idx_def next_idx_def)

lemma ring_inv_step:
  "ring_inv len ins nb mx \<Longrightarrow>
     ring_inv len (next_idx mx ins) (if nb \<noteq> mx then nb + 1 else nb) mx"
  by (auto simp: ring_inv_def next_idx_def)

lemma ring_inv_prev:
  "ring_inv len ins nb mx \<Longrightarrow> 0 \<le> prev_idx mx ins \<and> prev_idx mx ins < mx"
  by (auto simp: ring_inv_def prev_idx_def)


section \<open>Walking backwards\<close>

primrec walk_back :: "'e list \<Rightarrow> int \<Rightarrow> int \<Rightarrow> nat \<Rightarrow> 'e list" where
  "walk_back xs mx i 0 = []"
| "walk_back xs mx i (Suc n) = xs ! nat i # walk_back xs mx (prev_idx mx i) n"

definition newest :: "'e list \<Rightarrow> int \<Rightarrow> int \<Rightarrow> int \<Rightarrow> 'e list" where
  "newest xs ins nb mx = walk_back xs mx (prev_idx mx ins) (nat nb)"

lemma length_walk_back [simp]: "length (walk_back xs mx i n) = n"
  by (induction n arbitrary: i) auto

lemma length_newest [simp]: "length (newest xs ins nb mx) = nat nb"
  by (simp add: newest_def)

lemma newest_Nil_iff [simp]: "newest xs ins nb mx = [] \<longleftrightarrow> nb \<le> 0"
  by (cases "nat nb") (auto simp: newest_def)

lemma walk_back_nth:
  "0 \<le> i \<Longrightarrow> i < mx \<Longrightarrow> k < n \<Longrightarrow> walk_back xs mx i n ! k = xs ! nat ((i - int k) mod mx)"
proof (induction n arbitrary: i k)
  case (Suc n)
  show ?case
  proof (cases k)
    case 0
    then show ?thesis using Suc.prems by simp
  next
    case (Suc k')
    have "0 \<le> prev_idx mx i" "prev_idx mx i < mx"
      using Suc.prems by (auto simp: prev_idx_def)
    then have "walk_back xs mx (prev_idx mx i) n ! k' = xs ! nat ((prev_idx mx i - int k') mod mx)"
      using Suc.IH Suc.prems Suc by simp
    moreover have "(prev_idx mx i - int k') mod mx = (i - int k) mod mx"
      using Suc.prems Suc by (simp add: prev_idx_mod mod_diff_left_eq algebra_simps)
    ultimately show ?thesis using Suc by simp
  qed
qed simp

lemma walk_back_take:
  "m \<le> n \<Longrightarrow> walk_back xs mx i m = take m (walk_back xs mx i n)"
proof (induction m arbitrary: n i)
  case (Suc m)
  then obtain n' where "n = Suc n'" by (cases n) auto
  with Suc show ?case by simp
qed simp

lemma mod_offset_neq:
  fixes ins mx :: int
  assumes "0 \<le> ins" "ins < mx" "0 < k" "k < mx"
  shows "(ins - k) mod mx \<noteq> ins"
proof
  assume "(ins - k) mod mx = ins"
  then have "(ins - k) mod mx = ins mod mx" using assms by simp
  then have "mx dvd k" by (simp add: mod_eq_dvd_iff)
  then show False using assms zdvd_not_zless by blast
qed

text \<open>The central fact: a push puts the new element first and keeps the rest, up to the depth.\<close>

lemma newest_push:
  assumes inv: "ring_inv (length xs) ins nb mx"
  shows "newest (xs[nat ins := e]) (next_idx mx ins) (if nb \<noteq> mx then nb + 1 else nb) mx
         = take (nat mx) (e # newest xs ins nb mx)" (is "?l = ?r")
proof (rule nth_equalityI)
  from inv have bnds: "0 < mx" "int (length xs) = mx" "0 \<le> ins" "ins < mx" "0 \<le> nb" "nb \<le> mx"
    by (auto simp: ring_inv_def)
  show "length ?l = length ?r" using bnds by (auto simp: min_def)
  fix k assume k: "k < length ?l"
  have kmx: "int k < mx" using k bnds by (auto split: if_splits)
  have start: "prev_idx mx (next_idx mx ins) = ins" using bnds by (simp add: prev_next_idx)
  have lk: "?l ! k = xs[nat ins := e] ! nat ((ins - int k) mod mx)"
    using k bnds by (simp add: newest_def start walk_back_nth)
  show "?l ! k = ?r ! k"
  proof (cases k)
    case 0
    then show ?thesis using lk bnds by simp
  next
    case (Suc k')
    have knb: "k' < nat nb" using k Suc bnds kmx by (auto split: if_splits)
    have "(ins - int k) mod mx \<noteq> ins"
      using bnds kmx Suc by (intro mod_offset_neq) auto
    moreover have "0 \<le> (ins - int k) mod mx" using bnds by simp
    ultimately have "nat ins \<noteq> nat ((ins - int k) mod mx)" using bnds by (simp add: nat_eq_iff2)
    then have "?l ! k = xs ! nat ((ins - int k) mod mx)" using lk by simp
    also have "(ins - int k) mod mx = (prev_idx mx ins - int k') mod mx"
      using bnds Suc by (simp add: prev_idx_mod mod_diff_left_eq algebra_simps)
    also have "xs ! nat ((prev_idx mx ins - int k') mod mx) = newest xs ins nb mx ! k'"
      using knb inv ring_inv_prev[OF inv] by (simp add: newest_def walk_back_nth)
    finally show ?thesis using Suc kmx by simp
  qed
qed

text \<open>Writing the slot just passed does not change what the walk finds further back.\<close>

lemma walk_back_update_passed:
  assumes i: "0 \<le> i" "i < mx" and n: "int n < mx"
  shows "walk_back (xs[nat i := e]) mx (prev_idx mx i) n = walk_back xs mx (prev_idx mx i) n"
proof (rule nth_equalityI, simp)
  fix k assume k: "k < length (walk_back (xs[nat i := e]) mx (prev_idx mx i) n)"
  have p: "0 \<le> prev_idx mx i" "prev_idx mx i < mx" using i by (auto simp: prev_idx_def)
  have "(i - (1 + int k)) mod mx \<noteq> i"
    using i k n by (intro mod_offset_neq) auto
  then have "(prev_idx mx i - int k) mod mx \<noteq> i"
    using i by (simp add: prev_idx_mod mod_diff_left_eq algebra_simps)
  moreover have "0 \<le> (prev_idx mx i - int k) mod mx" using i by simp
  ultimately have "nat i \<noteq> nat ((prev_idx mx i - int k) mod mx)"
    using i by (simp add: nat_eq_iff2)
  then show "walk_back (xs[nat i := e]) mx (prev_idx mx i) n ! k = walk_back xs mx (prev_idx mx i) n ! k"
    using k p by (simp add: walk_back_nth)
qed

text \<open>A full turn from the last index visits the whole vector, last element first.\<close>

lemma walk_back_full:
  assumes "xs \<noteq> []"
  shows "walk_back xs (int (length xs)) (int (length xs) - 1) (length xs) = rev xs"
proof (rule nth_equalityI, simp)
  fix k assume k: "k < length (walk_back xs (int (length xs)) (int (length xs) - 1) (length xs))"
  then have "nat ((int (length xs) - 1 - int k) mod int (length xs)) = length xs - Suc k"
    by (simp add: mod_pos_pos_trivial nat_diff_distrib')
  then show "walk_back xs (int (length xs)) (int (length xs) - 1) (length xs) ! k = rev xs ! k"
    using k assms by (subst walk_back_nth) (simp_all add: rev_nth del: mod_pos_pos_trivial)
qed

lemma newest_subset:
  assumes "ring_inv (length xs) ins nb mx"
  shows "set (newest xs ins nb mx) \<subseteq> set xs"
proof
  fix e assume "e \<in> set (newest xs ins nb mx)"
  then obtain k where k: "k < nat nb" "e = newest xs ins nb mx ! k"
    by (auto simp: in_set_conv_nth)
  then have "e = xs ! nat ((prev_idx mx ins - int k) mod mx)"
    using ring_inv_prev[OF assms] by (simp add: newest_def walk_back_nth)
  moreover have "nat ((prev_idx mx ins - int k) mod mx) < length xs"
    using assms by (auto simp: ring_inv_def nat_less_iff)
  ultimately show "e \<in> set xs" by simp
qed

text \<open>The history as a rotation of the used part of the vector.\<close>

lemma newest_rotation:
  assumes "ring_inv (length xs) ins nb mx"
  shows "newest xs ins nb mx = rev (take (nat ins) xs) @ rev (drop (nat ins) (take (nat nb) xs))"
    (is "?l = ?r")
proof (rule nth_equalityI)
  from assms have b: "0 < mx" "int (length xs) = mx" "0 \<le> ins" "ins < mx" "0 \<le> nb" "nb \<le> mx"
    "nb < mx \<longrightarrow> ins = nb" by (auto simp: ring_inv_def)
  show "length ?l = length ?r" using b by auto
  fix k assume k: "k < length ?l"
  have "?l ! k = xs ! nat ((prev_idx mx ins - int k) mod mx)"
    using k ring_inv_prev[OF assms] by (simp add: newest_def walk_back_nth)
  also have "(prev_idx mx ins - int k) mod mx = (ins - 1 - int k) mod mx"
    using b by (simp add: prev_idx_mod mod_diff_left_eq)
  finally have lk: "?l ! k = xs ! nat ((ins - 1 - int k) mod mx)" .
  show "?l ! k = ?r ! k"
  proof (cases "int k < ins")
    case True
    then have "nat ((ins - 1 - int k) mod mx) = nat ins - Suc k" using b by simp
    moreover have "k < nat ins" using True by simp
    ultimately show ?thesis using lk b by (simp add: nth_append rev_nth)
  next
    case False
    then have nb: "nb = mx" using k b by (cases "nb < mx") auto
    have "(ins - 1 - int k) mod mx = (ins - 1 - int k + mx) mod mx" by simp
    also have "\<dots> = ins - 1 - int k + mx" using False k b by (intro mod_pos_pos_trivial) auto
    finally have "nat ((ins - 1 - int k) mod mx) = length xs - (Suc k - nat ins)"
      using False k b by auto
    then show ?thesis using lk False b nb k by (auto simp: nth_append rev_nth intro!: arg_cong[where f = "(!) xs"])
  qed
qed

text \<open>In a full ring the oldest record sits at the insertion index.\<close>

lemma newest_oldest:
  assumes "ring_inv (length xs) ins mx mx"
  shows "last (newest xs ins mx mx) = xs ! nat ins"
proof -
  from assms have b: "0 < mx" "0 \<le> ins" "ins < mx" by (auto simp: ring_inv_def)
  have "(prev_idx mx ins - int (nat mx - 1)) mod mx = ((ins - 1) mod mx - (mx - 1)) mod mx"
    using b by (simp add: prev_idx_mod of_nat_diff)
  also have "\<dots> = (ins - mx) mod mx" by (simp only: mod_diff_left_eq) (simp add: algebra_simps)
  also have "\<dots> = ins" using b by simp
  finally have "newest xs ins mx mx ! (nat mx - 1) = xs ! nat ins"
    using b ring_inv_prev[OF assms] by (simp add: newest_def walk_back_nth)
  moreover have "newest xs ins mx mx \<noteq> []"
    using b by (metis length_newest list.size(3) nat_eq_iff2 not_less_iff_gr_or_eq zero_less_nat_eq)
  ultimately show ?thesis by (simp add: last_conv_nth)
qed


section \<open>Bounded histories\<close>

text \<open>
  The contract a client of a buffer relies on: a push makes the new record the
  newest one, older records keep their order, and records beyond the capacity
  are dropped from the old end.
\<close>

locale bounded_history =
  fixes hist :: "'s \<Rightarrow> 'e list"
    and cap :: "'s \<Rightarrow> nat"
    and push :: "'e \<Rightarrow> 's \<Rightarrow> 's"
    and valid :: "'s \<Rightarrow> bool"
  assumes hist_push: "valid s \<Longrightarrow> hist (push e s) = take (cap s) (e # hist s)"
    and cap_push: "valid s \<Longrightarrow> cap (push e s) = cap s"
    and valid_push: "valid s \<Longrightarrow> valid (push e s)"
    and hist_bound: "valid s \<Longrightarrow> length (hist s) \<le> cap s"
begin

lemma valid_pushes: "valid s \<Longrightarrow> valid (fold push es s)"
  by (induction es arbitrary: s) (auto simp: valid_push)

lemma cap_pushes: "valid s \<Longrightarrow> cap (fold push es s) = cap s"
  by (induction es arbitrary: s) (auto simp: valid_push cap_push)

lemma hist_pushes: "valid s \<Longrightarrow> hist (fold push es s) = take (cap s) (rev es @ hist s)"
proof (induction es arbitrary: s)
  case Nil
  then show ?case by (simp add: hist_bound)
next
  case (Cons e es)
  then have "hist (fold push es (push e s)) = take (cap s) (rev es @ take (cap s) (e # hist s))"
    by (simp add: valid_push cap_push hist_push)
  then show ?case by (simp add: take_append)
qed

lemma newest_is_last_push: "valid s \<Longrightarrow> 0 < cap s \<Longrightarrow> hd (hist (push e s)) = e"
  by (cases "cap s") (auto simp: hist_push)

end

text \<open>
  A circular store: a vector with its three indices, and a push that writes the
  slot at the insertion index and advances the indices.
\<close>

locale circular_store =
  fixes slots :: "'s \<Rightarrow> 'e list"
    and ins :: "'s \<Rightarrow> int"
    and nb :: "'s \<Rightarrow> int"
    and mx :: "'s \<Rightarrow> int"
    and push :: "'e \<Rightarrow> 's \<Rightarrow> 's"
  assumes slots_push:
      "ring_inv (length (slots s)) (ins s) (nb s) (mx s) \<Longrightarrow>
         slots (push e s) = (slots s)[nat (ins s) := e]"
    and ins_push:
      "ring_inv (length (slots s)) (ins s) (nb s) (mx s) \<Longrightarrow>
         ins (push e s) = next_idx (mx s) (ins s)"
    and nb_push:
      "ring_inv (length (slots s)) (ins s) (nb s) (mx s) \<Longrightarrow>
         nb (push e s) = (if nb s \<noteq> mx s then nb s + 1 else nb s)"
    and mx_push:
      "ring_inv (length (slots s)) (ins s) (nb s) (mx s) \<Longrightarrow> mx (push e s) = mx s"

sublocale circular_store \<subseteq>
  bounded_history "\<lambda>s. newest (slots s) (ins s) (nb s) (mx s)" "\<lambda>s. nat (mx s)" push
    "\<lambda>s. ring_inv (length (slots s)) (ins s) (nb s) (mx s)"
proof (unfold_locales, goal_cases)
  case (1 s e)
  then show ?case by (simp add: slots_push ins_push nb_push mx_push newest_push)
next
  case (2 s e)
  then show ?case by (simp add: mx_push)
next
  case (3 s e)
  then show ?case
    using ring_inv_step[OF 3] by (simp add: slots_push ins_push nb_push mx_push)
next
  case (4 s)
  then show ?case by (auto simp: ring_inv_def)
qed

end
