(* ===== verification/Client_Addr.thy ===== *)
theory Client_Addr
  imports Tango_Prelude "HOL-Library.Word"
begin

text \<open>
  Client identification, from \<open>src/server/blackbox.cpp\<close> and
  \<open>src/include/tango/server/blackbox.h\<close>: the \<open>client_addr\<close> object that the
  call interceptor attaches to the thread of a request, its copy constructor,
  assignment, comparison and printing, the client identification data added to it
  by \<open>BlackBox::add_cl_ident\<close>, and the interceptor itself. The name service
  (\<open>inet_pton\<close> followed by \<open>getnameinfo\<close>) is a parameter \<open>getname\<close>: the
  host name of a dotted address, \<open>None\<close> where \<open>getnameinfo\<close> fails.
\<close>

section \<open>Data\<close>

definition IP_ADDR_BUFFER_SIZE :: nat where
  "IP_ADDR_BUFFER_SIZE = 80"

text \<open>
  The discriminator of the \<open>ClntIdent\<close> union. \<open>Lang_other\<close> stands for every
  value that the \<open>default\<close> label of the sources catches.
\<close>

datatype LockerLanguage = CPP | JAVA | CPP_6 | JAVA_6 | Lang_other

record JavaClntIdent =
  MainClass :: string
  uuid0 :: "64 word"
  uuid1 :: "64 word"

datatype ClntIdent =
    Cpp_clnt nat
  | Java_clnt JavaClntIdent
  | Cpp_clnt_6 nat
  | Java_clnt_6 JavaClntIdent
  | Other_clnt

fun ClntIdent_d :: "ClntIdent \<Rightarrow> LockerLanguage" where
  "ClntIdent_d (Cpp_clnt pid) = CPP"
| "ClntIdent_d (Java_clnt j) = JAVA"
| "ClntIdent_d (Cpp_clnt_6 pid) = CPP_6"
| "ClntIdent_d (Java_clnt_6 j) = JAVA_6"
| "ClntIdent_d Other_clnt = Lang_other"

record client_addr =
  ca_client_ident :: bool
  ca_client_ip :: cbuf
  ca_client_lang :: LockerLanguage
  ca_client_pid :: nat
  ca_java_main_class :: string
  ca_java_ident0 :: "64 word"
  ca_java_ident1 :: "64 word"

text \<open>A well-formed address: the buffer has its size and holds a terminated string.\<close>

definition ca_ok :: "client_addr \<Rightarrow> bool" where
  "ca_ok a \<longleftrightarrow> cbuf_ok IP_ADDR_BUFFER_SIZE (ca_client_ip a)"


section \<open>Construction, copy, assignment\<close>

text \<open>
  The constructors initialise part of the object; \<open>mem\<close> is the content of the
  storage it is built in, which shows through in what they leave out.
\<close>

definition client_addr_default :: "client_addr \<Rightarrow> client_addr" where
  "client_addr_default mem =
     mem\<lparr>ca_client_ident := False, ca_client_lang := CPP, ca_client_pid := 0,
         ca_java_main_class := [],
         ca_client_ip := (ca_client_ip mem)[0 := NUL],
         ca_java_ident0 := 0, ca_java_ident1 := 0\<rparr>"

definition client_addr_of :: "client_addr \<Rightarrow> string \<Rightarrow> client_addr result" where
  "client_addr_of mem addr =
     rbind (strcpy_buf (ca_client_ip mem) addr) (\<lambda>buf.
       Ok (mem\<lparr>ca_client_ident := False, ca_client_lang := CPP, ca_client_pid := 0,
               ca_java_main_class := [], ca_client_ip := buf\<rparr>))"

definition client_addr_copy :: "client_addr \<Rightarrow> client_addr \<Rightarrow> client_addr" where
  "client_addr_copy self rhs =
     self\<lparr>ca_client_ident := ca_client_ident rhs,
          ca_client_lang := ca_client_lang rhs,
          ca_client_pid := ca_client_pid rhs,
          ca_java_main_class := ca_java_main_class rhs,
          ca_java_ident0 := ca_java_ident0 rhs,
          ca_java_ident1 := ca_java_ident1 rhs,
          ca_client_ip := ca_client_ip rhs\<rparr>"


section \<open>Comparison\<close>

definition is_cpp_lang :: "LockerLanguage \<Rightarrow> bool" where
  "is_cpp_lang l \<longleftrightarrow> l = CPP \<or> l = CPP_6"

definition client_addr_eq :: "client_addr \<Rightarrow> client_addr \<Rightarrow> bool result" where
  "client_addr_eq a rhs =
     (if ca_client_ident a \<noteq> ca_client_ident rhs then Ok False
      else if ca_client_lang a \<noteq> ca_client_lang rhs then Ok False
      else if is_cpp_lang (ca_client_lang a) then
        (if ca_client_pid a \<noteq> ca_client_pid rhs then Ok False
         else rbind (c_str (ca_client_ip a)) (\<lambda>tmp.
              rbind (c_str (ca_client_ip rhs)) (\<lambda>rhs_tmp.
                if length tmp \<noteq> length rhs_tmp then Ok False
                else if tmp \<noteq> rhs_tmp then Ok False
                else Ok True)))
      else if ca_java_ident0 a \<noteq> ca_java_ident0 rhs then Ok False
      else if ca_java_ident1 a \<noteq> ca_java_ident1 rhs then Ok False
      else Ok True)"

definition client_addr_neq :: "client_addr \<Rightarrow> client_addr \<Rightarrow> bool result" where
  "client_addr_neq a rhs =
     (if ca_client_ident a \<noteq> ca_client_ident rhs then Ok True
      else if ca_client_lang a \<noteq> ca_client_lang rhs then Ok True
      else if is_cpp_lang (ca_client_lang a) then
        (if ca_client_pid a \<noteq> ca_client_pid rhs then Ok True
         else rbind (c_str (ca_client_ip a)) (\<lambda>tmp.
              rbind (c_str (ca_client_ip rhs)) (\<lambda>rhs_tmp.
                if length tmp \<noteq> length rhs_tmp then Ok True
                else if tmp \<noteq> rhs_tmp then Ok True
                else Ok False)))
      else if ca_java_ident0 a \<noteq> ca_java_ident0 rhs then Ok True
      else if ca_java_ident1 a \<noteq> ca_java_ident1 rhs then Ok True
      else Ok False)"


section \<open>Identification data\<close>

text \<open>
  A unix-domain end point carries the process identification after a blank, which
  is cut off once the identification has been received separately.
\<close>

definition cut_unix_addr :: "client_addr \<Rightarrow> client_addr result" where
  "cut_unix_addr a =
     rbind (c_str (ca_client_ip a)) (\<lambda>str.
       if find_str '':unix:'' str \<noteq> None then
         (case find_char (CHR '' '') str of
            None \<Rightarrow> Ok a
          | Some pos \<Rightarrow>
              rbind (vec_set (ca_client_ip a) (int pos) NUL) (\<lambda>buf.
                Ok (a\<lparr>ca_client_ip := buf\<rparr>)))
       else Ok a)"

fun add_cl_ident :: "ClntIdent \<Rightarrow> client_addr \<Rightarrow> client_addr result" where
  "add_cl_ident (Cpp_clnt pid) a =
     cut_unix_addr (a\<lparr>ca_client_ident := True, ca_client_lang := CPP, ca_client_pid := pid\<rparr>)"
| "add_cl_ident (Cpp_clnt_6 pid) a =
     cut_unix_addr (a\<lparr>ca_client_ident := True, ca_client_lang := CPP_6, ca_client_pid := pid\<rparr>)"
| "add_cl_ident (Java_clnt jci) a =
     Ok (a\<lparr>ca_client_ident := True, ca_client_lang := JAVA,
           ca_java_main_class := MainClass jci,
           ca_java_ident0 := uuid0 jci, ca_java_ident1 := uuid1 jci\<rparr>)"
| "add_cl_ident (Java_clnt_6 jci) a =
     Ok (a\<lparr>ca_client_ident := True, ca_client_lang := JAVA_6,
           ca_java_main_class := MainClass jci,
           ca_java_ident0 := uuid0 jci, ca_java_ident1 := uuid1 jci\<rparr>)"
| "add_cl_ident Other_clnt a =
     Ok (a\<lparr>ca_client_ident := True, ca_client_lang := Lang_other,
           ca_java_main_class := ''undefined'',
           ca_java_ident0 := 0, ca_java_ident1 := 0\<rparr>)"


section \<open>Host names and printing\<close>

text \<open>
  The dotted part of an end point \<open>giop:tcp:a.b.c.d:port\<close>: \<open>None\<close> is the
  return code -1 of the source. Three dots must be found one after the other.
\<close>

definition has_three_dots :: "string \<Rightarrow> bool" where
  "has_three_dots s =
     (case find_char (CHR ''.'') s of
        None \<Rightarrow> False
      | Some p1 \<Rightarrow>
         (case find_from (CHR ''.'') (p1 + 1) s of
            None \<Rightarrow> False
          | Some p2 \<Rightarrow> find_from (CHR ''.'') (p2 + 1) s \<noteq> None))"

definition client_ip_2_client_name ::
    "(string \<Rightarrow> string option) \<Rightarrow> client_addr \<Rightarrow> string option result" where
  "client_ip_2_client_name getname a =
     rbind (c_str (ca_client_ip a)) (\<lambda>client_ip_str.
       Ok (case find_char (CHR '':'') client_ip_str of
             None \<Rightarrow> None
           | Some pos \<Rightarrow>
              (case find_from (CHR '':'') (pos + 1) client_ip_str of
                 None \<Rightarrow> None
               | Some pos2 \<Rightarrow>
                  (let ip_str = substr_from (pos2 + 1) client_ip_str in
                   case find_char (CHR '':'') ip_str of
                     None \<Rightarrow> None
                   | Some pos3 \<Rightarrow>
                      (let full_ip_str = substr_to pos3 ip_str in
                       if has_three_dots full_ip_str then getname full_ip_str else None)))))"

definition print_client_addr ::
    "(string \<Rightarrow> string option) \<Rightarrow> client_addr \<Rightarrow> string result" where
  "print_client_addr getname ca =
     (if \<not> ca_client_ident ca then Ok ''Client identification not available''
      else
        rbind (client_ip_2_client_name getname ca) (\<lambda>cl_name.
        rbind (c_str (ca_client_ip ca)) (\<lambda>ip.
          Ok ((if is_cpp_lang (ca_client_lang ca)
               then ''CPP or Python client with PID '' @ dec (ca_client_pid ca)
               else ''JAVA client class '' @ ca_java_main_class ca)
              @ '' from host ''
              @ (case cl_name of Some n \<Rightarrow> n | None \<Rightarrow> ip)))))"


section \<open>The call interceptor\<close>

text \<open>
  What \<open>omniCallDescriptor::callHandle\<close> tells about a call: no call handle, a
  handle without connection or peer address, or a remote peer.
\<close>

datatype call_handle = No_handle | Local_handle | Remote_peer string

text \<open>
  \<open>slot\<close> is the thread-specific value before the call. A copy of it is kept, the
  object for this call is attached, the intercepted call runs (it may change the
  attached object and it may throw), and the copy is attached again in either
  case. The pair is the outcome of the call and the thread-specific value left
  behind.
\<close>

definition client_call_interceptor ::
    "client_addr \<Rightarrow> call_handle \<Rightarrow> (client_addr \<Rightarrow> 'r result) \<Rightarrow> client_addr option \<Rightarrow>
     'r result \<times> client_addr option" where
  "client_call_interceptor mem ch interceptedCall slot =
     (let previous_client_addr = map_option (client_addr_copy mem) slot;
          outcome =
            rbind (case ch of
                     No_handle \<Rightarrow> client_addr_of mem ''collocated client (c++ to c++ call)''
                   | Local_handle \<Rightarrow> client_addr_of mem ''collocated client (POA or Python to c++ call)''
                   | Remote_peer peer \<Rightarrow> client_addr_of mem peer)
              interceptedCall
      in (outcome, previous_client_addr))"


section \<open>Lemmas\<close>

lemma client_addr_copy_eq [simp]: "client_addr_copy self rhs = rhs"
  by (cases self, cases rhs) (simp add: client_addr_copy_def)

text \<open>What the comparison decides on well-formed addresses.\<close>

definition same_client :: "client_addr \<Rightarrow> client_addr \<Rightarrow> bool" where
  "same_client a b \<longleftrightarrow>
     ca_client_ident a = ca_client_ident b \<and> ca_client_lang a = ca_client_lang b \<and>
     (if is_cpp_lang (ca_client_lang a)
      then ca_client_pid a = ca_client_pid b \<and> c_str (ca_client_ip a) = c_str (ca_client_ip b)
      else ca_java_ident0 a = ca_java_ident0 b \<and> ca_java_ident1 a = ca_java_ident1 b)"

lemma ca_ok_c_str:
  "ca_ok a \<Longrightarrow> c_str (ca_client_ip a) = Ok (takeWhile (\<lambda>c. c \<noteq> NUL) (ca_client_ip a))"
  by (auto simp: ca_ok_def intro: c_str_Ok)

lemma client_addr_eq_same:
  "ca_ok a \<Longrightarrow> ca_ok b \<Longrightarrow> client_addr_eq a b = Ok (same_client a b)"
  by (auto simp: client_addr_eq_def same_client_def ca_ok_c_str)

lemma client_addr_neq_same:
  "ca_ok a \<Longrightarrow> ca_ok b \<Longrightarrow> client_addr_neq a b = Ok (\<not> same_client a b)"
  by (auto simp: client_addr_neq_def same_client_def ca_ok_c_str)

lemma same_client_refl: "same_client a a"
  by (simp add: same_client_def)

lemma same_client_sym: "same_client a b \<Longrightarrow> same_client b a"
  by (auto simp: same_client_def split: if_splits)

lemma same_client_trans: "same_client a b \<Longrightarrow> same_client b c \<Longrightarrow> same_client a c"
  by (auto simp: same_client_def split: if_splits)

lemma cut_unix_addr_ok:
  "ca_ok a \<Longrightarrow> \<exists>a'. cut_unix_addr a = Ok a' \<and> ca_ok a' \<and>
     ca_client_ident a' = ca_client_ident a \<and> ca_client_lang a' = ca_client_lang a \<and>
     ca_client_pid a' = ca_client_pid a \<and> ca_java_main_class a' = ca_java_main_class a"
proof -
  assume ok: "ca_ok a"
  let ?s = "takeWhile (\<lambda>c. c \<noteq> NUL) (ca_client_ip a)"
  have cs: "c_str (ca_client_ip a) = Ok ?s" using ok by (rule ca_ok_c_str)
  show ?thesis
  proof (cases "find_char (CHR '' '') ?s")
    case (Some pos)
    have "pos < length (ca_client_ip a)"
      using find_char_Some_less[OF Some] length_takeWhile_le by (rule less_le_trans)
    moreover then have "NUL \<in> set ((ca_client_ip a)[pos := NUL])"
      by (rule set_update_memI)
    ultimately show ?thesis
      using ok by (auto simp: cut_unix_addr_def cs Some vec_set_nat ca_ok_def cbuf_ok_def)
  qed (use ok in \<open>auto simp: cut_unix_addr_def cs\<close>)
qed

lemma add_cl_ident_ok:
  "ca_ok a \<Longrightarrow> \<exists>a'. add_cl_ident cl_id a = Ok a' \<and> ca_ok a' \<and> ca_client_ident a' \<and>
     ca_client_lang a' = ClntIdent_d cl_id"
proof (cases cl_id)
  case (Cpp_clnt pid)
  assume "ca_ok a"
  then show ?thesis
    using Cpp_clnt cut_unix_addr_ok[of "a\<lparr>ca_client_ident := True, ca_client_lang := CPP, ca_client_pid := pid\<rparr>"]
    by (fastforce simp: ca_ok_def)
next
  case (Cpp_clnt_6 pid)
  assume "ca_ok a"
  then show ?thesis
    using Cpp_clnt_6 cut_unix_addr_ok[of "a\<lparr>ca_client_ident := True, ca_client_lang := CPP_6, ca_client_pid := pid\<rparr>"]
    by (fastforce simp: ca_ok_def)
qed (auto simp: ca_ok_def)

lemma client_addr_of_ok:
  "ca_ok mem \<Longrightarrow> length addr < IP_ADDR_BUFFER_SIZE \<Longrightarrow>
     \<exists>a. client_addr_of mem addr = Ok a \<and> ca_ok a"
  using strcpy_buf_ok[of IP_ADDR_BUFFER_SIZE "ca_client_ip mem" addr]
  by (auto simp: client_addr_of_def ca_ok_def)



section \<open>Properties\<close>

text \<open>
  (C27) The comparison of client addresses, by which a device decides whether a
  request comes from the client that locked it, is an equivalence relation that
  never fails on well-formed addresses, and \<open>operator!=\<close> is its negation.
\<close>

theorem client_addr_eq_equivalence:
  assumes "ca_ok a" "ca_ok b" "ca_ok c"
  shows "client_addr_eq a a = Ok True \<and>
     client_addr_eq a b = client_addr_eq b a \<and>
     (client_addr_eq a b = Ok True \<longrightarrow> client_addr_eq b c = Ok True \<longrightarrow> client_addr_eq a c = Ok True) \<and>
     (\<exists>v. client_addr_eq a b = Ok v \<and> client_addr_neq a b = Ok (\<not> v))"
proof -
  have "same_client a b = same_client b a" using same_client_sym by blast
  moreover have "same_client a b \<Longrightarrow> same_client b c \<Longrightarrow> same_client a c"
    by (rule same_client_trans)
  ultimately show ?thesis
    by (simp add: assms client_addr_eq_same client_addr_neq_same same_client_refl)
qed

theorem client_addr_eq_equivalence_witness:
  "\<exists>a b :: client_addr. client_addr_eq a a = Ok True \<and> client_addr_eq a b = client_addr_eq b a \<and>
     (\<exists>v. client_addr_eq a b = Ok v \<and> client_addr_neq a b = Ok (\<not> v))"
proof -
  let ?a = "\<lparr>ca_client_ident = True, ca_client_ip = replicate 80 NUL, ca_client_lang = CPP, ca_client_pid = 12,
     ca_java_main_class = [], ca_java_ident0 = 0, ca_java_ident1 = 0\<rparr>"
  have a: "ca_ok ?a" by (simp add: ca_ok_def cbuf_ok_def IP_ADDR_BUFFER_SIZE_def)
  have b: "ca_ok (?a\<lparr>ca_client_pid := 13\<rparr>)" by (simp add: ca_ok_def cbuf_ok_def IP_ADDR_BUFFER_SIZE_def)
  show ?thesis using client_addr_eq_equivalence[OF a b a] by blast
qed

end
