(* ===== verification/Black_Box.thy ===== *)
theory Black_Box
  imports Circular_Buffer Client_Addr
begin

text \<open>
  The black box of a device (\<open>src/server/blackbox.cpp\<close>): a circular vector of
  records, one per CORBA request the device received, filled by the \<open>insert_*\<close>
  operations and read back as strings, newest first. The data types, every insert
  operation, the index management, the client host lookup, the translation of a
  record to a string and \<open>read\<close> are modelled; the mutex \<open>sync\<close> is held for
  the whole of each public operation, so each is one atomic step.

  Parameters of the model: the clock and the thread of the request (\<open>bb_env\<close>),
  the local time conversion, the name service and the name of the host.
\<close>

section \<open>Data\<close>

definition DefaultBlackBoxDepth :: int where
  "DefaultBlackBoxDepth = 50"

datatype DevSource = DEV | CACHE | CACHE_DEV | Source_other

datatype BlackBoxElt_ReqType = Req_Unknown | Req_Operation | Req_Attribute

datatype BlackBoxElt_AttrType =
    Attr_Unknown | Attr_Name | Attr_Description | Attr_State | Attr_Status | Attr_AdmName

datatype BlackBoxElt_OpType =
    Op_Unknown
  | Op_Command_inout
  | Op_BlackBox
  | Op_Ping
  | Op_Info
  | Op_Command_list
  | Op_Command
  | Op_Get_Attr_Config
  | Op_Set_Attr_Config
  | Op_Read_Attr
  | Op_Write_Attr
  | Op_Command_inout_2
  | Op_Command_list_2
  | Op_Command_2
  | Op_Get_Attr_Config_2
  | Op_Read_Attr_2
  | Op_Command_inout_history_2
  | Op_Read_Attr_history_2
  | Op_Read_Attr_3
  | Op_Write_Attr_3
  | Op_Read_Attr_history_3
  | Op_Info_3
  | Op_Get_Attr_Config_3
  | Op_Set_Attr_Config_3
  | Op_Read_Attr_history_4
  | Op_Command_inout_history_4
  | Op_Command_inout_4
  | Op_Write_Attr_4
  | Op_Read_Attr_4
  | Op_Set_Attr_Config_4
  | Op_Write_Read_Attributes_4
  | Op_Get_Attr_Config_5
  | Op_Set_Attr_Config_5
  | Op_Read_Attr_5
  | Op_Write_Read_Attributes_5
  | Op_Read_Attr_history_5
  | Op_Get_Pipe_Config_5
  | Op_Set_Pipe_Config_5
  | Op_Read_Pipe_5
  | Op_Write_Pipe_5
  | Op_Write_Read_Pipe_5
  | Op_Info_6

text \<open>Dates are nanoseconds since the epoch (\<open>std::chrono::system_clock\<close>).\<close>

record BlackBoxElt =
  req_type :: BlackBoxElt_ReqType
  attr_type :: BlackBoxElt_AttrType
  op_type :: BlackBoxElt_OpType
  cmd_name :: string
  attr_names :: "string list"
  bb_when :: nat
  host_ip_str :: cbuf
  bb_source :: DevSource
  client_ident :: bool
  client_lang :: LockerLanguage
  client_pid :: nat
  java_main_class :: string

record BlackBox =
  box :: "BlackBoxElt list"
  insert_elt :: int
  nb_elt :: int
  max_elt :: int

text \<open>
  The surroundings of a request: the clock, the identity of the calling thread,
  the identities of the polling threads, and whether the server is starting.
\<close>

record bb_env =
  env_now :: nat
  env_thread_id :: int
  env_poll_ths :: "int list"
  env_svr_starting :: bool

text \<open>
  Constructors. \<open>mem\<close> is the previous content of the storage of each element;
  the element constructor leaves the language, process, main class, source and all
  but the first byte of the host buffer as they were (strings and vectors start
  empty).
\<close>

definition BlackBoxElt_init :: "BlackBoxElt \<Rightarrow> BlackBoxElt" where
  "BlackBoxElt_init mem =
     mem\<lparr>req_type := Req_Unknown, attr_type := Attr_Unknown, op_type := Op_Unknown,
         cmd_name := [], attr_names := [], java_main_class := [],
         bb_when := 0, host_ip_str := (host_ip_str mem)[0 := NUL], client_ident := False\<rparr>"

definition BlackBox_new :: "BlackBoxElt list \<Rightarrow> int \<Rightarrow> BlackBox" where
  "BlackBox_new mem max_size =
     \<lparr>box = map BlackBoxElt_init (take (nat max_size) mem), insert_elt = 0, nb_elt = 0,
      max_elt = max_size\<rparr>"

definition BlackBox_default :: "BlackBoxElt list \<Rightarrow> BlackBox" where
  "BlackBox_default mem =
     \<lparr>box = map BlackBoxElt_init (take (nat DefaultBlackBoxDepth) mem), insert_elt = 0,
      nb_elt = 0, max_elt = DefaultBlackBoxDepth\<rparr>"


section \<open>Index management and client host\<close>

definition inc_indexes :: "BlackBox \<Rightarrow> BlackBox" where
  "inc_indexes b =
     (let ie = insert_elt b + 1;
          ie = (if ie = max_elt b then 0 else ie);
          nb = (if nb_elt b \<noteq> max_elt b then nb_elt b + 1 else nb_elt b)
      in b\<lparr>insert_elt := ie, nb_elt := nb\<rparr>)"

text \<open>Assignments to fields of \<open>box[insert_elt]\<close>.\<close>

definition upd_elt :: "int \<Rightarrow> (BlackBoxElt \<Rightarrow> BlackBoxElt) \<Rightarrow> BlackBox \<Rightarrow> BlackBox result" where
  "upd_elt i f b =
     rbind (vec_get (box b) i) (\<lambda>e.
     rbind (vec_set (box b) i (f e)) (\<lambda>xs. Ok (b\<lparr>box := xs\<rparr>)))"

text \<open>
  The text that names the caller: the polling threads and the server start-up
  when no client is attached to the thread, else the address of the client.
\<close>

definition client_host_text :: "bb_env \<Rightarrow> client_addr option \<Rightarrow> string result" where
  "client_host_text env ip =
     (case ip of
        None \<Rightarrow>
          (let found_thread = (env_thread_id env \<in> set (env_poll_ths env)) in
           if env_svr_starting env then
             (if found_thread then Ok ''polling'' else Ok ''init'')
           else
             (if found_thread then Ok ''polling'' else Ok ''user thread''))
      | Some a \<Rightarrow> c_str (ca_client_ip a))"

definition get_client_host :: "bb_env \<Rightarrow> client_addr option \<Rightarrow> BlackBox \<Rightarrow> BlackBox result" where
  "get_client_host env ip b =
     rbind (client_host_text env ip) (\<lambda>txt.
     rbind (vec_get (box b) (insert_elt b)) (\<lambda>e.
     rbind (strcpy_buf (host_ip_str e) txt) (\<lambda>buf.
       upd_elt (insert_elt b) (\<lambda>e. e\<lparr>host_ip_str := buf\<rparr>) b)))"

text \<open>The test on the first character that recognises polling, user and init threads.\<close>

definition is_internal_call :: "BlackBox \<Rightarrow> int \<Rightarrow> bool result" where
  "is_internal_call b i =
     rbind (vec_get (box b) i) (\<lambda>e.
     rbind (vec_get (host_ip_str e) 0) (\<lambda>c.
       Ok (c = CHR ''p'' \<or> c = CHR ''u'' \<or> c = CHR ''i'')))"

definition update_client_host :: "client_addr \<Rightarrow> BlackBox \<Rightarrow> BlackBox result" where
  "update_client_host ip b =
     (let local_insert_elt = (if insert_elt b = 0 then max_elt b - 1 else insert_elt b - 1) in
      upd_elt local_insert_elt (\<lambda>e. e\<lparr>client_ident := True,
        client_lang := ca_client_lang ip, client_pid := ca_client_pid ip,
        java_main_class := ca_java_main_class ip\<rparr>) b)"

text \<open>
  The tail shared by the operations that receive the identification of the client:
  nothing more for an internal call, else the identification goes to the client
  address attached to the thread (a null dereference if there is none) and to the
  record just inserted.
\<close>

definition add_client_info ::
    "ClntIdent \<Rightarrow> bool \<Rightarrow> client_addr option \<Rightarrow> BlackBox \<Rightarrow> (BlackBox \<times> client_addr option) result" where
  "add_client_info cl_id internal ip b =
     (if internal then Ok (b, ip)
      else case ip of
             None \<Rightarrow> Undef
           | Some a \<Rightarrow>
               rbind (add_cl_ident cl_id a) (\<lambda>a'.
               rbind (update_client_host a' b) (\<lambda>b'.
                 Ok (b', Some a'))))"


section \<open>The insert operations\<close>

text \<open>Every insertion ends with the client host and the index management.\<close>

definition finish_insert :: "bb_env \<Rightarrow> client_addr option \<Rightarrow> BlackBox \<Rightarrow> BlackBox result" where
  "finish_insert env ip b =
     rbind (get_client_host env ip b) (\<lambda>b'. Ok (inc_indexes b'))"

definition insert_corba_attr ::
    "bb_env \<Rightarrow> client_addr option \<Rightarrow> BlackBoxElt_AttrType \<Rightarrow> BlackBox \<Rightarrow> BlackBox result" where
  "insert_corba_attr env ip attr b =
     rbind (upd_elt (insert_elt b) (\<lambda>e. e\<lparr>req_type := Req_Attribute, attr_type := attr,
              op_type := Op_Unknown, client_ident := False, bb_when := env_now env\<rparr>) b)
       (finish_insert env ip)"

definition cmd_op_type :: "int \<Rightarrow> BlackBoxElt_OpType" where
  "cmd_op_type vers =
     (if vers = 1 then Op_Command_inout
      else if vers \<le> 3 then Op_Command_inout_2
      else Op_Command_inout_4)"

definition insert_cmd_nl ::
    "bb_env \<Rightarrow> client_addr option \<Rightarrow> string \<Rightarrow> int \<Rightarrow> DevSource \<Rightarrow> BlackBox \<Rightarrow> BlackBox result" where
  "insert_cmd_nl env ip cmd vers sour b =
     rbind (upd_elt (insert_elt b) (\<lambda>e. e\<lparr>req_type := Req_Operation, attr_type := Attr_Unknown,
              op_type := cmd_op_type vers, cmd_name := cmd, bb_source := sour,
              client_ident := False, bb_when := env_now env\<rparr>) b)
       (finish_insert env ip)"

definition insert_cmd ::
    "bb_env \<Rightarrow> client_addr option \<Rightarrow> string \<Rightarrow> int \<Rightarrow> DevSource \<Rightarrow> BlackBox \<Rightarrow> BlackBox result" where
  "insert_cmd env ip cmd vers sour b = insert_cmd_nl env ip cmd vers sour b"

definition insert_cmd_cl_ident ::
    "bb_env \<Rightarrow> client_addr option \<Rightarrow> string \<Rightarrow> ClntIdent \<Rightarrow> int \<Rightarrow> DevSource \<Rightarrow> BlackBox \<Rightarrow>
     (BlackBox \<times> client_addr option) result" where
  "insert_cmd_cl_ident env ip cmd cl_id vers sour b =
     (let old_insert = insert_elt b in
      rbind (insert_cmd_nl env ip cmd vers sour b) (\<lambda>b1.
      rbind (is_internal_call b1 old_insert) (\<lambda>internal.
        add_client_info cl_id internal ip b1)))"

definition insert_op_nl ::
    "bb_env \<Rightarrow> client_addr option \<Rightarrow> BlackBoxElt_OpType \<Rightarrow> BlackBox \<Rightarrow> BlackBox result" where
  "insert_op_nl env ip op b =
     rbind (upd_elt (insert_elt b) (\<lambda>e. e\<lparr>req_type := Req_Operation, attr_type := Attr_Unknown,
              op_type := op, client_ident := False, bb_when := env_now env\<rparr>) b)
       (finish_insert env ip)"

definition insert_op ::
    "bb_env \<Rightarrow> client_addr option \<Rightarrow> BlackBoxElt_OpType \<Rightarrow> BlackBox \<Rightarrow> BlackBox result" where
  "insert_op env ip op b = insert_op_nl env ip op b"

definition insert_op_cl_ident ::
    "bb_env \<Rightarrow> client_addr option \<Rightarrow> BlackBoxElt_OpType \<Rightarrow> ClntIdent \<Rightarrow> BlackBox \<Rightarrow>
     (BlackBox \<times> client_addr option) result" where
  "insert_op_cl_ident env ip op cl_id b =
     (let old_insert = insert_elt b in
      rbind (insert_op_nl env ip op b) (\<lambda>b1.
      rbind (is_internal_call b1 old_insert) (\<lambda>internal.
        add_client_info cl_id internal ip b1)))"

text \<open>
  \<open>read_attributes\<close> without identification: the switch on the interface version
  has no default, so any other version keeps the operation the slot held before.
\<close>

definition read_op_type :: "int \<Rightarrow> BlackBoxElt_OpType \<Rightarrow> BlackBoxElt_OpType" where
  "read_op_type vers old =
     (if vers = 1 then Op_Read_Attr
      else if vers = 2 then Op_Read_Attr_2
      else if vers = 3 then Op_Read_Attr_3
      else if vers = 4 then Op_Read_Attr_4
      else old)"

definition insert_attr ::
    "bb_env \<Rightarrow> client_addr option \<Rightarrow> string list \<Rightarrow> int \<Rightarrow> DevSource \<Rightarrow> BlackBox \<Rightarrow> BlackBox result" where
  "insert_attr env ip names vers sour b =
     rbind (upd_elt (insert_elt b) (\<lambda>e. e\<lparr>req_type := Req_Operation, attr_type := Attr_Unknown,
              op_type := read_op_type vers (op_type e), bb_source := sour, client_ident := False,
              attr_names := names, bb_when := env_now env\<rparr>) b)
       (finish_insert env ip)"

definition insert_attr_cl_ident ::
    "bb_env \<Rightarrow> client_addr option \<Rightarrow> string list \<Rightarrow> ClntIdent \<Rightarrow> int \<Rightarrow> DevSource \<Rightarrow> BlackBox \<Rightarrow>
     (BlackBox \<times> client_addr option) result" where
  "insert_attr_cl_ident env ip names cl_id vers sour b =
     rbind (upd_elt (insert_elt b) (\<lambda>e. e\<lparr>req_type := Req_Operation, attr_type := Attr_Unknown,
              op_type := (if vers \<ge> 5 then Op_Read_Attr_5 else Op_Read_Attr_4),
              bb_source := sour, client_ident := False,
              attr_names := names, bb_when := env_now env\<rparr>) b) (\<lambda>b1.
     rbind (get_client_host env ip b1) (\<lambda>b2.
     rbind (is_internal_call b2 (insert_elt b2)) (\<lambda>poll_user.
       add_client_info cl_id poll_user ip (inc_indexes b2))))"

definition insert_attr_pipe ::
    "bb_env \<Rightarrow> client_addr option \<Rightarrow> string \<Rightarrow> ClntIdent \<Rightarrow> BlackBox \<Rightarrow>
     (BlackBox \<times> client_addr option) result" where
  "insert_attr_pipe env ip name cl_id b =
     rbind (upd_elt (insert_elt b) (\<lambda>e. e\<lparr>req_type := Req_Operation, attr_type := Attr_Unknown,
              op_type := Op_Read_Pipe_5, client_ident := False,
              attr_names := [name], bb_when := env_now env\<rparr>) b) (\<lambda>b1.
     rbind (get_client_host env ip b1) (\<lambda>b2.
     rbind (is_internal_call b2 (insert_elt b2)) (\<lambda>poll_user.
       add_client_info cl_id poll_user ip (inc_indexes b2))))"

definition insert_attr_pipe_val ::
    "bb_env \<Rightarrow> client_addr option \<Rightarrow> string \<Rightarrow> ClntIdent \<Rightarrow> int \<Rightarrow> BlackBox \<Rightarrow>
     (BlackBox \<times> client_addr option) result" where
  "insert_attr_pipe_val env ip pipe_name cl_id vers b =
     rbind (upd_elt (insert_elt b) (\<lambda>e. e\<lparr>req_type := Req_Operation, attr_type := Attr_Unknown,
              op_type := (if vers = 0 then Op_Write_Pipe_5 else Op_Write_Read_Pipe_5),
              client_ident := False, attr_names := [pipe_name], bb_when := env_now env\<rparr>) b) (\<lambda>b1.
     rbind (get_client_host env ip b1) (\<lambda>b2.
     rbind (is_internal_call b2 (insert_elt b2)) (\<lambda>poll_user.
       add_client_info cl_id poll_user ip (inc_indexes b2))))"

definition write_op_type :: "int \<Rightarrow> BlackBoxElt_OpType" where
  "write_op_type vers =
     (if vers = 1 then Op_Write_Attr else if vers < 4 then Op_Write_Attr_3 else Op_Write_Attr_4)"

definition insert_attr_nl ::
    "bb_env \<Rightarrow> client_addr option \<Rightarrow> string list \<Rightarrow> int \<Rightarrow> BlackBox \<Rightarrow> BlackBox result" where
  "insert_attr_nl env ip att_list vers b =
     rbind (upd_elt (insert_elt b) (\<lambda>e. e\<lparr>req_type := Req_Operation, attr_type := Attr_Unknown,
              op_type := write_op_type vers, attr_names := att_list,
              client_ident := False, bb_when := env_now env\<rparr>) b)
       (finish_insert env ip)"

definition insert_attr_list ::
    "bb_env \<Rightarrow> client_addr option \<Rightarrow> string list \<Rightarrow> int \<Rightarrow> BlackBox \<Rightarrow> BlackBox result" where
  "insert_attr_list env ip att_list vers b = insert_attr_nl env ip att_list vers b"

text \<open>Unlike its siblings, this insertion does not clear \<open>client_ident\<close>.\<close>

definition insert_attr_nl_4 ::
    "bb_env \<Rightarrow> client_addr option \<Rightarrow> string list \<Rightarrow> BlackBox \<Rightarrow> BlackBox result" where
  "insert_attr_nl_4 env ip att_list b =
     rbind (upd_elt (insert_elt b) (\<lambda>e. e\<lparr>req_type := Req_Operation, attr_type := Attr_Unknown,
              op_type := Op_Write_Attr_4, attr_names := att_list, bb_when := env_now env\<rparr>) b)
       (finish_insert env ip)"

definition insert_attr_list_4 ::
    "bb_env \<Rightarrow> client_addr option \<Rightarrow> string list \<Rightarrow> ClntIdent \<Rightarrow> BlackBox \<Rightarrow>
     (BlackBox \<times> client_addr option) result" where
  "insert_attr_list_4 env ip att_list cl_id b =
     (let old_insert = insert_elt b in
      rbind (insert_attr_nl_4 env ip att_list b) (\<lambda>b1.
      rbind (is_internal_call b1 old_insert) (\<lambda>internal.
        add_client_info cl_id internal ip b1)))"

text \<open>Nor does this one.\<close>

definition insert_attr_wr_nl ::
    "bb_env \<Rightarrow> client_addr option \<Rightarrow> string list \<Rightarrow> string list \<Rightarrow> int \<Rightarrow> BlackBox \<Rightarrow> BlackBox result" where
  "insert_attr_wr_nl env ip att_list r_names vers b =
     rbind (upd_elt (insert_elt b) (\<lambda>e. e\<lparr>req_type := Req_Operation, attr_type := Attr_Unknown,
              op_type := (if vers \<ge> 5 then Op_Write_Read_Attributes_5 else Op_Write_Read_Attributes_4),
              attr_names := att_list @ [''/''] @ r_names, bb_when := env_now env\<rparr>) b)
       (finish_insert env ip)"

definition insert_wr_attr ::
    "bb_env \<Rightarrow> client_addr option \<Rightarrow> string list \<Rightarrow> string list \<Rightarrow> ClntIdent \<Rightarrow> int \<Rightarrow> BlackBox \<Rightarrow>
     (BlackBox \<times> client_addr option) result" where
  "insert_wr_attr env ip att_list r_names cl_id vers b =
     (let old_insert = insert_elt b in
      rbind (insert_attr_wr_nl env ip att_list r_names vers b) (\<lambda>b1.
      rbind (is_internal_call b1 old_insert) (\<lambda>internal.
        add_client_info cl_id internal ip b1)))"


section \<open>One step per request\<close>

text \<open>
  The public operations as requests, with the dispatch to the operation that
  records each. The client address attached to the thread is part of the state:
  the operations that receive an identification write it there as well.
\<close>

datatype bb_request =
    Corba_attr BlackBoxElt_AttrType
  | Cmd string int DevSource
  | Cmd_cl_ident string ClntIdent int DevSource
  | Op BlackBoxElt_OpType
  | Op_cl_ident BlackBoxElt_OpType ClntIdent
  | Attr_read "string list" int DevSource
  | Attr_read_cl_ident "string list" ClntIdent int DevSource
  | Pipe_read string ClntIdent
  | Pipe_write string ClntIdent int
  | Attr_write "string list" int
  | Attr_write_4 "string list" ClntIdent
  | Attr_write_read "string list" "string list" ClntIdent int

abbreviation keep_ip :: "client_addr option \<Rightarrow> BlackBox result \<Rightarrow> (BlackBox \<times> client_addr option) result" where
  "keep_ip ip r \<equiv> rbind r (\<lambda>b. Ok (b, ip))"

fun bb_apply ::
    "bb_env \<Rightarrow> client_addr option \<Rightarrow> bb_request \<Rightarrow> BlackBox \<Rightarrow> (BlackBox \<times> client_addr option) result" where
  "bb_apply env ip (Corba_attr a) b = keep_ip ip (insert_corba_attr env ip a b)"
| "bb_apply env ip (Cmd c v s) b = keep_ip ip (insert_cmd env ip c v s b)"
| "bb_apply env ip (Cmd_cl_ident c cl v s) b = insert_cmd_cl_ident env ip c cl v s b"
| "bb_apply env ip (Op o') b = keep_ip ip (insert_op env ip o' b)"
| "bb_apply env ip (Op_cl_ident o' cl) b = insert_op_cl_ident env ip o' cl b"
| "bb_apply env ip (Attr_read ns v s) b = keep_ip ip (insert_attr env ip ns v s b)"
| "bb_apply env ip (Attr_read_cl_ident ns cl v s) b = insert_attr_cl_ident env ip ns cl v s b"
| "bb_apply env ip (Pipe_read n cl) b = insert_attr_pipe env ip n cl b"
| "bb_apply env ip (Pipe_write n cl v) b = insert_attr_pipe_val env ip n cl v b"
| "bb_apply env ip (Attr_write ns v) b = keep_ip ip (insert_attr_list env ip ns v b)"
| "bb_apply env ip (Attr_write_4 ns cl) b = insert_attr_list_4 env ip ns cl b"
| "bb_apply env ip (Attr_write_read ws rs cl v) b = insert_wr_attr env ip ws rs cl v b"

text \<open>Requests one after the other, each with its own surroundings and thread.\<close>

fun bb_run :: "(bb_env \<times> client_addr option \<times> bb_request) list \<Rightarrow> BlackBox \<Rightarrow> BlackBox result" where
  "bb_run [] b = Ok b"
| "bb_run ((env, ip, req) # rs) b = rbind (bb_apply env ip req b) (\<lambda>(b', ip'). bb_run rs b')"


section \<open>Invariant\<close>

definition elt_ok :: "BlackBoxElt \<Rightarrow> bool" where
  "elt_ok e \<longleftrightarrow> cbuf_ok IP_ADDR_BUFFER_SIZE (host_ip_str e)"

definition bb_inv :: "BlackBox \<Rightarrow> bool" where
  "bb_inv b \<longleftrightarrow> ring_inv (length (box b)) (insert_elt b) (nb_elt b) (max_elt b) \<and>
     (\<forall>e \<in> set (box b). elt_ok e)"

definition caller_ok :: "client_addr option \<Rightarrow> bool" where
  "caller_ok ip \<longleftrightarrow> (case ip of None \<Rightarrow> True | Some a \<Rightarrow> ca_ok a)"

text \<open>Writing one record and advancing the indices: the push of the circular store.\<close>

definition bb_store :: "BlackBoxElt \<Rightarrow> BlackBox \<Rightarrow> BlackBox" where
  "bb_store e b = inc_indexes (b\<lparr>box := (box b)[nat (insert_elt b) := e]\<rparr>)"

interpretation bb: circular_store box insert_elt nb_elt max_elt bb_store
  by unfold_locales (auto simp: bb_store_def inc_indexes_def Let_def next_idx_def)

abbreviation bb_hist :: "BlackBox \<Rightarrow> BlackBoxElt list" where
  "bb_hist b \<equiv> newest (box b) (insert_elt b) (nb_elt b) (max_elt b)"

abbreviation bb_slot :: "BlackBox \<Rightarrow> BlackBoxElt" where
  "bb_slot b \<equiv> box b ! nat (insert_elt b)"

lemma bb_inv_range:
  "bb_inv b \<Longrightarrow> 0 \<le> insert_elt b \<and> insert_elt b < int (length (box b)) \<and> nat (insert_elt b) < length (box b)"
  by (auto simp: bb_inv_def ring_inv_def)

lemma bb_inv_slot: "bb_inv b \<Longrightarrow> elt_ok (bb_slot b)"
  using bb_inv_range[of b] by (auto simp: bb_inv_def)

lemma bb_inv_store: "bb_inv b \<Longrightarrow> elt_ok e \<Longrightarrow> bb_inv (bb_store e b)"
proof -
  assume b: "bb_inv b" and e: "elt_ok e"
  then have r: "ring_inv (length (box b)) (insert_elt b) (nb_elt b) (max_elt b)"
    by (simp add: bb_inv_def)
  have "box (bb_store e b) = (box b)[nat (insert_elt b) := e]"
    by (simp add: bb_store_def inc_indexes_def Let_def)
  then have "\<forall>x \<in> set (box (bb_store e b)). elt_ok x"
    using b e by (auto simp: bb_inv_def dest!: set_update_subset_insert[THEN subsetD])
  then show ?thesis using bb.valid_push[OF r] by (simp add: bb_inv_def)
qed

lemma BlackBox_new_inv:
  assumes "0 < max_size" "nat max_size \<le> length mem"
    "\<forall>e \<in> set mem. length (host_ip_str e) = IP_ADDR_BUFFER_SIZE"
  shows "bb_inv (BlackBox_new mem max_size) \<and> bb_hist (BlackBox_new mem max_size) = []"
proof -
  have "elt_ok (BlackBoxElt_init e)" if "e \<in> set mem" for e
  proof -
    have "length (host_ip_str e) = 80" using assms(3) that by (simp add: IP_ADDR_BUFFER_SIZE_def)
    then show ?thesis
      by (simp add: elt_ok_def BlackBoxElt_init_def cbuf_ok_def IP_ADDR_BUFFER_SIZE_def set_update_memI)
  qed
  then have "\<forall>e \<in> set (map BlackBoxElt_init (take (nat max_size) mem)). elt_ok e"
    by (auto dest: in_set_takeD)
  then show ?thesis
    using assms(1,2) by (auto simp: bb_inv_def BlackBox_new_def ring_inv_def newest_def)
qed


section \<open>What an insertion stores\<close>

definition caller_text :: "bb_env \<Rightarrow> client_addr option \<Rightarrow> string" where
  "caller_text env ip =
     (case ip of
        None \<Rightarrow>
          (if env_thread_id env \<in> set (env_poll_ths env) then ''polling''
           else if env_svr_starting env then ''init'' else ''user thread'')
      | Some a \<Rightarrow> takeWhile (\<lambda>c. c \<noteq> NUL) (ca_client_ip a))"

definition caller_internal :: "bb_env \<Rightarrow> client_addr option \<Rightarrow> bool" where
  "caller_internal env ip \<longleftrightarrow>
     hd (caller_text env ip @ [NUL]) \<in> {CHR ''p'', CHR ''u'', CHR ''i''}"

definition host_buf :: "string \<Rightarrow> cbuf \<Rightarrow> cbuf" where
  "host_buf txt old = txt @ NUL # drop (Suc (length txt)) old"

definition with_host :: "bb_env \<Rightarrow> client_addr option \<Rightarrow> BlackBoxElt \<Rightarrow> BlackBoxElt" where
  "with_host env ip e = e\<lparr>host_ip_str := host_buf (caller_text env ip) (host_ip_str e)\<rparr>"

definition tag_client :: "client_addr \<Rightarrow> BlackBoxElt \<Rightarrow> BlackBoxElt" where
  "tag_client a e = e\<lparr>client_ident := True, client_lang := ca_client_lang a,
     client_pid := ca_client_pid a, java_main_class := ca_java_main_class a\<rparr>"

lemma caller_text_Ok:
  "caller_ok ip \<Longrightarrow> client_host_text env ip = Ok (caller_text env ip)"
  by (auto simp: client_host_text_def caller_text_def caller_ok_def ca_ok_c_str Let_def
      split: option.splits)

lemma caller_text_length: "caller_ok ip \<Longrightarrow> length (caller_text env ip) < IP_ADDR_BUFFER_SIZE"
proof (cases ip)
  case (Some a)
  assume "caller_ok ip"
  then have ok: "ca_ok a" using Some by (simp add: caller_ok_def)
  then have "length (takeWhile (\<lambda>c. c \<noteq> NUL) (ca_client_ip a)) < length (ca_client_ip a)"
    using c_str_props[OF ca_ok_c_str[OF ok]] by simp
  then show ?thesis using ok Some by (simp add: caller_text_def ca_ok_def cbuf_ok_def)
qed (simp add: caller_text_def IP_ADDR_BUFFER_SIZE_def)

lemma caller_internal_None: "\<not> caller_internal env ip \<Longrightarrow> \<exists>a. ip = Some a"
  by (cases ip) (auto simp: caller_internal_def caller_text_def split: if_splits)

lemma elt_ok_with_host: "caller_ok ip \<Longrightarrow> elt_ok e \<Longrightarrow> elt_ok (with_host env ip e)"
  using caller_text_length[of ip env]
  by (auto simp: elt_ok_def with_host_def host_buf_def cbuf_ok_def)

lemma elt_ok_tag [simp]: "elt_ok (tag_client a e) = elt_ok e"
  by (simp add: elt_ok_def tag_client_def)

text \<open>The two building blocks of every insertion, on a box that satisfies the invariant.\<close>

lemma upd_then_host:
  assumes "bb_inv b" "caller_ok ip" "host_ip_str (f (bb_slot b)) = host_ip_str (bb_slot b)"
  shows "rbind (upd_elt (insert_elt b) f b) (get_client_host env ip)
         = Ok (b\<lparr>box := (box b)[nat (insert_elt b) := with_host env ip (f (bb_slot b))]\<rparr>)"
proof -
  note r = bb_inv_range[OF assms(1)]
  have "length (caller_text env ip) < length (host_ip_str (bb_slot b))"
    using caller_text_length[OF assms(2)] bb_inv_slot[OF assms(1)] by (simp add: elt_ok_def cbuf_ok_def)
  then have "strcpy_buf (host_ip_str (f (bb_slot b))) (caller_text env ip)
             = Ok (host_buf (caller_text env ip) (host_ip_str (bb_slot b)))"
    by (simp add: strcpy_buf_def host_buf_def assms(3))
  then show ?thesis
    using r caller_text_Ok[OF assms(2), of env]
    by (simp add: upd_elt_def get_client_host_def vec_get_in vec_set_in with_host_def assms(3))
qed

lemma upd_then_finish:
  assumes "bb_inv b" "caller_ok ip" "host_ip_str (f (bb_slot b)) = host_ip_str (bb_slot b)"
  shows "rbind (upd_elt (insert_elt b) f b) (finish_insert env ip)
         = Ok (bb_store (with_host env ip (f (bb_slot b))) b)"
proof -
  have "rbind (upd_elt (insert_elt b) f b) (finish_insert env ip)
        = rbind (rbind (upd_elt (insert_elt b) f b) (get_client_host env ip)) (\<lambda>b'. Ok (inc_indexes b'))"
    by (simp add: finish_insert_def[abs_def] rbind_assoc)
  then show ?thesis using upd_then_host[OF assms(1,2), of f env] assms(3) by (simp add: bb_store_def)
qed

lemma is_internal_upd:
  assumes "bb_inv b"
  shows "is_internal_call (b\<lparr>box := (box b)[nat (insert_elt b) := with_host env ip e]\<rparr>) (insert_elt b)
         = Ok (caller_internal env ip)"
  using bb_inv_range[OF assms]
  by (cases "caller_text env ip")
     (auto simp: is_internal_call_def vec_get_def with_host_def host_buf_def caller_internal_def)

lemma is_internal_store:
  assumes "bb_inv b"
  shows "is_internal_call (bb_store (with_host env ip e) b) (insert_elt b) = Ok (caller_internal env ip)"
proof -
  have "is_internal_call (bb_store (with_host env ip e) b) (insert_elt b)
      = is_internal_call (b\<lparr>box := (box b)[nat (insert_elt b) := with_host env ip e]\<rparr>) (insert_elt b)"
    by (simp add: is_internal_call_def bb_store_def inc_indexes_def Let_def)
  then show ?thesis using is_internal_upd[OF assms] by simp
qed

lemma update_client_host_store:
  assumes "bb_inv b"
  shows "update_client_host a (bb_store e b) = Ok (bb_store (tag_client a e) b)"
proof -
  note r = bb_inv_range[OF assms]
  have mx: "insert_elt b < max_elt b" "int (length (box b)) = max_elt b"
    using assms by (auto simp: bb_inv_def ring_inv_def)
  have idx: "(if insert_elt (bb_store e b) = 0 then max_elt (bb_store e b) - 1
              else insert_elt (bb_store e b) - 1) = insert_elt b"
    using r mx by (auto simp: bb_store_def inc_indexes_def Let_def)
  show ?thesis
    unfolding update_client_host_def Let_def idx upd_elt_def
    using r by (simp add: bb_store_def inc_indexes_def Let_def vec_get_in vec_set_in tag_client_def)
qed

lemma add_client_info_store:
  assumes "bb_inv b" "caller_ok ip"
  shows "add_client_info cl_id (caller_internal env ip) ip (bb_store e b) =
     (if caller_internal env ip then Ok (bb_store e b, ip)
      else case ip of None \<Rightarrow> Undef | Some a \<Rightarrow>
        rbind (add_cl_ident cl_id a) (\<lambda>a'. Ok (bb_store (tag_client a' e) b, Some a')))"
  by (auto simp: add_client_info_def update_client_host_store[OF assms(1)] split: option.splits)

text \<open>The record a request leaves in the box, as a function of the slot it overwrites.\<close>

fun request_fields :: "bb_env \<Rightarrow> bb_request \<Rightarrow> BlackBoxElt \<Rightarrow> BlackBoxElt" where
  "request_fields env (Corba_attr a) = (\<lambda>e. e\<lparr>req_type := Req_Attribute, attr_type := a,
     op_type := Op_Unknown, client_ident := False, bb_when := env_now env\<rparr>)"
| "request_fields env (Cmd c v s) = (\<lambda>e. e\<lparr>req_type := Req_Operation, attr_type := Attr_Unknown,
     op_type := cmd_op_type v, cmd_name := c, bb_source := s, client_ident := False, bb_when := env_now env\<rparr>)"
| "request_fields env (Cmd_cl_ident c cl v s) = (\<lambda>e. e\<lparr>req_type := Req_Operation, attr_type := Attr_Unknown,
     op_type := cmd_op_type v, cmd_name := c, bb_source := s, client_ident := False, bb_when := env_now env\<rparr>)"
| "request_fields env (Op o') = (\<lambda>e. e\<lparr>req_type := Req_Operation, attr_type := Attr_Unknown,
     op_type := o', client_ident := False, bb_when := env_now env\<rparr>)"
| "request_fields env (Op_cl_ident o' cl) = (\<lambda>e. e\<lparr>req_type := Req_Operation, attr_type := Attr_Unknown,
     op_type := o', client_ident := False, bb_when := env_now env\<rparr>)"
| "request_fields env (Attr_read ns v s) = (\<lambda>e. e\<lparr>req_type := Req_Operation, attr_type := Attr_Unknown,
     op_type := read_op_type v (op_type e), bb_source := s, client_ident := False,
     attr_names := ns, bb_when := env_now env\<rparr>)"
| "request_fields env (Attr_read_cl_ident ns cl v s) = (\<lambda>e. e\<lparr>req_type := Req_Operation,
     attr_type := Attr_Unknown, op_type := (if v \<ge> 5 then Op_Read_Attr_5 else Op_Read_Attr_4),
     bb_source := s, client_ident := False, attr_names := ns, bb_when := env_now env\<rparr>)"
| "request_fields env (Pipe_read n cl) = (\<lambda>e. e\<lparr>req_type := Req_Operation, attr_type := Attr_Unknown,
     op_type := Op_Read_Pipe_5, client_ident := False, attr_names := [n], bb_when := env_now env\<rparr>)"
| "request_fields env (Pipe_write n cl v) = (\<lambda>e. e\<lparr>req_type := Req_Operation, attr_type := Attr_Unknown,
     op_type := (if v = 0 then Op_Write_Pipe_5 else Op_Write_Read_Pipe_5), client_ident := False,
     attr_names := [n], bb_when := env_now env\<rparr>)"
| "request_fields env (Attr_write ns v) = (\<lambda>e. e\<lparr>req_type := Req_Operation, attr_type := Attr_Unknown,
     op_type := write_op_type v, attr_names := ns, client_ident := False, bb_when := env_now env\<rparr>)"
| "request_fields env (Attr_write_4 ns cl) = (\<lambda>e. e\<lparr>req_type := Req_Operation, attr_type := Attr_Unknown,
     op_type := Op_Write_Attr_4, attr_names := ns, bb_when := env_now env\<rparr>)"
| "request_fields env (Attr_write_read ws rs cl v) = (\<lambda>e. e\<lparr>req_type := Req_Operation,
     attr_type := Attr_Unknown,
     op_type := (if v \<ge> 5 then Op_Write_Read_Attributes_5 else Op_Write_Read_Attributes_4),
     attr_names := ws @ [''/''] @ rs, bb_when := env_now env\<rparr>)"

fun request_ident :: "bb_request \<Rightarrow> ClntIdent option" where
  "request_ident (Cmd_cl_ident c cl v s) = Some cl"
| "request_ident (Op_cl_ident o' cl) = Some cl"
| "request_ident (Attr_read_cl_ident ns cl v s) = Some cl"
| "request_ident (Pipe_read n cl) = Some cl"
| "request_ident (Pipe_write n cl v) = Some cl"
| "request_ident (Attr_write_4 ns cl) = Some cl"
| "request_ident (Attr_write_read ws rs cl v) = Some cl"
| "request_ident _ = None"

text \<open>The client address after the request, and the record it produces.\<close>

definition caller_after :: "bb_env \<Rightarrow> client_addr option \<Rightarrow> bb_request \<Rightarrow> client_addr option" where
  "caller_after env ip req =
     (case (request_ident req, ip) of
        (Some cl, Some a) \<Rightarrow>
          if caller_internal env ip then ip
          else (case add_cl_ident cl a of Ok a' \<Rightarrow> Some a' | _ \<Rightarrow> ip)
      | _ \<Rightarrow> ip)"

definition request_record :: "bb_env \<Rightarrow> client_addr option \<Rightarrow> bb_request \<Rightarrow> BlackBoxElt \<Rightarrow> BlackBoxElt" where
  "request_record env ip req old =
     (let e = with_host env ip (request_fields env req old) in
      if request_ident req = None \<or> caller_internal env ip then e
      else (case caller_after env ip req of None \<Rightarrow> e | Some a \<Rightarrow> tag_client a e))"

lemma request_fields_host [simp]: "host_ip_str (request_fields env req e) = host_ip_str e"
  by (cases req) auto

lemma elt_ok_request_record:
  "caller_ok ip \<Longrightarrow> elt_ok old \<Longrightarrow> elt_ok (request_record env ip req old)"
  using elt_ok_with_host[of ip "request_fields env req old" env]
  by (auto simp: request_record_def Let_def elt_ok_def[of "request_fields env req old"]
      elt_ok_def[of old] split: option.splits)

text \<open>An insertion without identification, and one with it.\<close>

lemma plain_insert_step:
  assumes "bb_inv b" "caller_ok ip" "request_ident req = None"
    and "insr = rbind (upd_elt (insert_elt b) (request_fields env req) b) (finish_insert env ip)"
  shows "keep_ip ip insr = Ok (bb_store (request_record env ip req (bb_slot b)) b, caller_after env ip req)"
  using upd_then_finish[OF assms(1,2), of "request_fields env req" env] assms(3,4)
  by (simp add: request_record_def caller_after_def Let_def)

lemma ident_tail:
  assumes "bb_inv b" "caller_ok ip" "request_ident req = Some cl"
  shows "add_client_info cl (caller_internal env ip) ip
           (bb_store (with_host env ip (request_fields env req (bb_slot b))) b)
         = Ok (bb_store (request_record env ip req (bb_slot b)) b, caller_after env ip req)"
proof (cases "caller_internal env ip")
  case True
  then show ?thesis
    by (auto simp: add_client_info_def request_record_def caller_after_def Let_def
        split: option.splits)
next
  case False
  then obtain a where a: "ip = Some a" using caller_internal_None by blast
  then obtain a' where "add_cl_ident cl a = Ok a'"
    using add_cl_ident_ok[of a cl] assms(2) by (auto simp: caller_ok_def)
  then show ?thesis
    using assms False a add_client_info_store[OF assms(1,2), of cl env]
    by (simp add: request_record_def caller_after_def Let_def)
qed

lemma ident_insert_step:
  assumes "bb_inv b" "caller_ok ip" "request_ident req = Some cl"
  shows "rbind (rbind (upd_elt (insert_elt b) (request_fields env req) b) (finish_insert env ip)) (\<lambda>b1.
         rbind (is_internal_call b1 (insert_elt b)) (\<lambda>internal. add_client_info cl internal ip b1))
         = Ok (bb_store (request_record env ip req (bb_slot b)) b, caller_after env ip req)"
  using upd_then_finish[OF assms(1,2), of "request_fields env req" env] ident_tail[OF assms]
  by (simp add: is_internal_store[OF assms(1)])

lemma ident_insert_step':
  assumes "bb_inv b" "caller_ok ip" "request_ident req = Some cl"
  shows "rbind (upd_elt (insert_elt b) (request_fields env req) b) (\<lambda>b1.
         rbind (get_client_host env ip b1) (\<lambda>b2.
         rbind (is_internal_call b2 (insert_elt b2)) (\<lambda>poll_user.
           add_client_info cl poll_user ip (inc_indexes b2))))
         = Ok (bb_store (request_record env ip req (bb_slot b)) b, caller_after env ip req)"
proof -
  let ?e = "with_host env ip (request_fields env req (bb_slot b))"
  let ?b2 = "b\<lparr>box := (box b)[nat (insert_elt b) := ?e]\<rparr>"
  have "is_internal_call ?b2 (insert_elt ?b2) = Ok (caller_internal env ip)"
    using is_internal_upd[OF assms(1)] by simp
  moreover have "inc_indexes ?b2 = bb_store ?e b" by (simp add: bb_store_def)
  ultimately show ?thesis
    using upd_then_host[OF assms(1,2), of "request_fields env req" env] ident_tail[OF assms]
    by (simp add: rbind_assoc[symmetric])
qed

lemmas insert_op_defs =
  insert_corba_attr_def insert_cmd_def insert_cmd_nl_def insert_cmd_cl_ident_def
  insert_op_def insert_op_nl_def insert_op_cl_ident_def insert_attr_def insert_attr_cl_ident_def
  insert_attr_pipe_def insert_attr_pipe_val_def insert_attr_list_def insert_attr_nl_def
  insert_attr_list_4_def insert_attr_nl_4_def insert_wr_attr_def insert_attr_wr_nl_def

text \<open>Every request is a push of its record: no undefined behaviour, no exception.\<close>

lemma bb_apply_store:
  assumes "bb_inv b" "caller_ok ip"
  shows "bb_apply env ip req b
         = Ok (bb_store (request_record env ip req (bb_slot b)) b, caller_after env ip req)"
proof (cases "request_ident req")
  case None
  then show ?thesis
    using plain_insert_step[OF assms None, of _ env]
    by (cases req) (auto simp: insert_op_defs)
next
  case (Some cl)
  then show ?thesis
    using ident_insert_step[OF assms Some, of env] ident_insert_step'[OF assms Some, of env]
    by (cases req) (auto simp: insert_op_defs)
qed

lemma add_cl_ident_ok_dest: "add_cl_ident cl a = Ok a' \<Longrightarrow> ca_ok a \<Longrightarrow> ca_ok a'"
  using add_cl_ident_ok[of a cl] by auto

lemma caller_after_ok: "caller_ok ip \<Longrightarrow> caller_ok (caller_after env ip req)"
  by (auto simp: caller_after_def caller_ok_def dest: add_cl_ident_ok_dest
      split: option.splits result.splits)

lemma bb_apply_inv:
  assumes "bb_inv b" "caller_ok ip"
  shows "\<exists>b' ip'. bb_apply env ip req b = Ok (b', ip') \<and> bb_inv b' \<and> caller_ok ip' \<and> max_elt b' = max_elt b"
proof -
  have "bb_inv (bb_store (request_record env ip req (bb_slot b)) b)"
    using assms by (intro bb_inv_store elt_ok_request_record bb_inv_slot)
  moreover have "max_elt (bb_store e b) = max_elt b" for e
    by (simp add: bb_store_def inc_indexes_def Let_def)
  ultimately show ?thesis
    using assms bb_apply_store[OF assms] caller_after_ok by auto
qed

end
