(* ===== verification/Black_Box_Report.thy ===== *)
theory Black_Box_Report
  imports Black_Box
begin

text \<open>
  Reading the black box back (\<open>src/server/blackbox.cpp\<close>): the date of a record,
  the text of each kind of request, the client part with the address extracted
  from the omniORB end point, and \<open>BlackBox::read\<close>. The theorems at the end say
  what a client of the \<open>black_box\<close> operation sees after any sequence of requests.
\<close>

section \<open>Surroundings\<close>

record tm =
  tm_sec :: nat
  tm_min :: nat
  tm_hour :: nat
  tm_mday :: nat
  tm_mon :: nat
  tm_year :: nat

text \<open>
  \<open>sys_localtime\<close> is the local time conversion of a time in seconds,
  \<open>sys_getname\<close> the name service, \<open>sys_host_name\<close> the name of this host.
\<close>

record report_sys =
  sys_localtime :: "nat \<Rightarrow> tm"
  sys_getname :: "string \<Rightarrow> string option"
  sys_host_name :: string


section \<open>The text of a record\<close>

definition timestamp_unix_to_str :: "report_sys \<Rightarrow> nat \<Rightarrow> string" where
  "timestamp_unix_to_str sys ux_date =
     (let timer = ux_date div 1000000000;
          t = sys_localtime sys timer;
          ms = (ux_date div 1000000) mod 1000
      in butlast (pad0 2 (dec (tm_mday t)) @ ''/'' @ pad0 2 (dec (tm_mon t + 1)) @ ''/'' @
                  dec (tm_year t + 1900) @ '' '' @ pad0 2 (dec (tm_hour t)) @ '':'' @
                  pad0 2 (dec (tm_min t)) @ '':'' @ pad0 2 (dec (tm_sec t)) @
                  '':'' @ pad0 3 (dec ms)))"

fun source_text :: "DevSource \<Rightarrow> string" where
  "source_text DEV = ''device ''"
| "source_text CACHE = ''cache ''"
| "source_text CACHE_DEV = ''cache_device ''"
| "source_text Source_other = ''unknown source (!) ''"

definition names_from :: "string \<Rightarrow> BlackBoxElt \<Rightarrow> string" where
  "names_from label e = label @ '' ('' @ join_names (attr_names e) @ '') from '' @ source_text (bb_source e)"

definition names_only :: "string \<Rightarrow> BlackBoxElt \<Rightarrow> string" where
  "names_only label e = label @ '' ('' @ join_names (attr_names e) @ '') ''"

definition cmd_from :: "string \<Rightarrow> BlackBoxElt \<Rightarrow> string" where
  "cmd_from label e = label @ '' (cmd = '' @ cmd_name e @ '') from '' @ source_text (bb_source e)"

text \<open>
  The names of a write-read request: the written names, a slash, the read names,
  with no comma next to the slash.
\<close>

fun join_write_read :: "string list \<Rightarrow> string" where
  "join_write_read [] = []"
| "join_write_read [x] = x"
| "join_write_read (x # y # ys) =
     x @ (if x \<noteq> ''/'' then (if y \<noteq> ''/'' then '', '' else []) else []) @ join_write_read (y # ys)"

text \<open>
  The switch over the operation, in the order of the source, in three parts: the
  operations up to interface release 3, those of release 4, and the later ones.
\<close>

definition op_text_3 :: "BlackBoxElt \<Rightarrow> string option" where
  "op_text_3 e =
     (case op_type e of
        Op_Command_inout \<Rightarrow> Some (cmd_from ''command_inout'' e)
      | Op_Ping \<Rightarrow> Some ''ping ''
      | Op_Info \<Rightarrow> Some ''info ''
      | Op_BlackBox \<Rightarrow> Some ''blackbox ''
      | Op_Command_list \<Rightarrow> Some ''command_list_query ''
      | Op_Command \<Rightarrow> Some ''command_query ''
      | Op_Get_Attr_Config \<Rightarrow> Some ''get_attribute_config ''
      | Op_Set_Attr_Config \<Rightarrow> Some ''set_attribute_config ''
      | Op_Read_Attr \<Rightarrow> Some (names_from ''read_attributes'' e)
      | Op_Write_Attr \<Rightarrow> Some (names_only ''write_attributes'' e)
      | Op_Write_Attr_3 \<Rightarrow> Some (names_only ''write_attributes_3'' e)
      | Op_Command_inout_2 \<Rightarrow> Some (cmd_from ''command_inout_2'' e)
      | Op_Command_list_2 \<Rightarrow> Some ''command_list_query_2 ''
      | Op_Command_2 \<Rightarrow> Some ''command_query_2 ''
      | Op_Get_Attr_Config_2 \<Rightarrow> Some ''get_attribute_config_2 ''
      | Op_Read_Attr_2 \<Rightarrow> Some (names_from ''read_attributes_2'' e)
      | Op_Read_Attr_3 \<Rightarrow> Some (names_from ''read_attributes_3'' e)
      | Op_Command_inout_history_2 \<Rightarrow> Some ''command_inout_history_2 ''
      | Op_Read_Attr_history_2 \<Rightarrow> Some ''read_attribute_history_2 ''
      | Op_Read_Attr_history_3 \<Rightarrow> Some ''read_attribute_history_3 ''
      | Op_Info_3 \<Rightarrow> Some ''info_3 ''
      | Op_Get_Attr_Config_3 \<Rightarrow> Some ''get_attribute_config_3 ''
      | Op_Set_Attr_Config_3 \<Rightarrow> Some ''set_attribute_config_3 ''
      | _ \<Rightarrow> None)"

definition op_text_4 :: "BlackBoxElt \<Rightarrow> string option" where
  "op_text_4 e =
     (case op_type e of
        Op_Read_Attr_history_4 \<Rightarrow> Some ''read_attribute_history_4 ''
      | Op_Command_inout_history_4 \<Rightarrow> Some ''command_inout_history_4 ''
      | Op_Command_inout_4 \<Rightarrow> Some (cmd_from ''command_inout_4'' e)
      | Op_Read_Attr_4 \<Rightarrow> Some (names_from ''read_attributes_4'' e)
      | Op_Write_Attr_4 \<Rightarrow> Some (names_only ''write_attributes_4'' e)
      | Op_Set_Attr_Config_4 \<Rightarrow> Some ''set_attribute_config_4 ''
      | Op_Write_Read_Attributes_4 \<Rightarrow> Some (names_only ''write_read_attributes_4'' e)
      | _ \<Rightarrow> None)"

definition op_text_5 :: "BlackBoxElt \<Rightarrow> string option" where
  "op_text_5 e =
     (case op_type e of
        Op_Get_Attr_Config_5 \<Rightarrow> Some ''get_attribute_config_5 ''
      | Op_Set_Attr_Config_5 \<Rightarrow> Some ''set_attribute_config_5 ''
      | Op_Read_Attr_5 \<Rightarrow> Some (names_from ''read_attributes_5'' e)
      | Op_Write_Read_Attributes_5 \<Rightarrow>
          Some (''write_read_attributes_5 ('' @ join_write_read (attr_names e) @ '') '')
      | Op_Read_Attr_history_5 \<Rightarrow> Some ''read_attribute_history_5 ''
      | Op_Get_Pipe_Config_5 \<Rightarrow> Some ''get_pipe_config_5 ''
      | Op_Set_Pipe_Config_5 \<Rightarrow> Some ''set_pipe_config_5 ''
      | Op_Read_Pipe_5 \<Rightarrow> Some (names_only ''read_pipe_5'' e)
      | Op_Write_Pipe_5 \<Rightarrow> Some (names_only ''write_pipe_5'' e)
      | Op_Write_Read_Pipe_5 \<Rightarrow> Some (names_only ''write_read_pipe_5'' e)
      | Op_Info_6 \<Rightarrow> Some ''info_6 ''
      | _ \<Rightarrow> None)"

text \<open>
  The text of the request; \<open>Inl\<close> is a text after which the source returns
  at once, without the client part.
\<close>

definition request_text :: "BlackBoxElt \<Rightarrow> string + string" where
  "request_text e =
     (case req_type e of
        Req_Operation \<Rightarrow>
          (case op_text_3 e of
             Some s \<Rightarrow> Inr (''Operation '' @ s)
           | None \<Rightarrow>
              (case op_text_4 e of
                 Some s \<Rightarrow> Inr (''Operation '' @ s)
               | None \<Rightarrow>
                  (case op_text_5 e of
                     Some s \<Rightarrow> Inr (''Operation '' @ s)
                   | None \<Rightarrow> Inl (''Operation '' @ ''unknown operation !!!!!''))))
      | Req_Attribute \<Rightarrow>
          (case attr_type e of
             Attr_Name \<Rightarrow> Inr (''Attribute '' @ ''name '')
           | Attr_Description \<Rightarrow> Inr (''Attribute '' @ ''description '')
           | Attr_Status \<Rightarrow> Inr (''Attribute '' @ ''status '')
           | Attr_State \<Rightarrow> Inr (''Attribute '' @ ''state '')
           | Attr_AdmName \<Rightarrow> Inr (''Attribute '' @ ''adm_name '')
           | Attr_Unknown \<Rightarrow> Inl (''Attribute '' @ ''unknown attribute !!!!!''))
      | Req_Unknown \<Rightarrow> Inl ''Unknown CORBA request type !!!!!'')"


section \<open>The client part\<close>

text \<open>
  The address within an omniORB end point: \<open>giop:tcp:a.b.c.d:port\<close> or
  \<open>giop:tcp:[::ffff:a.b.c.d]:port\<close>; \<open>None\<close> where the source gives up.
\<close>

definition ip_of_omni_addr :: "string \<Rightarrow> string option" where
  "ip_of_omni_addr omni_addr =
     Option.bind (find_char (CHR '':'') omni_addr) (\<lambda>pos.
     Option.bind (find_from (CHR '':'') (pos + 1) omni_addr) (\<lambda>pos.
       let ip_str = substr_from (pos + 1) omni_addr;
           ipv6 = (case ip_str of c # _ \<Rightarrow> c = CHR ''['' | [] \<Rightarrow> False)
       in Option.bind
            (if \<not> ipv6 then
               Option.bind (find_char (CHR '':'') ip_str) (\<lambda>pos. Some (substr_to pos ip_str))
             else
               Option.bind (find_char (CHR '':'') ip_str) (\<lambda>pos.
               Option.bind (find_from (CHR '':'') (pos + 1) ip_str) (\<lambda>pos.
               Option.bind (find_from (CHR '':'') (pos + 1) ip_str) (\<lambda>pos.
                 let tmp_ip = substr_from (pos + 1) ip_str in
                 Option.bind (find_char (CHR '']'') tmp_ip) (\<lambda>pos. Some (substr_to pos tmp_ip))))))
          (\<lambda>full_ip_str. if has_three_dots full_ip_str then Some full_ip_str else None)))"

definition ident_text :: "BlackBoxElt \<Rightarrow> string" where
  "ident_text e =
     (if client_ident e then
        (if client_lang e = CPP \<or> client_lang e = CPP_6
         then '' (CPP/Python client with PID '' @ dec (client_pid e) @ '')''
         else '' (Java client with main class '' @ java_main_class e @ '')'')
      else [])"

definition host_text :: "report_sys \<Rightarrow> BlackBoxElt \<Rightarrow> string result" where
  "host_text sys e =
     rbind (vec_get (host_ip_str e) 0) (\<lambda>h0.
     rbind (vec_get (host_ip_str e) 5) (\<lambda>h5.
       if h0 \<noteq> NUL \<and> h0 \<noteq> CHR ''p'' \<and> h5 \<noteq> CHR ''u'' \<and> h0 \<noteq> CHR ''i'' \<and> h0 \<noteq> CHR ''u'' \<and> h0 \<noteq> CHR ''c''
       then
         rbind (c_str (host_ip_str e)) (\<lambda>omni_addr.
           Ok (case ip_of_omni_addr omni_addr of
                 None \<Rightarrow> []
               | Some full_ip_str \<Rightarrow>
                   ''requested from '' @
                   (case sys_getname sys full_ip_str of Some host \<Rightarrow> host | None \<Rightarrow> full_ip_str) @
                   ident_text e))
       else if h5 = CHR ''u'' then Ok (''requested from '' @ sys_host_name sys @ ident_text e)
       else if h0 = CHR ''p'' then Ok ''requested from polling''
       else if h0 = CHR ''i'' then Ok ''requested during device server process init sequence''
       else if h0 = CHR ''u'' then Ok ''requested from user thread''
       else if h0 = CHR ''c'' then Ok ''requested from a collocated client''
       else Ok []))"

definition elt_info :: "report_sys \<Rightarrow> BlackBoxElt \<Rightarrow> string result" where
  "elt_info sys e =
     (let start = timestamp_unix_to_str sys (bb_when e) @ '' : '' in
      case request_text e of
        Inl s \<Rightarrow> Ok (start @ s)
      | Inr s \<Rightarrow> rbind (host_text sys e) (\<lambda>h. Ok (start @ s @ h)))"

definition build_info_as_str :: "report_sys \<Rightarrow> BlackBox \<Rightarrow> int \<Rightarrow> string result" where
  "build_info_as_str sys b index = rbind (vec_get (box b) index) (elt_info sys)"


section \<open>Reading\<close>

primrec bb_read_loop :: "report_sys \<Rightarrow> BlackBox \<Rightarrow> int \<Rightarrow> nat \<Rightarrow> string list result" where
  "bb_read_loop sys b read_index 0 = Ok []"
| "bb_read_loop sys b read_index (Suc n) =
     rbind (build_info_as_str sys b read_index) (\<lambda>elt_str.
       let read_index = read_index - 1;
           read_index = (if read_index < 0 then max_elt b - 1 else read_index)
       in rbind (bb_read_loop sys b read_index n) (\<lambda>rest. Ok (elt_str # rest)))"

definition bb_read :: "report_sys \<Rightarrow> int \<Rightarrow> BlackBox \<Rightarrow> string list result" where
  "bb_read sys wanted_elt b =
     (if wanted_elt \<le> 0 then
        Throw (DevFailed ''API_BlackBoxArgument'' ''Argument to read black box out of range'')
      else if nb_elt b = 0 then
        Throw (DevFailed ''API_BlackBoxEmpty'' ''Nothing stored yet in black-box'')
      else
        (let wanted = min wanted_elt (max_elt b);
             wanted = min wanted (nb_elt b);
             read_index = (if insert_elt b = 0 then max_elt b - 1 else insert_elt b - 1)
         in bb_read_loop sys b read_index (nat wanted)))"


section \<open>Lemmas on reading\<close>

lemma bb_read_loop_walk:
  assumes "ring_inv (length (box b)) (insert_elt b) (nb_elt b) (max_elt b)"
    and "0 \<le> i" "i < max_elt b"
  shows "bb_read_loop sys b i n = rmap (elt_info sys) (walk_back (box b) (max_elt b) i n)"
  using assms(2,3)
proof (induction n arbitrary: i)
  case (Suc n)
  have len: "int (length (box b)) = max_elt b" using assms(1) by (simp add: ring_inv_def)
  have "(if i - 1 < 0 then max_elt b - 1 else i - 1) = prev_idx (max_elt b) i"
    using Suc.prems by (simp add: prev_idx_def)
  moreover have "0 \<le> prev_idx (max_elt b) i" "prev_idx (max_elt b) i < max_elt b"
    using Suc.prems by (auto simp: prev_idx_def)
  ultimately show ?case
    using Suc len by (simp add: build_info_as_str_def vec_get_in Let_def)
qed simp

lemma bb_read_hist:
  assumes "bb_inv b" "0 < wanted" "nb_elt b \<noteq> 0"
  shows "bb_read sys wanted b = rmap (elt_info sys) (take (nat wanted) (bb_hist b))"
proof -
  have r: "ring_inv (length (box b)) (insert_elt b) (nb_elt b) (max_elt b)"
    using assms(1) by (simp add: bb_inv_def)
  let ?n = "nat (min (min wanted (max_elt b)) (nb_elt b))"
  have "walk_back (box b) (max_elt b) (prev_idx (max_elt b) (insert_elt b)) ?n
        = take (nat wanted) (bb_hist b)"
  proof -
    have "?n \<le> nat (nb_elt b)" by (simp add: nat_mono)
    then have "walk_back (box b) (max_elt b) (prev_idx (max_elt b) (insert_elt b)) ?n
          = take ?n (bb_hist b)"
      by (simp add: newest_def walk_back_take[of ?n])
    also have "\<dots> = take (nat wanted) (bb_hist b)"
      using r by (cases "wanted \<le> nb_elt b") (auto simp: ring_inv_def min_def)
    finally show ?thesis .
  qed
  moreover have "(if insert_elt b = 0 then max_elt b - 1 else insert_elt b - 1)
                 = prev_idx (max_elt b) (insert_elt b)"
    by (simp add: prev_idx_def)
  ultimately show ?thesis
    using assms bb_read_loop_walk[OF r, of "prev_idx (max_elt b) (insert_elt b)" sys ?n]
      ring_inv_prev[OF r]
    by (simp add: bb_read_def Let_def)
qed

lemma host_text_ok: "elt_ok e \<Longrightarrow> \<exists>s. host_text sys e = Ok s"
proof -
  assume "elt_ok e"
  then have "length (host_ip_str e) = 80" "NUL \<in> set (host_ip_str e)"
    by (auto simp: elt_ok_def cbuf_ok_def IP_ADDR_BUFFER_SIZE_def)
  then show ?thesis by (simp add: host_text_def vec_get_def c_str_def)
qed

lemma elt_info_ok: "elt_ok e \<Longrightarrow> \<exists>s. elt_info sys e = Ok s"
  using host_text_ok[of e sys] by (auto simp: elt_info_def Let_def split: sum.splits)

lemma rmap_elt_info_ok:
  "(\<And>e. e \<in> set es \<Longrightarrow> elt_ok e) \<Longrightarrow>
     \<exists>ss. rmap (elt_info sys) es = Ok ss \<and> length ss = length es"
proof (induction es)
  case (Cons e es)
  then show ?case using elt_info_ok[of e sys] by fastforce
qed simp


section \<open>Independence of the overwritten slot\<close>

text \<open>
  A slot is reused after the box has wrapped, and an insertion overwrites only the
  fields it needs. The operations whose text prints a command name, attribute
  names or a source are those with a payload.
\<close>

definition op_prints_cmd :: "BlackBoxElt_OpType \<Rightarrow> bool" where
  "op_prints_cmd o' \<longleftrightarrow> o' \<in> {Op_Command_inout, Op_Command_inout_2, Op_Command_inout_4}"

definition op_prints_read :: "BlackBoxElt_OpType \<Rightarrow> bool" where
  "op_prints_read o' \<longleftrightarrow> o' \<in>
     {Op_Read_Attr, Op_Read_Attr_2, Op_Read_Attr_3, Op_Read_Attr_4, Op_Read_Attr_5}"

definition op_prints_names :: "BlackBoxElt_OpType \<Rightarrow> bool" where
  "op_prints_names o' \<longleftrightarrow> o' \<in>
     {Op_Write_Attr, Op_Write_Attr_3, Op_Write_Attr_4, Op_Write_Read_Attributes_4,
      Op_Write_Read_Attributes_5, Op_Read_Pipe_5, Op_Write_Pipe_5, Op_Write_Read_Pipe_5}"

definition op_has_payload :: "BlackBoxElt_OpType \<Rightarrow> bool" where
  "op_has_payload o' \<longleftrightarrow> op_prints_cmd o' \<or> op_prints_read o' \<or> op_prints_names o'"

lemmas op_prints_defs = op_prints_cmd_def op_prints_read_def op_prints_names_def op_has_payload_def

text \<open>
  Requests as the device layer makes them: \<open>insert_op\<close> only with operations
  without payload, and the unidentified \<open>read_attributes\<close> only for the interface
  releases 1 to 4.
\<close>

fun request_usual :: "bb_request \<Rightarrow> bool" where
  "request_usual (Op o') \<longleftrightarrow> \<not> op_has_payload o'"
| "request_usual (Op_cl_ident o' cl) \<longleftrightarrow> \<not> op_has_payload o'"
| "request_usual (Attr_read ns v s) \<longleftrightarrow> 1 \<le> v \<and> v \<le> 4"
| "request_usual _ \<longleftrightarrow> True"

lemma request_text_cong:
  assumes "req_type e = req_type e'" "op_type e = op_type e'" "attr_type e = attr_type e'"
    and "op_prints_cmd (op_type e) \<Longrightarrow> cmd_name e = cmd_name e' \<and> bb_source e = bb_source e'"
    and "op_prints_read (op_type e) \<Longrightarrow> attr_names e = attr_names e' \<and> bb_source e = bb_source e'"
    and "op_prints_names (op_type e) \<Longrightarrow> attr_names e = attr_names e'"
  shows "request_text e = request_text e'"
proof -
  have texts: "op_text_3 e = op_text_3 e'" "op_text_4 e = op_text_4 e'" "op_text_5 e = op_text_5 e'"
    using assms(2,4,5,6) unfolding op_text_3_def op_text_4_def op_text_5_def
      names_from_def names_only_def cmd_from_def
    by (cases "op_type e"; simp add: op_prints_defs)+
  show ?thesis unfolding request_text_def assms(1) assms(3) texts ..
qed

lemma request_record_sel:
  "req_type (request_record env ip req old) = req_type (request_fields env req old)"
  "op_type (request_record env ip req old) = op_type (request_fields env req old)"
  "attr_type (request_record env ip req old) = attr_type (request_fields env req old)"
  "cmd_name (request_record env ip req old) = cmd_name (request_fields env req old)"
  "attr_names (request_record env ip req old) = attr_names (request_fields env req old)"
  "bb_source (request_record env ip req old) = bb_source (request_fields env req old)"
  "bb_when (request_record env ip req old) = bb_when (request_fields env req old)"
  "host_ip_str (request_record env ip req old) = host_buf (caller_text env ip) (host_ip_str old)"
  by (auto simp: request_record_def Let_def with_host_def tag_client_def split: option.splits)

text \<open>What an insertion leaves of the old slot in the text of the request: nothing.\<close>

lemma request_text_record:
  assumes "request_usual req"
  shows "request_text (request_record env ip req old1) = request_text (request_record env ip req old2)"
  using assms
  by (intro request_text_cong; cases req)
     (auto simp: request_record_sel op_prints_defs cmd_op_type_def read_op_type_def write_op_type_def
        split: if_splits)

text \<open>Likewise in the client part, once the caller's text covers the bytes that are tested.\<close>

lemma host_buf_nth: "k \<le> length txt \<Longrightarrow> vec_get (host_buf txt old) (int k) = Ok ((txt @ [NUL]) ! k)"
  by (auto simp: host_buf_def vec_get_def nth_append)

lemma host_buf_c_str: "NUL \<notin> set txt \<Longrightarrow> c_str (host_buf txt old) = Ok txt"
  by (auto simp: host_buf_def c_str_def intro!: takeWhile_append_stop)

lemma host_text_determined:
  assumes "5 \<le> length txt" "NUL \<notin> set txt"
    and "host_ip_str e1 = host_buf txt o1" "host_ip_str e2 = host_buf txt o2"
    and "ident_text e1 = ident_text e2 \<or> txt \<in> {''polling'', ''user thread''}"
  shows "host_text sys e1 = host_text sys e2"
proof -
  have "vec_get (host_buf txt old) 0 = Ok ((txt @ [NUL]) ! 0) \<and>
        vec_get (host_buf txt old) 5 = Ok ((txt @ [NUL]) ! 5)" for old
    using host_buf_nth[of 0] host_buf_nth[of 5] assms(1) by simp
  then show ?thesis
    using assms(2-5) by (auto simp: host_text_def host_buf_c_str nth_append split: option.splits)
qed

lemma ident_text_record:
  "ident_text (request_record env ip req old1) = ident_text (request_record env ip req old2) \<or>
   caller_internal env ip"
proof (cases "caller_internal env ip \<or> request_ident req = None")
  case True
  then show ?thesis
    by (cases req) (auto simp: request_record_def Let_def with_host_def ident_text_def)
next
  case False
  then have int: "\<not> caller_internal env ip" and idt: "request_ident req \<noteq> None" by auto
  from int obtain a where "ip = Some a" using caller_internal_None by blast
  then obtain a' where "caller_after env ip req = Some a'"
    using idt int by (cases "add_cl_ident (the (request_ident req)) a") (auto simp: caller_after_def)
  then have "request_record env ip req old =
      tag_client a' (with_host env ip (request_fields env req old))" for old
    using int idt by (auto simp: request_record_def Let_def)
  then show ?thesis by (simp add: tag_client_def ident_text_def)
qed

lemma caller_text_nul: "NUL \<notin> set (caller_text env ip)"
  by (auto simp: caller_text_def dest: set_takeWhileD split: option.splits)


section \<open>A run of requests\<close>

lemma bb_run_store:
  assumes "bb_inv b" "\<forall>(env, ip, req) \<in> set reqs. caller_ok ip"
  shows "\<exists>es. bb_run reqs b = Ok (fold bb_store es b) \<and> bb_inv (fold bb_store es b) \<and>
     list_all2 (\<lambda>(env, ip, req) e. \<exists>old. elt_ok old \<and> e = request_record env ip req old) reqs es"
  using assms
proof (induction reqs arbitrary: b)
  case (Cons r reqs)
  obtain env ip req where r: "r = (env, ip, req)" by (cases r)
  let ?e = "request_record env ip req (bb_slot b)"
  have ok: "caller_ok ip" using Cons.prems r by auto
  have step: "bb_apply env ip req b = Ok (bb_store ?e b, caller_after env ip req)"
    using Cons.prems(1) ok by (rule bb_apply_store)
  have "bb_inv (bb_store ?e b)"
    using Cons.prems(1) ok by (intro bb_inv_store elt_ok_request_record bb_inv_slot)
  then obtain es where es: "bb_run reqs (bb_store ?e b) = Ok (fold bb_store es (bb_store ?e b))"
      "bb_inv (fold bb_store es (bb_store ?e b))"
      "list_all2 (\<lambda>(env, ip, req) e. \<exists>old. elt_ok old \<and> e = request_record env ip req old) reqs es"
    using Cons.IH Cons.prems(2) by fastforce
  then show ?case
    using r step bb_inv_slot[OF Cons.prems(1)] by (intro exI[of _ "?e # es"]) auto
qed simp

lemma bb_hist_nonempty: "bb_inv b \<Longrightarrow> bb_hist b \<noteq> [] \<longleftrightarrow> nb_elt b \<noteq> 0"
  by (metis bb_inv_def length_greater_0_conv length_newest less_le nat_0_iff not_le ring_inv_def zero_less_nat_eq)

lemma bb_read_defined:
  assumes "bb_inv b" "0 < wanted" "bb_hist b \<noteq> []"
  shows "\<exists>lines. bb_read sys wanted b = Ok lines \<and>
     rmap (elt_info sys) (take (nat wanted) (bb_hist b)) = Ok lines \<and>
     length lines = min (nat wanted) (nat (nb_elt b))"
proof -
  have "elt_ok e" if "e \<in> set (take (nat wanted) (bb_hist b))" for e
    using that newest_subset assms(1) by (fastforce simp: bb_inv_def dest: in_set_takeD)
  then obtain lines where "rmap (elt_info sys) (take (nat wanted) (bb_hist b)) = Ok lines"
      "length lines = length (take (nat wanted) (bb_hist b))"
    using rmap_elt_info_ok by blast
  then show ?thesis
    using assms bb_read_hist[OF assms(1,2)] bb_hist_nonempty[OF assms(1)] by (auto simp: min.commute)
qed


section \<open>Lemmas on the texts\<close>

lemma butlast_pad0_3: "ms < 1000 \<Longrightarrow> butlast (pad0 3 (dec ms)) = pad0 2 (dec (ms div 10))"
proof (cases "ms < 10")
  case True
  then have "dec ms = [digit_char ms]" "dec (ms div 10) = [CHR ''0'']"
    by (simp_all add: dec_less_10)
  then show ?thesis by (simp add: pad0_def numeral_2_eq_2)
next
  case False
  then show ?thesis by (simp add: pad0_def dec_ge_10 butlast_append)
qed

lemma has_three_dots_nonempty: "has_three_dots s \<Longrightarrow> s \<noteq> []"
  by (auto simp: has_three_dots_def)

lemma join_write_read_split:
  assumes "''/'' \<notin> set ws" "''/'' \<notin> set rs"
  shows "join_write_read (ws @ ''/'' # rs) = join_names ws @ ''/'' @ join_names rs"
proof -
  have tail: "join_write_read (''/'' # rs) = ''/'' @ join_names rs"
    using assms(2)
  proof (induction rs rule: join_names.induct)
    case (2 x)
    then show ?case by simp
  next
    case (3 x y ys)
    then have "join_write_read (x # y # ys) = join_names (x # y # ys)"
      by (cases ys) auto
    then show ?case by simp
  qed simp
  show ?thesis using assms(1)
  proof (induction ws rule: join_names.induct)
    case 1
    then show ?case using tail by simp
  next
    case (2 x)
    then show ?case using tail by simp
  next
    case (3 x y ys)
    then show ?case by auto
  qed
qed

text \<open>A small box and small surroundings, for the concrete instances below.\<close>

definition ex_elt :: BlackBoxElt where
  "ex_elt = \<lparr>req_type = Req_Unknown, attr_type = Attr_Unknown, op_type = Op_Unknown, cmd_name = [],
     attr_names = [], bb_when = 0, host_ip_str = replicate 80 NUL, bb_source = DEV,
     client_ident = False, client_lang = CPP, client_pid = 0, java_main_class = []\<rparr>"

definition ex_box :: BlackBox where
  "ex_box = BlackBox_new [ex_elt, ex_elt] 2"

definition ex_env :: bb_env where
  "ex_env = \<lparr>env_now = 1700000000123456789, env_thread_id = 7, env_poll_ths = [3], env_svr_starting = False\<rparr>"

definition ex_sys :: report_sys where
  "ex_sys = \<lparr>sys_localtime = (\<lambda>_. \<lparr>tm_sec = 20, tm_min = 13, tm_hour = 22, tm_mday = 14, tm_mon = 10, tm_year = 123\<rparr>),
     sys_getname = (\<lambda>_. None), sys_host_name = ''lab''\<rparr>"

definition ex_client :: client_addr where
  "ex_client = \<lparr>ca_client_ident = False, ca_client_ip = ''giop:tcp:10.0.0.7:4711'' @ replicate 58 NUL,
     ca_client_lang = CPP, ca_client_pid = 0, ca_java_main_class = [],
     ca_java_ident0 = 0, ca_java_ident1 = 0\<rparr>"

lemma ex_elt_ok: "elt_ok ex_elt"
  by (simp add: elt_ok_def ex_elt_def cbuf_ok_def IP_ADDR_BUFFER_SIZE_def)

lemma ex_box_inv: "bb_inv ex_box \<and> bb_hist ex_box = [] \<and> max_elt ex_box = 2"
  unfolding ex_box_def using BlackBox_new_inv[of 2 "[ex_elt, ex_elt]"]
  by (auto simp: ex_elt_def IP_ADDR_BUFFER_SIZE_def BlackBox_new_def)

lemma ex_client_ok: "caller_ok (Some ex_client)"
  by (simp add: caller_ok_def ca_ok_def ex_client_def cbuf_ok_def IP_ADDR_BUFFER_SIZE_def)


section \<open>Properties\<close>

text \<open>
  (C1) Reading the black box after any non-empty sequence of requests succeeds, and
  returns the texts of the recorded requests, newest first, at most as many as
  asked for and at most as many as the depth of the box: the box behaves as the
  list of all records ever made, cut to its depth. No request meets undefined
  behaviour.
\<close>

theorem bb_requests_recorded:
  assumes "bb_inv b" "\<forall>(env, ip, req) \<in> set reqs. caller_ok ip" "reqs \<noteq> []" "0 < wanted"
  shows "\<exists>b' es lines. bb_run reqs b = Ok b' \<and> bb_inv b' \<and>
     list_all2 (\<lambda>(env, ip, req) e. \<exists>old. elt_ok old \<and> e = request_record env ip req old) reqs es \<and>
     bb_read sys wanted b' = Ok lines \<and>
     rmap (elt_info sys) (take (nat wanted) (take (nat (max_elt b)) (rev es @ bb_hist b))) = Ok lines"
proof -
  obtain es where es: "bb_run reqs b = Ok (fold bb_store es b)" "bb_inv (fold bb_store es b)"
      "list_all2 (\<lambda>(env, ip, req) e. \<exists>old. elt_ok old \<and> e = request_record env ip req old) reqs es"
    using bb_run_store[OF assms(1,2)] by blast
  have r: "ring_inv (length (box b)) (insert_elt b) (nb_elt b) (max_elt b)"
    using assms(1) by (simp add: bb_inv_def)
  have h: "bb_hist (fold bb_store es b) = take (nat (max_elt b)) (rev es @ bb_hist b)"
    using bb.hist_pushes[OF r] by simp
  moreover have "es \<noteq> []" using es(3) assms(3) by auto
  moreover have "0 < max_elt b" using r by (simp add: ring_inv_def)
  ultimately have "bb_hist (fold bb_store es b) \<noteq> []" by simp
  then obtain lines where "bb_read sys wanted (fold bb_store es b) = Ok lines"
      "rmap (elt_info sys) (take (nat wanted) (bb_hist (fold bb_store es b))) = Ok lines"
    using bb_read_defined[OF es(2) assms(4)] by blast
  then show ?thesis using es unfolding h by blast
qed

theorem bb_requests_recorded_witness:
  "\<exists>b' es lines.
     bb_run [(ex_env, None, Cmd ''State'' 4 DEV), (ex_env, Some ex_client, Op_cl_ident Op_Ping (Cpp_clnt 42))]
       ex_box = Ok b' \<and> bb_inv b' \<and>
     list_all2 (\<lambda>(env, ip, req) e. \<exists>old. elt_ok old \<and> e = request_record env ip req old)
       [(ex_env, None, Cmd ''State'' 4 DEV), (ex_env, Some ex_client, Op_cl_ident Op_Ping (Cpp_clnt 42))] es \<and>
     bb_read ex_sys 5 b' = Ok lines \<and>
     rmap (elt_info ex_sys) (take (nat 5) (take (nat (max_elt ex_box)) (rev es @ bb_hist ex_box))) = Ok lines"
  using ex_box_inv ex_client_ok
  by (intro bb_requests_recorded) (auto simp: caller_ok_def)

text \<open>
  Every public insert operation, on a well-formed box and a well-formed client
  address, terminates normally, keeps the box well-formed and its depth, leaves a
  well-formed client address on the thread, and makes its record the newest one
  without reordering the others.
\<close>

theorem bb_insert_step:
  assumes "bb_inv b" "caller_ok ip"
  shows "\<exists>b' ip'. bb_apply env ip req b = Ok (b', ip') \<and> bb_inv b' \<and> caller_ok ip' \<and>
     max_elt b' = max_elt b \<and>
     bb_hist b' = take (nat (max_elt b)) (request_record env ip req (bb_slot b) # bb_hist b)"
proof -
  have r: "ring_inv (length (box b)) (insert_elt b) (nb_elt b) (max_elt b)"
    using assms(1) by (simp add: bb_inv_def)
  let ?e = "request_record env ip req (bb_slot b)"
  have "bb_inv (bb_store ?e b)" "caller_ok (caller_after env ip req)" "max_elt (bb_store ?e b) = max_elt b"
    using bb_apply_inv[OF assms, of env req] bb_apply_store[OF assms, of env req] by auto
  then show ?thesis using bb_apply_store[OF assms, of env req] bb.hist_push[OF r, of ?e] by blast
qed

theorem bb_insert_step_witness:
  "\<exists>b' ip'. bb_apply ex_env (Some ex_client) (Op_cl_ident Op_Ping (Cpp_clnt 42)) ex_box = Ok (b', ip') \<and>
     bb_inv b' \<and> caller_ok ip' \<and> max_elt b' = max_elt ex_box \<and>
     bb_hist b' = take (nat (max_elt ex_box))
       (request_record ex_env (Some ex_client) (Op_cl_ident Op_Ping (Cpp_clnt 42)) (bb_slot ex_box)
        # bb_hist ex_box)"
  using ex_box_inv ex_client_ok by (intro bb_insert_step) auto

text \<open>
  (C28) What \<open>BlackBox::read\<close> does on every branch: a non-positive argument and an
  empty box are reported with their own exception, any other call returns as many
  lines as asked for, limited by the number of records.
\<close>

theorem bb_read_outcome:
  assumes "bb_inv b"
  shows "(wanted \<le> 0 \<longrightarrow> bb_read sys wanted b =
            Throw (DevFailed ''API_BlackBoxArgument'' ''Argument to read black box out of range'')) \<and>
         (0 < wanted \<longrightarrow> bb_hist b = [] \<longrightarrow> bb_read sys wanted b =
            Throw (DevFailed ''API_BlackBoxEmpty'' ''Nothing stored yet in black-box'')) \<and>
         (0 < wanted \<longrightarrow> bb_hist b \<noteq> [] \<longrightarrow>
            (\<exists>lines. bb_read sys wanted b = Ok lines \<and>
               length lines = min (nat wanted) (length (bb_hist b))))"
  using bb_read_defined[OF assms] bb_hist_nonempty[OF assms]
  by (fastforce simp: bb_read_def)

theorem bb_read_outcome_witness:
  "bb_read ex_sys 0 ex_box =
     Throw (DevFailed ''API_BlackBoxArgument'' ''Argument to read black box out of range'') \<and>
   bb_read ex_sys 3 ex_box = Throw (DevFailed ''API_BlackBoxEmpty'' ''Nothing stored yet in black-box'')"
  using bb_read_outcome[of ex_box 0 ex_sys] bb_read_outcome[of ex_box 3 ex_sys] ex_box_inv
  by (metis order_refl zero_less_numeral)

text \<open>
  The line printed for a request does not depend on what the reused slot held
  before, for the requests the device layer makes, when the text that names the
  caller has at least five characters and internal callers have no client address.
\<close>

theorem bb_line_slot_independent:
  assumes "request_usual req" "5 \<le> length (caller_text env ip)"
    and "caller_internal env ip \<Longrightarrow> ip = None"
  shows "elt_info sys (request_record env ip req old1) = elt_info sys (request_record env ip req old2)"
proof -
  let ?r1 = "request_record env ip req old1" and ?r2 = "request_record env ip req old2"
  have "caller_text env ip \<in> {''polling'', ''user thread''}" if "caller_internal env ip"
    using that assms(2,3) by (auto simp: caller_text_def split: if_splits)
  then have h: "host_text sys ?r1 = host_text sys ?r2"
    using ident_text_record[of env ip req old1 old2] assms(2) caller_text_nul
    by (intro host_text_determined) (auto simp: request_record_sel)
  have w: "bb_when ?r1 = bb_when ?r2"
    by (cases req) (simp_all add: request_record_sel)
  show ?thesis
    unfolding elt_info_def h w request_text_record[OF assms(1), of env ip old1 old2] ..
qed

theorem bb_line_slot_independent_witness:
  "elt_info ex_sys (request_record ex_env None (Cmd ''State'' 4 DEV) ex_elt) =
   elt_info ex_sys (request_record ex_env None (Cmd ''State'' 4 DEV)
     (ex_elt\<lparr>cmd_name := ''On'', client_ident := True\<rparr>))"
  by (rule bb_line_slot_independent) (simp_all add: caller_text_def ex_env_def)

text \<open>
  The text \<open>init\<close> of a request made while the server starts has four
  characters, so the test of the sixth byte of the host buffer reads what an earlier
  record left there. After a unix-domain client (\<open>giop:unix:...\<close>) has used the
  slot, a start-up request is reported as coming from the local host.
\<close>

theorem bb_init_line_stale_host:
  assumes "elt_ok old" "host_ip_str old ! 5 = CHR ''u''"
    and "env_svr_starting env" "env_thread_id env \<notin> set (env_poll_ths env)"
  shows "\<exists>tail. host_text sys (request_record env None req old)
           = Ok (''requested from '' @ sys_host_name sys @ tail)"
proof -
  have len: "length (host_ip_str old) = 80"
    using assms(1) by (simp add: elt_ok_def cbuf_ok_def IP_ADDR_BUFFER_SIZE_def)
  have ct: "caller_text env None = ''init''" using assms(3,4) by (simp add: caller_text_def)
  have five: "(5::nat) = Suc (Suc (Suc (Suc (Suc 0))))" by simp
  have "vec_get (host_ip_str (request_record env None req old)) 5 = Ok (CHR ''u'')"
    using len assms(2)[unfolded five] by (simp add: request_record_sel ct host_buf_def vec_get_def)
  moreover have "vec_get (host_ip_str (request_record env None req old)) 0 = Ok (CHR ''i'')"
    using len by (simp add: request_record_sel ct host_buf_def vec_get_def)
  ultimately show ?thesis by (simp add: host_text_def)
qed

theorem bb_init_line_stale_host_witness:
  "\<exists>tail. host_text ex_sys (request_record (ex_env\<lparr>env_svr_starting := True\<rparr>) None (Op Op_Ping)
      (ex_elt\<lparr>host_ip_str := ''giop:unix:/tmp/omni-tango/000001'' @ replicate 48 NUL\<rparr>))
     = Ok (''requested from '' @ sys_host_name ex_sys @ tail)"
  by (rule bb_init_line_stale_host)
     (simp_all add: elt_ok_def cbuf_ok_def IP_ADDR_BUFFER_SIZE_def ex_env_def)

text \<open>
  The address printed for a remote client is the dotted address of its end
  point, whether the end point is written as IPv4 or as an IPv4-mapped IPv6 address.
\<close>

theorem bb_client_ip_extracted:
  assumes "has_three_dots ip" "CHR '':'' \<notin> set ip" "CHR '']'' \<notin> set ip" "hd ip \<noteq> CHR ''[''"
  shows "ip_of_omni_addr (''giop:tcp:'' @ ip @ '':'' @ port) = Some ip \<and>
         ip_of_omni_addr (''giop:tcp:[::ffff:'' @ ip @ '']:'' @ port) = Some ip"
proof
  obtain c cs where ip: "ip = c # cs" using has_three_dots_nonempty[OF assms(1)] by (cases ip) auto
  have "find_char (CHR '':'') (ip @ CHR '':'' # port) = Some (length ip)"
    using assms(2) by simp
  then show "ip_of_omni_addr (''giop:tcp:'' @ ip @ '':'' @ port) = Some ip"
    using assms(1,4) ip by (simp add: ip_of_omni_addr_def find_from_def)
  have "find_char (CHR '']'') (ip @ CHR '']'' # CHR '':'' # port) = Some (length ip)"
    using assms(3) by simp
  then show "ip_of_omni_addr (''giop:tcp:[::ffff:'' @ ip @ '']:'' @ port) = Some ip"
    using assms(1) by (simp add: ip_of_omni_addr_def find_from_def)
qed

theorem bb_client_ip_extracted_witness:
  "ip_of_omni_addr (''giop:tcp:'' @ ''10.0.0.7'' @ '':'' @ ''4711'') = Some ''10.0.0.7'' \<and>
   ip_of_omni_addr (''giop:tcp:[::ffff:'' @ ''10.0.0.7'' @ '']:'' @ ''4711'') = Some ''10.0.0.7''"
  by (rule bb_client_ip_extracted) (simp_all add: has_three_dots_def find_from_def)

text \<open>
  The date of a line has the documented form \<open>dd/mm/yyyy hh24:mi:ss:xx\<close>: the
  fields of the local time, then two digits of hundredths of a second.
\<close>

theorem bb_timestamp_format:
  "timestamp_unix_to_str sys d =
     (let t = sys_localtime sys (d div 10 ^ 9) in
      pad0 2 (dec (tm_mday t)) @ ''/'' @ pad0 2 (dec (tm_mon t + 1)) @ ''/'' @ dec (tm_year t + 1900) @
      '' '' @ pad0 2 (dec (tm_hour t)) @ '':'' @ pad0 2 (dec (tm_min t)) @ '':'' @
      pad0 2 (dec (tm_sec t)) @ '':'' @ pad0 2 (dec ((d div 10 ^ 6) mod 1000 div 10)))"
proof -
  let ?ms = "(d div 1000000) mod 1000"
  have "pad0 3 (dec ?ms) \<noteq> []" by (simp add: pad0_def)
  then show ?thesis
    by (simp add: timestamp_unix_to_str_def Let_def butlast_append butlast_pad0_3)
qed

text \<open>
  The names of a \<open>write_read_attributes_5\<close> request are printed as the written
  names, a slash and the read names, each list separated by commas.
\<close>

theorem bb_write_read_names:
  assumes "''/'' \<notin> set ws" "''/'' \<notin> set rs" "vers \<ge> 5"
  shows "request_text (request_record env ip (Attr_write_read ws rs cl vers) old) =
     Inr (''Operation write_read_attributes_5 ('' @ join_names ws @ ''/'' @ join_names rs @ '') '')"
  using join_write_read_split[OF assms(1,2)] assms(3)
  by (simp add: request_text_def request_record_sel op_text_3_def op_text_4_def op_text_5_def)

theorem bb_write_read_names_witness:
  "request_text (request_record ex_env (Some ex_client)
      (Attr_write_read [''a'', ''b''] [''c'', ''d''] (Cpp_clnt 42) 5) ex_elt) =
     Inr (''Operation write_read_attributes_5 ('' @ join_names [''a'', ''b''] @ ''/'' @
          join_names [''c'', ''d''] @ '') '')"
  by (rule bb_write_read_names) simp_all

end
