(* ===== verification/Event_Queue.thy ===== *)
theory Event_Queue
  imports Circular_Buffer "HOL-Library.Multiset"
begin

text \<open>
  The client event queue (\<open>src/client/eventqueue.cpp\<close>): the buffer that holds
  the events of a subscription in pull mode, unlimited (maximum size 0) or circular.
  The class keeps one vector of pointers per kind of event and one set of indices
  for all of them; a queue serves one subscription, hence one kind. The model has
  one definition per overload of the source. A pointer is an \<open>option\<close>
  (\<open>None\<close> is \<open>nullptr\<close>), and \<open>eq_deleted\<close> lists the events the class has
  deleted, in order. The type of the events is a parameter, and so is the function
  \<open>get_date\<close> that reads the reception date of an event.
\<close>

section \<open>Data\<close>

record 'e EventQueue =
  event_buffer :: "'e option list"
  conf_event_buffer :: "'e option list"
  ready_event_buffer :: "'e option list"
  dev_inter_event_buffer :: "'e option list"
  pipe_event_buffer :: "'e option list"
  eq_max_elt :: int
  eq_insert_elt :: int
  eq_nb_elt :: int
  eq_deleted :: "'e list"

definition EventQueue_default :: "'e EventQueue" where
  "EventQueue_default =
     \<lparr>event_buffer = [], conf_event_buffer = [], ready_event_buffer = [],
      dev_inter_event_buffer = [], pipe_event_buffer = [],
      eq_max_elt = 0, eq_insert_elt = 0, eq_nb_elt = 0, eq_deleted = []\<rparr>"

definition EventQueue_new :: "int \<Rightarrow> 'e EventQueue" where
  "EventQueue_new max_size =
     EventQueue_default\<lparr>eq_max_elt := (if max_size = 0 then 0 else max_size)\<rparr>"


section \<open>Insertion\<close>

definition eq_inc_indexes :: "'e EventQueue \<Rightarrow> 'e EventQueue" where
  "eq_inc_indexes q =
     (if eq_max_elt q = 0 then
        q\<lparr>eq_insert_elt := eq_insert_elt q + 1, eq_nb_elt := eq_nb_elt q + 1\<rparr>
      else
        (let ie = eq_insert_elt q + 1;
             ie = (if ie = eq_max_elt q then 0 else ie);
             nb = (if eq_nb_elt q \<noteq> eq_max_elt q then eq_nb_elt q + 1 else eq_nb_elt q)
         in q\<lparr>eq_insert_elt := ie, eq_nb_elt := nb\<rparr>))"

text \<open>
  The body the overloads share: append without a maximum size, else allocate the
  ring on first use, delete what the slot still holds and store the new pointer.
  The result is the new vector and the events deleted.
\<close>

definition put_event :: "int \<Rightarrow> int \<Rightarrow> 'e option list \<Rightarrow> 'e \<Rightarrow> ('e option list \<times> 'e list) result" where
  "put_event mx ins buf new_event =
     (if mx = 0 then Ok (buf @ [Some new_event], [])
      else
        (let buf = (if buf = [] then replicate (nat mx) None else buf) in
         rbind (vec_get buf ins) (\<lambda>old.
         rbind (vec_set buf ins (Some new_event)) (\<lambda>buf'.
           Ok (buf', case old of None \<Rightarrow> [] | Some x \<Rightarrow> [x])))))"

definition insert_event_data :: "'e \<Rightarrow> 'e EventQueue \<Rightarrow> 'e EventQueue result" where
  "insert_event_data new_event q =
     rbind (put_event (eq_max_elt q) (eq_insert_elt q) (event_buffer q) new_event) (\<lambda>(buf, del).
       Ok (eq_inc_indexes (q\<lparr>event_buffer := buf, eq_deleted := eq_deleted q @ del\<rparr>)))"

definition insert_event_conf :: "'e \<Rightarrow> 'e EventQueue \<Rightarrow> 'e EventQueue result" where
  "insert_event_conf new_event q =
     rbind (put_event (eq_max_elt q) (eq_insert_elt q) (conf_event_buffer q) new_event) (\<lambda>(buf, del).
       Ok (eq_inc_indexes (q\<lparr>conf_event_buffer := buf, eq_deleted := eq_deleted q @ del\<rparr>)))"

definition insert_event_ready :: "'e \<Rightarrow> 'e EventQueue \<Rightarrow> 'e EventQueue result" where
  "insert_event_ready new_event q =
     rbind (put_event (eq_max_elt q) (eq_insert_elt q) (ready_event_buffer q) new_event) (\<lambda>(buf, del).
       Ok (eq_inc_indexes (q\<lparr>ready_event_buffer := buf, eq_deleted := eq_deleted q @ del\<rparr>)))"

definition insert_event_intr :: "'e \<Rightarrow> 'e EventQueue \<Rightarrow> 'e EventQueue result" where
  "insert_event_intr new_event q =
     rbind (put_event (eq_max_elt q) (eq_insert_elt q) (dev_inter_event_buffer q) new_event) (\<lambda>(buf, del).
       Ok (eq_inc_indexes (q\<lparr>dev_inter_event_buffer := buf, eq_deleted := eq_deleted q @ del\<rparr>)))"

definition insert_event_pipe :: "'e \<Rightarrow> 'e EventQueue \<Rightarrow> 'e EventQueue result" where
  "insert_event_pipe new_event q =
     rbind (put_event (eq_max_elt q) (eq_insert_elt q) (pipe_event_buffer q) new_event) (\<lambda>(buf, del).
       Ok (eq_inc_indexes (q\<lparr>pipe_event_buffer := buf, eq_deleted := eq_deleted q @ del\<rparr>)))"


section \<open>Queries\<close>

definition eq_size :: "'e EventQueue \<Rightarrow> int" where
  "eq_size q = eq_nb_elt q"

definition eq_is_empty :: "'e EventQueue \<Rightarrow> bool" where
  "eq_is_empty q \<longleftrightarrow> event_buffer q = []"

text \<open>The date of the pointer at an index; a null pointer is dereferenced.\<close>

definition date_at :: "('e \<Rightarrow> nat) \<Rightarrow> 'e option list \<Rightarrow> int \<Rightarrow> nat result" where
  "date_at get_date buf i =
     rbind (vec_get buf i) (\<lambda>p. case p of None \<Rightarrow> Undef | Some e \<Rightarrow> Ok (get_date e))"

text \<open>
  The last branch for data ready events reads the vector of the attribute
  configuration events, as the source does.
\<close>

definition get_last_event_date :: "('e \<Rightarrow> nat) \<Rightarrow> 'e EventQueue \<Rightarrow> nat result" where
  "get_last_event_date get_date q =
     (if event_buffer q \<noteq> [] then
        (if eq_insert_elt q = 0 then date_at get_date (event_buffer q) (eq_max_elt q - 1)
         else date_at get_date (event_buffer q) (eq_insert_elt q - 1))
      else if conf_event_buffer q \<noteq> [] then
        (if eq_insert_elt q = 0 then date_at get_date (conf_event_buffer q) (eq_max_elt q - 1)
         else date_at get_date (conf_event_buffer q) (eq_insert_elt q - 1))
      else if ready_event_buffer q \<noteq> [] then
        (if eq_insert_elt q = 0 then date_at get_date (ready_event_buffer q) (eq_max_elt q - 1)
         else date_at get_date (conf_event_buffer q) (eq_insert_elt q - 1))
      else Throw (EventSystemFailed ''API_EventQueues''
             (''No new events available!'' @ [CHR 0x0A] @ ''Cannot return any event date'')))"


section \<open>Extraction\<close>

text \<open>
  The copy loop: \<open>index\<close> walks back from the last insertion, \<open>seq_index\<close> fills
  the returned list from its end, and the pointers moved are cleared in the buffer.
\<close>

primrec get_loop ::
    "int \<Rightarrow> nat \<Rightarrow> int \<Rightarrow> int \<Rightarrow> 'e option list \<Rightarrow> 'e option list \<Rightarrow>
     ('e option list \<times> 'e option list) result" where
  "get_loop mx 0 index seq_index event_list buf = Ok (event_list, buf)"
| "get_loop mx (Suc n) index seq_index event_list buf =
     rbind (vec_get buf index) (\<lambda>p.
     rbind (vec_set event_list seq_index p) (\<lambda>event_list'.
     rbind (vec_set buf index None) (\<lambda>buf'.
       let index' = (if index = 0 then mx else index) - 1 in
       get_loop mx n index' (seq_index - 1) event_list' buf')))"

definition get_from :: "'e EventQueue \<Rightarrow> 'e option list \<Rightarrow> 'e option list result" where
  "get_from q buf =
     (let index = (if eq_insert_elt q = 0 then eq_max_elt q else eq_insert_elt q) - 1;
          seq_index = eq_nb_elt q - 1;
          event_list = replicate (nat (eq_nb_elt q)) None
      in rbind (get_loop (eq_max_elt q) (nat (eq_nb_elt q)) index seq_index event_list buf)
           (\<lambda>(event_list, buf). Ok event_list))"

abbreviation eq_reset :: "'e EventQueue \<Rightarrow> 'e EventQueue" where
  "eq_reset q \<equiv> q\<lparr>eq_insert_elt := 0, eq_nb_elt := 0\<rparr>"

definition get_events_data :: "'e EventQueue \<Rightarrow> ('e option list \<times> 'e EventQueue) result" where
  "get_events_data q =
     rbind (get_from q (event_buffer q)) (\<lambda>event_list.
       Ok (event_list, eq_reset (q\<lparr>event_buffer := []\<rparr>)))"

definition get_events_conf :: "'e EventQueue \<Rightarrow> ('e option list \<times> 'e EventQueue) result" where
  "get_events_conf q =
     rbind (get_from q (conf_event_buffer q)) (\<lambda>event_list.
       Ok (event_list, eq_reset (q\<lparr>conf_event_buffer := []\<rparr>)))"

definition get_events_ready :: "'e EventQueue \<Rightarrow> ('e option list \<times> 'e EventQueue) result" where
  "get_events_ready q =
     rbind (get_from q (ready_event_buffer q)) (\<lambda>event_list.
       Ok (event_list, eq_reset (q\<lparr>ready_event_buffer := []\<rparr>)))"

definition get_events_intr :: "'e EventQueue \<Rightarrow> ('e option list \<times> 'e EventQueue) result" where
  "get_events_intr q =
     rbind (get_from q (dev_inter_event_buffer q)) (\<lambda>event_list.
       Ok (event_list, eq_reset (q\<lparr>dev_inter_event_buffer := []\<rparr>)))"

definition get_events_pipe :: "'e EventQueue \<Rightarrow> ('e option list \<times> 'e EventQueue) result" where
  "get_events_pipe q =
     rbind (get_from q (pipe_event_buffer q)) (\<lambda>event_list.
       Ok (event_list, eq_reset (q\<lparr>pipe_event_buffer := []\<rparr>)))"

text \<open>
  Extraction through a callback: the events are given to the callback in order
  (an exception of the callback is caught and does not stop the loop), so the
  result is the list of pointers handed over. There is no branch for pipe events.
\<close>

definition get_events_cb :: "bool \<Rightarrow> 'e EventQueue \<Rightarrow> ('e option list \<times> 'e EventQueue) result" where
  "get_events_cb cb_is_null q =
     (if cb_is_null then
        Throw (EventSystemFailed ''API_EventQueues''
          (''No callback object given!'' @ [CHR 0x0A] @ ''Cannot return any event data''))
      else if event_buffer q \<noteq> [] then get_events_data q
      else if conf_event_buffer q \<noteq> [] then get_events_conf q
      else if dev_inter_event_buffer q \<noteq> [] then get_events_intr q
      else get_events_ready q)"

text \<open>The events the destructor deletes: the first \<open>nb_elt\<close> entries of one vector.\<close>

definition delete_first :: "int \<Rightarrow> 'e option list \<Rightarrow> 'e list result" where
  "delete_first nb buf =
     rbind (rmap (\<lambda>i. vec_get buf (int i)) [0..<nat nb]) (\<lambda>ps. Ok (List.map_filter id ps))"

definition EventQueue_destroy :: "'e EventQueue \<Rightarrow> 'e list result" where
  "EventQueue_destroy q =
     (if length (event_buffer q) > 0 then delete_first (eq_nb_elt q) (event_buffer q)
      else if length (conf_event_buffer q) > 0 then delete_first (eq_nb_elt q) (conf_event_buffer q)
      else delete_first (eq_nb_elt q) (ready_event_buffer q))"


section \<open>The kinds of events\<close>

datatype ev_kind = Ev_data | Ev_conf | Ev_ready | Ev_intr | Ev_pipe

fun ev_buf :: "ev_kind \<Rightarrow> 'e EventQueue \<Rightarrow> 'e option list" where
  "ev_buf Ev_data q = event_buffer q"
| "ev_buf Ev_conf q = conf_event_buffer q"
| "ev_buf Ev_ready q = ready_event_buffer q"
| "ev_buf Ev_intr q = dev_inter_event_buffer q"
| "ev_buf Ev_pipe q = pipe_event_buffer q"

fun set_ev_buf :: "ev_kind \<Rightarrow> 'e option list \<Rightarrow> 'e EventQueue \<Rightarrow> 'e EventQueue" where
  "set_ev_buf Ev_data b q = q\<lparr>event_buffer := b\<rparr>"
| "set_ev_buf Ev_conf b q = q\<lparr>conf_event_buffer := b\<rparr>"
| "set_ev_buf Ev_ready b q = q\<lparr>ready_event_buffer := b\<rparr>"
| "set_ev_buf Ev_intr b q = q\<lparr>dev_inter_event_buffer := b\<rparr>"
| "set_ev_buf Ev_pipe b q = q\<lparr>pipe_event_buffer := b\<rparr>"

fun insert_event :: "ev_kind \<Rightarrow> 'e \<Rightarrow> 'e EventQueue \<Rightarrow> 'e EventQueue result" where
  "insert_event Ev_data e q = insert_event_data e q"
| "insert_event Ev_conf e q = insert_event_conf e q"
| "insert_event Ev_ready e q = insert_event_ready e q"
| "insert_event Ev_intr e q = insert_event_intr e q"
| "insert_event Ev_pipe e q = insert_event_pipe e q"

fun get_events :: "ev_kind \<Rightarrow> 'e EventQueue \<Rightarrow> ('e option list \<times> 'e EventQueue) result" where
  "get_events Ev_data q = get_events_data q"
| "get_events Ev_conf q = get_events_conf q"
| "get_events Ev_ready q = get_events_ready q"
| "get_events Ev_intr q = get_events_intr q"
| "get_events Ev_pipe q = get_events_pipe q"

fun insert_events :: "ev_kind \<Rightarrow> 'e list \<Rightarrow> 'e EventQueue \<Rightarrow> 'e EventQueue result" where
  "insert_events k [] q = Ok q"
| "insert_events k (e # es) q = rbind (insert_event k e q) (insert_events k es)"

lemma ev_buf_sel [simp]:
  "eq_max_elt (set_ev_buf k b q) = eq_max_elt q"
  "eq_insert_elt (set_ev_buf k b q) = eq_insert_elt q"
  "eq_nb_elt (set_ev_buf k b q) = eq_nb_elt q"
  "eq_deleted (set_ev_buf k b q) = eq_deleted q"
  "ev_buf k (set_ev_buf k b q) = b"
  by (cases k; simp)+

lemma ev_buf_upd [simp]:
  "ev_buf k (q\<lparr>eq_insert_elt := i\<rparr>) = ev_buf k q"
  "ev_buf k (q\<lparr>eq_nb_elt := n\<rparr>) = ev_buf k q"
  "ev_buf k (q\<lparr>eq_deleted := d\<rparr>) = ev_buf k q"
  by (cases k; simp)+

lemma ev_buf_other: "k' \<noteq> k \<Longrightarrow> ev_buf k' (set_ev_buf k b q) = ev_buf k' q"
  by (cases k; cases k'; simp)

lemma insert_event_eq:
  "insert_event k e q =
     rbind (put_event (eq_max_elt q) (eq_insert_elt q) (ev_buf k q) e) (\<lambda>(buf, del).
       Ok (eq_inc_indexes ((set_ev_buf k buf q)\<lparr>eq_deleted := eq_deleted q @ del\<rparr>)))"
  by (cases k) (simp_all add: insert_event_data_def insert_event_conf_def insert_event_ready_def
      insert_event_intr_def insert_event_pipe_def)

lemma get_events_eq:
  "get_events k q = rbind (get_from q (ev_buf k q)) (\<lambda>l. Ok (l, eq_reset (set_ev_buf k [] q)))"
  by (cases k) (simp_all add: get_events_data_def get_events_conf_def get_events_ready_def
      get_events_intr_def get_events_pipe_def)


section \<open>The circular mode as a circular store\<close>

definition eq_slots :: "ev_kind \<Rightarrow> 'e EventQueue \<Rightarrow> 'e option list" where
  "eq_slots k q = (if ev_buf k q = [] then replicate (nat (eq_max_elt q)) None else ev_buf k q)"

definition eq_store :: "ev_kind \<Rightarrow> 'e option \<Rightarrow> 'e EventQueue \<Rightarrow> 'e EventQueue" where
  "eq_store k x q = eq_inc_indexes (set_ev_buf k ((eq_slots k q)[nat (eq_insert_elt q) := x]) q)"

lemma eq_slots_deleted [simp]: "eq_slots k (q\<lparr>eq_deleted := d\<rparr>) = eq_slots k q"
  by (simp add: eq_slots_def)

lemma eq_inc_sel [simp]:
  "ev_buf k (eq_inc_indexes q) = ev_buf k q"
  "eq_max_elt (eq_inc_indexes q) = eq_max_elt q"
  "eq_deleted (eq_inc_indexes q) = eq_deleted q"
  by (simp_all add: eq_inc_indexes_def Let_def)

interpretation evq: circular_store "eq_slots k" eq_insert_elt eq_nb_elt eq_max_elt "eq_store k" for k
proof (unfold_locales, goal_cases)
  case (1 q x)
  then have "eq_slots k q \<noteq> []" by (auto simp: ring_inv_def)
  then show ?case by (simp add: eq_store_def eq_slots_def)
next
  case (2 q x)
  then show ?case by (auto simp: eq_store_def eq_inc_indexes_def Let_def next_idx_def ring_inv_def)
next
  case (3 q x)
  then show ?case by (auto simp: eq_store_def eq_inc_indexes_def Let_def ring_inv_def)
next
  case (4 q x)
  then show ?case by (simp add: eq_store_def)
qed

text \<open>
  The queue holds the events \<open>evs\<close>, oldest first: all of them in the vector
  without a maximum size, else as the history of the circular store, the unused
  slots being null.
\<close>

definition eq_holds :: "ev_kind \<Rightarrow> 'e EventQueue \<Rightarrow> 'e list \<Rightarrow> bool" where
  "eq_holds k q evs \<longleftrightarrow>
     (if eq_max_elt q = 0 then
        ev_buf k q = map Some evs \<and> eq_insert_elt q = int (length evs) \<and> eq_nb_elt q = int (length evs)
      else
        ring_inv (length (eq_slots k q)) (eq_insert_elt q) (eq_nb_elt q) (eq_max_elt q) \<and>
        newest (eq_slots k q) (eq_insert_elt q) (eq_nb_elt q) (eq_max_elt q) = map Some (rev evs) \<and>
        (\<forall>i < length (eq_slots k q). nat (eq_nb_elt q) \<le> i \<longrightarrow> eq_slots k q ! i = None))"

definition keep_last :: "int \<Rightarrow> 'e list \<Rightarrow> 'e list" where
  "keep_last mx xs = (if mx = 0 then xs else drop (length xs - nat mx) xs)"

definition drop_first :: "int \<Rightarrow> 'e list \<Rightarrow> 'e list" where
  "drop_first mx xs = (if mx = 0 then [] else take (length xs - nat mx) xs)"

lemma keep_last_step: "0 \<le> mx \<Longrightarrow> keep_last mx (keep_last mx hs @ [e]) = keep_last mx (hs @ [e])"
  by (cases "length hs < nat mx") (auto simp: keep_last_def Suc_diff_le)

lemma keep_last_rev: "0 < mx \<Longrightarrow> rev (keep_last mx xs) = take (nat mx) (rev xs)"
  by (cases "nat mx \<le> length xs") (auto simp: keep_last_def rev_drop)

lemma drop_first_step:
  assumes "0 \<le> mx"
  shows "drop_first mx hs @ drop_first mx (keep_last mx hs @ [e]) = drop_first mx (hs @ [e])"
proof (cases "mx = 0 \<or> length hs < nat mx")
  case True
  then show ?thesis by (auto simp: drop_first_def keep_last_def)
next
  case False
  then have mx: "0 < nat mx" and le: "nat mx \<le> length hs" using assms by auto
  have "take (length hs - nat mx) hs @ take 1 (drop (length hs - nat mx) hs) = take (Suc (length hs - nat mx)) hs"
    by (metis Suc_eq_plus1 take_add)
  then show ?thesis using False mx le
    by (simp add: drop_first_def keep_last_def Suc_diff_le)
qed

lemma keep_drop: "drop_first mx xs @ keep_last mx xs = xs"
  by (simp add: keep_last_def drop_first_def)

lemma eq_holds_new: "0 \<le> mx \<Longrightarrow> eq_holds k (EventQueue_new mx) []"
  by (cases k) (auto simp: eq_holds_def EventQueue_new_def EventQueue_default_def eq_slots_def
      ring_inv_def newest_def)

text \<open>One insertion.\<close>

lemma insert_unlimited:
  assumes "eq_holds k q evs" "eq_max_elt q = 0"
  shows "\<exists>q'. insert_event k e q = Ok q' \<and> eq_max_elt q' = 0 \<and> eq_holds k q' (evs @ [e]) \<and>
     eq_deleted q' = eq_deleted q"
  using assms
  by (auto simp: insert_event_eq put_event_def eq_holds_def eq_inc_indexes_def)

lemma insert_circular:
  assumes h: "eq_holds k q evs" and mx: "0 < eq_max_elt q"
  shows "\<exists>q'. insert_event k e q = Ok q' \<and> eq_max_elt q' = eq_max_elt q \<and>
     eq_holds k q' (keep_last (eq_max_elt q) (evs @ [e])) \<and>
     eq_deleted q' = eq_deleted q @ drop_first (eq_max_elt q) (evs @ [e])"
proof -
  let ?sl = "eq_slots k q" and ?i = "eq_insert_elt q" and ?n = "eq_nb_elt q" and ?m = "eq_max_elt q"
  from h mx have r: "ring_inv (length ?sl) ?i ?n ?m"
    and nw: "newest ?sl ?i ?n ?m = map Some (rev evs)"
    and un: "\<forall>i < length ?sl. nat ?n \<le> i \<longrightarrow> ?sl ! i = None"
    by (auto simp: eq_holds_def)
  then have rng: "0 \<le> ?i" "?i < int (length ?sl)" "0 \<le> ?n" "?n \<le> ?m" "int (length ?sl) = ?m"
    "?n < ?m \<longrightarrow> ?i = ?n" by (auto simp: ring_inv_def)
  have len: "length evs = nat ?n" using nw by (metis length_map length_newest length_rev)
  let ?old = "?sl ! nat ?i"
  let ?del = "case ?old of None \<Rightarrow> [] | Some x \<Rightarrow> [x]"
  have put: "put_event ?m ?i (ev_buf k q) e = Ok (?sl[nat ?i := Some e], ?del)"
    using rng mx by (simp add: put_event_def Let_def vec_get_in vec_set_in flip: eq_slots_def)
  let ?q' = "eq_store k (Some e) q"
  have del: "?del = drop_first ?m (evs @ [e])"
  proof (cases "?n < ?m")
    case True
    then have "?old = None" using rng un by auto
    then show ?thesis using True len rng mx by (simp add: drop_first_def)
  next
    case False
    then have full: "?n = ?m" using rng by simp
    have "evs \<noteq> []" using len full mx by auto
    then have "last (newest ?sl ?i ?n ?m) = Some (hd evs)" by (simp add: nw last_map last_rev)
    then have "?old = Some (hd evs)" using newest_oldest r full by fastforce
    then show ?thesis using full len mx \<open>evs \<noteq> []\<close> by (cases evs) (auto simp: drop_first_def)
  qed
  have ins: "insert_event k e q = Ok (?q'\<lparr>eq_deleted := eq_deleted q @ drop_first ?m (evs @ [e])\<rparr>)"
    unfolding insert_event_eq put del
    by (cases k) (simp_all add: eq_store_def eq_inc_indexes_def Let_def)
  have r': "ring_inv (length (eq_slots k ?q')) (eq_insert_elt ?q') (eq_nb_elt ?q') (eq_max_elt ?q')"
    using evq.valid_push[OF r] .
  have nw': "newest (eq_slots k ?q') (eq_insert_elt ?q') (eq_nb_elt ?q') (eq_max_elt ?q')
        = map Some (rev (keep_last ?m (evs @ [e])))"
    using evq.hist_push[OF r, of "Some e"] mx
    by (simp add: nw keep_last_rev take_map[symmetric])
  have un': "\<forall>i < length (eq_slots k ?q'). nat (eq_nb_elt ?q') \<le> i \<longrightarrow> eq_slots k ?q' ! i = None"
    using un rng evq.slots_push[OF r] evq.nb_push[OF r]
    by (auto simp: nth_list_update split: if_splits)
  have "eq_holds k (?q'\<lparr>eq_deleted := d\<rparr>) (keep_last ?m (evs @ [e]))" for d
    using r' nw' un' mx evq.mx_push[OF r] by (simp add: eq_holds_def)
  then show ?thesis using ins evq.mx_push[OF r] by simp
qed

lemma insert_event_holds:
  assumes "eq_holds k q evs" "0 \<le> eq_max_elt q"
  shows "\<exists>q'. insert_event k e q = Ok q' \<and> eq_max_elt q' = eq_max_elt q \<and>
     eq_holds k q' (keep_last (eq_max_elt q) (evs @ [e])) \<and>
     eq_deleted q' = eq_deleted q @ drop_first (eq_max_elt q) (evs @ [e])"
proof (cases "eq_max_elt q = 0")
  case True
  then show ?thesis using insert_unlimited[OF assms(1) True, of e]
    by (auto simp: keep_last_def drop_first_def)
next
  case False
  then show ?thesis using insert_circular[OF assms(1)] assms(2) by simp
qed

lemma insert_events_holds:
  assumes "eq_holds k q (keep_last mx hs)" "eq_max_elt q = mx" "0 \<le> mx"
    "eq_deleted q = drop_first mx hs"
  shows "\<exists>q'. insert_events k es q = Ok q' \<and> eq_max_elt q' = mx \<and>
     eq_holds k q' (keep_last mx (hs @ es)) \<and> eq_deleted q' = drop_first mx (hs @ es)"
  using assms
proof (induction es arbitrary: q hs)
  case (Cons e es)
  obtain q1 where q1: "insert_event k e q = Ok q1" "eq_max_elt q1 = mx"
      "eq_holds k q1 (keep_last mx (hs @ [e]))" "eq_deleted q1 = drop_first mx (hs @ [e])"
    using insert_event_holds[OF Cons.prems(1), of e] Cons.prems keep_last_step[of mx hs e]
      drop_first_step[of mx hs e] by auto
  then show ?case using Cons.IH[OF q1(3,2) Cons.prems(3) q1(4)] by simp
qed simp


section \<open>Extraction\<close>

lemma get_loop_walk:
  assumes "0 \<le> i" "i < mx" "int (length buf) = mx" "int n \<le> mx" "n \<le> length out"
  shows "\<exists>buf'. get_loop mx n i (int n - 1) out buf = Ok (rev (walk_back buf mx i n) @ drop n out, buf')"
  using assms
proof (induction n arbitrary: i out buf)
  case (Suc n)
  let ?buf = "buf[nat i := None]" and ?out = "out[n := buf ! nat i]"
  have p: "0 \<le> prev_idx mx i" "prev_idx mx i < mx" using Suc.prems by (auto simp: prev_idx_def)
  obtain buf' where "get_loop mx n (prev_idx mx i) (int n - 1) ?out ?buf
      = Ok (rev (walk_back ?buf mx (prev_idx mx i) n) @ drop n ?out, buf')"
    using Suc.IH[OF p, of ?buf ?out] Suc.prems by auto
  moreover have "(if i = 0 then mx else i) - 1 = prev_idx mx i" by (simp add: prev_idx_def)
  moreover have "walk_back ?buf mx (prev_idx mx i) n = walk_back buf mx (prev_idx mx i) n"
    using Suc.prems by (intro walk_back_update_passed) auto
  moreover have "drop n ?out = buf ! nat i # drop (Suc n) out"
    using Suc.prems by (simp add: drop_update_swap Cons_nth_drop_Suc[symmetric])
  ultimately show ?case
    using Suc.prems by (simp add: vec_get_in vec_set_in Let_def)
qed simp

lemma get_loop_no_wrap:
  "int n \<le> i + 1 \<Longrightarrow> get_loop mx n i seq out buf = get_loop mx' n i seq out buf"
proof (induction n arbitrary: i seq out buf)
  case (Suc n)
  then show ?case
    by (cases "i = 0") (auto simp: Let_def intro!: arg_cong[where f = "rbind _"] ext)
qed simp

lemma get_from_holds:
  assumes h: "eq_holds k q evs" and mx: "0 \<le> eq_max_elt q"
  shows "get_from q (ev_buf k q) = Ok (map Some evs)"
proof (cases "evs = []")
  case True
  then have "nat (eq_nb_elt q) = 0"
    using h by (auto simp: eq_holds_def split: if_splits)
  then show ?thesis using True by (simp add: get_from_def)
next
  case ne: False
  show ?thesis
  proof (cases "eq_max_elt q = 0")
    case True
    let ?n = "length evs"
    have b: "ev_buf k q = map Some evs" "eq_insert_elt q = int ?n" "eq_nb_elt q = int ?n"
      using h True by (auto simp: eq_holds_def)
    have "get_loop 0 ?n (int ?n - 1) (int ?n - 1) (replicate ?n None) (map Some evs)
        = get_loop (int ?n) ?n (int ?n - 1) (int ?n - 1) (replicate ?n None) (map Some evs)"
      by (rule get_loop_no_wrap) simp
    then obtain buf' where "get_loop 0 ?n (int ?n - 1) (int ?n - 1) (replicate ?n None) (map Some evs)
        = Ok (rev (walk_back (map Some evs) (int ?n) (int ?n - 1) ?n), buf')"
      using get_loop_walk[of "int ?n - 1" "int ?n" "map Some evs" ?n "replicate ?n None"] ne by auto
    moreover have "walk_back (map Some evs) (int ?n) (int ?n - 1) ?n = rev (map Some evs)"
      using walk_back_full[of "map Some evs"] ne by simp
    ultimately show ?thesis using b True ne by (simp add: get_from_def)
  next
    case False
    then have r: "ring_inv (length (eq_slots k q)) (eq_insert_elt q) (eq_nb_elt q) (eq_max_elt q)"
      and nw: "newest (eq_slots k q) (eq_insert_elt q) (eq_nb_elt q) (eq_max_elt q) = map Some (rev evs)"
      using h by (auto simp: eq_holds_def)
    have "set (newest (eq_slots k q) (eq_insert_elt q) (eq_nb_elt q) (eq_max_elt q)) \<subseteq> set (eq_slots k q)"
      using r by (rule newest_subset)
    then have "ev_buf k q \<noteq> []" using ne nw by (cases evs) (auto simp: eq_slots_def split: if_splits)
    then have sl: "eq_slots k q = ev_buf k q" by (simp add: eq_slots_def)
    have idx: "(if eq_insert_elt q = 0 then eq_max_elt q else eq_insert_elt q) - 1
        = prev_idx (eq_max_elt q) (eq_insert_elt q)" by (simp add: prev_idx_def)
    have "\<exists>buf'. get_loop (eq_max_elt q) (nat (eq_nb_elt q)) (prev_idx (eq_max_elt q) (eq_insert_elt q))
        (int (nat (eq_nb_elt q)) - 1) (replicate (nat (eq_nb_elt q)) None) (ev_buf k q)
        = Ok (rev (map Some (rev evs)) @ drop (nat (eq_nb_elt q)) (replicate (nat (eq_nb_elt q)) None), buf')"
      using get_loop_walk[of "prev_idx (eq_max_elt q) (eq_insert_elt q)" "eq_max_elt q" "ev_buf k q"
          "nat (eq_nb_elt q)" "replicate (nat (eq_nb_elt q)) None"] r ring_inv_prev[OF r] nw
      by (simp add: sl newest_def ring_inv_def)
    then show ?thesis using r idx by (auto simp: get_from_def ring_inv_def rev_map)
  qed
qed

lemma get_events_holds:
  assumes "eq_holds k q evs" "0 \<le> eq_max_elt q"
  shows "\<exists>q'. get_events k q = Ok (map Some evs, q') \<and> eq_holds k q' [] \<and>
     eq_max_elt q' = eq_max_elt q \<and> eq_deleted q' = eq_deleted q \<and> eq_size q' = 0"
  using get_from_holds[OF assms] assms(2)
  by (auto simp: get_events_eq eq_holds_def eq_slots_def ring_inv_def newest_def eq_size_def)


section \<open>Queues of one kind\<close>

definition eq_only :: "ev_kind \<Rightarrow> 'e EventQueue \<Rightarrow> bool" where
  "eq_only k q \<longleftrightarrow> (\<forall>k'. k' \<noteq> k \<longrightarrow> ev_buf k' q = [])"

lemma eq_holds_nb: "eq_holds k q evs \<Longrightarrow> 0 \<le> eq_max_elt q \<Longrightarrow> eq_nb_elt q = int (length evs)"
proof (cases "eq_max_elt q = 0")
  case False
  assume "eq_holds k q evs" "0 \<le> eq_max_elt q"
  then have "length (newest (eq_slots k q) (eq_insert_elt q) (eq_nb_elt q) (eq_max_elt q)) = length evs"
    "0 \<le> eq_nb_elt q" using False by (auto simp: eq_holds_def ring_inv_def)
  then show ?thesis by simp
qed (simp add: eq_holds_def)

lemma insert_events_only: "eq_only k q \<Longrightarrow> insert_events k es q = Ok q' \<Longrightarrow> eq_only k q'"
proof (induction es arbitrary: q)
  case (Cons e es)
  from Cons.prems(2) obtain q1 where q1: "insert_event k e q = Ok q1" "insert_events k es q1 = Ok q'"
    by (auto simp: rbind_eq_Ok)
  have "eq_only k q1"
    using q1(1) Cons.prems(1) by (auto simp: insert_event_eq rbind_eq_Ok eq_only_def ev_buf_other)
  then show ?case using q1(2) by (rule Cons.IH)
qed simp

text \<open>The queue after the insertion of some events of one kind into a new queue.\<close>

lemma inserted_queue:
  assumes "0 \<le> mx"
  shows "\<exists>q. insert_events k es (EventQueue_new mx) = Ok q \<and> eq_max_elt q = mx \<and> eq_only k q \<and>
     eq_holds k q (keep_last mx es) \<and> eq_deleted q = drop_first mx es \<and>
     eq_nb_elt q = int (length (keep_last mx es))"
proof -
  let ?q0 = "EventQueue_new mx :: 'a EventQueue"
  have "eq_only k ?q0"
    unfolding eq_only_def
  proof (intro allI impI)
    fix k' show "ev_buf k' ?q0 = []" by (cases k') (simp_all add: EventQueue_new_def EventQueue_default_def)
  qed
  moreover have "eq_holds k ?q0 (keep_last mx [])" "eq_max_elt ?q0 = mx" "eq_deleted ?q0 = drop_first mx []"
    using eq_holds_new[OF assms] by (auto simp: keep_last_def drop_first_def EventQueue_new_def EventQueue_default_def)
  ultimately show ?thesis
    using insert_events_holds[of k ?q0 mx "[]" es] assms insert_events_only eq_holds_nb by fastforce
qed

lemma keep_last_nonempty: "0 \<le> mx \<Longrightarrow> es \<noteq> [] \<Longrightarrow> keep_last mx es \<noteq> []"
  by (cases "nat mx") (auto simp: keep_last_def not_le)

lemma last_keep_last: "0 \<le> mx \<Longrightarrow> es \<noteq> [] \<Longrightarrow> last (keep_last mx es) = last es"
  using keep_last_nonempty[of mx es] by (auto simp: keep_last_def)

lemma eq_buf_nonempty:
  assumes "eq_holds k q evs" "0 \<le> eq_max_elt q" "evs \<noteq> []"
  shows "ev_buf k q \<noteq> []"
proof
  assume e: "ev_buf k q = []"
  show False
  proof (cases "eq_max_elt q = 0")
    case False
    then have r: "ring_inv (length (eq_slots k q)) (eq_insert_elt q) (eq_nb_elt q) (eq_max_elt q)"
      and nw: "newest (eq_slots k q) (eq_insert_elt q) (eq_nb_elt q) (eq_max_elt q) = map Some (rev evs)"
      using assms by (auto simp: eq_holds_def)
    then show False using newest_subset[OF r] assms(3) e
      by (cases evs) (auto simp: eq_slots_def split: if_splits)
  qed (use assms e in \<open>auto simp: eq_holds_def\<close>)
qed

text \<open>The pointer just before the insertion index is the event inserted last.\<close>

lemma eq_last_slot:
  assumes "eq_holds k q evs" "0 \<le> eq_max_elt q" "evs \<noteq> []"
  shows "vec_get (ev_buf k q) (if eq_insert_elt q = 0 then eq_max_elt q - 1 else eq_insert_elt q - 1)
         = Ok (Some (last evs))"
proof (cases "eq_max_elt q = 0")
  case True
  then show ?thesis using assms by (auto simp: eq_holds_def vec_get_def last_conv_nth nat_diff_distrib')
next
  case False
  then have r: "ring_inv (length (eq_slots k q)) (eq_insert_elt q) (eq_nb_elt q) (eq_max_elt q)"
    and nw: "newest (eq_slots k q) (eq_insert_elt q) (eq_nb_elt q) (eq_max_elt q) = map Some (rev evs)"
    using assms by (auto simp: eq_holds_def)
  have sl: "eq_slots k q = ev_buf k q" using eq_buf_nonempty[OF assms] by (simp add: eq_slots_def)
  have "0 < eq_nb_elt q" using eq_holds_nb[OF assms(1,2)] assms(3) by simp
  then obtain n where "nat (eq_nb_elt q) = Suc n" by (cases "nat (eq_nb_elt q)") auto
  then have "hd (newest (eq_slots k q) (eq_insert_elt q) (eq_nb_elt q) (eq_max_elt q))
      = ev_buf k q ! nat (prev_idx (eq_max_elt q) (eq_insert_elt q))"
    by (simp add: newest_def sl)
  then have "ev_buf k q ! nat (prev_idx (eq_max_elt q) (eq_insert_elt q)) = Some (last evs)"
    using nw assms(3) by (simp add: hd_rev hd_map)
  then show ?thesis using r ring_inv_prev[OF r] sl
    by (simp add: vec_get_def ring_inv_def prev_idx_def)
qed

text \<open>What the destructor deletes from one vector.\<close>

lemma delete_first_take:
  assumes "0 \<le> nb" "nat nb \<le> length buf"
  shows "delete_first nb buf = Ok (List.map_filter id (take (nat nb) buf))"
proof -
  have "rmap (\<lambda>i. vec_get buf (int i)) [0..<nat nb] = Ok (map (\<lambda>i. buf ! i) [0..<nat nb])"
    using assms by (intro rmap_Ok) (auto simp: vec_get_nat)
  moreover have "map (\<lambda>i. buf ! i) [0..<nat nb] = take (nat nb) buf"
    using assms by (intro nth_equalityI) auto
  ultimately show ?thesis by (simp add: delete_first_def)
qed

lemma map_filter_Some: "List.map_filter id (map Some xs) = xs"
  by (induction xs) (auto simp: List.map_filter_simps)

lemma mset_map_filter: "mset xs = mset ys \<Longrightarrow> mset (List.map_filter id xs) = mset (List.map_filter id ys)"
  by (simp add: List.map_filter_def)

lemma destroy_holds:
  assumes "eq_holds k q evs" "0 \<le> eq_max_elt q" "evs \<noteq> []"
  shows "\<exists>del. delete_first (eq_nb_elt q) (ev_buf k q) = Ok del \<and> mset del = mset evs"
proof (cases "eq_max_elt q = 0")
  case True
  then show ?thesis using assms by (simp add: eq_holds_def delete_first_take map_filter_Some)
next
  case False
  then have r: "ring_inv (length (eq_slots k q)) (eq_insert_elt q) (eq_nb_elt q) (eq_max_elt q)"
    and nw: "newest (eq_slots k q) (eq_insert_elt q) (eq_nb_elt q) (eq_max_elt q) = map Some (rev evs)"
    using assms by (auto simp: eq_holds_def)
  have sl: "eq_slots k q = ev_buf k q" using eq_buf_nonempty[OF assms] by (simp add: eq_slots_def)
  let ?t = "take (nat (eq_nb_elt q)) (ev_buf k q)" and ?i = "nat (eq_insert_elt q)"
  have "?i \<le> nat (eq_nb_elt q)" using r by (auto simp: ring_inv_def)
  then have "take ?i (ev_buf k q) = take ?i ?t" by (simp add: min_def)
  then have "mset ?t = mset (map Some evs)"
    using newest_rotation[OF r] nw sl
    by (metis append_take_drop_id mset_append mset_rev rev_map)
  then have "mset (List.map_filter id ?t) = mset evs"
    using mset_map_filter map_filter_Some by metis
  moreover have "delete_first (eq_nb_elt q) (ev_buf k q) = Ok (List.map_filter id ?t)"
    using r sl by (intro delete_first_take) (auto simp: ring_inv_def)
  ultimately show ?thesis by simp
qed


section \<open>Properties\<close>

text \<open>
  (C22) First in, first out with a bound: after any events of one kind have been
  inserted into a new queue, extraction returns the events still kept, oldest
  first, that is all of them without a maximum size and the last \<open>mx\<close> of them
  otherwise; the events pushed out were deleted, in order, and the queue is empty
  again.
\<close>

theorem eq_fifo:
  fixes es :: "'e list"
  assumes "0 \<le> mx"
  shows "\<exists>q q'. insert_events k es (EventQueue_new mx) = Ok q \<and>
     eq_size q = int (length (keep_last mx es)) \<and>
     get_events k q = Ok (map Some (keep_last mx es), q') \<and>
     eq_deleted q' = drop_first mx es \<and> drop_first mx es @ keep_last mx es = es \<and>
     eq_holds k q' [] \<and> eq_size q' = 0"
  using inserted_queue[OF assms, of k es] get_events_holds[of k _ "keep_last mx es"] assms
  by (fastforce simp: eq_size_def keep_drop)

theorem eq_fifo_witness:
  "\<exists>q q'. insert_events Ev_data [1, 2, 3 :: nat] (EventQueue_new 2) = Ok q \<and>
     eq_size q = int (length (keep_last 2 [1, 2, 3 :: nat])) \<and>
     get_events Ev_data q = Ok (map Some (keep_last 2 [1, 2, 3]), q') \<and>
     eq_deleted q' = drop_first 2 [1, 2, 3] \<and>
     drop_first 2 [1, 2, 3 :: nat] @ keep_last 2 [1, 2, 3] = [1, 2, 3] \<and>
     eq_holds Ev_data q' [] \<and> eq_size q' = 0"
  by (rule eq_fifo) simp

text \<open>
  The extraction through a callback hands over the same events, in the same
  order, as the extraction into a list, for every kind of event but pipe events.
\<close>

theorem eq_callback_same:
  assumes "0 \<le> mx" "k \<noteq> Ev_pipe" "es \<noteq> []" "insert_events k es (EventQueue_new mx) = Ok q"
  shows "get_events_cb False q = get_events k q"
proof -
  have q: "eq_only k q" "ev_buf k q \<noteq> []"
    using inserted_queue[OF assms(1), of k es] assms eq_buf_nonempty keep_last_nonempty by fastforce+
  then show ?thesis using assms(2) by (cases k) (auto simp: get_events_cb_def eq_only_def)
qed

theorem eq_callback_same_witness:
  "\<exists>q. insert_events Ev_intr [7 :: nat] (EventQueue_new 3) = Ok q \<and> get_events_cb False q = get_events Ev_intr q"
  using inserted_queue[of 3 Ev_intr "[7 :: nat]"] eq_callback_same[of 3 Ev_intr "[7 :: nat]"] by auto

text \<open>
  The callback extraction has no branch for pipe events: on a queue that holds
  pipe events it falls through to the data ready events and reads their empty vector
  out of bounds.
\<close>

theorem eq_callback_pipe_undefined:
  assumes "0 \<le> mx" "es \<noteq> []" "insert_events Ev_pipe es (EventQueue_new mx) = Ok q"
  shows "get_events_cb False q = Undef"
proof -
  have q: "eq_only Ev_pipe q" "0 < eq_nb_elt q"
    using inserted_queue[OF assms(1), of Ev_pipe es] assms keep_last_nonempty[OF assms(1,2)] by auto
  then have "ev_buf Ev_data q = []" "ev_buf Ev_conf q = []" "ev_buf Ev_intr q = []" "ev_buf Ev_ready q = []"
    unfolding eq_only_def by blast+
  moreover obtain n where "nat (eq_nb_elt q) = Suc n" using q(2) by (cases "nat (eq_nb_elt q)") auto
  ultimately show ?thesis by (simp add: get_events_cb_def get_events_ready_def get_from_def Let_def)
qed

theorem eq_callback_pipe_undefined_witness:
  "\<exists>q. insert_events Ev_pipe [7 :: nat] (EventQueue_new 0) = Ok q \<and> get_events_cb False q = Undef"
  using inserted_queue[of 0 Ev_pipe "[7 :: nat]"] eq_callback_pipe_undefined[of 0 "[7 :: nat]"] by auto

text \<open>
  The date of the last event: for events and attribute configuration events it
  is the date of the event inserted last.
\<close>

theorem eq_last_date:
  assumes "0 \<le> mx" "k = Ev_data \<or> k = Ev_conf" "es \<noteq> []"
    and "insert_events k es (EventQueue_new mx) = Ok q"
  shows "get_last_event_date get_date q = Ok (get_date (last es))"
proof -
  have q: "eq_only k q" "eq_holds k q (keep_last mx es)" "0 \<le> eq_max_elt q"
    using inserted_queue[OF assms(1), of k es] assms by auto
  have ne: "keep_last mx es \<noteq> []" using keep_last_nonempty[OF assms(1,3)] .
  have "ev_buf k q \<noteq> []" using eq_buf_nonempty[OF q(2,3) ne] .
  moreover have "vec_get (ev_buf k q) (if eq_insert_elt q = 0 then eq_max_elt q - 1 else eq_insert_elt q - 1)
      = Ok (Some (last es))"
    using eq_last_slot[OF q(2,3) ne] last_keep_last[OF assms(1,3)] by simp
  moreover have "event_buffer q = []" if "k = Ev_conf"
    using q(1) that unfolding eq_only_def by (metis ev_buf.simps(1) ev_kind.distinct(1))
  ultimately show ?thesis
    using assms(2) by (auto simp: get_last_event_date_def date_at_def split: if_splits)
qed

theorem eq_last_date_witness:
  "\<exists>q. insert_events Ev_conf [4, 9 :: nat] (EventQueue_new 1) = Ok q \<and>
     get_last_event_date (\<lambda>d. d) q = Ok (last [4, 9])"
  using inserted_queue[of 1 Ev_conf "[4, 9 :: nat]"] eq_last_date[of 1 Ev_conf "[4, 9 :: nat]" _ "\<lambda>d. d"]
  by auto

text \<open>
  For data ready events the date is read from the vector of the configuration
  events, which is empty: undefined unless the insertion index has just wrapped.
  For interface change and pipe events an exception claims that there is no event.
\<close>

theorem eq_last_date_other_kinds:
  assumes "0 \<le> mx" "es \<noteq> []" "insert_events k es (EventQueue_new mx) = Ok q"
  shows "(k = Ev_ready \<and> eq_insert_elt q \<noteq> 0 \<longrightarrow> get_last_event_date get_date q = Undef) \<and>
     (k = Ev_intr \<or> k = Ev_pipe \<longrightarrow> 0 < eq_size q \<and> (\<exists>why. get_last_event_date get_date q = Throw why))"
proof -
  have q: "eq_only k q" "eq_holds k q (keep_last mx es)" "0 \<le> eq_max_elt q"
    "eq_nb_elt q = int (length (keep_last mx es))"
    using inserted_queue[OF assms(1), of k es] assms by auto
  have ne: "keep_last mx es \<noteq> []" using keep_last_nonempty[OF assms(1,2)] .
  have buf: "ev_buf k q \<noteq> []" using eq_buf_nonempty[OF q(2,3) ne] .
  have others: "\<And>k'. k' \<noteq> k \<Longrightarrow> ev_buf k' q = []" using q(1) by (simp add: eq_only_def)
  show ?thesis
    using buf others[of Ev_data] others[of Ev_conf] others[of Ev_ready] q(4) ne
    by (cases k) (auto simp: get_last_event_date_def date_at_def eq_size_def)
qed

theorem eq_last_date_other_kinds_witness:
  "\<exists>q. insert_events Ev_pipe [4 :: nat] (EventQueue_new 0) = Ok q \<and>
     0 < eq_size q \<and> (\<exists>why. get_last_event_date (\<lambda>d. d) q = Throw why)"
  using inserted_queue[of 0 Ev_pipe "[4 :: nat]"]
    eq_last_date_other_kinds[of 0 "[4 :: nat]" Ev_pipe _ "\<lambda>d. d"] by auto

text \<open>
  Nothing leaks and nothing is deleted twice when a queue of events,
  configuration events or data ready events is destroyed: the events deleted over its
  life are exactly the events inserted.
\<close>

theorem eq_destroy_exact:
  assumes "0 \<le> mx" "k = Ev_data \<or> k = Ev_conf \<or> k = Ev_ready" "es \<noteq> []"
    and "insert_events k es (EventQueue_new mx) = Ok q"
  shows "\<exists>del. EventQueue_destroy q = Ok del \<and> mset (eq_deleted q @ del) = mset es"
proof -
  have q: "eq_only k q" "eq_holds k q (keep_last mx es)" "0 \<le> eq_max_elt q" "eq_deleted q = drop_first mx es"
    using inserted_queue[OF assms(1), of k es] assms by auto
  have ne: "keep_last mx es \<noteq> []" using keep_last_nonempty[OF assms(1,3)] .
  have buf: "ev_buf k q \<noteq> []" using eq_buf_nonempty[OF q(2,3) ne] .
  have others: "\<And>k'. k' \<noteq> k \<Longrightarrow> ev_buf k' q = []" using q(1) by (simp add: eq_only_def)
  obtain del where del: "delete_first (eq_nb_elt q) (ev_buf k q) = Ok del" "mset del = mset (keep_last mx es)"
    using destroy_holds[OF q(2,3) ne] by blast
  have "EventQueue_destroy q = delete_first (eq_nb_elt q) (ev_buf k q)"
    using assms(2) buf others[of Ev_data] others[of Ev_conf] by (auto simp: EventQueue_destroy_def)
  moreover have "mset (eq_deleted q @ del) = mset es"
    using del(2) q(4) keep_drop[of mx es] by (metis mset_append)
  ultimately show ?thesis using del(1) by simp
qed

theorem eq_destroy_exact_witness:
  "\<exists>q del. insert_events Ev_ready [4, 5, 6 :: nat] (EventQueue_new 2) = Ok q \<and>
     EventQueue_destroy q = Ok del \<and> mset (eq_deleted q @ del) = mset [4, 5, 6]"
  using inserted_queue[of 2 Ev_ready "[4, 5, 6 :: nat]"] eq_destroy_exact[of 2 Ev_ready "[4, 5, 6 :: nat]"]
  by auto

text \<open>
  The destructor does not know the vectors of interface change and pipe events:
  a queue destroyed with such events pending reads the empty data ready vector out
  of bounds, and the events leak.
\<close>

theorem eq_destroy_undefined:
  assumes "0 \<le> mx" "k = Ev_intr \<or> k = Ev_pipe" "es \<noteq> []"
    and "insert_events k es (EventQueue_new mx) = Ok q"
  shows "EventQueue_destroy q = Undef"
proof -
  have q: "eq_only k q" "eq_nb_elt q = int (length (keep_last mx es))"
    using inserted_queue[OF assms(1), of k es] assms by auto
  have "0 < eq_nb_elt q" using q(2) keep_last_nonempty[OF assms(1,3)] by simp
  then obtain n where "nat (eq_nb_elt q) = Suc n" by (cases "nat (eq_nb_elt q)") auto
  moreover have "ev_buf Ev_data q = []" "ev_buf Ev_conf q = []" "ev_buf Ev_ready q = []"
    using q(1) assms(2) unfolding eq_only_def by blast+
  ultimately show ?thesis
    by (simp add: EventQueue_destroy_def delete_first_def upt_conv_Cons del: upt_Suc)
qed

theorem eq_destroy_undefined_witness:
  "\<exists>q. insert_events Ev_intr [4 :: nat] (EventQueue_new 0) = Ok q \<and> EventQueue_destroy q = Undef"
  using inserted_queue[of 0 Ev_intr "[4 :: nat]"] eq_destroy_undefined[of 0 Ev_intr "[4 :: nat]"] by auto

end
