(* ===== verification/Poll_Ring.thy ===== *)
theory Poll_Ring
  imports Circular_Buffer "HOL-Library.Signed_Division"
begin

text \<open>
  The polling ring buffer of a polled command or attribute
  (\<open>src/server/pollring.cpp\<close>, \<open>src/include/tango/server/pollring.h\<close>) and the
  polled object around it (\<open>src/server/pollobj.cpp\<close>). The polling thread inserts a
  result or an exception at each tick; readers ask for the last outcome, for the
  time between records, or for a part of the history. The result of a command is a
  value of type \<open>'c\<close> (the contents of a \<open>CORBA::Any\<close>), the value of an attribute
  one of type \<open>'v\<close>; the ring only moves them. Null pointers are \<open>None\<close>.
\<close>

section \<open>Data\<close>

text \<open>
  \<open>PollClock\<close> is a steady clock, in nanoseconds. \<open>make_TimeVal\<close> converts to the wall
  clock by the difference \<open>off\<close> of the two clocks at the time of the call; the
  divisions of C++ truncate towards zero.
\<close>

record TimeVal =
  tv_sec :: int
  tv_usec :: int
  tv_nsec :: int

definition make_TimeVal :: "int \<Rightarrow> int \<Rightarrow> TimeVal" where
  "make_TimeVal off tp =
     (let time_ns = tp + off
      in \<lparr>tv_sec = time_ns sdiv 1000000000,
          tv_usec = (time_ns smod 1000000000) sdiv 1000,
          tv_nsec = (time_ns smod 1000000000) smod 1000\<rparr>)"

datatype AttrQuality = ATTR_VALID | ATTR_INVALID | ATTR_ALARM | ATTR_CHANGING | ATTR_WARNING

record AttributeDim =
  dim_x :: int
  dim_y :: int

text \<open>
  One record serves for \<open>AttributeValue\<close> to \<open>AttributeValue_5\<close>: in the first release
  the read dimension is the only one and there is no error list.
\<close>

record 'v AttributeValue =
  av_value :: 'v
  av_quality :: AttrQuality
  av_time :: TimeVal
  av_name :: string
  av_r_dim :: AttributeDim
  av_w_dim :: AttributeDim
  av_err_list :: "DevError list"

record ('c, 'v) RingElt =
  re_cmd_result :: "'c option"
  re_attr_value :: "'v AttributeValue list option"
  re_attr_value_3 :: "'v AttributeValue list option"
  re_attr_value_4 :: "'v AttributeValue list option"
  re_attr_value_5 :: "'v AttributeValue list option"
  re_except :: "DevError list option"
  re_when :: int

record ('c, 'v) PollRing =
  ring :: "('c, 'v) RingElt list"
  pr_insert_elt :: int
  pr_nb_elt :: int
  pr_max_elt :: int

definition DefaultPollRingDepth :: int where
  "DefaultPollRingDepth = 10"

definition RingElt_init :: "('c, 'v) RingElt" where
  "RingElt_init = \<lparr>re_cmd_result = None, re_attr_value = None, re_attr_value_3 = None,
     re_attr_value_4 = None, re_attr_value_5 = None, re_except = None, re_when = 0\<rparr>"

definition PollRing_new :: "int \<Rightarrow> ('c, 'v) PollRing" where
  "PollRing_new max_size = \<lparr>ring = replicate (nat max_size) RingElt_init,
     pr_insert_elt = 0, pr_nb_elt = 0, pr_max_elt = max_size\<rparr>"

definition PollRing_default :: "('c, 'v) PollRing" where
  "PollRing_default = PollRing_new DefaultPollRingDepth"


section \<open>Insertion\<close>

definition pr_inc_indexes :: "('c, 'v) PollRing \<Rightarrow> ('c, 'v) PollRing" where
  "pr_inc_indexes p =
     (let ins = pr_insert_elt p + 1;
          ins = (if ins = pr_max_elt p then 0 else ins);
          nb = (if pr_nb_elt p \<noteq> pr_max_elt p then pr_nb_elt p + 1 else pr_nb_elt p)
      in p\<lparr>pr_insert_elt := ins, pr_nb_elt := nb\<rparr>)"

definition pr_put :: "(('c, 'v) RingElt \<Rightarrow> ('c, 'v) RingElt) \<Rightarrow> ('c, 'v) PollRing \<Rightarrow> ('c, 'v) PollRing result" where
  "pr_put f p =
     rbind (vec_get (ring p) (pr_insert_elt p)) (\<lambda>e.
     rbind (vec_set (ring p) (pr_insert_elt p) (f e)) (\<lambda>r.
       Ok (pr_inc_indexes (p\<lparr>ring := r\<rparr>))))"

definition insert_data_cmd :: "'c \<Rightarrow> int \<Rightarrow> ('c, 'v) PollRing \<Rightarrow> ('c, 'v) PollRing result" where
  "insert_data_cmd any_ptr t =
     pr_put (\<lambda>e. e\<lparr>re_except := None, re_cmd_result := Some any_ptr, re_when := t\<rparr>)"

definition insert_data_attr ::
  "'v AttributeValue list \<Rightarrow> int \<Rightarrow> ('c, 'v) PollRing \<Rightarrow> ('c, 'v) PollRing result" where
  "insert_data_attr attr_val t =
     pr_put (\<lambda>e. e\<lparr>re_except := None, re_attr_value := Some attr_val, re_when := t\<rparr>)"

definition insert_data_attr_3 ::
  "'v AttributeValue list \<Rightarrow> int \<Rightarrow> ('c, 'v) PollRing \<Rightarrow> ('c, 'v) PollRing result" where
  "insert_data_attr_3 attr_val t =
     pr_put (\<lambda>e. e\<lparr>re_except := None, re_attr_value_3 := Some attr_val, re_when := t\<rparr>)"

text \<open>
  From release 4 on the values point to the buffers of the attributes.
  \<open>force_copy_data\<close> replaces each buffer by a copy of it, which leaves the value as it
  is; after that the attribute mutexes are released if the caller asks for it. The
  second component of the outcome lists the values whose mutex is released.
\<close>

definition insert_data_attr_4 ::
  "'v AttributeValue list \<Rightarrow> int \<Rightarrow> bool \<Rightarrow> ('c, 'v) PollRing \<Rightarrow>
   (('c, 'v) PollRing \<times> 'v AttributeValue list) result" where
  "insert_data_attr_4 attr_val t unlock p =
     rbind (pr_put (\<lambda>e. e\<lparr>re_except := None, re_attr_value_4 := Some attr_val, re_when := t\<rparr>) p) (\<lambda>p'.
       Ok (p', if unlock then attr_val else []))"

definition insert_data_attr_5 ::
  "'v AttributeValue list \<Rightarrow> int \<Rightarrow> bool \<Rightarrow> ('c, 'v) PollRing \<Rightarrow>
   (('c, 'v) PollRing \<times> 'v AttributeValue list) result" where
  "insert_data_attr_5 attr_val t unlock p =
     rbind (pr_put (\<lambda>e. e\<lparr>re_except := None, re_attr_value_5 := Some attr_val, re_when := t\<rparr>) p) (\<lambda>p'.
       Ok (p', if unlock then attr_val else []))"

text \<open>
  An exception drops the command result and the release 1 value of the slot, and
  leaves the values of later releases in place.
\<close>

definition insert_except :: "DevError list \<Rightarrow> int \<Rightarrow> ('c, 'v) PollRing \<Rightarrow> ('c, 'v) PollRing result" where
  "insert_except ex t =
     pr_put (\<lambda>e. e\<lparr>re_attr_value := None, re_cmd_result := None, re_except := Some ex, re_when := t\<rparr>)"


section \<open>Reading the last record\<close>

definition last_slot :: "('c, 'v) PollRing \<Rightarrow> ('c, 'v) RingElt result" where
  "last_slot p = vec_get (ring p)
     (if pr_insert_elt p = 0 then pr_max_elt p - 1 else pr_insert_elt p - 1)"

text \<open>Dereferencing a pointer to a list of values and taking its first element.\<close>

definition first_value :: "'v AttributeValue list option \<Rightarrow> 'v AttributeValue result" where
  "first_value l = (case l of None \<Rightarrow> Undef | Some vs \<Rightarrow> vec_get vs 0)"

definition get_last_insert_date :: "('c, 'v) PollRing \<Rightarrow> int result" where
  "get_last_insert_date p = rbind (last_slot p) (\<lambda>e. Ok (re_when e))"

definition pr_is_empty :: "('c, 'v) PollRing \<Rightarrow> bool" where
  "pr_is_empty p \<longleftrightarrow> pr_nb_elt p = 0"

definition is_last_an_error :: "('c, 'v) PollRing \<Rightarrow> bool result" where
  "is_last_an_error p = rbind (last_slot p) (\<lambda>e. Ok (re_except e \<noteq> None))"

definition is_last_cmd_an_error :: "('c, 'v) PollRing \<Rightarrow> bool result" where
  "is_last_cmd_an_error p = rbind (last_slot p) (\<lambda>e. Ok (re_except e \<noteq> None))"

text \<open>The value of the newest interface release that the slot holds, oldest release first.\<close>

definition slot_value_345 :: "('c, 'v) RingElt \<Rightarrow> 'v AttributeValue result" where
  "slot_value_345 e =
     (if re_attr_value_3 e \<noteq> None then first_value (re_attr_value_3 e)
      else if re_attr_value_4 e \<noteq> None then first_value (re_attr_value_4 e)
      else first_value (re_attr_value_5 e))"

definition is_last_attr_an_error :: "('c, 'v) PollRing \<Rightarrow> bool result" where
  "is_last_attr_an_error p =
     rbind (last_slot p) (\<lambda>e.
       if re_except e \<noteq> None then Ok True
       else rbind (slot_value_345 e) (\<lambda>v. Ok (length (av_err_list v) \<noteq> 0)))"

definition get_last_except :: "('c, 'v) PollRing \<Rightarrow> DevError list option result" where
  "get_last_except p = rbind (last_slot p) (\<lambda>e. Ok (re_except e))"

definition get_last_attr_error :: "('c, 'v) PollRing \<Rightarrow> DevError list result" where
  "get_last_attr_error p =
     rbind (last_slot p) (\<lambda>e. rbind (slot_value_345 e) (\<lambda>v. Ok (av_err_list v)))"

definition get_last_cmd_result :: "('c, 'v) PollRing \<Rightarrow> 'c result" where
  "get_last_cmd_result p =
     rbind (last_slot p) (\<lambda>e.
       case re_except e of
         None \<Rightarrow> (case re_cmd_result e of None \<Rightarrow> Undef | Some tmp_any \<Rightarrow> Ok tmp_any)
       | Some ex \<Rightarrow> Throw (DevFailed_stack ex))"

definition last_value_or_throw ::
  "(('c, 'v) RingElt \<Rightarrow> 'v AttributeValue list option) \<Rightarrow> ('c, 'v) PollRing \<Rightarrow> 'v AttributeValue result" where
  "last_value_or_throw field p =
     rbind (last_slot p) (\<lambda>e.
       case re_except e of
         None \<Rightarrow> first_value (field e)
       | Some ex \<Rightarrow> Throw (DevFailed_stack ex))"

definition get_last_attr_value :: "('c, 'v) PollRing \<Rightarrow> 'v AttributeValue result" where
  "get_last_attr_value = last_value_or_throw re_attr_value"

definition get_last_attr_value_3 :: "('c, 'v) PollRing \<Rightarrow> 'v AttributeValue result" where
  "get_last_attr_value_3 = last_value_or_throw re_attr_value_3"

definition get_last_attr_value_4 :: "('c, 'v) PollRing \<Rightarrow> 'v AttributeValue result" where
  "get_last_attr_value_4 = last_value_or_throw re_attr_value_4"

definition get_last_attr_value_5 :: "('c, 'v) PollRing \<Rightarrow> 'v AttributeValue result" where
  "get_last_attr_value_5 = last_value_or_throw re_attr_value_5"


section \<open>Time between records\<close>

primrec delta_loop :: "('c, 'v) PollRing \<Rightarrow> int \<Rightarrow> int \<Rightarrow> nat \<Rightarrow> int list result" where
  "delta_loop p read_index prev_read 0 = Ok []"
| "delta_loop p read_index prev_read (Suc n) =
     rbind (vec_get (ring p) read_index) (\<lambda>t_ref.
     rbind (vec_get (ring p) prev_read) (\<lambda>t_prev.
       let prev_read = prev_read - 1;
           prev_read = (if prev_read < 0 then pr_max_elt p - 1 else prev_read);
           read_index = read_index - 1;
           read_index = (if read_index < 0 then pr_max_elt p - 1 else read_index)
       in rbind (delta_loop p read_index prev_read n) (\<lambda>rest.
            Ok ((re_when t_ref - re_when t_prev) # rest))))"

definition get_delta_t :: "int \<Rightarrow> ('c, 'v) PollRing \<Rightarrow> int list result" where
  "get_delta_t nb p =
     (if pr_nb_elt p < 2 then
        Throw (DevFailed ''API_PollRingBufferEmpty'' ''Not enough data stored yet in polling ring buffer'')
      else
        (let (read_index, prev_read) =
               (if pr_insert_elt p = 0 then (pr_max_elt p - 1, pr_max_elt p - 1 - 1)
                else (let r = pr_insert_elt p - 1
                      in (r, if r = 0 then pr_max_elt p - 1 else r - 1)));
             nb = (if pr_nb_elt p \<le> nb then pr_nb_elt p - 1 else nb)
         in delta_loop p read_index prev_read (nat nb)))"


section \<open>The history of a command, release 1 format\<close>

record 'c DevCmdHistory =
  dch_time :: TimeVal
  dch_cmd_failed :: bool
  dch_value :: "'c option"
  dch_errors :: "DevError list"

text \<open>
  The loop runs from the newest record to the oldest and fills the sequence from its
  end. A failed record leaves the value of its element as the caller made it.
\<close>

definition cmd_hist_elt :: "int \<Rightarrow> ('c, 'v) RingElt \<Rightarrow> 'c DevCmdHistory \<Rightarrow> 'c DevCmdHistory result" where
  "cmd_hist_elt off e h =
     (case re_except e of
        None \<Rightarrow>
          (case re_cmd_result e of
             None \<Rightarrow> Undef
           | Some a \<Rightarrow> Ok (h\<lparr>dch_time := make_TimeVal off (re_when e), dch_cmd_failed := False,
                            dch_value := Some a, dch_errors := []\<rparr>))
      | Some ex \<Rightarrow> Ok (h\<lparr>dch_time := make_TimeVal off (re_when e), dch_cmd_failed := True,
                       dch_errors := ex\<rparr>))"

primrec cmd_hist_loop ::
  "int \<Rightarrow> ('c, 'v) PollRing \<Rightarrow> int \<Rightarrow> int \<Rightarrow> nat \<Rightarrow> 'c DevCmdHistory list \<Rightarrow> 'c DevCmdHistory list result" where
  "cmd_hist_loop off p index seq_index 0 ptr = Ok ptr"
| "cmd_hist_loop off p index seq_index (Suc n) ptr =
     rbind (vec_get (ring p) index) (\<lambda>e.
     rbind (vec_get ptr seq_index) (\<lambda>h.
     rbind (cmd_hist_elt off e h) (\<lambda>h'.
     rbind (vec_set ptr seq_index h') (\<lambda>ptr'.
       let index = (if index = 0 then pr_max_elt p else index) - 1
       in cmd_hist_loop off p index (seq_index - 1) n ptr'))))"

definition get_cmd_history ::
  "int \<Rightarrow> int \<Rightarrow> ('c, 'v) PollRing \<Rightarrow> 'c DevCmdHistory list \<Rightarrow> 'c DevCmdHistory list result" where
  "get_cmd_history off n p ptr =
     (let index = (if pr_insert_elt p = 0 then pr_max_elt p else pr_insert_elt p) - 1
      in cmd_hist_loop off p index (n - 1) (nat n) ptr)"


section \<open>The polling thread's view\<close>

text \<open>
  What the polling thread does to the ring: it inserts command results, attribute
  values of one interface release, or exceptions.
\<close>

datatype ('c, 'v) poll_insert =
    Ins_cmd 'c int
  | Ins_attr "'v AttributeValue list" int
  | Ins_attr_3 "'v AttributeValue list" int
  | Ins_attr_4 "'v AttributeValue list" int bool
  | Ins_attr_5 "'v AttributeValue list" int bool
  | Ins_except "DevError list" int

fun pr_apply :: "('c, 'v) poll_insert \<Rightarrow> ('c, 'v) PollRing \<Rightarrow> ('c, 'v) PollRing result" where
  "pr_apply (Ins_cmd a t) p = insert_data_cmd a t p"
| "pr_apply (Ins_attr vs t) p = insert_data_attr vs t p"
| "pr_apply (Ins_attr_3 vs t) p = insert_data_attr_3 vs t p"
| "pr_apply (Ins_attr_4 vs t unlock) p = rbind (insert_data_attr_4 vs t unlock p) (\<lambda>(p', _). Ok p')"
| "pr_apply (Ins_attr_5 vs t unlock) p = rbind (insert_data_attr_5 vs t unlock p) (\<lambda>(p', _). Ok p')"
| "pr_apply (Ins_except ex t) p = insert_except ex t p"

fun pr_run :: "('c, 'v) poll_insert list \<Rightarrow> ('c, 'v) PollRing \<Rightarrow> ('c, 'v) PollRing result" where
  "pr_run [] p = Ok p"
| "pr_run (r # rs) p = rbind (pr_apply r p) (pr_run rs)"

text \<open>
  A polled object uses one channel of its slots: the command result or the value of
  one interface release. The outcome of a record is what that channel or the
  exception says.
\<close>

datatype channel = Ch_cmd | Ch_attr | Ch_attr_3 | Ch_attr_4 | Ch_attr_5

datatype ('c, 'v) outcome = Failed "DevError list" | Result 'c | Value "'v AttributeValue list" | Nothing

fun channel_outcome :: "channel \<Rightarrow> ('c, 'v) RingElt \<Rightarrow> ('c, 'v) outcome" where
  "channel_outcome Ch_cmd e = (case re_cmd_result e of None \<Rightarrow> Nothing | Some a \<Rightarrow> Result a)"
| "channel_outcome Ch_attr e = (case re_attr_value e of None \<Rightarrow> Nothing | Some a \<Rightarrow> Value a)"
| "channel_outcome Ch_attr_3 e = (case re_attr_value_3 e of None \<Rightarrow> Nothing | Some a \<Rightarrow> Value a)"
| "channel_outcome Ch_attr_4 e = (case re_attr_value_4 e of None \<Rightarrow> Nothing | Some a \<Rightarrow> Value a)"
| "channel_outcome Ch_attr_5 e = (case re_attr_value_5 e of None \<Rightarrow> Nothing | Some a \<Rightarrow> Value a)"

definition tick_outcome :: "channel \<Rightarrow> ('c, 'v) RingElt \<Rightarrow> int \<times> ('c, 'v) outcome" where
  "tick_outcome k e =
     (re_when e, case re_except e of Some ex \<Rightarrow> Failed ex | None \<Rightarrow> channel_outcome k e)"

fun insert_outcome :: "('c, 'v) poll_insert \<Rightarrow> int \<times> ('c, 'v) outcome" where
  "insert_outcome (Ins_cmd a t) = (t, Result a)"
| "insert_outcome (Ins_attr vs t) = (t, Value vs)"
| "insert_outcome (Ins_attr_3 vs t) = (t, Value vs)"
| "insert_outcome (Ins_attr_4 vs t unlock) = (t, Value vs)"
| "insert_outcome (Ins_attr_5 vs t unlock) = (t, Value vs)"
| "insert_outcome (Ins_except ex t) = (t, Failed ex)"

fun on_channel :: "channel \<Rightarrow> ('c, 'v) poll_insert \<Rightarrow> bool" where
  "on_channel k (Ins_cmd a t) = (k = Ch_cmd)"
| "on_channel k (Ins_attr vs t) = (k = Ch_attr)"
| "on_channel k (Ins_attr_3 vs t) = (k = Ch_attr_3)"
| "on_channel k (Ins_attr_4 vs t unlock) = (k = Ch_attr_4)"
| "on_channel k (Ins_attr_5 vs t unlock) = (k = Ch_attr_5)"
| "on_channel k (Ins_except ex t) = True"

fun insert_slot :: "('c, 'v) poll_insert \<Rightarrow> ('c, 'v) RingElt \<Rightarrow> ('c, 'v) RingElt" where
  "insert_slot (Ins_cmd a t) e = e\<lparr>re_except := None, re_cmd_result := Some a, re_when := t\<rparr>"
| "insert_slot (Ins_attr vs t) e = e\<lparr>re_except := None, re_attr_value := Some vs, re_when := t\<rparr>"
| "insert_slot (Ins_attr_3 vs t) e = e\<lparr>re_except := None, re_attr_value_3 := Some vs, re_when := t\<rparr>"
| "insert_slot (Ins_attr_4 vs t unlock) e = e\<lparr>re_except := None, re_attr_value_4 := Some vs, re_when := t\<rparr>"
| "insert_slot (Ins_attr_5 vs t unlock) e = e\<lparr>re_except := None, re_attr_value_5 := Some vs, re_when := t\<rparr>"
| "insert_slot (Ins_except ex t) e =
     e\<lparr>re_attr_value := None, re_cmd_result := None, re_except := Some ex, re_when := t\<rparr>"


section \<open>The ring as a bounded history\<close>

definition pr_store :: "('c, 'v) RingElt \<Rightarrow> ('c, 'v) PollRing \<Rightarrow> ('c, 'v) PollRing" where
  "pr_store e p = pr_inc_indexes (p\<lparr>ring := (ring p)[nat (pr_insert_elt p) := e]\<rparr>)"

interpretation pring: circular_store ring pr_insert_elt pr_nb_elt pr_max_elt pr_store
  by unfold_locales (auto simp: pr_store_def pr_inc_indexes_def Let_def next_idx_def)

abbreviation pr_inv :: "('c, 'v) PollRing \<Rightarrow> bool" where
  "pr_inv p \<equiv> ring_inv (length (ring p)) (pr_insert_elt p) (pr_nb_elt p) (pr_max_elt p)"

abbreviation pr_hist :: "('c, 'v) PollRing \<Rightarrow> ('c, 'v) RingElt list" where
  "pr_hist p \<equiv> newest (ring p) (pr_insert_elt p) (pr_nb_elt p) (pr_max_elt p)"

lemma pr_inv_new [simp]: "0 < mx \<Longrightarrow> pr_inv (PollRing_new mx)"
  by (simp add: PollRing_new_def ring_inv_def)

lemma pr_hist_new [simp]: "pr_hist (PollRing_new mx) = []"
  by (simp add: PollRing_new_def)

lemma pr_put_store:
  assumes "pr_inv p"
  shows "pr_put f p = Ok (pr_store (f (ring p ! nat (pr_insert_elt p))) p)"
  using assms by (simp add: pr_put_def pr_store_def ring_inv_def vec_get_in vec_set_in)

lemma pr_apply_store:
  assumes "pr_inv p"
  shows "pr_apply r p = Ok (pr_store (insert_slot r (ring p ! nat (pr_insert_elt p))) p)"
  by (cases r) (simp_all add: pr_put_store[OF assms] insert_data_cmd_def insert_data_attr_def
      insert_data_attr_3_def insert_data_attr_4_def insert_data_attr_5_def insert_except_def)

lemma tick_outcome_slot: "on_channel k r \<Longrightarrow> tick_outcome k (insert_slot r e) = insert_outcome r"
  by (cases r) (auto simp: tick_outcome_def)

lemma pr_apply_hist:
  assumes "pr_inv p" "on_channel k r"
  shows "\<exists>p'. pr_apply r p = Ok p' \<and> pr_inv p' \<and> pr_max_elt p' = pr_max_elt p \<and>
     map (tick_outcome k) (pr_hist p') = take (nat (pr_max_elt p)) (insert_outcome r # map (tick_outcome k) (pr_hist p))"
proof -
  let ?e = "insert_slot r (ring p ! nat (pr_insert_elt p))"
  have "pr_hist (pr_store ?e p) = take (nat (pr_max_elt p)) (?e # pr_hist p)"
    using pring.hist_push[OF assms(1)] by simp
  then have "map (tick_outcome k) (pr_hist (pr_store ?e p)) =
      take (nat (pr_max_elt p)) (insert_outcome r # map (tick_outcome k) (pr_hist p))"
    using tick_outcome_slot[OF assms(2)] by (simp add: take_map[symmetric])
  then show ?thesis
    using pr_apply_store[OF assms(1)] pring.valid_push[OF assms(1)] pring.mx_push[OF assms(1)] by blast
qed

lemma pr_run_hist:
  assumes "pr_inv p" "\<And>r. r \<in> set rs \<Longrightarrow> on_channel k r"
  shows "\<exists>p'. pr_run rs p = Ok p' \<and> pr_inv p' \<and> pr_max_elt p' = pr_max_elt p \<and>
     map (tick_outcome k) (pr_hist p') =
       take (nat (pr_max_elt p)) (rev (map insert_outcome rs) @ map (tick_outcome k) (pr_hist p))"
  using assms
proof (induction rs arbitrary: p)
  case Nil
  then show ?case using pring.hist_bound[OF Nil(1)] by simp
next
  case (Cons r rs)
  obtain p1 where p1: "pr_apply r p = Ok p1" "pr_inv p1" "pr_max_elt p1 = pr_max_elt p"
    "map (tick_outcome k) (pr_hist p1) =
       take (nat (pr_max_elt p)) (insert_outcome r # map (tick_outcome k) (pr_hist p))"
    using pr_apply_hist[OF Cons.prems(1), of k r] Cons.prems(2) by auto
  obtain p2 where p2: "pr_run rs p1 = Ok p2" "pr_inv p2" "pr_max_elt p2 = pr_max_elt p1"
    "map (tick_outcome k) (pr_hist p2) =
       take (nat (pr_max_elt p1)) (rev (map insert_outcome rs) @ map (tick_outcome k) (pr_hist p1))"
    using Cons.IH[OF p1(2)] Cons.prems(2) by auto
  show ?case using p1 p2 by (auto simp: take_append)
qed

lemma last_slot_hd:
  assumes "pr_inv p" "pr_hist p \<noteq> []"
  shows "last_slot p = Ok (hd (pr_hist p))"
proof -
  have "prev_idx (pr_max_elt p) (pr_insert_elt p) < int (length (ring p))"
    "0 \<le> prev_idx (pr_max_elt p) (pr_insert_elt p)"
    using assms(1) ring_inv_prev[OF assms(1)] by (auto simp: ring_inv_def)
  moreover obtain n where "nat (pr_nb_elt p) = Suc n"
    using assms(2) by (cases "nat (pr_nb_elt p)") auto
  ultimately show ?thesis
    by (simp add: last_slot_def newest_def vec_get_in prev_idx_def[symmetric])
qed


section \<open>Lemmas on the loops\<close>

lemma delta_loop_walk:
  assumes "int (length (ring p)) = pr_max_elt p" "0 \<le> i" "i < pr_max_elt p"
  shows "delta_loop p i (prev_idx (pr_max_elt p) i) n =
     Ok (map2 (\<lambda>a b. re_when a - re_when b) (walk_back (ring p) (pr_max_elt p) i n)
           (walk_back (ring p) (pr_max_elt p) (prev_idx (pr_max_elt p) i) n))"
  using assms(2,3)
proof (induction n arbitrary: i)
  case (Suc n)
  let ?pi = "prev_idx (pr_max_elt p) i"
  have b: "0 \<le> ?pi" "?pi < pr_max_elt p" using Suc.prems by (auto simp: prev_idx_def)
  have step: "(if i < 1 then pr_max_elt p - 1 else i - 1) = ?pi"
    "(if ?pi < 1 then pr_max_elt p - 1 else ?pi - 1) = prev_idx (pr_max_elt p) ?pi"
    using Suc.prems b by (simp_all add: prev_idx_def)
  show ?case using Suc.IH[OF b] Suc.prems b assms(1) by (simp add: vec_get_in Let_def step)
qed simp

lemma newest_tl: "tl (newest xs ins nb mx) = walk_back xs mx (prev_idx mx (prev_idx mx ins)) (nat nb - 1)"
  by (cases "nat nb") (simp_all add: newest_def)

definition shows_outcome :: "int \<Rightarrow> int \<times> ('c, 'v) outcome \<Rightarrow> 'c DevCmdHistory \<Rightarrow> bool" where
  "shows_outcome off o' h \<longleftrightarrow>
     dch_time h = make_TimeVal off (fst o') \<and>
     (case snd o' of
        Failed ex \<Rightarrow> dch_cmd_failed h \<and> dch_errors h = ex
      | Result a \<Rightarrow> \<not> dch_cmd_failed h \<and> dch_value h = Some a \<and> dch_errors h = []
      | _ \<Rightarrow> False)"

lemma cmd_hist_elt_shows:
  assumes "snd (tick_outcome Ch_cmd e) \<noteq> Nothing"
  shows "\<exists>h'. cmd_hist_elt off e h = Ok h' \<and> shows_outcome off (tick_outcome Ch_cmd e) h'"
  using assms
  by (auto simp: cmd_hist_elt_def shows_outcome_def tick_outcome_def split: option.splits)

lemma cmd_hist_loop_ok:
  assumes "int (length (ring p)) = pr_max_elt p" "0 \<le> i" "i < pr_max_elt p" "m \<le> length ptr"
    and "\<And>e. e \<in> set (walk_back (ring p) (pr_max_elt p) i m) \<Longrightarrow> snd (tick_outcome Ch_cmd e) \<noteq> Nothing"
  shows "\<exists>hs. cmd_hist_loop off p i (int m - 1) m ptr = Ok (hs @ drop m ptr) \<and>
     list_all2 (shows_outcome off)
       (rev (map (tick_outcome Ch_cmd) (walk_back (ring p) (pr_max_elt p) i m))) hs"
  using assms(2-5)
proof (induction m arbitrary: i ptr)
  case (Suc m)
  let ?e = "ring p ! nat i" and ?pi = "prev_idx (pr_max_elt p) i"
  have b: "0 \<le> ?pi" "?pi < pr_max_elt p" using Suc.prems by (auto simp: prev_idx_def)
  have step: "(if i = 0 then pr_max_elt p else i) - 1 = ?pi" by (simp add: prev_idx_def)
  obtain h' where h': "cmd_hist_elt off ?e (ptr ! m) = Ok h'" "shows_outcome off (tick_outcome Ch_cmd ?e) h'"
    using cmd_hist_elt_shows[of ?e off "ptr ! m"] Suc.prems(4)[of ?e] by auto
  have "m \<le> length (ptr[m := h'])" using Suc.prems(3) by simp
  then obtain hs where hs: "cmd_hist_loop off p ?pi (int m - 1) m (ptr[m := h']) = Ok (hs @ drop m (ptr[m := h']))"
    "list_all2 (shows_outcome off) (rev (map (tick_outcome Ch_cmd) (walk_back (ring p) (pr_max_elt p) ?pi m))) hs"
    using Suc.IH[OF b, of "ptr[m := h']"] Suc.prems(4) by auto
  have "drop m (ptr[m := h']) = h' # drop (Suc m) ptr"
    using Suc.prems(3) by (simp add: Cons_nth_drop_Suc[symmetric] del: Cons_nth_drop_Suc)
  then have "cmd_hist_loop off p i (int (Suc m) - 1) (Suc m) ptr = Ok ((hs @ [h']) @ drop (Suc m) ptr)"
    using Suc.prems h' hs(1) assms(1) by (simp add: vec_get_in vec_set_in Let_def step)
  moreover have "list_all2 (shows_outcome off)
      (rev (map (tick_outcome Ch_cmd) (walk_back (ring p) (pr_max_elt p) i (Suc m)))) (hs @ [h'])"
    using hs(2) h'(2) by (simp add: list_all2_appendI)
  ultimately show ?case by blast
qed simp

lemma get_cmd_history_shows:
  assumes "pr_inv p" "0 \<le> n" "n \<le> pr_nb_elt p" "length ptr = nat n"
    and "\<And>e. e \<in> set (pr_hist p) \<Longrightarrow> snd (tick_outcome Ch_cmd e) \<noteq> Nothing"
  shows "\<exists>hs. get_cmd_history off n p ptr = Ok hs \<and>
     list_all2 (shows_outcome off) (rev (take (nat n) (map (tick_outcome Ch_cmd) (pr_hist p)))) hs"
proof -
  let ?i = "prev_idx (pr_max_elt p) (pr_insert_elt p)"
  have w: "walk_back (ring p) (pr_max_elt p) ?i (nat n) = take (nat n) (pr_hist p)"
    unfolding newest_def using nat_mono[OF assms(3)] by (rule walk_back_take)
  have "int (length (ring p)) = pr_max_elt p" using assms(1) by (simp add: ring_inv_def)
  then obtain hs where "cmd_hist_loop off p ?i (int (nat n) - 1) (nat n) ptr = Ok (hs @ drop (nat n) ptr)"
      "list_all2 (shows_outcome off) (rev (map (tick_outcome Ch_cmd) (take (nat n) (pr_hist p)))) hs"
    using cmd_hist_loop_ok[of p ?i "nat n" ptr off] ring_inv_prev[OF assms(1)] assms(4,5)
    unfolding w by (fastforce dest: in_set_takeD)
  then show ?thesis
    using assms(2,4) by (simp add: get_cmd_history_def Let_def prev_idx_def take_map if_distrib[of "\<lambda>x. x - 1"])
qed

text \<open>Slots that only ever held values of one interface release.\<close>

definition slot_only :: "channel \<Rightarrow> ('c, 'v) RingElt \<Rightarrow> bool" where
  "slot_only k e \<longleftrightarrow> (k \<noteq> Ch_attr_3 \<longrightarrow> re_attr_value_3 e = None) \<and> (k \<noteq> Ch_attr_4 \<longrightarrow> re_attr_value_4 e = None)"

lemma insert_slot_only: "slot_only k e \<Longrightarrow> on_channel k r \<Longrightarrow> slot_only k (insert_slot r e)"
  by (cases r) (auto simp: slot_only_def)

lemma pr_apply_only:
  assumes "pr_inv p" "on_channel k r" "pr_apply r p = Ok p'" "\<forall>e \<in> set (ring p). slot_only k e"
  shows "\<forall>e \<in> set (ring p'). slot_only k e"
proof -
  have "nat (pr_insert_elt p) < length (ring p)" using assms(1) by (auto simp: ring_inv_def)
  then have "slot_only k (insert_slot r (ring p ! nat (pr_insert_elt p)))"
    using assms(2,4) by (intro insert_slot_only) auto
  moreover have "ring p' = (ring p)[nat (pr_insert_elt p) := insert_slot r (ring p ! nat (pr_insert_elt p))]"
    using assms(3) pr_apply_store[OF assms(1)] pring.slots_push[OF assms(1)] by auto
  ultimately show ?thesis using assms(4) set_update_subset_insert by fastforce
qed

lemma pr_run_only:
  assumes "pr_inv p" "\<And>r. r \<in> set rs \<Longrightarrow> on_channel k r" "pr_run rs p = Ok p'"
    "\<forall>e \<in> set (ring p). slot_only k e"
  shows "\<forall>e \<in> set (ring p'). slot_only k e"
  using assms
proof (induction rs arbitrary: p)
  case (Cons r rs)
  have r: "on_channel k r" using Cons.prems(2) by simp
  then obtain p1 where p1: "pr_apply r p = Ok p1" "pr_inv p1"
    using pr_apply_hist[OF Cons.prems(1)] by blast
  then have "pr_run rs p1 = Ok p'" using Cons.prems(3) by simp
  then show ?case
    using Cons.IH[OF p1(2)] pr_apply_only[OF Cons.prems(1) r p1(1) Cons.prems(4)] Cons.prems(2) by simp
qed simp

lemma slot_only_new: "\<forall>e \<in> set (ring (PollRing_new mx)). slot_only k e"
  by (simp add: PollRing_new_def RingElt_init_def slot_only_def)


section \<open>Properties\<close>

definition ex_ticks :: "(nat, nat) poll_insert list" where
  "ex_ticks = [Ins_cmd 7 100, Ins_except [] 200, Ins_cmd 8 300]"

definition ex_value :: "nat AttributeValue" where
  "ex_value = \<lparr>av_value = 7, av_quality = ATTR_VALID, av_time = \<lparr>tv_sec = 1, tv_usec = 2, tv_nsec = 0\<rparr>,
     av_name = ''Position'', av_r_dim = \<lparr>dim_x = 1, dim_y = 0\<rparr>, av_w_dim = \<lparr>dim_x = 0, dim_y = 0\<rparr>,
     av_err_list = []\<rparr>"

text \<open>
  (C21) The ring keeps the outcomes of the last polling ticks: whatever the slots held
  before, after any results and exceptions inserted on one channel the records show,
  newest first, exactly the inserted dates and outcomes, cut to the depth of the
  ring, and no insertion meets undefined behaviour.
\<close>

theorem pr_history:
  assumes "pr_inv p" "\<And>r. r \<in> set rs \<Longrightarrow> on_channel k r"
  shows "\<exists>p'. pr_run rs p = Ok p' \<and> pr_inv p' \<and> pr_max_elt p' = pr_max_elt p \<and>
     map (tick_outcome k) (pr_hist p') =
       take (nat (pr_max_elt p)) (rev (map insert_outcome rs) @ map (tick_outcome k) (pr_hist p))"
  using assms by (rule pr_run_hist)

theorem pr_history_witness:
  "\<exists>p'. pr_run ex_ticks (PollRing_new 2) = Ok p' \<and>
     pr_inv p' \<and> pr_max_elt p' = pr_max_elt (PollRing_new 2 :: (nat, nat) PollRing) \<and>
     map (tick_outcome Ch_cmd) (pr_hist p') =
       take (nat (pr_max_elt (PollRing_new 2 :: (nat, nat) PollRing)))
         (rev (map insert_outcome ex_ticks)
          @ map (tick_outcome Ch_cmd) (pr_hist (PollRing_new 2 :: (nat, nat) PollRing)))"
  by (rule pr_history) (auto simp: ex_ticks_def)

text \<open>
  The release 1 history of a polled command lists the last \<open>n\<close> ticks in the order
  in which they happened, the oldest first, each with its date and either its result
  or its error stack.
\<close>

theorem pr_cmd_history_in_order:
  assumes "0 < mx" "\<And>r. r \<in> set rs \<Longrightarrow> on_channel Ch_cmd r"
    and "0 \<le> n" "n \<le> mx" "n \<le> int (length rs)" "length ptr = nat n"
  shows "\<exists>p hs. pr_run rs (PollRing_new mx) = Ok p \<and> get_cmd_history off n p ptr = Ok hs \<and>
     list_all2 (shows_outcome off) (drop (length rs - nat n) (map insert_outcome rs)) hs"
proof -
  obtain p where p: "pr_run rs (PollRing_new mx) = Ok p" "pr_inv p"
    "map (tick_outcome Ch_cmd) (pr_hist p) = take (nat mx) (rev (map insert_outcome rs))"
    using pr_run_hist[OF pr_inv_new[OF assms(1)], of rs Ch_cmd] assms(2)
    by (auto simp: PollRing_new_def)
  have "length (pr_hist p) = min (nat mx) (length rs)"
    using arg_cong[OF p(3), of length] by simp
  then have "pr_nb_elt p = min (int (nat mx)) (int (length rs))"
    using p(2) by (simp add: ring_inv_def nat_eq_iff of_nat_min)
  then have nb: "n \<le> pr_nb_elt p" using assms(1,4,5) by simp
  have "snd (insert_outcome r) \<noteq> Nothing" if "r \<in> set rs" for r
    using assms(2)[OF that] by (cases r) auto
  moreover have "tick_outcome Ch_cmd e \<in> insert_outcome ` set rs" if "e \<in> set (pr_hist p)" for e
  proof -
    have "tick_outcome Ch_cmd e \<in> set (take (nat mx) (rev (map insert_outcome rs)))"
      unfolding p(3)[symmetric] using that by simp
    then have "tick_outcome Ch_cmd e \<in> set (rev (map insert_outcome rs))" by (rule in_set_takeD)
    then show ?thesis by (simp only: set_rev set_map)
  qed
  ultimately have "snd (tick_outcome Ch_cmd e) \<noteq> Nothing" if "e \<in> set (pr_hist p)" for e
    using that by (metis imageE)
  then obtain hs where "get_cmd_history off n p ptr = Ok hs"
      "list_all2 (shows_outcome off) (rev (take (nat n) (map (tick_outcome Ch_cmd) (pr_hist p)))) hs"
    using get_cmd_history_shows[OF p(2) assms(3) nb assms(6)] by blast
  moreover have "rev (take (nat n) (map (tick_outcome Ch_cmd) (pr_hist p))) =
      drop (length rs - nat n) (map insert_outcome rs)"
    using assms(4,5) nat_mono[OF assms(4)] by (simp add: p(3) min_absorb1 take_rev)
  ultimately show ?thesis using p(1) by auto
qed

theorem pr_cmd_history_in_order_witness:
  "\<exists>p hs. pr_run ex_ticks (PollRing_new 2) = Ok p \<and>
     get_cmd_history 0 2 p (replicate 2 \<lparr>dch_time = make_TimeVal 0 0, dch_cmd_failed = False,
       dch_value = None, dch_errors = []\<rparr>) = Ok hs \<and>
     list_all2 (shows_outcome 0) (drop (length ex_ticks - nat 2) (map insert_outcome ex_ticks)) hs"
  by (rule pr_cmd_history_in_order) (auto simp: ex_ticks_def)

text \<open>
  \<open>get_delta_t\<close> returns the times between consecutive records, newest first, at
  most as many as asked for; with fewer than two records it reports that there is
  not enough data.
\<close>

theorem pr_delta_t:
  assumes "pr_inv p"
  shows "get_delta_t nb p =
     (if length (pr_hist p) < 2 then
        Throw (DevFailed ''API_PollRingBufferEmpty'' ''Not enough data stored yet in polling ring buffer'')
      else Ok (take (nat nb) (map2 (-) (map re_when (pr_hist p)) (tl (map re_when (pr_hist p))))))"
proof (cases "pr_nb_elt p < 2")
  case False
  let ?mx = "pr_max_elt p" and ?i = "prev_idx (pr_max_elt p) (pr_insert_elt p)"
  define N where "N = nat (if pr_nb_elt p \<le> nb then pr_nb_elt p - 1 else nb)"
  have b: "int (length (ring p)) = ?mx" "0 \<le> ?i" "?i < ?mx" "2 \<le> ?mx" "0 \<le> pr_insert_elt p"
    using assms ring_inv_prev[OF assms] False by (auto simp: ring_inv_def)
  have start: "(if pr_insert_elt p = 0 then (?mx - 1, ?mx - 1 - 1)
      else (let r = pr_insert_elt p - 1 in (r, if r = 0 then ?mx - 1 else r - 1))) = (?i, prev_idx ?mx ?i)"
    using b(4) by (auto simp: prev_idx_def Let_def)
  have le: "N \<le> nat (pr_nb_elt p)" "N \<le> nat (pr_nb_elt p) - 1" using False by (auto simp: N_def)
  have w: "walk_back (ring p) ?mx ?i N = take N (pr_hist p)"
    "walk_back (ring p) ?mx (prev_idx ?mx ?i) N = take N (tl (pr_hist p))"
    unfolding newest_tl using walk_back_take[OF le(1)] walk_back_take[OF le(2)] by (simp_all add: newest_def)
  have "get_delta_t nb p = delta_loop p ?i (prev_idx ?mx ?i) N"
    using False unfolding get_delta_t_def start N_def by simp
  also have "\<dots> = Ok (map2 (\<lambda>a b. re_when a - re_when b) (take N (pr_hist p)) (take N (tl (pr_hist p))))"
    unfolding delta_loop_walk[OF b(1-3)] w ..
  also have "\<dots> = Ok (take N (map2 (-) (map re_when (pr_hist p)) (tl (map re_when (pr_hist p)))))"
    by (simp add: take_map take_zip map_tl[symmetric] zip_map_map split_def)
  also have "\<dots> = Ok (take (nat nb) (map2 (-) (map re_when (pr_hist p)) (tl (map re_when (pr_hist p)))))"
    using False by (auto simp: N_def)
  finally show ?thesis using False by simp
qed (simp add: get_delta_t_def)

theorem pr_delta_t_witness:
  "get_delta_t 5 (PollRing_new 3 :: (nat, nat) PollRing) =
     Throw (DevFailed ''API_PollRingBufferEmpty'' ''Not enough data stored yet in polling ring buffer'')"
  using pr_delta_t[of "PollRing_new 3 :: (nat, nat) PollRing" 5] by simp

text \<open>
  The last record reported is the one inserted last: its date, whether it is an
  error, the result of a command and the value of an attribute; an exception is
  rethrown with its whole error stack to every reader of the value.
\<close>

theorem pr_last_record:
  assumes "pr_inv p" "pr_apply r p = Ok p'"
  shows "get_last_insert_date p' = Ok (fst (insert_outcome r)) \<and>
    (case r of
       Ins_except ex t \<Rightarrow> is_last_an_error p' = Ok True \<and> is_last_cmd_an_error p' = Ok True \<and>
         is_last_attr_an_error p' = Ok True \<and> get_last_except p' = Ok (Some ex) \<and>
         get_last_cmd_result p' = Throw (DevFailed_stack ex) \<and>
         get_last_attr_value p' = Throw (DevFailed_stack ex) \<and>
         get_last_attr_value_3 p' = Throw (DevFailed_stack ex) \<and>
         get_last_attr_value_4 p' = Throw (DevFailed_stack ex) \<and>
         get_last_attr_value_5 p' = Throw (DevFailed_stack ex)
     | Ins_cmd a t \<Rightarrow> is_last_an_error p' = Ok False \<and> get_last_except p' = Ok None \<and> get_last_cmd_result p' = Ok a
     | Ins_attr vs t \<Rightarrow> is_last_an_error p' = Ok False \<and> get_last_attr_value p' = vec_get vs 0
     | Ins_attr_3 vs t \<Rightarrow> is_last_an_error p' = Ok False \<and> get_last_attr_value_3 p' = vec_get vs 0
     | Ins_attr_4 vs t u \<Rightarrow> is_last_an_error p' = Ok False \<and> get_last_attr_value_4 p' = vec_get vs 0
     | Ins_attr_5 vs t u \<Rightarrow> is_last_an_error p' = Ok False \<and> get_last_attr_value_5 p' = vec_get vs 0)"
proof -
  let ?e = "insert_slot r (ring p ! nat (pr_insert_elt p))"
  have p': "p' = pr_store ?e p" using assms(2) pr_apply_store[OF assms(1), of r] by simp
  have mx: "0 < pr_max_elt p" using assms(1) by (simp add: ring_inv_def)
  have h: "pr_hist p' = take (nat (pr_max_elt p)) (?e # pr_hist p)" unfolding p' using pring.hist_push[OF assms(1)] .
  have "pr_inv p'" unfolding p' using pring.valid_push[OF assms(1)] .
  then have "last_slot p' = Ok ?e"
    using mx last_slot_hd[of p'] unfolding h by (cases "nat (pr_max_elt p)") auto
  then show ?thesis
    by (cases r) (simp_all add: get_last_insert_date_def is_last_an_error_def is_last_cmd_an_error_def
        is_last_attr_an_error_def get_last_except_def get_last_cmd_result_def get_last_attr_value_def
        get_last_attr_value_3_def get_last_attr_value_4_def get_last_attr_value_5_def
        last_value_or_throw_def first_value_def)
qed

theorem pr_last_record_witness:
  "\<exists>p'. pr_apply (Ins_cmd 7 100) (PollRing_new 3 :: (nat, nat) PollRing) = Ok p' \<and>
     get_last_insert_date p' = Ok 100 \<and> get_last_cmd_result p' = Ok 7"
  using pr_last_record[of "PollRing_new 3 :: (nat, nat) PollRing" "Ins_cmd 7 100"]
    pr_apply_store[of "PollRing_new 3 :: (nat, nat) PollRing" "Ins_cmd 7 100"] by simp

text \<open>
  For an attribute polled through one of the releases 3 to 5 from the creation of
  the ring on, \<open>is_last_attr_an_error\<close> and \<open>get_last_attr_error\<close> report the error list of
  the value read last.
\<close>

theorem pr_last_attr_error:
  assumes "0 < mx" "k = Ch_attr_3 \<or> k = Ch_attr_4 \<or> k = Ch_attr_5"
    and "\<And>r. r \<in> set rs \<Longrightarrow> on_channel k r"
    and "pr_run rs (PollRing_new mx) = Ok p" "pr_apply r p = Ok p'"
    and "on_channel k r" "insert_outcome r = (t, Value (v # vs))"
  shows "is_last_attr_an_error p' = Ok (av_err_list v \<noteq> []) \<and> get_last_attr_error p' = Ok (av_err_list v)"
proof -
  have inv: "pr_inv p"
    using pr_run_hist[OF pr_inv_new[OF assms(1)], of rs k] assms(3,4) by auto
  have only: "\<forall>e \<in> set (ring p). slot_only k e"
    using pr_run_only[OF pr_inv_new[OF assms(1)] _ assms(4) slot_only_new] assms(3) by blast
  let ?e = "insert_slot r (ring p ! nat (pr_insert_elt p))"
  have p': "p' = pr_store ?e p" using assms(5) pr_apply_store[OF inv, of r] by simp
  have b: "0 < pr_max_elt p" "nat (pr_insert_elt p) < length (ring p)" using inv by (auto simp: ring_inv_def)
  have h: "pr_hist p' = take (nat (pr_max_elt p)) (?e # pr_hist p)" unfolding p' using pring.hist_push[OF inv] .
  have "pr_inv p'" unfolding p' using pring.valid_push[OF inv] .
  then have ls: "last_slot p' = Ok ?e"
    using b last_slot_hd[of p'] unfolding h by (cases "nat (pr_max_elt p)") auto
  have "slot_only k (ring p ! nat (pr_insert_elt p))" using only b(2) by simp
  then have "slot_value_345 ?e = Ok v" "re_except ?e = None"
    using assms(2,6,7) by (cases r; auto simp: slot_value_345_def slot_only_def first_value_def vec_get_def)+
  then show ?thesis by (simp add: is_last_attr_an_error_def get_last_attr_error_def ls)
qed

theorem pr_last_attr_error_witness:
  "\<exists>p'. pr_apply (Ins_attr_5 [ex_value] 10 True) (PollRing_new 2 :: (nat, nat) PollRing) = Ok p' \<and>
     is_last_attr_an_error p' = Ok (av_err_list ex_value \<noteq> []) \<and>
     get_last_attr_error p' = Ok (av_err_list ex_value)"
  using pr_last_attr_error[of 2 Ch_attr_5 "[]" "PollRing_new 2 :: (nat, nat) PollRing" "Ins_attr_5 [ex_value] 10 True"
      _ 10 ex_value "[]"]
    pr_apply_store[of "PollRing_new 2 :: (nat, nat) PollRing" "Ins_attr_5 [ex_value] 10 True"] by simp

text \<open>
  The conversion of a polling date to the wall clock loses nothing: seconds,
  microseconds and nanoseconds add up to the converted date, each in its range for
  dates after the epoch.
\<close>

theorem make_TimeVal_exact:
  "1000000000 * tv_sec (make_TimeVal off tp) + 1000 * tv_usec (make_TimeVal off tp) +
     tv_nsec (make_TimeVal off tp) = tp + off \<and>
   (0 \<le> tp + off \<longrightarrow>
     0 \<le> tv_usec (make_TimeVal off tp) \<and> tv_usec (make_TimeVal off tp) < 1000000 \<and>
     0 \<le> tv_nsec (make_TimeVal off tp) \<and> tv_nsec (make_TimeVal off tp) < 1000)"
proof -
  let ?t = "tp + off"
  have dec: "1000000000 * (?t sdiv 1000000000) + ?t smod 1000000000 = ?t"
    "1000 * ((?t smod 1000000000) sdiv 1000) + (?t smod 1000000000) smod 1000 = ?t smod 1000000000"
    by (simp_all only: mult_sdiv_smod_eq)
  show ?thesis
  proof (intro conjI impI)
    show "1000000000 * tv_sec (make_TimeVal off tp) + 1000 * tv_usec (make_TimeVal off tp) +
       tv_nsec (make_TimeVal off tp) = tp + off"
      using dec by (simp add: make_TimeVal_def Let_def)
    assume "0 \<le> ?t"
    then have "?t smod 1000000000 = ?t mod 1000000000"
      "(?t smod 1000000000) sdiv 1000 = (?t mod 1000000000) div 1000"
      "(?t smod 1000000000) smod 1000 = (?t mod 1000000000) mod 1000"
      by (simp_all add: smod_mod_positive sdiv_div_nonneg)
    then show "0 \<le> tv_usec (make_TimeVal off tp)" "tv_usec (make_TimeVal off tp) < 1000000"
      "0 \<le> tv_nsec (make_TimeVal off tp)" "tv_nsec (make_TimeVal off tp) < 1000"
      by (simp_all add: make_TimeVal_def Let_def)
  qed
qed


theorem make_TimeVal_exact_witness:
  "1000000000 * tv_sec (make_TimeVal 40 1500000083) + 1000 * tv_usec (make_TimeVal 40 1500000083) +
     tv_nsec (make_TimeVal 40 1500000083) = 1500000083 + 40 \<and>
   0 \<le> tv_usec (make_TimeVal 40 1500000083) \<and> tv_usec (make_TimeVal 40 1500000083) < 1000000 \<and>
   0 \<le> tv_nsec (make_TimeVal 40 1500000083) \<and> tv_nsec (make_TimeVal 40 1500000083) < 1000"
  using make_TimeVal_exact[of 40 1500000083] by linarith

end
