(* ===== verification/Run_Length.thy ===== *)
theory Run_Length
  imports Tango_Prelude
begin

text \<open>
  Since interface release 4 the history of a polled object is sent as run-length
  encoded sequences: a sequence of values (\<open>dims\<close>, \<open>errors\<close>, \<open>quals\<close>) and beside
  it a sequence of \<open>EltInArray\<close> that says which records a value is for. A run starts
  at its newest record and extends towards older ones. This theory holds the two
  ways in which the server builds the runs (\<open>open_run\<close>, \<open>extend_run\<close>), the loops with
  which the client spreads them over the records (\<open>scatter\<close>), the copies to and from
  the global data sequence, and the lemmas that connect both sides: the runs are
  read as the list of the assignments they stand for.
\<close>

section \<open>Sequences\<close>

text \<open>\<open>length(n)\<close> of a CORBA sequence: cut, or extend with elements \<open>d\<close>.\<close>

definition seq_length :: "int \<Rightarrow> 'a \<Rightarrow> 'a list \<Rightarrow> 'a list" where
  "seq_length n d xs = take (nat n) xs @ replicate (nat n - length xs) d"

text \<open>Copying a record's data into the global sequence, element by element.\<close>

primrec add_elt_data :: "'v list \<Rightarrow> int \<Rightarrow> 'v list \<Rightarrow> 'v list result" where
  "add_elt_data [] ind glob = Ok glob"
| "add_elt_data (x # xs) ind glob = rbind (vec_set glob ind x) (add_elt_data xs (ind + 1))"

text \<open>A part of a sequence that must lie within it.\<close>

definition vec_slice :: "'v list \<Rightarrow> int \<Rightarrow> int \<Rightarrow> 'v list result" where
  "vec_slice xs from len =
     (if 0 \<le> from \<and> 0 \<le> len \<and> from + len \<le> int (length xs)
      then Ok (take (nat len) (drop (nat from) xs)) else Undef)"


section \<open>Runs\<close>

record EltInArray =
  start :: int
  eia_nb_elt :: int

definition open_run ::
  "int \<Rightarrow> int \<Rightarrow> 'd \<Rightarrow> 'd list \<Rightarrow> EltInArray list \<Rightarrow> ('d list \<times> EltInArray list) result" where
  "open_run len st v vals arr =
     rbind (vec_set (seq_length len v vals) (len - 1) v) (\<lambda>vals'.
     rbind (vec_set (seq_length len \<lparr>start = 0, eia_nb_elt = 0\<rparr> arr) (len - 1)
              \<lparr>start = st, eia_nb_elt = 1\<rparr>) (\<lambda>arr'.
       Ok (vals', arr')))"

definition extend_run :: "int \<Rightarrow> EltInArray list \<Rightarrow> EltInArray list result" where
  "extend_run len arr =
     rbind (vec_get arr (len - 2)) (\<lambda>a.
       vec_set arr (len - 2) (a\<lparr>eia_nb_elt := eia_nb_elt a + 1\<rparr>))"

text \<open>The client's loops over the runs and over the records of a run.\<close>

primrec scatter_run :: "('r \<Rightarrow> 'r) \<Rightarrow> int \<Rightarrow> nat \<Rightarrow> 'r list \<Rightarrow> 'r list result" where
  "scatter_run g s 0 rs = Ok rs"
| "scatter_run g s (Suc n) rs =
     rbind (vec_get rs s) (\<lambda>r. rbind (vec_set rs s (g r)) (scatter_run g (s - 1) n))"

fun scatter :: "('d \<Rightarrow> 'r \<Rightarrow> 'r) \<Rightarrow> 'd list \<Rightarrow> EltInArray list \<Rightarrow> 'r list \<Rightarrow> 'r list result" where
  "scatter f [] arr rs = Ok rs"
| "scatter f (v # vals) [] rs = Undef"
| "scatter f (v # vals) (a # arr) rs =
     rbind (scatter_run (f v) (start a) (nat (eia_nb_elt a)) rs) (scatter f vals arr)"


section \<open>Runs as assignments\<close>

definition run_assign :: "'d list \<Rightarrow> EltInArray list \<Rightarrow> (int \<times> 'd) list" where
  "run_assign vals arr =
     concat (map2 (\<lambda>v a. map (\<lambda>k. (start a - int k, v)) [0..<nat (eia_nb_elt a)]) vals arr)"

fun assign_all :: "('d \<Rightarrow> 'r \<Rightarrow> 'r) \<Rightarrow> (int \<times> 'd) list \<Rightarrow> 'r list \<Rightarrow> 'r list result" where
  "assign_all f [] rs = Ok rs"
| "assign_all f ((i, v) # as) rs =
     rbind (vec_get rs i) (\<lambda>r. rbind (vec_set rs i (f v r)) (assign_all f as))"

lemma assign_all_append: "assign_all f (as @ bs) rs = rbind (assign_all f as rs) (assign_all f bs)"
  by (induction f as rs rule: assign_all.induct) (auto simp: rbind_assoc intro!: rbind_ext)

lemma scatter_run_assign:
  "scatter_run (f v) s n rs = assign_all f (map (\<lambda>k. (s - int k, v)) [0..<n]) rs"
proof (induction n arbitrary: s rs)
  case (Suc n)
  have "map (\<lambda>k. (s - int k, v)) [0..<Suc n] = (s, v) # map (\<lambda>k. (s - 1 - int k, v)) [0..<n]"
    unfolding upt_conv_Cons[OF zero_less_Suc] map_Suc_upt[symmetric] by simp
  then show ?case using Suc by (auto simp del: upt_Suc intro!: rbind_ext)
qed simp

lemma scatter_assign:
  "length vals = length arr \<Longrightarrow> scatter f vals arr rs = assign_all f (run_assign vals arr) rs"
proof (induction f vals arr rs rule: scatter.induct)
  case (3 f v vals a arr rs)
  then show ?case by (auto simp: run_assign_def assign_all_append scatter_run_assign intro!: rbind_ext)
qed (simp_all add: run_assign_def)

text \<open>
  The assignments expected for the records \<open>es\<close>, newest first, when the newest has
  index \<open>pos\<close> and \<open>g\<close> tells what is assigned to a record, if anything.
\<close>

fun expect :: "int \<Rightarrow> ('e \<Rightarrow> 'd option) \<Rightarrow> 'e list \<Rightarrow> (int \<times> 'd) list" where
  "expect pos g [] = []"
| "expect pos g (e # es) =
     (case g e of None \<Rightarrow> [] | Some v \<Rightarrow> [(pos, v)]) @ expect (pos - 1) g es"

lemma expect_snoc:
  "expect pos g (es @ [e]) =
     expect pos g es @ (case g e of None \<Rightarrow> [] | Some v \<Rightarrow> [(pos - int (length es), v)])"
  by (induction pos g es rule: expect.induct) (auto split: option.splits)

definition upd_opt :: "('d \<Rightarrow> 'r \<Rightarrow> 'r) \<Rightarrow> 'd option \<Rightarrow> 'r \<Rightarrow> 'r" where
  "upd_opt f o' r = (case o' of None \<Rightarrow> r | Some v \<Rightarrow> f v r)"

lemma drop_update_self:
  "m < length rs \<Longrightarrow> drop m (rs[m := r]) = r # drop (Suc m) rs"
  by (simp add: Cons_nth_drop_Suc[symmetric] del: Cons_nth_drop_Suc)

lemma assign_expect:
  assumes "length es \<le> length rs"
  shows "assign_all f (expect (int (length es) - 1) g es) rs =
     Ok (map2 (\<lambda>e r. upd_opt f (g e) r) (rev es) (take (length es) rs) @ drop (length es) rs)"
  using assms
proof (induction es arbitrary: rs)
  case (Cons e es)
  let ?m = "length es" and ?r = "upd_opt f (g e) (rs ! length es)"
  have m: "?m < length rs" using Cons.prems by simp
  have first: "assign_all f (case g e of None \<Rightarrow> [] | Some v \<Rightarrow> [(int ?m, v)]) rs = Ok (rs[?m := ?r])"
    using m by (auto simp: upd_opt_def vec_get_nat vec_set_nat split: option.splits)
  have "assign_all f (expect (int ?m - 1) g es) (rs[?m := ?r]) =
      Ok (map2 (\<lambda>e r. upd_opt f (g e) r) (rev es) (take ?m (rs[?m := ?r])) @ drop ?m (rs[?m := ?r]))"
    using Cons.IH[of "rs[?m := ?r]"] m by simp
  also have "drop ?m (rs[?m := ?r]) = ?r # drop (Suc ?m) rs" using m by (rule drop_update_self)
  finally show ?case
    using first m by (simp add: assign_all_append take_Suc_conv_app_nth zip_append1)
qed simp

lemma run_assign_open:
  assumes "length vals = length arr"
  shows "run_assign (vals @ [v]) (arr @ [\<lparr>start = st, eia_nb_elt = 1\<rparr>]) = run_assign vals arr @ [(st, v)]"
  using assms by (simp add: run_assign_def)

lemma run_assign_extend:
  assumes "length vals = length arr" "0 \<le> eia_nb_elt a"
  shows "run_assign (vals @ [v]) (arr @ [a\<lparr>eia_nb_elt := eia_nb_elt a + 1\<rparr>]) =
     run_assign (vals @ [v]) (arr @ [a]) @ [(start a - eia_nb_elt a, v)]"
  using assms by (simp add: run_assign_def nat_add_distrib)

lemma run_assign_last:
  assumes "length vals = length arr" "1 \<le> eia_nb_elt a"
  shows "\<exists>as. run_assign (vals @ [v]) (arr @ [a]) = as @ [(start a - eia_nb_elt a + 1, v)]"
proof -
  obtain k where k: "nat (eia_nb_elt a) = Suc k" "int k = eia_nb_elt a - 1"
    using assms(2) by (cases "nat (eia_nb_elt a)") auto
  then show ?thesis using assms(1) by (simp add: run_assign_def)
qed


section \<open>Building runs\<close>

definition runs_ok :: "int \<Rightarrow> 'd list \<Rightarrow> EltInArray list \<Rightarrow> (int \<times> 'd) list \<Rightarrow> bool" where
  "runs_ok len vals arr as \<longleftrightarrow>
     length vals = length arr \<and> len = int (length vals) + 1 \<and> run_assign vals arr = as \<and>
     (\<forall>a \<in> set arr. 1 \<le> eia_nb_elt a)"

lemma runs_ok_Nil [simp]: "runs_ok 1 [] [] []"
  by (simp add: runs_ok_def run_assign_def)

lemma seq_length_Suc [simp]: "seq_length (int (length xs) + 1) d xs = xs @ [d]"
  by (simp add: seq_length_def nat_add_distrib)

lemma vec_set_at: "i = int (length xs) \<Longrightarrow> vec_set (xs @ y # ys) i z = Ok (xs @ z # ys)"
  by (simp add: vec_set_def)

lemma runs_ok_last:
  assumes "runs_ok len vals arr as" "vals \<noteq> []"
  obtains vs v arr' a where "vals = vs @ [v]" "arr = arr' @ [a]" "length vs = length arr'" "1 \<le> eia_nb_elt a"
    "\<exists>as'. as = as' @ [(start a - eia_nb_elt a + 1, v)]"
proof -
  obtain vs v where v: "vals = vs @ [v]" using assms(2) by (metis rev_exhaust)
  then have "arr \<noteq> []" using assms(1) by (auto simp: runs_ok_def)
  then obtain arr' a where a: "arr = arr' @ [a]" by (metis rev_exhaust)
  have "length vs = length arr'" "1 \<le> eia_nb_elt a" using assms(1) v a by (auto simp: runs_ok_def)
  with run_assign_last[OF this, of v] v a assms(1) that show thesis by (auto simp: runs_ok_def)
qed

lemma runs_ok_as_Nil: "runs_ok len vals arr as \<Longrightarrow> as = [] \<longleftrightarrow> vals = []"
proof (cases "vals = []")
  case False
  assume "runs_ok len vals arr as"
  from runs_ok_last[OF this False] False show ?thesis by (metis append_is_Nil_conv list.discI)
qed (simp add: runs_ok_def run_assign_def)

lemma runs_ok_count:
  assumes "runs_ok len vals arr as"
  shows "length vals \<le> length as"
proof -
  have "length vals \<le> length (run_assign vals arr)"
    if "length vals = length arr" "\<forall>a \<in> set arr. 1 \<le> eia_nb_elt a"
    using that
  proof (induction vals arr rule: list_induct2)
    case (Cons v vals a arr)
    then have "1 \<le> nat (eia_nb_elt a)" by auto
    with Cons show ?case by (simp add: run_assign_def)
  qed simp
  then show ?thesis using assms by (auto simp: runs_ok_def)
qed

lemma open_run_ok:
  assumes "runs_ok len vals arr as"
  shows "open_run len st v vals arr = Ok (vals @ [v], arr @ [\<lparr>start = st, eia_nb_elt = 1\<rparr>]) \<and>
     runs_ok (len + 1) (vals @ [v]) (arr @ [\<lparr>start = st, eia_nb_elt = 1\<rparr>]) (as @ [(st, v)])"
proof -
  have l: "len = int (length vals) + 1" "length vals = length arr" using assms by (auto simp: runs_ok_def)
  have "seq_length len v vals = vals @ [v]" "\<And>d. seq_length len d arr = arr @ [d]"
    using l seq_length_Suc[of vals] seq_length_Suc[of arr] by auto
  moreover have "len - 1 = int (length vals)" "len - 1 = int (length arr)" using l by auto
  ultimately have "open_run len st v vals arr = Ok (vals @ [v], arr @ [\<lparr>start = st, eia_nb_elt = 1\<rparr>])"
    by (simp add: open_run_def vec_set_at del: diff_eq_eq)
  then show ?thesis using assms run_assign_open[OF l(2)] by (auto simp: runs_ok_def)
qed

lemma extend_run_ok:
  assumes "runs_ok len vals arr (as @ [(pos + 1, v)])"
  shows "\<exists>arr'. extend_run len arr = Ok arr' \<and> length arr' = length arr \<and>
     runs_ok len vals arr' (as @ [(pos + 1, v), (pos, v)])"
proof -
  have "vals \<noteq> []" using runs_ok_as_Nil[OF assms] by simp
  then obtain vs w arr' a where r: "vals = vs @ [w]" "arr = arr' @ [a]" "length vs = length arr'" "1 \<le> eia_nb_elt a"
    "\<exists>as'. as @ [(pos + 1, v)] = as' @ [(start a - eia_nb_elt a + 1, w)]"
    using runs_ok_last[OF assms] by metis
  then have w: "w = v" "start a - eia_nb_elt a = pos" by auto
  let ?a = "a\<lparr>eia_nb_elt := eia_nb_elt a + 1\<rparr>"
  have len: "len = int (length arr') + 2" using assms r by (simp add: runs_ok_def)
  have "extend_run len arr = Ok (arr' @ [?a])"
    using r by (simp add: extend_run_def vec_get_def vec_set_def len)
  moreover have "runs_ok len vals (arr' @ [?a]) (as @ [(pos + 1, v), (pos, v)])"
    using assms r w run_assign_extend[OF r(3), of a w] by (auto simp: runs_ok_def)
  ultimately show ?thesis using r(2) by simp
qed


section \<open>Error stacks\<close>

text \<open>
  The treatment of errors is the same in the histories of commands and of attributes:
  a failed record opens a new run unless the record before it (the newer one) carried
  no data and the error stacks agree in every field. The sequences are allocated at
  the first error for the number of failed records, and cut to the number of runs at
  the end.
\<close>

record err_runs =
  er_errors :: "DevError list list"
  er_array :: "EltInArray list"
  er_last_err_list :: "DevError list"
  er_errors_length :: int

definition err_runs_init :: err_runs where
  "err_runs_init = \<lparr>er_errors = [], er_array = [], er_last_err_list = [], er_errors_length = 1\<rparr>"

fun same_errors :: "DevError list \<Rightarrow> DevError list \<Rightarrow> bool" where
  "same_errors (a # as) (b # bs) =
     (if err_reason a \<noteq> err_reason b then False
      else if err_desc a \<noteq> err_desc b then False
      else if err_origin a \<noteq> err_origin b then False
      else if err_severity a \<noteq> err_severity b then False
      else same_errors as bs)"
| "same_errors as bs = True"

definition is_new_err :: "bool \<Rightarrow> DevError list \<Rightarrow> err_runs \<Rightarrow> bool" where
  "is_new_err previous_no_data errs r =
     (if previous_no_data then
        (if length errs \<noteq> length (er_last_err_list r) then True
         else \<not> same_errors errs (er_last_err_list r))
      else True)"

definition add_error :: "int \<Rightarrow> int \<Rightarrow> bool \<Rightarrow> DevError list \<Rightarrow> err_runs \<Rightarrow> err_runs result" where
  "add_error error_nb st previous_no_data errs r =
     (if is_new_err previous_no_data errs r then
        (let errors = (if length (er_errors r) = 0 then seq_length error_nb [] (er_errors r) else er_errors r);
             errors_array = (if length (er_array r) = 0
                             then seq_length error_nb \<lparr>start = 0, eia_nb_elt = 0\<rparr> (er_array r) else er_array r)
         in rbind (vec_set errors (er_errors_length r - 1) errs) (\<lambda>errors'.
            rbind (vec_set errors_array (er_errors_length r - 1) \<lparr>start = st, eia_nb_elt = 1\<rparr>) (\<lambda>array'.
              Ok \<lparr>er_errors = errors', er_array = array', er_last_err_list = errs,
                  er_errors_length = er_errors_length r + 1\<rparr>)))
      else
        rbind (extend_run (er_errors_length r) (er_array r)) (\<lambda>array'. Ok (r\<lparr>er_array := array'\<rparr>)))"

definition cut_errors :: "int \<Rightarrow> err_runs \<Rightarrow> err_runs" where
  "cut_errors error_nb r =
     (if er_errors_length r \<noteq> error_nb + 1 then
        r\<lparr>er_errors := seq_length (er_errors_length r - 1) [] (er_errors r),
          er_array := seq_length (er_errors_length r - 1) \<lparr>start = 0, eia_nb_elt = 0\<rparr> (er_array r)\<rparr>
      else r)"

lemma same_errors_iff: "length as = length bs \<Longrightarrow> same_errors as bs \<longleftrightarrow> as = bs"
  by (induction as bs rule: list_induct2) auto

lemma is_new_err_iff: "is_new_err prev errs r \<longleftrightarrow> \<not> prev \<or> errs \<noteq> er_last_err_list r"
  by (auto simp: is_new_err_def same_errors_iff)

definition errs_inv :: "nat \<Rightarrow> err_runs \<Rightarrow> (int \<times> DevError list) list \<Rightarrow> bool" where
  "errs_inv nb r as \<longleftrightarrow> (\<exists>vals arr dv da.
     runs_ok (er_errors_length r) vals arr as \<and>
     er_errors r = vals @ dv \<and> er_array r = arr @ da \<and>
     (if as = [] then dv = [] \<and> da = [] else length (vals @ dv) = nb \<and> length (arr @ da) = nb))"

lemma errs_inv_init [simp]: "errs_inv nb err_runs_init []"
  by (auto simp: errs_inv_def err_runs_init_def)

lemma errs_inv_extend:
  assumes "errs_inv nb r (as @ [(pos + 1, v)])"
  shows "\<exists>array'. extend_run (er_errors_length r) (er_array r) = Ok array' \<and>
     errs_inv nb (r\<lparr>er_array := array'\<rparr>) (as @ [(pos + 1, v), (pos, v)])"
proof -
  obtain vals arr dv da where i: "runs_ok (er_errors_length r) vals arr (as @ [(pos + 1, v)])"
    "er_errors r = vals @ dv" "er_array r = arr @ da" "length (vals @ dv) = nb" "length (arr @ da) = nb"
    using assms by (auto simp: errs_inv_def)
  obtain arr' where e: "extend_run (er_errors_length r) arr = Ok arr'" "length arr' = length arr"
    "runs_ok (er_errors_length r) vals arr' (as @ [(pos + 1, v), (pos, v)])"
    using extend_run_ok[OF i(1)] by blast
  have "arr \<noteq> []" "er_errors_length r = int (length arr) + 1"
    using i(1) runs_ok_as_Nil[OF i(1)] by (auto simp: runs_ok_def)
  then obtain a0 a where a: "arr = a0 @ [a]" "er_errors_length r - 2 = int (length a0)"
    by (cases arr rule: rev_cases) auto
  then have "extend_run (er_errors_length r) (arr @ da) = Ok (arr' @ da)"
    using e(1) by (auto simp: extend_run_def vec_get_def vec_set_def)
  moreover have "errs_inv nb (r\<lparr>er_array := arr' @ da\<rparr>) (as @ [(pos + 1, v), (pos, v)])"
    unfolding errs_inv_def using e(2,3) i
    by (intro exI[of _ vals] exI[of _ arr'] exI[of _ dv] exI[of _ da]) auto
  ultimately show ?thesis unfolding i(3) by blast
qed

lemma errs_inv_open:
  assumes "errs_inv nb r as" "length as < nb" "is_new_err prev es r"
  shows "\<exists>r'. add_error (int nb) st prev es r = Ok r' \<and> errs_inv nb r' (as @ [(st, es)]) \<and> er_last_err_list r' = es"
proof -
  obtain vals arr dv da where i: "runs_ok (er_errors_length r) vals arr as"
    "er_errors r = vals @ dv" "er_array r = arr @ da"
    "if as = [] then dv = [] \<and> da = [] else length (vals @ dv) = nb \<and> length (arr @ da) = nb"
    using assms(1) by (auto simp: errs_inv_def)
  let ?errors = "if length (er_errors r) = 0 then seq_length (int nb) [] (er_errors r) else er_errors r"
  let ?array = "if length (er_array r) = 0 then seq_length (int nb) \<lparr>start = 0, eia_nb_elt = 0\<rparr> (er_array r) else er_array r"
  have l: "er_errors_length r - 1 = int (length vals)" "length vals = length arr" "length vals < nb"
      "arr = [] \<longleftrightarrow> vals = []"
    using i(1) runs_ok_count[OF i(1)] assms(2) by (auto simp: runs_ok_def)
  obtain dv' where dv': "?errors = vals @ dv'" "length (vals @ dv') = nb"
    using i l runs_ok_as_Nil[OF i(1)] by (cases "as = []") (auto simp: seq_length_def)
  obtain da' where da': "?array = arr @ da'" "length (arr @ da') = nb"
    using i l runs_ok_as_Nil[OF i(1)] by (cases "as = []") (auto simp: seq_length_def)
  let ?a = "\<lparr>start = st, eia_nb_elt = 1\<rparr>"
  obtain x dv'' where dv'': "dv' = x # dv''" using dv' l by (cases dv') auto
  obtain y da'' where da'': "da' = y # da''" using da' l by (cases da') auto
  have "vec_set ?errors (er_errors_length r - 1) es = Ok ((vals @ [es]) @ dv'')"
    unfolding dv' dv'' l(1) by (simp add: vec_set_at)
  moreover have "vec_set ?array (er_errors_length r - 1) ?a = Ok ((arr @ [?a]) @ da'')"
    unfolding da' da'' l(1) unfolding l(2) by (simp add: vec_set_at)
  moreover have "runs_ok (er_errors_length r + 1) (vals @ [es]) (arr @ [?a]) (as @ [(st, es)])"
    using open_run_ok[OF i(1)] by blast
  moreover have "length ((vals @ [es]) @ dv'') = nb" "length ((arr @ [?a]) @ da'') = nb"
    using dv' dv'' da' da'' by auto
  ultimately show ?thesis
    using assms(3) unfolding add_error_def Let_def errs_inv_def by fastforce
qed

lemma add_error_ok:
  assumes "errs_inv nb r as" "length as < nb"
    and "prev \<Longrightarrow> es = er_last_err_list r \<Longrightarrow> \<exists>as'. as = as' @ [(st + 1, es)]"
  shows "\<exists>r'. add_error (int nb) st prev es r = Ok r' \<and> errs_inv nb r' (as @ [(st, es)]) \<and> er_last_err_list r' = es"
proof (cases "is_new_err prev es r")
  case True
  then show ?thesis using errs_inv_open[OF assms(1,2)] by blast
next
  case False
  then have "prev" "es = er_last_err_list r" by (auto simp: is_new_err_iff)
  then obtain as' where "as = as' @ [(st + 1, es)]" using assms(3) by blast
  then show ?thesis
    using False errs_inv_extend[of nb r as' st es] assms(1) \<open>es = er_last_err_list r\<close>
    by (auto simp: add_error_def)
qed

lemma cut_errors_ok:
  assumes "errs_inv nb r as" "length as = nb"
  shows "runs_ok (er_errors_length r) (er_errors (cut_errors (int nb) r)) (er_array (cut_errors (int nb) r)) as"
proof -
  obtain vals arr dv da where i: "runs_ok (er_errors_length r) vals arr as"
    "er_errors r = vals @ dv" "er_array r = arr @ da"
    "if as = [] then dv = [] \<and> da = [] else length (vals @ dv) = nb \<and> length (arr @ da) = nb"
    using assms(1) by (auto simp: errs_inv_def)
  have l: "er_errors_length r - 1 = int (length vals)" "length vals = length arr"
    using i(1) by (auto simp: runs_ok_def)
  show ?thesis
  proof (cases "er_errors_length r = int nb + 1")
    case True
    then have "dv = []" "da = []" using i(4) l by (auto split: if_splits)
    then show ?thesis using True i by (simp add: cut_errors_def)
  next
    case False
    then show ?thesis using i l by (simp add: cut_errors_def seq_length_def)
  qed
qed


section \<open>The data sequence\<close>

lemma add_elt_data_Nil [simp]: "add_elt_data [] i = Ok"
  by (rule ext) simp

lemma add_elt_data_ok:
  "length xs \<le> length rest \<Longrightarrow>
     add_elt_data xs (int (length pre)) (pre @ rest) = Ok ((pre @ xs) @ drop (length xs) rest)"
proof (induction xs arbitrary: pre rest)
  case (Cons x xs)
  then obtain y rest' where r: "rest = y # rest'" by (cases rest) auto
  then show ?case using Cons.IH[of rest' "pre @ [x]"] Cons.prems by (simp add: vec_set_def add.commute)
qed simp

lemma vec_slice_mid: "vec_slice (xs @ ys @ zs) (int (length xs)) (int (length ys)) = Ok ys"
  by (simp add: vec_slice_def)


section \<open>Expected assignments\<close>

lemma expect_last:
  assumes "es \<noteq> []" "g (last es) = Some v"
  shows "\<exists>as. expect pos g es = as @ [(pos - int (length es) + 1, v)]"
proof -
  obtain es' e where "es = es' @ [e]" using assms(1) by (metis rev_exhaust)
  then show ?thesis using assms(2) by (simp add: expect_snoc)
qed

lemma length_expect: "length (expect pos g es) = length (filter (\<lambda>e. g e \<noteq> None) es)"
  by (induction pos g es rule: expect.induct) (auto split: option.splits)

lemma scatter_expect:
  assumes "runs_ok len vals arr (expect (int (length es) - 1) g es)" "length rs = length es"
  shows "scatter f vals arr rs = Ok (map2 (\<lambda>e r. upd_opt f (g e) r) (rev es) rs)"
  using assms assign_expect[of es rs f g] scatter_assign[of vals arr f rs] by (simp add: runs_ok_def)



section \<open>The contract of a history transfer\<close>

text \<open>
  What the two ends of a transfer rely on: for a valid source the server's packing
  succeeds, and the client's unpacking of the message yields the view of the source.
  Equal messages then come from sources that look the same to the client.
\<close>

locale history_transfer =
  fixes valid :: "'s \<Rightarrow> bool"
    and pack :: "'s \<Rightarrow> 'm result"
    and unpack :: "'m \<Rightarrow> 'r result"
    and view :: "'s \<Rightarrow> 'r"
  assumes transfer: "valid s \<Longrightarrow> \<exists>msg. pack s = Ok msg \<and> unpack msg = Ok (view s)"
begin

lemma roundtrip: "valid s \<Longrightarrow> rbind (pack s) unpack = Ok (view s)"
  using transfer by force

lemma same_message_same_view:
  assumes "valid s" "valid s'" "pack s = pack s'"
  shows "view s = view s'"
  using roundtrip[OF assms(1)] roundtrip[OF assms(2)] assms(3) by simp

end

end
