(* ===== verification/Cmd_History.thy ===== *)
theory Cmd_History
  imports Poll_Ring Run_Length
begin

text \<open>
  The history of a polled command since interface release 4: the server packs the
  records of the polling ring into a \<open>DevCmdHistory_4\<close>
  (\<open>PollRing::get_cmd_history\<close> and the macros of \<open>pollring.h\<close>), the client unpacks
  them into a vector of \<open>DeviceDataHistory\<close> (\<open>from_hist4_2_DataHistory\<close> and
  \<open>extract_value\<close> of \<open>devapi_base.cpp\<close>). The theorems at the end put the two
  together.

  A \<open>CORBA::Any\<close> holds nothing, a scalar, a sequence, or a pair of sequences; its
  elements have the type \<open>'v\<close>, and a kind stands for the element type. Extracting
  a value of another kind leaves the pointer without a value, and using it
  afterwards is undefined.
\<close>

section \<open>Data\<close>

text \<open>The command argument types, in the order of the IDL enumeration.\<close>

datatype CmdArgType =
    DEV_VOID | DEV_BOOLEAN | DEV_SHORT | DEV_LONG | DEV_FLOAT | DEV_DOUBLE | DEV_USHORT | DEV_ULONG
  | DEV_STRING | DEVVAR_CHARARRAY | DEVVAR_SHORTARRAY | DEVVAR_LONGARRAY | DEVVAR_FLOATARRAY
  | DEVVAR_DOUBLEARRAY | DEVVAR_USHORTARRAY | DEVVAR_ULONGARRAY | DEVVAR_STRINGARRAY
  | DEVVAR_LONGSTRINGARRAY | DEVVAR_DOUBLESTRINGARRAY | DEV_STATE | CONST_DEV_STRING
  | DEVVAR_BOOLEANARRAY | DEV_UCHAR | DEV_LONG64 | DEV_ULONG64 | DEVVAR_LONG64ARRAY
  | DEVVAR_ULONG64ARRAY | DEV_ENCODED | DEV_ENUM | DEV_PIPE_BLOB | DEVVAR_STATEARRAY
  | DEVVAR_ENCODEDARRAY | DATA_TYPE_UNKNOWN

fun data_type_to_string :: "CmdArgType \<Rightarrow> string" where
  "data_type_to_string DEV_VOID = ''DevVoid''"
| "data_type_to_string DEV_BOOLEAN = ''DevBoolean''"
| "data_type_to_string DEV_SHORT = ''DevShort''"
| "data_type_to_string DEV_LONG = ''DevLong''"
| "data_type_to_string DEV_FLOAT = ''DevFloat''"
| "data_type_to_string DEV_DOUBLE = ''DevDouble''"
| "data_type_to_string DEV_USHORT = ''DevUShort''"
| "data_type_to_string DEV_ULONG = ''DevULong''"
| "data_type_to_string DEV_STRING = ''DevString''"
| "data_type_to_string DEVVAR_CHARARRAY = ''DevVarCharArray''"
| "data_type_to_string DEVVAR_SHORTARRAY = ''DevVarShortArray''"
| "data_type_to_string DEVVAR_LONGARRAY = ''DevVarLongArray''"
| "data_type_to_string DEVVAR_FLOATARRAY = ''DevVarFloatArray''"
| "data_type_to_string DEVVAR_DOUBLEARRAY = ''DevVarDoubleArray''"
| "data_type_to_string DEVVAR_USHORTARRAY = ''DevVarUShortArray''"
| "data_type_to_string DEVVAR_ULONGARRAY = ''DevVarULongArray''"
| "data_type_to_string DEVVAR_STRINGARRAY = ''DevVarStringArray''"
| "data_type_to_string DEVVAR_LONGSTRINGARRAY = ''DevVarLongStringArray''"
| "data_type_to_string DEVVAR_DOUBLESTRINGARRAY = ''DevVarDoubleStringArray''"
| "data_type_to_string DEV_STATE = ''DevState''"
| "data_type_to_string CONST_DEV_STRING = ''ConstDevString''"
| "data_type_to_string DEVVAR_BOOLEANARRAY = ''DevVarBooleanArray''"
| "data_type_to_string DEV_UCHAR = ''DevUChar''"
| "data_type_to_string DEV_LONG64 = ''DevLong64''"
| "data_type_to_string DEV_ULONG64 = ''DevULong64''"
| "data_type_to_string DEVVAR_LONG64ARRAY = ''DevVarLong64Array''"
| "data_type_to_string DEVVAR_ULONG64ARRAY = ''DevVarULong64Array''"
| "data_type_to_string DEV_ENCODED = ''DevEncoded''"
| "data_type_to_string DEV_ENUM = ''DevEnum''"
| "data_type_to_string DEV_PIPE_BLOB = ''DevPipeBlob''"
| "data_type_to_string DEVVAR_STATEARRAY = ''DevVarStateArray''"
| "data_type_to_string DEVVAR_ENCODEDARRAY = ''DevVarEncodedArray''"
| "data_type_to_string DATA_TYPE_UNKNOWN = ''Unknown''"

datatype seq_kind = K_uch | K_sh | K_lg | K_fl | K_db | K_ush | K_ulg | K_str | K_boo | K_lg64 | K_ulg64 | K_state | K_enc

datatype 'v any =
    Any_null
  | Any_scalar seq_kind 'v
  | Any_seq seq_kind "'v list"
  | Any_lg_str "'v list" "'v list"
  | Any_db_str "'v list" "'v list"

fun any_scalar :: "seq_kind \<Rightarrow> 'v any \<Rightarrow> 'v result" where
  "any_scalar k (Any_scalar k' v) = (if k = k' then Ok v else Undef)"
| "any_scalar k a = Undef"

fun any_seq :: "seq_kind \<Rightarrow> 'v any \<Rightarrow> 'v list result" where
  "any_seq k (Any_seq k' vs) = (if k = k' then Ok vs else Undef)"
| "any_seq k a = Undef"

fun any_lg_str :: "'v any \<Rightarrow> ('v list \<times> 'v list) result" where
  "any_lg_str (Any_lg_str s l) = Ok (s, l)"
| "any_lg_str a = Undef"

fun any_db_str :: "'v any \<Rightarrow> ('v list \<times> 'v list) result" where
  "any_db_str (Any_db_str s d) = Ok (s, d)"
| "any_db_str a = Undef"

text \<open>The result stored in a slot, dereferenced.\<close>

definition slot_any :: "('v any, 'w) RingElt \<Rightarrow> 'v any result" where
  "slot_any e = (case re_cmd_result e of None \<Rightarrow> Undef | Some a \<Rightarrow> Ok a)"

record 'v DevCmdHistory_4 =
  h4_dates :: "TimeVal list"
  h4_value :: "'v any"
  h4_dims :: "AttributeDim list"
  h4_dims_array :: "EltInArray list"
  h4_errors :: "DevError list list"
  h4_errors_array :: "EltInArray list"
  h4_cmd_type :: CmdArgType


section \<open>Server: the sizes\<close>

definition unhandled :: "CmdArgType \<Rightarrow> 'a result" where
  "unhandled ty = Throw (DevFailed ''API_CmdArgumentTypeNotSupported''
     (''Unhandled command argument type '' @ data_type_to_string ty))"

text \<open>Types of one element per record; \<open>cmd_type <= DEV_STRING\<close> is a range of the enumeration.\<close>

definition simple_type :: "CmdArgType \<Rightarrow> bool" where
  "simple_type ty \<longleftrightarrow>
     ty \<in> {DEV_VOID, DEV_BOOLEAN, DEV_SHORT, DEV_LONG, DEV_FLOAT, DEV_DOUBLE, DEV_USHORT, DEV_ULONG, DEV_STRING}
     \<or> ty = DEV_STATE \<or> ty = CONST_DEV_STRING \<or> ty = DEV_UCHAR \<or> ty = DEV_LONG64 \<or> ty = DEV_ULONG64
     \<or> ty = DEV_ENCODED"

record hist_sizes =
  seq_size :: int
  seq_str_size :: int
  seq_number_size :: int
  error_nb :: int

definition seq_len :: "seq_kind \<Rightarrow> 'v any \<Rightarrow> hist_sizes \<Rightarrow> hist_sizes result" where
  "seq_len k a z = rbind (any_seq k a) (\<lambda>vs. Ok (z\<lparr>seq_size := seq_size z + int (length vs)\<rparr>))"

text \<open>The sizes of one record of an array type; the types left over stop at an assertion.\<close>

definition array_sizes :: "CmdArgType \<Rightarrow> 'v any \<Rightarrow> hist_sizes \<Rightarrow> hist_sizes result" where
  "array_sizes ty a z =
     (case ty of
        DEVVAR_CHARARRAY \<Rightarrow> seq_len K_uch a z
      | DEVVAR_SHORTARRAY \<Rightarrow> seq_len K_sh a z
      | DEVVAR_LONGARRAY \<Rightarrow> seq_len K_lg a z
      | DEVVAR_FLOATARRAY \<Rightarrow> seq_len K_fl a z
      | DEVVAR_DOUBLEARRAY \<Rightarrow> seq_len K_db a z
      | DEVVAR_USHORTARRAY \<Rightarrow> seq_len K_ush a z
      | DEVVAR_ULONGARRAY \<Rightarrow> seq_len K_ulg a z
      | DEVVAR_STRINGARRAY \<Rightarrow> seq_len K_str a z
      | DEVVAR_BOOLEANARRAY \<Rightarrow> seq_len K_boo a z
      | DEVVAR_LONG64ARRAY \<Rightarrow> seq_len K_lg64 a z
      | DEVVAR_ULONG64ARRAY \<Rightarrow> seq_len K_ulg64 a z
      | DEVVAR_LONGSTRINGARRAY \<Rightarrow>
          rbind (any_lg_str a) (\<lambda>(s, l). Ok (z\<lparr>seq_str_size := seq_str_size z + int (length s),
            seq_number_size := seq_number_size z + int (length l)\<rparr>))
      | DEVVAR_DOUBLESTRINGARRAY \<Rightarrow>
          rbind (any_db_str a) (\<lambda>(s, d). Ok (z\<lparr>seq_str_size := seq_str_size z + int (length s),
            seq_number_size := seq_number_size z + int (length d)\<rparr>))
      | DEV_ENUM \<Rightarrow> unhandled ty
      | DEV_PIPE_BLOB \<Rightarrow> unhandled ty
      | DEVVAR_STATEARRAY \<Rightarrow> unhandled ty
      | DEVVAR_ENCODEDARRAY \<Rightarrow> unhandled ty
      | DATA_TYPE_UNKNOWN \<Rightarrow> unhandled ty
      | _ \<Rightarrow> Undef)"

definition record_sizes :: "CmdArgType \<Rightarrow> ('v any, 'w) RingElt \<Rightarrow> hist_sizes \<Rightarrow> hist_sizes result" where
  "record_sizes ty e z =
     (if re_except e \<noteq> None then Ok (z\<lparr>error_nb := error_nb z + 1\<rparr>)
      else if simple_type ty then Ok z
      else rbind (slot_any e) (\<lambda>a. array_sizes ty a z))"

primrec sizes_loop ::
  "CmdArgType \<Rightarrow> ('v any, 'w) PollRing \<Rightarrow> int \<Rightarrow> nat \<Rightarrow> hist_sizes \<Rightarrow> hist_sizes result" where
  "sizes_loop ty p index 0 z = Ok z"
| "sizes_loop ty p index (Suc k) z =
     rbind (vec_get (ring p) index) (\<lambda>e.
     rbind (record_sizes ty e z) (\<lambda>z'.
       let index = (if index = 0 then pr_max_elt p else index) - 1
       in sizes_loop ty p index k z'))"

definition hist_sizes_of :: "CmdArgType \<Rightarrow> int \<Rightarrow> ('v any, 'w) PollRing \<Rightarrow> hist_sizes result" where
  "hist_sizes_of ty n p =
     (let index = (if pr_insert_elt p = 0 then pr_max_elt p else pr_insert_elt p) - 1
      in rbind (sizes_loop ty p index (nat n) \<lparr>seq_size = 0, seq_str_size = 0, seq_number_size = 0, error_nb = 0\<rparr>)
           (\<lambda>z. Ok (if simple_type ty then z\<lparr>seq_size := n - error_nb z\<rparr> else z)))"


section \<open>Server: packing the records\<close>

record 'v hist4_state =
  hs_hist :: "'v DevCmdHistory_4"
  hs_err :: err_runs
  hs_last_dim :: AttributeDim
  hs_dims_length :: int
  hs_no_data :: bool
  hs_new_tmp :: "seq_kind \<Rightarrow> 'v list option"
  hs_new_tmp_lg_str :: "('v list \<times> 'v list) option"
  hs_new_tmp_db_str :: "('v list \<times> 'v list) option"
  hs_ind_in_seq :: int
  hs_ind_str_in_seq :: int
  hs_ind_num_in_seq :: int

text \<open>
  The macros \<open>MANAGE_DIM_ARRAY\<close>, \<open>MANAGE_DIM_SIMPLE\<close> and \<open>MANAGE_DIM_ARRAY_SEQ\<close>
  differ in the test that lets a record join the current run.
\<close>

definition manage_dim ::
  "(AttributeDim \<Rightarrow> bool) \<Rightarrow> AttributeDim \<Rightarrow> int \<Rightarrow> 'v hist4_state \<Rightarrow> 'v hist4_state result" where
  "manage_dim joins d st s =
     (let h = hs_hist s in
      if joins (hs_last_dim s) then
        rbind (extend_run (hs_dims_length s) (h4_dims_array h)) (\<lambda>arr.
          Ok (s\<lparr>hs_hist := h\<lparr>h4_dims_array := arr\<rparr>\<rparr>))
      else
        rbind (open_run (hs_dims_length s) st d (h4_dims h) (h4_dims_array h)) (\<lambda>(dims, arr).
          Ok (s\<lparr>hs_last_dim := d, hs_hist := h\<lparr>h4_dims := dims, h4_dims_array := arr\<rparr>,
                hs_dims_length := hs_dims_length s + 1\<rparr>)))"

definition manage_dim_array :: "int \<Rightarrow> int \<Rightarrow> 'v hist4_state \<Rightarrow> 'v hist4_state result" where
  "manage_dim_array len = manage_dim (\<lambda>d. dim_x d = len) \<lparr>dim_x = len, dim_y = 0\<rparr>"

definition manage_dim_simple :: "int \<Rightarrow> 'v hist4_state \<Rightarrow> 'v hist4_state result" where
  "manage_dim_simple = manage_dim (\<lambda>d. dim_x d = 1) \<lparr>dim_x = 1, dim_y = 0\<rparr>"

definition manage_dim_array_seq :: "int \<Rightarrow> int \<Rightarrow> int \<Rightarrow> 'v hist4_state \<Rightarrow> 'v hist4_state result" where
  "manage_dim_array_seq len_str len_num =
     manage_dim (\<lambda>d. dim_x d = len_str \<and> dim_y d = len_num) \<lparr>dim_x = len_str, dim_y = len_num\<rparr>"

text \<open>A failed record: its error stack, and a dimension of zero.\<close>

definition error_record :: "int \<Rightarrow> int \<Rightarrow> bool \<Rightarrow> DevError list \<Rightarrow> 'v hist4_state \<Rightarrow> 'v hist4_state result" where
  "error_record nb st previous_no_data errs s =
     rbind (add_error nb st previous_no_data errs (hs_err s)) (\<lambda>r.
       manage_dim (\<lambda>d. dim_x d = 0 \<and> dim_y d = 0) \<lparr>dim_x = 0, dim_y = 0\<rparr> st
         (s\<lparr>hs_err := r, hs_no_data := True\<rparr>))"

text \<open>The global sequence is allocated at the first record that has data.\<close>

definition seq_of :: "'v \<Rightarrow> int \<Rightarrow> 'v list option \<Rightarrow> 'v list" where
  "seq_of dv len tmp = (case tmp of None \<Rightarrow> replicate (nat len) dv | Some xs \<Rightarrow> xs)"

definition put_simple ::
  "'v \<Rightarrow> hist_sizes \<Rightarrow> int \<Rightarrow> seq_kind \<Rightarrow> 'v any \<Rightarrow> 'v hist4_state \<Rightarrow> 'v hist4_state result" where
  "put_simple dv z st k a s =
     (let glob = seq_of dv (seq_size z) (hs_new_tmp s k) in
      rbind (any_scalar k a) (\<lambda>v.
      rbind (vec_set glob (hs_ind_in_seq s) v) (\<lambda>glob'.
        manage_dim_simple st
          (s\<lparr>hs_new_tmp := (hs_new_tmp s)(k := Some glob'), hs_ind_in_seq := hs_ind_in_seq s + 1\<rparr>))))"

definition put_array ::
  "'v \<Rightarrow> hist_sizes \<Rightarrow> int \<Rightarrow> seq_kind \<Rightarrow> 'v any \<Rightarrow> 'v hist4_state \<Rightarrow> 'v hist4_state result" where
  "put_array dv z st k a s =
     (let glob = seq_of dv (seq_size z) (hs_new_tmp s k) in
      rbind (any_seq k a) (\<lambda>vs.
      rbind (add_elt_data vs (hs_ind_in_seq s) glob) (\<lambda>glob'.
        manage_dim_array (int (length vs)) st
          (s\<lparr>hs_new_tmp := (hs_new_tmp s)(k := Some glob'),
             hs_ind_in_seq := hs_ind_in_seq s + int (length vs)\<rparr>))))"

definition add_pair_data ::
  "'v \<Rightarrow> hist_sizes \<Rightarrow> 'v list \<Rightarrow> 'v list \<Rightarrow> ('v list \<times> 'v list) option \<Rightarrow> 'v hist4_state \<Rightarrow>
   ('v list \<times> 'v list) result" where
  "add_pair_data dv z svals nvals tmp s =
     (let (sg, ng) = (case tmp of None \<Rightarrow> (replicate (nat (seq_str_size z)) dv, replicate (nat (seq_number_size z)) dv)
                      | Some pq \<Rightarrow> pq) in
      rbind (add_elt_data svals (hs_ind_str_in_seq s) sg) (\<lambda>sg'.
      rbind (add_elt_data nvals (hs_ind_num_in_seq s) ng) (\<lambda>ng'. Ok (sg', ng'))))"

definition put_lg_str ::
  "'v \<Rightarrow> hist_sizes \<Rightarrow> int \<Rightarrow> 'v any \<Rightarrow> 'v hist4_state \<Rightarrow> 'v hist4_state result" where
  "put_lg_str dv z st a s =
     rbind (any_lg_str a) (\<lambda>(svals, nvals).
     rbind (add_pair_data dv z svals nvals (hs_new_tmp_lg_str s) s) (\<lambda>pq.
       manage_dim_array_seq (int (length svals)) (int (length nvals)) st
         (s\<lparr>hs_new_tmp_lg_str := Some pq,
            hs_ind_str_in_seq := hs_ind_str_in_seq s + int (length svals),
            hs_ind_num_in_seq := hs_ind_num_in_seq s + int (length nvals)\<rparr>)))"

definition put_db_str ::
  "'v \<Rightarrow> hist_sizes \<Rightarrow> int \<Rightarrow> 'v any \<Rightarrow> 'v hist4_state \<Rightarrow> 'v hist4_state result" where
  "put_db_str dv z st a s =
     rbind (any_db_str a) (\<lambda>(svals, nvals).
     rbind (add_pair_data dv z svals nvals (hs_new_tmp_db_str s) s) (\<lambda>pq.
       manage_dim_array_seq (int (length svals)) (int (length nvals)) st
         (s\<lparr>hs_new_tmp_db_str := Some pq,
            hs_ind_str_in_seq := hs_ind_str_in_seq s + int (length svals),
            hs_ind_num_in_seq := hs_ind_num_in_seq s + int (length nvals)\<rparr>)))"

text \<open>The switch over the command type for a record with data.\<close>

definition data_record ::
  "'v \<Rightarrow> CmdArgType \<Rightarrow> hist_sizes \<Rightarrow> int \<Rightarrow> 'v any \<Rightarrow> 'v hist4_state \<Rightarrow> 'v hist4_state result" where
  "data_record dv ty z st a s =
     (case ty of
        DEVVAR_CHARARRAY \<Rightarrow> put_array dv z st K_uch a s
      | DEV_SHORT \<Rightarrow> put_simple dv z st K_sh a s
      | DEVVAR_SHORTARRAY \<Rightarrow> put_array dv z st K_sh a s
      | DEV_LONG \<Rightarrow> put_simple dv z st K_lg a s
      | DEVVAR_LONGARRAY \<Rightarrow> put_array dv z st K_lg a s
      | DEV_FLOAT \<Rightarrow> put_simple dv z st K_fl a s
      | DEVVAR_FLOATARRAY \<Rightarrow> put_array dv z st K_fl a s
      | DEV_DOUBLE \<Rightarrow> put_simple dv z st K_db a s
      | DEVVAR_DOUBLEARRAY \<Rightarrow> put_array dv z st K_db a s
      | DEV_USHORT \<Rightarrow> put_simple dv z st K_ush a s
      | DEVVAR_USHORTARRAY \<Rightarrow> put_array dv z st K_ush a s
      | DEV_ULONG \<Rightarrow> put_simple dv z st K_ulg a s
      | DEVVAR_ULONGARRAY \<Rightarrow> put_array dv z st K_ulg a s
      | DEV_STRING \<Rightarrow> put_simple dv z st K_str a s
      | DEVVAR_STRINGARRAY \<Rightarrow> put_array dv z st K_str a s
      | DEV_BOOLEAN \<Rightarrow> put_simple dv z st K_boo a s
      | DEVVAR_BOOLEANARRAY \<Rightarrow> put_array dv z st K_boo a s
      | DEV_LONG64 \<Rightarrow> put_simple dv z st K_lg64 a s
      | DEVVAR_LONG64ARRAY \<Rightarrow> put_array dv z st K_lg64 a s
      | DEV_ULONG64 \<Rightarrow> put_simple dv z st K_ulg64 a s
      | DEVVAR_ULONG64ARRAY \<Rightarrow> put_array dv z st K_ulg64 a s
      | DEVVAR_LONGSTRINGARRAY \<Rightarrow> put_lg_str dv z st a s
      | DEVVAR_DOUBLESTRINGARRAY \<Rightarrow> put_db_str dv z st a s
      | DEV_ENCODED \<Rightarrow> put_simple dv z st K_enc a s
      | DEV_UCHAR \<Rightarrow> unhandled ty
      | CONST_DEV_STRING \<Rightarrow> unhandled ty
      | DEV_STATE \<Rightarrow> unhandled ty
      | DEV_VOID \<Rightarrow> unhandled ty
      | DEV_ENUM \<Rightarrow> unhandled ty
      | DEV_PIPE_BLOB \<Rightarrow> unhandled ty
      | DEVVAR_STATEARRAY \<Rightarrow> unhandled ty
      | DEVVAR_ENCODEDARRAY \<Rightarrow> unhandled ty
      | DATA_TYPE_UNKNOWN \<Rightarrow> unhandled ty)"

text \<open>
  The insertion of the global sequence into the \<open>Any\<close> at the last record. For the
  unsigned types the source tests and inserts the sequence of doubles.
\<close>

definition insert_seq :: "seq_kind \<Rightarrow> 'v hist4_state \<Rightarrow> 'v any result" where
  "insert_seq k s =
     Ok (case hs_new_tmp s k of None \<Rightarrow> h4_value (hs_hist s) | Some xs \<Rightarrow> Any_seq k xs)"

definition final_value :: "CmdArgType \<Rightarrow> 'v hist4_state \<Rightarrow> 'v any result" where
  "final_value ty s =
     (case ty of
        DEVVAR_CHARARRAY \<Rightarrow> insert_seq K_uch s
      | DEVVAR_SHORTARRAY \<Rightarrow> insert_seq K_sh s | DEV_SHORT \<Rightarrow> insert_seq K_sh s
      | DEVVAR_LONGARRAY \<Rightarrow> insert_seq K_lg s | DEV_LONG \<Rightarrow> insert_seq K_lg s
      | DEVVAR_FLOATARRAY \<Rightarrow> insert_seq K_fl s | DEV_FLOAT \<Rightarrow> insert_seq K_fl s
      | DEVVAR_DOUBLEARRAY \<Rightarrow> insert_seq K_db s | DEV_DOUBLE \<Rightarrow> insert_seq K_db s
      | DEVVAR_USHORTARRAY \<Rightarrow> insert_seq K_db s | DEV_USHORT \<Rightarrow> insert_seq K_db s
      | DEVVAR_ULONGARRAY \<Rightarrow> insert_seq K_db s | DEV_ULONG \<Rightarrow> insert_seq K_db s
      | DEVVAR_STRINGARRAY \<Rightarrow> insert_seq K_str s | DEV_STRING \<Rightarrow> insert_seq K_str s
      | DEVVAR_BOOLEANARRAY \<Rightarrow> insert_seq K_boo s | DEV_BOOLEAN \<Rightarrow> insert_seq K_boo s
      | DEVVAR_LONG64ARRAY \<Rightarrow> insert_seq K_lg64 s | DEV_LONG64 \<Rightarrow> insert_seq K_lg64 s
      | DEVVAR_ULONG64ARRAY \<Rightarrow> insert_seq K_ulg64 s | DEV_ULONG64 \<Rightarrow> insert_seq K_ulg64 s
      | DEVVAR_LONGSTRINGARRAY \<Rightarrow>
          Ok (case hs_new_tmp_lg_str s of None \<Rightarrow> h4_value (hs_hist s) | Some (sv, lv) \<Rightarrow> Any_lg_str sv lv)
      | DEVVAR_DOUBLESTRINGARRAY \<Rightarrow>
          Ok (case hs_new_tmp_db_str s of None \<Rightarrow> h4_value (hs_hist s) | Some (sv, nv) \<Rightarrow> Any_db_str sv nv)
      | DEV_ENCODED \<Rightarrow> insert_seq K_enc s
      | DEV_VOID \<Rightarrow> Ok (h4_value (hs_hist s))
      | DEV_UCHAR \<Rightarrow> unhandled ty
      | CONST_DEV_STRING \<Rightarrow> unhandled ty
      | DEV_STATE \<Rightarrow> unhandled ty
      | DEV_ENUM \<Rightarrow> unhandled ty
      | DEV_PIPE_BLOB \<Rightarrow> unhandled ty
      | DEVVAR_STATEARRAY \<Rightarrow> unhandled ty
      | DEVVAR_ENCODEDARRAY \<Rightarrow> unhandled ty
      | DATA_TYPE_UNKNOWN \<Rightarrow> unhandled ty)"

text \<open>One iteration of the loop, for the record \<open>e\<close> at step \<open>i\<close>.\<close>

definition pack_date :: "int \<Rightarrow> int \<Rightarrow> int \<Rightarrow> ('v any, 'w) RingElt \<Rightarrow> 'v hist4_state \<Rightarrow> 'v hist4_state result" where
  "pack_date off n i e s =
     (let h = hs_hist s in
      rbind (vec_set (h4_dates h) (n - 1 - i) (make_TimeVal off (re_when e))) (\<lambda>dates.
        Ok (s\<lparr>hs_no_data := False, hs_hist := h\<lparr>h4_dates := dates\<rparr>\<rparr>)))"

definition pack_record ::
  "'v \<Rightarrow> CmdArgType \<Rightarrow> hist_sizes \<Rightarrow> int \<Rightarrow> int \<Rightarrow> bool \<Rightarrow> ('v any, 'w) RingElt \<Rightarrow> 'v hist4_state \<Rightarrow>
   'v hist4_state result" where
  "pack_record dv ty z n i previous_no_data e s =
     (case re_except e of
        Some errs \<Rightarrow> error_record (error_nb z) (n - (i + 1)) previous_no_data errs s
      | None \<Rightarrow> rbind (slot_any e) (\<lambda>a. data_record dv ty z (n - (i + 1)) a s))"

definition pack_last :: "CmdArgType \<Rightarrow> hist_sizes \<Rightarrow> 'v hist4_state \<Rightarrow> 'v hist4_state result" where
  "pack_last ty z s =
     (let r = cut_errors (error_nb z) (hs_err s) in
      rbind (final_value ty s) (\<lambda>v.
        Ok (s\<lparr>hs_err := r, hs_hist := (hs_hist s)\<lparr>h4_value := v\<rparr>\<rparr>)))"

definition pack_step ::
  "int \<Rightarrow> 'v \<Rightarrow> CmdArgType \<Rightarrow> hist_sizes \<Rightarrow> int \<Rightarrow> int \<Rightarrow> ('v any, 'w) RingElt \<Rightarrow> 'v hist4_state \<Rightarrow>
   'v hist4_state result" where
  "pack_step off dv ty z n i e s =
     rbind (pack_date off n i e s) (\<lambda>s1.
     rbind (pack_record dv ty z n i (hs_no_data s) e s1) (\<lambda>s2.
       if i = n - 1 then pack_last ty z s2 else Ok s2))"

primrec pack_loop ::
  "int \<Rightarrow> 'v \<Rightarrow> CmdArgType \<Rightarrow> hist_sizes \<Rightarrow> int \<Rightarrow> ('v any, 'w) PollRing \<Rightarrow> int \<Rightarrow> int \<Rightarrow> nat \<Rightarrow>
   'v hist4_state \<Rightarrow> 'v hist4_state result" where
  "pack_loop off dv ty z n p index i 0 s = Ok s"
| "pack_loop off dv ty z n p index i (Suc k) s =
     rbind (vec_get (ring p) index) (\<lambda>e.
     rbind (pack_step off dv ty z n i e s) (\<lambda>s'.
       let index = (if index = 0 then pr_max_elt p else index) - 1
       in pack_loop off dv ty z n p index (i + 1) k s'))"

definition hist4_init :: "CmdArgType \<Rightarrow> TimeVal list \<Rightarrow> 'v hist4_state" where
  "hist4_init ty dates =
     \<lparr>hs_hist = \<lparr>h4_dates = dates, h4_value = Any_null, h4_dims = [], h4_dims_array = [],
        h4_errors = [], h4_errors_array = [], h4_cmd_type = ty\<rparr>,
      hs_err = err_runs_init, hs_last_dim = \<lparr>dim_x = -1, dim_y = -1\<rparr>, hs_dims_length = 1,
      hs_no_data = True, hs_new_tmp = (\<lambda>_. None), hs_new_tmp_lg_str = None, hs_new_tmp_db_str = None,
      hs_ind_in_seq = 0, hs_ind_str_in_seq = 0, hs_ind_num_in_seq = 0\<rparr>"

text \<open>
  The caller has set the length of \<open>dates\<close>. The error sequences are part of the
  result; the state keeps them apart while they are built.
\<close>

definition get_cmd_history_4 ::
  "int \<Rightarrow> 'v \<Rightarrow> int \<Rightarrow> CmdArgType \<Rightarrow> TimeVal list \<Rightarrow> ('v any, 'w) PollRing \<Rightarrow> 'v DevCmdHistory_4 result" where
  "get_cmd_history_4 off dv n ty dates p =
     rbind (hist_sizes_of ty n p) (\<lambda>z.
       let index = (if pr_insert_elt p = 0 then pr_max_elt p else pr_insert_elt p) - 1
       in rbind (pack_loop off dv ty z n p index 0 (nat n) (hist4_init ty dates)) (\<lambda>s.
            Ok ((hs_hist s)\<lparr>h4_errors := er_errors (hs_err s), h4_errors_array := er_array (hs_err s)\<rparr>)))"


section \<open>Client: unpacking\<close>

record 'v DeviceDataHistory =
  ddh_any :: "'v any option"
  ddh_fail :: bool
  ddh_time :: "TimeVal option"
  ddh_err :: "DevError list"

definition DeviceDataHistory_init :: "'v DeviceDataHistory" where
  "DeviceDataHistory_init = \<lparr>ddh_any = None, ddh_fail = False, ddh_time = None, ddh_err = []\<rparr>"

primrec set_dates :: "TimeVal list \<Rightarrow> int \<Rightarrow> 'v DeviceDataHistory list \<Rightarrow> 'v DeviceDataHistory list result" where
  "set_dates [] loop ddh = Ok ddh"
| "set_dates (d # ds) loop ddh =
     rbind (vec_get ddh loop) (\<lambda>h.
     rbind (vec_set ddh loop (h\<lparr>ddh_time := Some d\<rparr>)) (set_dates ds (loop + 1)))"

text \<open>
  The dimensions are gathered in a sequence of the history's length whose elements
  start without a value.
\<close>

definition dims_of_records :: "'v DevCmdHistory_4 \<Rightarrow> AttributeDim option list result" where
  "dims_of_records h =
     scatter (\<lambda>d _. Some d) (h4_dims h) (h4_dims_array h) (replicate (length (h4_dates h)) None)"

definition ad_get :: "AttributeDim option list \<Rightarrow> int \<Rightarrow> AttributeDim result" where
  "ad_get ad loop = rbind (vec_get ad loop) (\<lambda>o'. case o' of None \<Rightarrow> Undef | Some d \<Rightarrow> Ok d)"

text \<open>\<open>create_any\<close>, for element types and for sequence types.\<close>

definition create_any_scalar :: "seq_kind \<Rightarrow> 'v list \<Rightarrow> int \<Rightarrow> int \<Rightarrow> 'v any result" where
  "create_any_scalar k tmp base data_length = rbind (vec_get tmp (base - 1)) (\<lambda>v. Ok (Any_scalar k v))"

definition create_any_array :: "seq_kind \<Rightarrow> 'v list \<Rightarrow> int \<Rightarrow> int \<Rightarrow> 'v any result" where
  "create_any_array k tmp base data_length =
     rbind (vec_slice tmp (base - data_length) data_length) (\<lambda>vs. Ok (Any_seq k vs))"

text \<open>
  The generic loop of \<open>extract_value\<close> reads the dimension of every record, failed or
  not, and takes the data from the end of the sequence.
\<close>

fun extract_loop ::
  "(int \<Rightarrow> int \<Rightarrow> 'v any result) \<Rightarrow> AttributeDim option list \<Rightarrow> int \<Rightarrow> int \<Rightarrow>
   'v DeviceDataHistory list \<Rightarrow> 'v DeviceDataHistory list result" where
  "extract_loop create ad loop base [] = Ok []"
| "extract_loop create ad loop base (h # hs) =
     rbind (ad_get ad loop) (\<lambda>d.
       if ddh_fail h then
         rbind (extract_loop create ad (loop + 1) base hs) (\<lambda>hs'. Ok (h # hs'))
       else
         rbind (create base (dim_x d)) (\<lambda>a.
         rbind (extract_loop create ad (loop + 1) (base - dim_x d) hs) (\<lambda>hs'.
           Ok (h\<lparr>ddh_any := Some a\<rparr> # hs'))))"

definition extract_scalar ::
  "seq_kind \<Rightarrow> 'v any \<Rightarrow> 'v DeviceDataHistory list \<Rightarrow> AttributeDim option list \<Rightarrow> 'v DeviceDataHistory list result" where
  "extract_scalar k value ddh ad =
     rbind (any_seq k value) (\<lambda>tmp. extract_loop (create_any_scalar k tmp) ad 0 (int (length tmp)) ddh)"

definition extract_array ::
  "seq_kind \<Rightarrow> 'v any \<Rightarrow> 'v DeviceDataHistory list \<Rightarrow> AttributeDim option list \<Rightarrow> 'v DeviceDataHistory list result" where
  "extract_array k value ddh ad =
     rbind (any_seq k value) (\<lambda>tmp. extract_loop (create_any_array k tmp) ad 0 (int (length tmp)) ddh)"

text \<open>
  The specialisations for the two pair types skip a failed record before they look at
  the dimensions, and advance in the dimensions only for records with data.
\<close>

fun extract_pair_loop ::
  "('v list \<Rightarrow> 'v list \<Rightarrow> 'v any) \<Rightarrow> 'v list \<Rightarrow> 'v list \<Rightarrow> AttributeDim option list \<Rightarrow> int \<Rightarrow> int \<Rightarrow> int \<Rightarrow>
   'v DeviceDataHistory list \<Rightarrow> 'v DeviceDataHistory list result" where
  "extract_pair_loop mk sv nv ad loop base_str base_num [] = Ok []"
| "extract_pair_loop mk sv nv ad loop base_str base_num (h # hs) =
     (if ddh_fail h then
        rbind (extract_pair_loop mk sv nv ad loop base_str base_num hs) (\<lambda>hs'. Ok (h # hs'))
      else
        rbind (ad_get ad loop) (\<lambda>d.
        rbind (vec_slice sv (base_str - dim_x d) (dim_x d)) (\<lambda>svals.
        rbind (vec_slice nv (base_num - dim_y d) (dim_y d)) (\<lambda>nvals.
        rbind (extract_pair_loop mk sv nv ad (loop + 1) (base_str - dim_x d) (base_num - dim_y d) hs) (\<lambda>hs'.
          Ok (h\<lparr>ddh_any := Some (mk svals nvals)\<rparr> # hs'))))))"

definition extract_lg_str ::
  "'v any \<Rightarrow> 'v DeviceDataHistory list \<Rightarrow> AttributeDim option list \<Rightarrow> 'v DeviceDataHistory list result" where
  "extract_lg_str value ddh ad =
     rbind (any_lg_str value) (\<lambda>(sv, nv).
       extract_pair_loop Any_lg_str sv nv ad 0 (int (length sv)) (int (length nv)) ddh)"

definition extract_db_str ::
  "'v any \<Rightarrow> 'v DeviceDataHistory list \<Rightarrow> AttributeDim option list \<Rightarrow> 'v DeviceDataHistory list result" where
  "extract_db_str value ddh ad =
     rbind (any_db_str value) (\<lambda>(sv, nv).
       extract_pair_loop Any_db_str sv nv ad 0 (int (length sv)) (int (length nv)) ddh)"

text \<open>The switch over the command type; a type without a label leaves the records as they are.\<close>

definition extract_values ::
  "CmdArgType \<Rightarrow> 'v any \<Rightarrow> 'v DeviceDataHistory list \<Rightarrow> AttributeDim option list \<Rightarrow> 'v DeviceDataHistory list result" where
  "extract_values ty value ddh ad =
     (case ty of
        DEV_LONG \<Rightarrow> extract_scalar K_lg value ddh ad
      | DEVVAR_LONGARRAY \<Rightarrow> extract_array K_lg value ddh ad
      | DEV_LONG64 \<Rightarrow> extract_scalar K_lg64 value ddh ad
      | DEVVAR_LONG64ARRAY \<Rightarrow> extract_array K_lg64 value ddh ad
      | DEV_SHORT \<Rightarrow> extract_scalar K_sh value ddh ad
      | DEVVAR_SHORTARRAY \<Rightarrow> extract_array K_sh value ddh ad
      | DEV_DOUBLE \<Rightarrow> extract_scalar K_db value ddh ad
      | DEVVAR_DOUBLEARRAY \<Rightarrow> extract_array K_db value ddh ad
      | DEV_STRING \<Rightarrow> extract_scalar K_str value ddh ad
      | DEVVAR_STRINGARRAY \<Rightarrow> extract_array K_str value ddh ad
      | DEV_FLOAT \<Rightarrow> extract_scalar K_fl value ddh ad
      | DEVVAR_FLOATARRAY \<Rightarrow> extract_array K_fl value ddh ad
      | DEV_BOOLEAN \<Rightarrow> extract_scalar K_boo value ddh ad
      | DEV_USHORT \<Rightarrow> extract_scalar K_ush value ddh ad
      | DEVVAR_USHORTARRAY \<Rightarrow> extract_array K_ush value ddh ad
      | DEVVAR_CHARARRAY \<Rightarrow> extract_array K_uch value ddh ad
      | DEV_ULONG \<Rightarrow> extract_scalar K_ulg value ddh ad
      | DEVVAR_ULONGARRAY \<Rightarrow> extract_array K_ulg value ddh ad
      | DEV_ULONG64 \<Rightarrow> extract_scalar K_ulg64 value ddh ad
      | DEVVAR_ULONG64ARRAY \<Rightarrow> extract_array K_ulg64 value ddh ad
      | DEV_STATE \<Rightarrow> extract_scalar K_state value ddh ad
      | DEVVAR_LONGSTRINGARRAY \<Rightarrow> extract_lg_str value ddh ad
      | DEVVAR_DOUBLESTRINGARRAY \<Rightarrow> extract_db_str value ddh ad
      | DEV_ENCODED \<Rightarrow> extract_scalar K_enc value ddh ad
      | _ \<Rightarrow> Ok ddh)"

definition from_hist4_2_DataHistory ::
  "'v DevCmdHistory_4 \<Rightarrow> 'v DeviceDataHistory list \<Rightarrow> 'v DeviceDataHistory list result" where
  "from_hist4_2_DataHistory h ddh =
     (if length (h4_dims h) \<noteq> length (h4_dims_array h) \<or> length (h4_errors h) \<noteq> length (h4_errors_array h) then
        Throw (DevFailed ''API_WrongHistoryDataBuffer'' ''Data buffer received from server is not valid !'')
      else
        rbind (set_dates (h4_dates h) 0 ddh) (\<lambda>ddh1.
        rbind (scatter (\<lambda>es r. r\<lparr>ddh_fail := True, ddh_err := es\<rparr>) (h4_errors h) (h4_errors_array h) ddh1) (\<lambda>ddh2.
        rbind (dims_of_records h) (\<lambda>ad.
          extract_values (h4_cmd_type h) (h4_value h) ddh2 ad))))"

text \<open>\<open>DeviceProxy::command_history\<close> makes one empty record for each date of the reply.\<close>

definition unpack_cmd_history :: "'v DevCmdHistory_4 \<Rightarrow> 'v DeviceDataHistory list result" where
  "unpack_cmd_history h =
     from_hist4_2_DataHistory h (map (\<lambda>_. DeviceDataHistory_init) (h4_dates h))"


section \<open>Proof structure: what a command type transfers\<close>

text \<open>
  The switches of both sides, summed up: how the server packs a type (\<open>pack_mode\<close>) and
  which types survive the transfer (\<open>transferred\<close>).
\<close>

datatype mode = M_simple seq_kind | M_array seq_kind | M_lg_str | M_db_str | M_none

fun pack_mode :: "CmdArgType \<Rightarrow> mode" where
  "pack_mode DEVVAR_CHARARRAY = M_array K_uch"
| "pack_mode DEV_SHORT = M_simple K_sh"
| "pack_mode DEVVAR_SHORTARRAY = M_array K_sh"
| "pack_mode DEV_LONG = M_simple K_lg"
| "pack_mode DEVVAR_LONGARRAY = M_array K_lg"
| "pack_mode DEV_FLOAT = M_simple K_fl"
| "pack_mode DEVVAR_FLOATARRAY = M_array K_fl"
| "pack_mode DEV_DOUBLE = M_simple K_db"
| "pack_mode DEVVAR_DOUBLEARRAY = M_array K_db"
| "pack_mode DEV_USHORT = M_simple K_ush"
| "pack_mode DEVVAR_USHORTARRAY = M_array K_ush"
| "pack_mode DEV_ULONG = M_simple K_ulg"
| "pack_mode DEVVAR_ULONGARRAY = M_array K_ulg"
| "pack_mode DEV_STRING = M_simple K_str"
| "pack_mode DEVVAR_STRINGARRAY = M_array K_str"
| "pack_mode DEV_BOOLEAN = M_simple K_boo"
| "pack_mode DEVVAR_BOOLEANARRAY = M_array K_boo"
| "pack_mode DEV_LONG64 = M_simple K_lg64"
| "pack_mode DEVVAR_LONG64ARRAY = M_array K_lg64"
| "pack_mode DEV_ULONG64 = M_simple K_ulg64"
| "pack_mode DEVVAR_ULONG64ARRAY = M_array K_ulg64"
| "pack_mode DEV_ENCODED = M_simple K_enc"
| "pack_mode DEVVAR_LONGSTRINGARRAY = M_lg_str"
| "pack_mode DEVVAR_DOUBLESTRINGARRAY = M_db_str"
| "pack_mode ty = M_none"

definition unsigned_type :: "CmdArgType \<Rightarrow> bool" where
  "unsigned_type ty \<longleftrightarrow> ty \<in> {DEV_USHORT, DEVVAR_USHORTARRAY, DEV_ULONG, DEVVAR_ULONGARRAY}"

text \<open>The data of a result, for the one-sequence types, or \<open>None\<close> when the result is of another type.\<close>

fun any_data :: "mode \<Rightarrow> 'v any \<Rightarrow> 'v list option" where
  "any_data (M_simple k) (Any_scalar k' v) = (if k = k' then Some [v] else None)"
| "any_data (M_array k) (Any_seq k' vs) = (if k = k' then Some vs else None)"
| "any_data m a = None"

fun mode_kind :: "mode \<Rightarrow> seq_kind option" where
  "mode_kind (M_simple k) = Some k"
| "mode_kind (M_array k) = Some k"
| "mode_kind m = None"

fun any_of_data :: "mode \<Rightarrow> 'v list \<Rightarrow> 'v any" where
  "any_of_data (M_simple k) vs = Any_scalar k (hd vs)"
| "any_of_data (M_array k) vs = Any_seq k vs"
| "any_of_data m vs = Any_null"

lemma any_of_data: "any_data m a = Some vs \<Longrightarrow> any_of_data m vs = a"
  by (cases "(m, a)" rule: any_data.cases) (auto split: if_splits)


text \<open>A record of the ring fits a mode: a non-empty error stack, or a result of the type.\<close>

definition failed :: "('c, 'w) RingElt \<Rightarrow> bool" where
  "failed e \<longleftrightarrow> re_except e \<noteq> None"

definition rec_data :: "mode \<Rightarrow> ('v any, 'w) RingElt \<Rightarrow> 'v list" where
  "rec_data m e = (if failed e then [] else
     case re_cmd_result e of None \<Rightarrow> [] | Some a \<Rightarrow> (case any_data m a of None \<Rightarrow> [] | Some vs \<Rightarrow> vs))"

definition fits :: "mode \<Rightarrow> ('v any, 'w) RingElt \<Rightarrow> bool" where
  "fits m e \<longleftrightarrow>
     (case re_except e of
        Some errs \<Rightarrow> errs \<noteq> []
      | None \<Rightarrow> (case re_cmd_result e of None \<Rightarrow> False | Some a \<Rightarrow> any_data m a \<noteq> None))"

definition rec_dim :: "mode \<Rightarrow> ('v any, 'w) RingElt \<Rightarrow> AttributeDim" where
  "rec_dim m e = \<lparr>dim_x = int (length (rec_data m e)), dim_y = 0\<rparr>"

lemma rec_data_failed: "failed e \<Longrightarrow> rec_data m e = []"
  by (simp add: rec_data_def)

lemma fits_data:
  assumes "fits m e" "\<not> failed e"
  obtains a where "re_except e = None" "re_cmd_result e = Some a" "any_data m a = Some (rec_data m e)" "slot_any e = Ok a"
  using assms by (auto simp: fits_def failed_def rec_data_def slot_any_def split: option.splits)

lemma fits_failed:
  assumes "failed e" "fits m e"
  obtains errs where "re_except e = Some errs" "errs \<noteq> []" "rec_data m e = []"
  using assms by (auto simp: fits_def failed_def rec_data_def split: option.splits)

lemma one_seq_cases:
  assumes "mode_kind m = Some k"
  obtains "m = M_simple k" | "m = M_array k"
  using assms by (cases m) auto

subsection \<open>Sizes\<close>

fun sizes_list :: "CmdArgType \<Rightarrow> ('v any, 'w) RingElt list \<Rightarrow> hist_sizes \<Rightarrow> hist_sizes result" where
  "sizes_list ty [] z = Ok z"
| "sizes_list ty (e # es) z = rbind (record_sizes ty e z) (sizes_list ty es)"

lemma sizes_loop_walk:
  assumes "int (length (ring p)) = pr_max_elt p" "0 \<le> i" "i < pr_max_elt p"
  shows "sizes_loop ty p i k z = sizes_list ty (walk_back (ring p) (pr_max_elt p) i k) z"
  using assms(2,3)
proof (induction k arbitrary: i z)
  case (Suc k)
  have step: "(if i = 0 then pr_max_elt p else i) - 1 = prev_idx (pr_max_elt p) i" by (simp add: prev_idx_def)
  have "0 \<le> prev_idx (pr_max_elt p) i" "prev_idx (pr_max_elt p) i < pr_max_elt p"
    using Suc.prems by (auto simp: prev_idx_def)
  then show ?case using Suc assms(1) by (auto simp: vec_get_in Let_def step intro!: rbind_ext)
qed simp

lemma array_sizes_mode:
  "pack_mode ty = M_array k \<Longrightarrow> array_sizes ty a z = seq_len k a z \<and> \<not> simple_type ty"
  by (cases ty) (simp_all add: array_sizes_def simple_type_def)

lemma simple_type_mode: "pack_mode ty = M_simple k \<Longrightarrow> simple_type ty"
  by (cases ty) (simp_all add: simple_type_def)

lemma record_sizes_fits:
  assumes "fits m e" "pack_mode ty = m" "mode_kind m = Some k"
  shows "record_sizes ty e z = Ok (if failed e then z\<lparr>error_nb := error_nb z + 1\<rparr>
     else if simple_type ty then z else z\<lparr>seq_size := seq_size z + int (length (rec_data m e))\<rparr>)"
proof (cases "failed e")
  case False
  then obtain a where a: "re_except e = None" "any_data m a = Some (rec_data m e)" "slot_any e = Ok a"
    using fits_data[OF assms(1)] by metis
  from assms(3) show ?thesis
  proof (cases rule: one_seq_cases)
    case 1
    then show ?thesis using a False assms(2) simple_type_mode by (simp add: record_sizes_def)
  next
    case 2
    then obtain vs where "a = Any_seq k vs" "rec_data m e = vs"
      using a(2) by (cases a) (auto split: if_splits)
    then show ?thesis
      using a False 2 assms(2) array_sizes_mode[of ty k a z] by (simp add: record_sizes_def seq_len_def)
  qed
qed (simp add: record_sizes_def failed_def)

lemma sizes_list_fits:
  assumes "\<forall>e \<in> set es. fits m e" "pack_mode ty = m" "mode_kind m = Some k"
  shows "sizes_list ty es z = Ok (z\<lparr>error_nb := error_nb z + int (length (filter failed es)),
     seq_size := seq_size z + (if simple_type ty then 0 else int (length (concat (map (rec_data m) es))))\<rparr>)"
  using assms(1)
proof (induction es arbitrary: z)
  case (Cons e es)
  have e: "fits m e" "\<forall>e \<in> set es. fits m e" using Cons.prems by auto
  show ?case
    unfolding sizes_list.simps record_sizes_fits[OF e(1) assms(2,3)] rbind.simps Cons.IH[OF e(2)]
    by (cases "failed e"; cases "simple_type ty") (simp_all add: algebra_simps rec_data_failed)
qed simp

lemma simple_data_count:
  assumes "\<And>e. e \<in> set es \<Longrightarrow> fits (M_simple k) e"
  shows "length (concat (map (rec_data (M_simple k)) es)) = length (filter (\<lambda>e. \<not> failed e) es)"
  using assms
proof (induction es)
  case (Cons e es)
  have "length (rec_data (M_simple k) e) = (if failed e then 0 else 1)"
  proof (cases "failed e")
    case False
    then obtain a where "any_data (M_simple k) a = Some (rec_data (M_simple k) e)"
      using fits_data[of "M_simple k" e] Cons.prems by auto
    then have "\<exists>v. rec_data (M_simple k) e = [v]" by (cases a) (auto split: if_splits dest: sym)
    then show ?thesis using False by auto
  qed (simp add: rec_data_def)
  then show ?case using Cons by auto
qed simp

lemma hist_sizes_ok:
  assumes "pr_inv p" "0 \<le> n" "n \<le> pr_nb_elt p" "es = take (nat n) (pr_hist p)"
    and "\<forall>e \<in> set es. fits m e" "pack_mode ty = m" "mode_kind m = Some k"
  shows "\<exists>z. hist_sizes_of ty n p = Ok z \<and> error_nb z = int (length (filter failed es)) \<and>
     seq_size z = int (length (concat (map (rec_data m) es)))"
proof -
  let ?i = "prev_idx (pr_max_elt p) (pr_insert_elt p)"
  have w: "walk_back (ring p) (pr_max_elt p) ?i (nat n) = es"
    unfolding assms(4) newest_def using nat_mono[OF assms(3)] by (rule walk_back_take)
  have b: "int (length (ring p)) = pr_max_elt p" "0 \<le> ?i" "?i < pr_max_elt p"
    using assms(1) ring_inv_prev[OF assms(1)] by (auto simp: ring_inv_def)
  have start: "(if pr_insert_elt p = 0 then pr_max_elt p else pr_insert_elt p) - 1 = ?i"
    by (simp add: prev_idx_def)
  have cnt: "length (filter failed es) + length (filter (\<lambda>e. \<not> failed e) es) = nat n"
    using assms(2-4) nat_mono[OF assms(3)] by (simp add: sum_length_filter_compl)
  have "n - int (length (filter failed es)) = int (length (concat (map (rec_data m) es)))"
    if "simple_type ty"
  proof -
    have "m = M_simple k"
      using assms(7) that array_sizes_mode assms(6) by (cases rule: one_seq_cases) auto
    then have "length (concat (map (rec_data m) es)) = length (filter (\<lambda>e. \<not> failed e) es)"
      using simple_data_count[of es k] assms(5) by blast
    then show ?thesis using cnt assms(2) by simp
  qed
  then show ?thesis
    using sizes_list_fits[OF assms(5,6,7)]
    unfolding hist_sizes_of_def start Let_def sizes_loop_walk[OF b] w by simp
qed


subsection \<open>Packing\<close>

fun pack_list ::
  "int \<Rightarrow> 'v \<Rightarrow> CmdArgType \<Rightarrow> hist_sizes \<Rightarrow> int \<Rightarrow> int \<Rightarrow> ('v any, 'w) RingElt list \<Rightarrow>
   'v hist4_state \<Rightarrow> 'v hist4_state result" where
  "pack_list off dv ty z n i [] s = Ok s"
| "pack_list off dv ty z n i (e # es) s =
     rbind (pack_step off dv ty z n i e s) (pack_list off dv ty z n (i + 1) es)"

lemma pack_list_Nil [simp]: "pack_list off dv ty z n i [] = Ok"
  by (rule ext) simp

lemma pack_loop_walk:
  assumes "int (length (ring p)) = pr_max_elt p" "0 \<le> index" "index < pr_max_elt p"
  shows "pack_loop off dv ty z n p index i k s =
     pack_list off dv ty z n i (walk_back (ring p) (pr_max_elt p) index k) s"
  using assms(2,3)
proof (induction k arbitrary: index i s)
  case (Suc k)
  have step: "(if index = 0 then pr_max_elt p else index) - 1 = prev_idx (pr_max_elt p) index"
    by (simp add: prev_idx_def)
  have "0 \<le> prev_idx (pr_max_elt p) index" "prev_idx (pr_max_elt p) index < pr_max_elt p"
    using Suc.prems by (auto simp: prev_idx_def)
  then show ?case using Suc assms(1) by (auto simp: vec_get_in Let_def step intro!: rbind_ext)
qed simp

lemma manage_dim_ok:
  assumes "runs_ok (hs_dims_length s) (h4_dims (hs_hist s)) (h4_dims_array (hs_hist s)) as"
    and "joins (hs_last_dim s) \<Longrightarrow> hs_last_dim s = d \<and> (\<exists>as'. as = as' @ [(st + 1, d)])"
  shows "\<exists>dims arr len. runs_ok len dims arr (as @ [(st, d)]) \<and>
     manage_dim joins d st s = Ok (s\<lparr>hs_last_dim := d,
       hs_hist := (hs_hist s)\<lparr>h4_dims := dims, h4_dims_array := arr\<rparr>, hs_dims_length := len\<rparr>)"
proof (cases "joins (hs_last_dim s)")
  case True
  then obtain as' where as: "as = as' @ [(st + 1, d)]" "hs_last_dim s = d" using assms(2) by blast
  then obtain arr where "extend_run (hs_dims_length s) (h4_dims_array (hs_hist s)) = Ok arr"
      "runs_ok (hs_dims_length s) (h4_dims (hs_hist s)) arr (as @ [(st, d)])"
    using extend_run_ok[of "hs_dims_length s" "h4_dims (hs_hist s)" "h4_dims_array (hs_hist s)" as' st d] assms(1)
    by auto
  then show ?thesis
    using True as(2)
    by (intro exI[of _ "h4_dims (hs_hist s)"] exI[of _ arr] exI[of _ "hs_dims_length s"])
       (simp add: manage_dim_def Let_def)
next
  case False
  then show ?thesis
    using open_run_ok[OF assms(1), of st d]
    by (intro exI[of _ "h4_dims (hs_hist s) @ [d]"]
          exI[of _ "h4_dims_array (hs_hist s) @ [\<lparr>start = st, eia_nb_elt = 1\<rparr>]"]
          exI[of _ "hs_dims_length s + 1"]) (simp add: manage_dim_def Let_def)
qed

lemma data_record_mode:
  "(pack_mode ty = M_simple k \<longrightarrow> data_record dv ty z st a s = put_simple dv z st k a s) \<and>
   (pack_mode ty = M_array k \<longrightarrow> data_record dv ty z st a s = put_array dv z st k a s)"
  by (cases ty) (simp_all add: data_record_def)

text \<open>The state after the records \<open>es\<close> (newest first) of \<open>N\<close> have been packed.\<close>

definition pack_inv ::
  "int \<Rightarrow> 'v \<Rightarrow> CmdArgType \<Rightarrow> mode \<Rightarrow> seq_kind \<Rightarrow> hist_sizes \<Rightarrow> TimeVal list \<Rightarrow>
   ('v any, 'w) RingElt list \<Rightarrow> 'v hist4_state \<Rightarrow> bool" where
  "pack_inv off dv ty m k z dates0 es s \<longleftrightarrow>
     (let h = hs_hist s; N = int (length dates0); data = concat (map (rec_data m) es);
          glob = seq_of dv (seq_size z) (hs_new_tmp s k) in
      errs_inv (nat (error_nb z)) (hs_err s) (expect (N - 1) re_except es) \<and>
      runs_ok (hs_dims_length s) (h4_dims h) (h4_dims_array h) (expect (N - 1) (\<lambda>e. Some (rec_dim m e)) es) \<and>
      hs_last_dim s = (if es = [] then \<lparr>dim_x = -1, dim_y = -1\<rparr> else rec_dim m (last es)) \<and>
      hs_no_data s = (es = [] \<or> failed (last es)) \<and>
      (hs_no_data s \<longrightarrow> er_last_err_list (hs_err s) = (if es = [] then [] else the (re_except (last es)))) \<and>
      hs_ind_in_seq s = int (length data) \<and>
      take (length data) glob = data \<and> int (length glob) = seq_size z \<and>
      (hs_new_tmp s k = None \<longleftrightarrow> (\<forall>e \<in> set es. failed e)) \<and>
      (\<forall>k'. k' \<noteq> k \<longrightarrow> hs_new_tmp s k' = None) \<and>
      h4_dates h = take (length dates0 - length es) dates0 @ rev (map (\<lambda>e. make_TimeVal off (re_when e)) es) \<and>
      h4_value h = Any_null \<and> h4_cmd_type h = ty)"

lemmas pack_inv_simps = pack_inv_def Let_def

lemma pack_inv_init:
  "0 \<le> seq_size z \<Longrightarrow> pack_inv off dv ty m k z dates0 [] (hist4_init ty dates0)"
  by (simp add: pack_inv_simps hist4_init_def seq_of_def err_runs_init_def[symmetric])
     (simp add: err_runs_init_def)


lemma dates_step:
  assumes "length es < length dates0"
  shows "vec_set (take (length dates0 - length es) dates0 @ rev (map f es)) (int (length dates0) - 1 - int (length es)) (f e)
     = Ok (take (length dates0 - length (es @ [e])) dates0 @ rev (map f (es @ [e])))"
proof -
  let ?j = "length dates0 - Suc (length es)"
  have "take (length dates0 - length es) dates0 = take ?j dates0 @ [dates0 ! ?j]"
    using assms by (simp add: take_Suc_conv_app_nth[symmetric] Suc_diff_Suc)
  moreover have "int (length dates0) - 1 - int (length es) = int (length (take ?j dates0))" using assms by simp
  ultimately show ?thesis by (simp add: vec_set_at)
qed

lemma pack_date_inv:
  assumes "pack_inv off dv ty m k z dates0 es s" "length es < length dates0"
  shows "pack_date off (int (length dates0)) (int (length es)) e s =
     Ok (s\<lparr>hs_no_data := False, hs_hist := (hs_hist s)\<lparr>h4_dates :=
       take (length dates0 - length (es @ [e])) dates0 @ rev (map (\<lambda>e. make_TimeVal off (re_when e)) (es @ [e]))\<rparr>\<rparr>)"
  using assms dates_step[OF assms(2), of "\<lambda>e. make_TimeVal off (re_when e)" e]
  by (simp add: pack_inv_simps pack_date_def)

lemma pack_error_inv:
  assumes inv: "pack_inv off dv ty m k z dates0 es s" and "length es < length dates0"
    and e: "re_except e = Some errs" "errs \<noteq> []"
    and nb: "int (length (filter failed es)) < error_nb z"
    and s1: "pack_date off (int (length dates0)) (int (length es)) e s = Ok s1"
  shows "\<exists>s'. error_record (error_nb z) (int (length dates0) - (int (length es) + 1)) (hs_no_data s) errs s1 = Ok s' \<and>
     pack_inv off dv ty m k z dates0 (es @ [e]) s'"
proof -
  let ?N = "int (length dates0)" and ?st = "int (length dates0) - (int (length es) + 1)"
  have f: "failed e" "rec_dim m e = \<lparr>dim_x = 0, dim_y = 0\<rparr>" "rec_data m e = []"
    using e by (auto simp: failed_def rec_dim_def rec_data_def)
  have fl: "length (filter (\<lambda>e. re_except e \<noteq> None) es) = length (filter failed es)"
    unfolding failed_def[abs_def] ..
  have lastpos: "\<exists>as. expect (?N - 1) g es = as @ [(?st + 1, v)]" if "es \<noteq> []" "g (last es) = Some v" for g v
    using expect_last[where g = g and v = v and pos = "?N - 1", OF that] by (simp add: algebra_simps)
  have same: "\<exists>as'. expect (?N - 1) re_except es = as' @ [(?st + 1, errs)]"
    if "hs_no_data s" "errs = er_last_err_list (hs_err s)"
    using inv that e(2) by (intro lastpos) (auto simp: pack_inv_simps failed_def split: if_splits)
  have E: "errs_inv (nat (error_nb z)) (hs_err s) (expect (?N - 1) re_except es)"
    using inv by (simp add: pack_inv_simps)
  have "length (expect (?N - 1) re_except es) < nat (error_nb z)" "int (nat (error_nb z)) = error_nb z"
    unfolding length_expect fl using nb by simp_all
  then obtain r where r: "add_error (error_nb z) ?st (hs_no_data s) errs (hs_err s) = Ok r"
      "errs_inv (nat (error_nb z)) r (expect (?N - 1) re_except es @ [(?st, errs)])" "er_last_err_list r = errs"
    using add_error_ok[OF E _ same] by metis
  define s2 where "s2 = s1\<lparr>hs_err := r, hs_no_data := True\<rparr>"
  have s1': "s1 = s\<lparr>hs_no_data := False, hs_hist := (hs_hist s)\<lparr>h4_dates :=
       take (length dates0 - length (es @ [e])) dates0 @ rev (map (\<lambda>e. make_TimeVal off (re_when e)) (es @ [e]))\<rparr>\<rparr>"
    using s1 pack_date_inv[OF inv assms(2)] by simp
  have D: "runs_ok (hs_dims_length s2) (h4_dims (hs_hist s2)) (h4_dims_array (hs_hist s2))
      (expect (?N - 1) (\<lambda>e. Some (rec_dim m e)) es)"
    using inv by (simp add: pack_inv_simps s2_def s1')
  have "hs_last_dim s2 = \<lparr>dim_x = 0, dim_y = 0\<rparr> \<and>
      (\<exists>as'. expect (?N - 1) (\<lambda>e. Some (rec_dim m e)) es = as' @ [(?st + 1, \<lparr>dim_x = 0, dim_y = 0\<rparr>)])"
    if "dim_x (hs_last_dim s2) = 0 \<and> dim_y (hs_last_dim s2) = 0"
    using inv that lastpos[of "\<lambda>e. Some (rec_dim m e)" "rec_dim m (last es)"]
    by (auto simp: pack_inv_simps s2_def s1' rec_dim_def split: if_splits)
  then obtain dims arr len where dims: "runs_ok len dims arr (expect (?N - 1) (\<lambda>e. Some (rec_dim m e)) es @ [(?st, rec_dim m e)])"
    "manage_dim (\<lambda>d. dim_x d = 0 \<and> dim_y d = 0) \<lparr>dim_x = 0, dim_y = 0\<rparr> ?st s2 = Ok (s2\<lparr>hs_last_dim := rec_dim m e,
       hs_hist := (hs_hist s2)\<lparr>h4_dims := dims, h4_dims_array := arr\<rparr>, hs_dims_length := len\<rparr>)"
    using manage_dim_ok[OF D, of "\<lambda>d. dim_x d = 0 \<and> dim_y d = 0" "\<lparr>dim_x = 0, dim_y = 0\<rparr>" ?st] unfolding f(2) by blast
  have pos: "?N - 1 - int (length es) = ?st" by simp
  have "hs_err s1 = hs_err s" by (simp add: s1')
  then have "error_record (error_nb z) ?st (hs_no_data s) errs s1 = Ok (s2\<lparr>hs_last_dim := rec_dim m e,
       hs_hist := (hs_hist s2)\<lparr>h4_dims := dims, h4_dims_array := arr\<rparr>, hs_dims_length := len\<rparr>)"
    using r(1) dims(2) by (simp add: error_record_def s2_def)
  moreover have "pack_inv off dv ty m k z dates0 (es @ [e]) (s2\<lparr>hs_last_dim := rec_dim m e,
       hs_hist := (hs_hist s2)\<lparr>h4_dims := dims, h4_dims_array := arr\<rparr>, hs_dims_length := len\<rparr>)"
    using inv r(2,3) dims(1) e(1) f unfolding pack_inv_simps expect_snoc pos by (simp add: s2_def s1')
  ultimately show ?thesis by blast
qed


lemma data_record_data:
  assumes "pack_mode ty = m" "any_data m a = Some vs"
    and "mode_kind m = Some k"
  shows "data_record dv ty z st a s =
     rbind (add_elt_data vs (hs_ind_in_seq s) (seq_of dv (seq_size z) (hs_new_tmp s k))) (\<lambda>glob'.
       manage_dim (\<lambda>d. dim_x d = int (length vs)) \<lparr>dim_x = int (length vs), dim_y = 0\<rparr> st
         (s\<lparr>hs_new_tmp := (hs_new_tmp s)(k := Some glob'), hs_ind_in_seq := hs_ind_in_seq s + int (length vs)\<rparr>))"
  using assms(3)
proof (cases rule: one_seq_cases)
  case 1
  then obtain v where "a = Any_scalar k v" "vs = [v]" using assms(2) by (cases a) (auto split: if_splits)
  then show ?thesis
    using data_record_mode[of ty k dv z st a s] assms(1) 1 by (simp add: put_simple_def manage_dim_simple_def Let_def)
next
  case 2
  then have "a = Any_seq k vs" using assms(2) by (cases a) (auto split: if_splits)
  then show ?thesis
    using data_record_mode[of ty k dv z st a s] assms(1) 2 by (simp add: put_array_def manage_dim_array_def Let_def)
qed

lemma pack_data_inv:
  assumes inv: "pack_inv off dv ty m k z dates0 es s" and "length es < length dates0"
    and e: "fits m e" "\<not> failed e" and m: "pack_mode ty = m" "mode_kind m = Some k"
    and size: "int (length (concat (map (rec_data m) (es @ [e])))) \<le> seq_size z"
    and s1: "pack_date off (int (length dates0)) (int (length es)) e s = Ok s1"
  shows "\<exists>a s'. slot_any e = Ok a \<and>
     data_record dv ty z (int (length dates0) - (int (length es) + 1)) a s1 = Ok s' \<and>
     pack_inv off dv ty m k z dates0 (es @ [e]) s'"
proof -
  let ?N = "int (length dates0)" and ?st = "int (length dates0) - (int (length es) + 1)"
  let ?vs = "rec_data m e" and ?data = "concat (map (rec_data m) es)"
  let ?glob = "seq_of dv (seq_size z) (hs_new_tmp s k)"
  obtain a where a: "re_except e = None" "any_data m a = Some ?vs" "slot_any e = Ok a"
    using fits_data[OF e] by metis
  have s1': "s1 = s\<lparr>hs_no_data := False, hs_hist := (hs_hist s)\<lparr>h4_dates :=
       take (length dates0 - length (es @ [e])) dates0 @ rev (map (\<lambda>e. make_TimeVal off (re_when e)) (es @ [e]))\<rparr>\<rparr>"
    using s1 pack_date_inv[OF inv assms(2)] by simp
  have g: "take (length ?data) ?glob = ?data" "int (length ?glob) = seq_size z" "hs_ind_in_seq s = int (length ?data)"
    using inv by (simp_all add: pack_inv_simps)
  obtain rest where rest: "?glob = ?data @ rest" using g(1) by (metis append_take_drop_id)
  have "length ?vs \<le> length rest" using size g(2) rest by simp
  from add_elt_data_ok[OF this, of ?data]
  have add: "add_elt_data ?vs (hs_ind_in_seq s) ?glob = Ok ((?data @ ?vs) @ drop (length ?vs) rest)"
    using g(3) rest by simp
  define glob' where "glob' = (?data @ ?vs) @ drop (length ?vs) rest"
  have len': "length glob' = length ?glob" using rest \<open>length ?vs \<le> length rest\<close> by (simp add: glob'_def)
  define s2 where "s2 = s1\<lparr>hs_new_tmp := (hs_new_tmp s)(k := Some glob'),
    hs_ind_in_seq := hs_ind_in_seq s + int (length ?vs)\<rparr>"
  have D: "runs_ok (hs_dims_length s2) (h4_dims (hs_hist s2)) (h4_dims_array (hs_hist s2))
      (expect (?N - 1) (\<lambda>e. Some (rec_dim m e)) es)"
    using inv by (simp add: pack_inv_simps s2_def s1')
  have "hs_last_dim s2 = rec_dim m e \<and>
      (\<exists>as'. expect (?N - 1) (\<lambda>e. Some (rec_dim m e)) es = as' @ [(?st + 1, rec_dim m e)])"
    if "dim_x (hs_last_dim s2) = int (length ?vs)"
    using inv that expect_last[of es "\<lambda>e. Some (rec_dim m e)" "rec_dim m (last es)" "?N - 1"]
    by (auto simp: pack_inv_simps s2_def s1' rec_dim_def algebra_simps split: if_splits)
  then obtain dims arr len where dims: "runs_ok len dims arr (expect (?N - 1) (\<lambda>e. Some (rec_dim m e)) es @ [(?st, rec_dim m e)])"
    "manage_dim (\<lambda>d. dim_x d = int (length ?vs)) (rec_dim m e) ?st s2 = Ok (s2\<lparr>hs_last_dim := rec_dim m e,
       hs_hist := (hs_hist s2)\<lparr>h4_dims := dims, h4_dims_array := arr\<rparr>, hs_dims_length := len\<rparr>)"
    using manage_dim_ok[OF D, of "\<lambda>d. dim_x d = int (length ?vs)" "rec_dim m e" ?st] by blast
  have pos: "?N - 1 - int (length es) = ?st" by simp
  have "data_record dv ty z ?st a s1 = manage_dim (\<lambda>d. dim_x d = int (length ?vs)) (rec_dim m e) ?st s2"
    using data_record_data[OF m(1) a(2) m(2), of dv z ?st s1] add
    by (simp add: s2_def s1' glob'_def rec_dim_def)
  moreover have "pack_inv off dv ty m k z dates0 (es @ [e]) (s2\<lparr>hs_last_dim := rec_dim m e,
       hs_hist := (hs_hist s2)\<lparr>h4_dims := dims, h4_dims_array := arr\<rparr>, hs_dims_length := len\<rparr>)"
    using inv dims(1) a(1) e(2) len' g(2) unfolding pack_inv_simps expect_snoc pos
    by (simp add: s2_def s1' seq_of_def glob'_def)
  ultimately show ?thesis using a(3) dims(2) by auto
qed

lemma pack_step_inv:
  assumes inv: "pack_inv off dv ty m k z dates0 es s"
    and m: "pack_mode ty = m" "mode_kind m = Some k" and e: "fits m e"
    and all: "length dates0 = length (es @ e # rest)" "error_nb z = int (length (filter failed (es @ e # rest)))"
      "seq_size z = int (length (concat (map (rec_data m) (es @ e # rest))))"
  shows "\<exists>s'. pack_inv off dv ty m k z dates0 (es @ [e]) s' \<and>
     pack_step off dv ty z (int (length dates0)) (int (length es)) e s = (if rest = [] then pack_last ty z s' else Ok s')"
proof -
  have lt: "length es < length dates0" using all(1) by simp
  obtain s1 where s1: "pack_date off (int (length dates0)) (int (length es)) e s = Ok s1"
    using pack_date_inv[OF inv lt] by blast
  have "\<exists>s'. pack_record dv ty z (int (length dates0)) (int (length es)) (hs_no_data s) e s1 = Ok s' \<and>
     pack_inv off dv ty m k z dates0 (es @ [e]) s'"
  proof (cases "failed e")
    case True
    then obtain errs where "re_except e = Some errs" "errs \<noteq> []" using fits_failed[OF True e] by metis
    then show ?thesis
      using pack_error_inv[OF inv lt _ _ _ s1, of errs] all(2) True by (auto simp: pack_record_def)
  next
    case False
    then have "re_except e = None" by (simp add: failed_def)
    then show ?thesis
      using pack_data_inv[OF inv lt e False m _ s1] all(3) by (auto simp: pack_record_def)
  qed
  moreover have "int (length es) = int (length dates0) - 1 \<longleftrightarrow> rest = []" using all(1) by auto
  ultimately show ?thesis using s1 by (auto simp: pack_step_def)
qed

lemma pack_list_inv:
  assumes "pack_inv off dv ty m k z dates0 es s" "pack_mode ty = m" "mode_kind m = Some k"
    and "\<forall>e \<in> set rest. fits m e" "rest \<noteq> []"
    and "length dates0 = length (es @ rest)" "error_nb z = int (length (filter failed (es @ rest)))"
      "seq_size z = int (length (concat (map (rec_data m) (es @ rest))))"
  shows "\<exists>s'. pack_inv off dv ty m k z dates0 (es @ rest) s' \<and>
     pack_list off dv ty z (int (length dates0)) (int (length es)) rest s = pack_last ty z s'"
  using assms
proof (induction rest arbitrary: es s)
  case (Cons e rest)
  obtain s' where s': "pack_inv off dv ty m k z dates0 (es @ [e]) s'"
     "pack_step off dv ty z (int (length dates0)) (int (length es)) e s = (if rest = [] then pack_last ty z s' else Ok s')"
    using pack_step_inv[OF Cons.prems(1-3) _ Cons.prems(6-8)] Cons.prems(4) by auto
  show ?case
  proof (cases "rest = []")
    case True
    then show ?thesis using s' by auto
  next
    case False
    then show ?thesis using Cons.IH[OF s'(1)] Cons.prems s'(2) by (auto simp: add.commute)
  qed
qed simp


lemma final_value_kind:
  "mode_kind (pack_mode ty) = Some k \<Longrightarrow> final_value ty s = insert_seq (if unsigned_type ty then K_db else k) s"
  by (cases ty) (simp_all add: final_value_def unsigned_type_def)

lemma unsigned_kind: "mode_kind (pack_mode ty) = Some k \<Longrightarrow> unsigned_type ty \<Longrightarrow> k \<noteq> K_db"
  by (auto simp: unsigned_type_def)

lemma final_value_mode:
  assumes "pack_mode ty = m" "mode_kind m = Some k"
  shows "final_value ty s = insert_seq (if unsigned_type ty then K_db else k) s"
    and "unsigned_type ty \<Longrightarrow> k \<noteq> K_db"
  using assms final_value_kind unsigned_kind by blast+

text \<open>What the server sends for the records \<open>es\<close>, newest first.\<close>

definition packs :: "int \<Rightarrow> CmdArgType \<Rightarrow> mode \<Rightarrow> ('v any, 'w) RingElt list \<Rightarrow> 'v any \<Rightarrow> 'v DevCmdHistory_4 \<Rightarrow> bool" where
  "packs off ty m es v h \<longleftrightarrow>
     h4_dates h = rev (map (\<lambda>e. make_TimeVal off (re_when e)) es) \<and> h4_value h = v \<and> h4_cmd_type h = ty \<and>
     (\<exists>len. runs_ok len (h4_dims h) (h4_dims_array h) (expect (int (length es) - 1) (\<lambda>e. Some (rec_dim m e)) es)) \<and>
     (\<exists>len. runs_ok len (h4_errors h) (h4_errors_array h) (expect (int (length es) - 1) re_except es))"

lemma length_errors: "length (expect pos re_except es) = length (filter failed es)"
  unfolding length_expect failed_def[abs_def] ..

lemma pack_last_ok:
  assumes inv: "pack_inv off dv ty m k z dates0 es s" and m: "pack_mode ty = m" "mode_kind m = Some k"
    and all: "length dates0 = length es" "error_nb z = int (length (filter failed es))"
      "seq_size z = int (length (concat (map (rec_data m) es)))"
  shows "\<exists>s'. pack_last ty z s = Ok s' \<and>
     packs off ty m es (if unsigned_type ty \<or> (\<forall>e \<in> set es. failed e) then Any_null
                        else Any_seq k (concat (map (rec_data m) es)))
       ((hs_hist s')\<lparr>h4_errors := er_errors (hs_err s'), h4_errors_array := er_array (hs_err s')\<rparr>)"
proof -
  let ?v = "if unsigned_type ty \<or> (\<forall>e \<in> set es. failed e) then Any_null else Any_seq k (concat (map (rec_data m) es))"
  let ?r = "cut_errors (error_nb z) (hs_err s)"
  have "insert_seq (if unsigned_type ty then K_db else k) s = Ok ?v"
    using inv all(3) final_value_mode(2)[OF m]
    by (cases "hs_new_tmp s k") (auto simp: pack_inv_simps insert_seq_def seq_of_def split: if_splits)
  then have v: "final_value ty s = Ok ?v" using final_value_mode(1)[OF m, of s] by simp
  have E: "errs_inv (length (filter failed es)) (hs_err s) (expect (int (length es) - 1) re_except es)"
    using inv all(1,2) by (simp add: pack_inv_simps)
  have "runs_ok (er_errors_length (hs_err s)) (er_errors ?r) (er_array ?r) (expect (int (length es) - 1) re_except es)"
    using cut_errors_ok[OF E] all(2) by (simp add: length_errors)
  then show ?thesis
    using inv all(1) unfolding pack_last_def Let_def v
    by (auto simp: packs_def pack_inv_simps)
qed

lemma get_cmd_history_4_packs:
  assumes "pr_inv p" "0 < n" "n \<le> pr_nb_elt p" "es = take (nat n) (pr_hist p)" "length dates0 = nat n"
    and "\<forall>e \<in> set es. fits m e" "pack_mode ty = m" "mode_kind m = Some k"
  shows "\<exists>h. get_cmd_history_4 off dv n ty dates0 p = Ok h \<and>
     packs off ty m es (if unsigned_type ty \<or> (\<forall>e \<in> set es. failed e) then Any_null
                        else Any_seq k (concat (map (rec_data m) es))) h"
proof -
  let ?i = "prev_idx (pr_max_elt p) (pr_insert_elt p)"
  obtain z where z: "hist_sizes_of ty n p = Ok z" "error_nb z = int (length (filter failed es))"
      "seq_size z = int (length (concat (map (rec_data m) es)))"
    using hist_sizes_ok[OF assms(1) _ assms(3,4,6,7,8)] assms(2) by auto
  have w: "walk_back (ring p) (pr_max_elt p) ?i (nat n) = es"
    unfolding assms(4) newest_def using nat_mono[OF assms(3)] by (rule walk_back_take)
  have b: "int (length (ring p)) = pr_max_elt p" "0 \<le> ?i" "?i < pr_max_elt p"
    using assms(1) ring_inv_prev[OF assms(1)] by (auto simp: ring_inv_def)
  have len: "length es = nat n" "es \<noteq> []"
    using assms(2,4) nat_mono[OF assms(3)] by (auto simp: min_def)
  have start: "(if pr_insert_elt p = 0 then pr_max_elt p else pr_insert_elt p) - 1 = ?i"
    by (simp add: prev_idx_def)
  have "pack_inv off dv ty m k z dates0 [] (hist4_init ty dates0)" using z(3) by (intro pack_inv_init) simp
  then obtain s where s: "pack_inv off dv ty m k z dates0 es s"
      "pack_list off dv ty z n 0 es (hist4_init ty dates0) = pack_last ty z s"
    using pack_list_inv[of off dv ty m k z dates0 "[]" "hist4_init ty dates0" es] assms len z by auto
  obtain s' where "pack_last ty z s = Ok s'"
    "packs off ty m es (if unsigned_type ty \<or> (\<forall>e \<in> set es. failed e) then Any_null
                        else Any_seq k (concat (map (rec_data m) es)))
       ((hs_hist s')\<lparr>h4_errors := er_errors (hs_err s'), h4_errors_array := er_array (hs_err s')\<rparr>)"
    using pack_last_ok[OF s(1) assms(7,8)] z assms(5) len by auto
  then show ?thesis
    using s(2) unfolding get_cmd_history_4_def z(1) rbind.simps Let_def start pack_loop_walk[OF b] w by simp
qed


subsection \<open>Unpacking\<close>

lemma set_dates_ok:
  "length ds \<le> length rest \<Longrightarrow> set_dates ds (int (length pre)) (pre @ rest) =
     Ok (pre @ map2 (\<lambda>d h. h\<lparr>ddh_time := Some d\<rparr>) ds rest @ drop (length ds) rest)"
proof (induction ds arbitrary: pre rest)
  case (Cons d ds)
  then obtain r rest' where r: "rest = r # rest'" by (cases rest) auto
  have "set_dates ds (int (length (pre @ [r\<lparr>ddh_time := Some d\<rparr>]))) ((pre @ [r\<lparr>ddh_time := Some d\<rparr>]) @ rest') =
     Ok ((pre @ [r\<lparr>ddh_time := Some d\<rparr>]) @ map2 (\<lambda>d h. h\<lparr>ddh_time := Some d\<rparr>) ds rest' @ drop (length ds) rest')"
    using Cons r by (intro Cons.IH) simp
  then show ?case by (simp add: r vec_get_def vec_set_def add.commute)
qed simp

definition rec_view :: "int \<Rightarrow> ('v any, 'w) RingElt \<Rightarrow> 'v DeviceDataHistory" where
  "rec_view off e = \<lparr>ddh_any = (if failed e then None else re_cmd_result e), ddh_fail = failed e,
     ddh_time = Some (make_TimeVal off (re_when e)),
     ddh_err = (case re_except e of None \<Rightarrow> [] | Some errs \<Rightarrow> errs)\<rparr>"

fun create_any :: "mode \<Rightarrow> 'v list \<Rightarrow> int \<Rightarrow> int \<Rightarrow> 'v any result" where
  "create_any (M_simple k) = create_any_scalar k"
| "create_any (M_array k) = create_any_array k"
| "create_any m = (\<lambda>_ _ _. Undef)"

lemma create_any_ok:
  assumes "any_data m a = Some vs"
  shows "create_any m (pre @ vs @ suf) (int (length pre) + int (length vs)) (int (length vs)) = Ok a"
proof (cases m)
  case (M_simple k)
  then obtain v where "a = Any_scalar k v" "vs = [v]" using assms by (cases a) (auto split: if_splits)
  then show ?thesis using M_simple by (simp add: create_any_scalar_def vec_get_def)
next
  case (M_array k)
  then have "a = Any_seq k vs" using assms by (cases a) (auto split: if_splits)
  then show ?thesis using M_array vec_slice_mid[of pre vs suf] by (simp add: create_any_array_def)
qed (use assms in auto)

lemma extract_loop_ok:
  assumes "\<forall>e \<in> set es. fits m e"
  shows "extract_loop (create_any m (concat (map (rec_data m) (rev es)) @ suf))
       (pre @ map (\<lambda>e. Some (rec_dim m e)) es) (int (length pre)) (int (length (concat (map (rec_data m) (rev es)))))
       (map (\<lambda>e. (rec_view off e)\<lparr>ddh_any := None\<rparr>) es) = Ok (map (rec_view off) es)"
  using assms
proof (induction es arbitrary: pre suf)
  case (Cons e es)
  let ?data = "concat (map (rec_data m) (rev es))"
  have IH: "extract_loop (create_any m (?data @ rec_data m e @ suf))
       (pre @ Some (rec_dim m e) # map (\<lambda>e. Some (rec_dim m e)) es) (int (length pre) + 1) (int (length ?data))
       (map (\<lambda>e. (rec_view off e)\<lparr>ddh_any := None\<rparr>) es) = Ok (map (rec_view off) es)"
    using Cons.IH[of "rec_data m e @ suf" "pre @ [Some (rec_dim m e)]"] Cons.prems by (simp add: add.commute)
  have ad: "ad_get (pre @ Some (rec_dim m e) # map (\<lambda>e. Some (rec_dim m e)) es) (int (length pre)) = Ok (rec_dim m e)"
    by (simp add: ad_get_def vec_get_def)
  show ?case
  proof (cases "failed e")
    case True
    then have "rec_data m e = []" "(rec_view off e)\<lparr>ddh_any := None\<rparr> = rec_view off e"
      by (simp_all add: rec_data_failed rec_view_def)
    then show ?thesis using IH ad True by (simp add: rec_view_def)
  next
    case False
    then obtain a where a: "re_cmd_result e = Some a" "any_data m a = Some (rec_data m e)"
      using fits_data[of m e] Cons.prems by auto
    have "create_any m (?data @ rec_data m e @ suf) (int (length ?data) + int (length (rec_data m e)))
        (int (length (rec_data m e))) = Ok a"
      using create_any_ok[OF a(2)] .
    moreover have "(rec_view off e)\<lparr>ddh_any := Some a\<rparr> = rec_view off e" using a False by (simp add: rec_view_def)
    ultimately show ?thesis using IH ad False by (simp add: rec_view_def rec_dim_def)
  qed
qed simp


lemma unpack_packs:
  assumes "packs off ty m es v h"
  shows "unpack_cmd_history h =
     extract_values ty v (map (\<lambda>e. (rec_view off e)\<lparr>ddh_any := None\<rparr>) (rev es)) (map (\<lambda>e. Some (rec_dim m e)) (rev es))"
proof -
  let ?ds = "rev (map (\<lambda>e. make_TimeVal off (re_when e)) es)"
  let ?ddh1 = "map (\<lambda>d. DeviceDataHistory_init\<lparr>ddh_time := Some d\<rparr>) ?ds :: 'a DeviceDataHistory list"
  obtain l1 l2 where r: "runs_ok l1 (h4_dims h) (h4_dims_array h) (expect (int (length es) - 1) (\<lambda>e. Some (rec_dim m e)) es)"
    "runs_ok l2 (h4_errors h) (h4_errors_array h) (expect (int (length es) - 1) re_except es)"
    and h: "h4_dates h = ?ds" "h4_value h = v" "h4_cmd_type h = ty"
    using assms by (auto simp: packs_def)
  have len: "length (h4_dims h) = length (h4_dims_array h)" "length (h4_errors h) = length (h4_errors_array h)"
    using r by (auto simp: runs_ok_def)
  have d: "set_dates ?ds 0 (map (\<lambda>_. DeviceDataHistory_init) ?ds) = Ok ?ddh1"
    using set_dates_ok[of ?ds "map (\<lambda>_. DeviceDataHistory_init) ?ds" "[]"]
    by (simp add: map2_map_map zip_map2 zip_same_conv_map split_def comp_def)
  have "scatter (\<lambda>es r. r\<lparr>ddh_fail := True, ddh_err := es\<rparr>) (h4_errors h) (h4_errors_array h) ?ddh1 =
      Ok (map (\<lambda>e. (rec_view off e)\<lparr>ddh_any := None\<rparr>) (rev es))"
    unfolding scatter_expect[OF r(2), of ?ddh1, simplified]
    by (auto simp: rev_map zip_map2 zip_same_conv_map upd_opt_def rec_view_def failed_def
        DeviceDataHistory_init_def split: option.splits)
  moreover have "dims_of_records h = Ok (map (\<lambda>e. Some (rec_dim m e)) (rev es))"
    unfolding dims_of_records_def h
    using scatter_expect[OF r(1), of "replicate (length ?ds) None" "\<lambda>d _. Some d"]
    by (simp add: upd_opt_def zip_replicate2)
  ultimately show ?thesis
    using len unfolding unpack_cmd_history_def from_hist4_2_DataHistory_def h d by simp
qed

lemma extract_values_kind:
  assumes "mode_kind (pack_mode ty) = Some k" "ty \<noteq> DEVVAR_BOOLEANARRAY"
  shows "extract_values ty value ddh ad = rbind (any_seq k value) (\<lambda>tmp.
     extract_loop (create_any (pack_mode ty) tmp) ad 0 (int (length tmp)) ddh)"
  using assms by (cases ty) (simp_all add: extract_values_def extract_scalar_def extract_array_def)

definition history_ok :: "CmdArgType \<Rightarrow> int \<Rightarrow> TimeVal list \<Rightarrow> ('v any, 'w) PollRing \<Rightarrow> bool" where
  "history_ok ty n dates p \<longleftrightarrow>
     pr_inv p \<and> 0 < n \<and> n \<le> pr_nb_elt p \<and> length dates = nat n \<and>
     (\<forall>e \<in> set (take (nat n) (pr_hist p)). fits (pack_mode ty) e)"

definition transferable :: "CmdArgType \<Rightarrow> int \<Rightarrow> TimeVal list \<Rightarrow> ('v any, 'w) PollRing \<Rightarrow> bool" where
  "transferable ty n dates p \<longleftrightarrow>
     history_ok ty n dates p \<and> mode_kind (pack_mode ty) \<noteq> None \<and>
     \<not> unsigned_type ty \<and> ty \<noteq> DEVVAR_BOOLEANARRAY \<and>
     (\<exists>e \<in> set (take (nat n) (pr_hist p)). \<not> failed e)"

interpretation cmd_hist: history_transfer "transferable ty n dates" "get_cmd_history_4 off dv n ty dates"
  unpack_cmd_history "\<lambda>p. map (rec_view off) (rev (take (nat n) (pr_hist p)))" for ty n dates off dv
proof (unfold_locales, goal_cases)
  case (1 p)
  define es where "es = take (nat n) (pr_hist p)"
  obtain k where k: "mode_kind (pack_mode ty) = Some k" using 1 by (auto simp: transferable_def)
  have f: "\<forall>e \<in> set es. fits (pack_mode ty) e" "\<not> (unsigned_type ty \<or> (\<forall>e \<in> set es. failed e))"
    using 1 by (auto simp: transferable_def history_ok_def es_def)
  have o: "pr_inv p" "0 < n" "n \<le> pr_nb_elt p" "length dates = nat n"
    using 1 by (auto simp: transferable_def history_ok_def)
  obtain h where h: "get_cmd_history_4 off dv n ty dates p = Ok h"
    "packs off ty (pack_mode ty) es (Any_seq k (concat (map (rec_data (pack_mode ty)) es))) h"
    using get_cmd_history_4_packs[OF o(1-3) es_def o(4) f(1) refl k, of off dv] f(2) by auto
  have "unpack_cmd_history h = Ok (map (rec_view off) (rev es))"
    using unpack_packs[OF h(2)] extract_loop_ok[of "rev es" "pack_mode ty" "[]" "[]" off] f(1) 1
    by (simp add: transferable_def extract_values_kind[OF k])
  then show ?case using h(1) by (simp add: es_def)
qed


section \<open>Properties\<close>


definition ex_tv :: TimeVal where
  "ex_tv = \<lparr>tv_sec = 0, tv_usec = 0, tv_nsec = 0\<rparr>"

definition ex_slot :: "(nat any, nat) RingElt" where
  "ex_slot = RingElt_init"

definition ex_error :: "DevError list" where
  "ex_error = [\<lparr>err_reason = ''API_Timeout'', err_desc = ''device timed out'', err_origin = ''dev'', err_severity = ERR\<rparr>]"

definition ex_hist_ring :: "nat any \<Rightarrow> (nat any, nat) PollRing" where
  "ex_hist_ring a = \<lparr>ring = [ex_slot\<lparr>re_except := Some ex_error, re_when := 5\<rparr>,
     ex_slot\<lparr>re_cmd_result := Some a, re_when := 6\<rparr>, ex_slot],
     pr_insert_elt = 2, pr_nb_elt = 2, pr_max_elt = 3\<rparr>"

lemmas ex_ring_simps = ex_hist_ring_def ring_inv_def newest_def prev_idx_def numeral_2_eq_2
  ex_slot_def RingElt_init_def ex_error_def

lemma ex_history_ok:
  "any_data (pack_mode ty) a \<noteq> None \<Longrightarrow> history_ok ty 2 [ex_tv, ex_tv] (ex_hist_ring a)"
  by (simp add: history_ok_def fits_def ex_ring_simps)


text \<open>
  For the unsigned integer types the server fills a sequence and then inserts
  another one, which is never made: the message has no value whatever was recorded,
  and the client goes on with a sequence it did not get.
\<close>

theorem cmd_history_unsigned_lost:
  assumes "history_ok ty n dates p" "unsigned_type ty"
  shows "\<exists>h. get_cmd_history_4 off dv n ty dates p = Ok h \<and> h4_value h = Any_null \<and> unpack_cmd_history h = Undef"
proof -
  obtain k where k: "mode_kind (pack_mode ty) = Some k" "ty \<noteq> DEVVAR_BOOLEANARRAY"
    using assms(2) by (auto simp: unsigned_type_def)
  define es where "es = take (nat n) (pr_hist p)"
  have o: "pr_inv p" "0 < n" "n \<le> pr_nb_elt p" "length dates = nat n" "\<forall>e \<in> set es. fits (pack_mode ty) e"
    using assms(1) by (auto simp: history_ok_def es_def)
  obtain h where h: "get_cmd_history_4 off dv n ty dates p = Ok h" "packs off ty (pack_mode ty) es Any_null h"
    using get_cmd_history_4_packs[OF o(1-3) es_def o(4,5) refl k(1), of off dv] assms(2) by auto
  then show ?thesis
    using unpack_packs[OF h(2)] by (auto simp: packs_def extract_values_kind[OF k])
qed

theorem cmd_history_unsigned_lost_witness:
  "\<exists>h. get_cmd_history_4 0 0 2 DEV_ULONG [ex_tv, ex_tv] (ex_hist_ring (Any_scalar K_ulg 7)) = Ok h \<and>
     h4_value h = Any_null \<and> unpack_cmd_history h = Undef"
  using ex_history_ok[of DEV_ULONG "Any_scalar K_ulg 7"]
  by (intro cmd_history_unsigned_lost) (simp_all add: unsigned_type_def)

text \<open>
  The client has no label for arrays of booleans: the server packs them, the
  dates and errors arrive, and every record is left without its result.
\<close>

theorem cmd_history_boolean_array_dropped:
  assumes "history_ok DEVVAR_BOOLEANARRAY n dates p"
  shows "\<exists>h. get_cmd_history_4 off dv n DEVVAR_BOOLEANARRAY dates p = Ok h \<and>
     unpack_cmd_history h =
       Ok (map (\<lambda>e. (rec_view off e)\<lparr>ddh_any := None\<rparr>) (rev (take (nat n) (pr_hist p))))"
proof -
  define es where "es = take (nat n) (pr_hist p)"
  have o: "pr_inv p" "0 < n" "n \<le> pr_nb_elt p" "length dates = nat n" "\<forall>e \<in> set es. fits (M_array K_boo) e"
    using assms by (auto simp: history_ok_def es_def)
  obtain h v where h: "get_cmd_history_4 off dv n DEVVAR_BOOLEANARRAY dates p = Ok h"
    "packs off DEVVAR_BOOLEANARRAY (M_array K_boo) es v h"
    using get_cmd_history_4_packs[OF o(1-3) es_def o(4,5), of DEVVAR_BOOLEANARRAY K_boo off dv] by auto
  then show ?thesis
    using unpack_packs[OF h(2)] by (simp add: extract_values_def es_def)
qed

theorem cmd_history_boolean_array_dropped_witness:
  "\<exists>h. get_cmd_history_4 0 0 2 DEVVAR_BOOLEANARRAY [ex_tv, ex_tv] (ex_hist_ring (Any_seq K_boo [1])) = Ok h \<and>
     unpack_cmd_history h =
       Ok (map (\<lambda>e. (rec_view 0 e)\<lparr>ddh_any := None\<rparr>) (rev (take (nat 2) (pr_hist (ex_hist_ring (Any_seq K_boo [1]))))))"
  using ex_history_ok[of DEVVAR_BOOLEANARRAY "Any_seq K_boo [1]"]
  by (intro cmd_history_boolean_array_dropped) simp


text \<open>
  When every record failed there is no global sequence, so the message has no
  value; the client still extracts a sequence from it and uses what it did not get.
\<close>

theorem cmd_history_all_failed:
  assumes "history_ok ty n dates p" "mode_kind (pack_mode ty) \<noteq> None" "ty \<noteq> DEVVAR_BOOLEANARRAY"
    and "\<forall>e \<in> set (take (nat n) (pr_hist p)). failed e"
  shows "\<exists>h. get_cmd_history_4 off dv n ty dates p = Ok h \<and> h4_value h = Any_null \<and> unpack_cmd_history h = Undef"
proof -
  obtain k where k: "mode_kind (pack_mode ty) = Some k" using assms(2) by auto
  define es where "es = take (nat n) (pr_hist p)"
  have o: "pr_inv p" "0 < n" "n \<le> pr_nb_elt p" "length dates = nat n" "\<forall>e \<in> set es. fits (pack_mode ty) e"
    using assms(1) by (auto simp: history_ok_def es_def)
  obtain h where h: "get_cmd_history_4 off dv n ty dates p = Ok h" "packs off ty (pack_mode ty) es Any_null h"
    using get_cmd_history_4_packs[OF o(1-3) es_def o(4,5) refl k, of off dv] assms(4) by (auto simp: es_def)
  then show ?thesis
    using unpack_packs[OF h(2)] by (auto simp: packs_def extract_values_kind[OF k assms(3)])
qed

theorem cmd_history_all_failed_witness:
  "\<exists>h. get_cmd_history_4 0 0 1 DEV_SHORT [ex_tv]
       (\<lparr>ring = [ex_slot\<lparr>re_except := Some ex_error\<rparr>], pr_insert_elt = 0, pr_nb_elt = 1, pr_max_elt = 1\<rparr>
         :: (nat any, nat) PollRing) = Ok h \<and>
     h4_value h = Any_null \<and> unpack_cmd_history h = Undef"
  by (rule cmd_history_all_failed)
     (simp_all add: history_ok_def fits_def failed_def ex_ring_simps)

text \<open>
  Commands whose result type is not supported (a state, an unsigned character,
  nothing at all, or an enumeration, state or encoded array) report it as soon as
  the newest record has a result.
\<close>

theorem cmd_history_unhandled_type:
  assumes "pr_inv p" "0 < n" "n \<le> pr_nb_elt p" "length dates = nat n" "pack_mode ty = M_none"
    and "re_except (hd (pr_hist p)) = None" "re_cmd_result (hd (pr_hist p)) = Some a"
  shows "get_cmd_history_4 off dv n ty dates p = Throw (DevFailed ''API_CmdArgumentTypeNotSupported''
     (''Unhandled command argument type '' @ data_type_to_string ty))"
proof -
  let ?i = "prev_idx (pr_max_elt p) (pr_insert_elt p)"
  have start: "(if pr_insert_elt p = 0 then pr_max_elt p else pr_insert_elt p) - 1 = ?i"
    by (simp add: prev_idx_def)
  have b: "int (length (ring p)) = pr_max_elt p" "0 \<le> ?i" "?i < pr_max_elt p"
    using assms(1) ring_inv_prev[OF assms(1)] by (auto simp: ring_inv_def)
  obtain j where j: "nat n = Suc j" using assms(2) by (cases "nat n") auto
  obtain l where l: "nat (pr_nb_elt p) = Suc l" using assms(2,3) by (cases "nat (pr_nb_elt p)") auto
  have hd: "hd (pr_hist p) = ring p ! nat ?i" using l by (simp add: newest_def)
  have g: "vec_get (ring p) ?i = Ok (ring p ! nat ?i)" "slot_any (ring p ! nat ?i) = Ok a" "re_except (ring p ! nat ?i) = None"
    using b assms(6,7) unfolding hd by (auto simp: vec_get_in slot_any_def)
  have dr: "\<And>z st s. data_record dv ty z st a s = unhandled ty"
    using assms(5) by (cases ty) (simp_all add: data_record_def)
  have simple: "\<And>z. \<exists>z'. sizes_list ty es z = Ok z'" if "simple_type ty" for es :: "('a any, 'b) RingElt list"
    using that by (induction es) (auto simp: record_sizes_def)
  show ?thesis
  proof (cases "simple_type ty")
    case True
    then obtain z where "hist_sizes_of ty n p = Ok z"
      using simple[OF True] unfolding hist_sizes_of_def start Let_def sizes_loop_walk[OF b] by (metis rbind.simps(1))
    moreover obtain s1 where "pack_date off n 0 (ring p ! nat ?i) (hist4_init ty dates) = Ok s1"
      using assms(2,4) by (auto simp: pack_date_def hist4_init_def vec_set_in Let_def)
    ultimately show ?thesis
      unfolding get_cmd_history_4_def start j
      by (simp add: g pack_step_def pack_record_def dr unhandled_def)
  next
    case False
    then have "array_sizes ty a z = unhandled ty" for z
      using assms(5) by (cases ty) (simp_all add: array_sizes_def simple_type_def)
    then show ?thesis
      unfolding get_cmd_history_4_def hist_sizes_of_def start j
      using False by (simp add: g record_sizes_def unhandled_def)
  qed
qed

theorem cmd_history_unhandled_type_witness:
  "get_cmd_history_4 0 0 2 DEV_STATE [ex_tv, ex_tv] (ex_hist_ring (Any_scalar K_state 1)) =
     Throw (DevFailed ''API_CmdArgumentTypeNotSupported''
       (''Unhandled command argument type '' @ data_type_to_string DEV_STATE))"
  by (rule cmd_history_unhandled_type[where a = "Any_scalar K_state 1"]) (simp_all add: ex_ring_simps)


lemma add_elt_data_fill: "add_elt_data xs 0 (replicate (length xs) dv) = Ok xs"
  using add_elt_data_ok[of xs "replicate (length xs) dv" "[]"] by simp

text \<open>
  For the pair types the client advances in the dimensions only for records with
  data, so a failed record before a record with data shifts them: the data of the
  newest of two records are lost when the older one failed.
\<close>

theorem cmd_history_pair_shifted:
  assumes "pr_inv p" "pr_nb_elt p = 2" "pr_hist p = [e1, e0]" "length dates = 2"
    and "re_except e1 = None" "re_cmd_result e1 = Some (Any_lg_str sv lv)" "sv \<noteq> [] \<or> lv \<noteq> []"
    and "re_except e0 = Some errs"
  shows "\<exists>h r0 r1. get_cmd_history_4 off dv 2 DEVVAR_LONGSTRINGARRAY dates p = Ok h \<and>
     h4_value h = Any_lg_str sv lv \<and> unpack_cmd_history h = Ok [r0, r1] \<and>
     ddh_fail r0 \<and> \<not> ddh_fail r1 \<and> ddh_any r1 = Some (Any_lg_str [] [])"
proof -
  let ?i = "prev_idx (pr_max_elt p) (pr_insert_elt p)"
  let ?t1 = "make_TimeVal off (re_when e1)" and ?t0 = "make_TimeVal off (re_when e0)"
  let ?d = "\<lparr>dim_x = int (length sv), dim_y = int (length lv)\<rparr>" and ?z = "\<lparr>dim_x = 0, dim_y = 0\<rparr>"
  let ?h = "\<lparr>h4_dates = [?t0, ?t1], h4_value = Any_lg_str sv lv, h4_dims = [?d, ?z],
     h4_dims_array = [\<lparr>start = 1, eia_nb_elt = 1\<rparr>, \<lparr>start = 0, eia_nb_elt = 1\<rparr>],
     h4_errors = [errs], h4_errors_array = [\<lparr>start = 0, eia_nb_elt = 1\<rparr>],
     h4_cmd_type = DEVVAR_LONGSTRINGARRAY\<rparr>"
  have start: "(if pr_insert_elt p = 0 then pr_max_elt p else pr_insert_elt p) - 1 = ?i"
    by (simp add: prev_idx_def)
  have b: "int (length (ring p)) = pr_max_elt p" "0 \<le> ?i" "?i < pr_max_elt p"
    using assms(1) ring_inv_prev[OF assms(1)] by (auto simp: ring_inv_def)
  have w: "walk_back (ring p) (pr_max_elt p) ?i (nat 2) = [e1, e0]" using assms(2,3) by (simp add: newest_def)
  obtain d0 d1 where ds: "dates = [d0, d1]" using assms(4) by (auto simp: length_Suc_conv numeral_2_eq_2)
  have z: "hist_sizes_of DEVVAR_LONGSTRINGARRAY 2 p = Ok \<lparr>seq_size = 0, seq_str_size = int (length sv),
      seq_number_size = int (length lv), error_nb = 1\<rparr>"
    unfolding hist_sizes_of_def start Let_def sizes_loop_walk[OF b] w
    using assms(5,6,8) by (simp add: record_sizes_def simple_type_def slot_any_def array_sizes_def)
  have "get_cmd_history_4 off dv 2 DEVVAR_LONGSTRINGARRAY dates p = Ok ?h"
    unfolding get_cmd_history_4_def z rbind.simps Let_def start pack_loop_walk[OF b] w ds
    using assms(5-8)
    by (auto simp: pack_step_def pack_date_def pack_record_def hist4_init_def vec_set_def slot_any_def
        data_record_def put_lg_str_def add_pair_data_def add_elt_data_fill manage_dim_array_seq_def
        manage_dim_def open_run_def seq_length_def error_record_def add_error_def is_new_err_def
        err_runs_init_def pack_last_def final_value_def cut_errors_def)
  moreover have "unpack_cmd_history ?h = Ok
     [DeviceDataHistory_init\<lparr>ddh_time := Some ?t0, ddh_fail := True, ddh_err := errs\<rparr>,
      DeviceDataHistory_init\<lparr>ddh_time := Some ?t1, ddh_any := Some (Any_lg_str [] [])\<rparr>]"
    by (simp add: unpack_cmd_history_def from_hist4_2_DataHistory_def vec_get_def vec_set_def
        dims_of_records_def extract_values_def extract_lg_str_def ad_get_def vec_slice_def
        DeviceDataHistory_init_def numeral_2_eq_2)
  ultimately show ?thesis by (simp add: DeviceDataHistory_init_def)
qed

theorem cmd_history_pair_shifted_witness:
  "\<exists>h r0 r1. get_cmd_history_4 0 0 2 DEVVAR_LONGSTRINGARRAY [ex_tv, ex_tv] (ex_hist_ring (Any_lg_str [1] [2, 3])) = Ok h \<and>
     h4_value h = Any_lg_str [1] [2, 3] \<and> unpack_cmd_history h = Ok [r0, r1] \<and>
     ddh_fail r0 \<and> \<not> ddh_fail r1 \<and> ddh_any r1 = Some (Any_lg_str [] [])"
  by (rule cmd_history_pair_shifted[where errs = ex_error
        and ?e1.0 = "ex_slot\<lparr>re_cmd_result := Some (Any_lg_str [1] [2, 3]), re_when := 6\<rparr>"
        and ?e0.0 = "ex_slot\<lparr>re_except := Some ex_error, re_when := 5\<rparr>"])
     (simp_all add: ex_ring_simps)

end
