(* ===== verification/Attr_History.thy ===== *)
theory Attr_History
  imports Cmd_History
begin

text \<open>
  The history of a polled attribute since interface release 4: the server side
  (\<open>PollRing::get_attr_history\<close> of \<open>pollring_templ.h\<close>, one template for the releases 4
  and 5) and the client side (\<open>from_hist_2_AttHistory\<close> and \<open>extract_value\<close> of
  \<open>devapi_base.cpp\<close>). Beside the errors and the data, the qualities and the read and
  written dimensions are sent as runs. The attribute value union is an \<open>any\<close>: a
  sequence, or a scalar for the device state.
\<close>

section \<open>Data\<close>

record 'v DevAttrHistory =
  ha_name :: string
  ha_dates :: "TimeVal list"
  ha_value :: "'v any"
  ha_quals :: "AttrQuality list"
  ha_quals_array :: "EltInArray list"
  ha_r_dims :: "AttributeDim list"
  ha_r_dims_array :: "EltInArray list"
  ha_w_dims :: "AttributeDim list"
  ha_w_dims_array :: "EltInArray list"
  ha_errors :: "DevError list list"
  ha_errors_array :: "EltInArray list"

text \<open>A run-length sequence under construction, with its length counter and its last value.\<close>

record 'd runs =
  rl_vals :: "'d list"
  rl_array :: "EltInArray list"
  rl_length :: int
  rl_last :: 'd

definition runs_init :: "'d \<Rightarrow> 'd runs" where
  "runs_init d = \<lparr>rl_vals = [], rl_array = [], rl_length = 1, rl_last = d\<rparr>"

definition run_put :: "bool \<Rightarrow> int \<Rightarrow> 'd \<Rightarrow> 'd runs \<Rightarrow> 'd runs result" where
  "run_put joins st d r =
     (if joins then
        rbind (extend_run (rl_length r) (rl_array r)) (\<lambda>arr. Ok (r\<lparr>rl_array := arr\<rparr>))
      else
        rbind (open_run (rl_length r) st d (rl_vals r) (rl_array r)) (\<lambda>(vals, arr).
          Ok \<lparr>rl_vals = vals, rl_array = arr, rl_length = rl_length r + 1, rl_last = d\<rparr>))"


section \<open>Server\<close>

text \<open>The value of the release the ring is taken to hold.\<close>

definition slot_attr :: "bool \<Rightarrow> ('c, 'v) RingElt \<Rightarrow> 'v AttributeValue result" where
  "slot_attr idl5 e = first_value (if \<not> idl5 then re_attr_value_4 e else re_attr_value_5 e)"

definition dims_data_length :: "AttributeDim \<Rightarrow> AttributeDim \<Rightarrow> int" where
  "dims_data_length r w =
     (if dim_y r = 0 then dim_x r else dim_x r * dim_y r) +
     (if dim_y w = 0 then dim_x w else dim_x w * dim_y w)"

definition attr_data_length :: "'v AttributeValue \<Rightarrow> int" where
  "attr_data_length v = dims_data_length (av_r_dim v) (av_w_dim v)"

text \<open>The loop that adds up the data and counts the errors.\<close>

primrec attr_sizes_loop ::
  "bool \<Rightarrow> ('c, 'v) PollRing \<Rightarrow> int \<Rightarrow> nat \<Rightarrow> int \<Rightarrow> int \<Rightarrow> (int \<times> int) result" where
  "attr_sizes_loop idl5 p index 0 sz nb = Ok (sz, nb)"
| "attr_sizes_loop idl5 p index (Suc k) sz nb =
     rbind (vec_get (ring p) index) (\<lambda>e.
       let index' = (if index = 0 then pr_max_elt p else index) - 1 in
       if re_except e = None then
         rbind (slot_attr idl5 e) (\<lambda>v.
           attr_sizes_loop idl5 p index' k (sz + attr_data_length v) nb)
       else attr_sizes_loop idl5 p index' k sz (nb + 1))"

record 'v attr_state =
  as_dates :: "TimeVal list"
  as_value :: "'v any"
  as_quals :: "AttrQuality runs"
  as_r_dims :: "AttributeDim runs"
  as_w_dims :: "AttributeDim runs"
  as_err :: err_runs
  as_no_data :: bool
  as_new_tmp :: "seq_kind \<Rightarrow> 'v list option"
  as_ind_in_seq :: int

definition attr_date :: "int \<Rightarrow> bool \<Rightarrow> ('c, 'v) RingElt \<Rightarrow> TimeVal result" where
  "attr_date off idl5 e =
     (if re_except e = None then
        rbind (slot_attr idl5 e) (\<lambda>v. Ok \<lparr>tv_sec = tv_sec (av_time v), tv_usec = tv_usec (av_time v), tv_nsec = 0\<rparr>)
      else Ok ((make_TimeVal off (re_when e))\<lparr>tv_nsec := 0\<rparr>))"

text \<open>Quality and dimensions of a record that was read.\<close>

definition put_props :: "int \<Rightarrow> 'v AttributeValue \<Rightarrow> 'x attr_state \<Rightarrow> 'x attr_state result" where
  "put_props st v s =
     rbind (run_put (\<not> (rl_length (as_quals s) = 1 \<or> av_quality v \<noteq> rl_last (as_quals s))) st
              (av_quality v) (as_quals s)) (\<lambda>q.
     rbind (run_put (dim_x (av_r_dim v) = dim_x (rl_last (as_r_dims s)) \<and>
                     dim_y (av_r_dim v) = dim_y (rl_last (as_r_dims s))) st (av_r_dim v) (as_r_dims s)) (\<lambda>r.
     rbind (run_put (dim_x (av_w_dim v) = dim_x (rl_last (as_w_dims s)) \<and>
                     dim_y (av_w_dim v) = dim_y (rl_last (as_w_dims s))) st (av_w_dim v) (as_w_dims s)) (\<lambda>w.
       Ok (s\<lparr>as_quals := q, as_r_dims := r, as_w_dims := w, as_no_data := (rl_last q = ATTR_INVALID)\<rparr>))))"

text \<open>
  A failed record: its error stack, an invalid quality and zero dimensions. The flag
  \<open>previous_no_data\<close> is the \<open>no_data\<close> of the record before, which is also set by a
  record of invalid quality.
\<close>

definition put_failure :: "int \<Rightarrow> int \<Rightarrow> bool \<Rightarrow> DevError list \<Rightarrow> 'x attr_state \<Rightarrow> 'x attr_state result" where
  "put_failure nb st previous_no_data errs s =
     rbind (add_error nb st previous_no_data errs (as_err s)) (\<lambda>er.
     rbind (run_put (\<not> (rl_length (as_quals s) = 1 \<or> rl_last (as_quals s) \<noteq> ATTR_INVALID)) st
              ATTR_INVALID (as_quals s)) (\<lambda>q.
     rbind (run_put (dim_x (rl_last (as_r_dims s)) = 0 \<and> dim_y (rl_last (as_r_dims s)) = 0) st
              \<lparr>dim_x = 0, dim_y = 0\<rparr> (as_r_dims s)) (\<lambda>r.
     rbind (run_put (dim_x (rl_last (as_w_dims s)) = 0 \<and> dim_y (rl_last (as_w_dims s)) = 0) st
              \<lparr>dim_x = 0, dim_y = 0\<rparr> (as_w_dims s)) (\<lambda>w.
       Ok (s\<lparr>as_err := er, as_quals := q, as_r_dims := r, as_w_dims := w, as_no_data := True\<rparr>)))))"

definition put_seq :: "'v \<Rightarrow> int \<Rightarrow> seq_kind \<Rightarrow> 'v any \<Rightarrow> 'v attr_state \<Rightarrow> 'v attr_state result" where
  "put_seq dv sz k a s =
     rbind (any_seq k a) (\<lambda>vs.
     rbind (add_elt_data vs (as_ind_in_seq s) (seq_of dv sz (as_new_tmp s k))) (\<lambda>glob.
       Ok (s\<lparr>as_new_tmp := (as_new_tmp s)(k := Some glob),
             as_ind_in_seq := as_ind_in_seq s + int (length vs)\<rparr>)))"

definition put_state :: "'v \<Rightarrow> int \<Rightarrow> 'v any \<Rightarrow> 'v attr_state \<Rightarrow> 'v attr_state result" where
  "put_state dv sz a s =
     rbind (any_scalar K_state a) (\<lambda>v.
     rbind (vec_set (seq_of dv sz (as_new_tmp s K_state)) (as_ind_in_seq s) v) (\<lambda>glob.
       Ok (s\<lparr>as_new_tmp := (as_new_tmp s)(K_state := Some glob), as_ind_in_seq := as_ind_in_seq s + 1\<rparr>)))"

text \<open>
  The data switch. The state read as an attribute is passed with the type \<open>DEV_VOID\<close>;
  a type without a label is not copied.
\<close>

definition put_data :: "'v \<Rightarrow> int \<Rightarrow> CmdArgType \<Rightarrow> 'v any \<Rightarrow> 'v attr_state \<Rightarrow> 'v attr_state result" where
  "put_data dv sz ty a s =
     (case ty of
        DEV_SHORT \<Rightarrow> put_seq dv sz K_sh a s
      | DEV_ENUM \<Rightarrow> put_seq dv sz K_sh a s
      | DEV_DOUBLE \<Rightarrow> put_seq dv sz K_db a s
      | DEV_LONG \<Rightarrow> put_seq dv sz K_lg a s
      | DEV_LONG64 \<Rightarrow> put_seq dv sz K_lg64 a s
      | DEV_STRING \<Rightarrow> put_seq dv sz K_str a s
      | DEV_FLOAT \<Rightarrow> put_seq dv sz K_fl a s
      | DEV_BOOLEAN \<Rightarrow> put_seq dv sz K_boo a s
      | DEV_USHORT \<Rightarrow> put_seq dv sz K_ush a s
      | DEV_UCHAR \<Rightarrow> put_seq dv sz K_uch a s
      | DEV_ULONG \<Rightarrow> put_seq dv sz K_ulg a s
      | DEV_ULONG64 \<Rightarrow> put_seq dv sz K_ulg64 a s
      | DEV_STATE \<Rightarrow> put_seq dv sz K_state a s
      | DEV_VOID \<Rightarrow> put_state dv sz a s
      | DEV_ENCODED \<Rightarrow> put_seq dv sz K_enc a s
      | _ \<Rightarrow> Ok s)"

definition attr_insert_seq :: "seq_kind \<Rightarrow> 'v attr_state \<Rightarrow> 'v any" where
  "attr_insert_seq k s = (case as_new_tmp s k of None \<Rightarrow> as_value s | Some xs \<Rightarrow> Any_seq k xs)"

definition attr_final_value :: "CmdArgType \<Rightarrow> 'v attr_state \<Rightarrow> 'v any" where
  "attr_final_value ty s =
     (case ty of
        DEV_SHORT \<Rightarrow> attr_insert_seq K_sh s
      | DEV_ENUM \<Rightarrow> attr_insert_seq K_sh s
      | DEV_DOUBLE \<Rightarrow> attr_insert_seq K_db s
      | DEV_LONG \<Rightarrow> attr_insert_seq K_lg s
      | DEV_LONG64 \<Rightarrow> attr_insert_seq K_lg64 s
      | DEV_STRING \<Rightarrow> attr_insert_seq K_str s
      | DEV_FLOAT \<Rightarrow> attr_insert_seq K_fl s
      | DEV_BOOLEAN \<Rightarrow> attr_insert_seq K_boo s
      | DEV_USHORT \<Rightarrow> attr_insert_seq K_ush s
      | DEV_UCHAR \<Rightarrow> attr_insert_seq K_uch s
      | DEV_ULONG \<Rightarrow> attr_insert_seq K_ulg s
      | DEV_ULONG64 \<Rightarrow> attr_insert_seq K_ulg64 s
      | DEV_ENCODED \<Rightarrow> attr_insert_seq K_enc s
      | DEV_STATE \<Rightarrow> attr_insert_seq K_state s
      | DEV_VOID \<Rightarrow> attr_insert_seq K_state s
      | _ \<Rightarrow> as_value s)"

definition attr_record ::
  "'v \<Rightarrow> CmdArgType \<Rightarrow> bool \<Rightarrow> int \<Rightarrow> int \<Rightarrow> int \<Rightarrow> bool \<Rightarrow> ('c, 'v any) RingElt \<Rightarrow> 'v attr_state \<Rightarrow>
   'v attr_state result" where
  "attr_record dv ty idl5 sz nb st previous_no_data e s =
     (case re_except e of
        Some errs \<Rightarrow> put_failure nb st previous_no_data errs s
      | None \<Rightarrow>
          rbind (slot_attr idl5 e) (\<lambda>v.
          rbind (put_props st v s) (\<lambda>s'.
            if \<not> as_no_data s' then put_data dv sz ty (av_value v) s' else Ok s')))"

text \<open>After the oldest record: the error sequences are cut, the data go into the value.\<close>

definition attr_close :: "CmdArgType \<Rightarrow> int \<Rightarrow> 'v attr_state \<Rightarrow> 'v attr_state" where
  "attr_close ty nb s = s\<lparr>as_err := cut_errors nb (as_err s), as_value := attr_final_value ty s\<rparr>"

definition attr_step ::
  "int \<Rightarrow> 'v \<Rightarrow> CmdArgType \<Rightarrow> bool \<Rightarrow> int \<Rightarrow> int \<Rightarrow> int \<Rightarrow> int \<Rightarrow> ('c, 'v any) RingElt \<Rightarrow> 'v attr_state \<Rightarrow>
   'v attr_state result" where
  "attr_step off dv ty idl5 sz nb n i e s =
     rbind (attr_date off idl5 e) (\<lambda>d.
     rbind (vec_set (as_dates s) (n - 1 - i) d) (\<lambda>dates.
     rbind (attr_record dv ty idl5 sz nb (n - (i + 1)) (as_no_data s) e
              (s\<lparr>as_dates := dates, as_no_data := False\<rparr>)) (\<lambda>s'.
       Ok (if i = n - 1 then attr_close ty nb s' else s'))))"

primrec attr_loop ::
  "int \<Rightarrow> 'v \<Rightarrow> CmdArgType \<Rightarrow> bool \<Rightarrow> int \<Rightarrow> int \<Rightarrow> int \<Rightarrow> ('c, 'v any) PollRing \<Rightarrow> int \<Rightarrow> int \<Rightarrow> nat \<Rightarrow>
   'v attr_state \<Rightarrow> 'v attr_state result" where
  "attr_loop off dv ty idl5 sz nb n p index i 0 s = Ok s"
| "attr_loop off dv ty idl5 sz nb n p index i (Suc k) s =
     rbind (vec_get (ring p) index) (\<lambda>e.
     rbind (attr_step off dv ty idl5 sz nb n i e s) (\<lambda>s'.
       let index = (if index = 0 then pr_max_elt p else index) - 1
       in attr_loop off dv ty idl5 sz nb n p index (i + 1) k s'))"

definition attr_init :: "TimeVal list \<Rightarrow> 'v attr_state" where
  "attr_init dates =
     \<lparr>as_dates = dates, as_value = Any_null, as_quals = runs_init ATTR_VALID,
      as_r_dims = runs_init \<lparr>dim_x = -1, dim_y = -1\<rparr>, as_w_dims = runs_init \<lparr>dim_x = -1, dim_y = -1\<rparr>,
      as_err = err_runs_init, as_no_data = True, as_new_tmp = (\<lambda>_. None), as_ind_in_seq = 0\<rparr>"

text \<open>
  The interface release is read off the newest slot: release 5 if it holds no value
  of release 4.
\<close>

definition get_attr_history ::
  "int \<Rightarrow> 'v \<Rightarrow> string \<Rightarrow> int \<Rightarrow> CmdArgType \<Rightarrow> TimeVal list \<Rightarrow> ('c, 'v any) PollRing \<Rightarrow> 'v DevAttrHistory result" where
  "get_attr_history off dv name n ty dates p =
     (let index = (if pr_insert_elt p = 0 then pr_max_elt p else pr_insert_elt p) - 1 in
      rbind (vec_get (ring p) index) (\<lambda>e0.
        let idl5 = (re_attr_value_4 e0 = None) in
        rbind (attr_sizes_loop idl5 p index (nat n) 0 0) (\<lambda>(sz, nb).
        rbind (attr_loop off dv ty idl5 sz nb n p index 0 (nat n) (attr_init dates)) (\<lambda>s.
          Ok \<lparr>ha_name = name, ha_dates = as_dates s, ha_value = as_value s,
              ha_quals = rl_vals (as_quals s), ha_quals_array = rl_array (as_quals s),
              ha_r_dims = rl_vals (as_r_dims s), ha_r_dims_array = rl_array (as_r_dims s),
              ha_w_dims = rl_vals (as_w_dims s), ha_w_dims_array = rl_array (as_w_dims s),
              ha_errors = er_errors (as_err s), ha_errors_array = er_array (as_err s)\<rparr>))))"


section \<open>Client\<close>

record 'v DeviceAttributeHistory =
  dah_name :: string
  dah_time :: TimeVal
  dah_quality :: AttrQuality
  dah_r_dim :: AttributeDim
  dah_w_dim :: AttributeDim
  dah_fail :: bool
  dah_err_list :: "DevError list"
  dah_seq :: "(seq_kind \<times> 'v list) option"

definition DeviceAttributeHistory_init :: "'v DeviceAttributeHistory" where
  "DeviceAttributeHistory_init =
     \<lparr>dah_name = ''Name not set'', dah_time = \<lparr>tv_sec = 0, tv_usec = 0, tv_nsec = 0\<rparr>,
      dah_quality = ATTR_INVALID, dah_r_dim = \<lparr>dim_x = 0, dim_y = 0\<rparr>, dah_w_dim = \<lparr>dim_x = 0, dim_y = 0\<rparr>,
      dah_fail = False, dah_err_list = [], dah_seq = None\<rparr>"

primrec set_dates_names ::
  "string \<Rightarrow> TimeVal list \<Rightarrow> int \<Rightarrow> 'v DeviceAttributeHistory list \<Rightarrow> 'v DeviceAttributeHistory list result" where
  "set_dates_names name [] loop ddh = Ok ddh"
| "set_dates_names name (d # ds) loop ddh =
     rbind (vec_get ddh loop) (\<lambda>h.
     rbind (vec_set ddh loop (h\<lparr>dah_time := d, dah_name := name\<rparr>)) (set_dates_names name ds (loop + 1)))"

text \<open>
  The data of a record: the part of the sequence that ends at \<open>base\<close>. Records that
  failed or have an invalid quality have none.
\<close>

fun extract_attr_loop ::
  "seq_kind \<Rightarrow> 'v list \<Rightarrow> int \<Rightarrow> 'v DeviceAttributeHistory list \<Rightarrow> 'v DeviceAttributeHistory list result" where
  "extract_attr_loop k tmp base [] = Ok []"
| "extract_attr_loop k tmp base (h # hs) =
     (if dah_fail h \<or> dah_quality h = ATTR_INVALID then
        rbind (extract_attr_loop k tmp base hs) (\<lambda>hs'. Ok (h # hs'))
      else
        (let data_length = dims_data_length (dah_r_dim h) (dah_w_dim h) in
         rbind (vec_slice tmp (base - data_length) data_length) (\<lambda>vs.
         rbind (extract_attr_loop k tmp (base - data_length) hs) (\<lambda>hs'.
           Ok (h\<lparr>dah_seq := Some (k, vs)\<rparr> # hs')))))"

text \<open>An \<open>Any\<close> that holds a sequence of any of the kinds; another content is not a sequence type.\<close>

fun extract_attr_values :: "'v any \<Rightarrow> 'v DeviceAttributeHistory list \<Rightarrow> 'v DeviceAttributeHistory list result" where
  "extract_attr_values Any_null ddh = Ok ddh"
| "extract_attr_values (Any_seq k tmp) ddh = extract_attr_loop k tmp (int (length tmp)) ddh"
| "extract_attr_values a ddh = Undef"

definition from_hist_2_AttHistory ::
  "'v DevAttrHistory \<Rightarrow> 'v DeviceAttributeHistory list \<Rightarrow> 'v DeviceAttributeHistory list result" where
  "from_hist_2_AttHistory h ddh =
     (if length (ha_quals h) \<noteq> length (ha_quals_array h) \<or> length (ha_r_dims h) \<noteq> length (ha_r_dims_array h) \<or>
         length (ha_w_dims h) \<noteq> length (ha_w_dims_array h) \<or> length (ha_errors h) \<noteq> length (ha_errors_array h) then
        Throw (DevFailed ''API_WrongHistoryDataBuffer'' ''Data buffer received from server is not valid !'')
      else
        rbind (set_dates_names (ha_name h) (ha_dates h) 0 ddh) (\<lambda>ddh1.
        rbind (scatter (\<lambda>q r. r\<lparr>dah_quality := q\<rparr>) (ha_quals h) (ha_quals_array h) ddh1) (\<lambda>ddh2.
        rbind (scatter (\<lambda>d r. r\<lparr>dah_r_dim := d\<rparr>) (ha_r_dims h) (ha_r_dims_array h) ddh2) (\<lambda>ddh3.
        rbind (scatter (\<lambda>d r. r\<lparr>dah_w_dim := d\<rparr>) (ha_w_dims h) (ha_w_dims_array h) ddh3) (\<lambda>ddh4.
        rbind (scatter (\<lambda>es r. r\<lparr>dah_fail := True, dah_err_list := es\<rparr>) (ha_errors h) (ha_errors_array h) ddh4)
          (\<lambda>ddh5. extract_attr_values (ha_value h) ddh5))))))"

text \<open>
  \<open>DeviceProxy::attribute_history\<close> makes one empty record for each date of the reply. (For
  release 5 it copies the data type of the reply to every record afterwards.)
\<close>

definition unpack_attr_history :: "'v DevAttrHistory \<Rightarrow> 'v DeviceAttributeHistory list result" where
  "unpack_attr_history h =
     from_hist_2_AttHistory h (map (\<lambda>_. DeviceAttributeHistory_init) (ha_dates h))"


section \<open>What a record shows\<close>

fun attr_mode :: "CmdArgType \<Rightarrow> mode" where
  "attr_mode DEV_SHORT = M_array K_sh"
| "attr_mode DEV_ENUM = M_array K_sh"
| "attr_mode DEV_DOUBLE = M_array K_db"
| "attr_mode DEV_LONG = M_array K_lg"
| "attr_mode DEV_LONG64 = M_array K_lg64"
| "attr_mode DEV_STRING = M_array K_str"
| "attr_mode DEV_FLOAT = M_array K_fl"
| "attr_mode DEV_BOOLEAN = M_array K_boo"
| "attr_mode DEV_USHORT = M_array K_ush"
| "attr_mode DEV_UCHAR = M_array K_uch"
| "attr_mode DEV_ULONG = M_array K_ulg"
| "attr_mode DEV_ULONG64 = M_array K_ulg64"
| "attr_mode DEV_STATE = M_array K_state"
| "attr_mode DEV_VOID = M_simple K_state"
| "attr_mode DEV_ENCODED = M_array K_enc"
| "attr_mode ty = M_none"

definition rq :: "bool \<Rightarrow> ('c, 'v) RingElt \<Rightarrow> AttrQuality" where
  "rq idl5 e = (if failed e then ATTR_INVALID else
     case slot_attr idl5 e of Ok v \<Rightarrow> av_quality v | _ \<Rightarrow> ATTR_INVALID)"

definition rr :: "bool \<Rightarrow> ('c, 'v) RingElt \<Rightarrow> AttributeDim" where
  "rr idl5 e = (if failed e then \<lparr>dim_x = 0, dim_y = 0\<rparr> else
     case slot_attr idl5 e of Ok v \<Rightarrow> av_r_dim v | _ \<Rightarrow> \<lparr>dim_x = 0, dim_y = 0\<rparr>)"

definition rw :: "bool \<Rightarrow> ('c, 'v) RingElt \<Rightarrow> AttributeDim" where
  "rw idl5 e = (if failed e then \<lparr>dim_x = 0, dim_y = 0\<rparr> else
     case slot_attr idl5 e of Ok v \<Rightarrow> av_w_dim v | _ \<Rightarrow> \<lparr>dim_x = 0, dim_y = 0\<rparr>)"

definition rdata :: "bool \<Rightarrow> mode \<Rightarrow> ('c, 'v any) RingElt \<Rightarrow> 'v list" where
  "rdata idl5 m e = (if rq idl5 e = ATTR_INVALID then [] else
     case slot_attr idl5 e of Ok v \<Rightarrow> (case any_data m (av_value v) of Some vs \<Rightarrow> vs | None \<Rightarrow> []) | _ \<Rightarrow> [])"

definition rdate :: "int \<Rightarrow> bool \<Rightarrow> ('c, 'v) RingElt \<Rightarrow> TimeVal" where
  "rdate off idl5 e = (case attr_date off idl5 e of Ok d \<Rightarrow> d | _ \<Rightarrow> make_TimeVal off (re_when e))"

text \<open>
  A well-formed record: a non-empty error stack, or a value whose dimensions are not
  negative and count its data, with no data for an invalid quality.
\<close>

definition attr_fits :: "bool \<Rightarrow> mode \<Rightarrow> ('c, 'v any) RingElt \<Rightarrow> bool" where
  "attr_fits idl5 m e \<longleftrightarrow>
     (case re_except e of
        Some errs \<Rightarrow> errs \<noteq> []
      | None \<Rightarrow>
          (case slot_attr idl5 e of
             Ok v \<Rightarrow> 0 \<le> dim_x (av_r_dim v) \<and> 0 \<le> dim_y (av_r_dim v) \<and>
                    0 \<le> dim_x (av_w_dim v) \<and> 0 \<le> dim_y (av_w_dim v) \<and>
                    (if av_quality v = ATTR_INVALID then attr_data_length v = 0
                     else case any_data m (av_value v) of
                            None \<Rightarrow> False
                          | Some vs \<Rightarrow> int (length vs) = attr_data_length v)
           | _ \<Rightarrow> False))"

lemma attr_fits_cases:
  assumes "attr_fits idl5 m e"
  obtains (failed) errs where "failed e" "re_except e = Some errs" "errs \<noteq> []" "rq idl5 e = ATTR_INVALID"
      "rr idl5 e = \<lparr>dim_x = 0, dim_y = 0\<rparr>" "rw idl5 e = \<lparr>dim_x = 0, dim_y = 0\<rparr>" "rdata idl5 m e = []"
    | (read) v where "\<not> failed e" "re_except e = None" "slot_attr idl5 e = Ok v" "rq idl5 e = av_quality v"
      "rr idl5 e = av_r_dim v" "rw idl5 e = av_w_dim v" "0 \<le> dim_x (av_r_dim v)" "0 \<le> dim_x (av_w_dim v)"
      "int (length (rdata idl5 m e)) = attr_data_length v"
      "av_quality v \<noteq> ATTR_INVALID \<Longrightarrow> any_data m (av_value v) = Some (rdata idl5 m e)"
proof (cases "re_except e")
  case None
  then obtain v where v: "slot_attr idl5 e = Ok v"
    using assms by (auto simp: attr_fits_def split: result.splits)
  have nf: "\<not> failed e" using None by (simp add: failed_def)
  have q: "rq idl5 e = av_quality v" "rr idl5 e = av_r_dim v" "rw idl5 e = av_w_dim v"
    using v nf by (simp_all add: rq_def rr_def rw_def)
  have f: "0 \<le> dim_x (av_r_dim v)" "0 \<le> dim_x (av_w_dim v)"
    "if av_quality v = ATTR_INVALID then attr_data_length v = 0
     else case any_data m (av_value v) of None \<Rightarrow> False | Some vs \<Rightarrow> int (length vs) = attr_data_length v"
    using assms None v by (simp_all add: attr_fits_def)
  have rd: "rdata idl5 m e = (if av_quality v = ATTR_INVALID then [] else
      case any_data m (av_value v) of Some vs \<Rightarrow> vs | None \<Rightarrow> [])"
    unfolding rdata_def q(1) v by simp
  have d: "any_data m (av_value v) = Some (rdata idl5 m e)" if "av_quality v \<noteq> ATTR_INVALID"
    unfolding rd using f(3) that by (auto split: option.splits)
  have "int (length (rdata idl5 m e)) = attr_data_length v"
    unfolding rd using f(3) by (auto split: option.splits)
  from read[OF nf None v q f(1,2) this d] show ?thesis .
next
  case (Some errs)
  then have "errs \<noteq> []" using assms by (simp add: attr_fits_def)
  moreover have "failed e" using Some by (simp add: failed_def)
  ultimately show ?thesis using Some failed[of errs] by (simp add: rq_def rr_def rw_def rdata_def)
qed


section \<open>Runs\<close>

definition rl_inv :: "'d runs \<Rightarrow> (int \<times> 'd) list \<Rightarrow> bool" where
  "rl_inv r as \<longleftrightarrow>
     runs_ok (rl_length r) (rl_vals r) (rl_array r) as \<and> (as \<noteq> [] \<longrightarrow> rl_last r = snd (last as))"

lemma rl_inv_init [simp]: "rl_inv (runs_init d) []"
  by (simp add: rl_inv_def runs_init_def)

lemma rl_inv_length: "rl_inv r as \<Longrightarrow> rl_length r = 1 \<longleftrightarrow> as = []"
  using runs_ok_as_Nil[of "rl_length r" "rl_vals r" "rl_array r" as] unfolding rl_inv_def by (auto simp: runs_ok_def)

lemma run_put_ok:
  assumes "rl_inv r as"
    and "joins \<Longrightarrow> \<exists>as'. as = as' @ [(st + 1, d)]"
  shows "\<exists>r'. run_put joins st d r = Ok r' \<and> rl_inv r' (as @ [(st, d)]) \<and> rl_last r' = d"
proof (cases joins)
  case True
  then obtain as' where as: "as = as' @ [(st + 1, d)]" using assms(2) by blast
  then obtain arr where "extend_run (rl_length r) (rl_array r) = Ok arr"
      "runs_ok (rl_length r) (rl_vals r) arr (as @ [(st, d)])"
    using extend_run_ok[of "rl_length r" "rl_vals r" "rl_array r" as' st d] assms(1) by (auto simp: rl_inv_def)
  then show ?thesis using True as assms(1) by (simp add: run_put_def rl_inv_def)
next
  case False
  then show ?thesis
    using open_run_ok[of "rl_length r" "rl_vals r" "rl_array r" as st d] assms(1)
    by (auto simp: run_put_def rl_inv_def)
qed

text \<open>The run of the record packed last ends just after the next position.\<close>

lemma rl_inv_last:
  assumes "rl_inv r (expect (N - 1) (\<lambda>e. Some (g e)) es)" "es \<noteq> []"
  shows "rl_last r = g (last es)"
    "\<exists>as'. expect (N - 1) (\<lambda>e. Some (g e)) es = as' @ [(N - (int (length es) + 1) + 1, g (last es))]"
proof -
  obtain as where as: "expect (N - 1) (\<lambda>e. Some (g e)) es = as @ [(N - 1 - int (length es) + 1, g (last es))]"
    using expect_last[where g = "\<lambda>e. Some (g e)" and v = "g (last es)", OF assms(2)] by blast
  then show "rl_last r = g (last es)" using assms(1) unfolding rl_inv_def as by simp
  show "\<exists>as'. expect (N - 1) (\<lambda>e. Some (g e)) es = as' @ [(N - (int (length es) + 1) + 1, g (last es))]"
    using as by (simp add: algebra_simps)
qed

lemma run_put_expect:
  assumes inv: "rl_inv r (expect (N - 1) (\<lambda>e. Some (g e)) es)"
    and j: "joins \<Longrightarrow> es \<noteq> [] \<and> rl_last r = g e" and d: "d = g e"
  shows "\<exists>r'. run_put joins (N - (int (length es) + 1)) d r = Ok r' \<and>
     rl_inv r' (expect (N - 1) (\<lambda>e. Some (g e)) (es @ [e])) \<and> rl_last r' = d"
proof -
  have pos: "N - 1 - int (length es) = N - (int (length es) + 1)" by simp
  have "\<exists>as'. expect (N - 1) (\<lambda>e. Some (g e)) es = as' @ [(N - (int (length es) + 1) + 1, d)]" if joins
    using j[OF that] rl_inv_last[OF inv] d by simp
  from run_put_ok[OF inv this, of joins] show ?thesis unfolding expect_snoc pos using d by simp
qed


section \<open>Packing\<close>

lemma put_data_kind:
  assumes "mode_kind (attr_mode ty) = Some k" "any_data (attr_mode ty) a = Some vs"
  shows "put_data dv sz ty a s =
     rbind (add_elt_data vs (as_ind_in_seq s) (seq_of dv sz (as_new_tmp s k))) (\<lambda>glob.
       Ok (s\<lparr>as_new_tmp := (as_new_tmp s)(k := Some glob), as_ind_in_seq := as_ind_in_seq s + int (length vs)\<rparr>))"
proof (cases "ty = DEV_VOID")
  case True
  then obtain v where "a = Any_scalar K_state v" "vs = [v]" "k = K_state"
    using assms by (cases a) (auto split: if_splits)
  then show ?thesis using True by (simp add: put_data_def put_state_def)
next
  case False
  then have m: "attr_mode ty = M_array k" "put_data dv sz ty a s = put_seq dv sz k a s"
    using assms(1) by (cases ty; simp add: put_data_def)+
  then have "a = Any_seq k vs" using assms(2) by (cases a) (auto split: if_splits)
  then show ?thesis using m(2) by (simp add: put_seq_def)
qed

lemma attr_final_kind: "mode_kind (attr_mode ty) = Some k \<Longrightarrow> attr_final_value ty s = attr_insert_seq k s"
  by (cases ty) (simp_all add: attr_final_value_def)

definition attr_inv ::
  "int \<Rightarrow> 'v \<Rightarrow> bool \<Rightarrow> mode \<Rightarrow> seq_kind \<Rightarrow> int \<Rightarrow> int \<Rightarrow> TimeVal list \<Rightarrow> ('c, 'v any) RingElt list \<Rightarrow>
   'v attr_state \<Rightarrow> bool" where
  "attr_inv off dv idl5 m k sz nb dates0 es s \<longleftrightarrow>
     (let N = int (length dates0); data = concat (map (rdata idl5 m) es); glob = seq_of dv sz (as_new_tmp s k) in
      errs_inv (nat nb) (as_err s) (expect (N - 1) re_except es) \<and>
      rl_inv (as_quals s) (expect (N - 1) (\<lambda>e. Some (rq idl5 e)) es) \<and>
      rl_inv (as_r_dims s) (expect (N - 1) (\<lambda>e. Some (rr idl5 e)) es) \<and>
      rl_inv (as_w_dims s) (expect (N - 1) (\<lambda>e. Some (rw idl5 e)) es) \<and>
      (es = [] \<longrightarrow> dim_x (rl_last (as_r_dims s)) = -1 \<and> dim_x (rl_last (as_w_dims s)) = -1) \<and>
      as_no_data s = (es = [] \<or> rq idl5 (last es) = ATTR_INVALID) \<and>
      (es = [] \<longrightarrow> er_last_err_list (as_err s) = []) \<and>
      (es \<noteq> [] \<longrightarrow> failed (last es) \<longrightarrow> er_last_err_list (as_err s) = the (re_except (last es))) \<and>
      as_ind_in_seq s = int (length data) \<and>
      take (length data) glob = data \<and> int (length glob) = sz \<and>
      (as_new_tmp s k = None \<longleftrightarrow> (\<forall>e \<in> set es. rq idl5 e = ATTR_INVALID)) \<and>
      as_dates s = take (length dates0 - length es) dates0 @ rev (map (rdate off idl5) es) \<and>
      as_value s = Any_null)"

lemmas attr_inv_simps = attr_inv_def Let_def

lemma attr_inv_init: "0 \<le> sz \<Longrightarrow> attr_inv off dv idl5 m k sz nb dates0 [] (attr_init dates0)"
  by (simp add: attr_inv_simps attr_init_def seq_of_def) (simp add: err_runs_init_def runs_init_def)

lemma attr_inv_runs:
  assumes "attr_inv off dv idl5 m k sz nb dates0 es s"
  shows "rl_inv (as_quals s) (expect (int (length dates0) - 1) (\<lambda>e. Some (rq idl5 e)) es)"
    "rl_inv (as_r_dims s) (expect (int (length dates0) - 1) (\<lambda>e. Some (rr idl5 e)) es)"
    "rl_inv (as_w_dims s) (expect (int (length dates0) - 1) (\<lambda>e. Some (rw idl5 e)) es)"
    "es = [] \<Longrightarrow> dim_x (rl_last (as_r_dims s)) = -1" "es = [] \<Longrightarrow> dim_x (rl_last (as_w_dims s)) = -1"
    "rl_length (as_quals s) = 1 \<longleftrightarrow> es = []"
proof -
  show r: "rl_inv (as_quals s) (expect (int (length dates0) - 1) (\<lambda>e. Some (rq idl5 e)) es)"
    "rl_inv (as_r_dims s) (expect (int (length dates0) - 1) (\<lambda>e. Some (rr idl5 e)) es)"
    "rl_inv (as_w_dims s) (expect (int (length dates0) - 1) (\<lambda>e. Some (rw idl5 e)) es)"
    "es = [] \<Longrightarrow> dim_x (rl_last (as_r_dims s)) = -1" "es = [] \<Longrightarrow> dim_x (rl_last (as_w_dims s)) = -1"
    using assms by (simp_all add: attr_inv_simps)
  have "expect (int (length dates0) - 1) (\<lambda>e. Some (rq idl5 e)) es = [] \<longleftrightarrow> es = []" by (cases es) simp_all
  then show "rl_length (as_quals s) = 1 \<longleftrightarrow> es = []" using rl_inv_length[OF r(1)] by simp
qed

lemma dim_eqI: "dim_x a = dim_x b \<Longrightarrow> dim_y a = dim_y b \<Longrightarrow> a = (b :: AttributeDim)"
  by simp

text \<open>The runs of one more record, read or failed.\<close>

lemma attr_runs_step:
  assumes inv: "attr_inv off dv idl5 m k sz nb dates0 es s"
    and jq: "jq \<Longrightarrow> rl_length (as_quals s) \<noteq> 1 \<and> rl_last (as_quals s) = rq idl5 e"
    and jr: "jr \<Longrightarrow> rl_last (as_r_dims s) = rr idl5 e" "0 \<le> dim_x (rr idl5 e)"
    and jw: "jw \<Longrightarrow> rl_last (as_w_dims s) = rw idl5 e" "0 \<le> dim_x (rw idl5 e)"
  shows "\<exists>q r w. run_put jq (int (length dates0) - (int (length es) + 1)) (rq idl5 e) (as_quals s) = Ok q \<and>
     run_put jr (int (length dates0) - (int (length es) + 1)) (rr idl5 e) (as_r_dims s) = Ok r \<and>
     run_put jw (int (length dates0) - (int (length es) + 1)) (rw idl5 e) (as_w_dims s) = Ok w \<and>
     rl_inv q (expect (int (length dates0) - 1) (\<lambda>e. Some (rq idl5 e)) (es @ [e])) \<and>
     rl_inv r (expect (int (length dates0) - 1) (\<lambda>e. Some (rr idl5 e)) (es @ [e])) \<and>
     rl_inv w (expect (int (length dates0) - 1) (\<lambda>e. Some (rw idl5 e)) (es @ [e])) \<and> rl_last q = rq idl5 e"
proof -
  note runs = attr_inv_runs[OF inv]
  have "jr \<Longrightarrow> es \<noteq> [] \<and> rl_last (as_r_dims s) = rr idl5 e" using jr runs(4) by fastforce
  moreover have "jw \<Longrightarrow> es \<noteq> [] \<and> rl_last (as_w_dims s) = rw idl5 e" using jw runs(5) by fastforce
  ultimately show ?thesis
    using run_put_expect[where g = "rq idl5" and e = e, OF runs(1)] run_put_expect[where g = "rr idl5" and e = e, OF runs(2)]
      run_put_expect[where g = "rw idl5" and e = e, OF runs(3)] jq runs(6) by metis
qed

text \<open>The dates written so far, and the date of one more record.\<close>

definition dates_upto :: "int \<Rightarrow> bool \<Rightarrow> TimeVal list \<Rightarrow> ('c, 'v) RingElt list \<Rightarrow> TimeVal list" where
  "dates_upto off idl5 dates0 es = take (length dates0 - length es) dates0 @ rev (map (rdate off idl5) es)"

lemma attr_date_ok: "attr_fits idl5 m e \<Longrightarrow> attr_date off idl5 e = Ok (rdate off idl5 e)"
  by (erule attr_fits_cases) (simp_all add: rdate_def attr_date_def)

lemma attr_fail_inv:
  assumes inv: "attr_inv off dv idl5 m k sz nb dates0 es s"
    and e: "attr_fits idl5 m e" "re_except e = Some errs"
    and nb: "int (length (filter failed es)) < nb"
    and gap: "es \<noteq> [] \<Longrightarrow> rq idl5 (last es) = ATTR_INVALID \<Longrightarrow> failed (last es)"
  shows "\<exists>s'. put_failure nb (int (length dates0) - (int (length es) + 1)) (as_no_data s) errs
       (s\<lparr>as_dates := dates_upto off idl5 dates0 (es @ [e]), as_no_data := False\<rparr>) = Ok s' \<and>
     attr_inv off dv idl5 m k sz nb dates0 (es @ [e]) s'"
proof -
  let ?N = "int (length dates0)" and ?st = "int (length dates0) - (int (length es) + 1)"
  have f: "failed e" "errs \<noteq> []" "rq idl5 e = ATTR_INVALID" "rr idl5 e = \<lparr>dim_x = 0, dim_y = 0\<rparr>"
    "rw idl5 e = \<lparr>dim_x = 0, dim_y = 0\<rparr>" "rdata idl5 m e = []"
    using e by (auto elim!: attr_fits_cases)
  have pos: "?N - 1 - int (length es) = ?st" by simp
  have same: "\<exists>as'. expect (?N - 1) re_except es = as' @ [(?st + 1, errs)]"
    if "as_no_data s" "errs = er_last_err_list (as_err s)"
  proof -
    have "es \<noteq> []" "failed (last es)" "re_except (last es) = Some errs"
      using inv that f(2) gap by (auto simp: attr_inv_simps failed_def)
    then show ?thesis
      using expect_last[where g = re_except and v = errs and pos = "?N - 1"] by (simp add: algebra_simps)
  qed
  have E: "errs_inv (nat nb) (as_err s) (expect (?N - 1) re_except es)" using inv by (simp add: attr_inv_simps)
  have "length (expect (?N - 1) re_except es) < nat nb" "int (nat nb) = nb"
    unfolding length_errors using nb by simp_all
  then obtain er where er: "add_error nb ?st (as_no_data s) errs (as_err s) = Ok er"
      "errs_inv (nat nb) er (expect (?N - 1) re_except es @ [(?st, errs)])" "er_last_err_list er = errs"
    using add_error_ok[OF E _ same] by metis
  obtain q r w where p:
    "run_put (\<not> (rl_length (as_quals s) = 1 \<or> rl_last (as_quals s) \<noteq> ATTR_INVALID)) ?st ATTR_INVALID (as_quals s) = Ok q"
    "run_put (dim_x (rl_last (as_r_dims s)) = 0 \<and> dim_y (rl_last (as_r_dims s)) = 0) ?st
       \<lparr>dim_x = 0, dim_y = 0\<rparr> (as_r_dims s) = Ok r"
    "run_put (dim_x (rl_last (as_w_dims s)) = 0 \<and> dim_y (rl_last (as_w_dims s)) = 0) ?st
       \<lparr>dim_x = 0, dim_y = 0\<rparr> (as_w_dims s) = Ok w"
    and i: "rl_inv q (expect (?N - 1) (\<lambda>e. Some (rq idl5 e)) (es @ [e]))"
      "rl_inv r (expect (?N - 1) (\<lambda>e. Some (rr idl5 e)) (es @ [e]))"
      "rl_inv w (expect (?N - 1) (\<lambda>e. Some (rw idl5 e)) (es @ [e]))"
    using attr_runs_step[OF inv, of "\<not> (rl_length (as_quals s) = 1 \<or> rl_last (as_quals s) \<noteq> ATTR_INVALID)" e
       "dim_x (rl_last (as_r_dims s)) = 0 \<and> dim_y (rl_last (as_r_dims s)) = 0"
       "dim_x (rl_last (as_w_dims s)) = 0 \<and> dim_y (rl_last (as_w_dims s)) = 0"] unfolding f(3-5) by auto
  let ?s' = "s\<lparr>as_dates := dates_upto off idl5 dates0 (es @ [e]), as_err := er, as_quals := q, as_r_dims := r,
    as_w_dims := w, as_no_data := True\<rparr>"
  have "put_failure nb ?st (as_no_data s) errs
      (s\<lparr>as_dates := dates_upto off idl5 dates0 (es @ [e]), as_no_data := False\<rparr>) = Ok ?s'"
    using er(1) p by (simp add: put_failure_def)
  moreover have "attr_inv off dv idl5 m k sz nb dates0 (es @ [e]) ?s'"
    using inv er(2,3) e(2) f i unfolding attr_inv_simps expect_snoc[of _ re_except] pos
    by (simp add: dates_upto_def)
  ultimately show ?thesis by blast
qed

text \<open>The properties of a record that was read, before its data.\<close>

lemma attr_props_ok:
  assumes inv: "attr_inv off dv idl5 m k sz nb dates0 es s"
    and v: "rq idl5 e = av_quality v" "rr idl5 e = av_r_dim v" "rw idl5 e = av_w_dim v"
      "0 \<le> dim_x (av_r_dim v)" "0 \<le> dim_x (av_w_dim v)"
  shows "\<exists>q r w. put_props (int (length dates0) - (int (length es) + 1)) v
       (s\<lparr>as_dates := dts, as_no_data := False\<rparr>) =
       Ok (s\<lparr>as_dates := dts, as_quals := q, as_r_dims := r, as_w_dims := w, as_no_data := (av_quality v = ATTR_INVALID)\<rparr>) \<and>
     rl_inv q (expect (int (length dates0) - 1) (\<lambda>e. Some (rq idl5 e)) (es @ [e])) \<and>
     rl_inv r (expect (int (length dates0) - 1) (\<lambda>e. Some (rr idl5 e)) (es @ [e])) \<and>
     rl_inv w (expect (int (length dates0) - 1) (\<lambda>e. Some (rw idl5 e)) (es @ [e]))"
proof -
  let ?st = "int (length dates0) - (int (length es) + 1)"
  obtain q r w where p:
    "run_put (\<not> (rl_length (as_quals s) = 1 \<or> av_quality v \<noteq> rl_last (as_quals s))) ?st (av_quality v) (as_quals s) = Ok q"
    "run_put (dim_x (av_r_dim v) = dim_x (rl_last (as_r_dims s)) \<and> dim_y (av_r_dim v) = dim_y (rl_last (as_r_dims s)))
       ?st (av_r_dim v) (as_r_dims s) = Ok r"
    "run_put (dim_x (av_w_dim v) = dim_x (rl_last (as_w_dims s)) \<and> dim_y (av_w_dim v) = dim_y (rl_last (as_w_dims s)))
       ?st (av_w_dim v) (as_w_dims s) = Ok w"
    and i: "rl_inv q (expect (int (length dates0) - 1) (\<lambda>e. Some (rq idl5 e)) (es @ [e]))"
     "rl_inv r (expect (int (length dates0) - 1) (\<lambda>e. Some (rr idl5 e)) (es @ [e]))"
     "rl_inv w (expect (int (length dates0) - 1) (\<lambda>e. Some (rw idl5 e)) (es @ [e]))" "rl_last q = av_quality v"
    using attr_runs_step[OF inv, of "\<not> (rl_length (as_quals s) = 1 \<or> av_quality v \<noteq> rl_last (as_quals s))" e
       "dim_x (av_r_dim v) = dim_x (rl_last (as_r_dims s)) \<and> dim_y (av_r_dim v) = dim_y (rl_last (as_r_dims s))"
       "dim_x (av_w_dim v) = dim_x (rl_last (as_w_dims s)) \<and> dim_y (av_w_dim v) = dim_y (rl_last (as_w_dims s))"]
      v unfolding v(1-3) by auto
  have "put_props ?st v (s\<lparr>as_dates := dts, as_no_data := False\<rparr>) =
       Ok (s\<lparr>as_dates := dts, as_quals := q, as_r_dims := r, as_w_dims := w, as_no_data := (av_quality v = ATTR_INVALID)\<rparr>)"
    using p i(4) by (simp add: put_props_def)
  with i(1-3) show ?thesis by blast
qed

text \<open>Appending data at the end of what the global sequence holds.\<close>

lemma glob_append:
  assumes "take (length d) glob = d" "length d + length vs \<le> length glob"
  shows "\<exists>glob'. add_elt_data vs (int (length d)) glob = Ok glob' \<and> length glob' = length glob \<and>
     take (length d + length vs) glob' = d @ vs"
proof -
  obtain rest where rest: "glob = d @ rest" using assms(1) by (metis append_take_drop_id)
  then have "length vs \<le> length rest" using assms(2) by simp
  with add_elt_data_ok[OF this, of d] rest show ?thesis by simp
qed

lemma attr_read_inv:
  assumes inv: "attr_inv off dv idl5 (attr_mode ty) k sz nb dates0 es s"
    and e: "attr_fits idl5 (attr_mode ty) e" "re_except e = None" and k: "mode_kind (attr_mode ty) = Some k"
    and size: "int (length (concat (map (rdata idl5 (attr_mode ty)) (es @ [e])))) \<le> sz"
  shows "\<exists>s'. attr_record dv ty idl5 sz nb (int (length dates0) - (int (length es) + 1)) prev e
       (s\<lparr>as_dates := dates_upto off idl5 dates0 (es @ [e]), as_no_data := False\<rparr>) = Ok s' \<and>
     attr_inv off dv idl5 (attr_mode ty) k sz nb dates0 (es @ [e]) s'"
  using e(1)
proof (cases rule: attr_fits_cases)
  case (failed errs)
  then show ?thesis using e(2) by simp
next
  case (read v)
  let ?m = "attr_mode ty" and ?dts = "dates_upto off idl5 dates0 (es @ [e])"
  let ?glob = "seq_of dv sz (as_new_tmp s k)" and ?d = "concat (map (rdata idl5 ?m) es)" and ?vs = "rdata idl5 ?m e"
  obtain q r w where p: "put_props (int (length dates0) - (int (length es) + 1)) v (s\<lparr>as_dates := ?dts, as_no_data := False\<rparr>) =
       Ok (s\<lparr>as_dates := ?dts, as_quals := q, as_r_dims := r, as_w_dims := w, as_no_data := (av_quality v = ATTR_INVALID)\<rparr>)"
    and i: "rl_inv q (expect (int (length dates0) - 1) (\<lambda>e. Some (rq idl5 e)) (es @ [e]))"
     "rl_inv r (expect (int (length dates0) - 1) (\<lambda>e. Some (rr idl5 e)) (es @ [e]))"
     "rl_inv w (expect (int (length dates0) - 1) (\<lambda>e. Some (rw idl5 e)) (es @ [e]))"
    using attr_props_ok[OF inv read(4-8), of ?dts] by blast
  define s1 where "s1 = s\<lparr>as_dates := ?dts, as_quals := q, as_r_dims := r, as_w_dims := w,
    as_no_data := (av_quality v = ATTR_INVALID)\<rparr>"
  have rec: "attr_record dv ty idl5 sz nb (int (length dates0) - (int (length es) + 1)) prev e
       (s\<lparr>as_dates := ?dts, as_no_data := False\<rparr>) =
     (if av_quality v = ATTR_INVALID then Ok s1 else put_data dv sz ty (av_value v) s1)"
    using read(3) p e(2) by (simp add: attr_record_def s1_def)
  have g: "take (length ?d) ?glob = ?d" "int (length ?glob) = sz" "as_ind_in_seq s = int (length ?d)"
    using inv by (simp_all add: attr_inv_simps)
  show ?thesis
  proof (cases "av_quality v = ATTR_INVALID")
    case True
    then have "?vs = []" by (simp add: rdata_def read(4))
    then have "attr_inv off dv idl5 ?m k sz nb dates0 (es @ [e]) s1"
      using inv i read(1,2,4) True unfolding attr_inv_simps
      by (simp add: s1_def dates_upto_def expect_snoc[of _ re_except])
    then show ?thesis using rec True by simp
  next
    case False
    obtain glob' where glob': "add_elt_data ?vs (int (length ?d)) ?glob = Ok glob'" "length glob' = length ?glob"
        "take (length ?d + length ?vs) glob' = ?d @ ?vs"
      using glob_append[OF g(1), of ?vs] size g(2) by auto
    let ?s' = "s1\<lparr>as_new_tmp := (as_new_tmp s1)(k := Some glob'), as_ind_in_seq := as_ind_in_seq s1 + int (length ?vs)\<rparr>"
    have "put_data dv sz ty (av_value v) s1 = Ok ?s'"
      using put_data_kind[OF k read(10)[OF False], of dv sz s1] glob'(1) g(3) by (simp add: s1_def)
    moreover have "attr_inv off dv idl5 ?m k sz nb dates0 (es @ [e]) ?s'"
      using inv i read(1,2,4) False glob'(2,3) g(2) unfolding attr_inv_simps
      by (simp add: s1_def dates_upto_def expect_snoc[of _ re_except] seq_of_def)
    ultimately show ?thesis using rec False by simp
  qed
qed

text \<open>No record of invalid quality that was read lies just after (is just newer than) a failed one.\<close>

definition gap_free :: "bool \<Rightarrow> ('c, 'v) RingElt list \<Rightarrow> bool" where
  "gap_free idl5 es = successively (\<lambda>a b. failed b \<longrightarrow> rq idl5 a = ATTR_INVALID \<longrightarrow> failed a) es"

lemma gap_free_last: "gap_free idl5 (es @ e # rest) \<Longrightarrow> es \<noteq> [] \<Longrightarrow> failed e \<Longrightarrow> rq idl5 (last es) = ATTR_INVALID \<Longrightarrow> failed (last es)"
  by (simp add: gap_free_def successively_append_iff)

lemma attr_step_inv:
  assumes inv: "attr_inv off dv idl5 (attr_mode ty) k sz nb dates0 es s"
    and k: "mode_kind (attr_mode ty) = Some k" and e: "attr_fits idl5 (attr_mode ty) e"
    and all: "length dates0 = length (es @ e # rest)" "nb = int (length (filter failed (es @ e # rest)))"
      "sz = int (length (concat (map (rdata idl5 (attr_mode ty)) (es @ e # rest))))" "gap_free idl5 (es @ e # rest)"
  shows "\<exists>s'. attr_inv off dv idl5 (attr_mode ty) k sz nb dates0 (es @ [e]) s' \<and>
     attr_step off dv ty idl5 sz nb (int (length dates0)) (int (length es)) e s =
       Ok (if rest = [] then attr_close ty nb s' else s')"
proof -
  let ?dts = "dates_upto off idl5 dates0 (es @ [e])"
  have "as_dates s = dates_upto off idl5 dates0 es" using inv by (simp add: attr_inv_simps dates_upto_def)
  then have d: "vec_set (as_dates s) (int (length dates0) - 1 - int (length es)) (rdate off idl5 e) = Ok ?dts"
    using dates_step[of es dates0 "rdate off idl5" e] all(1) by (simp add: dates_upto_def)
  have "\<exists>s'. attr_record dv ty idl5 sz nb (int (length dates0) - (int (length es) + 1)) (as_no_data s) e
       (s\<lparr>as_dates := ?dts, as_no_data := False\<rparr>) = Ok s' \<and>
     attr_inv off dv idl5 (attr_mode ty) k sz nb dates0 (es @ [e]) s'"
  proof (cases "re_except e")
    case None
    then show ?thesis using attr_read_inv[OF inv e None k] all(3) by simp
  next
    case (Some errs)
    then have "failed e" by (simp add: failed_def)
    then show ?thesis
      using attr_fail_inv[OF inv e Some] gap_free_last[OF all(4)] all(2) Some by (simp add: attr_record_def)
  qed
  moreover have "int (length es) = int (length dates0) - 1 \<longleftrightarrow> rest = []" using all(1) by auto
  ultimately show ?thesis using d attr_date_ok[OF e, of off] by (auto simp: attr_step_def)
qed

fun attr_list ::
  "int \<Rightarrow> 'v \<Rightarrow> CmdArgType \<Rightarrow> bool \<Rightarrow> int \<Rightarrow> int \<Rightarrow> int \<Rightarrow> int \<Rightarrow> ('c, 'v any) RingElt list \<Rightarrow>
   'v attr_state \<Rightarrow> 'v attr_state result" where
  "attr_list off dv ty idl5 sz nb n i [] s = Ok s"
| "attr_list off dv ty idl5 sz nb n i (e # es) s =
     rbind (attr_step off dv ty idl5 sz nb n i e s) (attr_list off dv ty idl5 sz nb n (i + 1) es)"

lemma attr_list_inv:
  assumes "attr_inv off dv idl5 (attr_mode ty) k sz nb dates0 es s" "mode_kind (attr_mode ty) = Some k"
    and "\<forall>e \<in> set rest. attr_fits idl5 (attr_mode ty) e" "rest \<noteq> []"
    and "length dates0 = length (es @ rest)" "nb = int (length (filter failed (es @ rest)))"
      "sz = int (length (concat (map (rdata idl5 (attr_mode ty)) (es @ rest))))" "gap_free idl5 (es @ rest)"
  shows "\<exists>s'. attr_inv off dv idl5 (attr_mode ty) k sz nb dates0 (es @ rest) s' \<and>
     attr_list off dv ty idl5 sz nb (int (length dates0)) (int (length es)) rest s = Ok (attr_close ty nb s')"
  using assms
proof (induction rest arbitrary: es s)
  case (Cons e rest)
  obtain s' where s': "attr_inv off dv idl5 (attr_mode ty) k sz nb dates0 (es @ [e]) s'"
     "attr_step off dv ty idl5 sz nb (int (length dates0)) (int (length es)) e s =
        Ok (if rest = [] then attr_close ty nb s' else s')"
    using attr_step_inv[OF Cons.prems(1,2) _ Cons.prems(5-8)] Cons.prems(3) by auto
  show ?case
  proof (cases "rest = []")
    case True
    then show ?thesis using s' by auto
  next
    case False
    then show ?thesis using Cons.IH[OF s'(1)] Cons.prems s'(2) by (auto simp: add.commute)
  qed
qed simp

lemma attr_loop_walk:
  assumes "int (length (ring p)) = pr_max_elt p" "0 \<le> index" "index < pr_max_elt p"
  shows "attr_loop off dv ty idl5 sz nb n p index i k s =
     attr_list off dv ty idl5 sz nb n i (walk_back (ring p) (pr_max_elt p) index k) s"
  using assms(2,3)
proof (induction k arbitrary: index i s)
  case (Suc k)
  have step: "(if index = 0 then pr_max_elt p else index) - 1 = prev_idx (pr_max_elt p) index"
    by (simp add: prev_idx_def)
  have "0 \<le> prev_idx (pr_max_elt p) index" "prev_idx (pr_max_elt p) index < pr_max_elt p"
    using Suc.prems by (auto simp: prev_idx_def)
  then show ?case using Suc assms(1) by (auto simp: vec_get_in Let_def step intro!: rbind_ext)
qed simp

lemma attr_sizes_ok:
  assumes "int (length (ring p)) = pr_max_elt p" "0 \<le> index" "index < pr_max_elt p"
    and "\<forall>e \<in> set (walk_back (ring p) (pr_max_elt p) index k). attr_fits idl5 m e"
  shows "attr_sizes_loop idl5 p index k sz nb =
     Ok (sz + int (length (concat (map (rdata idl5 m) (walk_back (ring p) (pr_max_elt p) index k)))),
         nb + int (length (filter failed (walk_back (ring p) (pr_max_elt p) index k))))"
  using assms(2-4)
proof (induction k arbitrary: index sz nb)
  case (Suc k)
  let ?e = "ring p ! nat index"
  have step: "(if index = 0 then pr_max_elt p else index) - 1 = prev_idx (pr_max_elt p) index"
    by (simp add: prev_idx_def)
  have "0 \<le> prev_idx (pr_max_elt p) index" "prev_idx (pr_max_elt p) index < pr_max_elt p"
    using Suc.prems by (auto simp: prev_idx_def)
  note IH = Suc.IH[OF this]
  have "attr_fits idl5 m ?e" using Suc.prems by simp
  then show ?case
    by (cases rule: attr_fits_cases)
      (use Suc.prems IH assms(1) in \<open>simp_all add: vec_get_in Let_def step\<close>)
qed simp

text \<open>What the server sends for the records \<open>es\<close>, newest first.\<close>

definition attr_packs :: "int \<Rightarrow> string \<Rightarrow> bool \<Rightarrow> mode \<Rightarrow> seq_kind \<Rightarrow> ('c, 'v any) RingElt list \<Rightarrow> 'v DevAttrHistory \<Rightarrow> bool" where
  "attr_packs off name idl5 m k es h \<longleftrightarrow>
     ha_name h = name \<and> ha_dates h = rev (map (rdate off idl5) es) \<and>
     ha_value h = (if \<forall>e \<in> set es. rq idl5 e = ATTR_INVALID then Any_null
                   else Any_seq k (concat (map (rdata idl5 m) es))) \<and>
     (\<exists>l. runs_ok l (ha_quals h) (ha_quals_array h) (expect (int (length es) - 1) (\<lambda>e. Some (rq idl5 e)) es)) \<and>
     (\<exists>l. runs_ok l (ha_r_dims h) (ha_r_dims_array h) (expect (int (length es) - 1) (\<lambda>e. Some (rr idl5 e)) es)) \<and>
     (\<exists>l. runs_ok l (ha_w_dims h) (ha_w_dims_array h) (expect (int (length es) - 1) (\<lambda>e. Some (rw idl5 e)) es)) \<and>
     (\<exists>l. runs_ok l (ha_errors h) (ha_errors_array h) (expect (int (length es) - 1) re_except es))"

definition attr_message :: "string \<Rightarrow> 'v attr_state \<Rightarrow> 'v DevAttrHistory" where
  "attr_message name s =
     \<lparr>ha_name = name, ha_dates = as_dates s, ha_value = as_value s,
      ha_quals = rl_vals (as_quals s), ha_quals_array = rl_array (as_quals s),
      ha_r_dims = rl_vals (as_r_dims s), ha_r_dims_array = rl_array (as_r_dims s),
      ha_w_dims = rl_vals (as_w_dims s), ha_w_dims_array = rl_array (as_w_dims s),
      ha_errors = er_errors (as_err s), ha_errors_array = er_array (as_err s)\<rparr>"

lemma attr_close_packs:
  assumes inv: "attr_inv off dv idl5 (attr_mode ty) k sz nb dates0 es s" and k: "mode_kind (attr_mode ty) = Some k"
    and all: "length dates0 = length es" "nb = int (length (filter failed es))"
      "sz = int (length (concat (map (rdata idl5 (attr_mode ty)) es)))"
  shows "attr_packs off name idl5 (attr_mode ty) k es (attr_message name (attr_close ty nb s))"
proof -
  let ?er = "cut_errors nb (as_err s)"
  have v: "attr_final_value ty s = (if \<forall>e \<in> set es. rq idl5 e = ATTR_INVALID then Any_null
      else Any_seq k (concat (map (rdata idl5 (attr_mode ty)) es)))"
    unfolding attr_final_kind[OF k] using inv all(3)
    by (cases "as_new_tmp s k") (auto simp: attr_inv_simps attr_insert_seq_def seq_of_def)
  have "errs_inv (length (filter failed es)) (as_err s) (expect (int (length es) - 1) re_except es)"
    using inv all(1,2) by (simp add: attr_inv_simps)
  then have "runs_ok (er_errors_length (as_err s)) (er_errors ?er) (er_array ?er) (expect (int (length es) - 1) re_except es)"
    unfolding all(2) by (rule cut_errors_ok) (simp add: length_errors)
  moreover have "as_dates s = rev (map (rdate off idl5) es)" using inv all(1) by (simp add: attr_inv_simps)
  moreover note attr_inv_runs(1-3)[OF inv, unfolded all(1) rl_inv_def]
  ultimately show ?thesis
    unfolding attr_packs_def attr_message_def attr_close_def using v by (simp del: Set.ball_simps) blast
qed

abbreviation ring_idl5 :: "('c, 'v) PollRing \<Rightarrow> bool" where
  "ring_idl5 p \<equiv> re_attr_value_4 (hd (pr_hist p)) = None"

definition attr_history_ok :: "CmdArgType \<Rightarrow> int \<Rightarrow> TimeVal list \<Rightarrow> ('c, 'v any) PollRing \<Rightarrow> bool" where
  "attr_history_ok ty n dates p \<longleftrightarrow>
     pr_inv p \<and> 0 < n \<and> n \<le> pr_nb_elt p \<and> length dates = nat n \<and> mode_kind (attr_mode ty) \<noteq> None \<and>
     (\<forall>e \<in> set (take (nat n) (pr_hist p)). attr_fits (ring_idl5 p) (attr_mode ty) e) \<and>
     gap_free (ring_idl5 p) (take (nat n) (pr_hist p))"

lemma pr_start: "(if pr_insert_elt p = 0 then pr_max_elt p else pr_insert_elt p) - 1 = prev_idx (pr_max_elt p) (pr_insert_elt p)"
  by (simp add: prev_idx_def)

lemma pr_walk:
  assumes "pr_inv p" "0 < n" "n \<le> pr_nb_elt p"
  shows "int (length (ring p)) = pr_max_elt p" "0 \<le> prev_idx (pr_max_elt p) (pr_insert_elt p)"
    "prev_idx (pr_max_elt p) (pr_insert_elt p) < pr_max_elt p"
    "walk_back (ring p) (pr_max_elt p) (prev_idx (pr_max_elt p) (pr_insert_elt p)) (nat n) = take (nat n) (pr_hist p)"
    "vec_get (ring p) (prev_idx (pr_max_elt p) (pr_insert_elt p)) = Ok (hd (pr_hist p))"
proof -
  show b: "int (length (ring p)) = pr_max_elt p" "0 \<le> prev_idx (pr_max_elt p) (pr_insert_elt p)"
    "prev_idx (pr_max_elt p) (pr_insert_elt p) < pr_max_elt p"
    using assms(1) ring_inv_prev[OF assms(1)] by (auto simp: ring_inv_def)
  show "walk_back (ring p) (pr_max_elt p) (prev_idx (pr_max_elt p) (pr_insert_elt p)) (nat n) = take (nat n) (pr_hist p)"
    unfolding newest_def using nat_mono[OF assms(3)] by (rule walk_back_take)
  show "vec_get (ring p) (prev_idx (pr_max_elt p) (pr_insert_elt p)) = Ok (hd (pr_hist p))"
    using b assms(2,3) by (cases "nat (pr_nb_elt p)") (auto simp: vec_get_in newest_def)
qed

lemma get_attr_history_packs:
  assumes ok: "attr_history_ok ty n dates p" and k: "mode_kind (attr_mode ty) = Some k"
  shows "\<exists>h. get_attr_history off dv name n ty dates p = Ok h \<and>
     attr_packs off name (ring_idl5 p) (attr_mode ty) k (take (nat n) (pr_hist p)) h"
proof -
  let ?i = "prev_idx (pr_max_elt p) (pr_insert_elt p)"
  define es where "es = take (nat n) (pr_hist p)"
  have o: "pr_inv p" "0 < n" "n \<le> pr_nb_elt p" "length dates = nat n"
    "\<forall>e \<in> set es. attr_fits (ring_idl5 p) (attr_mode ty) e" "gap_free (ring_idl5 p) es"
    using ok by (auto simp: attr_history_ok_def es_def)
  note b = pr_walk(1-3)[OF o(1-3)] and w = pr_walk(4)[OF o(1-3), folded es_def]
  have len: "length es = nat n" "es \<noteq> []" using o(2) nat_mono[OF o(3)] by (auto simp: es_def min_def)
  note pr_walk(5)[OF o(1-3)]
  moreover define sz nb where z: "sz = int (length (concat (map (rdata (ring_idl5 p) (attr_mode ty)) es)))"
      "nb = int (length (filter failed es))"
  moreover obtain s where s: "attr_inv off dv (ring_idl5 p) (attr_mode ty) k sz nb dates es s"
      "attr_list off dv ty (ring_idl5 p) sz nb n 0 es (attr_init dates) = Ok (attr_close ty nb s)"
    using attr_list_inv[OF attr_inv_init k o(5) len(2), of sz dates nb off dv] o len z by auto
  ultimately show ?thesis
    using attr_close_packs[OF s(1) k, of name] o(4,5) len attr_sizes_ok[OF b, of "nat n" "ring_idl5 p" "attr_mode ty" 0 0]
    unfolding get_attr_history_def pr_start Let_def attr_loop_walk[OF b] w es_def[symmetric]
    by (simp add: attr_message_def)
qed


section \<open>Unpacking\<close>

lemma set_dates_names_ok:
  "length ds \<le> length rest \<Longrightarrow> set_dates_names name ds (int (length pre)) (pre @ rest) =
     Ok (pre @ map2 (\<lambda>d h. h\<lparr>dah_time := d, dah_name := name\<rparr>) ds rest @ drop (length ds) rest)"
proof (induction ds arbitrary: pre rest)
  case (Cons d ds)
  then obtain r rest' where r: "rest = r # rest'" by (cases rest) auto
  let ?r = "r\<lparr>dah_time := d, dah_name := name\<rparr>"
  have "set_dates_names name ds (int (length (pre @ [?r]))) ((pre @ [?r]) @ rest') =
     Ok ((pre @ [?r]) @ map2 (\<lambda>d h. h\<lparr>dah_time := d, dah_name := name\<rparr>) ds rest' @ drop (length ds) rest')"
    using Cons r by (intro Cons.IH) simp
  then show ?case by (simp add: r vec_get_def vec_set_def add.commute)
qed simp

definition attr_view :: "int \<Rightarrow> string \<Rightarrow> bool \<Rightarrow> mode \<Rightarrow> ('c, 'v any) RingElt \<Rightarrow> 'v DeviceAttributeHistory" where
  "attr_view off name idl5 m e =
     \<lparr>dah_name = name, dah_time = rdate off idl5 e, dah_quality = rq idl5 e, dah_r_dim = rr idl5 e,
      dah_w_dim = rw idl5 e, dah_fail = failed e,
      dah_err_list = (case re_except e of None \<Rightarrow> [] | Some errs \<Rightarrow> errs),
      dah_seq = (if rq idl5 e = ATTR_INVALID then None
                 else map_option (\<lambda>k. (k, rdata idl5 m e)) (mode_kind m))\<rparr>"

lemma extract_attr_loop_ok:
  assumes "\<forall>e \<in> set es. attr_fits idl5 m e" "mode_kind m = Some k"
  shows "extract_attr_loop k (concat (map (rdata idl5 m) (rev es)) @ suf)
       (int (length (concat (map (rdata idl5 m) (rev es)))))
       (map (\<lambda>e. (attr_view off name idl5 m e)\<lparr>dah_seq := None\<rparr>) es) = Ok (map (attr_view off name idl5 m) es)"
  using assms(1)
proof (induction es arbitrary: suf)
  case (Cons e es)
  let ?d = "concat (map (rdata idl5 m) (rev es))" and ?h = "(attr_view off name idl5 m e)\<lparr>dah_seq := None\<rparr>"
  have IH: "extract_attr_loop k (?d @ rdata idl5 m e @ suf) (int (length ?d))
       (map (\<lambda>e. (attr_view off name idl5 m e)\<lparr>dah_seq := None\<rparr>) es) = Ok (map (attr_view off name idl5 m) es)"
    using Cons by simp
  show ?case
  proof (cases "rq idl5 e = ATTR_INVALID")
    case True
    then have "rdata idl5 m e = []" "?h = attr_view off name idl5 m e" by (simp_all add: rdata_def attr_view_def)
    then show ?thesis using IH True by (simp add: attr_view_def)
  next
    case False
    have "attr_fits idl5 m e" using Cons.prems by simp
    then have "\<not> failed e" "dims_data_length (rr idl5 e) (rw idl5 e) = int (length (rdata idl5 m e))"
      using False by (auto elim!: attr_fits_cases simp: attr_data_length_def)
    moreover have "attr_view off name idl5 m e = ?h\<lparr>dah_seq := Some (k, rdata idl5 m e)\<rparr>"
      using False assms(2) by (simp add: attr_view_def)
    ultimately show ?thesis using IH False vec_slice_mid[of ?d "rdata idl5 m e" suf] by (simp add: attr_view_def)
  qed
qed simp

lemma scatter_map:
  assumes "runs_ok len vals arr (expect (int (length es) - 1) g es)"
  shows "scatter f vals arr (map h (rev es)) = Ok (map (\<lambda>e. upd_opt f (g e) (h e)) (rev es))"
  using scatter_expect[OF assms, of "map h (rev es)" f] by (simp add: zip_map2 zip_same_conv_map)

lemma unpack_attr_packs:
  assumes "attr_packs off name idl5 m k es h"
  shows "unpack_attr_history h =
     extract_attr_values (ha_value h) (map (\<lambda>e. (attr_view off name idl5 m e)\<lparr>dah_seq := None\<rparr>) (rev es))"
proof -
  let ?ds = "map (rdate off idl5) (rev es)" and ?init = "DeviceAttributeHistory_init :: 'b DeviceAttributeHistory"
  let ?h1 = "\<lambda>e. ?init\<lparr>dah_time := rdate off idl5 e, dah_name := name\<rparr>"
  have h: "ha_dates h = ?ds" "ha_name h = name" using assms by (simp_all add: attr_packs_def rev_map)
  obtain l1 l2 l3 l4 where
    r: "runs_ok l1 (ha_quals h) (ha_quals_array h) (expect (int (length es) - 1) (\<lambda>e. Some (rq idl5 e)) es)"
       "runs_ok l2 (ha_r_dims h) (ha_r_dims_array h) (expect (int (length es) - 1) (\<lambda>e. Some (rr idl5 e)) es)"
       "runs_ok l3 (ha_w_dims h) (ha_w_dims_array h) (expect (int (length es) - 1) (\<lambda>e. Some (rw idl5 e)) es)"
       "runs_ok l4 (ha_errors h) (ha_errors_array h) (expect (int (length es) - 1) re_except es)"
    using assms unfolding attr_packs_def by blast
  have len: "length (ha_quals h) = length (ha_quals_array h)" "length (ha_r_dims h) = length (ha_r_dims_array h)"
    "length (ha_w_dims h) = length (ha_w_dims_array h)" "length (ha_errors h) = length (ha_errors_array h)"
    using r unfolding runs_ok_def by blast+
  have d: "set_dates_names name ?ds 0 (map (\<lambda>_. ?init) ?ds) = Ok (map ?h1 (rev es))"
    using set_dates_names_ok[of ?ds "map (\<lambda>_. ?init) ?ds" name "[]"]
    by (simp add: map2_map_map zip_map1 zip_map2 zip_same_conv_map split_def comp_def)
  have view: "upd_opt (\<lambda>es r. r\<lparr>dah_fail := True, dah_err_list := es\<rparr>) (re_except e)
      ((?h1 e)\<lparr>dah_quality := rq idl5 e, dah_r_dim := rr idl5 e, dah_w_dim := rw idl5 e\<rparr>) =
      (attr_view off name idl5 m e)\<lparr>dah_seq := None\<rparr>" for e :: "('a, 'b any) RingElt"
    by (cases "re_except e") (simp_all add: upd_opt_def attr_view_def DeviceAttributeHistory_init_def failed_def)
  have "unpack_attr_history h = extract_attr_values (ha_value h)
      (map (\<lambda>e. upd_opt (\<lambda>es r. r\<lparr>dah_fail := True, dah_err_list := es\<rparr>) (re_except e)
        ((?h1 e)\<lparr>dah_quality := rq idl5 e, dah_r_dim := rr idl5 e, dah_w_dim := rw idl5 e\<rparr>)) (rev es))"
    unfolding unpack_attr_history_def from_hist_2_AttHistory_def h d
    by (simp add: len scatter_map[OF r(1)] scatter_map[OF r(2)] scatter_map[OF r(3)] scatter_map[OF r(4)] upd_opt_def)
  then show ?thesis unfolding view .
qed

interpretation attr_hist: history_transfer "attr_history_ok ty n dates" "get_attr_history off dv name n ty dates"
  unpack_attr_history "\<lambda>p. map (attr_view off name (ring_idl5 p) (attr_mode ty)) (rev (take (nat n) (pr_hist p)))"
  for ty n dates off dv name
proof (unfold_locales, goal_cases)
  case (1 p)
  let ?m = "attr_mode ty" and ?v = "ring_idl5 p"
  define es where "es = take (nat n) (pr_hist p)"
  obtain k where k: "mode_kind ?m = Some k" using 1 by (auto simp: attr_history_ok_def)
  have f: "\<forall>e \<in> set es. attr_fits ?v ?m e" using 1 by (auto simp: attr_history_ok_def es_def)
  obtain h where h: "get_attr_history off dv name n ty dates p = Ok h" "attr_packs off name ?v ?m k es h"
    using get_attr_history_packs[OF 1 k] unfolding es_def by blast
  have "unpack_attr_history h = Ok (map (attr_view off name ?v ?m) (rev es))"
  proof (cases "\<forall>e \<in> set es. rq ?v e = ATTR_INVALID")
    case True
    then have "ha_value h = Any_null" "\<forall>e \<in> set es. (attr_view off name ?v ?m e)\<lparr>dah_seq := None\<rparr> = attr_view off name ?v ?m e"
      using h(2) by (simp_all add: attr_packs_def attr_view_def)
    then show ?thesis unfolding unpack_attr_packs[OF h(2)] by simp
  next
    case False
    then have "ha_value h = Any_seq k (concat (map (rdata ?v ?m) es))" using h(2) unfolding attr_packs_def by (simp only: if_False)
    then show ?thesis
      unfolding unpack_attr_packs[OF h(2)] using extract_attr_loop_ok[of "rev es" ?v ?m k "[]" off name] f k by simp
  qed
  then show ?case using h(1) by (simp add: es_def)
qed


section \<open>Properties\<close>


definition ex_attr_value :: "AttrQuality \<Rightarrow> int \<Rightarrow> nat any \<Rightarrow> nat any AttributeValue" where
  "ex_attr_value q x a = \<lparr>av_value = a, av_quality = q, av_time = ex_tv, av_name = ''current'',
     av_r_dim = \<lparr>dim_x = x, dim_y = 0\<rparr>, av_w_dim = \<lparr>dim_x = 0, dim_y = 0\<rparr>, av_err_list = []\<rparr>"

definition ex_attr_ring :: "(nat, nat any) PollRing" where
  "ex_attr_ring = \<lparr>ring = [RingElt_init\<lparr>re_except := Some ex_error, re_when := 5\<rparr>,
     RingElt_init\<lparr>re_attr_value_5 := Some [ex_attr_value ATTR_VALID 2 (Any_seq K_db [7, 8])], re_when := 6\<rparr>, RingElt_init],
     pr_insert_elt = 2, pr_nb_elt = 2, pr_max_elt = 3\<rparr>"

lemmas ex_attr_simps = ex_attr_ring_def ex_attr_value_def ring_inv_def newest_def prev_idx_def numeral_2_eq_2
  numeral_3_eq_3 RingElt_init_def ex_error_def slot_attr_def first_value_def failed_def rq_def ex_tv_def vec_get_def


lemma attr_sizes_undef:
  assumes "int (length (ring p)) = pr_max_elt p" "0 \<le> index" "index < pr_max_elt p"
    and "\<exists>e \<in> set (walk_back (ring p) (pr_max_elt p) index k). re_except e = None \<and> re_attr_value_5 e = None"
  shows "attr_sizes_loop True p index k sz nb = Undef"
  using assms(2-4)
proof (induction k arbitrary: index sz nb)
  case (Suc k)
  let ?e = "ring p ! nat index"
  have step: "(if index = 0 then pr_max_elt p else index) - 1 = prev_idx (pr_max_elt p) index"
    by (simp add: prev_idx_def)
  have "0 \<le> prev_idx (pr_max_elt p) index" "prev_idx (pr_max_elt p) index < pr_max_elt p"
    using Suc.prems by (auto simp: prev_idx_def)
  note IH = Suc.IH[OF this]
  have "slot_attr True ?e = Undef \<or> (\<exists>v. slot_attr True ?e = Ok v)"
    by (auto simp: slot_attr_def first_value_def vec_get_def split: option.splits list.splits)
  then show ?case
    using Suc.prems IH assms(1)
    by (cases "re_except ?e = None"; cases "re_attr_value_5 ?e = None")
       (auto simp: vec_get_in Let_def step slot_attr_def first_value_def)
qed simp

text \<open>
  The release of the ring is read off its newest slot: release 5 if that slot has no
  value of release 4. A slot that has held nothing but an error has none, so when the
  newest reading of a device of release 4 failed in such a slot and an older one among
  those asked for has a value of release 4 only, the server follows a null pointer.
\<close>

theorem attr_history_release_misread:
  assumes "pr_inv p" "0 < n" "n \<le> pr_nb_elt p"
    and "re_attr_value_4 (hd (pr_hist p)) = None"
    and "\<exists>e \<in> set (take (nat n) (pr_hist p)). re_except e = None \<and> re_attr_value_5 e = None"
  shows "get_attr_history off dv name n ty dates p = Undef"
proof -
  note b = pr_walk[OF assms(1-3)]
  have "attr_sizes_loop True p (prev_idx (pr_max_elt p) (pr_insert_elt p)) (nat n) 0 0 = Undef"
    using attr_sizes_undef[OF b(1-3), of "nat n" 0 0] assms(5) unfolding b(4) by blast
  then show ?thesis using assms(4) b(5) unfolding get_attr_history_def pr_start by simp
qed

theorem attr_history_release_misread_witness:
  "\<exists>p. pr_run [Ins_attr_4 [ex_attr_value ATTR_VALID 2 (Any_seq K_db [7, 8])] 5 False, Ins_except ex_error 6]
         (PollRing_new 3 :: (nat, nat any) PollRing) = Ok p \<and>
     get_attr_history 0 0 ''current'' 2 DEV_DOUBLE [ex_tv, ex_tv] p = Undef"
proof -
  let ?v = "ex_attr_value ATTR_VALID 2 (Any_seq K_db [7, 8])"
  let ?p = "\<lparr>ring = [RingElt_init\<lparr>re_attr_value_4 := Some [?v], re_when := 5\<rparr>,
     RingElt_init\<lparr>re_except := Some ex_error, re_when := 6\<rparr>, RingElt_init],
     pr_insert_elt = 2, pr_nb_elt = 2, pr_max_elt = 3\<rparr> :: (nat, nat any) PollRing"
  have "pr_run [Ins_attr_4 [?v] 5 False, Ins_except ex_error 6] (PollRing_new 3) = Ok ?p"
    by (simp add: PollRing_new_def insert_data_attr_4_def insert_except_def pr_put_def pr_inc_indexes_def
        vec_get_def vec_set_def numeral_3_eq_3 RingElt_init_def)
  moreover have "get_attr_history 0 0 ''current'' 2 DEV_DOUBLE [ex_tv, ex_tv] ?p = Undef"
    by (rule attr_history_release_misread)
       (simp_all add: ring_inv_def newest_def prev_idx_def numeral_2_eq_2 RingElt_init_def)
  ultimately show ?thesis by blast
qed

text \<open>
  A record that was read with an invalid quality counts as \<open>no data\<close>, just as a failed
  one. Between two failures with the same error stack it is taken for a part of their
  run: the client sees it as failed with that error, and the older of the two failures
  as not failed.
\<close>

theorem attr_history_error_moved:
  assumes "pr_inv p" "3 \<le> pr_nb_elt p" "take 3 (pr_hist p) = [a, b, c]" "length dates = 3"
    and "re_except a = Some errs" "re_except b = None" "re_except c = Some errs" "errs \<noteq> []"
    and "slot_attr (ring_idl5 p) b = Ok v" "av_quality v = ATTR_INVALID"
      "av_r_dim v = \<lparr>dim_x = 0, dim_y = 0\<rparr>" "av_w_dim v = \<lparr>dim_x = 0, dim_y = 0\<rparr>"
  shows "\<exists>h hs. get_attr_history off dv name 3 ty dates p = Ok h \<and> unpack_attr_history h = Ok hs \<and>
     map dah_fail hs = [False, True, True] \<and> map dah_err_list hs = [[], errs, errs]"
proof -
  let ?i = "prev_idx (pr_max_elt p) (pr_insert_elt p)" and ?v = "ring_idl5 p"
  have "(0 :: int) < 3" by simp
  note b = pr_walk[OF assms(1) this assms(2)]
  have w: "walk_back (ring p) (pr_max_elt p) ?i (nat 3) = [a, b, c]" using b(4) assms(3) by simp
  have sizes: "attr_sizes_loop ?v p ?i (nat 3) 0 0 = Ok (0, 2)"
    using attr_sizes_ok[OF b(1-3), of "nat 3" ?v "M_array K_sh" 0 0] unfolding w
    using assms(5-12) by (simp add: attr_fits_def attr_data_length_def dims_data_length_def failed_def rdata_def rq_def)
  obtain d0 d1 d2 where d: "dates = [d0, d1, d2]" using assms(4)
    by (metis (no_types) length_Suc_conv length_0_conv numeral_3_eq_3)
  have fin: "attr_final_value ty s = Any_null" if "as_new_tmp s = (\<lambda>_. None)" "as_value s = Any_null" for s :: "'b attr_state"
    using that by (cases ty) (simp_all add: attr_final_value_def attr_insert_seq_def)
  let ?z = "\<lparr>dim_x = 0, dim_y = 0\<rparr>" and ?run = "[\<lparr>start = 2, eia_nb_elt = 3\<rparr>]"
  have "\<exists>s e0 e1 e2. attr_list off dv ty ?v 0 2 3 0 [a, b, c] (attr_init dates) = Ok s \<and>
      as_dates s = [e0, e1, e2] \<and> as_value s = Any_null \<and>
      rl_vals (as_quals s) = [ATTR_INVALID] \<and> rl_array (as_quals s) = ?run \<and>
      rl_vals (as_r_dims s) = [?z] \<and> rl_array (as_r_dims s) = ?run \<and>
      rl_vals (as_w_dims s) = [?z] \<and> rl_array (as_w_dims s) = ?run \<and>
      er_errors (as_err s) = [errs] \<and> er_array (as_err s) = [\<lparr>start = 2, eia_nb_elt = 2\<rparr>]"
    unfolding attr_list.simps using assms(5-12)
    by (simp add: d fin attr_step_def attr_record_def attr_date_def put_failure_def put_props_def run_put_def
        add_error_def is_new_err_iff open_run_def extend_run_def seq_length_def vec_set_def vec_get_def attr_init_def
        runs_init_def err_runs_init_def attr_close_def cut_errors_def Let_def numeral_3_eq_3 numeral_2_eq_2)
  then obtain s e0 e1 e2 where s: "attr_list off dv ty ?v 0 2 3 0 [a, b, c] (attr_init dates) = Ok s"
      "as_dates s = [e0, e1, e2]" "as_value s = Any_null"
      "rl_vals (as_quals s) = [ATTR_INVALID]" "rl_array (as_quals s) = ?run"
      "rl_vals (as_r_dims s) = [?z]" "rl_array (as_r_dims s) = ?run"
      "rl_vals (as_w_dims s) = [?z]" "rl_array (as_w_dims s) = ?run"
      "er_errors (as_err s) = [errs]" "er_array (as_err s) = [\<lparr>start = 2, eia_nb_elt = 2\<rparr>]"
    by blast
  have "get_attr_history off dv name 3 ty dates p = Ok (attr_message name s)"
    using b(5) sizes s(1)
    unfolding get_attr_history_def pr_start Let_def attr_loop_walk[OF b(1-3)] w by (simp add: attr_message_def)
  moreover have "\<exists>hs. unpack_attr_history (attr_message name s) = Ok hs \<and>
     map dah_fail hs = [False, True, True] \<and> map dah_err_list hs = [[], errs, errs]"
    by (simp add: unpack_attr_history_def from_hist_2_AttHistory_def attr_message_def s(2-)
        vec_get_def vec_set_def DeviceAttributeHistory_init_def numeral_3_eq_3 numeral_2_eq_2)
  ultimately show ?thesis by simp
qed

definition ex_moved_ring :: "(nat, nat any) PollRing" where
  "ex_moved_ring = \<lparr>ring = [RingElt_init\<lparr>re_except := Some ex_error, re_when := 5\<rparr>,
     RingElt_init\<lparr>re_attr_value_5 := Some [ex_attr_value ATTR_INVALID 0 Any_null], re_when := 6\<rparr>,
     RingElt_init\<lparr>re_except := Some ex_error, re_when := 7\<rparr>],
     pr_insert_elt = 0, pr_nb_elt = 3, pr_max_elt = 3\<rparr>"

theorem attr_history_error_moved_witness:
  "map failed (rev (pr_hist ex_moved_ring)) = [True, False, True] \<and>
   (\<exists>h hs. get_attr_history 0 0 ''current'' 3 DEV_DOUBLE [ex_tv, ex_tv, ex_tv] ex_moved_ring = Ok h \<and>
     unpack_attr_history h = Ok hs \<and>
     map dah_fail hs = [False, True, True] \<and> map dah_err_list hs = [[], ex_error, ex_error])"
proof
  show "map failed (rev (pr_hist ex_moved_ring)) = [True, False, True]"
    by (simp add: ex_moved_ring_def ex_attr_simps)
  show "\<exists>h hs. get_attr_history 0 0 ''current'' 3 DEV_DOUBLE [ex_tv, ex_tv, ex_tv] ex_moved_ring = Ok h \<and>
     unpack_attr_history h = Ok hs \<and>
     map dah_fail hs = [False, True, True] \<and> map dah_err_list hs = [[], ex_error, ex_error]"
    by (rule attr_history_error_moved[where a = "ring ex_moved_ring ! 2" and b = "ring ex_moved_ring ! 1"
          and c = "ring ex_moved_ring ! 0" and v = "ex_attr_value ATTR_INVALID 0 Any_null"])
       (simp_all add: ex_moved_ring_def ex_attr_simps)
qed

end
