(* ===== verification/Device_Lock.thy ===== *)
theory Device_Lock
  imports Client_Addr
begin

text \<open>
  Device locking on the server: the lock of a device (\<open>DeviceImpl::lock\<close>,
  \<open>relock\<close>, \<open>unlock\<close>, \<open>basic_unlock\<close>, \<open>valid_lock\<close>, \<open>lock_status\<close>,
  \<open>check_lock\<close> and \<open>lock_root_devices\<close> of \<open>device.cpp\<close>,
  \<open>DeviceClass::is_command_allowed\<close>, \<open>DServer::check_lock_owner\<close>) and the
  commands of the administration device (\<open>dserverlock.cpp\<close>) with the search of a
  device by its name (\<open>utils.cpp\<close>). An operation maps a device to an outcome and the
  device it leaves, since an exception does not undo what was done before it. The
  system time in seconds is an argument \<open>now\<close>, the client is the one the interceptor
  attached to the thread. The proxies of the root devices of forwarded attributes are a
  parameter \<open>root\<close>: what a call on the device of that name gives. The alias table of the
  database is a parameter \<open>db_alias\<close>.
\<close>

section \<open>The lock of a device\<close>

datatype root_call = Root_lock int | Root_unlock

type_synonym root_proxies = "string \<Rightarrow> root_call \<Rightarrow> unit result"

text \<open>
  The locking members of \<open>DeviceImpl\<close>, with what the operations read of the rest: the
  name, the alias, the class name and its allowed commands, whether there are forwarded
  attributes, and for each attribute the device it is forwarded to, if any.
\<close>

record lock_dev =
  device_name :: string
  alias_name_lower :: string
  class_name :: string
  allowed_cmds :: "string list"
  with_fwd_att :: bool
  att_fwd_dev :: "string option list"
  device_locked :: bool
  locker_client :: "client_addr option"
  old_locker_client :: "client_addr option"
  lock_validity :: int
  locking_date :: int
  lock_stat :: string
  lock_ctr :: int

text \<open>\<open>lock_root_devices\<close>: the devices behind the forwarded attributes, each once.\<close>

fun root_devices :: "string option list \<Rightarrow> string list \<Rightarrow> string list" where
  "root_devices [] devs = devs"
| "root_devices (None # as) devs = root_devices as devs"
| "root_devices (Some d # as) devs = root_devices as (if d \<in> set devs then devs else devs @ [d])"

fun call_roots :: "root_proxies \<Rightarrow> root_call \<Rightarrow> string list \<Rightarrow> unit result" where
  "call_roots root c [] = Ok ()"
| "call_roots root c (d # ds) = rbind (root d c) (\<lambda>_. call_roots root c ds)"

definition lock_root_devices :: "root_proxies \<Rightarrow> int \<Rightarrow> bool \<Rightarrow> lock_dev \<Rightarrow> unit result" where
  "lock_root_devices root validity lock_action d =
     call_roots root (if lock_action then Root_lock validity else Root_unlock)
       (root_devices (att_fwd_dev d) [])"

definition valid_lock :: "int \<Rightarrow> lock_dev \<Rightarrow> bool" where
  "valid_lock now d \<longleftrightarrow> now \<le> locking_date d + lock_validity d"

definition basic_unlock :: "root_proxies \<Rightarrow> bool \<Rightarrow> lock_dev \<Rightarrow> unit result \<times> lock_dev" where
  "basic_unlock root forced d =
     (let d' = d\<lparr>device_locked := False,
                 old_locker_client := (if forced then locker_client d else old_locker_client d),
                 locker_client := None, lock_ctr := 0\<rparr>
      in (if with_fwd_att d' then lock_root_devices root 0 False d' else Ok (), d'))"

text \<open>\<open>*cl != *(locker_client)\<close>, with either pointer possibly null.\<close>

definition other_client :: "client_addr option \<Rightarrow> client_addr option \<Rightarrow> bool result" where
  "other_client cl locker =
     (case cl of None \<Rightarrow> Undef
      | Some c \<Rightarrow> (case locker of None \<Rightarrow> Undef | Some l \<Rightarrow> client_addr_neq c l))"

definition DeviceLocked :: "string \<Rightarrow> exn" where
  "DeviceLocked desc = DevFailed ''API_DeviceLocked'' desc"

definition DeviceNotLocked :: "string \<Rightarrow> exn" where
  "DeviceNotLocked desc = DevFailed ''API_DeviceNotLocked'' desc"

text \<open>The part of \<open>lock\<close> after the checks.\<close>

definition take_lock :: "root_proxies \<Rightarrow> int \<Rightarrow> client_addr \<Rightarrow> int \<Rightarrow> lock_dev \<Rightarrow> unit result \<times> lock_dev" where
  "take_lock root now cl validity d =
     (let d' = d\<lparr>device_locked := True,
                 locker_client := (if locker_client d = None then Some (client_addr_copy cl cl) else locker_client d),
                 locking_date := now, lock_validity := validity, lock_ctr := lock_ctr d + 1\<rparr>
      in (if with_fwd_att d' then lock_root_devices root validity True d' else Ok (), d'))"

definition lock :: "root_proxies \<Rightarrow> int \<Rightarrow> client_addr \<Rightarrow> int \<Rightarrow> lock_dev \<Rightarrow> unit result \<times> lock_dev" where
  "lock root now cl validity d =
     (if device_locked d then
        (if valid_lock now d then
           sbind (checked (other_client (Some cl) (locker_client d)) d) (\<lambda>other d.
             if other then
               (Throw (DeviceLocked (''Device '' @ device_name d @ '' is already locked by another client'')), d)
             else take_lock root now cl validity d)
         else sbind (basic_unlock root False d) (\<lambda>_. take_lock root now cl validity))
      else take_lock root now cl validity d)"

definition relock :: "int \<Rightarrow> client_addr \<Rightarrow> lock_dev \<Rightarrow> unit result \<times> lock_dev" where
  "relock now cl d =
     (if device_locked d then
        (if valid_lock now d then
           sbind (checked (other_client (Some cl) (locker_client d)) d) (\<lambda>other d.
             if other then
               (Throw (DeviceLocked (device_name d @ '': '' @ ''Device '' @ device_name d @
                                     '' is already locked by another client'')), d)
             else (Ok (), d\<lparr>device_locked := True, locking_date := now\<rparr>))
         else (Throw (DeviceNotLocked (device_name d @ '': '' @ ''Device '' @ device_name d @
                                       '' is not locked. Can't re-lock it'')), d))
      else (Throw (DeviceNotLocked (device_name d @ '': '' @ ''Device '' @ device_name d @
                                    '' is not locked. Can't re-lock it'')), d))"

definition drop_lock :: "root_proxies \<Rightarrow> bool \<Rightarrow> lock_dev \<Rightarrow> int result \<times> lock_dev" where
  "drop_lock root forced d =
     (let d' = (if lock_ctr d > 0 then d\<lparr>lock_ctr := lock_ctr d - 1\<rparr> else d) in
      if lock_ctr d' \<le> 0 \<or> forced then sbind (basic_unlock root forced d') (\<lambda>_ d''. (Ok (lock_ctr d''), d''))
      else (Ok (lock_ctr d'), d'))"

definition unlock :: "root_proxies \<Rightarrow> int \<Rightarrow> client_addr option \<Rightarrow> bool \<Rightarrow> lock_dev \<Rightarrow> int result \<times> lock_dev" where
  "unlock root now cl forced d =
     (if device_locked d \<and> valid_lock now d \<and> \<not> forced then
        sbind (checked (other_client cl (locker_client d)) d) (\<lambda>other d.
          if other then
            (Throw (DeviceLocked (''Device '' @ device_name d @ '' is locked by another client, can't unlock it'')), d)
          else drop_lock root forced d)
      else drop_lock root forced d)"

section \<open>Status and checks\<close>

text \<open>
  \<open>DevVarLongStringArray\<close> with 32 bit longs. The string sent is the one before the
  first NUL, which \<open>std::ends\<close> adds to the name of the locker.
\<close>

record DevVarLongStringArray =
  lvalue :: "32 word list"
  svalue :: "string list"

definition high_long :: "64 word \<Rightarrow> 32 word" where
  "high_long w = ucast (drop_bit 32 (Bit_Operations.and w 0xFFFFFFFF00000000))"

definition low_long :: "64 word \<Rightarrow> 32 word" where
  "low_long w = ucast (Bit_Operations.and w 0xFFFFFFFF)"

definition c_part :: "string \<Rightarrow> string" where
  "c_part s = takeWhile (\<lambda>c. c \<noteq> NUL) s"

definition not_locked_status :: "lock_dev \<Rightarrow> DevVarLongStringArray \<times> lock_dev" where
  "not_locked_status d =
     (let stat = ''Device '' @ device_name d @ '' is not locked''
      in (\<lparr>lvalue = replicate 6 0, svalue = [c_part stat, ''Not defined'', ''Not defined'']\<rparr>, d\<lparr>lock_stat := stat\<rparr>))"

definition locked_status ::
  "(string \<Rightarrow> string option) \<Rightarrow> client_addr \<Rightarrow> lock_dev \<Rightarrow> DevVarLongStringArray result \<times> lock_dev" where
  "locked_status getname l d =
     sbind (checked (print_client_addr getname l) d) (\<lambda>who d.
     let stat = (''Device '' @ device_name d @ '' is locked by '') @ who @ [NUL] in
     sbind (checked (c_str (ca_client_ip l)) (d\<lparr>lock_stat := stat\<rparr>)) (\<lambda>ip d.
       (Ok \<lparr>lvalue = [1, of_nat (ca_client_pid l)] @
              (if ca_client_lang l = JAVA then
                 [high_long (ca_java_ident0 l), low_long (ca_java_ident0 l),
                  high_long (ca_java_ident1 l), low_long (ca_java_ident1 l)]
               else [0, 0, 0, 0]),
            svalue = [c_part stat, ip,
                      if ca_client_lang l = JAVA then c_part (ca_java_main_class l) else ''Not defined'']\<rparr>, d)))"

definition lock_status ::
  "(string \<Rightarrow> string option) \<Rightarrow> root_proxies \<Rightarrow> int \<Rightarrow> lock_dev \<Rightarrow> DevVarLongStringArray result \<times> lock_dev" where
  "lock_status getname root now d =
     (if device_locked d then
        (if valid_lock now d then
           (case locker_client d of None \<Rightarrow> (Undef, d) | Some l \<Rightarrow> locked_status getname l d)
         else sbind (basic_unlock root False d) (\<lambda>_ d. case not_locked_status d of (st, d) \<Rightarrow> (Ok st, d)))
      else (case not_locked_status d of (st, d) \<Rightarrow> (Ok st, d)))"

definition is_command_allowed :: "string \<Rightarrow> lock_dev \<Rightarrow> bool" where
  "is_command_allowed cmd d \<longleftrightarrow> lower cmd \<in> set (allowed_cmds d)"

definition throw_locked_exception :: "lock_dev \<Rightarrow> unit result" where
  "throw_locked_exception d = Throw (DeviceLocked (''Device '' @ device_name d @ '' is locked by another client''))"

text \<open>Refused unless the request is a command and an allowed one.\<close>

definition refuse_unless_allowed :: "string option \<Rightarrow> lock_dev \<Rightarrow> unit result" where
  "refuse_unless_allowed cmd d =
     (case cmd of
        Some c \<Rightarrow> if \<not> is_command_allowed c d then throw_locked_exception d else Ok ()
      | None \<Rightarrow> throw_locked_exception d)"

definition check_locked :: "client_addr option \<Rightarrow> string option \<Rightarrow> lock_dev \<Rightarrow> unit result" where
  "check_locked cl cmd d =
     (case cl of None \<Rightarrow> Undef
      | Some c \<Rightarrow>
          rbind (if \<not> ca_client_ident c then refuse_unless_allowed cmd d else Ok ()) (\<lambda>_.
          rbind (other_client cl (locker_client d)) (\<lambda>other.
            if other then refuse_unless_allowed cmd d else Ok ())))"

text \<open>
  A client whose lock was taken away by a forced unlock is told so. The request of any
  other client ends that notice.
\<close>

definition check_not_locked :: "client_addr option \<Rightarrow> lock_dev \<Rightarrow> unit result \<times> lock_dev" where
  "check_not_locked cl d =
     (case old_locker_client d of
        None \<Rightarrow> (Ok (), d)
      | Some old \<Rightarrow>
          (case cl of None \<Rightarrow> (Undef, d)
           | Some c \<Rightarrow>
               sbind (checked (client_addr_eq c old) d) (\<lambda>same d.
                 if same then
                   (Throw (DevFailed ''API_DeviceUnlocked''
                      (''Device '' @ device_name d @ '' has been unlocked by an administrative client!!!'')), d)
                 else (Ok (), d\<lparr>old_locker_client := None\<rparr>))))"

definition check_lock :: "root_proxies \<Rightarrow> int \<Rightarrow> client_addr option \<Rightarrow> string option \<Rightarrow> lock_dev \<Rightarrow> unit result \<times> lock_dev" where
  "check_lock root now cl cmd d =
     (if device_locked d then
        (if valid_lock now d then checked (check_locked cl cmd d) d
         else basic_unlock root False d)
      else check_not_locked cl d)"

definition check_lock_owner :: "int \<Rightarrow> client_addr option \<Rightarrow> string \<Rightarrow> lock_dev \<Rightarrow> unit result" where
  "check_lock_owner now cl dev_name d =
     (let refused = Throw (DeviceLocked (''Device '' @ dev_name @ '' is locked by another client.'' @
            '' Your request is not allowed while a device is locked.''))
      in if device_locked d \<and> valid_lock now d then
           (case cl of None \<Rightarrow> Undef
            | Some c \<Rightarrow>
                (if ca_client_ident c then
                   rbind (other_client cl (locker_client d)) (\<lambda>other. if other then refused else Ok ())
                 else refused))
         else Ok ())"

text \<open>A restart of the device hands the lock of the old object over to the new one.\<close>

definition set_locking_param ::
  "client_addr option \<Rightarrow> client_addr option \<Rightarrow> int \<Rightarrow> int \<Rightarrow> int \<Rightarrow> lock_dev \<Rightarrow> lock_dev" where
  "set_locking_param cl old_cl date ctr valid d =
     d\<lparr>locker_client := cl, old_locker_client := old_cl, locking_date := date, lock_ctr := ctr,
       device_locked := True, lock_validity := valid\<rparr>"

definition restart_lock :: "lock_dev \<Rightarrow> lock_dev \<Rightarrow> lock_dev" where
  "restart_lock dev_to_del new_dev =
     (let cl_addr = (if device_locked dev_to_del then locker_client dev_to_del else None) in
      if cl_addr \<noteq> None then
        set_locking_param cl_addr (old_locker_client dev_to_del) (locking_date dev_to_del) (lock_ctr dev_to_del)
          (lock_validity dev_to_del) new_dev
      else new_dev)"


section \<open>The commands of the administration device\<close>

text \<open>
  A server: its administration device and the devices of its classes in the order of
  the search. A device found is the administration device or one of the list.
\<close>

record dserver =
  ds_self :: lock_dev
  ds_devs :: "lock_dev list"

datatype dev_ptr = Dev_admin | Dev_at nat

fun find_in_list :: "string \<Rightarrow> lock_dev list \<Rightarrow> nat \<Rightarrow> nat option" where
  "find_in_list name [] j = None"
| "find_in_list name (d # ds) j =
     (if lower (device_name d) = name then Some j
      else if alias_name_lower d \<noteq> [] \<and> alias_name_lower d = name then Some j
      else find_in_list name ds (j + 1))"

definition find_device_name_core :: "string \<Rightarrow> dserver \<Rightarrow> dev_ptr option" where
  "find_device_name_core name s =
     (case find_in_list name (ds_devs s) 0 of
        Some j \<Rightarrow> Some (Dev_at j)
      | None \<Rightarrow>
          (if find_str ''dserver/'' name = Some 0 \<and> lower (device_name (ds_self s)) = name then Some Dev_admin
           else None))"

fun get_dev :: "dev_ptr \<Rightarrow> dserver \<Rightarrow> lock_dev" where
  "get_dev Dev_admin s = ds_self s"
| "get_dev (Dev_at j) s = ds_devs s ! j"

fun set_dev :: "dev_ptr \<Rightarrow> lock_dev \<Rightarrow> dserver \<Rightarrow> dserver" where
  "set_dev Dev_admin d s = s\<lparr>ds_self := d\<rparr>"
| "set_dev (Dev_at j) d s = s\<lparr>ds_devs := (ds_devs s)[j := d]\<rparr>"

text \<open>The alias table gives \<open>None\<close> without a database, for an unknown alias and for an empty name.\<close>

definition get_device_by_name :: "(string \<Rightarrow> string option) \<Rightarrow> string \<Rightarrow> dserver \<Rightarrow> dev_ptr result \<times> dserver" where
  "get_device_by_name db_alias dev_name s =
     (case find_device_name_core (lower dev_name) s of
        Some p \<Rightarrow> (Ok p, s)
      | None \<Rightarrow>
          (case (case db_alias (lower dev_name) of None \<Rightarrow> None | Some n \<Rightarrow> find_device_name_core (lower n) s) of
             Some p \<Rightarrow> (Ok p, set_dev p ((get_dev p s)\<lparr>alias_name_lower := lower dev_name\<rparr>) s)
           | None \<Rightarrow> (Throw (DevFailed ''API_DeviceNotFound'' (''Device '' @ dev_name @ '' not found'')), s)))"

text \<open>An operation of a device run on the device of a server.\<close>

definition on_dev :: "dev_ptr \<Rightarrow> (lock_dev \<Rightarrow> 'a result \<times> lock_dev) \<Rightarrow> dserver \<Rightarrow> 'a result \<times> dserver" where
  "on_dev p f s = (case f (get_dev p s) of (r, d) \<Rightarrow> (r, set_dev p d s))"

text \<open>
  \<open>lock_device\<close>: the database class and the administration device itself are refused.
  \<open>get_client_ident\<close> is the client of the thread, possibly none.
\<close>

definition client_or_throw :: "client_addr option \<Rightarrow> bool \<Rightarrow> string \<Rightarrow> client_addr result" where
  "client_or_throw cl too_old msg =
     (case cl of
        None \<Rightarrow> Throw (DevFailed ''API_CantGetClientIdent'' ''Cannot retrieve client identification'')
      | Some c \<Rightarrow> if \<not> ca_client_ident c \<and> too_old then Throw (DevFailed ''API_ClientTooOld'' msg) else Ok c)"

definition lock_device ::
  "(string \<Rightarrow> string option) \<Rightarrow> root_proxies \<Rightarrow> int \<Rightarrow> client_addr option \<Rightarrow> string \<Rightarrow> int \<Rightarrow> dserver \<Rightarrow>
   unit result \<times> dserver" where
  "lock_device db_alias root now cl dev_name validity s =
     sbind (checked (client_or_throw cl True
       ''Your client cannot lock devices. You are using a too old Tango release. Please, update to tango V7 or more'') s)
       (\<lambda>c s.
     if lower dev_name = lower (device_name (ds_self s)) then
       (Throw (DevFailed ''API_DeviceUnlockable'' ''Impossible to lock device server administration device''), s)
     else sbind (get_device_by_name db_alias dev_name s) (\<lambda>p s.
       if class_name (get_dev p s) = ''DataBase'' then
         (Throw (DevFailed ''API_DeviceUnlockable'' ''Impossible to lock database device''), s)
       else on_dev p (lock root now c validity) s))"

text \<open>
  \<open>un_lock_device\<close> goes through a list of names; the counter of the first one is the
  result when it is the only one. The name of the administration device is compared as
  it is written.
\<close>

definition un_lock_one ::
  "(string \<Rightarrow> string option) \<Rightarrow> root_proxies \<Rightarrow> int \<Rightarrow> client_addr option \<Rightarrow> bool \<Rightarrow> string \<Rightarrow> dserver \<Rightarrow>
   int result \<times> dserver" where
  "un_lock_one db_alias root now cl forced d_name s =
     (if d_name = device_name (ds_self s) then (Ok (lock_ctr (ds_self s)), s)
      else sbind (get_device_by_name db_alias d_name s) (\<lambda>p. on_dev p (unlock root now cl forced)))"

fun un_lock_loop ::
  "(string \<Rightarrow> string option) \<Rightarrow> root_proxies \<Rightarrow> int \<Rightarrow> client_addr option \<Rightarrow> bool \<Rightarrow> bool \<Rightarrow> string list \<Rightarrow> int \<Rightarrow>
   dserver \<Rightarrow> int result \<times> dserver" where
  "un_lock_loop db_alias root now cl forced first [] ctr s = (Ok ctr, s)"
| "un_lock_loop db_alias root now cl forced first (n # ns) ctr s =
     sbind (un_lock_one db_alias root now cl forced n s) (\<lambda>ctr' s'.
       un_lock_loop db_alias root now cl forced False ns (if first then ctr' else 0) s')"

definition un_lock_device ::
  "(string \<Rightarrow> string option) \<Rightarrow> root_proxies \<Rightarrow> int \<Rightarrow> client_addr option \<Rightarrow> string list \<Rightarrow> int \<Rightarrow> dserver \<Rightarrow>
   int result \<times> dserver" where
  "un_lock_device db_alias root now cl names force s =
     sbind (checked (client_or_throw cl (force = 0)
       ''Your client cannot un-lock devices. You are using a too old Tango release. Please, update to tango V7 or more'') s)
       (\<lambda>_ s. un_lock_loop db_alias root now cl (force \<noteq> 0) True names 0 s)"

text \<open>
  \<open>re_lock_devices\<close> remembers the first level of each exception and throws them together
  at the end. A name that is not found is remembered too, and the null pointer is then
  used to re-lock.
\<close>

fun first_error :: "exn \<Rightarrow> DevError list" where
  "first_error (DevFailed_stack (e # es)) = [e]"
| "first_error (DevFailed_stack []) = []"
| "first_error (DevFailed r d) = [\<lparr>err_reason = r, err_desc = d, err_origin = '''', err_severity = ERR\<rparr>]"
| "first_error (EventSystemFailed r d) = [\<lparr>err_reason = r, err_desc = d, err_origin = '''', err_severity = ERR\<rparr>]"

fun re_lock_loop ::
  "(string \<Rightarrow> string option) \<Rightarrow> int \<Rightarrow> client_addr \<Rightarrow> string list \<Rightarrow> DevError list \<Rightarrow> dserver \<Rightarrow>
   DevError list result \<times> dserver" where
  "re_lock_loop db_alias now c [] errors s = (Ok errors, s)"
| "re_lock_loop db_alias now c (n # ns) errors s =
     (case get_device_by_name db_alias n s of
        (Ok p, s1) \<Rightarrow>
          (case on_dev p (relock now c) s1 of
             (Ok _, s2) \<Rightarrow> re_lock_loop db_alias now c ns errors s2
           | (Throw e, s2) \<Rightarrow> re_lock_loop db_alias now c ns (errors @ first_error e) s2
           | (Undef, s2) \<Rightarrow> (Undef, s2))
      | (Throw e, s1) \<Rightarrow> (Undef, s1)
      | (Undef, s1) \<Rightarrow> (Undef, s1))"

definition re_lock_devices ::
  "(string \<Rightarrow> string option) \<Rightarrow> int \<Rightarrow> client_addr option \<Rightarrow> string list \<Rightarrow> dserver \<Rightarrow> unit result \<times> dserver" where
  "re_lock_devices db_alias now cl names s =
     sbind (checked (client_or_throw cl True
       ''Your client cannot re_lock devices. You are using a too old Tango release. Please, update to tango V7 or more'') s)
       (\<lambda>c s.
     sbind (re_lock_loop db_alias now c names [] s) (\<lambda>errors s.
       (if errors \<noteq> [] then Throw (DevFailed_stack errors) else Ok (), s)))"

definition dev_lock_status ::
  "(string \<Rightarrow> string option) \<Rightarrow> (string \<Rightarrow> string option) \<Rightarrow> root_proxies \<Rightarrow> int \<Rightarrow> string \<Rightarrow> dserver \<Rightarrow>
   DevVarLongStringArray result \<times> dserver" where
  "dev_lock_status db_alias getname root now dev_name s =
     sbind (get_device_by_name db_alias dev_name s) (\<lambda>p. on_dev p (lock_status getname root now))"


section \<open>The invariant of the lock\<close>

text \<open>
  A device is locked exactly if it has a locker and a positive counter; the clients
  kept are well-formed.
\<close>

definition lock_inv :: "lock_dev \<Rightarrow> bool" where
  "lock_inv d \<longleftrightarrow>
     (if device_locked d then locker_client d \<noteq> None \<and> 1 \<le> lock_ctr d
      else locker_client d = None \<and> lock_ctr d = 0) \<and>
     (\<forall>l. locker_client d = Some l \<longrightarrow> ca_ok l) \<and> (\<forall>l. old_locker_client d = Some l \<longrightarrow> ca_ok l)"

lemma other_client_ok:
  "ca_ok c \<Longrightarrow> ca_ok l \<Longrightarrow> other_client (Some c) (Some l) = Ok (\<not> same_client c l)"
  by (simp add: other_client_def client_addr_neq_same)

lemma lock_inv_locker:
  assumes "lock_inv d" "device_locked d"
  obtains l where "locker_client d = Some l" "ca_ok l" "1 \<le> lock_ctr d"
  using assms by (auto simp: lock_inv_def)

lemma call_roots_defined: "(\<And>n c. root n c \<noteq> Undef) \<Longrightarrow> call_roots root c ds \<noteq> Undef"
proof (induction ds)
  case (Cons n ds)
  then show ?case by (cases "root n c") auto
qed simp

lemma basic_unlock_inv:
  assumes "basic_unlock root forced d = (r, d')" "lock_inv d"
  shows "lock_inv d'" "\<not> device_locked d'" "(\<And>n c. root n c \<noteq> Undef) \<Longrightarrow> r \<noteq> Undef"
    and "\<not> with_fwd_att d \<Longrightarrow> r = Ok ()"
  using assms by (auto simp: basic_unlock_def Let_def lock_inv_def lock_root_devices_def call_roots_defined split: if_splits)

lemma take_lock_inv:
  assumes "take_lock root now c v d = (r, d')" "lock_inv d" "ca_ok c"
  shows "lock_inv d'" "(\<And>n c. root n c \<noteq> Undef) \<Longrightarrow> r \<noteq> Undef"
  using assms
  by (auto simp: take_lock_def Let_def lock_inv_def lock_root_devices_def call_roots_defined split: if_splits)

section \<open>Requests\<close>

text \<open>The requests on a device, each with its time and client. The result of a status is left out.\<close>

datatype lock_req = R_lock int | R_relock | R_unlock bool | R_status | R_check "string option"

definition forget :: "'a result \<times> 's \<Rightarrow> unit result \<times> 's" where
  "forget x = sbind x (\<lambda>_ s. (Ok (), s))"

lemma forget_eq [simp]: "forget (r, s) = (rbind r (\<lambda>_. Ok ()), s)"
  by (cases r) (simp_all add: forget_def)

fun dev_request ::
  "(string \<Rightarrow> string option) \<Rightarrow> root_proxies \<Rightarrow> int \<Rightarrow> client_addr \<Rightarrow> lock_req \<Rightarrow> lock_dev \<Rightarrow> unit result \<times> lock_dev" where
  "dev_request getname root now c (R_lock v) d = lock root now c v d"
| "dev_request getname root now c R_relock d = relock now c d"
| "dev_request getname root now c (R_unlock forced) d = forget (unlock root now (Some c) forced d)"
| "dev_request getname root now c R_status d = forget (lock_status getname root now d)"
| "dev_request getname root now c (R_check cmd) d = check_lock root now (Some c) cmd d"

abbreviation run_requests ::
  "(string \<Rightarrow> string option) \<Rightarrow> root_proxies \<Rightarrow> (int \<times> client_addr \<times> lock_req) list \<Rightarrow> lock_dev \<Rightarrow>
   unit result list \<times> lock_dev" where
  "run_requests getname root \<equiv> run_steps (\<lambda>(t, c, q). dev_request getname root t c q)"

text \<open>What an operation leaves of the invariant, whatever it answers.\<close>

definition keeps :: "'a result \<times> lock_dev \<Rightarrow> bool" where
  "keeps x \<longleftrightarrow> fst x \<noteq> Undef \<and> lock_inv (snd x)"

lemma keeps_forget [simp]: "keeps (forget x) = keeps x"
  by (cases x; cases "fst x") (auto simp: keeps_def)

lemma keeps_sbind: "keeps x \<Longrightarrow> (\<And>y d. x = (Ok y, d) \<Longrightarrow> lock_inv d \<Longrightarrow> keeps (f y d)) \<Longrightarrow> keeps (sbind x f)"
  by (cases x; cases "fst x") (auto simp: keeps_def)

lemma keeps_pair [simp]: "keeps (Ok x, d) = lock_inv d" "keeps (Throw e, d) = lock_inv d"
  by (simp_all add: keeps_def)

lemma keeps_checked [simp]: "keeps (checked r d) \<longleftrightarrow> r \<noteq> Undef \<and> lock_inv d"
  by (simp add: keeps_def checked_def)

definition roots_ok :: "root_proxies \<Rightarrow> bool" where
  "roots_ok root \<longleftrightarrow> (\<forall>n c. root n c \<noteq> Undef)"

lemma keeps_basic_unlock: "lock_inv d \<Longrightarrow> roots_ok root \<Longrightarrow> keeps (basic_unlock root forced d)"
  using basic_unlock_inv[of root forced d]
  by (cases "basic_unlock root forced d") (simp add: keeps_def roots_ok_def)

lemma keeps_take_lock: "lock_inv d \<Longrightarrow> ca_ok c \<Longrightarrow> roots_ok root \<Longrightarrow> keeps (take_lock root now c v d)"
  using take_lock_inv[of root now c v d] by (cases "take_lock root now c v d") (simp add: keeps_def roots_ok_def)

lemma keeps_lock:
  assumes "lock_inv d" "ca_ok c" "roots_ok root"
  shows "keeps (lock root now c v d)"
proof (cases "device_locked d \<and> valid_lock now d")
  case True
  then obtain l where "locker_client d = Some l" "ca_ok l" using lock_inv_locker[OF assms(1)] by blast
  then show ?thesis
    using True keeps_take_lock[OF assms] assms by (simp add: lock_def other_client_ok)
next
  case False
  then show ?thesis
    unfolding lock_def using keeps_take_lock[OF _ assms(2,3)] keeps_basic_unlock[OF assms(1,3)] assms(1)
    by (auto intro!: keeps_sbind)
qed

lemma keeps_relock:
  assumes "lock_inv d" "ca_ok c"
  shows "keeps (relock now c d)"
proof (cases "device_locked d \<and> valid_lock now d")
  case True
  then obtain l where "locker_client d = Some l" "ca_ok l" using lock_inv_locker[OF assms(1)] by blast
  moreover have "lock_inv (d\<lparr>device_locked := True, locking_date := now\<rparr>)"
    using True assms(1) by (simp add: lock_inv_def)
  ultimately show ?thesis using True assms by (simp add: relock_def other_client_ok)
next
  case False
  then show ?thesis using assms(1) by (auto simp: relock_def)
qed

lemma keeps_unlock:
  assumes "lock_inv d" "ca_ok c" "roots_ok root"
  shows "keeps (unlock root now (Some c) forced d)"
proof -
  let ?d = "if lock_ctr d > 0 then d\<lparr>lock_ctr := lock_ctr d - 1\<rparr> else d"
  have "keeps (basic_unlock root forced ?d)"
    using basic_unlock_inv(3)[of root forced d] assms(1,3) keeps_basic_unlock[OF assms(1,3), of forced]
    by (auto simp: basic_unlock_def Let_def keeps_def lock_root_devices_def)
  moreover have "lock_inv ?d" if "\<not> lock_ctr ?d \<le> 0" using assms(1) that by (simp add: lock_inv_def split: if_splits)
  ultimately have drop: "keeps (drop_lock root forced d)"
    unfolding drop_lock_def Let_def by (auto intro!: keeps_sbind)
  show ?thesis
  proof (cases "device_locked d \<and> valid_lock now d \<and> \<not> forced")
    case True
    then obtain l where "locker_client d = Some l" "ca_ok l" using lock_inv_locker[OF assms(1)] by blast
    then show ?thesis using True drop assms by (simp add: unlock_def other_client_ok)
  next
    case False
    then show ?thesis using drop by (simp only: unlock_def if_False)
  qed
qed

lemma print_client_addr_defined:
  "ca_ok l \<Longrightarrow> \<exists>who ip. print_client_addr getname l = Ok who \<and> c_str (ca_client_ip l) = Ok ip"
  by (simp add: print_client_addr_def client_ip_2_client_name_def ca_ok_c_str)

lemma lock_inv_stat [simp]: "lock_inv (d\<lparr>lock_stat := x\<rparr>) = lock_inv d"
  by (simp add: lock_inv_def)

lemma locked_status_Ok:
  assumes "ca_ok l"
  shows "\<exists>st x. locked_status getname l d = (Ok st, d\<lparr>lock_stat := x\<rparr>)"
  using print_client_addr_defined[OF assms, of getname] by (auto simp: locked_status_def Let_def)

lemma keeps_status:
  assumes "lock_inv d" "roots_ok root"
  shows "keeps (lock_status getname root now d)"
proof (cases "device_locked d \<and> valid_lock now d")
  case True
  then obtain l where l: "locker_client d = Some l" "ca_ok l" using lock_inv_locker[OF assms(1)] by blast
  then show ?thesis using True locked_status_Ok[OF l(2), of getname d] assms(1) by (auto simp: lock_status_def)
next
  case False
  then show ?thesis
    unfolding lock_status_def not_locked_status_def Let_def using keeps_basic_unlock[OF assms] assms(1)
    by (auto intro!: keeps_sbind)
qed

lemma keeps_check:
  assumes "lock_inv d" "ca_ok c" "roots_ok root"
  shows "keeps (check_lock root now (Some c) cmd d)"
proof (cases "device_locked d")
  case True
  then obtain l where "locker_client d = Some l" "ca_ok l" using lock_inv_locker[OF assms(1)] by blast
  then show ?thesis
    using True assms keeps_basic_unlock[OF assms(1,3)]
    by (auto simp: check_lock_def check_locked_def other_client_ok refuse_unless_allowed_def
        throw_locked_exception_def split: option.split)
next
  case False
  then show ?thesis
    using assms(1,2)
    by (auto simp: check_lock_def check_not_locked_def client_addr_eq_same lock_inv_def split: option.split)
qed

lemma keeps_request:
  assumes "lock_inv d" "ca_ok c" "roots_ok root"
  shows "keeps (dev_request getname root now c q d)"
  using keeps_lock[OF assms] keeps_relock[OF assms(1,2)] keeps_unlock[OF assms] keeps_status[OF assms(1,3)]
    keeps_check[OF assms] by (cases q) simp_all

text \<open>
  The answer due to a client that does not own a valid lock: status requests and
  allowed commands are served, the rest is refused with \<open>API_DeviceLocked\<close>.
\<close>

fun stranger_answer :: "lock_req \<Rightarrow> lock_dev \<Rightarrow> unit result \<Rightarrow> bool" where
  "stranger_answer R_status d r = (r = Ok ())"
| "stranger_answer (R_check cmd) d r =
     (case cmd of
        None \<Rightarrow> (\<exists>desc. r = Throw (DeviceLocked desc))
      | Some n \<Rightarrow> if is_command_allowed n d then r = Ok () else (\<exists>desc. r = Throw (DeviceLocked desc)))"
| "stranger_answer q d r = (\<exists>desc. r = Throw (DeviceLocked desc))"

definition stranger :: "int \<times> client_addr \<times> lock_req \<Rightarrow> lock_dev \<Rightarrow> bool" where
  "stranger x d \<longleftrightarrow>
     (case x of (t, c, q) \<Rightarrow>
        ca_ok c \<and> device_locked d \<and> valid_lock t d \<and> q \<noteq> R_unlock True \<and>
        (\<exists>l. locker_client d = Some l \<and> \<not> same_client c l))"

definition same_lock :: "lock_dev \<Rightarrow> lock_dev \<Rightarrow> bool" where
  "same_lock d d' \<longleftrightarrow> d' = d\<lparr>lock_stat := lock_stat d'\<rparr>"

lemma same_lockI [simp]: "same_lock d d" "same_lock d (d\<lparr>lock_stat := x\<rparr>)"
  by (simp_all add: same_lock_def)

lemma stranger_step:
  assumes "lock_inv d" "stranger (t, c, q) d"
  shows "same_lock d (snd (dev_request getname root t c q d)) \<and>
     stranger_answer q d (fst (dev_request getname root t c q d))"
proof -
  obtain l where l: "locker_client d = Some l" "ca_ok l" "ca_ok c" "\<not> same_client c l" "device_locked d" "valid_lock t d"
      "q \<noteq> R_unlock True"
    using assms by (auto simp: stranger_def lock_inv_def)
  obtain st x where s: "locked_status getname l d = (Ok st, d\<lparr>lock_stat := x\<rparr>)"
    using locked_status_Ok[OF l(2)] by blast
  show ?thesis
  proof (cases q)
    case (R_unlock forced)
    then show ?thesis using l by (auto simp: unlock_def other_client_ok)
  next
    case (R_check cmd)
    then show ?thesis
      using l by (cases cmd) (auto simp: check_lock_def check_locked_def other_client_ok refuse_unless_allowed_def
          throw_locked_exception_def checked_def)
  qed (use l s in \<open>auto simp: lock_def relock_def lock_status_def other_client_ok\<close>)
qed

lemma same_lock_fields:
  "same_lock d d' \<Longrightarrow> device_locked d' = device_locked d \<and> locker_client d' = locker_client d \<and>
     locking_date d' = locking_date d \<and> lock_validity d' = lock_validity d \<and> allowed_cmds d' = allowed_cmds d"
  by (cases d; cases d') (simp add: same_lock_def)

lemma same_lock_trans: "same_lock d d' \<Longrightarrow> same_lock d' d'' \<Longrightarrow> same_lock d d''"
  by (cases d; cases d'; cases d'') (simp add: same_lock_def)

interpretation lock_res: owned_resource "\<lambda>(t, c, q). dev_request getname root t c q"
  "\<lambda>d. lock_inv d \<and> roots_ok root" "\<lambda>(t, c, q). ca_ok c" "\<lambda>r. r \<noteq> Undef" stranger
  "\<lambda>(t, c, q) d r. stranger_answer q d r" same_lock for getname root
proof (unfold_locales, goal_cases)
  case (1 d x)
  then show ?case using keeps_request[of d "fst (snd x)" root getname "fst x" "snd (snd x)"]
    by (auto simp: keeps_def split_def)
next
  case (2 x d)
  then show ?case by (auto simp: stranger_def)
next
  case (3 d x)
  then show ?case
    using stranger_step[of d "fst x" "fst (snd x)" "snd (snd x)" getname root] by (auto simp: split_def)
next
  case (4 d)
  then show ?case by simp
next
  case (5 d d' d'')
  then show ?case by (rule same_lock_trans)
next
  case (6 d d' x)
  then show ?case using same_lock_fields[OF 6] by (simp add: stranger_def valid_lock_def split_def)
next
  case (7 d d' x r)
  then show ?case
    using same_lock_fields[OF 7(1)]
    by (cases "snd (snd x)") (auto simp: split_def is_command_allowed_def split: option.splits)
qed

section \<open>Counting\<close>

text \<open>How often a device is locked after requests of one client.\<close>

fun lock_depth :: "lock_req list \<Rightarrow> nat \<Rightarrow> nat" where
  "lock_depth [] n = n"
| "lock_depth (R_lock v # qs) n = lock_depth qs (Suc n)"
| "lock_depth (R_unlock forced # qs) n = lock_depth qs (if forced then 0 else n - 1)"
| "lock_depth (q # qs) n = lock_depth qs n"

definition held :: "client_addr \<Rightarrow> int \<Rightarrow> int \<Rightarrow> nat \<Rightarrow> lock_dev \<Rightarrow> bool" where
  "held A t0 v n d \<longleftrightarrow>
     lock_inv d \<and> \<not> with_fwd_att d \<and> lock_ctr d = int n \<and>
     (0 < n \<longrightarrow> (\<exists>l. locker_client d = Some l \<and> same_client l A) \<and> t0 \<le> locking_date d \<and> lock_validity d = v)"

lemma held_locked: "held A t0 v n d \<Longrightarrow> device_locked d \<longleftrightarrow> 0 < n"
  by (auto simp: held_def lock_inv_def split: if_splits)

lemma held_owner:
  assumes "held A t0 v n d" "0 < n" "ca_ok c" "same_client c A" "t \<le> t0 + v"
  shows "other_client (Some c) (locker_client d) = Ok False" "valid_lock t d"
proof -
  obtain l where l: "locker_client d = Some l" "same_client l A" "t0 \<le> locking_date d" "lock_validity d = v"
    using assms(1,2) by (auto simp: held_def)
  then have "ca_ok l" using assms(1) by (auto simp: held_def lock_inv_def)
  moreover have "same_client c l" using assms(4) l(2) same_client_sym same_client_trans by blast
  ultimately show "other_client (Some c) (locker_client d) = Ok False" using assms(3) l(1) by (simp add: other_client_ok)
  show "valid_lock t d" using l assms(5) by (simp add: valid_lock_def)
qed

lemma held_step:
  assumes h: "held A t0 v n d" and c: "ca_ok c" "same_client c A" "t0 \<le> t" "t \<le> t0 + v"
    and q: "q = R_lock v \<or> q = R_unlock False \<or> q = R_relock"
  shows "held A t0 v (lock_depth [q] n) (snd (dev_request getname root t c q d))"
proof (cases "0 < n")
  case True
  note o = held_owner[OF h True c(1,2,4)] and l = held_locked[OF h] True
  from q show ?thesis
  proof (elim disjE)
    assume "q = R_lock v"
    then show ?thesis
      using h o l c(3) by (auto simp: lock_def take_lock_def Let_def held_def lock_inv_def)
  next
    assume "q = R_unlock False"
    then show ?thesis
      using h o l by (auto simp: unlock_def drop_lock_def basic_unlock_def Let_def held_def lock_inv_def)
  next
    assume "q = R_relock"
    then show ?thesis using h o l c(3) by (auto simp: relock_def held_def lock_inv_def)
  qed
next
  case False
  then have "\<not> device_locked d" "n = 0" using held_locked[OF h] by auto
  then show ?thesis
    using q h c by (auto simp: lock_def take_lock_def unlock_def drop_lock_def basic_unlock_def relock_def Let_def
        held_def lock_inv_def)
qed

lemma held_run:
  assumes "held A t0 v n d"
    and "\<forall>(t, c, q) \<in> set qs. ca_ok c \<and> same_client c A \<and> t0 \<le> t \<and> t \<le> t0 + v \<and>
           (q = R_lock v \<or> q = R_unlock False \<or> q = R_relock)"
  shows "held A t0 v (lock_depth (map (snd \<circ> snd) qs) n) (snd (run_requests getname root qs d))"
  using assms
proof (induction qs arbitrary: n d)
  case (Cons x qs)
  obtain t c q where x: "x = (t, c, q)" by (cases x)
  let ?d = "snd (dev_request getname root t c q d)"
  have "held A t0 v (lock_depth [q] n) ?d"
    using Cons.prems x by (intro held_step) auto
  then have "held A t0 v (lock_depth (map (snd \<circ> snd) qs) (lock_depth [q] n)) (snd (run_requests getname root qs ?d))"
    using Cons.prems(2) by (intro Cons.IH) auto
  moreover have "lock_depth (q # map (snd \<circ> snd) qs) n = lock_depth (map (snd \<circ> snd) qs) (lock_depth [q] n)"
    by (cases q) auto
  ultimately show ?case by (simp add: x split_def comp_def)
qed simp


section \<open>Properties\<close>

text \<open>
  (C24) Whatever clients ask for and whenever they do it, a device keeps the invariant of its
  lock: it is locked exactly if it has a locker and a positive counter. No request meets
  undefined behaviour, whether the root devices of forwarded attributes answer or throw.
\<close>

theorem lock_requests_safe:
  assumes "lock_inv d" "roots_ok root" "\<forall>(t, c, q) \<in> set qs. ca_ok c"
  shows "lock_inv (snd (run_requests getname root qs d)) \<and>
     (\<forall>r \<in> set (fst (run_requests getname root qs d)). r \<noteq> Undef)"
  using lock_res.run_inv[of d root qs getname] assms by simp

text \<open>
  (C18) Mutual exclusion: as long as a lock is valid, no sequence of requests of other clients,
  apart from a forced unlock, changes it. Their locks, re-locks, unlocks, attribute
  writes and commands are refused with \<open>API_DeviceLocked\<close>; allowed commands and status
  requests are served.
\<close>

theorem lock_excludes_strangers:
  assumes "lock_inv d" "roots_ok root" "device_locked d" "locker_client d = Some l"
    and "\<forall>(t, c, q) \<in> set qs. ca_ok c \<and> \<not> same_client c l \<and> t \<le> locking_date d + lock_validity d \<and> q \<noteq> R_unlock True"
  shows "same_lock d (snd (run_requests getname root qs d)) \<and>
     list_all2 (\<lambda>(t, c, q) r. stranger_answer q d r) qs (fst (run_requests getname root qs d))"
proof -
  have "\<forall>x \<in> set qs. stranger x d" using assms(3-5) by (auto simp: stranger_def valid_lock_def)
  from lock_res.run_foreign[of d root qs getname] this assms(1,2) show ?thesis by (simp add: split_def)
qed

text \<open>
  (C25) Nesting: while its lock stays valid, a client has to unlock a device as often as it
  locked it. After any sequence of its locks, unlocks and re-locks the counter is the
  depth of the nesting, and the device is locked, by this client, exactly if that is
  positive.
\<close>

theorem lock_nesting:
  assumes "lock_inv d" "\<not> device_locked d" "\<not> with_fwd_att d"
    and "\<forall>(t, c, q) \<in> set qs. ca_ok c \<and> same_client c A \<and> t0 \<le> t \<and> t \<le> t0 + v \<and>
           (q = R_lock v \<or> q = R_unlock False \<or> q = R_relock)"
  shows "let d' = snd (run_requests getname root qs d); n = lock_depth (map (snd \<circ> snd) qs) 0 in
     lock_ctr d' = int n \<and> (device_locked d' \<longleftrightarrow> 0 < n) \<and>
     (0 < n \<longrightarrow> (\<exists>l. locker_client d' = Some l \<and> same_client l A))"
proof -
  have "held A t0 v 0 d" using assms(1-3) by (auto simp: held_def lock_inv_def)
  from held_run[OF this assms(4), of getname root] held_locked[OF held_run[OF this assms(4), of getname root]]
  show ?thesis by (simp add: Let_def held_def)
qed

text \<open>
  (C29) A lock that is not renewed does not last: once its validity has passed, any client gets
  the lock with its first request and is the only one counted.
\<close>

theorem lock_expired_available:
  assumes "device_locked d" "locking_date d + lock_validity d < now" "\<And>n c. root n c = Ok ()"
  shows "\<exists>d'. lock root now c v d = (Ok (), d') \<and> device_locked d' \<and> locker_client d' = Some c \<and> lock_ctr d' = 1 \<and>
     locking_date d' = now \<and> lock_validity d' = v"
proof -
  have roots: "call_roots root a ns = Ok ()" for a ns using assms(3) by (induction ns) auto
  show ?thesis
    using assms(1,2) roots
    by (auto simp: lock_def valid_lock_def basic_unlock_def take_lock_def Let_def lock_root_devices_def)
qed

lemma forced_unlock_eq:
  assumes "lock_inv d" "\<not> with_fwd_att d"
  shows "unlock root now cl True d =
     (Ok 0, d\<lparr>device_locked := False, old_locker_client := locker_client d, locker_client := None, lock_ctr := 0\<rparr>)"
  using assms by (simp add: unlock_def drop_lock_def basic_unlock_def Let_def)

text \<open>
  A forced unlock of another client is told to the client that had the lock: each of its
  requests is refused with \<open>API_DeviceUnlocked\<close> until a request of a third client
  ends the notice; requests after that are served.
\<close>

theorem forced_unlock_notice:
  assumes "lock_inv d" "\<not> with_fwd_att d" "locker_client d = Some A" "ca_ok A'" "ca_ok C"
    and "same_client A' A" "\<not> same_client C A"
  shows "let d1 = snd (unlock root t (Some B) True d) in
     \<not> device_locked d1 \<and>
     (\<exists>desc. check_lock root t1 (Some A') cmd d1 = (Throw (DevFailed ''API_DeviceUnlocked'' desc), d1)) \<and>
     (\<exists>d2. check_lock root t2 (Some C) cmd' d1 = (Ok (), d2) \<and> check_lock root t3 (Some A') cmd d2 = (Ok (), d2))"
proof -
  have "ca_ok A" using assms(1,3) by (simp add: lock_inv_def)
  then show ?thesis
    unfolding forced_unlock_eq[OF assms(1,2)] Let_def using assms(3-7)
    by (simp add: check_lock_def check_not_locked_def client_addr_eq_same)
qed

text \<open>
  The notice outlives its cause: a client whose lock was taken away, that locks the
  device again and unlocks it itself, is still told that an administrative client
  unlocked the device.
\<close>

theorem forced_unlock_stale_notice:
  assumes "lock_inv d" "\<not> with_fwd_att d" "locker_client d = Some A" "t2 \<le> t1 + v"
  shows "let d1 = snd (unlock root t0 (Some B) True d);
             (r2, d2) = lock root t1 A v d1;
             (r3, d3) = unlock root t2 (Some A) False d2
     in r2 = Ok () \<and> locker_client d2 = Some A \<and> r3 = Ok 0 \<and> \<not> device_locked d3 \<and>
        (\<exists>desc. check_lock root t3 (Some A) cmd d3 = (Throw (DevFailed ''API_DeviceUnlocked'' desc), d3))"
proof -
  have A: "ca_ok A" using assms(1,3) by (simp add: lock_inv_def)
  show ?thesis
    unfolding forced_unlock_eq[OF assms(1,2)] Let_def using assms(2-4) A
    by (simp add: lock_def take_lock_def unlock_def drop_lock_def basic_unlock_def Let_def valid_lock_def
        other_client_ok same_client_refl check_lock_def check_not_locked_def client_addr_eq_same)
qed

text \<open>The names of the devices decide what is found.\<close>

lemma find_in_list_names:
  "map (\<lambda>d. (device_name d, alias_name_lower d)) ds = map (\<lambda>d. (device_name d, alias_name_lower d)) ds' \<Longrightarrow>
   find_in_list n ds j = find_in_list n ds' j"
proof (induction ds arbitrary: ds' j)
  case (Cons d ds)
  then obtain e es where "ds' = e # es" by (cases ds') auto
  then show ?case using Cons by auto
qed simp

lemma relock_names [simp]:
  "device_name (snd (relock now c d)) = device_name d" "alias_name_lower (snd (relock now c d)) = alias_name_lower d"
  by (cases "other_client (Some c) (locker_client d)"; simp add: relock_def)+

lemma find_after_relock:
  "find_device_name_core n (snd (on_dev p (relock now c) s)) = find_device_name_core n s"
proof (cases p)
  case Dev_admin
  then show ?thesis by (auto simp: on_dev_def split_def find_device_name_core_def split: option.split)
next
  case (Dev_at j)
  have "find_in_list n ((ds_devs s)[j := snd (relock now c (ds_devs s ! j))]) 0 = find_in_list n (ds_devs s) 0"
  proof (rule find_in_list_names)
    show "map (\<lambda>d. (device_name d, alias_name_lower d)) ((ds_devs s)[j := snd (relock now c (ds_devs s ! j))]) =
        map (\<lambda>d. (device_name d, alias_name_lower d)) (ds_devs s)"
      by (cases "j < length (ds_devs s)") (simp_all add: map_update list_update_same_conv list_update_beyond)
  qed
  then show ?thesis using Dev_at by (auto simp: on_dev_def split_def find_device_name_core_def split: option.split)
qed

lemma re_lock_loop_unknown:
  assumes "find_device_name_core (lower n) s = None" "n \<in> set ns"
  shows "fst (re_lock_loop (\<lambda>_. None) now c ns errors s) = Undef"
  using assms
proof (induction ns arbitrary: errors s)
  case (Cons m ns)
  show ?case
  proof (cases "find_device_name_core (lower m) s")
    case None
    then show ?thesis by (simp add: get_device_by_name_def)
  next
    case (Some p)
    let ?x = "on_dev p (relock now c) s"
    have "n \<in> set ns" "find_device_name_core (lower n) (snd ?x) = None"
      using Cons.prems Some by (auto simp: find_after_relock)
    then have "fst (re_lock_loop (\<lambda>_. None) now c ns errs (snd ?x)) = Undef" for errs using Cons.IH by blast
    then show ?thesis using Some by (cases ?x; cases "fst ?x") (auto simp: get_device_by_name_def)
  qed
qed simp

text \<open>
  A re-lock request that names a device the server does not have makes the server use
  a null pointer, wherever the name stands in the list.
\<close>

theorem re_lock_unknown_device:
  assumes "find_device_name_core (lower n) s = None" "n \<in> set ns" "ca_client_ident c"
  shows "fst (re_lock_devices (\<lambda>_. None) now (Some c) ns s) = Undef"
proof -
  have "fst (re_lock_loop (\<lambda>_. None) now c ns [] s) = Undef" by (rule re_lock_loop_unknown[OF assms(1,2)])
  then show ?thesis
    using assms(3) by (cases "re_lock_loop (\<lambda>_. None) now c ns [] s") (simp add: re_lock_devices_def client_or_throw_def)
qed

lemma long_masks: "(0xFFFFFFFF :: 64 word) = mask 32" "(0xFFFFFFFF00000000 :: 64 word) = push_bit 32 (mask 32)"
  by (simp_all add: mask_eq_exp_minus_1 push_bit_eq_mult)

lemma longs_of_word: "Bit_Operations.or (push_bit 32 (ucast (high_long w))) (ucast (low_long w)) = w"
  unfolding high_long_def low_long_def long_masks by (rule bit_word_eqI) (auto simp: bit_simps)

text \<open>
  The lock status identifies the locker: the first long tells whether a valid lock is
  held, the second is the process of a C++ client, and for a Java client the last four
  longs are its 128 bit identification. A client of the language \<open>JAVA_6\<close>, which the
  identification of clients knows as well, is reported without an identification.
\<close>

theorem lock_status_identity:
  assumes "lock_inv d"
  shows "if device_locked d \<and> valid_lock now d then
       \<exists>l st. locker_client d = Some l \<and> fst (lock_status getname root now d) = Ok st \<and>
         lvalue st ! 0 = 1 \<and> lvalue st ! 1 = of_nat (ca_client_pid l) \<and> svalue st ! 1 = c_part (ca_client_ip l) \<and>
         (ca_client_lang l = JAVA \<longrightarrow>
            Bit_Operations.or (push_bit 32 (ucast (lvalue st ! 2))) (ucast (lvalue st ! 3)) = ca_java_ident0 l \<and>
            Bit_Operations.or (push_bit 32 (ucast (lvalue st ! 4))) (ucast (lvalue st ! 5)) = ca_java_ident1 l) \<and>
         (ca_client_lang l = JAVA_6 \<longrightarrow> drop 2 (lvalue st) = [0, 0, 0, 0])
     else \<not> with_fwd_att d \<longrightarrow>
       (\<exists>st. fst (lock_status getname root now d) = Ok st \<and> lvalue st = [0, 0, 0, 0, 0, 0])"
proof (cases "device_locked d \<and> valid_lock now d")
  case True
  then obtain l where l: "locker_client d = Some l" "ca_ok l" using lock_inv_locker[OF assms] by blast
  obtain who where who: "print_client_addr getname l = Ok who" using print_client_addr_defined[OF l(2)] by blast
  have ip: "c_str (ca_client_ip l) = Ok (c_part (ca_client_ip l))" using ca_ok_c_str[OF l(2)] by (simp add: c_part_def)
  show ?thesis using True l who ip
    by (simp add: lock_status_def locked_status_def Let_def longs_of_word)
next
  case False
  then show ?thesis
    by (auto simp: lock_status_def not_locked_status_def basic_unlock_def Let_def numeral_eq_Suc)
qed


section \<open>Examples\<close>

definition ex_client :: "nat \<Rightarrow> client_addr" where
  "ex_client pid = \<lparr>ca_client_ident = True, ca_client_ip = replicate 80 NUL, ca_client_lang = CPP, ca_client_pid = pid,
     ca_java_main_class = [], ca_java_ident0 = 0, ca_java_ident1 = 0\<rparr>"

definition ex_dev :: lock_dev where
  "ex_dev = \<lparr>device_name = ''test/dev/1'', alias_name_lower = [], class_name = ''Test'', allowed_cmds = [''state''],
     with_fwd_att = False, att_fwd_dev = [], device_locked = False, locker_client = None, old_locker_client = None,
     lock_validity = 0, locking_date = 0, lock_stat = [], lock_ctr = 0\<rparr>"

definition ex_locked :: lock_dev where
  "ex_locked = ex_dev\<lparr>device_locked := True, locker_client := Some (ex_client 1), lock_validity := 10,
     locking_date := 100, lock_ctr := 1\<rparr>"

lemma ex_lock_client_ok [simp]: "ca_ok (ex_client pid)"
  by (simp add: ca_ok_def cbuf_ok_def IP_ADDR_BUFFER_SIZE_def ex_client_def)

lemma ex_client_ident [simp]: "ca_client_ident (ex_client pid)"
  by (simp add: ex_client_def)

lemma ex_same [simp]: "same_client (ex_client p) (ex_client q) \<longleftrightarrow> p = q"
  by (simp add: same_client_def ex_client_def is_cpp_lang_def)

lemma ex_inv [simp]: "lock_inv ex_dev" "lock_inv ex_locked"
  by (simp_all add: lock_inv_def ex_dev_def ex_locked_def)

lemma ex_fields [simp]:
  "\<not> device_locked ex_dev" "\<not> with_fwd_att ex_dev" "device_locked ex_locked" "\<not> with_fwd_att ex_locked"
  "locker_client ex_locked = Some (ex_client 1)" "locking_date ex_locked = 100" "lock_validity ex_locked = 10"
  by (simp_all add: ex_dev_def ex_locked_def)

theorem lock_requests_safe_witness:
  "lock_inv (snd (run_requests (\<lambda>_. None) (\<lambda>_ _. Ok ()) [(5, ex_client 1, R_lock 10), (6, ex_client 2, R_lock 10)] ex_dev)) \<and>
   Undef \<notin> set (fst (run_requests (\<lambda>_. None) (\<lambda>_ _. Ok ()) [(5, ex_client 1, R_lock 10), (6, ex_client 2, R_lock 10)] ex_dev))"
proof -
  have "roots_ok (\<lambda>_ _. Ok ())" by (simp add: roots_ok_def)
  then show ?thesis
    using lock_requests_safe [of ex_dev "\<lambda>_ _. Ok ()" "[(5, ex_client 1, R_lock 10), (6, ex_client 2, R_lock 10)]" "\<lambda>_. None"]
    by auto
qed

theorem lock_excludes_strangers_witness:
  "same_lock ex_locked (snd (run_requests (\<lambda>_. None) (\<lambda>_ _. Ok ())
       [(105, ex_client 2, R_lock 10), (106, ex_client 3, R_check None)] ex_locked)) \<and>
   list_all2 (\<lambda>(t, c, q) r. stranger_answer q ex_locked r)
     [(105 :: int, ex_client 2, R_lock 10), (106, ex_client 3, R_check None)]
     (fst (run_requests (\<lambda>_. None) (\<lambda>_ _. Ok ())
       [(105, ex_client 2, R_lock 10), (106, ex_client 3, R_check None)] ex_locked))"
  by (rule lock_excludes_strangers[where l = "ex_client 1"]) (simp_all add: roots_ok_def)

theorem lock_nesting_witness:
  "lock_ctr (snd (run_requests (\<lambda>_. None) (\<lambda>_ _. Ok ())
     [(5, ex_client 1, R_lock 10), (6, ex_client 1, R_lock 10), (7, ex_client 1, R_unlock False)] ex_dev)) = 1"
  using lock_nesting[of ex_dev "[(5, ex_client 1, R_lock 10), (6, ex_client 1, R_lock 10), (7, ex_client 1, R_unlock False)]"
      "ex_client 1" 5 10 "\<lambda>_. None" "\<lambda>_ _. Ok ()"]
  by (simp add: Let_def)

theorem lock_expired_available_witness:
  "\<exists>d'. lock (\<lambda>_ _. Ok ()) 111 (ex_client 2) 10 ex_locked = (Ok (), d') \<and> device_locked d' \<and>
     locker_client d' = Some (ex_client 2) \<and> lock_ctr d' = 1 \<and> locking_date d' = 111 \<and> lock_validity d' = 10"
  by (rule lock_expired_available) simp_all

theorem forced_unlock_notice_witness:
  "\<exists>desc. check_lock (\<lambda>_ _. Ok ()) 106 (Some (ex_client 1)) None
     (snd (unlock (\<lambda>_ _. Ok ()) 105 (Some (ex_client 2)) True ex_locked)) =
     (Throw (DevFailed ''API_DeviceUnlocked'' desc), snd (unlock (\<lambda>_ _. Ok ()) 105 (Some (ex_client 2)) True ex_locked))"
  using forced_unlock_notice[of ex_locked "ex_client 1" "ex_client 1" "ex_client 3" "\<lambda>_ _. Ok ()" 105 "ex_client 2" 106 None
      107 None 108] by (simp add: Let_def)

theorem forced_unlock_stale_notice_witness:
  "\<exists>d3 desc. snd (unlock (\<lambda>_ _. Ok ()) 108 (Some (ex_client 1)) False (snd (lock (\<lambda>_ _. Ok ()) 107 (ex_client 1) 10
       (snd (unlock (\<lambda>_ _. Ok ()) 105 (Some (ex_client 2)) True ex_locked))))) = d3 \<and>
     check_lock (\<lambda>_ _. Ok ()) 109 (Some (ex_client 1)) None d3 = (Throw (DevFailed ''API_DeviceUnlocked'' desc), d3)"
  using forced_unlock_stale_notice[of ex_locked "ex_client 1" 108 107 10 "\<lambda>_ _. Ok ()" 105 "ex_client 2" 109 None]
  by (simp add: Let_def split_def)

theorem re_lock_unknown_device_witness:
  "fst (re_lock_devices (\<lambda>_. None) 5 (Some (ex_client 1)) [''test/dev/1'', ''test/dev/2'']
     \<lparr>ds_self = ex_dev\<lparr>device_name := ''dserver/test/1''\<rparr>, ds_devs = [ex_locked]\<rparr>) = Undef"
  by (rule re_lock_unknown_device[where n = "''test/dev/2''"])
     (simp_all add: find_device_name_core_def ex_dev_def ex_locked_def ex_client_def tolower_def Let_def)

theorem lock_status_identity_witness:
  "\<exists>l st. locker_client ex_locked = Some l \<and> fst (lock_status (\<lambda>_. None) (\<lambda>_ _. Ok ()) 105 ex_locked) = Ok st \<and>
     lvalue st ! 0 = 1 \<and> lvalue st ! 1 = of_nat (ca_client_pid l)"
  using lock_status_identity[of ex_locked 105 "\<lambda>_. None" "\<lambda>_ _. Ok ()"] by (auto simp: valid_lock_def)

end
