(* ===== verification/Lock_Thread.thy ===== *)
theory Lock_Thread
  imports Device_Lock
begin

text \<open>
  Device locking on the client: the thread that renews the locks a process holds on the
  devices of one server (\<open>LockThread\<close> of \<open>lockthread.cpp\<close>) and the queries of
  \<open>DeviceProxy\<close> on the lock of a device (\<open>is_locked\<close>, \<open>is_locked_by_me\<close>,
  \<open>get_locker\<close>, \<open>get_locker_host\<close> of \<open>devapi_base.cpp\<close>). Times and durations are
  nanoseconds of the steady clock. The wait on the monitor is the environment's: what
  the shared command looks like when the wait ends is an argument, and so is the answer of
  the administration device to the re-lock command (the errors of a \<open>DevFailed\<close>, or none).
\<close>

section \<open>The locking thread\<close>

datatype LockCmdCode = LOCK_ADD_DEV | LOCK_REM_DEV | LOCK_UNLOCK_ALL_EXIT | LOCK_EXIT

datatype LockCmdType = LOCK_TIME_OUT | LOCK_COMMAND

record LockThCmd =
  cmd_pending :: bool
  cmd_code :: LockCmdCode
  cmd_dev_name :: string
  cmd_lock_validity :: int
  suicide :: bool

record LockedDevice =
  ld_dev_name :: string
  ld_validity :: int

text \<open>\<open>th_exited\<close> is \<open>omni_thread::exit\<close>, \<open>th_unlocked\<close> the names sent with \<open>UnLockDevice\<close>.\<close>

record LockThread =
  shared_cmd :: LockThCmd
  local_cmd :: LockThCmd
  th_sleep :: "int option"
  locked_devices :: "LockedDevice list"
  re_lock_cmd_args :: "string list"
  period :: int
  next_work :: int
  th_exited :: bool
  th_unlocked :: "string list list"

definition half_second :: int where
  "half_second = 500000 * 1000"

text \<open>The constructor, and the start of \<open>run\<close>, which fixes the time of the first renewal.\<close>

definition LockThread_new :: "LockThCmd \<Rightarrow> LockThCmd \<Rightarrow> string \<Rightarrow> int \<Rightarrow> LockThread" where
  "LockThread_new shared loc dev per =
     \<lparr>shared_cmd = shared, local_cmd = loc\<lparr>cmd_pending := False\<rparr>, th_sleep = Some (per - half_second),
      locked_devices = [\<lparr>ld_dev_name = dev, ld_validity = per\<rparr>], re_lock_cmd_args = [], period = per - half_second,
      next_work = 0, th_exited = False, th_unlocked = []\<rparr>"

definition run_start :: "int \<Rightarrow> LockThread \<Rightarrow> LockThread" where
  "run_start now s = s\<lparr>next_work := now + period s\<rparr>"

datatype wait_for = No_wait | Wait_ever | Wait_ms int

definition get_command :: "LockThCmd \<Rightarrow> LockThread \<Rightarrow> LockCmdType \<times> wait_for \<times> LockThread" where
  "get_command shared_after s =
     (if th_sleep s = Some 0 then (LOCK_TIME_OUT, No_wait, s)
      else
        (let w = (if \<not> cmd_pending (shared_cmd s) then
                    (if locked_devices s = [] then Wait_ever
                     else case th_sleep s of None \<Rightarrow> No_wait | Some d \<Rightarrow> Wait_ms (d div 1000000))
                  else No_wait);
             s' = (if w = No_wait then s else s\<lparr>shared_cmd := shared_after\<rparr>)
         in if cmd_pending (shared_cmd s') then (LOCK_COMMAND, w, s'\<lparr>local_cmd := shared_cmd s'\<rparr>)
            else (LOCK_TIME_OUT, w, s')))"

text \<open>\<open>std::min_element\<close>: the first of the smallest elements.\<close>

fun min_validity :: "LockedDevice list \<Rightarrow> LockedDevice result" where
  "min_validity [] = Undef"
| "min_validity [d] = Ok d"
| "min_validity (d # e # ds) = min_validity ((if ld_validity e < ld_validity d then e else d) # ds)"

definition update_th_period :: "LockThread \<Rightarrow> LockThread result" where
  "update_th_period s =
     rbind (min_validity (locked_devices s)) (\<lambda>ite.
       Ok (s\<lparr>re_lock_cmd_args := [], period := ld_validity ite - half_second\<rparr>))"

definition unlock_all_devs :: "LockThread \<Rightarrow> LockThread" where
  "unlock_all_devs s =
     (if locked_devices s \<noteq> [] then s\<lparr>th_unlocked := th_unlocked s @ [map ld_dev_name (locked_devices s)]\<rparr> else s)"

text \<open>\<open>erase\<close> of the first device of a name.\<close>

fun erase_dev :: "(string \<Rightarrow> bool) \<Rightarrow> LockedDevice list \<Rightarrow> LockedDevice list" where
  "erase_dev P [] = []"
| "erase_dev P (d # ds) = (if P (ld_dev_name d) then ds else d # erase_dev P ds)"

definition finish_cmd :: "bool \<Rightarrow> LockThread \<Rightarrow> LockThread" where
  "finish_cmd need_exit s =
     (let sh = (shared_cmd s)\<lparr>cmd_pending := False\<rparr>;
          sh = (if locked_devices s = [] then sh\<lparr>suicide := True\<rparr> else sh)
      in s\<lparr>shared_cmd := sh, th_exited := th_exited s \<or> need_exit \<or> locked_devices s = []\<rparr>)"

definition execute_cmd :: "LockThread \<Rightarrow> LockThread result" where
  "execute_cmd s =
     (case cmd_code (local_cmd s) of
        LOCK_ADD_DEV \<Rightarrow>
          (let name = cmd_dev_name (local_cmd s);
               s' = (if name \<notin> ld_dev_name ` set (locked_devices s)
                     then s\<lparr>locked_devices := locked_devices s @
                              [\<lparr>ld_dev_name = name, ld_validity = cmd_lock_validity (local_cmd s)\<rparr>]\<rparr>
                     else s)
           in rbind (update_th_period s') (\<lambda>s''. Ok (finish_cmd False s'')))
      | LOCK_REM_DEV \<Rightarrow>
          (let s' = s\<lparr>locked_devices := erase_dev (\<lambda>n. n = cmd_dev_name (local_cmd s)) (locked_devices s)\<rparr>
           in if locked_devices s' \<noteq> [] then rbind (update_th_period s') (\<lambda>s''. Ok (finish_cmd False s''))
              else Ok (finish_cmd False s'))
      | LOCK_UNLOCK_ALL_EXIT \<Rightarrow> Ok (finish_cmd True (unlock_all_devs s))
      | LOCK_EXIT \<Rightarrow> Ok (finish_cmd True s))"

text \<open>
  The errors of a re-lock: a device of whose lock the server says it is lost is not
  renewed any more. The name of the device is what the description has before a colon.
\<close>

definition lost_lock :: "DevError \<Rightarrow> string option" where
  "lost_lock e =
     (if err_reason e = ''API_DeviceLocked'' \<or> err_reason e = ''API_DeviceNotLocked'' \<or>
         err_reason e = ''API_DeviceNotExported''
      then map_option (\<lambda>pos. substr_to pos (err_desc e)) (find_char (CHR '':'') (err_desc e))
      else None)"

fun relock_errors :: "DevError list \<Rightarrow> LockThread \<Rightarrow> LockThread result" where
  "relock_errors [] s = Ok s"
| "relock_errors (e # es) s =
     (case lost_lock e of
        None \<Rightarrow> relock_errors es s
      | Some name \<Rightarrow>
          (let devs = erase_dev (\<lambda>n. lower name = lower n) (locked_devices s);
               s' = s\<lparr>locked_devices := devs\<rparr>
           in if devs = [] \<and> locked_devices s \<noteq> [] then
                execute_cmd (s'\<lparr>local_cmd := (local_cmd s')\<lparr>cmd_code := LOCK_EXIT\<rparr>\<rparr>)
              else relock_errors es s'))"

definition relock_args :: "LockThread \<Rightarrow> string list" where
  "relock_args s = (if re_lock_cmd_args s = [] then map ld_dev_name (locked_devices s) else re_lock_cmd_args s)"

definition one_more_lock :: "(string list \<Rightarrow> DevError list) \<Rightarrow> LockThread \<Rightarrow> LockThread result" where
  "one_more_lock admin s =
     (let s' = s\<lparr>re_lock_cmd_args := relock_args s\<rparr> in relock_errors (admin (re_lock_cmd_args s')) s')"

definition compute_sleep_time :: "int \<Rightarrow> bool \<Rightarrow> LockThread \<Rightarrow> LockThread" where
  "compute_sleep_time now cmd s =
     (if \<not> cmd then s\<lparr>th_sleep := Some (period s), next_work := now + period s\<rparr>
      else (let diff = next_work s - now in s\<lparr>th_sleep := (if diff < 0 then None else Some diff)\<rparr>))"

text \<open>One round of the infinite loop of \<open>run\<close>; \<open>now\<close> is the time at its end.\<close>

definition run_round ::
  "(string list \<Rightarrow> DevError list) \<Rightarrow> LockThCmd \<Rightarrow> int \<Rightarrow> LockThread \<Rightarrow> LockThread result" where
  "run_round admin shared_after now s =
     (case get_command shared_after s of (received, _, s1) \<Rightarrow>
        rbind (case received of LOCK_COMMAND \<Rightarrow> execute_cmd s1 | LOCK_TIME_OUT \<Rightarrow> one_more_lock admin s1) (\<lambda>s2.
          Ok (if th_exited s2 then s2 else compute_sleep_time now (received = LOCK_COMMAND) s2)))"

section \<open>Queries of the proxy\<close>

text \<open>
  \<open>get_locker_host\<close>: the address in an end point of omniORB, \<open>giop:tcp:a.b.c.d:port\<close>,
  \<open>giop:tcp:[::ffff:a.b.c.d]:port\<close> or \<open>giop:unix:path\<close>.
\<close>

definition invalid_locker :: exn where
  "invalid_locker = DevFailed ''API_WrongLockingStatus'' ''Locker IP address returned by server is unvalid''"

definition find_or_throw :: "char \<Rightarrow> nat \<Rightarrow> string \<Rightarrow> nat result" where
  "find_or_throw c pos str = (case find_from c pos str of None \<Rightarrow> Throw invalid_locker | Some p \<Rightarrow> Ok p)"

definition get_locker_host :: "string \<Rightarrow> string result" where
  "get_locker_host f_addr =
     (let ipv6 = (find_char (CHR ''['') f_addr \<noteq> None) in
      if find_str '':unix:'' f_addr \<noteq> None then Ok ''localhost''
      else
        rbind (find_or_throw (CHR '':'') 0 f_addr) (\<lambda>pos.
        rbind (find_or_throw (CHR '':'') (pos + 1) f_addr) (\<lambda>pos.
          let pos = pos + 1 in
          if ipv6 then
            rbind (find_or_throw (CHR '':'') (pos + 3) f_addr) (\<lambda>pos.
              let ip_str = substr_from (pos + 1) f_addr in
              rbind (find_or_throw (CHR '']'') 0 ip_str) (\<lambda>pos. Ok (substr_to pos ip_str)))
          else
            (let ip_str = substr_from pos f_addr in
             rbind (find_or_throw (CHR '':'') 0 ip_str) (\<lambda>pos. Ok (substr_to pos ip_str))))))"

definition is_locked :: "DevVarLongStringArray \<Rightarrow> bool result" where
  "is_locked st = rbind (vec_get (lvalue st) 0) (\<lambda>l. Ok (0 < sint l))"

text \<open>
  The caller is the locker if the process number is its own, the locker is not a Java
  client, and the address of the locker is the local host or one of the addresses
  \<open>adrs\<close> of the interfaces.
\<close>

definition is_locked_by_me :: "int \<Rightarrow> string list \<Rightarrow> DevVarLongStringArray \<Rightarrow> bool result" where
  "is_locked_by_me getpid adrs st =
     rbind (rmap (vec_get (lvalue st)) [0, 1, 2, 3, 4, 5]) (\<lambda>v_l.
       if v_l ! 0 = 0 then Ok False
       else if getpid \<noteq> sint (v_l ! 1) then Ok False
       else if v_l ! 2 \<noteq> 0 \<or> v_l ! 3 \<noteq> 0 \<or> v_l ! 4 \<noteq> 0 \<or> v_l ! 5 \<noteq> 0 then Ok False
       else rbind (vec_get (svalue st) 1) (\<lambda>host.
            rbind (get_locker_host host) (\<lambda>full_ip_str.
              Ok (full_ip_str = ''localhost'' \<or> full_ip_str \<in> set adrs))))"


section \<open>Renewal in time\<close>

definition th_inv :: "LockThread \<Rightarrow> bool" where
  "th_inv s \<longleftrightarrow> (\<forall>d \<in> set (locked_devices s). period s + half_second \<le> ld_validity d)"

lemma min_validity_ok:
  "ds \<noteq> [] \<Longrightarrow> \<exists>m. min_validity ds = Ok m \<and> m \<in> set ds \<and> (\<forall>d \<in> set ds. ld_validity m \<le> ld_validity d)"
proof (induction ds rule: min_validity.induct)
  case (3 d e ds)
  let ?m = "if ld_validity e < ld_validity d then e else d"
  obtain m where "min_validity (?m # ds) = Ok m" "m \<in> set (?m # ds)" "\<forall>x \<in> set (?m # ds). ld_validity m \<le> ld_validity x"
    using 3 by auto
  then show ?case by (cases "ld_validity e < ld_validity d") auto
qed auto

lemma erase_dev_subset: "set (erase_dev P ds) \<subseteq> set ds"
  by (induction ds) auto

lemma update_th_period_ok:
  assumes "locked_devices s \<noteq> []"
  shows "\<exists>s'. update_th_period s = Ok s' \<and> th_inv s' \<and> locked_devices s' = locked_devices s \<and>
     next_work s' = next_work s \<and> th_exited s' = th_exited s"
  using min_validity_ok[OF assms] by (auto simp: update_th_period_def th_inv_def)

lemma finish_cmd_fields [simp]:
  "th_inv (finish_cmd e s) = th_inv s" "locked_devices (finish_cmd e s) = locked_devices s"
  "next_work (finish_cmd e s) = next_work s" "period (finish_cmd e s) = period s"
  "th_exited (finish_cmd e s) = (th_exited s \<or> e \<or> locked_devices s = [])"
  by (simp_all add: finish_cmd_def th_inv_def Let_def)

text \<open>The devices a command adds.\<close>

definition added :: "LockThread \<Rightarrow> LockedDevice set" where
  "added s = (if cmd_code (local_cmd s) = LOCK_ADD_DEV \<and> cmd_dev_name (local_cmd s) \<notin> ld_dev_name ` set (locked_devices s)
     then {\<lparr>ld_dev_name = cmd_dev_name (local_cmd s), ld_validity = cmd_lock_validity (local_cmd s)\<rparr>} else {})"

lemma execute_cmd_ok:
  assumes "th_inv s" "locked_devices s \<noteq> []"
  shows "\<exists>s'. execute_cmd s = Ok s' \<and> th_inv s' \<and> set (locked_devices s') \<subseteq> set (locked_devices s) \<union> added s \<and>
     added s \<subseteq> set (locked_devices s') \<and> next_work s' = next_work s \<and> (locked_devices s' = [] \<longrightarrow> th_exited s')"
proof (cases "cmd_code (local_cmd s)")
  case LOCK_ADD_DEV
  let ?s = "if cmd_dev_name (local_cmd s) \<notin> ld_dev_name ` set (locked_devices s)
    then s\<lparr>locked_devices := locked_devices s @
           [\<lparr>ld_dev_name = cmd_dev_name (local_cmd s), ld_validity = cmd_lock_validity (local_cmd s)\<rparr>]\<rparr> else s"
  have "locked_devices ?s \<noteq> []" "set (locked_devices ?s) = set (locked_devices s) \<union> added s" "next_work ?s = next_work s"
    using assms(2) LOCK_ADD_DEV by (auto simp: added_def)
  with update_th_period_ok[OF this(1)] show ?thesis
    using LOCK_ADD_DEV by (auto simp: execute_cmd_def Let_def)
next
  case LOCK_REM_DEV
  let ?s = "s\<lparr>locked_devices := erase_dev (\<lambda>n. n = cmd_dev_name (local_cmd s)) (locked_devices s)\<rparr>"
  have sub: "set (locked_devices ?s) \<subseteq> set (locked_devices s)" by (simp add: erase_dev_subset)
  have none: "added s = {}" using LOCK_REM_DEV by (simp add: added_def)
  show ?thesis
  proof (cases "locked_devices ?s = []")
    case True
    then show ?thesis using LOCK_REM_DEV none by (simp add: execute_cmd_def th_inv_def)
  next
    case False
    from update_th_period_ok[OF this] show ?thesis
      using LOCK_REM_DEV none sub False by (auto simp: execute_cmd_def)
  qed
qed (use assms in \<open>auto simp: execute_cmd_def unlock_all_devs_def added_def th_inv_def\<close>)

lemma relock_errors_ok:
  assumes "th_inv s" "locked_devices s \<noteq> []" "\<not> th_exited s"
  shows "\<exists>s'. relock_errors es s = Ok s' \<and> th_inv s' \<and> set (locked_devices s') \<subseteq> set (locked_devices s) \<and>
     next_work s' = next_work s \<and> period s' = period s \<and> th_exited s' = (locked_devices s' = [])"
  using assms
proof (induction es arbitrary: s)
  case (Cons e es)
  show ?case
  proof (cases "lost_lock e")
    case None
    then show ?thesis using Cons by simp
  next
    case (Some name)
    let ?devs = "erase_dev (\<lambda>n. lower name = lower n) (locked_devices s)"
    let ?s = "s\<lparr>locked_devices := ?devs\<rparr>"
    have inv: "th_inv ?s" "set ?devs \<subseteq> set (locked_devices s)"
      using Cons.prems(1) erase_dev_subset[of _ "locked_devices s"] by (auto simp: th_inv_def)
    show ?thesis
    proof (cases "?devs = []")
      case True
      then show ?thesis using Some Cons.prems by (auto simp: execute_cmd_def finish_cmd_def Let_def th_inv_def)
    next
      case False
      then show ?thesis using Cons.IH[of ?s] Some inv Cons.prems by auto
    qed
  qed
qed auto

lemma get_command_fields:
  assumes "get_command sh s = (received, w, s1)"
  shows "locked_devices s1 = locked_devices s" "next_work s1 = next_work s" "period s1 = period s" "th_exited s1 = th_exited s"
    "received = LOCK_COMMAND \<Longrightarrow> local_cmd s1 = shared_cmd s1"
  using assms by (auto simp: get_command_def Let_def split: if_splits option.splits)


text \<open>
  A device added to a running thread waits for the renewal that was planned before: when
  that lies further away than the validity of the new lock, the thread sleeps longer
  than the lock lasts.
\<close>

theorem lock_thread_late:
  assumes "th_inv s" "locked_devices s \<noteq> []" "\<not> th_exited s" "cmd_pending (shared_cmd s)" "th_sleep s \<noteq> Some 0"
    and "cmd_code (shared_cmd s) = LOCK_ADD_DEV" "cmd_dev_name (shared_cmd s) \<notin> ld_dev_name ` set (locked_devices s)"
    and "0 \<le> cmd_lock_validity (shared_cmd s)" "now + cmd_lock_validity (shared_cmd s) < next_work s"
  shows "\<exists>s' sl. run_round admin sh now s = Ok s' \<and>
     \<lparr>ld_dev_name = cmd_dev_name (shared_cmd s), ld_validity = cmd_lock_validity (shared_cmd s)\<rparr> \<in> set (locked_devices s') \<and>
     th_sleep s' = Some sl \<and> cmd_lock_validity (shared_cmd s) < sl"
proof -
  let ?s1 = "s\<lparr>local_cmd := shared_cmd s\<rparr>"
  have g: "get_command sh s = (LOCK_COMMAND, No_wait, ?s1)" using assms(4,5) by (simp add: get_command_def)
  have "th_inv ?s1" "locked_devices ?s1 \<noteq> []" using assms(1,2) by (simp_all add: th_inv_def)
  from execute_cmd_ok[OF this] obtain s2 where s2: "execute_cmd ?s1 = Ok s2" "added ?s1 \<subseteq> set (locked_devices s2)"
      "next_work s2 = next_work s" by auto
  have dev: "\<lparr>ld_dev_name = cmd_dev_name (shared_cmd s), ld_validity = cmd_lock_validity (shared_cmd s)\<rparr> \<in> set (locked_devices s2)"
    using s2(2) assms(6,7) by (auto simp: added_def)
  have "\<not> th_exited s2" using s2(1) dev assms(3,6,7)
    by (auto simp: execute_cmd_def update_th_period_def Let_def result_simps)
  then show ?thesis
    using g s2(1,3) dev assms(8,9) by (auto simp: run_round_def compute_sleep_time_def Let_def)
qed

section \<open>The thread and the server together\<close>

text \<open>What a re-lock of one device answers.\<close>

definition relock_errs :: "int \<Rightarrow> client_addr \<Rightarrow> lock_dev \<Rightarrow> DevError list" where
  "relock_errs now c d = (case fst (relock now c d) of Throw e \<Rightarrow> first_error e | _ \<Rightarrow> [])"

lemma lost_lock_colon:
  "CHR '':'' \<notin> set n \<Longrightarrow> reason = ''API_DeviceLocked'' \<or> reason = ''API_DeviceNotLocked'' \<Longrightarrow>
   lost_lock \<lparr>err_reason = reason, err_desc = n @ CHR '':'' # r, err_origin = o', err_severity = sv\<rparr> = Some n"
  by (auto simp: lost_lock_def)

lemma relock_outcome:
  assumes "lock_inv d" "ca_ok c"
  shows "fst (relock now c d) \<noteq> Undef"
    and "CHR '':'' \<notin> set (device_name d) \<Longrightarrow> fst (relock now c d) \<noteq> Ok () \<Longrightarrow>
       \<exists>e. relock_errs now c d = [e] \<and> lost_lock e = Some (device_name d)"
proof -
  consider (same) "fst (relock now c d) = Ok ()"
    | (lost) reason r where "fst (relock now c d) = Throw (DevFailed reason (device_name d @ CHR '':'' # r))"
        "reason = ''API_DeviceLocked'' \<or> reason = ''API_DeviceNotLocked''"
  proof (cases "device_locked d \<and> valid_lock now d")
    case True
    then obtain l where "locker_client d = Some l" "ca_ok l" using lock_inv_locker[OF assms(1)] by blast
    then show thesis using True that assms(2)
      by (cases "same_client c l") (simp_all add: relock_def other_client_ok DeviceLocked_def)
  next
    case False
    then show thesis using that by (simp add: relock_def DeviceNotLocked_def)
  qed
  note cs = this
  show "fst (relock now c d) \<noteq> Undef" using cs by (cases rule: cs) simp_all
  show "\<exists>e. relock_errs now c d = [e] \<and> lost_lock e = Some (device_name d)"
    if "CHR '':'' \<notin> set (device_name d)" "fst (relock now c d) \<noteq> Ok ()"
    using that by (cases rule: cs) (simp_all add: relock_errs_def lost_lock_colon)
qed

text \<open>The devices a list of names stands for, each another one.\<close>

definition named :: "dserver \<Rightarrow> (string \<Rightarrow> nat) \<Rightarrow> string list \<Rightarrow> bool" where
  "named s j ns \<longleftrightarrow>
     distinct (map j ns) \<and>
     (\<forall>n \<in> set ns. find_device_name_core (lower n) s = Some (Dev_at (j n)) \<and> j n < length (ds_devs s) \<and>
        lock_inv (ds_devs s ! j n))"

lemma re_lock_loop_errors:
  assumes "named s j ns" "ca_ok c"
  shows "fst (re_lock_loop (\<lambda>_. None) now c ns errors s) =
     Ok (errors @ concat (map (\<lambda>n. relock_errs now c (ds_devs s ! j n)) ns))"
  using assms(1)
proof (induction ns arbitrary: errors s)
  case (Cons n ns)
  let ?d = "ds_devs s ! j n" and ?x = "on_dev (Dev_at (j n)) (relock now c) s"
  have n: "find_device_name_core (lower n) s = Some (Dev_at (j n))" "lock_inv ?d"
    using Cons.prems by (auto simp: named_def)
  have x: "?x = (fst (relock now c ?d), s\<lparr>ds_devs := (ds_devs s)[j n := snd (relock now c ?d)]\<rparr>)"
    by (simp add: on_dev_def split_def)
  have nth: "ds_devs (snd ?x) ! j m = ds_devs s ! j m" if "m \<in> set ns" for m
    using Cons.prems that by (auto simp: named_def x nth_list_update)
  have "named (snd ?x) j ns"
    using Cons.prems nth by (simp add: named_def find_after_relock[of _ "Dev_at (j n)"] x[symmetric]) (simp add: x)
  from Cons.IH[OF this] have "fst (re_lock_loop (\<lambda>_. None) now c ns errs (snd ?x)) =
      Ok (errs @ concat (map (\<lambda>n. relock_errs now c (ds_devs s ! j n)) ns))" for errs
    using nth by (simp cong: map_cong)
  then show ?case
    using n(1) relock_outcome(1)[OF n(2) assms(2), of now] x
    by (cases "fst (relock now c ?d)") (simp_all add: get_device_by_name_def relock_errs_def)
qed simp

lemma erase_dev_filter:
  "distinct (map (\<lambda>d. lower (ld_dev_name d)) ds) \<Longrightarrow>
   erase_dev (\<lambda>n. lower name = lower n) ds = filter (\<lambda>d. lower (ld_dev_name d) \<noteq> lower name) ds"
proof (induction ds)
  case (Cons d ds)
  show ?case
  proof (cases "lower (ld_dev_name d) = lower name")
    case True
    then have "\<forall>x \<in> set ds. lower (ld_dev_name x) \<noteq> lower name" using Cons.prems by force
    then show ?thesis using True by (auto simp: filter_id_conv)
  next
    case False
    then show ?thesis using Cons by auto
  qed
qed simp

lemma relock_errors_filter:
  assumes "distinct (map (\<lambda>d. lower (ld_dev_name d)) (locked_devices s))" "locked_devices s \<noteq> []"
    and "\<forall>e \<in> set es. lost_lock e \<noteq> None"
  shows "\<exists>s'. relock_errors es s = Ok s' \<and> locked_devices s' =
     filter (\<lambda>d. lower (ld_dev_name d) \<notin> (\<lambda>e. lower (the (lost_lock e))) ` set es) (locked_devices s)"
  using assms
proof (induction es arbitrary: s)
  case (Cons e es)
  then obtain name where name: "lost_lock e = Some name" by auto
  let ?devs = "filter (\<lambda>d. lower (ld_dev_name d) \<noteq> lower name) (locked_devices s)"
  have er: "erase_dev (\<lambda>n. lower name = lower n) (locked_devices s) = ?devs"
    using Cons.prems(1) by (rule erase_dev_filter)
  have goal: "filter (\<lambda>d. lower (ld_dev_name d) \<notin> (\<lambda>e. lower (the (lost_lock e))) ` set (e # es)) (locked_devices s) =
      filter (\<lambda>d. lower (ld_dev_name d) \<notin> (\<lambda>e. lower (the (lost_lock e))) ` set es) ?devs"
    using name by (auto intro: filter_cong)
  show ?case
  proof (cases "?devs = []")
    case True
    then show ?thesis unfolding goal using name er Cons.prems(2) by (simp add: execute_cmd_def)
  next
    case False
    have "distinct (map (\<lambda>d. lower (ld_dev_name d)) ?devs)" using Cons.prems(1) by (rule distinct_map_filter)
    then show ?thesis
      unfolding goal using Cons.IH[of "s\<lparr>locked_devices := ?devs\<rparr>"] Cons.prems(3) False name er by simp
  qed
qed simp

text \<open>The answer of the server to \<open>ReLockDevices\<close>, as the thread sees it.\<close>

definition admin_relock :: "int \<Rightarrow> client_addr \<Rightarrow> dserver \<Rightarrow> string list \<Rightarrow> DevError list" where
  "admin_relock now c srv args =
     (case fst (re_lock_devices (\<lambda>_. None) now (Some c) args srv) of Throw (DevFailed_stack es) \<Rightarrow> es | _ \<Rightarrow> [])"

lemma admin_relock_errors:
  assumes "named srv j ns" "ca_ok c" "ca_client_ident c"
  shows "admin_relock now c srv ns = concat (map (\<lambda>n. relock_errs now c (ds_devs srv ! j n)) ns)"
proof -
  let ?es = "concat (map (\<lambda>n. relock_errs now c (ds_devs srv ! j n)) ns)"
  have "fst (re_lock_devices (\<lambda>_. None) now (Some c) ns srv) = (if ?es \<noteq> [] then Throw (DevFailed_stack ?es) else Ok ())"
    using re_lock_loop_errors[OF assms(1,2), of now "[]"] assms(3)
    by (cases "re_lock_loop (\<lambda>_. None) now c ns [] srv") (simp add: re_lock_devices_def client_or_throw_def)
  then show ?thesis by (cases "?es = []") (simp_all add: admin_relock_def)
qed

text \<open>
  The client stops renewing exactly the locks it has lost: after a renewal the thread
  holds the devices for which the re-lock on the server succeeded, in their order, and
  no others. The server tells them apart by the device name it puts before the colon of
  the description.
\<close>

theorem lock_thread_drops_lost:
  assumes "named srv j (map ld_dev_name (locked_devices s))" "ca_ok c" "ca_client_ident c"
    and "locked_devices s \<noteq> []" "re_lock_cmd_args s = []"
    and "distinct (map (\<lambda>d. lower (ld_dev_name d)) (locked_devices s))"
    and "\<forall>d \<in> set (locked_devices s). lower (device_name (ds_devs srv ! j (ld_dev_name d))) = lower (ld_dev_name d) \<and>
           CHR '':'' \<notin> set (device_name (ds_devs srv ! j (ld_dev_name d)))"
  shows "\<exists>s'. one_more_lock (admin_relock now c srv) s = Ok s' \<and>
     locked_devices s' = filter (\<lambda>d. fst (relock now c (ds_devs srv ! j (ld_dev_name d))) = Ok ()) (locked_devices s)"
proof -
  let ?dev = "\<lambda>d. ds_devs srv ! j (ld_dev_name d)" and ?s = "s\<lparr>re_lock_cmd_args := map ld_dev_name (locked_devices s)\<rparr>"
  let ?es = "concat (map (\<lambda>d. relock_errs now c (?dev d)) (locked_devices s))"
  have es: "admin_relock now c srv (map ld_dev_name (locked_devices s)) = ?es"
    using admin_relock_errors[OF assms(1-3), of now] by (simp add: comp_def)
  have inv: "lock_inv (?dev d)" if "d \<in> set (locked_devices s)" for d using assms(1) that by (auto simp: named_def)
  have ok: "relock_errs now c (?dev d) = []" if "fst (relock now c (?dev d)) = Ok ()" for d
    using that by (simp add: relock_errs_def)
  have bad: "\<exists>e. relock_errs now c (?dev d) = [e] \<and> lost_lock e = Some (device_name (?dev d))"
    if "d \<in> set (locked_devices s)" "fst (relock now c (?dev d)) \<noteq> Ok ()" for d
    using relock_outcome(2)[OF inv[OF that(1)] assms(2) _ that(2)] assms(7) that(1) by blast
  have "\<forall>e \<in> set ?es. lost_lock e \<noteq> None" using ok bad by fastforce
  moreover have names: "lower (ld_dev_name d) \<in> (\<lambda>e. lower (the (lost_lock e))) ` set ?es \<longleftrightarrow>
      fst (relock now c (?dev d)) \<noteq> Ok ()" if d: "d \<in> set (locked_devices s)" for d
  proof
    assume "lower (ld_dev_name d) \<in> (\<lambda>e. lower (the (lost_lock e))) ` set ?es"
    then obtain x e where x: "x \<in> set (locked_devices s)" "e \<in> set (relock_errs now c (?dev x))"
        "lower (ld_dev_name d) = lower (the (lost_lock e))" by auto
    then have nok: "fst (relock now c (?dev x)) \<noteq> Ok ()" using ok[of x] by auto
    then have "lower (ld_dev_name d) = lower (ld_dev_name x)" using bad[OF x(1)] x assms(7) by auto
    then have "d = x" using assms(6) d x(1) by (auto simp: distinct_map dest: inj_onD)
    then show "fst (relock now c (?dev d)) \<noteq> Ok ()" using nok by simp
  next
    assume "fst (relock now c (?dev d)) \<noteq> Ok ()"
    then obtain e where e: "relock_errs now c (?dev d) = [e]" "lost_lock e = Some (device_name (?dev d))" using bad[OF d] by blast
    then have "e \<in> set ?es" using d by force
    then show "lower (ld_dev_name d) \<in> (\<lambda>e. lower (the (lost_lock e))) ` set ?es"
      using e(2) assms(7) d by (intro image_eqI[of _ _ e]) auto
  qed
  ultimately have "\<exists>s'. relock_errors ?es ?s = Ok s' \<and> locked_devices s' =
      filter (\<lambda>d. lower (ld_dev_name d) \<notin> (\<lambda>e. lower (the (lost_lock e))) ` set ?es) (locked_devices s)"
    using relock_errors_filter[of ?s ?es] assms(4,6) by simp
  moreover have "filter (\<lambda>d. lower (ld_dev_name d) \<notin> (\<lambda>e. lower (the (lost_lock e))) ` set ?es) (locked_devices s) =
      filter (\<lambda>d. fst (relock now c (?dev d)) = Ok ()) (locked_devices s)"
    using names by (intro filter_cong) auto
  ultimately show ?thesis using assms(5) es by (simp add: one_more_lock_def relock_args_def)
qed

lemma prefix_at_set: "prefix_at p s \<Longrightarrow> set p \<subseteq> set s"
  by (induction p s rule: prefix_at.induct) auto

lemma find_str_absent: "x \<in> set p \<Longrightarrow> x \<notin> set s \<Longrightarrow> find_str p s = None"
proof (induction p s rule: find_str.induct)
  case (2 p y ys)
  then have "\<not> prefix_at p (y # ys)" using prefix_at_set[of p "y # ys"] by auto
  then show ?case using 2 by simp
qed auto

lemma get_locker_host_tcp:
  assumes "set ip \<inter> {CHR '':'', CHR ''['', CHR ''u''} = {}" "set port \<inter> {CHR ''['', CHR ''u''} = {}"
  shows "get_locker_host (''giop:tcp:'' @ ip @ CHR '':'' # port) = Ok ip"
proof -
  let ?a = "''giop:tcp:'' @ ip @ CHR '':'' # port"
  have "find_str '':unix:'' ?a = None" using assms by (intro find_str_absent[where x = "CHR ''u''"]) auto
  moreover have "find_char (CHR ''['') ?a = None" using assms by (auto simp: find_char_None_iff)
  moreover have "find_char (CHR '':'') (ip @ CHR '':'' # port) = Some (length ip)"
    using assms(1) by (intro find_char_append) (auto simp: disjoint_iff)
  ultimately show ?thesis by (simp add: get_locker_host_def find_or_throw_def find_from_def)
qed

lemma sint_pid: "n < 2 ^ 31 \<Longrightarrow> sint (of_nat n :: 32 word) = int n"
  by (simp add: signed_of_nat signed_take_bit_int_eq_self)

text \<open>
  A process that asks whether it holds a lock gets the right answer from the status that
  the server sends about the lock of a C++ client: yes exactly if the process number of
  the locker is its own and the address of the locker is one of its own.
\<close>

theorem is_locked_by_me_correct:
  assumes "lock_inv d" "device_locked d" "valid_lock now d" "locker_client d = Some l"
    and "is_cpp_lang (ca_client_lang l)" "ca_client_pid l < 2 ^ 31"
    and "c_part (ca_client_ip l) = ''giop:tcp:'' @ ip @ CHR '':'' # port"
    and "set ip \<inter> {CHR '':'', CHR ''['', CHR ''u''} = {}" "set port \<inter> {CHR ''['', CHR ''u''} = {}"
  shows "rbind (fst (lock_status getname root now d)) (is_locked_by_me pid adrs) =
     Ok (int (ca_client_pid l) = pid \<and> (ip = ''localhost'' \<or> ip \<in> set adrs))"
proof -
  have l: "ca_ok l" using assms(1,4) by (simp add: lock_inv_def)
  obtain who where who: "print_client_addr getname l = Ok who" using print_client_addr_defined[OF l] by blast
  have ip: "c_str (ca_client_ip l) = Ok (''giop:tcp:'' @ ip @ CHR '':'' # port)"
    using ca_ok_c_str[OF l] assms(7) by (simp add: c_part_def)
  have "ca_client_lang l \<noteq> JAVA" using assms(5) by (auto simp: is_cpp_lang_def)
  then show ?thesis
    using assms(2-4) who ip get_locker_host_tcp[OF assms(8,9)] sint_pid[OF assms(6)]
    by (simp add: lock_status_def locked_status_def is_locked_by_me_def Let_def vec_get_def)
qed


section \<open>Examples\<close>

definition ex_cmd :: LockThCmd where
  "ex_cmd = \<lparr>cmd_pending = False, cmd_code = LOCK_ADD_DEV, cmd_dev_name = [], cmd_lock_validity = 0, suicide = False\<rparr>"

definition ex_thread :: LockThread where
  "ex_thread = run_start 0 (LockThread_new ex_cmd ex_cmd ''test/dev/1'' 60000000000)"


theorem lock_thread_late_witness:
  "\<exists>s' sl. run_round (\<lambda>_. []) ex_cmd 1000000000
       (ex_thread\<lparr>shared_cmd := ex_cmd\<lparr>cmd_pending := True, cmd_dev_name := ''test/dev/2'', cmd_lock_validity := 2000000000\<rparr>\<rparr>) =
       Ok s' \<and> \<lparr>ld_dev_name = ''test/dev/2'', ld_validity = 2000000000\<rparr> \<in> set (locked_devices s') \<and>
     th_sleep s' = Some sl \<and> 2000000000 < sl"
  using lock_thread_late[of "ex_thread\<lparr>shared_cmd := ex_cmd\<lparr>cmd_pending := True, cmd_dev_name := ''test/dev/2'',
      cmd_lock_validity := 2000000000\<rparr>\<rparr>" 1000000000 "\<lambda>_. []" ex_cmd]
  by (simp add: ex_thread_def ex_cmd_def run_start_def LockThread_new_def th_inv_def half_second_def)

definition ex_server :: dserver where
  "ex_server = \<lparr>ds_self = ex_dev\<lparr>device_name := ''dserver/test/1''\<rparr>, ds_devs = [ex_locked, ex_dev\<lparr>device_name := ''test/dev/2''\<rparr>]\<rparr>"

definition ex_two :: LockThread where
  "ex_two = ex_thread\<lparr>locked_devices := [\<lparr>ld_dev_name = ''test/dev/1'', ld_validity = 10\<rparr>,
     \<lparr>ld_dev_name = ''test/dev/2'', ld_validity = 10\<rparr>]\<rparr>"

theorem lock_thread_drops_lost_witness:
  "\<exists>s'. one_more_lock (admin_relock 105 (ex_client 1) ex_server) ex_two = Ok s' \<and>
     locked_devices s' = [\<lparr>ld_dev_name = ''test/dev/1'', ld_validity = 10\<rparr>]"
proof -
  let ?j = "\<lambda>n. if n = ''test/dev/1'' then 0 else 1"
  have devs: "ds_devs ex_server = [ex_locked, ex_dev\<lparr>device_name := ''test/dev/2''\<rparr>]" by (simp add: ex_server_def)
  have names: "device_name ex_locked = ''test/dev/1''" "alias_name_lower ex_locked = []" "alias_name_lower ex_dev = []"
    by (simp_all add: ex_locked_def ex_dev_def)
  have "lock_inv (ex_dev\<lparr>device_name := ''test/dev/2''\<rparr>)" by (simp add: lock_inv_def ex_dev_def)
  then have "named ex_server ?j (map ld_dev_name (locked_devices ex_two))"
    by (simp add: named_def ex_two_def devs find_device_name_core_def names tolower_def Let_def)
  moreover have "fst (relock 105 (ex_client 1) ex_locked) = Ok ()"
    by (simp add: relock_def valid_lock_def other_client_ok)
  moreover have "fst (relock 105 (ex_client 1) (ex_dev\<lparr>device_name := ''test/dev/2''\<rparr>)) \<noteq> Ok ()"
    by (simp add: relock_def)
  ultimately show ?thesis
    using lock_thread_drops_lost[of ex_server ?j ex_two "ex_client 1" 105]
    by (simp add: ex_two_def ex_thread_def run_start_def LockThread_new_def devs names tolower_def Let_def)
qed

theorem is_locked_by_me_correct_witness:
  "\<exists>d l. locker_client d = Some l \<and>
     rbind (fst (lock_status (\<lambda>_. None) (\<lambda>_ _. Ok ()) 105 d)) (is_locked_by_me 1 [''10.0.0.1'']) = Ok True"
proof -
  let ?l = "(ex_client 1)\<lparr>ca_client_ip := ''giop:tcp:10.0.0.1:5'' @ replicate 61 NUL\<rparr>"
  let ?d = "ex_locked\<lparr>locker_client := Some ?l\<rparr>"
  have inv: "lock_inv ?d"
    by (simp add: lock_inv_def ex_locked_def ex_dev_def ca_ok_def cbuf_ok_def IP_ADDR_BUFFER_SIZE_def)
  have "rbind (fst (lock_status (\<lambda>_. None) (\<lambda>_ _. Ok ()) 105 ?d)) (is_locked_by_me 1 [''10.0.0.1'']) =
      Ok (int (ca_client_pid ?l) = 1 \<and> (''10.0.0.1'' = ''localhost'' \<or> ''10.0.0.1'' \<in> set [''10.0.0.1'']))"
    by (rule is_locked_by_me_correct[OF inv, where port = "''5''"])
       (simp_all add: valid_lock_def is_cpp_lang_def ex_client_def c_part_def)
  then show ?thesis by (intro exI[of _ ?d] exI[of _ ?l]) (simp add: ex_client_def)
qed

end
