(* ===== verification/Poll_Thread.thy ===== *)
theory Poll_Thread
  imports Tango_Prelude "HOL-Library.Multiset" "HOL-Library.Signed_Division"
begin

text \<open>
  The polling thread of a device server (\<open>pollthread.cpp\<close>): its work list, the
  commands it receives, the choice of the next object to poll, the periodic tuning
  of the list and the computation of the time to sleep, with the discarding of polls
  that are late. Dates and durations are integers in nanoseconds.
\<close>

section \<open>Data\<close>

datatype PollObjType = POLL_CMD | POLL_ATTR | EVENT_HEARTBEAT | STORE_SUBDEV

datatype PollCmdCode =
    POLL_ADD_OBJ | POLL_REM_OBJ | POLL_START | POLL_STOP | POLL_UPD_PERIOD | POLL_REM_DEV
  | POLL_EXIT | POLL_REM_EXT_TRIG_OBJ | POLL_ADD_HEARTBEAT | POLL_REM_HEARTBEAT

datatype PollCmdType = POLL_TIME_OUT | POLL_COMMAND | POLL_TRIGGER

text \<open>
  A device is named by a number, and a null device pointer is \<open>None\<close>. Of a device
  the thread uses the release of its interface and its list of polled objects, and of
  a polled object its type, its name and its period.
\<close>

record polled_obj =
  po_type :: PollObjType
  po_name :: string
  po_upd :: int

record polled_dev =
  dev_idl_version :: int
  poll_obj_list :: "polled_obj list"

text \<open>
  Besides the devices, the thread asks the two event suppliers, where they exist,
  whether a client has subscribed.
\<close>

record poll_server =
  srv_dev :: "nat \<Rightarrow> polled_dev"
  zmq_subscribed :: "bool option"
  notifd_subscribed :: "bool option"

record PollThCmd =
  cmd_pending :: bool
  trigger :: bool
  cmd_code :: PollCmdCode
  cmd_dev :: "nat option"
  cmd_index :: int
  cmd_name :: string
  cmd_type :: PollObjType
  cmd_new_upd :: int

text \<open>
  The needed time of a work item is \<open>None\<close> as long as nothing was stored in the
  member: reading it then is undefined. The list \<open>poll_list\<close> of a work item is
  always the one of its device.
\<close>

record WorkItem =
  wi_dev :: "nat option"
  wake_up_date :: int
  wi_update :: int
  wi_type :: PollObjType
  wi_name :: "string list"
  needed_time :: "int option"

text \<open>
  Calls the thread makes to the rest of the server, in the order it makes them.
\<close>

datatype event_supplier = Zmq | Notifd

datatype poll_call =
    Cmd_polled nat string
  | Attr_polled nat "string list"
  | Out_of_sync nat "string list"
  | Push_heartbeat event_supplier
  | Auto_unsub
  | Store_subdev

record PollThread =
  works :: "WorkItem list"
  ext_trig_works :: "WorkItem list"
  shared_cmd :: PollThCmd
  local_cmd :: PollThCmd
  pt_now :: int
  pt_after :: int
  pt_sleep :: "int option"
  polling_stop :: bool
  tune_ctr :: int
  need_two_tuning :: bool
  send_heartbeat :: bool
  heartbeat_ctr :: nat
  previous_nb_late :: nat
  polling_bef_9 :: bool
  auto_upd :: "(int \<times> string) list"
  rem_upd :: "(int \<times> string) list"
  ignore_call :: bool
  pt_calls :: "poll_call list"

definition TIME_NEEDED_HEARTBEAT :: int where
  "TIME_NEEDED_HEARTBEAT = 2000000"

definition POLL_LOOP_NB :: int where
  "POLL_LOOP_NB = 500"

definition DISCARD_THRESHOLD :: int where
  "DISCARD_THRESHOLD = 20000000"

definition PollThread_new :: "PollThCmd \<Rightarrow> PollThCmd \<Rightarrow> bool \<Rightarrow> PollThread" where
  "PollThread_new cmd loc heartbeat =
    \<lparr>works = [], ext_trig_works = [], shared_cmd = cmd, local_cmd = loc\<lparr>cmd_pending := False\<rparr>,
     pt_now = 0, pt_after = 0, pt_sleep = Some 1000000, polling_stop = \<not> heartbeat,
     tune_ctr = 1, need_two_tuning = False, send_heartbeat = heartbeat, heartbeat_ctr = 0,
     previous_nb_late = 0, polling_bef_9 = False, auto_upd = [], rem_upd = [],
     ignore_call = True, pt_calls = []\<rparr>"


section \<open>The work list\<close>

fun insert_work :: "WorkItem \<Rightarrow> WorkItem list \<Rightarrow> WorkItem list" where
  "insert_work w [] = [w]"
| "insert_work w (v # vs) =
    (if wake_up_date v < wake_up_date w then v # insert_work w vs else w # v # vs)"

definition insert_in_list :: "WorkItem \<Rightarrow> PollThread \<Rightarrow> PollThread" where
  "insert_in_list w st = st\<lparr>works := insert_work w (works st)\<rparr>"

text \<open>
  \<open>push_name P n\<close> adds a name to the first item that satisfies the predicate of
  the searches with \<open>find_if\<close>.
\<close>

fun push_name :: "(WorkItem \<Rightarrow> bool) \<Rightarrow> string \<Rightarrow> WorkItem list \<Rightarrow> WorkItem list option" where
  "push_name P n [] = None"
| "push_name P n (w # ws) =
    (if P w then Some (w\<lparr>wi_name := wi_name w @ [n]\<rparr> # ws)
     else map_option ((#) w) (push_name P n ws))"

definition same_group :: "nat option \<Rightarrow> int \<Rightarrow> PollObjType \<Rightarrow> WorkItem \<Rightarrow> bool" where
  "same_group d u t w \<longleftrightarrow> wi_dev w = d \<and> wi_update w = u \<and> wi_type w = t"

definition groups_attr :: "(nat \<Rightarrow> polled_dev) \<Rightarrow> nat \<Rightarrow> PollObjType \<Rightarrow> PollThread \<Rightarrow> bool" where
  "groups_attr env d t st \<longleftrightarrow>
    t = POLL_ATTR \<and> dev_idl_version (env d) \<ge> 4 \<and> \<not> polling_bef_9 st"

definition add_insert_in_list :: "(nat \<Rightarrow> polled_dev) \<Rightarrow> WorkItem \<Rightarrow> PollThread \<Rightarrow> PollThread result" where
  "add_insert_in_list env w st =
    (if wi_type w \<noteq> POLL_ATTR then Ok (insert_in_list w st)
     else case wi_dev w of
         None \<Rightarrow> Undef
       | Some d \<Rightarrow>
           (if groups_attr env d (wi_type w) st
            then rbind (vec_get (wi_name w) 0) (\<lambda>n.
              case push_name (same_group (wi_dev w) (wi_update w) (wi_type w)) n (works st) of
                Some ws \<Rightarrow> Ok (st\<lparr>works := ws\<rparr>)
              | None \<Rightarrow> Ok (insert_in_list w st))
            else Ok (insert_in_list w st)))"

text \<open>
  \<open>erase_obj\<close> removes a name from the first item of the device and type that has
  it, and the item with its last name.
\<close>

fun erase_obj :: "nat option \<Rightarrow> PollObjType \<Rightarrow> string \<Rightarrow> WorkItem list \<Rightarrow> WorkItem list option" where
  "erase_obj d t n [] = None"
| "erase_obj d t n (w # ws) =
    (if wi_dev w = d \<and> wi_type w = t \<and> n \<in> set (wi_name w)
     then let ns = remove1 n (wi_name w) in
       Some (if ns = [] then ws else w\<lparr>wi_name := ns\<rparr> # ws)
     else map_option ((#) w) (erase_obj d t n ws))"

definition erase_found :: "'a list option \<Rightarrow> 'a list \<Rightarrow> bool \<times> 'a list" where
  "erase_found r ws = (case r of None \<Rightarrow> (False, ws) | Some vs \<Rightarrow> (True, vs))"

text \<open>
  The externally triggered objects are compared by their first name.
\<close>

fun erase_trig :: "nat option \<Rightarrow> PollObjType \<Rightarrow> string \<Rightarrow> WorkItem list \<Rightarrow> WorkItem list option result" where
  "erase_trig d t n [] = Ok None"
| "erase_trig d t n (w # ws) =
    (if wi_dev w = d \<and> wi_type w = t
     then rbind (vec_get (wi_name w) 0) (\<lambda>m.
       if m = n then Ok (Some ws)
       else rbind (erase_trig d t n ws) (\<lambda>r. Ok (map_option ((#) w) r)))
     else rbind (erase_trig d t n ws) (\<lambda>r. Ok (map_option ((#) w) r)))"

fun erase_heartbeat :: "WorkItem list \<Rightarrow> WorkItem list" where
  "erase_heartbeat [] = []"
| "erase_heartbeat (w # ws) = (if wi_type w = EVENT_HEARTBEAT then ws else w # erase_heartbeat ws)"

section \<open>Commands\<close>

definition retune :: "PollThread \<Rightarrow> PollThread" where
  "retune st = st\<lparr>tune_ctr := 4 * int (length (works st)), need_two_tuning := True\<rparr>"

definition cmd_add_obj :: "(nat \<Rightarrow> polled_dev) \<Rightarrow> PollThCmd \<Rightarrow> PollThread \<Rightarrow> PollThread result" where
  "cmd_add_obj env c st =
    (case cmd_dev c of
       None \<Rightarrow> Undef
     | Some d \<Rightarrow>
         rbind (vec_get (poll_obj_list (env d)) (cmd_index c)) (\<lambda>obj.
           let new_upd = po_upd obj; new_type = po_type obj;
               wo = \<lparr>wi_dev = Some d, wake_up_date = 0, wi_update = new_upd, wi_type = new_type,
                     wi_name = [po_name obj], needed_time = Some 0\<rparr>
           in case (if groups_attr env d new_type st
                    then push_name (same_group (Some d) new_upd new_type) (po_name obj) (works st)
                    else None) of
                Some ws \<Rightarrow> Ok (st\<lparr>works := ws\<rparr>)
              | None \<Rightarrow>
                  (if new_upd \<noteq> 0
                   then Ok (retune (insert_in_list (wo\<lparr>wake_up_date := pt_now st + cmd_new_upd c\<rparr>) st))
                   else Ok (st\<lparr>ext_trig_works := ext_trig_works st @ [wo]\<rparr>))))"

definition cmd_rem_obj :: "PollThCmd \<Rightarrow> PollThread \<Rightarrow> PollThread" where
  "cmd_rem_obj c st =
    st\<lparr>works := snd (erase_found (erase_obj (cmd_dev c) (cmd_type c) (cmd_name c) (works st)) (works st))\<rparr>"

definition cmd_rem_ext_trig :: "PollThCmd \<Rightarrow> PollThread \<Rightarrow> PollThread result" where
  "cmd_rem_ext_trig c st =
    rbind (erase_trig (cmd_dev c) (cmd_type c) (cmd_name c) (ext_trig_works st)) (\<lambda>r.
      Ok (st\<lparr>ext_trig_works := snd (erase_found r (ext_trig_works st))\<rparr>))"

definition cmd_rem_dev :: "PollThCmd \<Rightarrow> PollThread \<Rightarrow> PollThread" where
  "cmd_rem_dev c st =
    st\<lparr>works := filter (\<lambda>w. wi_dev w \<noteq> cmd_dev c) (works st),
       ext_trig_works := filter (\<lambda>w. wi_dev w \<noteq> cmd_dev c) (ext_trig_works st)\<rparr>"

text \<open>
  The first part of an update of the period, which returns whether the object was
  found in the work list: with a new period (\<open>upd_in_works\<close>) and with the period
  zero of an externally triggered object (\<open>upd_to_trig\<close>). The item \<open>wo\<close> that
  the latter fills is the one the second part goes on with, so its names are kept.
\<close>

definition upd_in_works ::
    "(nat \<Rightarrow> polled_dev) \<Rightarrow> PollThCmd \<Rightarrow> PollThread \<Rightarrow> (bool \<times> PollThread) result" where
  "upd_in_works env c st =
    (if works st = [] then Ok (False, st)
     else let (found, ws) = erase_found (erase_obj (cmd_dev c) (cmd_type c) (cmd_name c) (works st)) (works st);
              now' = pt_now st + cmd_new_upd c;
              tmp_work = \<lparr>wi_dev = cmd_dev c, wake_up_date = now', wi_update = cmd_new_upd c,
                          wi_type = cmd_type c, wi_name = [cmd_name c], needed_time = Some 0\<rparr>
          in if cmd_dev c = None then Undef
             else rbind (add_insert_in_list env tmp_work (st\<lparr>works := ws, pt_now := now'\<rparr>)) (\<lambda>st1.
               let st2 = st1\<lparr>tune_ctr := 0\<rparr>
               in Ok (True, if found then st2
                            else st2\<lparr>rem_upd := rem_upd st2 @ [(cmd_new_upd c, cmd_name c)]\<rparr>)))"

definition upd_to_trig ::
    "(nat \<Rightarrow> polled_dev) \<Rightarrow> PollThCmd \<Rightarrow> PollThread \<Rightarrow> (bool \<times> string list \<times> PollThread) result" where
  "upd_to_trig env c st =
    (let (found, ws) = erase_found (erase_obj (cmd_dev c) (cmd_type c) (cmd_name c) (works st)) (works st)
     in case cmd_dev c of
          None \<Rightarrow> Undef
        | Some d \<Rightarrow>
            rbind (vec_get (poll_obj_list (env d)) (cmd_index c)) (\<lambda>obj.
              let wo = \<lparr>wi_dev = Some d, wake_up_date = 0, wi_update = po_upd obj, wi_type = po_type obj,
                        wi_name = [po_name obj], needed_time = None\<rparr>
              in Ok (found, [po_name obj],
                     st\<lparr>works := ws, ext_trig_works := ext_trig_works st @ [wo]\<rparr>)))"

definition upd_from_trig :: "PollThCmd \<Rightarrow> string list \<Rightarrow> PollThread \<Rightarrow> PollThread result" where
  "upd_from_trig c names st =
    rbind (erase_trig (cmd_dev c) (cmd_type c) (cmd_name c) (ext_trig_works st)) (\<lambda>r.
      case r of
        Some ts \<Rightarrow>
          (if cmd_dev c = None then Undef
           else Ok (insert_in_list
             \<lparr>wi_dev = cmd_dev c, wake_up_date = pt_now st, wi_update = cmd_new_upd c,
              wi_type = cmd_type c, wi_name = names @ [cmd_name c], needed_time = None\<rparr>
             (st\<lparr>ext_trig_works := ts\<rparr>)))
      | None \<Rightarrow> Ok (st\<lparr>auto_upd := auto_upd st @ [(cmd_new_upd c, cmd_name c)]\<rparr>))"

definition cmd_upd_period :: "(nat \<Rightarrow> polled_dev) \<Rightarrow> PollThCmd \<Rightarrow> PollThread \<Rightarrow> PollThread result" where
  "cmd_upd_period env c st =
    (if cmd_new_upd c \<noteq> 0
     then rbind (upd_in_works env c st) (\<lambda>(found_in_work_list, st1).
       if found_in_work_list then Ok st1 else upd_from_trig c [] st1)
     else rbind (upd_to_trig env c st) (\<lambda>(found_in_work_list, names, st1).
       if found_in_work_list then Ok st1 else upd_from_trig c names st1))"

definition heartbeat_item :: "int \<Rightarrow> WorkItem" where
  "heartbeat_item t =
    \<lparr>wi_dev = None, wake_up_date = t, wi_update = 9000000000, wi_type = EVENT_HEARTBEAT,
     wi_name = [''Event heartbeat''], needed_time = Some TIME_NEEDED_HEARTBEAT\<rparr>"

definition subdev_item :: "int \<Rightarrow> WorkItem" where
  "subdev_item t =
    \<lparr>wi_dev = None, wake_up_date = t, wi_update = 1800000000000, wi_type = STORE_SUBDEV,
     wi_name = [''Sub device property storage''], needed_time = Some 0\<rparr>"

definition clear_pending :: "PollThread \<Rightarrow> PollThread" where
  "clear_pending st = st\<lparr>shared_cmd := (shared_cmd st)\<lparr>cmd_pending := False\<rparr>\<rparr>"

definition clear_trigger :: "PollThread \<Rightarrow> PollThread" where
  "clear_trigger st = st\<lparr>shared_cmd := (shared_cmd st)\<lparr>trigger := False\<rparr>\<rparr>"

definition execute_cmd :: "(nat \<Rightarrow> polled_dev) \<Rightarrow> PollThread \<Rightarrow> PollThread result" where
  "execute_cmd env st =
    rbind
      (case cmd_code (local_cmd st) of
         POLL_ADD_OBJ \<Rightarrow> cmd_add_obj env (local_cmd st) st
       | POLL_REM_OBJ \<Rightarrow> Ok (cmd_rem_obj (local_cmd st) st)
       | POLL_REM_EXT_TRIG_OBJ \<Rightarrow> cmd_rem_ext_trig (local_cmd st) st
       | POLL_REM_DEV \<Rightarrow> Ok (cmd_rem_dev (local_cmd st) st)
       | POLL_UPD_PERIOD \<Rightarrow> cmd_upd_period env (local_cmd st) st
       | POLL_ADD_HEARTBEAT \<Rightarrow> Ok (insert_in_list (heartbeat_item (pt_now st)) st)
       | POLL_REM_HEARTBEAT \<Rightarrow> Ok (st\<lparr>works := erase_heartbeat (works st)\<rparr>)
       | POLL_START \<Rightarrow> Ok (st\<lparr>polling_stop := False\<rparr>)
       | POLL_STOP \<Rightarrow> Ok (st\<lparr>polling_stop := True\<rparr>)
       | POLL_EXIT \<Rightarrow> Throw Thread_exit)
      (\<lambda>st1. Ok (clear_pending st1))"

fun run_local_cmds :: "(nat \<Rightarrow> polled_dev) \<Rightarrow> PollThCmd list \<Rightarrow> PollThread \<Rightarrow> PollThread result" where
  "run_local_cmds env [] st = Ok st"
| "run_local_cmds env (c # cs) st =
    rbind (execute_cmd env (st\<lparr>local_cmd := c\<rparr>)) (run_local_cmds env cs)"

section \<open>Polling\<close>

text \<open>
  The code of a polled command or attribute belongs to the device class: \<open>took\<close> is
  the time it takes and \<open>acts\<close> the commands it hands to its own polling thread
  when it changes the polling of the server. What is stored in the polling buffer and
  the events that are sent do not concern the scheduling.
\<close>

definition log_call :: "poll_call \<Rightarrow> PollThread \<Rightarrow> PollThread" where
  "log_call k st = st\<lparr>pt_calls := pt_calls st @ [k]\<rparr>"

definition poll_cmd ::
    "(nat \<Rightarrow> polled_dev) \<Rightarrow> int \<Rightarrow> PollThCmd list \<Rightarrow> WorkItem \<Rightarrow> PollThread \<Rightarrow> (WorkItem \<times> PollThread) result" where
  "poll_cmd env took acts w st =
    (case wi_dev w of
       None \<Rightarrow> Undef
     | Some d \<Rightarrow>
         rbind (vec_get (wi_name w) 0) (\<lambda>n.
           rbind (run_local_cmds env acts (log_call (Cmd_polled d n) st)) (\<lambda>st1.
             Ok (w\<lparr>needed_time := Some took\<rparr>, st1))))"

definition poll_attr ::
    "(nat \<Rightarrow> polled_dev) \<Rightarrow> int \<Rightarrow> PollThCmd list \<Rightarrow> WorkItem \<Rightarrow> PollThread \<Rightarrow> (WorkItem \<times> PollThread) result" where
  "poll_attr env took acts w st =
    (case wi_dev w of
       None \<Rightarrow> Undef
     | Some d \<Rightarrow>
         rbind (run_local_cmds env acts (log_call (Attr_polled d (wi_name w)) st)) (\<lambda>st1.
           Ok (w\<lparr>needed_time := Some took\<rparr>, st1)))"

definition supplier_heartbeat :: "event_supplier \<Rightarrow> bool option \<Rightarrow> PollThread \<Rightarrow> PollThread" where
  "supplier_heartbeat k sub st =
    (if sub = Some True \<and> send_heartbeat st then log_call (Push_heartbeat k) st else st)"

definition eve_heartbeat :: "poll_server \<Rightarrow> PollThread \<Rightarrow> PollThread" where
  "eve_heartbeat srv st =
    supplier_heartbeat Notifd (notifd_subscribed srv) (supplier_heartbeat Zmq (zmq_subscribed srv) st)"

definition beat :: "poll_server \<Rightarrow> PollThread \<Rightarrow> PollThread" where
  "beat srv st =
    (let st1 = eve_heartbeat srv st;
         st2 = st1\<lparr>heartbeat_ctr := (heartbeat_ctr st1 + 1) mod 2 ^ 32\<rparr>
     in if heartbeat_ctr st2 mod 3 = 0 then log_call Auto_unsub st2 else st2)"

definition store_subdev :: "PollThread \<Rightarrow> PollThread" where
  "store_subdev st = (if ignore_call st then st\<lparr>ignore_call := False\<rparr> else log_call Store_subdev st)"

definition poll_item ::
    "poll_server \<Rightarrow> int \<Rightarrow> PollThCmd list \<Rightarrow> WorkItem \<Rightarrow> PollThread \<Rightarrow> (WorkItem \<times> PollThread) result" where
  "poll_item srv took acts w st =
    (if polling_stop st then Ok (w, st)
     else case wi_type w of
         POLL_CMD \<Rightarrow> poll_cmd (srv_dev srv) took acts w st
       | POLL_ATTR \<Rightarrow> poll_attr (srv_dev srv) took acts w st
       | EVENT_HEARTBEAT \<Rightarrow> Ok (w, beat srv st)
       | STORE_SUBDEV \<Rightarrow> Ok (w, store_subdev st))"

definition drop_names :: "(int \<times> string) list \<Rightarrow> WorkItem \<Rightarrow> WorkItem" where
  "drop_names es w = w\<lparr>wi_name := filter (\<lambda>n. n \<notin> snd ` set es) (wi_name w)\<rparr>"

definition plan_next :: "WorkItem \<Rightarrow> PollThread \<Rightarrow> PollThread" where
  "plan_next w st = insert_in_list (w\<lparr>wake_up_date := wake_up_date w + wi_update w\<rparr>) st"

definition plan_rest :: "WorkItem \<Rightarrow> PollThread \<Rightarrow> PollThread" where
  "plan_rest w st = (if wi_name w \<noteq> [] then plan_next w st else st)"

fun auto_entries :: "WorkItem \<Rightarrow> (int \<times> string) list \<Rightarrow> PollThread \<Rightarrow> PollThread" where
  "auto_entries w [] st = st"
| "auto_entries w ((u, n) # es) st =
    auto_entries w es
      (case push_name (same_group (wi_dev w) u (wi_type w)) n (works st) of
         Some ws \<Rightarrow> st\<lparr>works := ws\<rparr>
       | None \<Rightarrow>
           (let now' = pt_now st + cmd_new_upd (local_cmd st)
            in insert_in_list
                 \<lparr>wi_dev = wi_dev w, wake_up_date = now', wi_update = u, wi_type = wi_type w,
                  wi_name = [n], needed_time = Some 0\<rparr> (st\<lparr>pt_now := now'\<rparr>)))"

definition reschedule :: "WorkItem \<Rightarrow> PollThread \<Rightarrow> PollThread" where
  "reschedule w st =
    (if auto_upd st \<noteq> []
     then (auto_entries w (auto_upd st) (plan_rest (drop_names (auto_upd st) w) st))\<lparr>auto_upd := []\<rparr>
     else if rem_upd st \<noteq> []
     then (plan_rest (drop_names (rem_upd st) w) st)\<lparr>rem_upd := []\<rparr>
     else plan_next w st)"

definition one_more_poll ::
    "poll_server \<Rightarrow> int \<Rightarrow> PollThCmd list \<Rightarrow> PollThread \<Rightarrow> PollThread result" where
  "one_more_poll srv took acts st =
    (case works st of
       [] \<Rightarrow> Undef
     | tmp # ws \<Rightarrow>
         rbind (poll_item srv took acts tmp (st\<lparr>works := ws\<rparr>)) (\<lambda>(tmp', st1).
           let st2 = reschedule tmp' st1
           in Ok (st2\<lparr>tune_ctr := tune_ctr st2 - 1\<rparr>)))"

fun find_trig :: "nat option \<Rightarrow> PollObjType \<Rightarrow> string \<Rightarrow> WorkItem list \<Rightarrow> WorkItem option result" where
  "find_trig d t n [] = Ok None"
| "find_trig d t n (w # ws) =
    (if wi_dev w = d \<and> wi_type w = t
     then rbind (vec_get (wi_name w) 0) (\<lambda>m. if m = n then Ok (Some w) else find_trig d t n ws)
     else find_trig d t n ws)"

definition one_more_trigg ::
    "poll_server \<Rightarrow> int \<Rightarrow> PollThCmd list \<Rightarrow> PollThread \<Rightarrow> PollThread result" where
  "one_more_trigg srv took acts st =
    rbind (find_trig (cmd_dev (local_cmd st)) (cmd_type (local_cmd st)) (cmd_name (local_cmd st))
            (ext_trig_works st)) (\<lambda>r.
      case r of
        None \<Rightarrow> Ok (clear_trigger st)
      | Some tmp \<Rightarrow>
          rbind (if polling_stop st then Ok (tmp, st)
                 else if wi_type tmp = POLL_CMD then poll_cmd (srv_dev srv) took acts tmp st
                 else poll_attr (srv_dev srv) took acts tmp st) (\<lambda>(tmp', st1). Ok (clear_trigger st1)))"


section \<open>Tuning the list\<close>

fun needed_total :: "WorkItem list \<Rightarrow> int result" where
  "needed_total [] = Ok 0"
| "needed_total (w # ws) =
    (case needed_time w of
       None \<Rightarrow> Undef
     | Some n \<Rightarrow> rbind (needed_total ws) (\<lambda>s. Ok (n + s)))"

fun min_update :: "int \<Rightarrow> WorkItem list \<Rightarrow> int" where
  "min_update m [] = m"
| "min_update m (w # ws) = min_update (if m > wi_update w then wi_update w else m) ws"

definition tuned_date :: "int \<Rightarrow> WorkItem \<Rightarrow> WorkItem \<Rightarrow> int result" where
  "tuned_date delta prev w =
    rbind
      (if wake_up_date w > wake_up_date prev
       then (if wi_update prev = 0 then Undef
             else let n = (wake_up_date w - wake_up_date prev) sdiv wi_update prev
                  in Ok (wake_up_date prev + n * wi_update prev))
       else Ok (wake_up_date prev))
      (\<lambda>next_prev. case needed_time prev of
          None \<Rightarrow> Undef
        | Some needed \<Rightarrow> Ok (next_prev + (needed + delta)))"

fun tune_loop :: "int \<Rightarrow> int \<Rightarrow> WorkItem \<Rightarrow> WorkItem list \<Rightarrow> WorkItem list result" where
  "tune_loop next_tuning delta prev [] = Ok []"
| "tune_loop next_tuning delta prev (w # ws) =
    rbind (if wake_up_date w < next_tuning
           then rbind (tuned_date delta prev w) (\<lambda>t. Ok (w\<lparr>wake_up_date := t\<rparr>))
           else Ok w) (\<lambda>wo.
      rbind (tune_loop next_tuning delta wo ws) (\<lambda>wos. Ok (wo # wos)))"

fun shift_loop :: "WorkItem \<Rightarrow> WorkItem list \<Rightarrow> WorkItem list" where
  "shift_loop prev [] = []"
| "shift_loop prev (w # ws) =
    (let w' = (if wake_up_date w - wake_up_date prev < 0
               then w\<lparr>wake_up_date := wake_up_date w - (wake_up_date w - wake_up_date prev)\<rparr> else w)
     in w' # shift_loop w' ws)"

definition tune_list :: "bool \<Rightarrow> PollThread \<Rightarrow> PollThread result" where
  "tune_list from_needed st =
    (case works st of
       [] \<Rightarrow> Ok st
     | w # ws \<Rightarrow>
         (if ws = [] then Ok st
          else if from_needed
          then rbind (needed_total (works st)) (\<lambda>needed_sum.
            let min_upd = min_update (wi_update w) ws
            in if needed_sum > min_upd then Ok st
               else let max_delta_needed = (min_upd - needed_sum) div int (length (works st));
                        next_tuning = pt_now st + POLL_LOOP_NB * min_upd
                    in rbind (tune_loop next_tuning max_delta_needed w ws) (\<lambda>new_works.
                      Ok (st\<lparr>works := w # new_works\<rparr>)))
          else Ok (st\<lparr>works := w # shift_loop w ws\<rparr>)))"

section \<open>Sleeping and discarding\<close>

text \<open>
  A discarded attribute is reported to the event clients by \<open>err_out_of_sync\<close>.
  The loop ends only if the items move forward: it is a partial function, and a loop
  that never ends has no value.
\<close>

definition is_late :: "int \<Rightarrow> WorkItem \<Rightarrow> bool" where
  "is_late after w \<longleftrightarrow> after - wake_up_date w > DISCARD_THRESHOLD"

definition err_out_of_sync :: "WorkItem \<Rightarrow> PollThread \<Rightarrow> PollThread" where
  "err_out_of_sync w st =
    (case wi_dev w of Some d \<Rightarrow> log_call (Out_of_sync d (wi_name w)) st | None \<Rightarrow> st)"

definition discard_one :: "WorkItem \<Rightarrow> PollThread \<Rightarrow> PollThread" where
  "discard_one w st =
    (let st1 = plan_next w (if wi_type w = POLL_ATTR then err_out_of_sync w st else st)
     in st1\<lparr>works := tl (works st1), tune_ctr := tune_ctr st1 - 1\<rparr>)"

partial_function (option) discard_loop :: "PollThread \<Rightarrow> PollThread option" where
  "discard_loop st =
    (case works st of
       [] \<Rightarrow> Some st
     | w # ws \<Rightarrow> if is_late (pt_after st) w then discard_loop (discard_one w st) else Some st)"

definition late_plan :: "PollThread \<Rightarrow> nat \<times> bool \<times> PollThread" where
  "late_plan st =
    (if polling_bef_9 st then (0, True, st)
     else let nb_late = length (filter (is_late (pt_after st)) (works st))
          in if nb_late = 0 then (nb_late, False, st)
             else if nb_late = length (works st) then (nb_late, True, st)
             else if previous_nb_late st \<noteq> 0
             then (if nb_late < previous_nb_late st
                   then (nb_late, False, st\<lparr>previous_nb_late := nb_late, pt_sleep := None\<rparr>)
                   else (nb_late, True, st\<lparr>previous_nb_late := 0, pt_sleep := None\<rparr>))
             else (nb_late, False, st\<lparr>previous_nb_late := nb_late, pt_sleep := None\<rparr>))"

definition set_sleep :: "PollThread \<Rightarrow> PollThread" where
  "set_sleep st =
    (case works st of
       [] \<Rightarrow> st
     | w # ws \<Rightarrow>
         let d = wake_up_date w - pt_after st
         in st\<lparr>pt_sleep := (if \<bar>d\<bar> < DISCARD_THRESHOLD then None else Some d)\<rparr>)"

definition compute_sleep_time :: "PollThread \<Rightarrow> PollThread option" where
  "compute_sleep_time st =
    (case works st of
       [] \<Rightarrow> Some st
     | w # ws \<Rightarrow>
         let (nb_late, discard, st1) = late_plan st
         in if nb_late = 0 \<or> discard
            then (let st2 = st1\<lparr>previous_nb_late := 0\<rparr>; next = wake_up_date w
                  in if next < pt_after st2
                     then (if pt_after st2 - next < DISCARD_THRESHOLD then Some (st2\<lparr>pt_sleep := None\<rparr>)
                           else map_option set_sleep (discard_loop st2))
                     else Some (st2\<lparr>pt_sleep := Some (next - pt_after st2)\<rparr>))
            else Some st1)"


section \<open>The thread\<close>

datatype wait_for = No_wait | Wait_ever | Wait_ms int

text \<open>
  \<open>entry\<close> is the shared command when the thread gets the monitor and \<open>arrived\<close>
  when its wait ends: other threads write it.
\<close>

definition get_command ::
    "PollThCmd \<Rightarrow> PollThCmd \<Rightarrow> PollThread \<Rightarrow> PollCmdType \<times> wait_for \<times> PollThread" where
  "get_command entry arrived st =
    (if pt_sleep st = Some 0 then (POLL_TIME_OUT, No_wait, st)
     else let waiting =
                (if \<not> cmd_pending entry \<and> \<not> trigger entry
                 then (if works st = [] then Wait_ever
                       else case pt_sleep st of
                           Some d \<Rightarrow> Wait_ms (d sdiv 1000000)
                         | None \<Rightarrow> No_wait)
                 else No_wait);
              sh = (if waiting = No_wait then entry else arrived);
              st1 = st\<lparr>shared_cmd := sh\<rparr>
          in if cmd_pending sh then (POLL_COMMAND, waiting, st1\<lparr>local_cmd := sh\<rparr>)
             else if trigger sh then (POLL_TRIGGER, waiting, st1\<lparr>local_cmd := sh\<rparr>)
             else (POLL_TIME_OUT, waiting, st1))"

definition tune_if_due :: "PollThread \<Rightarrow> PollThread result" where
  "tune_if_due st =
    (if tune_ctr st \<le> 0
     then rbind (tune_list True st) (\<lambda>st1.
       Ok (if need_two_tuning st1
           then st1\<lparr>tune_ctr := 4 * int (length (works st1)), need_two_tuning := False\<rparr>
           else st1\<lparr>tune_ctr := POLL_LOOP_NB\<rparr>))
     else Ok st)"

definition run_start :: "int \<Rightarrow> PollThread \<Rightarrow> PollThread" where
  "run_start t st =
    (if send_heartbeat st then insert_in_list (subdev_item t) (st\<lparr>pt_now := t\<rparr>) else st)"

text \<open>
  What a turn of the infinite loop meets: the shared command before and after the
  wait, the clock at its start and after the work, and the code of the polled object.
\<close>

record turn_input =
  in_entry :: PollThCmd
  in_arrived :: PollThCmd
  in_now :: int
  in_after :: int
  in_took :: int
  in_acts :: "PollThCmd list"

definition run_turn :: "poll_server \<Rightarrow> turn_input \<Rightarrow> PollThread \<Rightarrow> PollThread result option" where
  "run_turn srv i st =
    (let (received, waiting, st1) = get_command (in_entry i) (in_arrived i) st;
         st2 = st1\<lparr>pt_now := in_now i\<rparr>
     in case rbind
          (case received of
             POLL_COMMAND \<Rightarrow> execute_cmd (srv_dev srv) st2
           | POLL_TIME_OUT \<Rightarrow> one_more_poll srv (in_took i) (in_acts i) st2
           | POLL_TRIGGER \<Rightarrow> one_more_trigg srv (in_took i) (in_acts i) st2)
          (\<lambda>st3. tune_if_due (st3\<lparr>pt_after := in_after i\<rparr>)) of
          Ok st4 \<Rightarrow> map_option Ok (compute_sleep_time st4)
        | Throw e \<Rightarrow> Some (Throw e)
        | Undef \<Rightarrow> Some Undef)"

section \<open>The objects that are polled\<close>

text \<open>
  What the lists mean: the objects polled periodically, each with its period, and the
  objects polled on an external trigger. An object is identified by its device, its
  type and its name.
\<close>

type_synonym obj_key = "nat option \<times> PollObjType \<times> string"

definition item_objs :: "WorkItem \<Rightarrow> (obj_key \<times> int) list" where
  "item_objs w = map (\<lambda>n. ((wi_dev w, wi_type w, n), wi_update w)) (wi_name w)"

definition objs :: "WorkItem list \<Rightarrow> (obj_key \<times> int) multiset" where
  "objs ws = mset (concat (map item_objs ws))"

definition sched :: "PollThread \<Rightarrow> (obj_key \<times> int) multiset" where
  "sched st = objs (works st)"

definition trig :: "PollThread \<Rightarrow> obj_key multiset" where
  "trig st = image_mset fst (objs (ext_trig_works st))"

definition without :: "obj_key \<Rightarrow> (obj_key \<times> int) multiset \<Rightarrow> (obj_key \<times> int) multiset" where
  "without k M = filter_mset (\<lambda>e. fst e \<noteq> k) M"

definition is_object :: "PollObjType \<Rightarrow> bool" where
  "is_object t \<longleftrightarrow> t = POLL_CMD \<or> t = POLL_ATTR"

definition heartbeat_key :: obj_key where
  "heartbeat_key = (None, EVENT_HEARTBEAT, ''Event heartbeat'')"

definition item_ok :: "WorkItem \<Rightarrow> bool" where
  "item_ok w \<longleftrightarrow> 0 < wi_update w \<and> wi_name w \<noteq> [] \<and> (\<exists>n\<ge>0. needed_time w = Some n) \<and>
    (is_object (wi_type w) \<longrightarrow> wi_dev w \<noteq> None) \<and>
    (wi_type w = EVENT_HEARTBEAT \<longrightarrow> item_objs w = [(heartbeat_key, wi_update w)])"

definition trig_ok :: "WorkItem \<Rightarrow> bool" where
  "trig_ok w \<longleftrightarrow> wi_dev w \<noteq> None \<and> is_object (wi_type w) \<and> (\<exists>n. wi_name w = [n])"

text \<open>
  The invariant of the thread between two turns: items that can be polled and moved
  forward, every object at most once, no postponed change of a period.
\<close>

definition pt_inv :: "PollThread \<Rightarrow> bool" where
  "pt_inv st \<longleftrightarrow> (\<forall>w\<in>set (works st). item_ok w) \<and> (\<forall>w\<in>set (ext_trig_works st). trig_ok w) \<and>
    (\<forall>k. count (image_mset fst (sched st) + trig st) k \<le> 1) \<and>
    auto_upd st = [] \<and> rem_upd st = [] \<and> (pt_sleep st = Some 0 \<longrightarrow> works st \<noteq> [])"

text \<open>
  The specification of the commands on the objects polled, and the commands for which
  it is meant: an object is added if it is not polled yet, and a period is changed for
  an object that is polled periodically.
\<close>

type_synonym polled = "(obj_key \<times> int) multiset \<times> obj_key multiset"

fun spec_cmd :: "(nat \<Rightarrow> polled_dev) \<Rightarrow> PollThCmd \<Rightarrow> polled \<Rightarrow> polled" where
  "spec_cmd env c (S, T) =
    (let k = (cmd_dev c, cmd_type c, cmd_name c) in
     case cmd_code c of
       POLL_ADD_OBJ \<Rightarrow>
         (let d = the (cmd_dev c); obj = poll_obj_list (env d) ! nat (cmd_index c);
              ko = (Some d, po_type obj, po_name obj)
          in if po_upd obj \<noteq> 0 then (add_mset (ko, po_upd obj) S, T) else (S, add_mset ko T))
     | POLL_REM_OBJ \<Rightarrow> (without k S, T)
     | POLL_REM_EXT_TRIG_OBJ \<Rightarrow> (S, filter_mset (\<lambda>l. l \<noteq> k) T)
     | POLL_REM_DEV \<Rightarrow>
         (filter_mset (\<lambda>e. fst (fst e) \<noteq> cmd_dev c) S, filter_mset (\<lambda>l. fst l \<noteq> cmd_dev c) T)
     | POLL_UPD_PERIOD \<Rightarrow>
         (if cmd_new_upd c \<noteq> 0 then (add_mset (k, cmd_new_upd c) (without k S), T)
          else (without k S, add_mset k T))
     | POLL_ADD_HEARTBEAT \<Rightarrow> (add_mset (heartbeat_key, 9000000000) S, T)
     | POLL_REM_HEARTBEAT \<Rightarrow> (without heartbeat_key S, T)
     | _ \<Rightarrow> (S, T))"

definition cmd_ok :: "(nat \<Rightarrow> polled_dev) \<Rightarrow> PollThCmd \<Rightarrow> polled \<Rightarrow> bool" where
  "cmd_ok env c P =
    (case cmd_code c of
       POLL_ADD_OBJ \<Rightarrow>
         (case cmd_dev c of
            None \<Rightarrow> False
          | Some d \<Rightarrow>
              0 \<le> cmd_index c \<and> cmd_index c < int (length (poll_obj_list (env d))) \<and>
              (let obj = poll_obj_list (env d) ! nat (cmd_index c);
                   k = (Some d, po_type obj, po_name obj)
               in is_object (po_type obj) \<and> 0 \<le> po_upd obj \<and> k \<notin># image_mset fst (fst P) + snd P))
     | POLL_UPD_PERIOD \<Rightarrow>
         (case cmd_dev c of
            None \<Rightarrow> False
          | Some d \<Rightarrow>
              is_object (cmd_type c) \<and> (cmd_dev c, cmd_type c, cmd_name c) \<in># image_mset fst (fst P) \<and>
              (cmd_new_upd c = 0 \<longrightarrow>
                0 \<le> cmd_index c \<and> cmd_index c < int (length (poll_obj_list (env d))) \<and>
                poll_obj_list (env d) ! nat (cmd_index c) =
                  \<lparr>po_type = cmd_type c, po_name = cmd_name c, po_upd = 0\<rparr>) \<and>
              0 \<le> cmd_new_upd c)
     | POLL_ADD_HEARTBEAT \<Rightarrow> heartbeat_key \<notin># image_mset fst (fst P)
     | POLL_EXIT \<Rightarrow> False
     | _ \<Rightarrow> True)"

named_theorems work_simps "rewrite rules for the work list"

lemma objs_simps [simp]:
  "objs [] = {#}"
  "objs (w # ws) = mset (item_objs w) + objs ws"
  "objs (vs @ ws) = objs vs + objs ws"
  by (auto simp: objs_def)

lemma objs_insert_work [work_simps]: "objs (insert_work w ws) = mset (item_objs w) + objs ws"
  by (induction ws) auto

lemma set_insert_work [work_simps]: "set (insert_work w ws) = insert w (set ws)"
  by (induction ws) auto

lemma mset_insert_work [work_simps]: "mset (insert_work w ws) = add_mset w (mset ws)"
  by (induction ws) auto

lemma insert_work_nonempty [simp]: "insert_work w ws \<noteq> []"
  by (cases ws) auto

lemma sorted_insert_work [work_simps]:
  "sorted (map wake_up_date ws) \<Longrightarrow> sorted (map wake_up_date (insert_work w ws))"
  by (induction ws) (auto simp: work_simps)

lemma push_name_objs:
  "push_name (same_group d u t) n ws = Some ws' \<Longrightarrow> objs ws' = add_mset ((d, t, n), u) (objs ws)"
  by (induction ws arbitrary: ws')
    (auto simp: same_group_def item_objs_def split: if_splits)

lemma item_ok_names:
  "item_ok w \<Longrightarrow> is_object (wi_type w) \<Longrightarrow> ns \<noteq> [] \<Longrightarrow> item_ok (w\<lparr>wi_name := ns\<rparr>)"
  by (auto simp: item_ok_def is_object_def)

lemma push_name_ok:
  assumes "push_name (same_group d u t) n ws = Some ws'" "\<forall>w\<in>set ws. item_ok w" "is_object t"
  shows "\<forall>w\<in>set ws'. item_ok w"
  using assms
  by (induction ws arbitrary: ws')
    (auto simp: same_group_def item_ok_names split: if_splits)

lemma push_name_nonempty: "push_name P n ws = Some ws' \<Longrightarrow> ws' \<noteq> []"
  by (cases ws) (auto split: if_splits)

lemma remove1_mset_map: "n \<in> set ns \<Longrightarrow> add_mset (f n) (mset (map f (remove1 n ns))) = mset (map f ns)"
  by (induction ns) auto

lemma erase_obj_Some:
  "erase_obj d t n ws = Some ws' \<Longrightarrow> \<exists>u. objs ws = add_mset ((d, t, n), u) (objs ws')"
proof (induction ws arbitrary: ws')
  case (Cons w ws)
  show ?case
  proof (cases "wi_dev w = d \<and> wi_type w = t \<and> n \<in> set (wi_name w)")
    case True
    have "mset (item_objs w) = add_mset ((d, t, n), wi_update w) (mset (item_objs (w\<lparr>wi_name := remove1 n (wi_name w)\<rparr>)))"
      using True remove1_mset_map [of n "wi_name w" "\<lambda>n. ((wi_dev w, wi_type w, n), wi_update w)"]
      by (simp add: item_objs_def)
    moreover have "objs ws' = mset (item_objs (w\<lparr>wi_name := remove1 n (wi_name w)\<rparr>)) + objs ws"
    proof (cases "remove1 n (wi_name w) = []")
      case empty: True
      then have "item_objs (w\<lparr>wi_name := remove1 n (wi_name w)\<rparr>) = []" by (simp add: item_objs_def)
      then show ?thesis using Cons.prems True empty by (simp del: mset_remove1)
    qed (use Cons.prems True in auto)
    ultimately show ?thesis by auto
  next
    case False
    then show ?thesis using Cons by auto
  qed
qed simp

lemma erase_obj_None: "erase_obj d t n ws = None \<Longrightarrow> (d, t, n) \<notin># image_mset fst (objs ws)"
  by (induction ws) (auto simp: item_objs_def Let_def split: if_splits)

lemma without_absent: "k \<notin># image_mset fst M \<Longrightarrow> without k M = M"
  by (auto simp: without_def filter_mset_eq_conv)

lemma without_single:
  "count (image_mset fst (add_mset (k, u) M)) k \<le> 1 \<Longrightarrow> without k (add_mset (k, u) M) = M"
  using without_absent [of k M, unfolded not_in_iff] by (simp add: without_def)

lemma filter_neq_absent: "k \<notin># M \<Longrightarrow> filter_mset (\<lambda>l. l \<noteq> k) M = M"
  by (induction M) auto

lemma erase_objs:
  assumes "\<forall>k. count (image_mset fst (objs ws)) k \<le> 1"
  shows "objs (snd (erase_found (erase_obj d t n ws) ws)) = without (d, t, n) (objs ws)"
proof (cases "erase_obj d t n ws")
  case None
  then show ?thesis using erase_obj_None without_absent by (simp add: erase_found_def)
next
  case (Some ws')
  then obtain u where u: "objs ws = add_mset ((d, t, n), u) (objs ws')" using erase_obj_Some by blast
  have "without (d, t, n) (objs ws) = objs ws'"
    using assms by (simp only: u without_single)
  then show ?thesis using Some by (simp add: erase_found_def)
qed

lemma erase_obj_ok:
  "erase_obj d t n ws = Some ws' \<Longrightarrow> \<forall>w\<in>set ws. item_ok w \<Longrightarrow> \<forall>w\<in>set ws'. item_ok w"
proof (induction ws arbitrary: ws')
  case (Cons w ws)
  have "item_ok (w\<lparr>wi_name := remove1 n (wi_name w)\<rparr>)"
    if "remove1 n (wi_name w) \<noteq> []" "n \<in> set (wi_name w)"
    using that Cons.prems(2) by (auto simp: item_ok_def item_objs_def)
  then show ?case using Cons by (auto simp: Let_def split: if_splits)
qed simp

lemma erase_found_ok:
  "\<forall>w\<in>set ws. item_ok w \<Longrightarrow> \<forall>w\<in>set (snd (erase_found (erase_obj d t n ws) ws)). item_ok w"
  using erase_obj_ok by (auto simp: erase_found_def split: option.split)

lemma erase_trig_spec:
  assumes "\<forall>w\<in>set ws. trig_ok w"
  shows "\<exists>r. erase_trig d t n ws = Ok r \<and>
    (case r of None \<Rightarrow> (d, t, n) \<notin># image_mset fst (objs ws)
     | Some ws' \<Rightarrow> image_mset fst (objs ws) = add_mset (d, t, n) (image_mset fst (objs ws')) \<and> set ws' \<subseteq> set ws)"
  using assms
proof (induction ws)
  case (Cons w ws)
  then obtain m where m: "wi_name w = [m]" by (auto simp: trig_ok_def)
  obtain r where r: "erase_trig d t n ws = Ok r"
    "case r of None \<Rightarrow> (d, t, n) \<notin># image_mset fst (objs ws)
     | Some ws' \<Rightarrow> image_mset fst (objs ws) = add_mset (d, t, n) (image_mset fst (objs ws')) \<and> set ws' \<subseteq> set ws"
    using Cons by auto
  have key: "mset (item_objs w) = {#((wi_dev w, wi_type w, m), wi_update w)#}"
    by (simp add: item_objs_def m)
  show ?case
    using r by (cases r) (auto simp: m key vec_get_def)
qed simp

lemma erase_trig_objs:
  assumes "\<forall>w\<in>set ws. trig_ok w" "\<forall>k. count (image_mset fst (objs ws)) k \<le> 1"
  obtains r where "erase_trig d t n ws = Ok r"
    "image_mset fst (objs (snd (erase_found r ws))) = filter_mset (\<lambda>l. l \<noteq> (d, t, n)) (image_mset fst (objs ws))"
    "\<forall>w\<in>set (snd (erase_found r ws)). trig_ok w"
proof -
  let ?k = "(d, t, n)"
  obtain r where r: "erase_trig d t n ws = Ok r"
    "case r of None \<Rightarrow> ?k \<notin># image_mset fst (objs ws)
     | Some ws' \<Rightarrow> image_mset fst (objs ws) = add_mset ?k (image_mset fst (objs ws')) \<and> set ws' \<subseteq> set ws"
    using erase_trig_spec [OF assms(1)] by blast
  have "image_mset fst (objs (snd (erase_found r ws))) = filter_mset (\<lambda>l. l \<noteq> ?k) (image_mset fst (objs ws))"
  proof (cases r)
    case None
    then show ?thesis using r(2) filter_neq_absent [of ?k "image_mset fst (objs ws)"] by (simp add: erase_found_def)
  next
    case (Some ws')
    then have e: "image_mset fst (objs ws) = add_mset ?k (image_mset fst (objs ws'))" using r(2) by simp
    have "count (image_mset fst (objs ws')) ?k = 0"
      using assms(2) [rule_format, of ?k] by (simp add: e)
    then have "filter_mset (\<lambda>l. l \<noteq> ?k) (image_mset fst (objs ws')) = image_mset fst (objs ws')"
      using filter_neq_absent by (simp only: count_eq_zero_iff)
    then show ?thesis using Some e by (simp add: erase_found_def)
  qed
  moreover have "\<forall>w\<in>set (snd (erase_found r ws)). trig_ok w"
    using r(2) assms(1) by (cases r) (auto simp: erase_found_def)
  ultimately show ?thesis using that r(1) by blast
qed

lemma objs_erase_heartbeat:
  assumes "\<forall>w\<in>set ws. item_ok w" "\<forall>k. count (image_mset fst (objs ws)) k \<le> 1"
  shows "objs (erase_heartbeat ws) = without heartbeat_key (objs ws)"
proof -
  have none: "heartbeat_key \<notin># image_mset fst (objs vs)"
    if "\<forall>w\<in>set vs. wi_type w \<noteq> EVENT_HEARTBEAT" for vs
    using that by (induction vs) (auto simp: item_objs_def heartbeat_key_def)
  show ?thesis using assms
  proof (induction ws)
    case (Cons w ws)
    have c: "count (image_mset fst (objs ws)) k \<le> 1" for k
      using Cons.prems(2) [rule_format, of k] by simp
    show ?case
    proof (cases "wi_type w = EVENT_HEARTBEAT")
      case True
      then have "item_objs w = [(heartbeat_key, wi_update w)]" using Cons.prems(1) by (simp add: item_ok_def)
      then show ?thesis
        using True without_single [of heartbeat_key "wi_update w" "objs ws"] Cons.prems(2) [rule_format, of heartbeat_key]
        by simp
    next
      case False
      then have "without heartbeat_key (mset (item_objs w)) = mset (item_objs w)"
        by (intro without_absent) (auto simp: item_objs_def heartbeat_key_def)
      then show ?thesis using Cons False c by (simp add: without_def)
    qed
  qed (simp add: without_def)
qed

lemma erase_heartbeat_subset: "set (erase_heartbeat ws) \<subseteq> set ws"
  by (induction ws) auto

subsection \<open>Commands refine their specification\<close>

definition polled_of :: "PollThread \<Rightarrow> polled" where
  "polled_of st = (sched st, trig st)"

definition uniq :: "polled \<Rightarrow> bool" where
  "uniq P \<longleftrightarrow> (\<forall>k. count (image_mset fst (fst P) + snd P) k \<le> 1)"

definition lists_ok :: "PollThread \<Rightarrow> bool" where
  "lists_ok st \<longleftrightarrow> (\<forall>w\<in>set (works st). item_ok w) \<and> (\<forall>w\<in>set (ext_trig_works st). trig_ok w)"

definition same_upds :: "PollThread \<Rightarrow> PollThread \<Rightarrow> bool" where
  "same_upds st st' \<longleftrightarrow> auto_upd st' = auto_upd st \<and> rem_upd st' = rem_upd st \<and> pt_sleep st' = pt_sleep st"

lemmas polled_defs = polled_of_def sched_def trig_def lists_ok_def same_upds_def

lemma uniqD: "uniq P \<Longrightarrow> count (image_mset fst (fst P)) k + count (snd P) k \<le> 1"
  using uniq_def by fastforce

lemma uniqI: "(\<And>k. count (image_mset fst S) k + count T k \<le> 1) \<Longrightarrow> uniq (S, T)"
  unfolding uniq_def by simp

lemma uniq_parts:
  assumes "uniq (polled_of st)"
  shows "\<forall>k. count (image_mset fst (objs (works st))) k \<le> 1"
    and "\<forall>k. count (image_mset fst (objs (ext_trig_works st))) k \<le> 1"
proof -
  have "count (image_mset fst (objs (works st))) k + count (image_mset fst (objs (ext_trig_works st))) k \<le> 1" for k
    using uniqD [OF assms, of k] by (simp add: polled_defs)
  then show "\<forall>k. count (image_mset fst (objs (works st))) k \<le> 1"
    "\<forall>k. count (image_mset fst (objs (ext_trig_works st))) k \<le> 1"
    by (meson add_leD1 add_leD2)+
qed

lemma count_without:
  "count (image_mset fst (without k S)) l = (if l = k then 0 else count (image_mset fst S) l)"
  by (induction S) (auto simp: without_def)

lemma uniq_filter:
  assumes "uniq (S, T)"
  shows "uniq (filter_mset P S, filter_mset Q T)"
proof (rule uniqI)
  fix k
  have "count (image_mset fst (filter_mset P S)) k \<le> count (image_mset fst S) k"
    by (intro mset_subset_eq_count image_mset_subseteq_mono) simp
  moreover have "count (filter_mset Q T) k \<le> count T k" by (simp add: mset_subset_eq_count)
  ultimately show "count (image_mset fst (filter_mset P S)) k + count (filter_mset Q T) k \<le> 1"
    using uniqD [OF assms, of k] by simp
qed

lemma uniq_member: "uniq (S, T) \<Longrightarrow> k \<in># image_mset fst S \<Longrightarrow> k \<notin># T"
proof
  assume u: "uniq (S, T)" and k: "k \<in># image_mset fst S" "k \<in># T"
  then have "count (image_mset fst S) k \<ge> 1" "count T k \<ge> 1" by (simp_all only: count_greater_eq_one_iff)
  with uniqD [OF u, of k] show False unfolding fst_conv snd_conv by linarith
qed

lemma uniq_move:
  assumes "uniq (S, T)" "k \<in># image_mset fst S"
  shows "uniq (add_mset (k, u) (without k S), T)" and "uniq (without k S, add_mset k T)"
proof -
  have T: "count T k = 0" using uniq_member [OF assms] by (simp only: not_in_iff)
  have "count (image_mset fst (without k S)) l + count T l + (if l = k then 1 else 0) \<le> 1" for l
    using uniqD [OF assms(1), of l] T by (simp add: count_without)
  note c = this
  show "uniq (add_mset (k, u) (without k S), T)"
  proof (rule uniqI)
    show "count (image_mset fst (add_mset (k, u) (without k S))) l + count T l \<le> 1" for l
      using c [of l] by (auto split: if_splits)
  qed
  show "uniq (without k S, add_mset k T)"
  proof (rule uniqI)
    show "count (image_mset fst (without k S)) l + count (add_mset k T) l \<le> 1" for l
      using c [of l] by (auto split: if_splits)
  qed
qed

lemma uniq_add:
  assumes "uniq (S, T)" "k \<notin># image_mset fst S + T"
  shows "uniq (add_mset (k, u) S, T)" "uniq (S, add_mset k T)"
proof -
  have z: "count (image_mset fst S + T) k = 0" using assms(2) by (simp only: not_in_iff)
  have "count (image_mset fst S) l + count T l + (if l = k then 1 else 0) \<le> 1" for l
    using uniqD [OF assms(1), of l] z by simp
  note c = this
  show "uniq (add_mset (k, u) S, T)"
  proof (rule uniqI)
    show "count (image_mset fst (add_mset (k, u) S)) l + count T l \<le> 1" for l using c [of l] by (auto split: if_splits)
  qed
  show "uniq (S, add_mset k T)"
  proof (rule uniqI)
    show "count (image_mset fst S) l + count (add_mset k T) l \<le> 1" for l using c [of l] by (auto split: if_splits)
  qed
qed

lemma heartbeat_not_trig:
  "lists_ok st \<Longrightarrow> heartbeat_key \<notin># trig st"
  by (auto simp: polled_defs objs_def item_objs_def heartbeat_key_def trig_ok_def)

lemma item_ok_new:
  "0 < u \<Longrightarrow> 0 \<le> m \<Longrightarrow> is_object t \<Longrightarrow>
   item_ok \<lparr>wi_dev = Some d, wake_up_date = x, wi_update = u, wi_type = t, wi_name = [n], needed_time = Some m\<rparr>"
  by (auto simp: item_ok_def is_object_def)

lemma insert_in_list_polled:
  assumes "lists_ok st" "item_ok w" "item_objs w = [(k, u)]"
  shows "polled_of (insert_in_list w st) = (add_mset (k, u) (sched st), trig st)"
    and "lists_ok (insert_in_list w st)" and "same_upds st (insert_in_list w st)"
  using assms by (auto simp: polled_defs insert_in_list_def work_simps)

lemma push_name_found:
  "push_name P n ws = Some ws' \<Longrightarrow> \<exists>w\<in>set ws. P w"
  by (induction ws arbitrary: ws') (auto split: if_splits)

lemma add_obj_refines:
  assumes ok: "lists_ok st" and c: "cmd_ok env c (polled_of st)" "cmd_code c = POLL_ADD_OBJ"
  obtains st' where "cmd_add_obj env c st = Ok st'" "polled_of st' = spec_cmd env c (polled_of st)"
    "lists_ok st'" "same_upds st st'"
proof -
  obtain d where d: "cmd_dev c = Some d" using c by (auto simp: cmd_ok_def split: option.splits)
  define obj where "obj = poll_obj_list (env d) ! nat (cmd_index c)"
  have obj: "vec_get (poll_obj_list (env d)) (cmd_index c) = Ok obj" "is_object (po_type obj)" "0 \<le> po_upd obj"
    using c d by (simp_all add: cmd_ok_def vec_get_def Let_def obj_def)
  let ?ko = "(Some d, po_type obj, po_name obj)"
  have spec: "spec_cmd env c (polled_of st) =
      (if po_upd obj \<noteq> 0 then (add_mset (?ko, po_upd obj) (sched st), trig st) else (sched st, add_mset ?ko (trig st)))"
    by (simp add: polled_of_def c(2) d Let_def obj_def)
  define wo where "wo = \<lparr>wi_dev = Some d, wake_up_date = 0, wi_update = po_upd obj, wi_type = po_type obj,
      wi_name = [po_name obj], needed_time = Some 0\<rparr>"
  define r where "r = (if groups_attr env d (po_type obj) st
      then push_name (same_group (Some d) (po_upd obj) (po_type obj)) (po_name obj) (works st) else None)"
  have step: "cmd_add_obj env c st = (case r of Some ws \<Rightarrow> Ok (st\<lparr>works := ws\<rparr>)
      | None \<Rightarrow> if po_upd obj \<noteq> 0
          then Ok (retune (insert_in_list (wo\<lparr>wake_up_date := pt_now st + cmd_new_upd c\<rparr>) st))
          else Ok (st\<lparr>ext_trig_works := ext_trig_works st @ [wo]\<rparr>))"
    unfolding cmd_add_obj_def d r_def wo_def Let_def option.case obj(1) rbind.simps ..
  show ?thesis
  proof (cases r)
    case (Some ws)
    then have p: "push_name (same_group (Some d) (po_upd obj) (po_type obj)) (po_name obj) (works st) = Some ws"
      by (simp add: r_def split: if_splits)
    have "po_upd obj \<noteq> 0"
      using push_name_found [OF p] ok by (auto simp: lists_ok_def item_ok_def same_group_def)
    then show ?thesis
      using that [OF step [unfolded Some option.case]] push_name_objs [OF p] push_name_ok [OF p] ok obj(2) spec
      by (simp add: polled_defs)
  next
    case None
    show ?thesis
    proof (cases "po_upd obj = 0")
      case True
      then have "cmd_add_obj env c st = Ok (st\<lparr>ext_trig_works := ext_trig_works st @ [wo]\<rparr>)"
        using step None by simp
      then show ?thesis
        using that True ok obj(2) spec
        by (simp add: polled_defs wo_def trig_ok_def item_objs_def)
    next
      case False
      let ?w = "wo\<lparr>wake_up_date := pt_now st + cmd_new_upd c\<rparr>"
      have w: "item_ok ?w" "item_objs ?w = [(?ko, po_upd obj)]"
        using False obj by (auto simp: wo_def item_ok_new item_objs_def)
      have "cmd_add_obj env c st = Ok (retune (insert_in_list ?w st))"
        using step None False by simp
      then show ?thesis
        using that insert_in_list_polled [OF ok w] spec False
        by (simp add: polled_defs retune_def)
    qed
  qed
qed

lemma add_insert_refines:
  assumes ok: "lists_ok st" and w: "item_ok w" "wi_name w = [n]" "wi_dev w = Some d" "is_object (wi_type w)"
  obtains st' where "add_insert_in_list env w st = Ok st'"
    "polled_of st' = (add_mset ((Some d, wi_type w, n), wi_update w) (sched st), trig st)"
    "lists_ok st'" "same_upds st st'"
proof -
  have ins: "polled_of (insert_in_list w st) = (add_mset ((Some d, wi_type w, n), wi_update w) (sched st), trig st)"
      "lists_ok (insert_in_list w st)" "same_upds st (insert_in_list w st)"
    using insert_in_list_polled [OF ok w(1)] w by (simp_all add: item_objs_def)
  show ?thesis
  proof (cases "wi_type w = POLL_ATTR \<and> groups_attr env d (wi_type w) st \<and>
      push_name (same_group (wi_dev w) (wi_update w) (wi_type w)) n (works st) \<noteq> None")
    case True
    then obtain ws where p: "push_name (same_group (Some d) (wi_update w) (wi_type w)) n (works st) = Some ws"
      using w(3) by auto
    have "add_insert_in_list env w st = Ok (st\<lparr>works := ws\<rparr>)"
      using conjunct2 [OF True] p w by (auto simp: add_insert_in_list_def vec_get_def groups_attr_def)
    then show ?thesis
      using that push_name_objs [OF p] push_name_ok [OF p _ w(4)] ok
      by (simp add: polled_defs)
  next
    case False
    then have "add_insert_in_list env w st = Ok (insert_in_list w st)"
      using w by (auto simp: add_insert_in_list_def vec_get_def)
    then show ?thesis using that ins by blast
  qed
qed

lemma erase_obj_found:
  assumes "(d, t, n) \<in># image_mset fst (objs ws)"
  shows "fst (erase_found (erase_obj d t n ws) ws)"
  using assms erase_obj_None [of d t n ws] by (auto simp: erase_found_def split: option.split)

lemma upd_period_refines:
  assumes ok: "lists_ok st" "uniq (polled_of st)"
    and c: "cmd_ok env c (polled_of st)" "cmd_code c = POLL_UPD_PERIOD"
  obtains st' where "cmd_upd_period env c st = Ok st'" "polled_of st' = spec_cmd env c (polled_of st)"
    "lists_ok st'" "same_upds st st'"
proof -
  let ?k = "(cmd_dev c, cmd_type c, cmd_name c)"
  let ?e = "erase_found (erase_obj (cmd_dev c) (cmd_type c) (cmd_name c) (works st)) (works st)"
  obtain d where d: "cmd_dev c = Some d" using c by (auto simp: cmd_ok_def split: option.splits)
  have k: "?k \<in># image_mset fst (sched st)" and t: "is_object (cmd_type c)" and u: "0 \<le> cmd_new_upd c"
    using c d by (auto simp: cmd_ok_def polled_of_def)
  obtain ws where e: "?e = (True, ws)"
    using erase_obj_found k unfolding sched_def by (metis prod.collapse)
  have ws: "objs ws = without ?k (sched st)" "\<forall>w\<in>set ws. item_ok w"
    using erase_objs [OF uniq_parts(1) [OF ok(2)], of "cmd_dev c" "cmd_type c" "cmd_name c"]
      erase_found_ok [of "works st" "cmd_dev c" "cmd_type c" "cmd_name c"] ok(1) e
    by (simp_all add: sched_def lists_ok_def)
  show ?thesis
  proof (cases "cmd_new_upd c = 0")
    case True
    define obj where "obj = \<lparr>po_type = cmd_type c, po_name = cmd_name c, po_upd = 0\<rparr>"
    have obj: "vec_get (poll_obj_list (env d)) (cmd_index c) = Ok obj"
      using c d True by (auto simp: cmd_ok_def vec_get_def obj_def)
    let ?wo = "\<lparr>wi_dev = Some d, wake_up_date = 0, wi_update = 0, wi_type = cmd_type c,
                wi_name = [cmd_name c], needed_time = None\<rparr>"
    have "cmd_upd_period env c st = Ok (st\<lparr>works := ws, ext_trig_works := ext_trig_works st @ [?wo]\<rparr>)"
      unfolding cmd_upd_period_def upd_to_trig_def using True e d obj by (simp add: obj_def)
    then show ?thesis
      using that ws ok(1) True c(2) d t
      by (simp add: polled_defs trig_ok_def item_objs_def Let_def)
  next
    case False
    let ?w = "\<lparr>wi_dev = cmd_dev c, wake_up_date = pt_now st + cmd_new_upd c, wi_update = cmd_new_upd c,
               wi_type = cmd_type c, wi_name = [cmd_name c], needed_time = Some 0\<rparr>"
    let ?st = "st\<lparr>works := ws, pt_now := pt_now st + cmd_new_upd c\<rparr>"
    have ne: "works st \<noteq> []" using k by (auto simp: sched_def)
    obtain st1 where st1: "add_insert_in_list env ?w ?st = Ok st1"
      "polled_of st1 = (add_mset (?k, cmd_new_upd c) (sched ?st), trig ?st)" "lists_ok st1" "same_upds ?st st1"
      using add_insert_refines [of ?st ?w "cmd_name c" d env] ws ok(1) d t u False
      by (auto simp: item_ok_new lists_ok_def)
    have "cmd_upd_period env c st = Ok (st1\<lparr>tune_ctr := 0\<rparr>)"
      unfolding cmd_upd_period_def upd_in_works_def using False ne e d st1(1) by (simp add: Let_def)
    then show ?thesis
      using that st1 ws False c(2)
      by (simp add: polled_defs Let_def)
  qed
qed

lemma objs_filter_dev:
  "objs (filter (\<lambda>w. wi_dev w \<noteq> d) ws) = filter_mset (\<lambda>e. fst (fst e) \<noteq> d) (objs ws)"
proof (induction ws)
  case (Cons w ws)
  have "filter_mset (\<lambda>e. fst (fst e) \<noteq> d) (mset (item_objs w)) = (if wi_dev w = d then {#} else mset (item_objs w))"
    unfolding mset_filter [symmetric] by (simp add: item_objs_def filter_map comp_def)
  then show ?case using Cons by simp
qed simp

lemma execute_cmd_refines:
  assumes ok: "lists_ok st" "uniq (polled_of st)" and c: "cmd_ok env (local_cmd st) (polled_of st)"
  obtains st' where "execute_cmd env st = Ok st'" "polled_of st' = spec_cmd env (local_cmd st) (polled_of st)"
    "lists_ok st'" "same_upds st st'"
proof -
  let ?c = "local_cmd st"
  have *: thesis
    if "execute_cmd env st = Ok (clear_pending st1)" "polled_of st1 = spec_cmd env ?c (polled_of st)"
      "lists_ok st1" "same_upds st st1" for st1
    using that \<open>\<And>st'. execute_cmd env st = Ok st' \<Longrightarrow> polled_of st' = spec_cmd env ?c (polled_of st) \<Longrightarrow>
      lists_ok st' \<Longrightarrow> same_upds st st' \<Longrightarrow> thesis\<close> [of "clear_pending st1"]
    by (simp add: polled_defs clear_pending_def)
  have ex: "execute_cmd env st = rbind m (\<lambda>st1. Ok (clear_pending st1))"
    if "cmd_code ?c = k" "m = (case k of
         POLL_ADD_OBJ \<Rightarrow> cmd_add_obj env ?c st | POLL_REM_OBJ \<Rightarrow> Ok (cmd_rem_obj ?c st)
       | POLL_REM_EXT_TRIG_OBJ \<Rightarrow> cmd_rem_ext_trig ?c st | POLL_REM_DEV \<Rightarrow> Ok (cmd_rem_dev ?c st)
       | POLL_UPD_PERIOD \<Rightarrow> cmd_upd_period env ?c st
       | POLL_ADD_HEARTBEAT \<Rightarrow> Ok (insert_in_list (heartbeat_item (pt_now st)) st)
       | POLL_REM_HEARTBEAT \<Rightarrow> Ok (st\<lparr>works := erase_heartbeat (works st)\<rparr>)
       | POLL_START \<Rightarrow> Ok (st\<lparr>polling_stop := False\<rparr>) | POLL_STOP \<Rightarrow> Ok (st\<lparr>polling_stop := True\<rparr>)
       | POLL_EXIT \<Rightarrow> Throw Thread_exit)" for k m
    using that by (simp add: execute_cmd_def)
  show thesis
  proof (cases "cmd_code ?c")
    case POLL_ADD_OBJ
    obtain st1 where "cmd_add_obj env ?c st = Ok st1" "polled_of st1 = spec_cmd env ?c (polled_of st)"
      "lists_ok st1" "same_upds st st1" by (rule add_obj_refines [OF ok(1) c POLL_ADD_OBJ])
    then show ?thesis using * [of st1] ex [OF POLL_ADD_OBJ refl] by simp
  next
    case POLL_REM_OBJ
    then show ?thesis
      using * [of "cmd_rem_obj ?c st"] ok erase_objs [OF uniq_parts(1) [OF ok(2)]]
        erase_found_ok [of "works st" "cmd_dev ?c" "cmd_type ?c" "cmd_name ?c"] ex [OF POLL_REM_OBJ refl]
      by (simp add: polled_defs cmd_rem_obj_def Let_def)
  next
    case POLL_START
    then show ?thesis using * [of "st\<lparr>polling_stop := False\<rparr>"] ok ex [OF POLL_START refl] by (simp add: polled_defs Let_def)
  next
    case POLL_STOP
    then show ?thesis using * [of "st\<lparr>polling_stop := True\<rparr>"] ok ex [OF POLL_STOP refl] by (simp add: polled_defs Let_def)
  next
    case POLL_UPD_PERIOD
    obtain st1 where "cmd_upd_period env ?c st = Ok st1" "polled_of st1 = spec_cmd env ?c (polled_of st)"
      "lists_ok st1" "same_upds st st1" by (rule upd_period_refines [OF ok c POLL_UPD_PERIOD])
    then show ?thesis using * [of st1] ex [OF POLL_UPD_PERIOD refl] by simp
  next
    case POLL_REM_DEV
    then show ?thesis
      using * [of "cmd_rem_dev ?c st"] ok ex [OF POLL_REM_DEV refl]
      by (simp add: objs_filter_dev polled_defs cmd_rem_dev_def Let_def filter_mset_image_mset)
  next
    case POLL_REM_EXT_TRIG_OBJ
    let ?ext = "ext_trig_works st"
    have "\<forall>w\<in>set ?ext. trig_ok w" using ok(1) by (simp add: lists_ok_def)
    then obtain r where "erase_trig (cmd_dev ?c) (cmd_type ?c) (cmd_name ?c) ?ext = Ok r"
      "image_mset fst (objs (snd (erase_found r ?ext))) =
        filter_mset (\<lambda>l. l \<noteq> (cmd_dev ?c, cmd_type ?c, cmd_name ?c)) (image_mset fst (objs ?ext))"
      "\<forall>w\<in>set (snd (erase_found r ?ext)). trig_ok w"
      by (rule erase_trig_objs [OF _ uniq_parts(2) [OF ok(2)]])
    then show ?thesis
      using * [of "st\<lparr>ext_trig_works := snd (erase_found r ?ext)\<rparr>"] ok(1)
        ex [OF POLL_REM_EXT_TRIG_OBJ refl] POLL_REM_EXT_TRIG_OBJ
      by (simp add: polled_defs cmd_rem_ext_trig_def Let_def)
  next
    case POLL_ADD_HEARTBEAT
    then show ?thesis
      using * [of "insert_in_list (heartbeat_item (pt_now st)) st"] ex [OF POLL_ADD_HEARTBEAT refl]
        insert_in_list_polled [OF ok(1), of "heartbeat_item (pt_now st)" heartbeat_key 9000000000]
      by (simp add: heartbeat_item_def item_ok_def item_objs_def heartbeat_key_def is_object_def
          TIME_NEEDED_HEARTBEAT_def polled_of_def Let_def)
  next
    case POLL_REM_HEARTBEAT
    have "objs (erase_heartbeat (works st)) = without heartbeat_key (objs (works st))"
      using objs_erase_heartbeat uniq_parts(1) [OF ok(2)] ok(1) by (simp add: lists_ok_def)
    moreover have "\<forall>w\<in>set (erase_heartbeat (works st)). item_ok w"
      using erase_heartbeat_subset [of "works st"] ok(1) by (auto simp: lists_ok_def)
    ultimately show ?thesis
      using * [of "st\<lparr>works := erase_heartbeat (works st)\<rparr>"] ok(1) ex [OF POLL_REM_HEARTBEAT refl] POLL_REM_HEARTBEAT
      by (simp add: polled_defs Let_def)
  next
    case POLL_EXIT
    then show ?thesis using c by (simp add: cmd_ok_def)
  qed
qed

lemma spec_cmd_uniq:
  assumes "lists_ok st" "uniq (polled_of st)" "cmd_ok env c (polled_of st)"
  shows "uniq (spec_cmd env c (polled_of st))"
proof -
  have hb: "heartbeat_key \<notin># trig st" using heartbeat_not_trig assms(1) .
  have f: "uniq (filter_mset P (sched st), filter_mset Q (trig st))" for P Q
    using uniq_filter assms(2) by (simp add: polled_of_def)
  have w: "uniq (without k (sched st), trig st)" for k
    using f [of "\<lambda>e. fst e \<noteq> k" "\<lambda>_. True"] by (simp add: without_def)
  have upd: "uniq (add_mset (k, u) (without k (sched st)), trig st) \<and> uniq (without k (sched st), add_mset k (trig st))"
    if "k \<in># image_mset fst (sched st)" for k u
    using uniq_move that assms(2) by (simp add: polled_of_def)
  show ?thesis
  proof (cases "cmd_code c = POLL_UPD_PERIOD")
    case True
    then have "(cmd_dev c, cmd_type c, cmd_name c) \<in># image_mset fst (sched st)"
      using assms(3) by (simp add: cmd_ok_def polled_of_def split: option.splits)
    then show ?thesis using upd True by (simp add: polled_of_def Let_def)
  next
    case False
    then show ?thesis
      using assms(2,3) hb f w f [of "\<lambda>_. True"]
      by (cases "cmd_code c")
        (auto simp: polled_of_def cmd_ok_def Let_def intro!: uniq_add split: option.splits)
  qed
qed


subsection \<open>Polls keep the objects\<close>

text \<open>
  Two lists of items with the same objects in the same order differ at most in the dates.
\<close>

definition undated :: "WorkItem \<Rightarrow> WorkItem" where
  "undated w = w\<lparr>wake_up_date := 0\<rparr>"

lemma undated_simps [simp]:
  "undated (w\<lparr>wake_up_date := t\<rparr>) = undated w"
  by (simp add: undated_def)

lemma item_objs_undated: "item_objs w = item_objs (undated w)"
  by (simp add: item_objs_def undated_def)

lemma item_objs_dated [simp]:
  "item_objs (w\<lparr>wake_up_date := t\<rparr>) = item_objs w"
  "item_objs (w\<lparr>needed_time := n\<rparr>) = item_objs w"
  by (simp_all add: item_objs_def)

lemma item_ok_dated [simp]: "item_ok (w\<lparr>wake_up_date := t\<rparr>) = item_ok w"
  by (simp add: item_ok_def)

lemma item_ok_needed: "item_ok w \<Longrightarrow> 0 \<le> n \<Longrightarrow> item_ok (w\<lparr>needed_time := Some n\<rparr>)"
  by (simp add: item_ok_def)

lemma objs_undated: "map undated vs = map undated ws \<Longrightarrow> objs vs = objs ws"
proof -
  have "objs us = mset (concat (map item_objs (map undated us)))" for us
    by (simp add: objs_def comp_def item_objs_undated [symmetric])
  then show "map undated vs = map undated ws \<Longrightarrow> objs vs = objs ws" by metis
qed

lemma poll_item_fields:
  assumes "item_ok w" "0 \<le> took"
  obtains w' st' where "poll_item srv took [] w st = Ok (w', st')" "item_ok w'" "item_objs w' = item_objs w"
    "wake_up_date w' = wake_up_date w" "wi_update w' = wi_update w"
    "works st' = works st" "ext_trig_works st' = ext_trig_works st" "same_upds st st'"
proof (cases "polling_stop st")
  case True
  show ?thesis using that [of w st] assms True by (simp add: poll_item_def same_upds_def)
next
  case False
  obtain n ns where n: "wi_name w = n # ns" using assms(1) by (cases "wi_name w") (auto simp: item_ok_def)
  have v: "vec_get (n # ns) 0 = Ok n" by (simp add: vec_get_def)
  have d: "\<exists>d. wi_dev w = Some d" if "is_object (wi_type w)" using that assms(1) by (auto simp: item_ok_def)
  note ok = item_ok_needed [OF assms]
  show ?thesis
  proof (cases "wi_type w")
    case POLL_CMD
    then obtain d where "wi_dev w = Some d" using d by (auto simp: is_object_def)
    then show ?thesis
      using that [of "w\<lparr>needed_time := Some took\<rparr>" "log_call (Cmd_polled d n) st"] False POLL_CMD ok n v
      by (simp add: poll_item_def poll_cmd_def log_call_def same_upds_def)
  next
    case POLL_ATTR
    then obtain d where "wi_dev w = Some d" using d by (auto simp: is_object_def)
    then show ?thesis
      using that [of "w\<lparr>needed_time := Some took\<rparr>" "log_call (Attr_polled d (wi_name w)) st"] False POLL_ATTR ok
      by (simp add: poll_item_def poll_attr_def log_call_def same_upds_def)
  next
    case EVENT_HEARTBEAT
    then show ?thesis
      using that [of w "beat srv st"] False assms(1)
      by (simp add: poll_item_def beat_def eve_heartbeat_def supplier_heartbeat_def log_call_def same_upds_def Let_def)
  next
    case STORE_SUBDEV
    then show ?thesis
      using that [of w "store_subdev st"] False assms(1)
      by (simp add: poll_item_def store_subdev_def log_call_def same_upds_def)
  qed
qed

lemma one_more_poll_keeps:
  assumes "lists_ok st" "works st = w # ws" "auto_upd st = []" "rem_upd st = []" "0 \<le> took"
  obtains st' w' where "one_more_poll srv took [] st = Ok st'" "polled_of st' = polled_of st" "lists_ok st'"
    "same_upds st st'" "item_objs w' = item_objs w" "wake_up_date w' = wake_up_date w + wi_update w"
    "works st' = insert_work w' ws"
proof -
  have w: "item_ok w" using assms by (simp add: lists_ok_def)
  obtain w1 st1 where p: "poll_item srv took [] w (st\<lparr>works := ws\<rparr>) = Ok (w1, st1)" "item_ok w1"
    "item_objs w1 = item_objs w" "wake_up_date w1 = wake_up_date w" "wi_update w1 = wi_update w"
    "works st1 = ws" "ext_trig_works st1 = ext_trig_works st" "same_upds st st1"
    by (rule poll_item_fields [OF w assms(5), of srv "st\<lparr>works := ws\<rparr>"]) (simp add: same_upds_def)
  have upds: "auto_upd st1 = []" "rem_upd st1 = []" using p(8) assms by (simp_all add: same_upds_def)
  let ?w = "w1\<lparr>wake_up_date := wake_up_date w1 + wi_update w1\<rparr>"
  have r: "reschedule w1 st1 = st1\<lparr>works := insert_work ?w ws\<rparr>"
    using upds p(6) by (simp add: reschedule_def plan_next_def insert_in_list_def)
  show ?thesis
    using that [of _ ?w] p assms(1,2) r
    by (simp add: one_more_poll_def polled_defs work_simps)
qed

lemma find_trig_ok:
  "\<forall>w\<in>set ws. trig_ok w \<Longrightarrow> \<exists>r. find_trig d t n ws = Ok r \<and> (\<forall>w. r = Some w \<longrightarrow> trig_ok w)"
  by (induction ws) (auto simp: trig_ok_def vec_get_def)

lemma one_more_trigg_keeps:
  assumes "lists_ok st"
  obtains st' where "one_more_trigg srv took [] st = Ok st'" "works st' = works st" "ext_trig_works st' = ext_trig_works st"
    "same_upds st st'"
proof -
  obtain r where r: "find_trig (cmd_dev (local_cmd st)) (cmd_type (local_cmd st)) (cmd_name (local_cmd st))
      (ext_trig_works st) = Ok r" "\<forall>w. r = Some w \<longrightarrow> trig_ok w"
    using find_trig_ok assms by (metis lists_ok_def)
  show ?thesis
  proof (cases r)
    case None
    then show ?thesis
      using that [of "clear_trigger st"] r(1) by (simp add: one_more_trigg_def clear_trigger_def same_upds_def)
  next
    case (Some w)
    then obtain d n where d: "wi_dev w = Some d" "wi_name w = [n]" using r(2) by (auto simp: trig_ok_def)
    show ?thesis
      using that r(1) Some d
      by (cases "polling_stop st"; cases "wi_type w = POLL_CMD")
        (simp_all add: one_more_trigg_def clear_trigger_def same_upds_def poll_cmd_def poll_attr_def log_call_def
          vec_get_def)
  qed
qed

lemma item_ok_undated: "item_ok w = item_ok (undated w)"
  by (simp add: undated_def)

lemma all_ok_undated: "map undated vs = map undated ws \<Longrightarrow> \<forall>w\<in>set ws. item_ok w \<Longrightarrow> \<forall>w\<in>set vs. item_ok w"
proof
  fix v
  assume e: "map undated vs = map undated ws" and ok: "\<forall>w\<in>set ws. item_ok w" and v: "v \<in> set vs"
  have "undated ` set vs = undated ` set ws" using e by (metis set_map)
  then obtain w where "w \<in> set ws" "undated v = undated w" using v by auto
  then show "item_ok v" using ok item_ok_undated by metis
qed


subsection \<open>Tuning\<close>

lemma tuned_date_ok:
  assumes "item_ok prev" "needed_time prev = Some n" "0 \<le> delta"
  obtains t where "tuned_date delta prev w = Ok t"
    "wake_up_date prev + n + delta \<le> t"
    "t \<le> max (wake_up_date w) (wake_up_date prev) + n + delta"
proof (cases "wake_up_date w > wake_up_date prev")
  case True
  let ?x = "wake_up_date w - wake_up_date prev"
  have u: "0 < wi_update prev" using assms(1) by (simp add: item_ok_def)
  have q: "0 \<le> ?x div wi_update prev * wi_update prev" "?x div wi_update prev * wi_update prev \<le> ?x"
    using u True div_mult_below [OF u, of ?x] by (simp_all add: pos_imp_zdiv_nonneg_iff)
  have t: "tuned_date delta prev w = Ok (wake_up_date prev + ?x div wi_update prev * wi_update prev + (n + delta))"
    using True u assms(2) by (simp add: tuned_date_def sdiv_div_nonneg Let_def)
  show ?thesis using that [OF t] q True by simp
next
  case False
  then have t: "tuned_date delta prev w = Ok (wake_up_date prev + (n + delta))"
    using assms(2) by (simp add: tuned_date_def)
  show ?thesis using that [OF t] False by simp
qed

definition spaced :: "int \<Rightarrow> WorkItem \<Rightarrow> WorkItem \<Rightarrow> bool" where
  "spaced delta v w \<longleftrightarrow> wake_up_date v + the (needed_time v) + delta \<le> wake_up_date w"

lemma tune_loop_keeps:
  assumes "item_ok prev" "\<forall>w\<in>set ws. item_ok w" "0 \<le> delta"
  shows "\<exists>vs. tune_loop nt delta prev ws = Ok vs \<and> map undated vs = map undated ws"
  using assms
proof (induction ws arbitrary: prev)
  case (Cons w ws)
  obtain n where n: "needed_time prev = Some n" using Cons.prems(1) by (auto simp: item_ok_def)
  obtain t where t: "tuned_date delta prev w = Ok t" by (rule tuned_date_ok [OF Cons.prems(1) n Cons.prems(3)])
  define wo where "wo = (if wake_up_date w < nt then w\<lparr>wake_up_date := t\<rparr> else w)"
  have "item_ok wo" "undated wo = undated w" using Cons.prems(2) by (simp_all add: wo_def)
  then show ?case using Cons.IH [of wo] Cons.prems t by (auto simp: wo_def)
qed simp

lemma tune_loop_spaced:
  assumes "item_ok prev" "\<forall>w\<in>set ws. item_ok w \<and> wake_up_date w < nt" "0 \<le> delta"
    "tune_loop nt delta prev ws = Ok vs"
  shows "successively (spaced delta) (prev # vs)"
  using assms
proof (induction ws arbitrary: prev vs)
  case (Cons w ws)
  obtain n where n: "needed_time prev = Some n" using Cons.prems(1) by (auto simp: item_ok_def)
  obtain t where t: "tuned_date delta prev w = Ok t" "wake_up_date prev + n + delta \<le> t"
    by (rule tuned_date_ok [OF Cons.prems(1) n Cons.prems(3)])
  obtain vs' where vs: "tune_loop nt delta (w\<lparr>wake_up_date := t\<rparr>) ws = Ok vs'" "vs = w\<lparr>wake_up_date := t\<rparr> # vs'"
    using Cons.prems(2,4) t by (auto simp: result_simps)
  have "successively (spaced delta) (w\<lparr>wake_up_date := t\<rparr> # vs')"
    using Cons.IH [OF _ _ _ vs(1)] Cons.prems(2,3) by simp
  then show ?case using vs(2) t n by (simp add: spaced_def)
qed simp

lemma tune_loop_delay:
  assumes "item_ok prev" "\<forall>w\<in>set ws. item_ok w" "0 \<le> delta"
    "tune_loop nt delta prev ws = Ok vs" "sorted (p0 # map wake_up_date ws)"
    "wake_up_date prev \<le> p0 + off" "0 \<le> off"
    "needed_total (prev # ws) = Ok s" "off + s + delta * int (length ws) \<le> B"
  shows "list_all2 (\<lambda>v w. wake_up_date v \<le> wake_up_date w + B) vs ws"
  using assms
proof (induction ws arbitrary: prev vs p0 off s)
  case (Cons w ws)
  obtain n where n: "needed_time prev = Some n" "0 \<le> n" using Cons.prems(1) by (auto simp: item_ok_def)
  obtain s' where s': "needed_total (w # ws) = Ok s'" "s = n + s'" using Cons.prems(8) n by (auto simp: result_simps)
  have s0: "0 \<le> s'" if "needed_total us = Ok s'" "\<forall>w\<in>set us. item_ok w" for us s'
    using that by (induction us arbitrary: s') (fastforce simp: item_ok_def result_simps split: option.splits)+
  obtain t where t: "tuned_date delta prev w = Ok t" "t \<le> max (wake_up_date w) (wake_up_date prev) + n + delta"
    by (rule tuned_date_ok [OF Cons.prems(1) n(1) Cons.prems(3)])
  define wo where "wo = (if wake_up_date w < nt then w\<lparr>wake_up_date := t\<rparr> else w)"
  obtain vs' where vs: "tune_loop nt delta wo ws = Ok vs'" "vs = wo # vs'"
    using Cons.prems(4) t by (auto simp: result_simps wo_def split: if_splits)
  have wo: "item_ok wo" "needed_time wo = needed_time w" using Cons.prems(2) by (simp_all add: wo_def)
  have le: "wake_up_date wo \<le> wake_up_date w + (off + n + delta)"
    using t(2) Cons.prems(3,5,6,7) n(2) by (auto simp: wo_def)
  have tot: "needed_total (wo # ws) = Ok s'" using s'(1) wo(2) by simp
  have B: "off + n + delta + s' + delta * int (length ws) \<le> B"
    using Cons.prems(9) s'(2) by (simp add: algebra_simps)
  have "list_all2 (\<lambda>v w. wake_up_date v \<le> wake_up_date w + B) vs' ws"
    by (rule Cons.IH [OF wo(1) _ Cons.prems(3) vs(1) _ le _ tot B])
      (use Cons.prems(2,3,5,7) n(2) in simp_all)
  moreover have "off + n + delta \<le> B"
    using B s0 [OF s'(1)] Cons.prems(2,3) by (smt (verit) mult_nonneg_nonneg of_nat_0_le_iff)
  ultimately show ?case using vs(2) le by simp
qed simp

lemma needed_total_ok: "\<forall>w\<in>set ws. item_ok w \<Longrightarrow> \<exists>s\<ge>0. needed_total ws = Ok s"
  by (induction ws) (fastforce simp: item_ok_def)+

lemma min_update_le: "min_update m ws \<le> m"
  by (induction ws arbitrary: m) (auto intro: le_less_trans [THEN less_imp_le])

lemma min_update_pos: "0 < m \<Longrightarrow> \<forall>w\<in>set ws. item_ok w \<Longrightarrow> 0 < min_update m ws"
  by (induction ws arbitrary: m) (auto simp: item_ok_def)

lemma tune_list_keeps:
  assumes "\<forall>w\<in>set (works st). item_ok w"
  shows "\<exists>vs. tune_list b st = Ok (st\<lparr>works := vs\<rparr>) \<and> map undated vs = map undated (works st)"
proof (cases "works st")
  case (Cons w ws)
  obtain s where s: "needed_total (works st) = Ok s" using needed_total_ok assms by blast
  let ?m = "min_update (wi_update w) ws"
  let ?delta = "(?m - s) div int (length (works st))"
  have shift: "map undated (shift_loop p us) = map undated us" for p us
    by (induction us arbitrary: p) (auto simp: Let_def)
  have ok: "item_ok w" "\<forall>w\<in>set ws. item_ok w" using assms Cons by simp_all
  have same: "st\<lparr>works := w # ws\<rparr> = st" using Cons by simp
  consider "ws = [] \<or> b \<and> ?m < s" | "ws \<noteq> []" "\<not> b" | "ws \<noteq> []" "b" "s \<le> ?m" by linarith
  then show ?thesis
  proof cases
    case 1
    then have "tune_list b st = Ok (st\<lparr>works := w # ws\<rparr>)" using Cons s same by (auto simp: tune_list_def Let_def)
    then show ?thesis using Cons by auto
  next
    case 2
    then have "tune_list b st = Ok (st\<lparr>works := w # shift_loop w ws\<rparr>)" using Cons by (auto simp: tune_list_def Let_def)
    then show ?thesis using Cons shift by fastforce
  next
    case 3
    obtain vs where vs: "tune_loop (pt_now st + POLL_LOOP_NB * ?m) ?delta w ws = Ok vs" "map undated vs = map undated ws"
      using tune_loop_keeps ok 3(3) by (metis diff_ge_0_iff_ge div_int_pos_iff of_nat_0_le_iff)
    have "tune_list b st = Ok (st\<lparr>works := w # vs\<rparr>)" using Cons 3 s vs(1) by (auto simp: tune_list_def Let_def)
    then show ?thesis using Cons vs(2) by fastforce
  qed
qed (auto simp: tune_list_def intro: exI [of _ "[]"])

lemma tune_if_due_keeps:
  assumes "lists_ok st"
  obtains st' where "tune_if_due st = Ok st'" "polled_of st' = polled_of st" "lists_ok st'" "same_upds st st'"
    "map undated (works st') = map undated (works st)" "pt_after st' = pt_after st"
proof -
  obtain vs where vs: "tune_list True st = Ok (st\<lparr>works := vs\<rparr>)" "map undated vs = map undated (works st)"
    using tune_list_keeps assms by (metis lists_ok_def)
  have "objs vs = objs (works st)" "\<forall>w\<in>set vs. item_ok w"
    using objs_undated [OF vs(2)] all_ok_undated [OF vs(2)] assms by (simp_all add: lists_ok_def)
  then show ?thesis
    using that assms vs by (cases "tune_ctr st \<le> 0") (simp_all add: tune_if_due_def polled_defs)
qed


subsection \<open>Discarding\<close>

text \<open>
  \<open>lateness\<close> measures how far the items are behind: every discarded item moves
  forward by its period.
\<close>

definition lateness :: "int \<Rightarrow> WorkItem list \<Rightarrow> nat" where
  "lateness after ws = (\<Sum>w\<leftarrow>ws. nat (after - DISCARD_THRESHOLD - wake_up_date w))"

definition next_date :: "WorkItem \<Rightarrow> WorkItem" where
  "next_date w = w\<lparr>wake_up_date := wake_up_date w + wi_update w\<rparr>"

lemma discard_one_works:
  assumes "works st = w # ws" "0 < wi_update w"
  shows "works (discard_one w st) = insert_work (next_date w) ws"
    "ext_trig_works (discard_one w st) = ext_trig_works st" "same_upds st (discard_one w st)"
    "pt_after (discard_one w st) = pt_after st"
  using assms
  by (auto simp: discard_one_def plan_next_def insert_in_list_def err_out_of_sync_def log_call_def
      next_date_def same_upds_def Let_def split: option.split)

lemma lateness_insert: "lateness a (insert_work w ws) = nat (a - DISCARD_THRESHOLD - wake_up_date w) + lateness a ws"
  by (induction ws) (auto simp: lateness_def)

lemma next_date_simps [simp]:
  "item_ok (next_date w) = item_ok w" "item_objs (next_date w) = item_objs w"
  "wake_up_date (next_date w) = wake_up_date w + wi_update w" "wi_update (next_date w) = wi_update w"
  by (simp_all add: next_date_def)

lemma lateness_next:
  assumes "is_late a w" "0 < wi_update w"
  shows "lateness a (insert_work (next_date w) ws) < lateness a (w # ws)"
  using assms by (simp add: lateness_insert is_late_def) (simp add: lateness_def)

lemma discard_loop_induct [consumes 1, case_names stop late]:
  assumes "\<forall>w\<in>set (works st). item_ok w"
    and stop: "\<And>st. works st = [] \<or> \<not> is_late (pt_after st) (hd (works st)) \<Longrightarrow> P st (Some st)"
    and late: "\<And>st w ws. \<lbrakk>works st = w # ws; is_late (pt_after st) w; 0 < wi_update w; item_ok w;
        P (discard_one w st) (discard_loop (discard_one w st))\<rbrakk> \<Longrightarrow> P st (discard_loop (discard_one w st))"
  shows "P st (discard_loop st)"
  using assms(1)
proof (induction "lateness (pt_after st) (works st)" arbitrary: st rule: less_induct)
  case less
  show ?case
  proof (cases "works st = [] \<or> \<not> is_late (pt_after st) (hd (works st))")
    case True
    then show ?thesis using stop [of st] by (auto simp: discard_loop.simps [of st] split: list.split)
  next
    case False
    then obtain w ws where w: "works st = w # ws" "is_late (pt_after st) w" by (cases "works st") auto
    have u: "0 < wi_update w" "item_ok w" using less.prems w by (auto simp: item_ok_def)
    have "P (discard_one w st) (discard_loop (discard_one w st))"
      using less.hyps less.prems w u lateness_next [OF w(2) u(1), of ws]
      by (simp add: discard_one_works [OF w(1) u(1)] work_simps)
    then show ?thesis using late w u by (simp add: discard_loop.simps [of st])
  qed
qed

definition same_lists :: "PollThread \<Rightarrow> PollThread \<Rightarrow> bool" where
  "same_lists st st' \<longleftrightarrow> polled_of st' = polled_of st \<and> lists_ok st' \<and> auto_upd st' = auto_upd st \<and>
    rem_upd st' = rem_upd st \<and> (works st' = [] \<longleftrightarrow> works st = [])"

lemma discard_one_same:
  assumes "lists_ok st" "works st = w # ws"
  shows "same_lists st (discard_one w st)"
proof -
  have u: "0 < wi_update w" using assms by (simp add: lists_ok_def item_ok_def)
  show ?thesis
    using assms discard_one_works [OF assms(2) u] by (simp add: same_lists_def polled_defs work_simps)
qed

lemma discard_loop_ends:
  assumes "lists_ok st"
  shows "\<exists>st'. discard_loop st = Some st' \<and> same_lists st st' \<and> pt_after st' = pt_after st \<and>
    (works st' = [] \<or> \<not> is_late (pt_after st') (hd (works st')))"
proof -
  have "\<forall>w\<in>set (works st). item_ok w" using assms by (simp add: lists_ok_def)
  then have "lists_ok st \<longrightarrow> (\<exists>st'. discard_loop st = Some st' \<and> same_lists st st' \<and> pt_after st' = pt_after st \<and>
    (works st' = [] \<or> \<not> is_late (pt_after st') (hd (works st'))))"
  proof (induction rule: discard_loop_induct)
    case (stop st)
    then show ?case by (auto simp: same_lists_def)
  next
    case (late st w ws)
    show ?case
    proof
      assume ok: "lists_ok st"
      have s: "same_lists st (discard_one w st)" using discard_one_same [OF ok late(1)] .
      then have "lists_ok (discard_one w st)" by (simp add: same_lists_def)
      then obtain st' where "discard_loop (discard_one w st) = Some st'" "same_lists (discard_one w st) st'"
        "pt_after st' = pt_after (discard_one w st)" "works st' = [] \<or> \<not> is_late (pt_after st') (hd (works st'))"
        using late(5) by blast
      then show "\<exists>st'. discard_loop (discard_one w st) = Some st' \<and> same_lists st st' \<and> pt_after st' = pt_after st \<and>
          (works st' = [] \<or> \<not> is_late (pt_after st') (hd (works st')))"
        using s discard_one_works(4) [OF late(1,3)] by (auto simp: same_lists_def)
    qed
  qed
  then show ?thesis using assms by blast
qed

lemma late_plan_same:
  assumes "late_plan st = (n, discard, st1)" "lists_ok st"
  shows "same_lists st st1" "works st1 = works st" "pt_after st1 = pt_after st"
  using assms by (auto simp: late_plan_def same_lists_def polled_defs Let_def split: if_splits)

lemma compute_sleep_time_ends:
  assumes "lists_ok st"
  obtains st' where "compute_sleep_time st = Some st'" "same_lists st st'"
    "works st = [] \<longrightarrow> pt_sleep st' = pt_sleep st"
proof (cases "works st")
  case Nil
  then show ?thesis using that [of st] assms by (simp add: compute_sleep_time_def same_lists_def)
next
  case (Cons w ws)
  obtain n discard st1 where p: "late_plan st = (n, discard, st1)" by (cases "late_plan st") auto
  note l = late_plan_same [OF p assms]
  let ?st2 = "st1\<lparr>previous_nb_late := 0\<rparr>"
  have s2: "same_lists st ?st2" "lists_ok ?st2" "works ?st2 = w # ws"
    using l Cons by (simp_all add: same_lists_def polled_defs)
  obtain st3 where st3: "discard_loop ?st2 = Some st3" "same_lists ?st2 st3"
    using discard_loop_ends [OF s2(2)] by blast
  have "same_lists st (set_sleep st3)"
    using st3(2) s2 Cons by (auto simp: same_lists_def polled_defs set_sleep_def Let_def split: list.split)
  moreover have "same_lists st (?st2\<lparr>pt_sleep := x\<rparr>)" for x
    using s2 by (simp add: same_lists_def polled_defs)
  ultimately show ?thesis
    using that Cons p l(1) st3(1)
    by (cases "n = 0 \<or> discard"; cases "wake_up_date w < pt_after ?st2";
        cases "pt_after ?st2 - wake_up_date w < DISCARD_THRESHOLD")
      (simp_all add: compute_sleep_time_def Let_def)
qed

text \<open>
  The date to which a late item is moved: the first one, in steps of its period, that
  is not late any more.
\<close>

definition catch_up :: "int \<Rightarrow> WorkItem \<Rightarrow> WorkItem" where
  "catch_up after w =
    (if is_late after w
     then w\<lparr>wake_up_date := wake_up_date w +
        (after - DISCARD_THRESHOLD - wake_up_date w + wi_update w - 1) div wi_update w * wi_update w\<rparr>
     else w)"

lemma ceil_step:
  assumes "0 < x" "0 < (u :: int)"
  shows "(x + u - 1) div u = (if u < x then (x - u + u - 1) div u + 1 else 1)"
proof (cases "u < x")
  case True
  have "(x + u - 1) div u = (x - 1 + 1 * u) div u" by (simp add: algebra_simps)
  also have "\<dots> = (x - 1) div u + 1" using assms by (simp add: div_mult_self1 del: mult_1)
  finally show ?thesis using True by simp
next
  case False
  then have "(x + u - 1) div u = (x - 1 + u) div u" by (simp add: algebra_simps)
  also have "\<dots> = (x - 1) div u + 1" using assms by (intro div_add_self2) simp
  also have "\<dots> = 1" using False assms by (simp add: div_pos_pos_trivial)
  finally show ?thesis using False by simp
qed

lemma catch_up_next:
  assumes "is_late a w" "0 < wi_update w"
  shows "catch_up a (next_date w) = catch_up a w"
proof -
  let ?x = "a - DISCARD_THRESHOLD - wake_up_date w" and ?u = "wi_update w"
  have x: "0 < ?x" using assms(1) by (simp add: is_late_def)
  have late: "is_late a (next_date w) \<longleftrightarrow> ?u < ?x" by (auto simp: is_late_def)
  have k: "(?x + ?u - 1) div ?u = (if ?u < ?x then (?x - ?u + ?u - 1) div ?u + 1 else 1)"
    by (rule ceil_step [OF x assms(2)])
  show ?thesis
  proof (cases "?u < ?x")
    case True
    let ?q = "(?x - ?u + ?u - 1) div ?u"
    have "catch_up a (next_date w) = w\<lparr>wake_up_date := wake_up_date w + ?u + ?q * ?u\<rparr>"
      using True late unfolding catch_up_def by (simp add: next_date_def diff_diff_eq)
    moreover have "catch_up a w = w\<lparr>wake_up_date := wake_up_date w + (?q + 1) * ?u\<rparr>"
      using True assms(1) k unfolding catch_up_def by simp
    ultimately show ?thesis by (simp add: distrib_right add.assoc add.commute [of ?u])
  next
    case False
    then show ?thesis using assms(1) late k by (simp add: catch_up_def next_date_def)
  qed
qed

lemma catch_up_id: "sorted (map wake_up_date (w # ws)) \<Longrightarrow> \<not> is_late a w \<Longrightarrow> image_mset (catch_up a) (mset (w # ws)) = mset (w # ws)"
proof -
  assume s: "sorted (map wake_up_date (w # ws))" and l: "\<not> is_late a w"
  have "catch_up a v = v" if "v \<in> set (w # ws)" for v
    using s l that by (fastforce simp: catch_up_def is_late_def)
  then have "map (catch_up a) (w # ws) = w # ws" by (simp add: map_idI)
  then show ?thesis by (metis mset_map)
qed

lemma discard_loop_catch_up:
  assumes "\<forall>w\<in>set (works st). item_ok w" "sorted (map wake_up_date (works st))" "discard_loop st = Some st'"
  shows "sorted (map wake_up_date (works st')) \<and>
    mset (works st') = image_mset (catch_up (pt_after st)) (mset (works st))"
proof -
  have "\<forall>st'. sorted (map wake_up_date (works st)) \<longrightarrow> discard_loop st = Some st' \<longrightarrow>
    sorted (map wake_up_date (works st')) \<and> mset (works st') = image_mset (catch_up (pt_after st)) (mset (works st))"
    using assms(1)
  proof (induction rule: discard_loop_induct)
    case (stop st)
    then show ?case
      using catch_up_id by (cases "works st") (auto simp del: sorted_simps mset.simps(2))
  next
    case (late st w ws)
    note d = discard_one_works [OF late(1,3)]
    show ?case
      using late(1,5) d catch_up_next [OF late(2,3)] sorted_insert_work [of ws "next_date w"]
      by (simp add: work_simps)
  qed
  then show ?thesis using assms(2,3) by blast
qed

section \<open>Turns of the thread\<close>

lemma pt_inv_iff:
  "pt_inv st \<longleftrightarrow> lists_ok st \<and> uniq (polled_of st) \<and> auto_upd st = [] \<and> rem_upd st = [] \<and>
    (pt_sleep st = Some 0 \<longrightarrow> works st \<noteq> [])"
  unfolding pt_inv_def lists_ok_def uniq_def polled_of_def by simp

text \<open>
  What a turn may meet: a command that is meant for the objects polled, polled code
  that takes some time and does not change the polling of its own thread, and no end
  of the wait without a command while nothing is polled.
\<close>

definition turn_received :: "turn_input \<Rightarrow> PollThread \<Rightarrow> PollCmdType" where
  "turn_received i st = fst (get_command (in_entry i) (in_arrived i) st)"

definition turn_cmd :: "turn_input \<Rightarrow> PollThread \<Rightarrow> PollThCmd" where
  "turn_cmd i st = local_cmd (snd (snd (get_command (in_entry i) (in_arrived i) st)))"

definition turn_ok :: "poll_server \<Rightarrow> turn_input \<Rightarrow> PollThread \<Rightarrow> bool" where
  "turn_ok srv i st \<longleftrightarrow> in_acts i = [] \<and> 0 \<le> in_took i \<and>
    (case turn_received i st of
       POLL_COMMAND \<Rightarrow> cmd_ok (srv_dev srv) (turn_cmd i st) (polled_of st)
     | POLL_TIME_OUT \<Rightarrow> works st \<noteq> []
     | POLL_TRIGGER \<Rightarrow> True)"

definition spec_turn :: "poll_server \<Rightarrow> turn_input \<Rightarrow> PollThread \<Rightarrow> polled" where
  "spec_turn srv i st =
    (if turn_received i st = POLL_COMMAND then spec_cmd (srv_dev srv) (turn_cmd i st) (polled_of st)
     else polled_of st)"

lemma poll_command_fields:
  assumes "get_command e a st = (r, w, st1)"
  shows "works st1 = works st" "ext_trig_works st1 = ext_trig_works st" "same_upds st st1"
    "polling_stop st1 = polling_stop st" "r \<noteq> POLL_TIME_OUT \<Longrightarrow> pt_sleep st \<noteq> Some 0"
  using assms by (auto simp: get_command_def same_upds_def Let_def split: if_splits)

lemma polled_of_cong:
  "works st1 = works st \<Longrightarrow> ext_trig_works st1 = ext_trig_works st \<Longrightarrow> polled_of st1 = polled_of st \<and> lists_ok st1 = lists_ok st"
  by (simp add: polled_defs)

lemma same_upds_trans: "same_upds a b \<Longrightarrow> same_upds b c \<Longrightarrow> same_upds a c"
  by (simp add: same_upds_def)

lemma turn_work:
  assumes "pt_inv st" "turn_ok srv i st" "get_command (in_entry i) (in_arrived i) st = (r, w, st1)"
  obtains st3 where
    "(case r of
        POLL_COMMAND \<Rightarrow> execute_cmd (srv_dev srv) (st1\<lparr>pt_now := in_now i\<rparr>)
      | POLL_TIME_OUT \<Rightarrow> one_more_poll srv (in_took i) (in_acts i) (st1\<lparr>pt_now := in_now i\<rparr>)
      | POLL_TRIGGER \<Rightarrow> one_more_trigg srv (in_took i) (in_acts i) (st1\<lparr>pt_now := in_now i\<rparr>)) = Ok st3"
    "polled_of st3 = spec_turn srv i st" "lists_ok st3" "uniq (polled_of st3)" "same_upds st st3"
    "pt_sleep st3 = Some 0 \<longrightarrow> works st3 \<noteq> []"
proof -
  let ?st2 = "st1\<lparr>pt_now := in_now i\<rparr>"
  note g = poll_command_fields [OF assms(3)]
  have inv: "lists_ok st" "uniq (polled_of st)" "auto_upd st = []" "rem_upd st = []"
    "pt_sleep st = Some 0 \<longrightarrow> works st \<noteq> []" using assms(1) by (simp_all add: pt_inv_iff)
  have s2: "polled_of ?st2 = polled_of st" "lists_ok ?st2" "same_upds st ?st2" "works ?st2 = works st"
    "ext_trig_works ?st2 = ext_trig_works st" "auto_upd ?st2 = []" "rem_upd ?st2 = []"
    using g inv by (simp_all add: polled_defs)
  have ok: "in_acts i = []" "0 \<le> in_took i" using assms(2) by (simp_all add: turn_ok_def)
  have r: "turn_received i st = r" "turn_cmd i st = local_cmd ?st2"
    using assms(3) by (simp_all add: turn_received_def turn_cmd_def)
  show ?thesis
  proof (cases r)
    case POLL_TIME_OUT
    then obtain v ws where v: "works ?st2 = v # ws"
      using assms(2) r(1) s2(4) by (cases "works st") (auto simp: turn_ok_def)
    obtain st3 w' where "one_more_poll srv (in_took i) [] ?st2 = Ok st3" "polled_of st3 = polled_of ?st2"
      "lists_ok st3" "same_upds ?st2 st3" "works st3 = insert_work w' ws"
      by (rule one_more_poll_keeps [OF s2(2) v s2(6,7) ok(2)])
    then show ?thesis
      using that [of st3] POLL_TIME_OUT ok r s2 inv same_upds_trans [OF s2(3)] by (simp add: spec_turn_def)
  next
    case POLL_COMMAND
    have c: "cmd_ok (srv_dev srv) (local_cmd ?st2) (polled_of ?st2)"
      using assms(2) r s2(1) POLL_COMMAND by (simp add: turn_ok_def)
    have u2: "uniq (polled_of ?st2)" using s2(1) inv(2) by simp
    obtain st3 where st3: "execute_cmd (srv_dev srv) ?st2 = Ok st3"
      "polled_of st3 = spec_cmd (srv_dev srv) (local_cmd ?st2) (polled_of ?st2)" "lists_ok st3" "same_upds ?st2 st3"
      by (rule execute_cmd_refines [OF s2(2) u2 c])
    have sl: "pt_sleep st3 \<noteq> Some 0"
      using g(5) POLL_COMMAND st3(4) s2(3) by (simp add: same_upds_def)
    have "uniq (polled_of st3)"
      using spec_cmd_uniq [OF s2(2) u2 c] st3(2) by simp
    then show ?thesis
      using that [of st3] POLL_COMMAND r st3 sl s2(1) same_upds_trans [OF s2(3)] by (simp add: spec_turn_def)
  next
    case POLL_TRIGGER
    obtain st3 where "one_more_trigg srv (in_took i) [] ?st2 = Ok st3" "works st3 = works ?st2"
      "ext_trig_works st3 = ext_trig_works ?st2" "same_upds ?st2 st3"
      by (rule one_more_trigg_keeps [OF s2(2)])
    then show ?thesis
      using that [of st3] POLL_TRIGGER ok r s2 inv polled_of_cong [of st3 ?st2] same_upds_trans [OF s2(3)]
      by (simp add: spec_turn_def same_upds_def)
  qed
qed

lemma turn_refines:
  assumes "pt_inv st" "turn_ok srv i st"
  obtains st' where "run_turn srv i st = Some (Ok st')" "pt_inv st'" "polled_of st' = spec_turn srv i st"
proof -
  obtain r w st1 where g: "get_command (in_entry i) (in_arrived i) st = (r, w, st1)"
    by (cases "get_command (in_entry i) (in_arrived i) st") auto
  obtain st3 where st3:
    "(case r of
        POLL_COMMAND \<Rightarrow> execute_cmd (srv_dev srv) (st1\<lparr>pt_now := in_now i\<rparr>)
      | POLL_TIME_OUT \<Rightarrow> one_more_poll srv (in_took i) (in_acts i) (st1\<lparr>pt_now := in_now i\<rparr>)
      | POLL_TRIGGER \<Rightarrow> one_more_trigg srv (in_took i) (in_acts i) (st1\<lparr>pt_now := in_now i\<rparr>)) = Ok st3"
    "polled_of st3 = spec_turn srv i st" "lists_ok st3" "uniq (polled_of st3)" "same_upds st st3"
    "pt_sleep st3 = Some 0 \<longrightarrow> works st3 \<noteq> []"
    by (rule turn_work [OF assms g])
  let ?st3 = "st3\<lparr>pt_after := in_after i\<rparr>"
  have "lists_ok ?st3" using st3(3) by (simp add: lists_ok_def)
  then obtain st4 where st4: "tune_if_due ?st3 = Ok st4" "polled_of st4 = polled_of ?st3" "lists_ok st4"
    "same_upds ?st3 st4" "map undated (works st4) = map undated (works ?st3)"
    by (rule tune_if_due_keeps)
  obtain st5 where st5: "compute_sleep_time st4 = Some st5" "same_lists st4 st5"
    "works st4 = [] \<longrightarrow> pt_sleep st5 = pt_sleep st4"
    by (rule compute_sleep_time_ends [OF st4(3)])
  have "polled_of ?st3 = polled_of st3" by (simp add: polled_defs)
  then have p: "polled_of st5 = polled_of st3" using st5(2) st4(2) by (simp add: same_lists_def)
  have "pt_inv st5"
    using st5(2,3) st4 st3 p assms(1) by (auto simp: pt_inv_iff same_lists_def same_upds_def)
  moreover have "run_turn srv i st = Some (Ok st5)"
    using g st3(1) st4(1) st5(1) by (simp add: run_turn_def)
  ultimately show ?thesis using that p st3(2) by simp
qed

fun run_turns :: "(poll_server \<times> turn_input) list \<Rightarrow> PollThread \<Rightarrow> PollThread result option" where
  "run_turns [] st = Some (Ok st)"
| "run_turns ((srv, i) # is) st =
    (case run_turn srv i st of Some (Ok st') \<Rightarrow> run_turns is st' | r \<Rightarrow> r)"

text \<open>
  A sequence of turns meets what each of its turns may meet, and \<open>turn_cmds\<close> are the
  commands it executes.
\<close>

fun turns_ok :: "(poll_server \<times> turn_input) list \<Rightarrow> PollThread \<Rightarrow> bool" where
  "turns_ok [] st = True"
| "turns_ok ((srv, i) # is) st =
    (turn_ok srv i st \<and> (case run_turn srv i st of Some (Ok st') \<Rightarrow> turns_ok is st' | _ \<Rightarrow> True))"

fun turn_cmds :: "(poll_server \<times> turn_input) list \<Rightarrow> PollThread \<Rightarrow> (poll_server \<times> PollThCmd) list" where
  "turn_cmds [] st = []"
| "turn_cmds ((srv, i) # is) st =
    (if turn_received i st = POLL_COMMAND then [(srv, turn_cmd i st)] else []) @
    (case run_turn srv i st of Some (Ok st') \<Rightarrow> turn_cmds is st' | _ \<Rightarrow> [])"


lemma pt_inv_start: "pt_inv (run_start t (PollThread_new cmd loc b))"
proof -
  have "uniq (add_mset (k, u) {#}, {#})" for k u by (auto intro: uniqI)
  moreover have "uniq ({#}, {#})" by (auto intro: uniqI)
  ultimately show ?thesis
    by (auto simp: pt_inv_iff polled_defs PollThread_new_def run_start_def insert_in_list_def item_ok_def
        subdev_item_def is_object_def item_objs_def)
qed

text \<open>
  The thread polls the object that is due first. With the list in the order of its
  dates, a time-out polls the first item, no other item is due earlier, the item comes
  back one period later and everything else stays as it is, in order.
\<close>

theorem poll_next_due:
  assumes "pt_inv st" "works st = w # ws" "sorted (map wake_up_date (works st))" "\<not> polling_stop st" "0 \<le> took"
  shows "\<exists>st' w'. one_more_poll srv took [] st = Ok st' \<and> (\<forall>v\<in>set ws. wake_up_date w \<le> wake_up_date v) \<and>
    mset (works st') = add_mset w' (mset ws) \<and> item_objs w' = item_objs w \<and>
    wake_up_date w' = wake_up_date w + wi_update w \<and> sorted (map wake_up_date (works st')) \<and>
    (wi_type w = POLL_CMD \<longrightarrow> pt_calls st' = pt_calls st @ [Cmd_polled (the (wi_dev w)) (hd (wi_name w))]) \<and>
    (wi_type w = POLL_ATTR \<longrightarrow> pt_calls st' = pt_calls st @ [Attr_polled (the (wi_dev w)) (wi_name w)])"
proof -
  have inv: "lists_ok st" "auto_upd st = []" "rem_upd st = []" using assms(1) by (simp_all add: pt_inv_iff)
  obtain st' w' where p: "one_more_poll srv took [] st = Ok st'" "item_objs w' = item_objs w"
    "wake_up_date w' = wake_up_date w + wi_update w" "works st' = insert_work w' ws"
    by (rule one_more_poll_keeps [OF inv(1) assms(2) inv(2,3) assms(5)])
  have "item_ok w" using inv(1) assms(2) by (simp add: lists_ok_def)
  then obtain n ns where n: "wi_name w = n # ns" by (cases "wi_name w") (auto simp: item_ok_def)
  have d: "is_object (wi_type w) \<Longrightarrow> \<exists>d. wi_dev w = Some d" using \<open>item_ok w\<close> by (auto simp: item_ok_def)
  have "pt_calls st' = pt_calls st @ [Cmd_polled (the (wi_dev w)) (hd (wi_name w))]" if "wi_type w = POLL_CMD"
    using p(1) assms(2,4) d that inv n
    by (auto simp: one_more_poll_def poll_item_def poll_cmd_def vec_get_def is_object_def log_call_def
        reschedule_def plan_next_def insert_in_list_def)
  moreover have "pt_calls st' = pt_calls st @ [Attr_polled (the (wi_dev w)) (wi_name w)]" if "wi_type w = POLL_ATTR"
    using p(1) assms(2,4) d that inv
    by (auto simp: one_more_poll_def poll_item_def poll_attr_def is_object_def log_call_def
        reschedule_def plan_next_def insert_in_list_def)
  ultimately show ?thesis using p assms(2,3) by (auto simp: work_simps)
qed

text \<open>
  (C19) Late polls are discarded and the thread catches up. The loop that discards polls
  always ends; afterwards every item that was late has the first date, in steps of its
  period, that is not late by more than the threshold, and the other items keep theirs.
\<close>

theorem poll_discard_catches_up:
  assumes "pt_inv st" "sorted (map wake_up_date (works st))"
  shows "\<exists>st'. discard_loop st = Some st' \<and> polled_of st' = polled_of st \<and>
    mset (works st') = image_mset (catch_up (pt_after st)) (mset (works st)) \<and>
    sorted (map wake_up_date (works st')) \<and> (\<forall>w\<in>set (works st'). \<not> is_late (pt_after st) w)"
proof -
  have ok: "lists_ok st" "\<forall>w\<in>set (works st). item_ok w" using assms(1) by (simp_all add: pt_inv_iff lists_ok_def)
  obtain st' where st': "discard_loop st = Some st'" "same_lists st st'" "pt_after st' = pt_after st"
    "works st' = [] \<or> \<not> is_late (pt_after st') (hd (works st'))"
    using discard_loop_ends [OF ok(1)] by blast
  note c = discard_loop_catch_up [OF ok(2) assms(2) st'(1)]
  have "\<forall>w\<in>set (works st'). \<not> is_late (pt_after st) w"
    using st'(3,4) c by (cases "works st'") (auto simp: is_late_def)
  then show ?thesis using st' c by (auto simp: same_lists_def)
qed


lemma sleep_until_next:
  assumes "pt_inv st" "works st \<noteq> []" "compute_sleep_time st = Some st'"
  shows "pt_sleep st' = None \<or>
    (\<exists>d. pt_sleep st' = Some d \<and> d = wake_up_date (hd (works st')) - pt_after st \<and>
      (0 \<le> d \<or> d = - DISCARD_THRESHOLD))"
proof -
  have ok: "lists_ok st" using assms(1) by (simp add: pt_inv_iff)
  obtain w ws where w: "works st = w # ws" using assms(2) by (cases "works st") auto
  obtain n discard st1 where p: "late_plan st = (n, discard, st1)" by (cases "late_plan st") auto
  note l = late_plan_same [OF p ok]
  let ?st2 = "st1\<lparr>previous_nb_late := 0\<rparr>"
  have "lists_ok ?st2" using l(1) by (simp add: same_lists_def lists_ok_def)
  then obtain st3 where st3: "discard_loop ?st2 = Some st3" "same_lists ?st2 st3" "pt_after st3 = pt_after ?st2"
    "works st3 = [] \<or> \<not> is_late (pt_after st3) (hd (works st3))"
    using discard_loop_ends by blast
  obtain v vs where v: "works st3 = v # vs" using st3(2) l(2) w by (cases "works st3") (auto simp: same_lists_def)
  consider "n = 0 \<or> discard" "wake_up_date w < pt_after st" "pt_after st - wake_up_date w < DISCARD_THRESHOLD"
    | "n = 0 \<or> discard" "\<not> wake_up_date w < pt_after st"
    | "n = 0 \<or> discard" "wake_up_date w < pt_after st" "\<not> pt_after st - wake_up_date w < DISCARD_THRESHOLD"
    | "n \<noteq> 0" "\<not> discard" by blast
  then show ?thesis
  proof cases
    case 1
    then show ?thesis using assms(3) w p l by (auto simp: compute_sleep_time_def Let_def)
  next
    case 2
    then show ?thesis using assms(3) w p l by (auto simp: compute_sleep_time_def Let_def)
  next
    case 3
    then have "st' = set_sleep st3"
      using assms(3) w p l(3) st3(1) by (auto simp: compute_sleep_time_def Let_def)
    then show ?thesis
      using v st3(3,4) l(3) by (auto simp: set_sleep_def Let_def is_late_def)
  next
    case 4
    then have "st' = st1" "pt_sleep st1 = None"
      using assms(3) w p by (auto simp: compute_sleep_time_def late_plan_def Let_def split: if_splits)
    then show ?thesis by simp
  qed
qed


section \<open>Where the thread goes wrong\<close>

lemma discard_loop_stuck:
  assumes "works st = w # ws" "is_late (pt_after st) w" "wi_update w = 0"
  shows "discard_loop st = None"
proof -
  have "\<not> (\<exists>w ws. works st = w # ws \<and> is_late (pt_after st) w \<and> wi_update w = 0)"
    if "discard_loop st = Some r" for st r
  proof (rule discard_loop.raw_induct [OF _ that])
    fix f :: "PollThread \<Rightarrow> PollThread option" and st r
    assume 1: "\<And>st r. f st = Some r \<Longrightarrow> \<not> (\<exists>w ws. works st = w # ws \<and> is_late (pt_after st) w \<and> wi_update w = 0)"
      "(case works st of [] \<Rightarrow> Some st
        | w # ws \<Rightarrow> if is_late (pt_after st) w then f (discard_one w st) else Some st) = Some r"
    show "\<not> (\<exists>w ws. works st = w # ws \<and> is_late (pt_after st) w \<and> wi_update w = 0)"
    proof
      assume "\<exists>w ws. works st = w # ws \<and> is_late (pt_after st) w \<and> wi_update w = 0"
      then obtain w ws where w: "works st = w # ws" "is_late (pt_after st) w" "wi_update w = 0" by blast
      have "f (discard_one w st) = Some r" using 1(2) w by simp
      moreover have "works (discard_one w st) = w # ws" "pt_after (discard_one w st) = pt_after st"
        using w by (auto simp: discard_one_def plan_next_def insert_in_list_def err_out_of_sync_def log_call_def
            Let_def split: option.split)
      ultimately show False using 1(1) [of "discard_one w st" r] w by simp
    qed
  qed
  then show ?thesis using assms by (cases "discard_loop st") blast+
qed

text \<open>
  The thread sleeps until the next poll. The computation of the time to sleep
  ends, and its result is none or the time from now to the first item; it is never
  negative, except that an item late by exactly the threshold gives minus the threshold.
\<close>

theorem poll_sleep_until_next:
  assumes "pt_inv st" "works st \<noteq> []"
  shows "\<exists>st'. compute_sleep_time st = Some st' \<and>
    (pt_sleep st' = None \<or>
     (\<exists>d. pt_sleep st' = Some d \<and> d = wake_up_date (hd (works st')) - pt_after st \<and>
       (0 \<le> d \<or> d = - DISCARD_THRESHOLD)))"
proof -
  have "lists_ok st" using assms(1) by (simp add: pt_inv_iff)
  then obtain st' where "compute_sleep_time st = Some st'" by (rule compute_sleep_time_ends)
  then show ?thesis using sleep_until_next [OF assms] by blast
qed

text \<open>
  (C31) Giving an externally triggered object the period zero again, which the
  administration device accepts, makes the thread hang. The object is put into the work
  list with the period zero; the first time the thread finds itself more than the
  threshold late, the loop that discards polls never ends.
\<close>

theorem poll_zero_period_hangs:
  assumes "pt_inv st" "works st = []" "cmd_code (local_cmd st) = POLL_UPD_PERIOD" "cmd_new_upd (local_cmd st) = 0"
    and c: "cmd_dev (local_cmd st) = Some d"
      "vec_get (poll_obj_list (env d)) (cmd_index (local_cmd st)) =
        Ok \<lparr>po_type = cmd_type (local_cmd st), po_name = cmd_name (local_cmd st), po_upd = 0\<rparr>"
    and "(Some d, cmd_type (local_cmd st), cmd_name (local_cmd st)) \<in># trig st"
    and late: "after - pt_now st > DISCARD_THRESHOLD"
  shows "\<exists>st' w. execute_cmd env st = Ok st' \<and> works st' = [w] \<and> wi_update w = 0 \<and>
    compute_sleep_time (st'\<lparr>pt_after := after\<rparr>) = None"
proof -
  let ?c = "local_cmd st" and ?ext = "ext_trig_works st"
  let ?wo = "\<lparr>wi_dev = Some d, wake_up_date = 0, wi_update = 0, wi_type = cmd_type ?c,
      wi_name = [cmd_name ?c], needed_time = None\<rparr>"
  let ?w = "\<lparr>wi_dev = Some d, wake_up_date = pt_now st, wi_update = 0, wi_type = cmd_type ?c,
      wi_name = [cmd_name ?c, cmd_name ?c], needed_time = None\<rparr>"
  have ext: "\<forall>v\<in>set ?ext. trig_ok v" using assms(1) by (simp add: pt_inv_def)
  have "is_object (cmd_type ?c)"
    using assms(7) ext by (auto simp: trig_def objs_def item_objs_def trig_ok_def)
  then have "\<forall>v\<in>set (?ext @ [?wo]). trig_ok v" using ext by (simp add: trig_ok_def)
  then have "\<exists>ts. erase_trig (Some d) (cmd_type ?c) (cmd_name ?c) (?ext @ [?wo]) = Ok (Some ts)"
    using erase_trig_spec [of "?ext @ [?wo]" "Some d" "cmd_type ?c" "cmd_name ?c"]
    by (auto simp: item_objs_def split: option.splits)
  then obtain ts where ts: "erase_trig (Some d) (cmd_type ?c) (cmd_name ?c) (?ext @ [?wo]) = Ok (Some ts)" by blast
  let ?st = "clear_pending (st\<lparr>ext_trig_works := ts, works := [?w]\<rparr>)"
  have ex: "execute_cmd env st = Ok ?st"
    using assms(2-4) c ts
    by (simp add: execute_cmd_def cmd_upd_period_def upd_to_trig_def upd_from_trig_def erase_found_def insert_in_list_def)
  have "is_late after ?w" using late by (simp add: is_late_def)
  moreover have "after - pt_now st > 0" using late by (simp add: DISCARD_THRESHOLD_def)
  ultimately have "compute_sleep_time (?st\<lparr>pt_after := after\<rparr>) = None"
    using discard_loop_stuck [of _ ?w "[]"] late
    by (auto simp: compute_sleep_time_def late_plan_def clear_pending_def Let_def is_late_def)
  then show ?thesis using ex by (auto simp: clear_pending_def)
qed

text \<open>
  Giving a period to an externally triggered object while other objects are polled
  leaves it in both lists, although a comment says that it is taken from the list of
  triggered objects; and the change is remembered for the next item that is polled: if
  that one is an object with the same name, of whatever device, its polling ends.
\<close>

theorem poll_triggered_twice:
  assumes "pt_inv st" "works st \<noteq> []" "cmd_code (local_cmd st) = POLL_UPD_PERIOD" "0 < cmd_new_upd (local_cmd st)"
    and c: "cmd_dev (local_cmd st) = Some d" "cmd_type (local_cmd st) = POLL_CMD"
    and trg: "(Some d, POLL_CMD, cmd_name (local_cmd st)) \<in># trig st"
  shows "\<exists>st'. execute_cmd env st = Ok st' \<and> trig st' = trig st \<and>
    sched st' = add_mset ((Some d, POLL_CMD, cmd_name (local_cmd st)), cmd_new_upd (local_cmd st)) (sched st) \<and>
    (\<forall>srv took w ws. works st' = w # ws \<longrightarrow> wi_name w = [cmd_name (local_cmd st)] \<longrightarrow> item_ok w \<longrightarrow> 0 \<le> took \<longrightarrow>
      (\<exists>st2. one_more_poll srv took [] st' = Ok st2 \<and> sched st2 = objs ws))"
proof -
  let ?c = "local_cmd st" and ?n = "cmd_name (local_cmd st)"
  let ?w = "\<lparr>wi_dev = Some d, wake_up_date = pt_now st + cmd_new_upd ?c, wi_update = cmd_new_upd ?c,
      wi_type = POLL_CMD, wi_name = [?n], needed_time = Some 0\<rparr>"
  have inv: "uniq (polled_of st)" "auto_upd st = []" "rem_upd st = []" using assms(1) by (simp_all add: pt_inv_iff)
  have "(Some d, POLL_CMD, ?n) \<notin># image_mset fst (sched st)"
    using uniq_member inv(1) trg unfolding polled_of_def by blast
  then have none: "erase_obj (Some d) POLL_CMD ?n (works st) = None"
    using erase_obj_Some [of "Some d" POLL_CMD ?n "works st"]
    by (cases "erase_obj (Some d) POLL_CMD ?n (works st)") (auto simp: sched_def)
  let ?st = "st\<lparr>pt_now := pt_now st + cmd_new_upd ?c, works := insert_work ?w (works st), tune_ctr := 0,
      rem_upd := [(cmd_new_upd ?c, ?n)]\<rparr>"
  have ex: "execute_cmd env st = Ok (clear_pending ?st)"
    using assms(2-4) c none inv
    by (simp add: execute_cmd_def cmd_upd_period_def upd_in_works_def erase_found_def add_insert_in_list_def
        insert_in_list_def Let_def)
  have "\<exists>st2. one_more_poll srv took [] (clear_pending ?st) = Ok st2 \<and> sched st2 = objs ws"
    if w: "works (clear_pending ?st) = w # ws" "wi_name w = [?n]" "item_ok w" "0 \<le> took" for srv took w ws
  proof -
    define st0 where "st0 = (clear_pending ?st)\<lparr>works := ws\<rparr>"
    obtain w1 st1 where p: "poll_item srv took [] w st0 = Ok (w1, st1)"
      "item_objs w1 = item_objs w" "works st1 = works st0" "same_upds st0 st1"
      by (rule poll_item_fields [OF w(3,4)])
    have "wi_name w1 = [?n]" using p(2) w(2) by (simp add: item_objs_def map_eq_Cons_conv)
    moreover have "auto_upd st1 = []" "rem_upd st1 = [(cmd_new_upd ?c, ?n)]"
      using p(4) inv by (simp_all add: same_upds_def clear_pending_def st0_def)
    ultimately have "works (reschedule w1 st1) = ws"
      using p(3) by (simp add: reschedule_def drop_names_def plan_rest_def st0_def)
    then show ?thesis using w(1) p(1) [unfolded st0_def] by (simp add: one_more_poll_def sched_def Let_def)
  qed
  then show ?thesis
    using ex by (auto simp: sched_def trig_def work_simps item_objs_def clear_pending_def)
qed

text \<open>
  A wait that ends without a command while nothing is polled, which condition
  variables allow, makes the thread take the first item of an empty list.
\<close>

theorem poll_spurious_wakeup:
  assumes "works st = []" "pt_sleep st \<noteq> Some 0" "\<not> cmd_pending (in_arrived i)" "\<not> trigger (in_arrived i)"
    "\<not> cmd_pending (in_entry i)" "\<not> trigger (in_entry i)"
  shows "get_command (in_entry i) (in_arrived i) st = (POLL_TIME_OUT, Wait_ever, st\<lparr>shared_cmd := in_arrived i\<rparr>) \<and>
    run_turn srv i st = Some Undef"
  using assms by (simp add: get_command_def run_turn_def one_more_poll_def Let_def)

section \<open>Witnesses\<close>

text \<open>
  A server with two devices of release 5 with a polled command each, and the first
  commands of a life of the thread that polls them.
\<close>

definition ex_obj :: "int \<Rightarrow> polled_obj" where
  "ex_obj u = \<lparr>po_type = POLL_CMD, po_name = ''IOState'', po_upd = u\<rparr>"

definition ex_server :: poll_server where
  "ex_server = \<lparr>srv_dev = (\<lambda>_. \<lparr>dev_idl_version = 5, poll_obj_list = [ex_obj 1000000000, ex_obj 0]\<rparr>),
    zmq_subscribed = Some True, notifd_subscribed = None\<rparr>"

definition ex_cmd :: "PollCmdCode \<Rightarrow> int \<Rightarrow> PollThCmd" where
  "ex_cmd code i = \<lparr>cmd_pending = True, trigger = False, cmd_code = code, cmd_dev = Some 1, cmd_index = i,
    cmd_name = ''IOState'', cmd_type = POLL_CMD, cmd_new_upd = 0\<rparr>"

definition ex_idle :: PollThCmd where
  "ex_idle = (ex_cmd POLL_ADD_OBJ 0)\<lparr>cmd_pending := False\<rparr>"

definition ex_input :: "PollThCmd \<Rightarrow> int \<Rightarrow> turn_input" where
  "ex_input c t = \<lparr>in_entry = c, in_arrived = c, in_now = t, in_after = t + 1000, in_took = 500, in_acts = []\<rparr>"

definition ex_fresh :: PollThread where
  "ex_fresh = run_start 0 (PollThread_new ex_idle ex_idle False)"

lemmas ex_defs = ex_obj_def ex_server_def ex_cmd_def ex_idle_def ex_input_def ex_fresh_def

lemma ex_fresh_works: "works ex_fresh = []" "ext_trig_works ex_fresh = []" "polled_of ex_fresh = ({#}, {#})"
  by (simp_all add: ex_defs run_start_def PollThread_new_def polled_defs)

lemmas turn_simps = turn_ok_def turn_received_def turn_cmd_def get_command_def run_turn_def execute_cmd_def
  cmd_add_obj_def cmd_ok_def groups_attr_def retune_def insert_in_list_def tune_if_due_def tune_list_def
  one_more_poll_def poll_item_def reschedule_def plan_next_def
  compute_sleep_time_def late_plan_def clear_pending_def run_start_def PollThread_new_def vec_get_def Let_def
  is_object_def polled_defs item_objs_def DISCARD_THRESHOLD_def is_late_def


definition ex_item :: "nat \<Rightarrow> int \<Rightarrow> WorkItem" where
  "ex_item d t = \<lparr>wi_dev = Some d, wake_up_date = t, wi_update = 1000000000, wi_type = POLL_CMD,
    wi_name = [''IOState''], needed_time = Some 500\<rparr>"

definition ex_trig_item :: WorkItem where
  "ex_trig_item = (ex_item 1 0)\<lparr>wi_update := 0\<rparr>"

definition ex_busy :: PollThread where
  "ex_busy = ex_fresh\<lparr>works := [ex_item 1 100, ex_item 2 200], polling_stop := False, pt_after := 30000000000\<rparr>"

definition ex_upd :: "int \<Rightarrow> WorkItem list \<Rightarrow> PollThread" where
  "ex_upd u ws = ex_fresh\<lparr>works := ws, ext_trig_works := [ex_trig_item],
    local_cmd := (ex_cmd POLL_UPD_PERIOD 1)\<lparr>cmd_new_upd := u\<rparr>\<rparr>"

lemma ex_fresh_fields: "auto_upd ex_fresh = []" "rem_upd ex_fresh = []" "pt_sleep ex_fresh = Some 1000000"
    "pt_now ex_fresh = 0" "pt_calls ex_fresh = []" "polling_bef_9 ex_fresh = False"
  by (simp_all add: ex_defs run_start_def PollThread_new_def)

lemma ex_item_simps: "item_objs (ex_item d t) = [((Some d, POLL_CMD, ''IOState''), 1000000000)]" "item_ok (ex_item d t)"
    "item_objs ex_trig_item = [((Some 1, POLL_CMD, ''IOState''), 0)]" "trig_ok ex_trig_item"
  by (auto simp: ex_item_def ex_trig_item_def item_objs_def item_ok_def trig_ok_def is_object_def)

lemma ex_busy_inv: "pt_inv ex_busy"
  by (auto simp: pt_inv_def ex_busy_def ex_fresh_fields ex_fresh_works ex_item_simps sched_def trig_def)

lemma ex_upd_inv: "pt_inv (ex_upd u [])" "pt_inv (ex_upd u [ex_item 2 t])"
  by (auto simp: pt_inv_def ex_upd_def ex_fresh_fields ex_fresh_works ex_item_simps sched_def trig_def)

theorem poll_next_due_witness:
  "\<exists>st'. one_more_poll ex_server 500 [] ex_busy = Ok st' \<and> pt_calls st' = [Cmd_polled 1 ''IOState'']"
  using poll_next_due [OF ex_busy_inv, of "ex_item 1 100" "[ex_item 2 200]" 500 ex_server]
  by (auto simp: ex_busy_def ex_item_def ex_fresh_fields)

theorem poll_discard_catches_up_witness:
  "\<exists>st'. discard_loop ex_busy = Some st' \<and>
    mset (works st') = {#ex_item 1 30000000100, ex_item 2 30000000200#}"
proof -
  have "sorted (map wake_up_date (works ex_busy))" by (simp add: ex_busy_def ex_item_def)
  moreover have "image_mset (catch_up (pt_after ex_busy)) (mset (works ex_busy)) = {#ex_item 1 30000000100, ex_item 2 30000000200#}"
    by (simp add: ex_busy_def catch_up_def is_late_def ex_item_def DISCARD_THRESHOLD_def)
  ultimately show ?thesis using poll_discard_catches_up [OF ex_busy_inv] by auto
qed


theorem poll_sleep_until_next_witness:
  "\<exists>st'. compute_sleep_time (ex_busy\<lparr>pt_after := 0\<rparr>) = Some st' \<and> pt_sleep st' = Some 100"
proof -
  let ?st = "ex_busy\<lparr>pt_after := 0\<rparr>"
  have inv: "pt_inv ?st" using ex_busy_inv by (simp add: pt_inv_def sched_def trig_def)
  have c: "compute_sleep_time ?st = Some (?st\<lparr>previous_nb_late := 0, pt_sleep := Some 100\<rparr>)"
    by (simp add: compute_sleep_time_def late_plan_def ex_busy_def ex_item_def is_late_def DISCARD_THRESHOLD_def Let_def)
  have "works ?st \<noteq> []" by (simp add: ex_busy_def)
  from poll_sleep_until_next [OF inv this] c show ?thesis by simp
qed

theorem poll_zero_period_hangs_witness:
  "\<exists>st'. execute_cmd (srv_dev ex_server) (ex_upd 0 []) = Ok st' \<and>
    compute_sleep_time (st'\<lparr>pt_after := 20000001\<rparr>) = None"
  using poll_zero_period_hangs [OF ex_upd_inv(1), of 0 1 "srv_dev ex_server" 20000001]
  by (auto simp: ex_upd_def ex_defs ex_item_simps ex_fresh_works ex_fresh_fields vec_get_def
      trig_def DISCARD_THRESHOLD_def run_start_def PollThread_new_def)

theorem poll_triggered_twice_witness:
  "\<exists>st' st2. execute_cmd (srv_dev ex_server) (ex_upd 3000000000 [ex_item 2 10]) = Ok st' \<and>
    trig st' = {#(Some 1, POLL_CMD, ''IOState'')#} \<and>
    one_more_poll ex_server 500 [] st' = Ok st2 \<and>
    sched st2 = {#((Some 1, POLL_CMD, ''IOState''), 3000000000)#}"
proof -
  let ?st = "ex_upd 3000000000 [ex_item 2 10]"
  have t: "trig ?st = {#(Some 1, POLL_CMD, ''IOState'')#}" by (simp add: ex_upd_def trig_def ex_item_simps)
  obtain st' where st': "execute_cmd (srv_dev ex_server) ?st = Ok st'" "trig st' = trig ?st"
    "\<forall>srv took w ws. works st' = w # ws \<longrightarrow> wi_name w = [''IOState''] \<longrightarrow> item_ok w \<longrightarrow> 0 \<le> took \<longrightarrow>
      (\<exists>st2. one_more_poll srv took [] st' = Ok st2 \<and> sched st2 = objs ws)"
    using poll_triggered_twice [OF ex_upd_inv(2), of 3000000000 10 1 "srv_dev ex_server"] t
    by (auto simp: ex_upd_def ex_cmd_def)
  let ?w = "\<lparr>wi_dev = Some 1, wake_up_date = 3000000000, wi_update = 3000000000, wi_type = POLL_CMD,
      wi_name = [''IOState''], needed_time = Some 0\<rparr>"
  have "works st' = [ex_item 2 10, ?w]"
    using st'(1) by (auto simp: execute_cmd_def ex_upd_def ex_cmd_def cmd_upd_period_def upd_in_works_def
        erase_found_def add_insert_in_list_def insert_in_list_def ex_item_def ex_fresh_fields clear_pending_def Let_def)
  moreover have "objs [?w] = {#((Some 1, POLL_CMD, ''IOState''), 3000000000)#}" by (simp add: item_objs_def)
  moreover have "wi_name (ex_item 2 10) = [''IOState'']" by (simp add: ex_item_def)
  ultimately show ?thesis using st' t ex_item_simps(2) [of 2 10] by (metis zero_le_numeral)
qed

theorem poll_spurious_wakeup_witness:
  "run_turn ex_server (ex_input ex_idle 0) ex_fresh = Some Undef"
  using poll_spurious_wakeup [of ex_fresh "ex_input ex_idle 0" ex_server]
  by (simp add: ex_fresh_works ex_fresh_fields ex_input_def ex_idle_def ex_cmd_def)

end
