(* ===== verification/Poll_Pool.thy ===== *)
theory Poll_Pool
  imports Tango_Prelude "HOL-Library.List_Lexorder" "HOL-Library.Char_ord"
begin

text \<open>
  The pool of polling threads (\<open>utils_polling.cpp\<close>): the configuration that says
  which devices share a thread, one string of comma separated names per thread, the map
  from devices to threads, and the choice of the thread of a newly polled device.
\<close>

section \<open>The configuration\<close>

function split_string :: "char \<Rightarrow> string \<Rightarrow> string list" where
  "split_string delim s =
    (case find_char delim s of
       None \<Rightarrow> [s]
     | Some pos \<Rightarrow> take pos s # split_string delim (drop (pos + 1) s))"
  by pat_completeness auto

termination
  by (relation "measure (length \<circ> snd)") (auto dest: find_char_Some_less)

declare split_string.simps [simp del]

text \<open>
  Whether a name stands in an entry: the searches look at the first place where the name
  occurs in the entry, and compare its length with that of the rest of the name there.
\<close>

definition entry_has :: "string \<Rightarrow> string \<Rightarrow> bool" where
  "entry_has dev_name tmp =
    (case find_str dev_name tmp of
       None \<Rightarrow> False
     | Some pos \<Rightarrow>
         (case find_from (CHR '','') pos tmp of
            Some end_pos \<Rightarrow> end_pos - pos
          | None \<Rightarrow> length tmp - pos) = length dev_name)"

fun entry_index :: "string \<Rightarrow> string list \<Rightarrow> nat option" where
  "entry_index dev_name [] = None"
| "entry_index dev_name (e # es) =
    (if entry_has dev_name e then Some 0 else map_option Suc (entry_index dev_name es))"

definition get_dev_entry_in_pool_conf :: "string \<Rightarrow> string list \<Rightarrow> int" where
  "get_dev_entry_in_pool_conf dev_name conf =
    (case entry_index dev_name conf of Some i \<Rightarrow> int i | None \<Rightarrow> - 1)"

definition get_th_polled_devs :: "string \<Rightarrow> string list \<Rightarrow> nat \<times> string list" where
  "get_th_polled_devs dev conf =
    (case entry_index dev (map lower conf) of
       Some i \<Rightarrow> (i, split_string (CHR '','') (lower (conf ! i)))
     | None \<Rightarrow> (length conf, []))"

text \<open>
  The removal of a device from its entry when its last object is not polled any more
  (\<open>DServer::rem_obj_polling\<close>): the result says whether the thread is to be killed.
\<close>

definition erase_from_entry :: "string \<Rightarrow> string \<Rightarrow> string result" where
  "erase_from_entry dev_name entry =
    (case find_str dev_name entry of
       None \<Rightarrow> Throw Std_out_of_range
     | Some pos \<Rightarrow>
         (if pos + length dev_name \<noteq> length entry
          then Ok (take pos entry @ drop (pos + length dev_name + 1) entry)
          else if pos = 0 then Throw Std_out_of_range
          else Ok (take (pos - 1) entry)))"

definition drop_from_conf :: "string \<Rightarrow> string list \<Rightarrow> (bool \<times> string list) result" where
  "drop_from_conf dev_name conf =
    (let ind = get_dev_entry_in_pool_conf dev_name conf in
     if ind = - 1 then Throw (DevFailed ''API_NotSupported''
        (''Can't find entry for device '' @ dev_name @ '' in polling threads pool configuration !''))
     else rbind (vec_get conf ind) (\<lambda>conf_entry.
       if find_char (CHR '','') conf_entry \<noteq> None
       then rbind (erase_from_entry dev_name conf_entry) (\<lambda>e.
         rbind (vec_set conf ind e) (\<lambda>conf'. Ok (False, conf')))
       else Ok (True, take (nat ind) conf @ drop (nat ind + 1) conf)))"

fun join_devs :: "string list \<Rightarrow> string" where
  "join_devs [] = []"
| "join_devs [n] = n"
| "join_devs (n # m # ns) = n @ CHR '','' # join_devs (m # ns)"


section \<open>Threads\<close>

record PollingThreadInfo =
  thread_id :: int
  polled_devices :: "string list"
  nb_polled_objects :: int
  smallest_upd :: int

text \<open>
  The map from devices to threads is a \<open>std::map\<close>: it is searched by key and walked
  in the order of its keys, and an insertion of a key it has changes nothing.
\<close>

type_synonym th_map = "(string \<times> int) list"

fun map_insert :: "string \<Rightarrow> int \<Rightarrow> th_map \<Rightarrow> th_map" where
  "map_insert k v [] = [(k, v)]"
| "map_insert k v ((l, w) # m) =
    (if k < l then (k, v) # (l, w) # m else if k = l then (l, w) # m else (l, w) # map_insert k v m)"

record poll_pool =
  poll_ths :: "PollingThreadInfo list"
  dev_poll_th_map :: th_map
  poll_pool_conf :: "string list"
  poll_pool_size :: nat

definition build_first_pool_conf :: "poll_pool \<Rightarrow> string list" where
  "build_first_pool_conf p = map (\<lambda>t. join_devs (polled_devices t)) (poll_ths p)"

definition get_polling_thread_id_by_name :: "string \<Rightarrow> poll_pool \<Rightarrow> int" where
  "get_polling_thread_id_by_name dev_name p =
    (case map_of (dev_poll_th_map p) (lower dev_name) of Some i \<Rightarrow> i | None \<Rightarrow> 0)"

definition no_thread :: "int \<Rightarrow> exn" where
  "no_thread th_id = DevFailed ''API_PollingThreadNotFound'' ''There is no polling thread with this ID in the polling threads pool''"

definition get_polling_thread_info_by_id :: "int \<Rightarrow> poll_pool \<Rightarrow> PollingThreadInfo result" where
  "get_polling_thread_info_by_id th_id p =
    (case find (\<lambda>t. thread_id t = th_id) (poll_ths p) of Some t \<Rightarrow> Ok t | None \<Rightarrow> Throw (no_thread th_id))"

fun upd_thread :: "int \<Rightarrow> (PollingThreadInfo \<Rightarrow> PollingThreadInfo) \<Rightarrow> PollingThreadInfo list \<Rightarrow> PollingThreadInfo list" where
  "upd_thread th_id f [] = []"
| "upd_thread th_id f (t # ts) = (if thread_id t = th_id then f t # ts else t # upd_thread th_id f ts)"

definition remove_dev_from_polling_map :: "string \<Rightarrow> poll_pool \<Rightarrow> poll_pool" where
  "remove_dev_from_polling_map dev_name p =
    p\<lparr>dev_poll_th_map := filter (\<lambda>(k, _). k \<noteq> dev_name) (dev_poll_th_map p)\<rparr>"

definition remove_polling_thread_info_by_id :: "int \<Rightarrow> poll_pool \<Rightarrow> poll_pool result" where
  "remove_polling_thread_info_by_id th_id p =
    (if th_id \<in> thread_id ` set (poll_ths p)
     then Ok (p\<lparr>poll_ths := (let ts = poll_ths p in
         takeWhile (\<lambda>t. thread_id t \<noteq> th_id) ts @ tl (dropWhile (\<lambda>t. thread_id t \<noteq> th_id) ts))\<rparr>)
     else Throw (no_thread th_id))"

definition add_dev :: "string \<Rightarrow> PollingThreadInfo \<Rightarrow> PollingThreadInfo" where
  "add_dev dev_name t =
    t\<lparr>polled_devices := polled_devices t @ [dev_name], nb_polled_objects := nb_polled_objects t + 1\<rparr>"

definition min_upd :: "int \<Rightarrow> PollingThreadInfo \<Rightarrow> PollingThreadInfo" where
  "min_upd u t = (if u \<noteq> - 1 then t\<lparr>smallest_upd := min u (smallest_upd t)\<rparr> else t)"

text \<open>
  The thread of the first associated device that has one.
\<close>

fun asso_thread :: "string \<Rightarrow> string list \<Rightarrow> th_map \<Rightarrow> int option" where
  "asso_thread dev_name [] m = None"
| "asso_thread dev_name (d # ds) m =
    (if d = dev_name then asso_thread dev_name ds m
     else case map_of m d of Some i \<Rightarrow> Some i | None \<Rightarrow> asso_thread dev_name ds m)"

fun least_loaded :: "PollingThreadInfo \<Rightarrow> PollingThreadInfo list \<Rightarrow> PollingThreadInfo" where
  "least_loaded b [] = b"
| "least_loaded b (t # ts) = least_loaded (if nb_polled_objects t \<le> nb_polled_objects b then t else b) ts"

definition not_in_pool_map :: exn where
  "not_in_pool_map = DevFailed ''API_PolledDeviceNotInPoolMap'' ''The polling threads pool is full''"

definition not_in_pool_conf :: exn where
  "not_in_pool_conf = DevFailed ''API_PolledDeviceNotInPoolConf'' ''The polling threads pool is full''"

text \<open>
  \<open>new_id\<close> is the identifier the runtime gives to a new thread, \<open>upd\<close> the smallest
  period, minus one when it is not known. The result is the number that tells the caller
  how to change the configuration.
\<close>

definition with_upd :: "(PollingThreadInfo \<Rightarrow> PollingThreadInfo) \<Rightarrow> int \<Rightarrow> poll_pool \<Rightarrow> poll_pool result" where
  "with_upd f th_id p =
    rbind (get_polling_thread_info_by_id th_id p) (\<lambda>_. Ok (p\<lparr>poll_ths := upd_thread th_id f (poll_ths p)\<rparr>))"

definition create_poll_thread :: "int \<Rightarrow> string \<Rightarrow> bool \<Rightarrow> int \<Rightarrow> poll_pool \<Rightarrow> (int \<times> poll_pool) result" where
  "create_poll_thread new_id dev_name startup upd p =
    (let dev = lower dev_name in
     case map_of (dev_poll_th_map p) dev of
       Some th \<Rightarrow>
         (if upd \<noteq> - 1 then rbind (with_upd (min_upd upd) th p) (\<lambda>p'. Ok (- 2, p')) else Ok (- 2, p))
     | None \<Rightarrow>
         (let (ind, asso_devs) = get_th_polled_devs dev (poll_pool_conf p) in
          case asso_thread dev asso_devs (dev_poll_th_map p) of
            Some th \<Rightarrow>
              (let p1 = p\<lparr>dev_poll_th_map := map_insert dev th (dev_poll_th_map p)\<rparr> in
               if length (poll_ths p) \<noteq> poll_pool_size p
               then rbind (with_upd (\<lambda>t. min_upd upd (add_dev dev t)) th p1) (\<lambda>p2. Ok (int ind, p2))
               else if upd \<noteq> - 1
               then rbind (with_upd (\<lambda>t. min_upd upd (add_dev dev t)) th p1) (\<lambda>p2. Ok (int ind, p2))
               else Ok (int ind, p1))
          | None \<Rightarrow>
              (if length (poll_ths p) \<noteq> poll_pool_size p
               then Ok (- 1, p\<lparr>poll_ths := poll_ths p @
                      [\<lparr>thread_id = new_id, polled_devices = [dev], nb_polled_objects = 1,
                        smallest_upd = (if upd \<noteq> - 1 then upd else 0)\<rparr>],
                    dev_poll_th_map := map_insert dev new_id (dev_poll_th_map p)\<rparr>)
               else case poll_ths p of
                   [] \<Rightarrow> Undef
                 | t # ts \<Rightarrow>
                     (let lower_th = thread_id (least_loaded t (t # ts)) in
                      case find (\<lambda>(k, i). i = lower_th) (dev_poll_th_map p) of
                        None \<Rightarrow> Throw not_in_pool_map
                      | Some (d_name, _) \<Rightarrow>
                          (let ind = get_dev_entry_in_pool_conf d_name (poll_pool_conf p) in
                           if ind = - 1 \<and> \<not> startup then Throw not_in_pool_conf
                           else Ok (ind, p\<lparr>poll_ths := upd_thread lower_th (\<lambda>t. min_upd upd (add_dev dev t)) (poll_ths p),
                                  dev_poll_th_map := map_insert dev lower_th (dev_poll_th_map p)\<rparr>))))))"

section \<open>The configuration as lists of names\<close>

abbreviation comma :: char where
  "comma \<equiv> CHR '',''"

text \<open>
  A name is apart from the others if it occurs in none of them.
\<close>

definition apart :: "string \<Rightarrow> string list \<Rightarrow> bool" where
  "apart dev ns \<longleftrightarrow> dev \<noteq> [] \<and> comma \<notin> set dev \<and>
    (\<forall>n\<in>set ns. comma \<notin> set n \<and> (n = dev \<or> find_str dev n = None))"

definition before_name :: "string list \<Rightarrow> string" where
  "before_name ns = concat (map (\<lambda>n. n @ [comma]) ns)"

definition after_name :: "string list \<Rightarrow> string" where
  "after_name ns = concat (map (\<lambda>n. comma # n) ns)"

lemma join_devs_Cons: "join_devs (n # ns) = n @ after_name ns"
  by (induction ns arbitrary: n) (auto simp: after_name_def)

lemma join_devs_split: "join_devs (as @ n # bs) = before_name as @ n @ after_name bs"
proof (induction as)
  case (Cons a as)
  have "join_devs (a # as @ n # bs) = a @ comma # join_devs (as @ n # bs)"
    by (cases "as @ n # bs") auto
  then show ?case using Cons by (simp add: before_name_def)
qed (simp add: join_devs_Cons before_name_def)

lemma split_join_devs:
  assumes "ns \<noteq> []" "\<forall>n\<in>set ns. comma \<notin> set n"
  shows "split_string comma (join_devs ns) = ns"
  using assms
proof (induction ns rule: join_devs.induct)
  case (2 n)
  then show ?case by (simp add: split_string.simps [of comma n] find_char_None_iff [THEN iffD2])
next
  case (3 n m ns)
  then show ?case by (simp add: split_string.simps [of comma "n @ comma # join_devs (m # ns)"])
qed simp

lemma prefix_at_append [simp]: "prefix_at p (p @ s)"
  by (induction p) auto

lemma prefix_at_stop: "c \<notin> set p \<Longrightarrow> prefix_at p (s @ c # r) = prefix_at p s"
  by (induction p s rule: prefix_at.induct) auto

lemma find_str_prefix: "prefix_at p s \<Longrightarrow> find_str p s = Some 0"
  by (cases s) (auto split: if_splits, cases p, auto)

lemma find_str_skip:
  assumes "c \<notin> set p" "p \<noteq> []" "find_str p s = None"
  shows "find_str p (s @ c # r) = map_option (\<lambda>k. length s + 1 + k) (find_str p r)"
  using assms
proof (induction s)
  case Nil
  then show ?case by (cases p) (auto simp: map_option_case split: option.split)
next
  case (Cons x s)
  then show ?case
    using prefix_at_stop [of c p "x # s" r]
    by (auto simp: option.map_comp comp_def split: if_splits)
qed

lemma find_str_before:
  assumes "apart dev as" "dev \<notin> set as"
  shows "find_str dev (before_name as @ s) = map_option (\<lambda>k. length (before_name as) + k) (find_str dev s)"
  using assms
proof (induction as)
  case (Cons a as)
  then have "find_str dev (a @ comma # before_name as @ s) =
      map_option (\<lambda>k. length a + 1 + k) (find_str dev (before_name as @ s))"
    by (intro find_str_skip) (auto simp: apart_def)
  moreover have "find_str dev (before_name as @ s) = map_option (\<lambda>k. length (before_name as) + k) (find_str dev s)"
    using Cons by (auto simp: apart_def)
  ultimately show ?case by (simp add: before_name_def option.map_comp comp_def add.assoc)
next
  case Nil
  then show ?case by (cases "find_str dev s") (simp_all add: before_name_def)
qed

lemma find_str_listed:
  assumes "apart dev (as @ dev # bs)" "dev \<notin> set as"
  shows "find_str dev (join_devs (as @ dev # bs)) = Some (length (before_name as))"
proof -
  have "apart dev as" using assms(1) by (simp add: apart_def)
  from find_str_before [OF this assms(2), of "dev @ after_name bs"] show ?thesis
    by (simp add: join_devs_split find_str_prefix)
qed

lemma find_str_not_listed:
  assumes "apart dev ns" "dev \<notin> set ns"
  shows "find_str dev (join_devs ns) = None"
proof (cases ns rule: rev_cases)
  case Nil
  then show ?thesis using assms by (simp add: apart_def)
next
  case (snoc as n)
  then have "find_str dev n = None" "apart dev as" "dev \<notin> set as" using assms by (auto simp: apart_def)
  then show ?thesis
    using find_str_before [of dev as n] snoc by (simp add: join_devs_split [of as n "[]"] after_name_def)
qed

lemma entry_has_listed:
  assumes "apart dev ns"
  shows "entry_has dev (join_devs ns) \<longleftrightarrow> dev \<in> set ns"
proof (cases "dev \<in> set ns")
  case True
  then obtain as bs where ns: "ns = as @ dev # bs" "dev \<notin> set as" by (meson split_list_first)
  have c: "comma \<notin> set dev" using assms by (simp add: apart_def)
  have f: "find_str dev (join_devs ns) = Some (length (before_name as))"
    using find_str_listed assms ns by simp
  show ?thesis
  proof (cases bs)
    case Nil
    then show ?thesis using f c ns
      by (simp add: entry_has_def join_devs_split find_from_def after_name_def find_char_None_iff [THEN iffD2])
  next
    case (Cons b bs')
    then show ?thesis using f c ns
      by (simp add: entry_has_def join_devs_split find_from_def after_name_def)
  qed
next
  case False
  then show ?thesis using find_str_not_listed [OF assms] by (simp add: entry_has_def)
qed

lemma erase_from_entry_listed:
  assumes "apart dev ns" "dev \<in> set ns" "2 \<le> length ns"
  shows "erase_from_entry dev (join_devs ns) = Ok (join_devs (remove1 dev ns))"
proof -
  obtain as bs where ns: "ns = as @ dev # bs" "dev \<notin> set as" using assms(2) by (meson split_list_first)
  have f: "find_str dev (join_devs ns) = Some (length (before_name as))"
    using find_str_listed assms(1) ns by simp
  have r: "remove1 dev ns = as @ bs" using ns by (simp add: remove1_append)
  show ?thesis
  proof (cases bs)
    case Nil
    then obtain as' a where as: "as = as' @ [a]" using assms(3) ns by (cases as rule: rev_cases) auto
    have "before_name as = join_devs as @ [comma]"
      using as by (simp add: join_devs_split [of as' a "[]"] before_name_def after_name_def)
    then show ?thesis using f ns Nil r by (simp add: erase_from_entry_def join_devs_split after_name_def)
  next
    case (Cons b bs')
    then show ?thesis using f ns r by (simp add: erase_from_entry_def join_devs_split after_name_def)
  qed
qed

lemma entry_index_skip:
  "\<forall>ns\<in>set ls. apart dev ns \<and> dev \<notin> set ns \<Longrightarrow>
   entry_index dev (map join_devs ls @ es) = map_option (\<lambda>k. length ls + k) (entry_index dev es)"
  by (cases "entry_index dev es"; induction ls) (auto simp: entry_has_listed)

lemma entry_index_listed:
  assumes "\<forall>ms\<in>set ls. apart dev ms \<and> dev \<notin> set ms" "apart dev ns" "dev \<in> set ns"
  shows "get_dev_entry_in_pool_conf dev (map join_devs (ls @ ns # ls')) = int (length ls)"
  using entry_index_skip [OF assms(1), of "join_devs ns # map join_devs ls'"] assms(2,3)
  by (simp add: get_dev_entry_in_pool_conf_def entry_has_listed)

lemma comma_in_join: "\<forall>n\<in>set ns. comma \<notin> set n \<Longrightarrow> ns \<noteq> [] \<Longrightarrow> comma \<in> set (join_devs ns) \<longleftrightarrow> 2 \<le> length ns"
  by (induction ns rule: join_devs.induct) auto

text \<open>
  The configuration of the pool is a list of lists of names: splitting an entry gives
  back the names it was made of; and if the name of a device occurs in no other name,
  removing the device takes exactly its name out of the first entry that lists it, the
  whole entry, with its thread, if it was the only one, and fails if no entry lists it.
\<close>

theorem pool_conf_remove:
  assumes "\<forall>ns\<in>set ls. ns \<noteq> [] \<and> apart dev ns"
  shows "(\<forall>ns\<in>set ls. split_string comma (join_devs ns) = ns) \<and>
    (\<forall>ls1 ns ls2. ls = ls1 @ ns # ls2 \<longrightarrow> dev \<in> set ns \<longrightarrow> (\<forall>ms\<in>set ls1. dev \<notin> set ms) \<longrightarrow>
      drop_from_conf dev (map join_devs ls) =
        Ok (if ns = [dev] then (True, map join_devs (ls1 @ ls2))
            else (False, map join_devs (ls1 @ remove1 dev ns # ls2)))) \<and>
    ((\<forall>ns\<in>set ls. dev \<notin> set ns) \<longrightarrow> (\<exists>d. drop_from_conf dev (map join_devs ls) = Throw (DevFailed ''API_NotSupported'' d)))"
proof (intro conjI allI impI)
  show "\<forall>ns\<in>set ls. split_string comma (join_devs ns) = ns"
    using assms split_join_devs by (auto simp: apart_def)
next
  fix ls1 ns ls2
  assume ls: "ls = ls1 @ ns # ls2" and dev: "dev \<in> set ns" and first: "\<forall>ms\<in>set ls1. dev \<notin> set ms"
  have ap: "apart dev ns" "ns \<noteq> []" using assms ls by auto
  have ind: "get_dev_entry_in_pool_conf dev (map join_devs ls) = int (length ls1)"
    using entry_index_listed [of ls1 dev ns ls2] assms ls dev first by auto
  have e: "vec_get (map join_devs ls) (int (length ls1)) = Ok (join_devs ns)"
    using ls by (simp add: vec_get_def nth_append)
  have c: "find_char comma (join_devs ns) \<noteq> None \<longleftrightarrow> 2 \<le> length ns"
    using comma_in_join [OF _ ap(2)] ap(1) by (auto simp: find_char_None_iff apart_def)
  have one: "ns = [dev] \<longleftrightarrow> \<not> 2 \<le> length ns" using dev by (cases ns; cases "tl ns") auto
  show "drop_from_conf dev (map join_devs ls) =
      Ok (if ns = [dev] then (True, map join_devs (ls1 @ ls2))
          else (False, map join_devs (ls1 @ remove1 dev ns # ls2)))"
  proof (cases "2 \<le> length ns")
    case True
    have "vec_set (map join_devs ls) (int (length ls1)) x = Ok (map join_devs ls1 @ x # map join_devs ls2)" for x
      using ls by (simp add: vec_set_def list_update_append)
    then show ?thesis
      using True one c ind e erase_from_entry_listed [OF ap(1) dev True] by (simp add: drop_from_conf_def Let_def)
  next
    case False
    then show ?thesis using one c ind e ls by (simp add: drop_from_conf_def Let_def)
  qed
next
  assume none: "\<forall>ns\<in>set ls. dev \<notin> set ns"
  have "entry_index dev (map join_devs ls) = None"
    using entry_index_skip [of ls dev "[]"] assms none by auto
  then show "\<exists>d. drop_from_conf dev (map join_devs ls) = Throw (DevFailed ''API_NotSupported'' d)"
    by (simp add: drop_from_conf_def get_dev_entry_in_pool_conf_def)
qed

text \<open>
  The search for a device in the configuration is misled by names that contain
  its own. A device whose name begins the name of a device listed before it in the same
  entry, such as number 1 after number 10, is not found, so that the removal of its last
  polled object fails; and a device whose name ends the name of another one makes the
  entry of that other device disappear and stays in the configuration itself.
\<close>

theorem pool_conf_similar_names:
  assumes "dev \<noteq> []" "comma \<notin> set dev"
  shows "(\<forall>x xs. comma \<notin> set (x # xs) \<longrightarrow>
      (\<exists>d. drop_from_conf dev [join_devs [dev @ x # xs, dev]] = Throw (DevFailed ''API_NotSupported'' d))) \<and>
    (\<forall>a. comma \<notin> set a \<longrightarrow> find_str dev (a @ dev) = Some (length a) \<longrightarrow>
      drop_from_conf dev [a @ dev, dev] = Ok (True, [dev]))"
proof (intro conjI allI impI)
  fix x xs
  assume c: "comma \<notin> set (x # xs)"
  have "find_char comma (dev @ x # xs @ comma # dev) = Some (length (dev @ x # xs))"
    using find_char_append [of comma "dev @ x # xs" dev] c assms by simp
  then have "\<not> entry_has dev (join_devs [dev @ x # xs, dev])"
    by (simp add: entry_has_def find_str_prefix find_from_def)
  then show "\<exists>d. drop_from_conf dev [join_devs [dev @ x # xs, dev]] = Throw (DevFailed ''API_NotSupported'' d)"
    by (simp add: drop_from_conf_def get_dev_entry_in_pool_conf_def del: join_devs.simps)
next
  fix a
  assume a: "comma \<notin> set a" "find_str dev (a @ dev) = Some (length a)"
  then have "entry_has dev (a @ dev)" using assms
    by (simp add: entry_has_def find_from_def find_char_None_iff [THEN iffD2])
  then show "drop_from_conf dev [a @ dev, dev] = Ok (True, [dev])"
    using a assms by (simp add: drop_from_conf_def get_dev_entry_in_pool_conf_def vec_get_def find_char_None_iff [THEN iffD2])
qed


section \<open>The threads of the pool\<close>

definition ids :: "poll_pool \<Rightarrow> int set" where
  "ids p = thread_id ` set (poll_ths p)"

definition pool_ok :: "poll_pool \<Rightarrow> bool" where
  "pool_ok p \<longleftrightarrow> distinct (map thread_id (poll_ths p)) \<and> snd ` set (dev_poll_th_map p) \<subseteq> ids p \<and>
    length (poll_ths p) \<le> poll_pool_size p"

lemma map_of_insert: "map_of m k = None \<Longrightarrow> map_of (map_insert k v m) = (map_of m)(k \<mapsto> v)"
proof (induction k v m rule: map_insert.induct)
  case (2 k v l w m)
  then show ?case by (auto simp: fun_eq_iff)
qed auto

lemma set_map_insert: "snd ` set (map_insert k v m) \<subseteq> insert v (snd ` set m)"
  by (induction k v m rule: map_insert.induct) auto

lemma upd_thread_ids: "(\<And>t. thread_id (f t) = thread_id t) \<Longrightarrow> map thread_id (upd_thread i f ts) = map thread_id ts"
  by (induction ts) auto

lemma length_upd_thread [simp]: "length (upd_thread i f ts) = length ts"
  by (induction ts) auto

lemma thread_id_upd [simp]: "thread_id (min_upd u t) = thread_id t" "thread_id (add_dev d t) = thread_id t"
  by (simp_all add: min_upd_def add_dev_def)

lemma asso_thread_mapped: "asso_thread d ds m = Some i \<Longrightarrow> i \<in> snd ` set m"
  by (induction ds) (force dest: map_of_SomeD split: if_splits option.splits)+

lemma least_loaded_min:
  "least_loaded b ts \<in> insert b (set ts) \<and> (\<forall>t\<in>insert b (set ts). nb_polled_objects (least_loaded b ts) \<le> nb_polled_objects t)"
proof (induction ts arbitrary: b)
  case (Cons t ts)
  show ?case
    using Cons.IH [of t] Cons.IH [of b] by (cases "nb_polled_objects t \<le> nb_polled_objects b") fastforce+
qed simp

lemma with_upd_ok:
  assumes "i \<in> ids p"
  shows "with_upd f i p = Ok (p\<lparr>poll_ths := upd_thread i f (poll_ths p)\<rparr>)"
proof -
  have "find (\<lambda>t. thread_id t = i) (poll_ths p) \<noteq> None" using assms by (auto simp: find_None_iff ids_def)
  then show ?thesis by (auto simp: with_upd_def get_polling_thread_info_by_id_def)
qed

lemma pool_ok_assign:
  assumes "pool_ok p" "i \<in> ids p" "\<And>t. thread_id (f t) = thread_id t"
  shows "pool_ok (p\<lparr>dev_poll_th_map := map_insert k i (dev_poll_th_map p), poll_ths := upd_thread j f (poll_ths p)\<rparr>)"
    "pool_ok (p\<lparr>dev_poll_th_map := map_insert k i (dev_poll_th_map p)\<rparr>)"
    "ids (p\<lparr>dev_poll_th_map := m, poll_ths := upd_thread j f (poll_ths p)\<rparr>) = ids p"
proof -
  have "set (map thread_id (upd_thread j f (poll_ths p))) = set (map thread_id (poll_ths p))"
    by (simp only: upd_thread_ids [OF assms(3)])
  then have "thread_id ` set (upd_thread j f (poll_ths p)) = thread_id ` set (poll_ths p)" by simp
  then show "pool_ok (p\<lparr>dev_poll_th_map := map_insert k i (dev_poll_th_map p), poll_ths := upd_thread j f (poll_ths p)\<rparr>)"
    "pool_ok (p\<lparr>dev_poll_th_map := map_insert k i (dev_poll_th_map p)\<rparr>)"
    "ids (p\<lparr>dev_poll_th_map := m, poll_ths := upd_thread j f (poll_ths p)\<rparr>) = ids p"
    using assms(1,2) set_map_insert [of k i "dev_poll_th_map p"] upd_thread_ids [OF assms(3), of j "poll_ths p"]
    by (simp_all add: pool_ok_def ids_def) blast+
qed

text \<open>
  \<open>assigned dev p p'\<close>: the device has a thread of the pool now, and no other device
  has changed its thread.
\<close>

definition assigned :: "string \<Rightarrow> poll_pool \<Rightarrow> poll_pool \<Rightarrow> bool" where
  "assigned dev p p' \<longleftrightarrow> pool_ok p' \<and> (\<exists>i\<in>ids p'. map_of (dev_poll_th_map p') dev = Some i) \<and>
    (\<forall>d. d \<noteq> dev \<longrightarrow> map_of (dev_poll_th_map p') d = map_of (dev_poll_th_map p) d)"

lemma assigned_known:
  assumes "pool_ok p" "map_of (dev_poll_th_map p) dev = Some th"
  shows "th \<in> ids p" "assigned dev p p" "assigned dev p (p\<lparr>poll_ths := upd_thread th (min_upd u) (poll_ths p)\<rparr>)"
proof -
  show th: "th \<in> ids p" using assms map_of_SomeD [OF assms(2)] by (force simp: pool_ok_def)
  then show "assigned dev p p" using assms by (simp add: assigned_def)
  have "pool_ok (p\<lparr>poll_ths := upd_thread th (min_upd u) (poll_ths p)\<rparr>)"
    "ids (p\<lparr>poll_ths := upd_thread th (min_upd u) (poll_ths p)\<rparr>) = ids p"
    using assms(1) upd_thread_ids [of "min_upd u" th "poll_ths p"]
    by (auto simp: pool_ok_def ids_def simp flip: set_map)
  then show "assigned dev p (p\<lparr>poll_ths := upd_thread th (min_upd u) (poll_ths p)\<rparr>)"
    using assms th by (simp add: assigned_def)
qed

lemma assigned_to:
  assumes "pool_ok p" "i \<in> ids p" "map_of (dev_poll_th_map p) dev = None"
  shows "assigned dev p (p\<lparr>dev_poll_th_map := map_insert dev i (dev_poll_th_map p),
      poll_ths := upd_thread i (\<lambda>t. min_upd u (add_dev dev t)) (poll_ths p)\<rparr>)"
    "assigned dev p (p\<lparr>dev_poll_th_map := map_insert dev i (dev_poll_th_map p)\<rparr>)"
  using assms pool_ok_assign [OF assms(1,2), of "\<lambda>t. min_upd u (add_dev dev t)"] map_of_insert [OF assms(3)]
  by (simp_all add: assigned_def) (simp add: ids_def)

lemma assigned_new:
  assumes "pool_ok p" "map_of (dev_poll_th_map p) dev = None" "thread_id t \<notin> ids p" "length (poll_ths p) \<noteq> poll_pool_size p"
  shows "assigned dev p (p\<lparr>poll_ths := poll_ths p @ [t], dev_poll_th_map := map_insert dev (thread_id t) (dev_poll_th_map p)\<rparr>)"
proof -
  have "pool_ok (p\<lparr>poll_ths := poll_ths p @ [t], dev_poll_th_map := map_insert dev (thread_id t) (dev_poll_th_map p)\<rparr>)"
    using assms(1,3,4) set_map_insert [of dev "thread_id t" "dev_poll_th_map p"]
    by (simp add: pool_ok_def ids_def) blast
  then show ?thesis using map_of_insert [OF assms(2)] by (simp add: assigned_def ids_def)
qed

lemma create_full:
  assumes "pool_ok p" "map_of (dev_poll_th_map p) dev = None" "poll_ths p = t # ts"
    and l: "l = least_loaded t (t # ts)"
    and p': "p' = p\<lparr>poll_ths := upd_thread (thread_id l) (\<lambda>t. min_upd u (add_dev dev t)) (poll_ths p),
      dev_poll_th_map := map_insert dev (thread_id l) (dev_poll_th_map p)\<rparr>"
  shows "assigned dev p p'" "length (poll_ths p') = length (poll_ths p)"
    "\<exists>t\<in>set (poll_ths p). map_of (dev_poll_th_map p') dev = Some (thread_id t) \<and>
       (\<forall>u\<in>set (poll_ths p). nb_polled_objects t \<le> nb_polled_objects u)"
proof -
  have m: "l \<in> set (poll_ths p)" "\<forall>u\<in>set (poll_ths p). nb_polled_objects l \<le> nb_polled_objects u"
    using least_loaded_min [of t "t # ts"] assms(3) l by auto
  then have i: "thread_id l \<in> ids p" by (simp add: ids_def)
  have "p' = p\<lparr>dev_poll_th_map := map_insert dev (thread_id l) (dev_poll_th_map p),
      poll_ths := upd_thread (thread_id l) (\<lambda>t. min_upd u (add_dev dev t)) (poll_ths p)\<rparr>" using p' by simp
  then show "assigned dev p p'" using assigned_to(1) [OF assms(1) i assms(2)] by simp
  show "length (poll_ths p') = length (poll_ths p)" using p' by simp
  show "\<exists>t\<in>set (poll_ths p). map_of (dev_poll_th_map p') dev = Some (thread_id t) \<and>
       (\<forall>u\<in>set (poll_ths p). nb_polled_objects t \<le> nb_polled_objects u)"
    using m p' map_of_insert [OF assms(2)] by auto
qed

text \<open>
  Every polled device has a thread of the pool. With fresh identifiers for new
  threads, assigning a thread to a device keeps every device on a thread that exists and
  the pool within its size; the device gets a thread, no other device changes its
  thread, and a thread is started only when minus one is returned. When the pool
  is full and no associated device has a thread, the device goes to a thread with the
  fewest polled objects.
\<close>

theorem pool_assign_thread:
  assumes "pool_ok p" "new_id \<notin> ids p" "create_poll_thread new_id dev_name startup upd p = Ok (r, p')"
  shows "assigned (lower dev_name) p p' \<and>
    (length (poll_ths p') = length (poll_ths p) \<or>
     r = - 1 \<and> length (poll_ths p) \<noteq> poll_pool_size p \<and> length (poll_ths p') = length (poll_ths p) + 1) \<and>
    (map_of (dev_poll_th_map p) (lower dev_name) = None \<longrightarrow>
     asso_thread (lower dev_name) (snd (get_th_polled_devs (lower dev_name) (poll_pool_conf p))) (dev_poll_th_map p) = None \<longrightarrow>
     length (poll_ths p) = poll_pool_size p \<longrightarrow>
     (\<exists>t\<in>set (poll_ths p). map_of (dev_poll_th_map p') (lower dev_name) = Some (thread_id t) \<and>
       (\<forall>u\<in>set (poll_ths p). nb_polled_objects t \<le> nb_polled_objects u)))"
proof -
  let ?dev = "lower dev_name" and ?m = "dev_poll_th_map p"
  obtain ind asso where g: "get_th_polled_devs ?dev (poll_pool_conf p) = (ind, asso)"
    by (cases "get_th_polled_devs ?dev (poll_pool_conf p)") auto
  consider th where "map_of ?m ?dev = Some th"
    | th where "map_of ?m ?dev = None" "asso_thread ?dev asso ?m = Some th"
    | "map_of ?m ?dev = None" "asso_thread ?dev asso ?m = None" "length (poll_ths p) \<noteq> poll_pool_size p"
    | "map_of ?m ?dev = None" "asso_thread ?dev asso ?m = None" "length (poll_ths p) = poll_pool_size p"
    by (cases "map_of ?m ?dev"; cases "asso_thread ?dev asso ?m") auto
  then show ?thesis
  proof cases
    case (1 th)
    then show ?thesis
      using assms(3) assigned_known [OF assms(1) 1] with_upd_ok [of th p "min_upd upd"]
      by (auto simp: create_poll_thread_def Let_def split: if_splits)
  next
    case (2 th)
    have th: "th \<in> ids p" using asso_thread_mapped [OF 2(2)] assms(1) by (auto simp: pool_ok_def)
    let ?p1 = "p\<lparr>dev_poll_th_map := map_insert ?dev th ?m\<rparr>" and ?f = "\<lambda>t. min_upd upd (add_dev ?dev t)"
    have w: "with_upd ?f th ?p1 = Ok (?p1\<lparr>poll_ths := upd_thread th ?f (poll_ths p)\<rparr>)"
      using with_upd_ok [of th ?p1 ?f] th by (simp add: ids_def)
    show ?thesis
      using assms(3) g 2 w assigned_to [OF assms(1) th 2(1)]
      by (auto simp: create_poll_thread_def Let_def split: if_splits)
  next
    case 3
    let ?t = "\<lparr>thread_id = new_id, polled_devices = [?dev], nb_polled_objects = 1,
        smallest_upd = (if upd \<noteq> - 1 then upd else 0)\<rparr>"
    have "r = - 1" "p' = p\<lparr>poll_ths := poll_ths p @ [?t], dev_poll_th_map := map_insert ?dev (thread_id ?t) ?m\<rparr>"
      using assms(3) g 3 by (auto simp: create_poll_thread_def Let_def)
    then show ?thesis using assms(2) assigned_new [OF assms(1) 3(1) _ 3(3), of ?t] 3(3) by simp
  next
    case 4
    obtain t ts where t: "poll_ths p = t # ts"
      using assms(3) g 4 by (cases "poll_ths p") (auto simp: create_poll_thread_def Let_def)
    have "p' = p\<lparr>poll_ths := upd_thread (thread_id (least_loaded t (t # ts))) (\<lambda>t. min_upd upd (add_dev ?dev t)) (poll_ths p),
        dev_poll_th_map := map_insert ?dev (thread_id (least_loaded t (t # ts))) ?m\<rparr>"
      using assms(3) g 4 t
      by (auto simp: create_poll_thread_def Let_def simp del: least_loaded.simps upd_thread.simps split: option.splits if_splits)
    from create_full [OF assms(1) 4(1) t refl this] show ?thesis by simp
  qed
qed

section \<open>Witnesses\<close>

definition ex_pool :: poll_pool where
  "ex_pool = \<lparr>poll_ths = [\<lparr>thread_id = 7, polled_devices = [''sys/tg/1''], nb_polled_objects = 4, smallest_upd = 0\<rparr>,
      \<lparr>thread_id = 9, polled_devices = [''sys/tg/2''], nb_polled_objects = 2, smallest_upd = 0\<rparr>],
    dev_poll_th_map = [(''sys/tg/1'', 7), (''sys/tg/2'', 9)],
    poll_pool_conf = [''sys/tg/1'', ''sys/tg/2''], poll_pool_size = 2\<rparr>"

theorem pool_assign_thread_witness:
  "\<exists>r p'. create_poll_thread 11 ''Sys/TG/3'' False (- 1) ex_pool = Ok (r, p') \<and> r = 1 \<and>
    map_of (dev_poll_th_map p') ''sys/tg/3'' = Some 9 \<and> assigned ''sys/tg/3'' ex_pool p'"
proof -
  have ok: "pool_ok ex_pool" "11 \<notin> ids ex_pool" by (simp_all add: pool_ok_def ids_def ex_pool_def)
  have l: "lower ''Sys/TG/3'' = ''sys/tg/3''" by code_simp
  obtain p' where p': "create_poll_thread 11 ''Sys/TG/3'' False (- 1) ex_pool = Ok (1, p')"
    "map_of (dev_poll_th_map p') ''sys/tg/3'' = Some 9"
  proof
    show "create_poll_thread 11 ''Sys/TG/3'' False (- 1) ex_pool =
        Ok (1, ex_pool\<lparr>poll_ths := upd_thread 9 (\<lambda>t. min_upd (- 1) (add_dev ''sys/tg/3'' t)) (poll_ths ex_pool),
          dev_poll_th_map := map_insert ''sys/tg/3'' 9 (dev_poll_th_map ex_pool)\<rparr>)"
      by (simp add: create_poll_thread_def l Let_def) code_simp
  qed code_simp
  from pool_assign_thread [OF ok p'(1), unfolded l] p' show ?thesis by simp
qed

theorem pool_conf_remove_witness:
  "drop_from_conf ''sys/tg/2'' [''sys/tg/1,sys/tg/2'', ''sys/tg/3''] = Ok (False, [''sys/tg/1'', ''sys/tg/3''])"
proof -
  let ?ls = "[[''sys/tg/1'', ''sys/tg/2''], [''sys/tg/3'']]"
  have "\<forall>ns\<in>set ?ls. ns \<noteq> [] \<and> apart ''sys/tg/2'' ns" by (simp add: apart_def)
  from conjunct1 [OF conjunct2 [OF pool_conf_remove [OF this]], rule_format, of "[]" "[''sys/tg/1'', ''sys/tg/2'']" "[[''sys/tg/3'']]"]
  show ?thesis by simp
qed

theorem pool_conf_similar_names_witness:
  "(\<exists>d. drop_from_conf ''sys/tg/1'' [''sys/tg/10,sys/tg/1''] = Throw (DevFailed ''API_NotSupported'' d)) \<and>
   drop_from_conf ''lab/x/1'' [''mylab/x/1'', ''lab/x/1''] = Ok (True, [''lab/x/1''])"
proof -
  have 1: "''sys/tg/1'' \<noteq> []" "comma \<notin> set ''sys/tg/1''" and 2: "''lab/x/1'' \<noteq> []" "comma \<notin> set ''lab/x/1''" by simp_all
  from pool_conf_similar_names [OF 1, THEN conjunct1, rule_format, of "CHR ''0''" "[]"]
    pool_conf_similar_names [OF 2, THEN conjunct2, rule_format, of "''my''"]
  show ?thesis by simp
qed

end
