(* ===== verification/Poll_Admin.thy ===== *)
theory Poll_Admin
  imports Poll_Thread Poll_Pool Device_Lock
begin

text \<open>
  The polling commands of the administration device (\<open>dserverpoll.cpp\<close>): adding an
  object to be polled, changing its period, removing it, starting and stopping the
  threads, and the triggers sent by \<open>Util\<close>. They check the request, keep the list
  of polled objects of the device and its polling properties, and send commands to the
  polling thread of the device. The last section composes them with the thread.
\<close>

section \<open>State\<close>

text \<open>
  A device as the polling commands see it. A command has its name in lower case and
  whether it needs an argument, an attribute its name in lower case, whether it is
  forwarded, and the polling period it remembers.
\<close>

record admin_dev = polled_dev +
  adev_lock :: lock_dev
  is_polled :: bool
  polled_cmd :: "string list"
  polled_attr :: "string list"
  non_auto_polled_cmd :: "string list"
  non_auto_polled_attr :: "string list"
  cmd_min_poll_period :: "string list"
  attr_min_poll_period :: "string list"
  min_poll_period :: int
  command_list :: "(string \<times> bool) list"
  attribute_list :: "(string \<times> bool) list"
  attr_polling_period :: "(string \<times> int) list"

datatype db_action =
    Put_property "nat option" string "string list"
  | Delete_property "nat option" string

text \<open>
  \<open>adm_shared\<close> is the command buffer each polling thread shares with its clients;
  \<open>adm_fired\<close> are the attributes for which an error event was fired. The properties of
  the server itself belong to the device \<open>None\<close>.
\<close>

record poll_adm =
  adm_dev :: "nat \<Rightarrow> admin_dev"
  adm_pool :: poll_pool
  adm_shared :: "int \<Rightarrow> PollThCmd"
  adm_db :: "db_action list"
  adm_fired :: "(nat \<times> string) list"
  use_db :: bool
  svr_shutting_down :: bool
  poll_on :: bool
  adm_status :: string

text \<open>
  What a request meets: the calling thread, its client, the system time, the search of a
  device by its name, the identifier a new thread would get, the depth of the polling
  buffer, and whether a wait for the polling thread times out.
\<close>

record admin_call =
  call_self :: int
  call_client :: "client_addr option"
  call_now :: int
  call_find :: "string \<Rightarrow> nat result"
  call_new_id :: int
  call_depth :: "int result"
  call_timed_out :: bool
  call_start_timed_out :: bool

definition MIN_POLL_PERIOD :: int where
  "MIN_POLL_PERIOD = 5"

definition MaxDevPropLength :: nat where
  "MaxDevPropLength = 255"

definition upd_dev :: "nat \<Rightarrow> (admin_dev \<Rightarrow> admin_dev) \<Rightarrow> poll_adm \<Rightarrow> poll_adm" where
  "upd_dev d f st = st\<lparr>adm_dev := (adm_dev st)(d := f (adm_dev st d))\<rparr>"

definition send_cmd :: "int \<Rightarrow> (PollThCmd \<Rightarrow> PollThCmd) \<Rightarrow> poll_adm \<Rightarrow> poll_adm" where
  "send_cmd th f st = st\<lparr>adm_shared := (adm_shared st)(th := (f (adm_shared st th))\<lparr>cmd_pending := True\<rparr>)\<rparr>"

text \<open>
  The polling thread has taken the command and has executed it.
\<close>

definition cmd_done :: "int \<Rightarrow> poll_adm \<Rightarrow> poll_adm" where
  "cmd_done th st = st\<lparr>adm_shared := (adm_shared st)(th := (adm_shared st th)\<lparr>cmd_pending := False\<rparr>)\<rparr>"

definition put_db :: "bool \<Rightarrow> db_action \<Rightarrow> poll_adm \<Rightarrow> poll_adm" where
  "put_db with_db_upd a st = (if with_db_upd \<and> use_db st then st\<lparr>adm_db := adm_db st @ [a]\<rparr> else st)"


section \<open>Checks of a request\<close>

text \<open>
  The suffix \<open>_local\<close> of the object type marks a request of the server itself. The
  position of the last occurrence is compared with the length minus six, as unsigned
  numbers: for a type of five characters without the suffix both are the largest number,
  and the erasure at that position throws.
\<close>

definition LOCAL_POLL_REQUEST :: string where
  "LOCAL_POLL_REQUEST = ''_local''"

definition strip_local :: "string \<Rightarrow> (bool \<times> string) result" where
  "strip_local t =
    (if length t = 5 then Throw Std_out_of_range
     else if 6 \<le> length t \<and> drop (length t - 6) t = LOCAL_POLL_REQUEST then Ok (True, take (length t - 6) t)
     else Ok (False, t))"

definition bad_type :: "string \<Rightarrow> 'a result" where
  "bad_type t = Throw (DevFailed ''API_NotSupported'' (''Object type '' @ t @ '' not supported''))"

definition check_command_exists :: "string \<Rightarrow> admin_dev \<Rightarrow> unit result" where
  "check_command_exists n dv =
    (case map_of (command_list dv) n of
       Some needs_input \<Rightarrow>
         (if needs_input
          then Throw (DevFailed ''API_IncompatibleCmdArgumentType''
            (''Command '' @ n @ '' cannot be polled because it needs input value''))
          else Ok ())
     | None \<Rightarrow> Throw (DevFailed ''API_CommandNotFound'' (''Command '' @ n @ '' not found'')))"

definition get_attr_by_name :: "string \<Rightarrow> admin_dev \<Rightarrow> bool result" where
  "get_attr_by_name n dv =
    (case map_of (attribute_list dv) (lower n) of
       Some fwd \<Rightarrow> Ok fwd
     | None \<Rightarrow> Throw (DevFailed ''API_AttrNotFound'' (n @ '' attribute not found'')))"

fun polled_obj_index :: "PollObjType \<Rightarrow> string \<Rightarrow> polled_obj list \<Rightarrow> nat option" where
  "polled_obj_index t n [] = None"
| "polled_obj_index t n (ob # obs) =
    (if po_type ob = t \<and> po_name ob = n then Some 0 else map_option Suc (polled_obj_index t n obs))"

definition get_polled_obj_by_type_name :: "PollObjType \<Rightarrow> string \<Rightarrow> admin_dev \<Rightarrow> nat result" where
  "get_polled_obj_by_type_name t n dv =
    (case polled_obj_index t n (poll_obj_list dv) of
       Some i \<Rightarrow> Ok i
     | None \<Rightarrow> Throw (DevFailed ''API_PollObjNotFound'' (n @ '' not found in list of polled object'')))"

text \<open>
  Reading an \<open>int\<close> from a stream: blanks, a sign and digits, the number within 32 bits.
\<close>

definition read_int :: "string \<Rightarrow> int option" where
  "read_int s =
    (let t = dropWhile is_blank s;
         neg = (t \<noteq> [] \<and> hd t = CHR ''-'');
         u = (if t \<noteq> [] \<and> (hd t = CHR ''-'' \<or> hd t = CHR ''+'') then tl t else t);
         ds = takeWhile is_digit u;
         n = int (digits_value ds);
         v = (if neg then - n else n)
     in if ds = [] \<or> v < - (2 ^ 31) \<or> 2 ^ 31 \<le> v then None else Some v)"

fun index_of :: "string \<Rightarrow> string list \<Rightarrow> nat option" where
  "index_of n [] = None"
| "index_of n (x # xs) = (if x = n then Some 0 else map_option Suc (index_of n xs))"

definition min_period :: "PollObjType \<Rightarrow> string \<Rightarrow> admin_dev \<Rightarrow> int result" where
  "min_period t n dv =
    (let v = (if t = POLL_CMD then cmd_min_poll_period dv else attr_min_poll_period dv) in
     case index_of n v of
       None \<Rightarrow> Ok (min_poll_period dv)
     | Some i \<Rightarrow>
         rbind (vec_get v (int i + 1)) (\<lambda>s.
           case read_int s of
             Some m \<Rightarrow> Ok m
           | None \<Rightarrow> Throw (DevFailed ''API_BadConfigurationProperty'' ''System property has wrong syntax'')))"

definition check_upd_authorized :: "int \<Rightarrow> PollObjType \<Rightarrow> string \<Rightarrow> admin_dev \<Rightarrow> unit result" where
  "check_upd_authorized upd t n dv =
    rbind (min_period t n dv) (\<lambda>min_upd.
      if min_upd \<noteq> 0 \<and> upd < min_upd
      then Throw (DevFailed ''API_MethodArgument'' (''Polling period for '' @ n @ '' is below the min authorized''))
      else Ok ())"

definition find_dev :: "admin_call \<Rightarrow> string \<Rightarrow> nat result" where
  "find_dev c dev_name =
    (case call_find c dev_name of
       Ok d \<Rightarrow> Ok d
     | Throw e \<Rightarrow> Throw (DevFailed ''API_DeviceNotFound'' (''Device '' @ dev_name @ '' not found''))
     | Undef \<Rightarrow> Undef)"

section \<open>Adding an object\<close>

record add_req =
  ar_dev :: nat
  ar_local :: bool
  ar_is_cmd :: bool
  ar_type :: PollObjType
  ar_name :: string
  ar_upd :: int

definition wrong_args :: "'a result" where
  "wrong_args = Throw (DevFailed ''API_WrongNumberOfArgs'' ''Incorrect number of inout arguments'')"

text \<open>
  The kind of the object: the command or attribute must exist, \<open>Init\<close> is refused, and
  since release 3 the state and the status are polled as attributes. The result tells
  whether it was given as a command, its type, and whether it is a forwarded attribute.
\<close>

definition add_kind :: "string \<Rightarrow> string \<Rightarrow> string \<Rightarrow> admin_dev \<Rightarrow> (bool \<times> PollObjType \<times> bool) result" where
  "add_kind obj_type obj_name given dv =
    (if obj_type = ''command''
     then rbind (check_command_exists obj_name dv) (\<lambda>_.
       if obj_name = ''init''
       then Throw (DevFailed ''API_NotSupported'' ''It's not possible to poll the Init command!'')
       else if dev_idl_version dv \<ge> 3 \<and> (obj_name = ''state'' \<or> obj_name = ''status'')
       then Ok (True, POLL_ATTR, False) else Ok (True, POLL_CMD, False))
     else if obj_type = ''attribute''
     then rbind (get_attr_by_name given dv) (\<lambda>fwd. Ok (False, POLL_ATTR, fwd))
     else bad_type obj_type)"

definition already_polled :: "PollObjType \<Rightarrow> string \<Rightarrow> admin_dev \<Rightarrow> bool" where
  "already_polled t n dv \<longleftrightarrow> (\<exists>ob\<in>set (poll_obj_list dv). po_type ob = t \<and> lower (po_name ob) = n)"

definition too_small :: "int \<Rightarrow> 'a result" where
  "too_small upd = Throw (DevFailed ''API_NotSupported'' ''below the min authorized period'')"

definition add_limits :: "admin_call \<Rightarrow> admin_dev \<Rightarrow> add_req \<Rightarrow> bool \<Rightarrow> add_req result" where
  "add_limits c dv a fwd =
    (if already_polled (ar_type a) (ar_name a) dv
     then Throw (DevFailed ''API_AlreadyPolled'' (ar_name a @ '' already polled''))
     else if ar_upd a \<noteq> 0 \<and> ar_upd a < MIN_POLL_PERIOD then too_small (ar_upd a)
     else rbind (if ar_upd a \<noteq> 0 then check_upd_authorized (ar_upd a) (ar_type a) (ar_name a) dv else Ok ()) (\<lambda>_.
       if \<not> ar_is_cmd a \<and> fwd
       then Throw (DevFailed ''API_NotSupportedFeature'' (''Attribute '' @ ar_name a @ '' is a forwarded attribute.''))
       else rbind (call_depth c) (\<lambda>_. Ok a)))"

definition add_checks :: "admin_call \<Rightarrow> DevVarLongStringArray \<Rightarrow> poll_adm \<Rightarrow> add_req result" where
  "add_checks c argin st =
    (if length (svalue argin) \<noteq> 3 \<or> length (lvalue argin) \<noteq> 1 then wrong_args
     else let dev_name = svalue argin ! 0; obj_name = lower (svalue argin ! 2); upd = sint (lvalue argin ! 0) in
       rbind (find_dev c dev_name) (\<lambda>d.
       rbind (check_lock_owner (call_now c) (call_client c) dev_name (adev_lock (adm_dev st d))) (\<lambda>_.
       rbind (strip_local (lower (svalue argin ! 1))) (\<lambda>(local_request, obj_type).
       rbind (add_kind obj_type obj_name (svalue argin ! 2) (adm_dev st d)) (\<lambda>(is_cmd, t, fwd).
         add_limits c (adm_dev st d)
           \<lparr>ar_dev = d, ar_local = local_request, ar_is_cmd = is_cmd, ar_type = t, ar_name = obj_name, ar_upd = upd\<rparr> fwd)))))"

definition push_obj :: "add_req \<Rightarrow> poll_adm \<Rightarrow> poll_adm" where
  "push_obj a st =
    upd_dev (ar_dev a) (\<lambda>dv. dv\<lparr>poll_obj_list := poll_obj_list dv @
      [\<lparr>po_type = ar_type a, po_name = ar_name a, po_upd = ar_upd a * 1000000\<rparr>]\<rparr>) st"

definition pop_obj :: "nat \<Rightarrow> poll_adm \<Rightarrow> poll_adm" where
  "pop_obj d st = upd_dev d (\<lambda>dv. dv\<lparr>poll_obj_list := butlast (poll_obj_list dv)\<rparr>) st"

text \<open>
  The thread in charge of the device, created if there is none: its number and what
  \<open>create_poll_thread\<close> returned, minus two if it was not called.
\<close>

definition dev_thread :: "admin_call \<Rightarrow> string \<Rightarrow> poll_adm \<Rightarrow> (int \<times> int) result \<times> poll_adm" where
  "dev_thread c dev_name st =
    (let th = get_polling_thread_id_by_name dev_name (adm_pool st) in
     if th \<noteq> 0 then (Ok (th, - 2), st)
     else case create_poll_thread (call_new_id c) dev_name False (- 1) (adm_pool st) of
         Ok (created, p) \<Rightarrow> (Ok (get_polling_thread_id_by_name dev_name p, created), st\<lparr>adm_pool := p\<rparr>)
       | Throw e \<Rightarrow> (Throw e, st)
       | Undef \<Rightarrow> (Undef, st))"

definition cmd_timed_out :: "'a result" where
  "cmd_timed_out = Throw (DevFailed ''API_CommandTimedOut'' ''Polling thread blocked !!!'')"

text \<open>
  The command sent to the thread. The caller waits for its execution, unless it is the
  polling thread or the request is a local one. When the wait times out the object is
  taken from the list again, and a thread that was created for it is told to exit.
\<close>

definition add_cmd :: "admin_call \<Rightarrow> add_req \<Rightarrow> int \<Rightarrow> int \<Rightarrow> int \<Rightarrow> poll_adm \<Rightarrow> unit result \<times> poll_adm" where
  "add_cmd c a th created delta_ms st =
    (let st1 = send_cmd th (\<lambda>s. s\<lparr>cmd_code := POLL_ADD_OBJ, cmd_dev := Some (ar_dev a),
                 cmd_index := int (length (poll_obj_list (adm_dev st (ar_dev a)))) - 1,
                 cmd_new_upd := delta_ms * 1000000\<rparr>) st
     in if call_self c = th then (Ok (), cmd_done th st1)
        else if ar_local a then (Ok (), st1)
        else if call_timed_out c
        then (let st2 = pop_obj (ar_dev a) st1 in
              (cmd_timed_out, if created = - 1 then send_cmd th (\<lambda>s. s\<lparr>cmd_code := POLL_EXIT\<rparr>) st2 else st2))
        else (Ok (), cmd_done th st1))"

definition count_obj :: "int \<Rightarrow> poll_adm \<Rightarrow> poll_adm" where
  "count_obj th st =
    st\<lparr>adm_pool := (adm_pool st)\<lparr>poll_ths :=
      upd_thread th (\<lambda>t. t\<lparr>nb_polled_objects := nb_polled_objects t + 1\<rparr>) (poll_ths (adm_pool st))\<rparr>\<rparr>"

text \<open>
  The polling properties: lists of a name and a period each. \<open>set_period\<close> is the loop
  that looks at every second string.
\<close>

definition same_name :: "string \<Rightarrow> string \<Rightarrow> bool" where
  "same_name a b \<longleftrightarrow> lower a = lower b"

fun set_period :: "string \<Rightarrow> string \<Rightarrow> string list \<Rightarrow> string list result" where
  "set_period n u [] = Ok [n, u]"
| "set_period n u [x] = (if same_name x n then Undef else Ok [x])"
| "set_period n u (x # y # r) =
    (if same_name x n then Ok (x # u # r) else rbind (set_period n u r) (\<lambda>r'. Ok (x # y # r')))"

definition obj_props :: "PollObjType \<Rightarrow> admin_dev \<Rightarrow> string list" where
  "obj_props t dv = (if t = POLL_CMD then polled_cmd dv else polled_attr dv)"

definition set_obj_props :: "PollObjType \<Rightarrow> string list \<Rightarrow> admin_dev \<Rightarrow> admin_dev" where
  "set_obj_props t l dv = (if t = POLL_CMD then dv\<lparr>polled_cmd := l\<rparr> else dv\<lparr>polled_attr := l\<rparr>)"

definition non_auto_props :: "PollObjType \<Rightarrow> admin_dev \<Rightarrow> string list" where
  "non_auto_props t dv = (if t = POLL_CMD then non_auto_polled_cmd dv else non_auto_polled_attr dv)"

definition set_non_auto_props :: "PollObjType \<Rightarrow> string list \<Rightarrow> admin_dev \<Rightarrow> admin_dev" where
  "set_non_auto_props t l dv =
    (if t = POLL_CMD then dv\<lparr>non_auto_polled_cmd := l\<rparr> else dv\<lparr>non_auto_polled_attr := l\<rparr>)"

definition add_props :: "add_req \<Rightarrow> bool \<Rightarrow> poll_adm \<Rightarrow> unit result \<times> poll_adm" where
  "add_props a with_db_upd st =
    (let d = ar_dev a; t = ar_type a; dv = adm_dev st d;
         non_auto_list = filter (\<lambda>x. \<not> same_name x (ar_name a)) (non_auto_props t dv);
         found_in_non_auto = (\<exists>x\<in>set (non_auto_props t dv). same_name x (ar_name a));
         st1 = upd_dev d (set_non_auto_props t non_auto_list) st
     in sbind (checked (if found_in_non_auto then Ok (obj_props t dv)
                        else set_period (ar_name a) (dec (nat (ar_upd a))) (obj_props t dv)) st1) (\<lambda>obj_list st1.
       let st2 = upd_dev d (set_obj_props t obj_list) st1;
           act = (if t = POLL_CMD \<and> found_in_non_auto then Put_property (Some d) ''non_auto_polled_cmd'' non_auto_list
                  else if t = POLL_CMD then Put_property (Some d) ''polled_cmd'' obj_list
                  else if found_in_non_auto then Put_property (Some d) ''non_auto_polled_cmd'' non_auto_list
                  else Put_property (Some d) ''polled_attr'' obj_list)
       in (Ok (), put_db with_db_upd act st2)))"

definition start_thread :: "admin_call \<Rightarrow> int \<Rightarrow> poll_adm \<Rightarrow> unit result \<times> poll_adm" where
  "start_thread c th st =
    (let st1 = send_cmd th (\<lambda>s. s\<lparr>cmd_code := POLL_START\<rparr>) st
     in if call_start_timed_out c then (cmd_timed_out, st1) else (Ok (), cmd_done th st1))"

text \<open>
  Entries of the configuration that are longer than a property of the database allows are
  stored in several lines, each but the last ending with a backslash.
\<close>

definition prop_lines :: "string \<Rightarrow> string list" where
  "prop_lines e =
    (let nb_lines = length e div MaxDevPropLength + 1 in
     if nb_lines > 1
     then map (\<lambda>i. take MaxDevPropLength (drop (i * MaxDevPropLength) e) @
                   (if i < nb_lines - 1 then [CHR 0x5C] else [])) [0..<nb_lines]
     else [e])"

definition add_pool_conf :: "string \<Rightarrow> int \<Rightarrow> bool \<Rightarrow> poll_adm \<Rightarrow> unit result \<times> poll_adm" where
  "add_pool_conf dev_name created with_db_upd st =
    (if created = - 2 then (Ok (), st)
     else let conf = poll_pool_conf (adm_pool st); dev = lower dev_name in
       sbind (checked (if created = - 1 then Ok (conf @ [dev])
                       else if created \<ge> 0
                       then rbind (vec_get conf created) (\<lambda>e. vec_set conf created (e @ CHR '','' # dev))
                       else Ok conf) st) (\<lambda>conf' st.
         let st1 = st\<lparr>adm_pool := (adm_pool st)\<lparr>poll_pool_conf := conf'\<rparr>\<rparr>
         in (Ok (), put_db with_db_upd
              (Put_property None ''polling_threads_pool_conf'' (concat (map prop_lines conf'))) st1)))"

definition add_obj_polling ::
    "admin_call \<Rightarrow> DevVarLongStringArray \<Rightarrow> bool \<Rightarrow> int \<Rightarrow> poll_adm \<Rightarrow> unit result \<times> poll_adm" where
  "add_obj_polling c argin with_db_upd delta_ms st =
    sbind (checked (add_checks c argin st) st) (\<lambda>a st.
    sbind (dev_thread c (svalue argin ! 0) (push_obj a st)) (\<lambda>(th, created) st.
    sbind (checked (get_polling_thread_info_by_id th (adm_pool st)) st) (\<lambda>_ st.
    sbind (add_cmd c a th created delta_ms st) (\<lambda>_ st.
    sbind (add_props a with_db_upd (count_obj th st)) (\<lambda>_ st.
    sbind (if created = - 1 then start_thread c th st else (Ok (), st)) (\<lambda>_ st.
    sbind (add_pool_conf (svalue argin ! 0) created with_db_upd st) (\<lambda>_ st.
      (Ok (), upd_dev (ar_dev a) (\<lambda>dv. dv\<lparr>is_polled := True\<rparr>) st))))))))"

section \<open>Changing a period\<close>

text \<open>
  The state and the status are looked for as attributes whatever the release of the
  device.
\<close>

definition named_type :: "string \<Rightarrow> string \<Rightarrow> PollObjType result" where
  "named_type obj_type obj_name =
    (if obj_type = ''command''
     then Ok (if obj_name = ''state'' \<or> obj_name = ''status'' then POLL_ATTR else POLL_CMD)
     else if obj_type = ''attribute'' then Ok POLL_ATTR
     else bad_type obj_type)"

definition not_polled :: "string \<Rightarrow> 'a result" where
  "not_polled dev_name = Throw (DevFailed ''API_DeviceNotPolled'' (''Device '' @ dev_name @ '' is not polled''))"

definition no_thread_for :: "string \<Rightarrow> 'a result" where
  "no_thread_for dev_name =
    Throw (DevFailed ''API_NotSupported'' (''Can't find a polling thread for device '' @ dev_name))"

definition upd_checks :: "admin_call \<Rightarrow> DevVarLongStringArray \<Rightarrow> poll_adm \<Rightarrow> (nat \<times> PollObjType \<times> string \<times> nat \<times> int \<times> int) result" where
  "upd_checks c argin st =
    (if length (svalue argin) \<noteq> 3 \<or> length (lvalue argin) \<noteq> 1 then wrong_args
     else let dev_name = svalue argin ! 0; obj_name = lower (svalue argin ! 2); upd = sint (lvalue argin ! 0) in
       rbind (find_dev c dev_name) (\<lambda>d.
       let dv = adm_dev st d in
       if \<not> is_polled dv then not_polled dev_name
       else rbind (check_lock_owner (call_now c) (call_client c) dev_name (adev_lock dv)) (\<lambda>_.
       rbind (strip_local (lower (svalue argin ! 1))) (\<lambda>(local_request, obj_type).
       rbind (named_type obj_type obj_name) (\<lambda>t.
       rbind (get_polled_obj_by_type_name t obj_name dv) (\<lambda>i.
       rbind (check_upd_authorized upd t obj_name dv) (\<lambda>_.
       if upd \<noteq> 0 \<and> upd < MIN_POLL_PERIOD then too_small upd
       else let th = get_polling_thread_id_by_name dev_name (adm_pool st) in
         if th = 0 then no_thread_for dev_name
         else rbind (get_polling_thread_info_by_id th (adm_pool st)) (\<lambda>_. Ok (d, t, obj_name, i, upd, th)))))))))"

definition upd_cmd :: "nat \<Rightarrow> PollObjType \<Rightarrow> string \<Rightarrow> nat \<Rightarrow> int \<Rightarrow> PollThCmd \<Rightarrow> PollThCmd" where
  "upd_cmd d t n i upd s =
    s\<lparr>cmd_code := POLL_UPD_PERIOD, cmd_dev := Some d, cmd_name := n, cmd_type := t,
      cmd_new_upd := upd * 1000000, cmd_index := int i\<rparr>"

text \<open>
  The text of the period is read back from a stream into which \<open>std::ends\<close> was
  written: it ends with a null character.
\<close>

definition signed_dec :: "int \<Rightarrow> string" where
  "signed_dec n = (if n < 0 then CHR ''-'' # dec (nat (- n)) else dec (nat n))"

definition upd_obj_polling_period ::
    "admin_call \<Rightarrow> DevVarLongStringArray \<Rightarrow> bool \<Rightarrow> poll_adm \<Rightarrow> unit result \<times> poll_adm" where
  "upd_obj_polling_period c argin with_db_upd st =
    sbind (checked (upd_checks c argin st) st) (\<lambda>(d, t, n, i, upd, th) st.
      let st1 = upd_dev d (\<lambda>dv. dv\<lparr>poll_obj_list :=
              (poll_obj_list dv)[i := (poll_obj_list dv ! i)\<lparr>po_upd := upd * 1000000\<rparr>]\<rparr>) st;
          st2 = send_cmd th (upd_cmd d t n i upd) st1;
          st3 = (if call_self c = th then cmd_done th st2 else st2)
      in sbind (checked (set_period n (signed_dec upd @ [CHR 0x00]) (obj_props t (adm_dev st3 d))) st3) (\<lambda>obj_list st3.
        (Ok (), put_db with_db_upd
          (Put_property (Some d) (if t = POLL_CMD then ''polled_cmd'' else ''polled_attr'') obj_list)
          (upd_dev d (set_obj_props t obj_list) st3))))"


section \<open>Removing an object\<close>

definition rem_checks :: "admin_call \<Rightarrow> string list \<Rightarrow> poll_adm \<Rightarrow> (nat \<times> bool \<times> PollObjType \<times> string \<times> nat) result" where
  "rem_checks c argin st =
    (if length argin \<noteq> 3 then wrong_args
     else let dev_name = argin ! 0; obj_name = lower (argin ! 2) in
       rbind (find_dev c dev_name) (\<lambda>d.
       let dv = adm_dev st d in
       if \<not> is_polled dv then not_polled dev_name
       else rbind (check_lock_owner (call_now c) (call_client c) dev_name (adev_lock dv)) (\<lambda>_.
       rbind (strip_local (lower (argin ! 1))) (\<lambda>(local_request, obj_type).
       rbind (named_type obj_type obj_name) (\<lambda>t.
       rbind (get_polled_obj_by_type_name t obj_name dv) (\<lambda>i.
         Ok (d, local_request, t, obj_name, i)))))))"

definition rem_code :: "int \<Rightarrow> PollCmdCode" where
  "rem_code upd = (if upd = 0 then POLL_REM_EXT_TRIG_OBJ else POLL_REM_OBJ)"

definition rem_cmd :: "nat \<Rightarrow> PollObjType \<Rightarrow> string \<Rightarrow> int \<Rightarrow> PollThCmd \<Rightarrow> PollThCmd" where
  "rem_cmd d t n upd s = s\<lparr>cmd_code := rem_code upd, cmd_dev := Some d, cmd_name := n, cmd_type := t\<rparr>"

text \<open>
  The command to the thread; the thread of a server that is shutting down has gone
  already. The result is the thread in charge of the device, zero while shutting down.
\<close>

definition rem_send :: "admin_call \<Rightarrow> string \<Rightarrow> nat \<Rightarrow> bool \<Rightarrow> PollObjType \<Rightarrow> string \<Rightarrow> nat \<Rightarrow> poll_adm \<Rightarrow> int result \<times> poll_adm" where
  "rem_send c dev_name d local_request t n i st =
    (if svr_shutting_down st then (Ok 0, st)
     else let th = get_polling_thread_id_by_name dev_name (adm_pool st) in
       if th = 0 then (no_thread_for dev_name, st)
       else sbind (checked (get_polling_thread_info_by_id th (adm_pool st)) st) (\<lambda>_ st.
         let upd = po_upd (poll_obj_list (adm_dev st d) ! i);
             st1 = send_cmd th (rem_cmd d t n upd) st
         in if call_self c = th
            then (Ok th, cmd_done th (send_cmd th (\<lambda>s. s\<lparr>cmd_index := int i\<rparr>) st1))
            else if local_request then (Ok th, st1)
            else if call_timed_out c then (cmd_timed_out, st1)
            else (Ok th, cmd_done th st1)))"

text \<open>
  The loop over every second string of a polling property, which erases the name and the
  period that follows.
\<close>

fun erase_period :: "string \<Rightarrow> string list \<Rightarrow> (bool \<times> string list) result" where
  "erase_period n [] = Ok (False, [])"
| "erase_period n [x] = (if same_name x n then Undef else Ok (False, [x]))"
| "erase_period n (x # y # r) =
    (if same_name x n then Ok (True, r) else rbind (erase_period n r) (\<lambda>(f, r'). Ok (f, x # y # r')))"

definition rem_props :: "nat \<Rightarrow> PollObjType \<Rightarrow> string \<Rightarrow> bool \<Rightarrow> poll_adm \<Rightarrow> unit result \<times> poll_adm" where
  "rem_props d t n with_db_upd st =
    sbind (checked (erase_period n (obj_props t (adm_dev st d))) st) (\<lambda>(removed, obj_list) st.
      let non_auto = non_auto_props t (adm_dev st d);
          added = (\<not> removed \<and> (\<forall>x\<in>set non_auto. \<not> same_name x n));
          non_auto_list = (if added then non_auto @ [n] else non_auto);
          st1 = upd_dev d (\<lambda>dv. set_non_auto_props t non_auto_list (set_obj_props t obj_list dv)) st;
          prop = (if t = POLL_CMD \<and> removed then ''polled_cmd'' else if t = POLL_CMD then ''non_auto_polled_cmd''
                  else if removed then ''polled_attr'' else ''non_auto_polled_attr'');
          val = (if removed then obj_list else non_auto_list)
      in (Ok (), if removed \<or> added
                 then put_db with_db_upd
                   (if val = [] then Delete_property (Some d) prop else Put_property (Some d) prop val) st1
                 else st1))"

text \<open>
  When nothing of the device is polled any more it leaves the configuration of the pool
  and the map of the threads, and a thread without devices exits.
\<close>

definition rem_pool :: "admin_call \<Rightarrow> string \<Rightarrow> int \<Rightarrow> bool \<Rightarrow> poll_adm \<Rightarrow> bool result \<times> poll_adm" where
  "rem_pool c dev_name th with_db_upd st =
    (let dev = lower dev_name in
     sbind (checked (drop_from_conf dev (poll_pool_conf (adm_pool st))) st) (\<lambda>(kill_thread, conf) st.
       let p = remove_dev_from_polling_map dev ((adm_pool st)\<lparr>poll_pool_conf := conf\<rparr>);
           st1 = st\<lparr>adm_pool := p\<rparr>;
           kills = (kill_thread \<and> \<not> svr_shutting_down st \<and> call_self c \<noteq> th)
       in sbind (if kills
                 then (case remove_polling_thread_info_by_id th p of
                     Ok p' \<Rightarrow> (Ok (), (send_cmd th (\<lambda>s. s\<lparr>cmd_code := POLL_EXIT\<rparr>) st1)\<lparr>adm_pool := p'\<rparr>)
                   | Throw e \<Rightarrow> (Throw e, st1)
                   | Undef \<Rightarrow> (Undef, st1))
                 else (Ok (), st1)) (\<lambda>_ st2.
         (Ok kill_thread, put_db with_db_upd
            (Put_property None ''polling_threads_pool_conf'' (poll_pool_conf (adm_pool st2))) st2))))"

definition drop_nth :: "nat \<Rightarrow> 'a list \<Rightarrow> 'a list" where
  "drop_nth i xs = take i xs @ drop (Suc i) xs"

definition set_polling_period :: "string \<Rightarrow> int \<Rightarrow> admin_dev \<Rightarrow> admin_dev" where
  "set_polling_period n per dv =
    dv\<lparr>attr_polling_period := (n, per) # filter (\<lambda>e. fst e \<noteq> n) (attr_polling_period dv)\<rparr>"

definition rem_obj_polling :: "admin_call \<Rightarrow> string list \<Rightarrow> bool \<Rightarrow> poll_adm \<Rightarrow> unit result \<times> poll_adm" where
  "rem_obj_polling c argin with_db_upd st =
    sbind (checked (rem_checks c argin st) st) (\<lambda>(d, local_request, t, n, i) st.
    sbind (rem_send c (argin ! 0) d local_request t n i st) (\<lambda>th st.
    let st1 = upd_dev d (\<lambda>dv. dv\<lparr>poll_obj_list := drop_nth i (poll_obj_list dv)\<rparr>) st in
    sbind (checked (if t = POLL_ATTR then get_attr_by_name n (adm_dev st1 d) else Ok False) st1) (\<lambda>_ st1.
    let last_one = (poll_obj_list (adm_dev st1 d) = []);
        st2 = upd_dev d (\<lambda>dv.
          let dv1 = (if t = POLL_ATTR then set_polling_period n 0 dv else dv)
          in if last_one then dv1\<lparr>is_polled := False\<rparr> else dv1) st1 in
    sbind (rem_props d t n with_db_upd st2) (\<lambda>_ st3.
    sbind (if last_one then rem_pool c (argin ! 0) th with_db_upd st3 else (Ok False, st3)) (\<lambda>kill_thread st4.
    let st5 = (if t = POLL_ATTR then st4\<lparr>adm_fired := adm_fired st4 @ [(d, n)]\<rparr> else st4) in
    if kill_thread \<and> \<not> svr_shutting_down st5 \<and> call_self c = th \<and> local_request
    then (case remove_polling_thread_info_by_id th (adm_pool st5) of
            Ok p \<Rightarrow> (Ok (), send_cmd th (\<lambda>s. s\<lparr>cmd_code := POLL_EXIT\<rparr>) (st5\<lparr>adm_pool := p\<rparr>))
          | Throw e \<Rightarrow> (Throw e, st5)
          | Undef \<Rightarrow> (Undef, st5))
    else (Ok (), st5))))))"


section \<open>Other commands\<close>

text \<open>
  Starting or stopping every thread, one after the other; \<open>blocked\<close> are the threads
  that do not answer in time.
\<close>

fun send_all :: "int set \<Rightarrow> PollCmdCode \<Rightarrow> PollingThreadInfo list \<Rightarrow> poll_adm \<Rightarrow> unit result \<times> poll_adm" where
  "send_all blocked code [] st = (Ok (), st)"
| "send_all blocked code (t # ts) st =
    (let th = thread_id t; st1 = send_cmd th (\<lambda>s. s\<lparr>cmd_code := code\<rparr>) st
     in if th \<in> blocked then (cmd_timed_out, st1) else send_all blocked code ts (cmd_done th st1))"

definition stop_polling :: "int set \<Rightarrow> poll_adm \<Rightarrow> unit result \<times> poll_adm" where
  "stop_polling blocked st =
    sbind (send_all blocked POLL_STOP (poll_ths (adm_pool st)) st) (\<lambda>_ st.
      (Ok (), st\<lparr>poll_on := False, adm_status := ''The device is ON'' @ CHR 0x0A # ''The polling is OFF''\<rparr>))"

definition start_polling :: "int set \<Rightarrow> poll_adm \<Rightarrow> unit result \<times> poll_adm" where
  "start_polling blocked st =
    sbind (send_all blocked POLL_START (poll_ths (adm_pool st)) st) (\<lambda>_ st.
      (Ok (), st\<lparr>poll_on := True, adm_status := ''The device is ON'' @ CHR 0x0A # ''The polling is ON''\<rparr>))"

definition heartbeat_cmd :: "bool \<Rightarrow> int \<Rightarrow> bool \<Rightarrow> PollCmdCode \<Rightarrow> poll_adm \<Rightarrow> unit result \<times> poll_adm" where
  "heartbeat_cmd self_is_heartbeat th timed_out code st =
    (let st1 = send_cmd th (\<lambda>s. s\<lparr>cmd_code := code\<rparr>) st
     in if self_is_heartbeat then (Ok (), st1)
        else if timed_out then (cmd_timed_out, st1)
        else (Ok (), cmd_done th st1))"

definition add_event_heartbeat :: "bool \<Rightarrow> int \<Rightarrow> bool \<Rightarrow> poll_adm \<Rightarrow> unit result \<times> poll_adm" where
  "add_event_heartbeat s th timed_out st = heartbeat_cmd s th timed_out POLL_ADD_HEARTBEAT st"

definition rem_event_heartbeat :: "bool \<Rightarrow> int \<Rightarrow> bool \<Rightarrow> poll_adm \<Rightarrow> unit result \<times> poll_adm" where
  "rem_event_heartbeat s th timed_out st = heartbeat_cmd s th timed_out POLL_REM_HEARTBEAT st"

text \<open>
  A trigger for an externally triggered object, up to the wait for its execution.
\<close>

definition trigger_polling :: "PollObjType \<Rightarrow> nat \<Rightarrow> string \<Rightarrow> poll_adm \<Rightarrow> unit result \<times> poll_adm" where
  "trigger_polling t d name st =
    (let dv = adm_dev st d; obj_name = lower name; dev_name = device_name (adev_lock dv) in
     if \<not> is_polled dv then (not_polled dev_name, st)
     else sbind (checked (get_polled_obj_by_type_name t obj_name dv) st) (\<lambda>i st.
       if po_upd (poll_obj_list dv ! i) \<noteq> 0
       then (Throw (DevFailed ''API_NotSupported'' (''Polling for '' @ name @ '' is not externally triggered.'')), st)
       else let th = get_polling_thread_id_by_name dev_name (adm_pool st) in
         if th = 0 then (no_thread_for dev_name, st)
         else sbind (checked (get_polling_thread_info_by_id th (adm_pool st)) st) (\<lambda>_ st.
           (Ok (), st\<lparr>adm_shared := (adm_shared st)(th := (adm_shared st th)\<lparr>trigger := True, cmd_dev := Some d,
              cmd_name := obj_name, cmd_type := t\<rparr>)\<rparr>))))"

definition trigger_attr_polling :: "nat \<Rightarrow> string \<Rightarrow> poll_adm \<Rightarrow> unit result \<times> poll_adm" where
  "trigger_attr_polling = trigger_polling POLL_ATTR"

definition trigger_cmd_polling :: "nat \<Rightarrow> string \<Rightarrow> poll_adm \<Rightarrow> unit result \<times> poll_adm" where
  "trigger_cmd_polling = trigger_polling POLL_CMD"

section \<open>The administration device and its polling thread\<close>

text \<open>
  The devices as the thread sees them, and the objects of the lists of the devices that
  a thread is in charge of: those with a period and those without.
\<close>

definition thread_env :: "poll_adm \<Rightarrow> nat \<Rightarrow> polled_dev" where
  "thread_env st d = polled_dev.truncate (adm_dev st d)"

definition dev_key :: "nat \<Rightarrow> polled_obj \<Rightarrow> obj_key" where
  "dev_key d ob = (Some d, po_type ob, po_name ob)"

definition agrees :: "poll_adm \<Rightarrow> nat set \<Rightarrow> polled \<Rightarrow> bool" where
  "agrees st D P \<longleftrightarrow> (\<forall>d\<in>D. let l = mset (poll_obj_list (adm_dev st d)) in
    filter_mset (\<lambda>e. fst (fst e) = Some d) (fst P) =
      image_mset (\<lambda>ob. (dev_key d ob, po_upd ob)) (filter_mset (\<lambda>ob. po_upd ob \<noteq> 0) l) \<and>
    filter_mset (\<lambda>k. fst k = Some d) (snd P) =
      image_mset (dev_key d) (filter_mset (\<lambda>ob. po_upd ob = 0) l))"

definition polled_list_ok :: "polled_obj list \<Rightarrow> bool" where
  "polled_list_ok l \<longleftrightarrow> distinct (map (\<lambda>ob. (po_type ob, po_name ob)) l) \<and>
    (\<forall>ob\<in>set l. is_object (po_type ob) \<and> lower (po_name ob) = po_name ob \<and> 0 \<le> po_upd ob)"

definition lists_of :: "poll_adm \<Rightarrow> nat \<Rightarrow> polled_obj list" where
  "lists_of st d = poll_obj_list (adm_dev st d)"

lemma tolower_idem [simp]: "tolower (tolower c) = tolower c"
  by (auto simp: tolower_def Let_def)

lemma thread_env_list [simp]: "poll_obj_list (thread_env st d) = lists_of st d"
  by (simp add: thread_env_def polled_dev.truncate_def lists_of_def)

lemma lists_of_simps [simp]:
  "lists_of (upd_dev d f st) e = (if e = d then poll_obj_list (f (adm_dev st d)) else lists_of st e)"
  "lists_of (send_cmd th g st) = lists_of st" "lists_of (cmd_done th st) = lists_of st"
  "lists_of (put_db b a st) = lists_of st" "lists_of (count_obj th st) = lists_of st"
  "lists_of (st\<lparr>adm_pool := p\<rparr>) = lists_of st" "lists_of (st\<lparr>adm_fired := x\<rparr>) = lists_of st"
  by (auto simp: lists_of_def upd_dev_def send_cmd_def cmd_done_def put_db_def count_obj_def fun_eq_iff)

lemma shared_simps [simp]:
  "adm_shared (upd_dev d f st) = adm_shared st"
  "adm_shared (put_db b a st) = adm_shared st" "adm_shared (count_obj th st) = adm_shared st"
  "adm_shared (send_cmd th g st) t = (if t = th then (g (adm_shared st th))\<lparr>cmd_pending := True\<rparr> else adm_shared st t)"
  "adm_shared (cmd_done th st) t = (if t = th then (adm_shared st th)\<lparr>cmd_pending := False\<rparr> else adm_shared st t)"
  by (auto simp: upd_dev_def send_cmd_def cmd_done_def put_db_def count_obj_def)

lemma pool_simps [simp]:
  "adm_pool (upd_dev d f st) = adm_pool st" "adm_pool (send_cmd th g st) = adm_pool st"
  "adm_pool (cmd_done th st) = adm_pool st"
  by (simp_all add: upd_dev_def send_cmd_def cmd_done_def)

lemma prop_lists [simp]:
  "poll_obj_list (set_obj_props t l dv) = poll_obj_list dv"
  "poll_obj_list (set_non_auto_props t l dv) = poll_obj_list dv"
  by (simp_all add: set_obj_props_def set_non_auto_props_def)

lemma agrees_cong: "lists_of st' = lists_of st \<Longrightarrow> agrees st' D P = agrees st D P"
  by (simp add: agrees_def lists_of_def fun_eq_iff)

lemma sbind_Ok: "sbind m f = (Ok y, s') \<longleftrightarrow> (\<exists>x s. m = (Ok x, s) \<and> f x s = (Ok y, s'))"
  by (cases m; cases "fst m") auto

lemma checked_Ok [simp]: "checked r s = (Ok x, s') \<longleftrightarrow> r = Ok x \<and> s' = s"
  by (auto simp: checked_def)

text \<open>
  What the requests do to the lists and to the command buffer of the thread, when the
  thread exists and answers.
\<close>

lemma add_props_keeps:
  "add_props a b st = (Ok x, st') \<Longrightarrow> lists_of st' = lists_of st \<and> adm_shared st' = adm_shared st"
  by (auto simp: add_props_def sbind_Ok Let_def fun_eq_iff lists_of_def [symmetric])

lemma add_obj_effect:
  assumes "add_obj_polling c argin b delta st = (Ok (), st')" "call_self c \<noteq> th" "\<not> call_timed_out c"
    and th: "get_polling_thread_id_by_name (svalue argin ! 0) (adm_pool st) = th" "th \<noteq> 0"
  obtains a where "add_checks c argin st = Ok a"
    "lists_of st' = (lists_of st)(ar_dev a := lists_of st (ar_dev a) @
      [\<lparr>po_type = ar_type a, po_name = ar_name a, po_upd = ar_upd a * 1000000\<rparr>])"
    "cmd_code (adm_shared st' th) = POLL_ADD_OBJ" "cmd_dev (adm_shared st' th) = Some (ar_dev a)"
    "cmd_index (adm_shared st' th) = int (length (lists_of st (ar_dev a)))"
proof -
  obtain a where a: "add_checks c argin st = Ok a" using assms(1) by (auto simp: add_obj_polling_def sbind_Ok)
  define st1 where "st1 = push_obj a st"
  have l1: "lists_of st1 = (lists_of st)(ar_dev a := lists_of st (ar_dev a) @
      [\<lparr>po_type = ar_type a, po_name = ar_name a, po_upd = ar_upd a * 1000000\<rparr>])" "adm_pool st1 = adm_pool st"
    by (auto simp: st1_def push_obj_def fun_eq_iff lists_of_def [symmetric])
  have dt: "dev_thread c (svalue argin ! 0) st1 = (Ok (th, - 2), st1)"
    using th l1(2) by (simp add: dev_thread_def)
  obtain st2 st3 where st2: "add_cmd c a th (- 2) delta st1 = (Ok (), st2)"
    and st3: "add_props a b (count_obj th st2) = (Ok (), st3)"
    and st': "st' = upd_dev (ar_dev a) (\<lambda>dv. dv\<lparr>is_polled := True\<rparr>) st3"
    using assms(1) a dt by (auto simp: add_obj_polling_def sbind_Ok st1_def [symmetric] add_pool_conf_def)
  note k = add_props_keeps [OF st3]
  have "lists_of st2 = lists_of st1"
    "adm_shared st2 th = (adm_shared st1 th)\<lparr>cmd_code := POLL_ADD_OBJ, cmd_dev := Some (ar_dev a),
      cmd_index := int (length (lists_of st1 (ar_dev a))) - 1, cmd_new_upd := delta * 1000000, cmd_pending := ar_local a\<rparr>"
    using st2 assms(2,3) by (auto simp: add_cmd_def Let_def lists_of_def [symmetric] split: if_splits)
  then show ?thesis
    using that [OF a] l1(1) k st' by (auto simp: fun_eq_iff lists_of_def [symmetric])
qed

lemma upd_obj_effect:
  assumes "upd_obj_polling_period c argin b st = (Ok (), st')"
  obtains d t n i upd th where "upd_checks c argin st = Ok (d, t, n, i, upd, th)"
    "lists_of st' = (lists_of st)(d := (lists_of st d)[i := (lists_of st d ! i)\<lparr>po_upd := upd * 1000000\<rparr>])"
    "\<exists>s. adm_shared st' th = (upd_cmd d t n i upd s)\<lparr>cmd_pending := call_self c \<noteq> th\<rparr>"
proof -
  obtain d t n i upd th where u: "upd_checks c argin st = Ok (d, t, n, i, upd, th)"
    using assms by (auto simp: upd_obj_polling_period_def sbind_Ok)
  show ?thesis
    by (rule that [OF u])
      (use assms u in \<open>auto simp: upd_obj_polling_period_def sbind_Ok Let_def fun_eq_iff lists_of_def [symmetric]\<close>)
qed

lemma rem_props_keeps:
  "rem_props d t n b st = (Ok x, st') \<Longrightarrow> lists_of st' = lists_of st \<and> adm_shared st' = adm_shared st"
  by (auto simp: rem_props_def sbind_Ok Let_def fun_eq_iff lists_of_def [symmetric] split: if_splits)

lemma rem_obj_effect:
  assumes "rem_obj_polling c argin b st = (Ok (), st')" "\<not> svr_shutting_down st" "call_self c \<noteq> th" "\<not> call_timed_out c"
    and th: "get_polling_thread_id_by_name (argin ! 0) (adm_pool st) = th"
    and more: "\<And>d l t n i. rem_checks c argin st = Ok (d, l, t, n, i) \<Longrightarrow> length (lists_of st d) \<noteq> 1"
  obtains d l t n i where "rem_checks c argin st = Ok (d, l, t, n, i)"
    "lists_of st' = (lists_of st)(d := drop_nth i (lists_of st d))"
    "\<exists>s. adm_shared st' th = (rem_cmd d t n (po_upd (lists_of st d ! i)) s)\<lparr>cmd_pending := l\<rparr>"
proof -
  obtain d l t n i where r: "rem_checks c argin st = Ok (d, l, t, n, i)"
    using assms(1) by (auto simp: rem_obj_polling_def sbind_Ok)
  have i: "i < length (lists_of st d)"
  proof -
    have "get_polled_obj_by_type_name t n (adm_dev st d) = Ok i"
      using r by (auto simp: rem_checks_def result_simps Let_def wrong_args_def not_polled_def split: if_splits)
    moreover have "polled_obj_index t n os = Some i \<Longrightarrow> i < length os" for os i
      by (induction os arbitrary: i) (auto split: if_splits)
    ultimately show ?thesis by (auto simp: get_polled_obj_by_type_name_def lists_of_def split: option.splits)
  qed
  then have ne: "drop_nth i (lists_of st d) \<noteq> []" using more [OF r] by (auto simp: drop_nth_def)
  obtain st1 where st1: "rem_send c (argin ! 0) d l t n i st = (Ok th, st1)" "lists_of st1 = lists_of st"
    "adm_shared st1 th = (rem_cmd d t n (po_upd (lists_of st d ! i)) (adm_shared st th))\<lparr>cmd_pending := l\<rparr>"
    using assms(1-4) r th
    by (auto simp: rem_obj_polling_def sbind_Ok rem_send_def Let_def lists_of_def [symmetric] no_thread_for_def split: if_splits)
  let ?st1 = "upd_dev d (\<lambda>dv. dv\<lparr>poll_obj_list := drop_nth i (poll_obj_list dv)\<rparr>) st1"
  let ?st2 = "upd_dev d (\<lambda>dv. if t = POLL_ATTR then set_polling_period n 0 dv else dv) ?st1"
  have l2: "lists_of ?st2 = (lists_of st)(d := drop_nth i (lists_of st d))"
    using st1(2) by (auto simp: fun_eq_iff lists_of_def [symmetric] set_polling_period_def)
  have "poll_obj_list (adm_dev ?st1 d) \<noteq> []" using st1(2) ne by (simp add: lists_of_def [symmetric])
  then obtain st3 where st3: "rem_props d t n b ?st2 = (Ok (), st3)"
    "st' = (if t = POLL_ATTR then st3\<lparr>adm_fired := adm_fired st3 @ [(d, n)]\<rparr> else st3)"
    using assms(1) r st1(1) by (auto simp: rem_obj_polling_def sbind_Ok Let_def split: if_splits)
  show ?thesis
    using that [OF r] rem_props_keeps [OF st3(1)] st3(2) l2 st1(3) by (cases "t = POLL_ATTR") auto
qed

text \<open>
  The lists and the objects of the thread under the changes of the commands.
\<close>

definition periodic_objs :: "nat \<Rightarrow> polled_obj multiset \<Rightarrow> (obj_key \<times> int) multiset" where
  "periodic_objs d l = image_mset (\<lambda>ob. (dev_key d ob, po_upd ob)) (filter_mset (\<lambda>ob. po_upd ob \<noteq> 0) l)"

definition triggered_objs :: "nat \<Rightarrow> polled_obj multiset \<Rightarrow> obj_key multiset" where
  "triggered_objs d l = image_mset (dev_key d) (filter_mset (\<lambda>ob. po_upd ob = 0) l)"

lemma agrees_iff: "agrees st D (S, T) \<longleftrightarrow> (\<forall>d\<in>D.
    filter_mset (\<lambda>e. fst (fst e) = Some d) S = periodic_objs d (mset (lists_of st d)) \<and>
    filter_mset (\<lambda>k. fst k = Some d) T = triggered_objs d (mset (lists_of st d)))"
  by (simp add: agrees_def lists_of_def Let_def periodic_objs_def triggered_objs_def)

lemma objs_add [simp]:
  "periodic_objs d (add_mset ob l) = (if po_upd ob = 0 then periodic_objs d l else add_mset (dev_key d ob, po_upd ob) (periodic_objs d l))"
  "triggered_objs d (add_mset ob l) = (if po_upd ob = 0 then add_mset (dev_key d ob) (triggered_objs d l) else triggered_objs d l)"
  by (simp_all add: periodic_objs_def triggered_objs_def)

lemma dev_key_eq: "((Some d, t, n) = dev_key d ob \<and> u = po_upd ob) \<longleftrightarrow> ob = \<lparr>po_type = t, po_name = n, po_upd = u\<rparr>"
  by (cases ob) (auto simp: dev_key_def)

lemma agrees_sched:
  assumes "agrees st D (S, T)" "d \<in> D"
  shows "((Some d, t, n), u) \<in># S \<longleftrightarrow> \<lparr>po_type = t, po_name = n, po_upd = u\<rparr> \<in> set (lists_of st d) \<and> u \<noteq> 0"
proof -
  have "((Some d, t, n), u) \<in># S \<longleftrightarrow> ((Some d, t, n), u) \<in># filter_mset (\<lambda>e. fst (fst e) = Some d) S" by simp
  also have "\<dots> \<longleftrightarrow> ((Some d, t, n), u) \<in># periodic_objs d (mset (lists_of st d))"
    using assms by (simp only: agrees_iff)
  finally show ?thesis by (auto simp: periodic_objs_def image_iff dev_key_eq)
qed

lemma agrees_trig:
  assumes "agrees st D (S, T)" "d \<in> D"
  shows "(Some d, t, n) \<in># T \<longleftrightarrow> \<lparr>po_type = t, po_name = n, po_upd = 0\<rparr> \<in> set (lists_of st d)"
proof -
  have "(Some d, t, n) \<in># T \<longleftrightarrow> (Some d, t, n) \<in># filter_mset (\<lambda>k. fst k = Some d) T" by simp
  also have "\<dots> \<longleftrightarrow> (Some d, t, n) \<in># triggered_objs d (mset (lists_of st d))"
    using assms by (simp only: agrees_iff)
  also have "\<dots> \<longleftrightarrow> (\<exists>ob\<in>set (lists_of st d). (Some d, t, n) = dev_key d ob \<and> 0 = po_upd ob)"
    by (auto simp: triggered_objs_def image_iff)
  finally show ?thesis by (simp only: dev_key_eq bex_triv_one_point1)
qed

lemma agrees_add:
  assumes "agrees st D (S, T)" "lists_of st' = (lists_of st)(d := lists_of st d @ [ob])"
  shows "po_upd ob \<noteq> 0 \<Longrightarrow> agrees st' D (add_mset (dev_key d ob, po_upd ob) S, T)"
    and "po_upd ob = 0 \<Longrightarrow> agrees st' D (S, add_mset (dev_key d ob) T)"
proof -
  have k: "fst (dev_key d ob) = Some d" by (simp add: dev_key_def)
  show "po_upd ob \<noteq> 0 \<Longrightarrow> agrees st' D (add_mset (dev_key d ob, po_upd ob) S, T)"
    "po_upd ob = 0 \<Longrightarrow> agrees st' D (S, add_mset (dev_key d ob) T)"
    using assms k by (simp_all add: agrees_iff)
qed

lemma without_other: "fst k \<noteq> Some d \<Longrightarrow>
    filter_mset (\<lambda>e. fst (fst e) = Some d) (without k S) = filter_mset (\<lambda>e. fst (fst e) = Some d) S"
  by (induction S) (auto simp: without_def)

lemma without_filter: "filter_mset P (without k S) = without k (filter_mset P S)"
  by (simp add: without_def filter_filter_mset conj_commute)

lemma mset_drop_nth:
  assumes "i < length l"
  shows "mset l = add_mset (l ! i) (mset (drop_nth i l))"
proof -
  have "mset (take i l @ l ! i # drop (Suc i) l) = add_mset (l ! i) (mset (drop_nth i l))" by (simp add: drop_nth_def)
  then show ?thesis using id_take_nth_drop [OF assms] by simp
qed

lemma other_keys:
  assumes "polled_list_ok l" "i < length l" "ob \<in> set (drop_nth i l)"
  shows "dev_key d ob \<noteq> dev_key d (l ! i)"
proof -
  have "distinct (map (\<lambda>ob. (po_type ob, po_name ob)) (take i l @ l ! i # drop (Suc i) l))"
    using assms(1) id_take_nth_drop [OF assms(2)] by (simp add: polled_list_ok_def)
  then show ?thesis using assms(3) by (auto simp: dev_key_def drop_nth_def image_iff)
qed

lemma without_objs:
  assumes "polled_list_ok l" "i < length l"
  shows "without (dev_key d (l ! i)) (periodic_objs d (mset l)) = periodic_objs d (mset (drop_nth i l))"
    and "filter_mset (\<lambda>k. k \<noteq> dev_key d (l ! i)) (triggered_objs d (mset l)) = triggered_objs d (mset (drop_nth i l))"
proof -
  have ne: "\<forall>ob\<in>set (drop_nth i l). dev_key d (l ! i) \<noteq> dev_key d ob" using other_keys [OF assms, of _ d] by fastforce
  have "without (dev_key d (l ! i)) (periodic_objs d (mset (drop_nth i l))) = periodic_objs d (mset (drop_nth i l))"
    by (intro without_absent) (use ne in \<open>auto simp: periodic_objs_def\<close>)
  then show "without (dev_key d (l ! i)) (periodic_objs d (mset l)) = periodic_objs d (mset (drop_nth i l))"
    unfolding mset_drop_nth [OF assms(2)] by (simp add: without_def)
  have "filter_mset (\<lambda>k. k \<noteq> dev_key d (l ! i)) (triggered_objs d (mset (drop_nth i l))) = triggered_objs d (mset (drop_nth i l))"
    by (intro filter_neq_absent) (use ne in \<open>auto simp: triggered_objs_def\<close>)
  then show "filter_mset (\<lambda>k. k \<noteq> dev_key d (l ! i)) (triggered_objs d (mset l)) = triggered_objs d (mset (drop_nth i l))"
    unfolding mset_drop_nth [OF assms(2)] by simp
qed

lemma agrees_rem:
  assumes "agrees st D (S, T)" "polled_list_ok (lists_of st d)" "i < length (lists_of st d)" "d \<in> D"
    and "lists_of st' = (lists_of st)(d := drop_nth i (lists_of st d))"
    and k: "k = dev_key d (lists_of st d ! i)"
  shows "po_upd (lists_of st d ! i) \<noteq> 0 \<Longrightarrow> agrees st' D (without k S, T)"
    and "po_upd (lists_of st d ! i) = 0 \<Longrightarrow> agrees st' D (S, filter_mset (\<lambda>l. l \<noteq> k) T)"
proof -
  let ?l = "lists_of st d"
  have kd: "fst k = Some d" by (simp add: k dev_key_def)
  note w = without_objs [OF assms(2,3), of d]
  have S: "filter_mset (\<lambda>e. fst (fst e) = Some e') (without k S) =
      (if e' = d then without k (filter_mset (\<lambda>e. fst (fst e) = Some d) S) else filter_mset (\<lambda>e. fst (fst e) = Some e') S)" for e'
    using without_other [of k e' S] kd by (auto simp: without_filter)
  have T: "filter_mset (\<lambda>l. fst l = Some e') (filter_mset (\<lambda>l. l \<noteq> k) T) =
      (if e' = d then filter_mset (\<lambda>l. l \<noteq> k) (filter_mset (\<lambda>l. fst l = Some d) T) else filter_mset (\<lambda>l. fst l = Some e') T)" for e'
    using kd by (induction T) auto
  have other: "po_upd (?l ! i) \<noteq> 0 \<Longrightarrow> triggered_objs d (mset (drop_nth i ?l)) = triggered_objs d (mset ?l)"
    "po_upd (?l ! i) = 0 \<Longrightarrow> periodic_objs d (mset (drop_nth i ?l)) = periodic_objs d (mset ?l)"
    unfolding mset_drop_nth [OF assms(3)] by simp_all
  show "po_upd (?l ! i) \<noteq> 0 \<Longrightarrow> agrees st' D (without k S, T)"
    "po_upd (?l ! i) = 0 \<Longrightarrow> agrees st' D (S, filter_mset (\<lambda>l. l \<noteq> k) T)"
    using assms(1,5) w other unfolding agrees_iff S T by (simp_all add: k)
qed

lemma polled_obj_index_Some:
  "polled_obj_index t n l = Some i \<Longrightarrow> i < length l \<and> po_type (l ! i) = t \<and> po_name (l ! i) = n"
  by (induction l arbitrary: i) (auto split: if_splits)

lemma get_polled_obj_Ok:
  assumes "get_polled_obj_by_type_name t n (adm_dev st d) = Ok i"
  shows "i < length (lists_of st d)" "po_type (lists_of st d ! i) = t" "po_name (lists_of st d ! i) = n"
    "dev_key d (lists_of st d ! i) = (Some d, t, n)"
  using assms polled_obj_index_Some [of t n "poll_obj_list (adm_dev st d)" i]
  by (auto simp: get_polled_obj_by_type_name_def lists_of_def dev_key_def split: option.splits)

lemma add_kind_Ok: "add_kind ot n g dv = Ok (b, t, f) \<Longrightarrow> is_object t"
  by (auto simp: add_kind_def result_simps is_object_def bad_type_def split: if_splits)

lemma add_limits_Ok:
  assumes "add_limits c dv a fwd = Ok a'"
  shows "a' = a" "\<not> already_polled (ar_type a) (ar_name a) dv" "ar_upd a = 0 \<or> MIN_POLL_PERIOD \<le> ar_upd a"
  using assms unfolding add_limits_def too_small_def by (auto simp: result_simps split: if_split_asm)

lemma add_checks_Ok:
  assumes "add_checks c argin st = Ok a"
  shows "find_dev c (svalue argin ! 0) = Ok (ar_dev a)" "is_object (ar_type a)" "lower (ar_name a) = ar_name a"
    "\<not> already_polled (ar_type a) (ar_name a) (adm_dev st (ar_dev a))" "ar_upd a = 0 \<or> MIN_POLL_PERIOD \<le> ar_upd a"
proof -
  obtain d l ot b t f where d: "find_dev c (svalue argin ! 0) = Ok d"
    and k: "add_kind ot (lower (svalue argin ! 2)) (svalue argin ! 2) (adm_dev st d) = Ok (b, t, f)"
    and a: "add_limits c (adm_dev st d) \<lparr>ar_dev = d, ar_local = l, ar_is_cmd = b, ar_type = t,
      ar_name = lower (svalue argin ! 2), ar_upd = sint (lvalue argin ! 0)\<rparr> f = Ok a"
    using assms unfolding add_checks_def wrong_args_def Let_def
    by (auto simp: rbind_eq_Ok split: if_split_asm)
  note lim = add_limits_Ok [OF a]
  show "find_dev c (svalue argin ! 0) = Ok (ar_dev a)" "is_object (ar_type a)"
    "\<not> already_polled (ar_type a) (ar_name a) (adm_dev st (ar_dev a))" "ar_upd a = 0 \<or> MIN_POLL_PERIOD \<le> ar_upd a"
    "lower (ar_name a) = ar_name a"
    using lim d add_kind_Ok [OF k] by (simp_all add: comp_def)
qed

lemma upd_checks_Ok:
  assumes "upd_checks c argin st = Ok (d, t, n, i, upd, th)"
  shows "find_dev c (svalue argin ! 0) = Ok d" "is_object t" "get_polled_obj_by_type_name t n (adm_dev st d) = Ok i"
    "upd = 0 \<or> MIN_POLL_PERIOD \<le> upd" "get_polling_thread_id_by_name (svalue argin ! 0) (adm_pool st) = th"
  using assms
  by (auto simp: upd_checks_def named_type_def result_simps Let_def is_object_def wrong_args_def too_small_def bad_type_def
      not_polled_def no_thread_for_def split: if_splits)

lemma rem_checks_Ok:
  assumes "rem_checks c argin st = Ok (d, l, t, n, i)"
  shows "find_dev c (argin ! 0) = Ok d" "get_polled_obj_by_type_name t n (adm_dev st d) = Ok i"
  using assms by (auto simp: rem_checks_def result_simps Let_def wrong_args_def not_polled_def split: if_splits)

text \<open>
  A step: a request that succeeds, from a thread other than the polling thread and
  answered in time, for a device the thread is in charge of; the thread then executes the
  command in its buffer. A period is changed only for objects that have one, and of the
  objects of a device one stays.
\<close>

definition ordinary_call :: "admin_call \<Rightarrow> int \<Rightarrow> bool" where
  "ordinary_call c th \<longleftrightarrow> call_self c \<noteq> th \<and> \<not> call_timed_out c \<and> th \<noteq> 0"

inductive admin_step :: "int \<Rightarrow> nat set \<Rightarrow> poll_adm \<times> polled \<Rightarrow> PollThCmd \<Rightarrow> poll_adm \<times> polled \<Rightarrow> bool"
  for th D where
  admin_add: "\<lbrakk>add_obj_polling c argin b delta st = (Ok (), st'); ordinary_call c th;
     get_polling_thread_id_by_name (svalue argin ! 0) (adm_pool st) = th;
     find_dev c (svalue argin ! 0) = Ok d; d \<in> D\<rbrakk>
   \<Longrightarrow> admin_step th D (st, P) (adm_shared st' th) (st', spec_cmd (thread_env st') (adm_shared st' th) P)"
| admin_upd: "\<lbrakk>upd_obj_polling_period c argin b st = (Ok (), st'); ordinary_call c th;
     upd_checks c argin st = Ok (d, t, n, i, u, th); d \<in> D; po_upd (lists_of st d ! i) \<noteq> 0\<rbrakk>
   \<Longrightarrow> admin_step th D (st, P) (adm_shared st' th) (st', spec_cmd (thread_env st') (adm_shared st' th) P)"
| admin_rem: "\<lbrakk>rem_obj_polling c argin b st = (Ok (), st'); ordinary_call c th; \<not> svr_shutting_down st;
     get_polling_thread_id_by_name (argin ! 0) (adm_pool st) = th;
     find_dev c (argin ! 0) = Ok d; d \<in> D; length (lists_of st d) \<noteq> 1\<rbrakk>
   \<Longrightarrow> admin_step th D (st, P) (adm_shared st' th) (st', spec_cmd (thread_env st') (adm_shared st' th) P)"

inductive admin_run :: "int \<Rightarrow> nat set \<Rightarrow> poll_adm \<times> polled \<Rightarrow> poll_adm \<times> polled \<Rightarrow> bool" for th D where
  no_step: "admin_run th D s s"
| one_step: "admin_run th D s s1 \<Longrightarrow> admin_step th D s1 c s2 \<Longrightarrow> admin_run th D s s2"

definition consistent :: "nat set \<Rightarrow> poll_adm \<times> polled \<Rightarrow> bool" where
  "consistent D s \<longleftrightarrow> agrees (fst s) D (snd s) \<and> (\<forall>d\<in>D. polled_list_ok (lists_of (fst s) d))"

lemma consistent_add:
  assumes c: "consistent D (st, (S, T))" "d \<in> D"
    and a: "add_checks ca argin st = Ok a" "ar_dev a = d"
    and l: "lists_of st' = (lists_of st)(d := lists_of st d @
      [\<lparr>po_type = ar_type a, po_name = ar_name a, po_upd = ar_upd a * 1000000\<rparr>])"
    and s: "cmd_code cmd = POLL_ADD_OBJ" "cmd_dev cmd = Some d" "cmd_index cmd = int (length (lists_of st d))"
  shows "cmd_ok (thread_env st') cmd (S, T) \<and> consistent D (st', spec_cmd (thread_env st') cmd (S, T))"
proof -
  note k = add_checks_Ok [OF a(1)]
  let ?ob = "\<lparr>po_type = ar_type a, po_name = ar_name a, po_upd = ar_upd a * 1000000\<rparr>"
  have g: "agrees st D (S, T)" and ok: "polled_list_ok (lists_of st d)"
    using c by (simp_all add: consistent_def)
  have u: "0 \<le> po_upd ?ob" using k(5) by (auto simp: MIN_POLL_PERIOD_def)
  have ob: "lists_of st' d ! nat (cmd_index cmd) = ?ob" using l s(3) by simp
  have new: "po_type x \<noteq> ar_type a \<or> po_name x \<noteq> ar_name a" if "x \<in> set (lists_of st d)" for x
    using that k(3,4) a(2) by (auto simp: already_polled_def lists_of_def)
  have nS: "(Some d, ar_type a, ar_name a) \<notin># image_mset fst S"
    using agrees_sched [OF g c(2), of "ar_type a" "ar_name a"] new by fastforce
  have nT: "(Some d, ar_type a, ar_name a) \<notin># T"
    using agrees_trig [OF g c(2), of "ar_type a" "ar_name a"] new by fastforce
  have "cmd_ok (thread_env st') cmd (S, T)"
    using s k(2) ob u nS nT l by (simp add: cmd_ok_def Let_def)
  moreover have "polled_list_ok (lists_of st d @ [?ob])"
    using ok k(2,3) u new by (fastforce simp: polled_list_ok_def)
  moreover have "agrees st' D (spec_cmd (thread_env st') cmd (S, T))"
    using agrees_add [OF g l] s ob by (auto simp: Let_def dev_key_def)
  ultimately show ?thesis using c l by (auto simp: consistent_def)
qed

lemma polled_list_ok_drop: "polled_list_ok l \<Longrightarrow> polled_list_ok (drop_nth i l)"
proof -
  assume ok: "polled_list_ok l"
  have "set (drop_nth i l) \<subseteq> set l" by (auto simp: drop_nth_def dest: in_set_takeD in_set_dropD)
  moreover have "distinct (map f (drop_nth i l))" if "distinct (map f l)" for f :: "polled_obj \<Rightarrow> PollObjType \<times> string"
  proof -
    have "map f (drop_nth i l) = drop_nth i (map f l)" by (simp add: drop_nth_def take_map drop_map)
    moreover have "distinct (drop_nth i (map f l))"
      using that set_take_disj_set_drop_if_distinct [of "map f l" i "Suc i"] by (simp add: drop_nth_def)
    ultimately show ?thesis by simp
  qed
  ultimately show ?thesis using ok by (auto simp: polled_list_ok_def)
qed

lemma consistent_rem:
  assumes c: "consistent D (st, (S, T))" "d \<in> D"
    and i: "i < length (lists_of st d)" "dev_key d (lists_of st d ! i) = (Some d, t, n)"
    and l: "lists_of st' = (lists_of st)(d := drop_nth i (lists_of st d))"
    and s: "cmd = (rem_cmd d t n (po_upd (lists_of st d ! i)) s0)\<lparr>cmd_pending := b\<rparr>"
  shows "cmd_ok (thread_env st') cmd (S, T) \<and> consistent D (st', spec_cmd (thread_env st') cmd (S, T))"
proof -
  have g: "agrees st D (S, T)" and ok: "polled_list_ok (lists_of st d)"
    using c by (simp_all add: consistent_def)
  have "agrees st' D (spec_cmd (thread_env st') cmd (S, T))"
    using agrees_rem [OF g ok i(1) c(2) l refl] s i(2) by (auto simp: rem_cmd_def rem_code_def Let_def)
  moreover have "cmd_ok (thread_env st') cmd (S, T)" using s by (simp add: cmd_ok_def rem_cmd_def rem_code_def)
  ultimately show ?thesis using c l polled_list_ok_drop [OF ok] by (simp add: consistent_def)
qed

lemma agrees_mset: "\<forall>d\<in>D. mset (lists_of st' d) = mset (lists_of st d) \<Longrightarrow> agrees st' D (S, T) = agrees st D (S, T)"
  by (simp add: agrees_iff)

lemma polled_list_ok_upd:
  assumes "polled_list_ok l" "i < length l" "0 \<le> u"
  shows "polled_list_ok (l[i := (l ! i)\<lparr>po_upd := u\<rparr>])"
proof -
  have "map (\<lambda>ob. (po_type ob, po_name ob)) (l[i := (l ! i)\<lparr>po_upd := u\<rparr>]) = map (\<lambda>ob. (po_type ob, po_name ob)) l"
    using assms(2) by (simp add: map_update list_update_same_conv)
  moreover have "ob \<in> set (l[i := (l ! i)\<lparr>po_upd := u\<rparr>]) \<Longrightarrow> ob \<in> set l \<or> ob = (l ! i)\<lparr>po_upd := u\<rparr>" for ob
    using set_update_subset_insert [of l i "(l ! i)\<lparr>po_upd := u\<rparr>"] by blast
  moreover have "l ! i \<in> set l" using assms(2) by simp
  moreover have "is_object (po_type ob) \<and> lower (po_name ob) = po_name ob \<and> 0 \<le> po_upd ob"
    if "ob \<in> set l \<or> ob = (l ! i)\<lparr>po_upd := u\<rparr>" for ob
    using that assms calculation(3) unfolding polled_list_ok_def by fastforce
  ultimately show ?thesis using assms(1,3) unfolding polled_list_ok_def by metis
qed

lemma consistent_upd:
  assumes c: "consistent D (st, (S, T))" "d \<in> D"
    and i: "i < length (lists_of st d)" "dev_key d (lists_of st d ! i) = (Some d, t, n)" "is_object t"
      "po_upd (lists_of st d ! i) \<noteq> 0" "0 \<le> u"
    and l: "lists_of st' = (lists_of st)(d := (lists_of st d)[i := (lists_of st d ! i)\<lparr>po_upd := u * 1000000\<rparr>])"
    and s: "cmd = (upd_cmd d t n i u s0)\<lparr>cmd_pending := b\<rparr>"
  shows "cmd_ok (thread_env st') cmd (S, T) \<and> consistent D (st', spec_cmd (thread_env st') cmd (S, T))"
proof -
  let ?l = "lists_of st d" and ?k = "(Some d, t, n)"
  define ob where "ob = (?l ! i)\<lparr>po_upd := u * 1000000\<rparr>"
  have g: "agrees st D (S, T)" and ok: "polled_list_ok ?l" using c by (simp_all add: consistent_def)
  have ob: "ob = \<lparr>po_type = t, po_name = n, po_upd = u * 1000000\<rparr>" "dev_key d ob = ?k"
    using i(2) by (cases "?l ! i"; simp add: ob_def dev_key_def)+
  define st1 where "st1 = upd_dev d (\<lambda>dv. dv\<lparr>poll_obj_list := drop_nth i (poll_obj_list dv)\<rparr>) st"
  define st2 where "st2 = upd_dev d (\<lambda>dv. dv\<lparr>poll_obj_list := poll_obj_list dv @ [ob]\<rparr>) st1"
  have l1: "lists_of st1 = (lists_of st)(d := drop_nth i ?l)" by (auto simp: st1_def fun_eq_iff lists_of_def [symmetric])
  have l2: "lists_of st2 = (lists_of st1)(d := lists_of st1 d @ [ob])" by (auto simp: st2_def fun_eq_iff lists_of_def [symmetric])
  have "agrees st1 D (without ?k S, T)" using agrees_rem(1) [OF g ok i(1) c(2) l1 refl i(4)] i(2) by simp
  note a2 = agrees_add [OF this l2, unfolded ob(2)]
  have "mset (?l[i := ob]) = add_mset ob (mset (drop_nth i ?l))"
    using i(1) by (simp add: upd_conv_take_nth_drop drop_nth_def)
  then have m: "\<forall>e\<in>D. mset (lists_of st' e) = mset (lists_of st2 e)"
    using l l1 l2 by (auto simp: ob_def)
  have "?l ! i = \<lparr>po_type = t, po_name = n, po_upd = po_upd (?l ! i)\<rparr>" using i(2) by (cases "?l ! i") (simp add: dev_key_def)
  then have "((Some d, t, n), po_upd (?l ! i)) \<in># S"
    using agrees_sched [OF g c(2), of t n "po_upd (?l ! i)"] i(1,4) by (metis nth_mem)
  then have kS: "?k \<in># image_mset fst S" by force
  have "cmd_ok (thread_env st') cmd (S, T)"
    using s i kS l ob(1) by (auto simp: cmd_ok_def upd_cmd_def ob_def [symmetric])
  moreover have "agrees st' D (spec_cmd (thread_env st') cmd (S, T))"
    using a2 agrees_mset [OF m] s ob(1) by (auto simp: upd_cmd_def Let_def)
  ultimately show ?thesis
    using c l polled_list_ok_upd [OF ok i(1), of "u * 1000000"] i(5) by (simp add: consistent_def)
qed

lemma admin_step_consistent:
  assumes "admin_step th D s c s'" "consistent D s"
  shows "cmd_ok (thread_env (fst s')) c (snd s) \<and> snd s' = spec_cmd (thread_env (fst s')) c (snd s) \<and> consistent D s'"
  using assms
proof (cases rule: admin_step.cases)
  case (admin_add ca argin b delta st st' d P)
  obtain S T where P: "P = (S, T)" by (cases P)
  have o: "call_self ca \<noteq> th" "\<not> call_timed_out ca" "th \<noteq> 0" using admin_add by (simp_all add: ordinary_call_def)
  obtain a where a: "add_checks ca argin st = Ok a"
    "lists_of st' = (lists_of st)(ar_dev a := lists_of st (ar_dev a) @
      [\<lparr>po_type = ar_type a, po_name = ar_name a, po_upd = ar_upd a * 1000000\<rparr>])"
    "cmd_code (adm_shared st' th) = POLL_ADD_OBJ" "cmd_dev (adm_shared st' th) = Some (ar_dev a)"
    "cmd_index (adm_shared st' th) = int (length (lists_of st (ar_dev a)))"
    by (rule add_obj_effect [OF _ o(1,2) _ o(3)]) (use admin_add in auto)
  have "ar_dev a = d" using add_checks_Ok(1) [OF a(1)] admin_add by simp
  then show ?thesis
    using consistent_add [OF _ _ a(1), of D S T d st' "adm_shared st' th"] a assms(2) admin_add P by simp
next
  case (admin_upd ca argin b st st' d t n i u P)
  obtain S T where P: "P = (S, T)" by (cases P)
  note k = upd_checks_Ok [OF admin_upd(6)]
  note g = get_polled_obj_Ok [OF k(3)]
  obtain s0 b0 where l: "lists_of st' = (lists_of st)(d := (lists_of st d)[i := (lists_of st d ! i)\<lparr>po_upd := u * 1000000\<rparr>])"
    and s0: "adm_shared st' th = (upd_cmd d t n i u s0)\<lparr>cmd_pending := b0\<rparr>"
    using upd_obj_effect [OF admin_upd(4)] admin_upd(6) by (metis Pair_inject result.inject(1))
  have "0 \<le> u" using k(4) by (auto simp: MIN_POLL_PERIOD_def)
  then show ?thesis
    using consistent_upd [OF _ _ g(1,4) k(2) _ _ l s0, of D S T] admin_upd assms(2) P by simp
next
  case (admin_rem ca argin b st st' d P)
  obtain S T where P: "P = (S, T)" by (cases P)
  have o: "call_self ca \<noteq> th" "\<not> call_timed_out ca" using admin_rem by (simp_all add: ordinary_call_def)
  obtain e l t n i where r: "rem_checks ca argin st = Ok (e, l, t, n, i)"
    "lists_of st' = (lists_of st)(e := drop_nth i (lists_of st e))"
    "\<exists>s. adm_shared st' th = (rem_cmd e t n (po_upd (lists_of st e ! i)) s)\<lparr>cmd_pending := l\<rparr>"
    by (rule rem_obj_effect [OF admin_rem(4) _ o]) (use admin_rem rem_checks_Ok(1) in fastforce)+
  have e: "e = d" using rem_checks_Ok(1) [OF r(1)] admin_rem by simp
  note g = get_polled_obj_Ok [OF rem_checks_Ok(2) [OF r(1)]]
  obtain s0 where "adm_shared st' th = (rem_cmd d t n (po_upd (lists_of st d ! i)) s0)\<lparr>cmd_pending := l\<rparr>"
    using r(3) e by blast
  then show ?thesis
    using consistent_rem [of D st S T d i t n st' "adm_shared st' th" l s0] g r(2) e admin_rem assms(2) P by simp
qed

section \<open>Properties\<close>


text \<open>
  A request to add an object that times out leaves a command behind. The object is
  taken from the list of the device again, but the command to poll the element after the
  end of that list stays in the buffer: the thread that executes it later reads past the
  list.
\<close>

theorem add_obj_timeout:
  assumes a: "add_checks c argin st = Ok a" "\<not> ar_local a"
    and th: "get_polling_thread_id_by_name (svalue argin ! 0) (adm_pool st) = th" "th \<noteq> 0"
      "get_polling_thread_info_by_id th (adm_pool st) = Ok info"
    and c: "call_self c \<noteq> th" "call_timed_out c"
  shows "\<exists>st'. add_obj_polling c argin b delta st = (cmd_timed_out, st') \<and> lists_of st' = lists_of st \<and>
    cmd_pending (adm_shared st' th) \<and>
    (\<forall>pt. local_cmd pt = adm_shared st' th \<longrightarrow> execute_cmd (thread_env st') pt = Undef)"
proof -
  let ?d = "ar_dev a"
  define st1 where "st1 = push_obj a st"
  define st2 where "st2 = send_cmd th (\<lambda>s. s\<lparr>cmd_code := POLL_ADD_OBJ, cmd_dev := Some ?d,
      cmd_index := int (length (poll_obj_list (adm_dev st1 ?d))) - 1, cmd_new_upd := delta * 1000000\<rparr>) st1"
  have l1: "poll_obj_list (adm_dev st1 ?d) = lists_of st ?d @
      [\<lparr>po_type = ar_type a, po_name = ar_name a, po_upd = ar_upd a * 1000000\<rparr>]"
    "adm_pool st1 = adm_pool st"
    by (simp_all add: st1_def push_obj_def upd_dev_def lists_of_def)
  have "add_obj_polling c argin b delta st = (cmd_timed_out, pop_obj ?d st2)"
    using a th c l1(2)
    by (simp add: add_obj_polling_def dev_thread_def st1_def [symmetric] add_cmd_def st2_def [symmetric] Let_def cmd_timed_out_def)
  moreover have l: "lists_of (pop_obj ?d st2) = lists_of st"
    by (auto simp: pop_obj_def st2_def st1_def push_obj_def fun_eq_iff lists_of_def upd_dev_def send_cmd_def)
  moreover have "cmd_pending (adm_shared (pop_obj ?d st2) th)" by (simp add: pop_obj_def st2_def)
  moreover have "execute_cmd (thread_env (pop_obj ?d st2)) pt = Undef"
    if "local_cmd pt = adm_shared (pop_obj ?d st2) th" for pt
    using that l l1(1) by (simp add: execute_cmd_def cmd_add_obj_def pop_obj_def st2_def vec_get_def)
  ultimately show ?thesis by blast
qed

lemma triggered_not_scheduled:
  assumes "consistent D (st, (S, T))" "d \<in> D" "i < length (lists_of st d)" "po_upd (lists_of st d ! i) = 0"
  shows "dev_key d (lists_of st d ! i) \<notin># image_mset fst S"
proof
  assume "dev_key d (lists_of st d ! i) \<in># image_mset fst S"
  then obtain u where u: "(dev_key d (lists_of st d ! i), u) \<in># S" by auto
  have g: "agrees st D (S, T)" and ok: "polled_list_ok (lists_of st d)"
    using assms(1,2) by (simp_all add: consistent_def)
  let ?o = "lists_of st d ! i" and ?p = "\<lparr>po_type = po_type (lists_of st d ! i), po_name = po_name (lists_of st d ! i), po_upd = u\<rparr>"
  have p: "?p \<in> set (lists_of st d)" "u \<noteq> 0"
    using u agrees_sched [OF g assms(2)] by (simp_all add: dev_key_def)
  have "inj_on (\<lambda>ob. (po_type ob, po_name ob)) (set (lists_of st d))"
    using ok by (simp add: polled_list_ok_def distinct_map)
  then have "?p = ?o" by (rule inj_onD) (use p(1) assms(3) in auto)
  then have "po_upd ?o = u" by (metis polled_obj.select_convs(3))
  then show False using assms(4) p(2) by simp
qed

text \<open>
  A trigger that comes while the removal of a polled object waits in the buffer
  replaces the object of the removal: the thread executes the removal with the name of
  the triggered object, which has no period, and goes on polling every object it polled.
\<close>

theorem trigger_loses_removal:
  assumes tr: "trigger_polling t d name st = (Ok (), st')"
    and th: "th = get_polling_thread_id_by_name (device_name (adev_lock (adm_dev st d))) (adm_pool st)"
    and rem: "adm_shared st th = (rem_cmd e u n p s)\<lparr>cmd_pending := True\<rparr>" "p \<noteq> 0"
    and ok: "consistent D (st, polled_of pt)" "d \<in> D" "pt_inv pt" "local_cmd pt = adm_shared st' th"
  shows "cmd_pending (adm_shared st' th) \<and>
    (\<exists>pt'. execute_cmd (thread_env st') pt = Ok pt' \<and> polled_of pt' = polled_of pt)"
proof -
  obtain i where i: "get_polled_obj_by_type_name t (lower name) (adm_dev st d) = Ok i"
    "po_upd (poll_obj_list (adm_dev st d) ! i) = 0"
    "adm_shared st' th = (adm_shared st th)\<lparr>trigger := True, cmd_dev := Some d, cmd_name := lower name, cmd_type := t\<rparr>"
    using tr th by (auto simp: trigger_polling_def sbind_Ok Let_def not_polled_def no_thread_for_def split: if_splits)
  note g = get_polled_obj_Ok [OF i(1)]
  obtain S T where P: "polled_of pt = (S, T)" by (cases "polled_of pt")
  have c: "local_cmd pt = adm_shared st' th" "cmd_code (adm_shared st' th) = POLL_REM_OBJ" "cmd_pending (adm_shared st' th)"
    using ok(4) i(3) rem by (simp_all add: rem_cmd_def rem_code_def)
  have "(Some d, t, lower name) \<notin># image_mset fst S"
    using triggered_not_scheduled [OF ok(1) [unfolded P] ok(2) g(1)] i(2) g(4) by (simp add: lists_of_def)
  then have spec: "spec_cmd (thread_env st') (local_cmd pt) (polled_of pt) = polled_of pt"
    using c i(3) P by (auto simp: without_absent Let_def)
  have inv: "lists_ok pt" "uniq (polled_of pt)" using ok(3) by (simp_all add: pt_inv_iff)
  have "cmd_ok (thread_env st') (local_cmd pt) (polled_of pt)" using c by (simp add: cmd_ok_def)
  from execute_cmd_refines [OF inv this] spec c(3) show ?thesis by metis
qed

section \<open>Witnesses\<close>

definition ex_adm_dev :: "polled_obj list \<Rightarrow> admin_dev" where
  "ex_adm_dev l = \<lparr>dev_idl_version = 5, poll_obj_list = l,
    adev_lock = ex_dev\<lparr>device_name := ''sys/tg/1''\<rparr>,
    is_polled = l \<noteq> [], polled_cmd = [], polled_attr = [], non_auto_polled_cmd = [], non_auto_polled_attr = [],
    cmd_min_poll_period = [], attr_min_poll_period = [], min_poll_period = 0,
    command_list = [(''counter'', False)], attribute_list = [], attr_polling_period = []\<rparr>"

definition ex_adm :: "polled_obj list \<Rightarrow> PollThCmd \<Rightarrow> poll_adm" where
  "ex_adm l s = \<lparr>adm_dev = (\<lambda>_. ex_adm_dev l), adm_pool = ex_pool, adm_shared = (\<lambda>_. s), adm_db = [], adm_fired = [],
    use_db = True, svr_shutting_down = False, poll_on = True, adm_status = ''''\<rparr>"

definition ex_call :: "bool \<Rightarrow> admin_call" where
  "ex_call timed_out = \<lparr>call_self = 3, call_client = None, call_now = 0, call_find = (\<lambda>_. Ok 1), call_new_id = 11,
    call_depth = Ok 10, call_timed_out = timed_out, call_start_timed_out = False\<rparr>"

definition ex_argin :: DevVarLongStringArray where
  "ex_argin = \<lparr>lvalue = [1000], svalue = [''sys/tg/1'', ''command'', ''counter'']\<rparr>"

definition ex_req :: add_req where
  "ex_req = \<lparr>ar_dev = 1, ar_local = False, ar_is_cmd = True, ar_type = POLL_CMD, ar_name = ''counter'', ar_upd = 1000\<rparr>"

lemma ex_lower: "lower ''sys/tg/1'' = ''sys/tg/1''" "lower ''command'' = ''command''" "lower ''counter'' = ''counter''"
  by code_simp+

lemma ex_thread: "get_polling_thread_id_by_name ''sys/tg/1'' ex_pool = 7"
    "\<exists>t. get_polling_thread_info_by_id 7 ex_pool = Ok t"
  by (simp_all add: get_polling_thread_id_by_name_def ex_pool_def ex_lower get_polling_thread_info_by_id_def del: list.map)

lemma ex_add_checks: "add_checks (ex_call b) ex_argin (ex_adm [] ex_idle) = Ok ex_req"
  by (simp add: add_checks_def ex_call_def ex_argin_def find_dev_def ex_adm_def ex_adm_dev_def check_lock_owner_def ex_dev_def
      ex_lower strip_local_def LOCAL_POLL_REQUEST_def add_kind_def check_command_exists_def add_limits_def already_polled_def
      MIN_POLL_PERIOD_def check_upd_authorized_def min_period_def ex_req_def Let_def del: list.map)

theorem add_obj_timeout_witness:
  "\<exists>st'. add_obj_polling (ex_call True) ex_argin True 0 (ex_adm [] ex_idle) = (cmd_timed_out, st') \<and>
    execute_cmd (thread_env st') (ex_fresh\<lparr>local_cmd := adm_shared st' 7\<rparr>) = Undef"
proof -
  obtain t where t: "get_polling_thread_info_by_id 7 ex_pool = Ok t" using ex_thread(2) by blast
  have "svalue ex_argin ! 0 = ''sys/tg/1''" by (simp add: ex_argin_def)
  then have th: "get_polling_thread_id_by_name (svalue ex_argin ! 0) (adm_pool (ex_adm [] ex_idle)) = 7"
    using ex_thread(1) by (simp add: ex_adm_def)
  have i: "get_polling_thread_info_by_id 7 (adm_pool (ex_adm [] ex_idle)) = Ok t" using t by (simp add: ex_adm_def)
  have "\<not> ar_local ex_req" "call_self (ex_call True) \<noteq> 7" "call_timed_out (ex_call True)"
    by (simp_all add: ex_req_def ex_call_def)
  from add_obj_timeout [OF ex_add_checks this(1) th _ i this(2,3), of True 0] show ?thesis by auto
qed

lemma ex_add_request:
  obtains st' where "add_obj_polling (ex_call False) ex_argin True 0 (ex_adm [] ex_idle) = (Ok (), st')"
proof -
  obtain t where t: "get_polling_thread_info_by_id 7 ex_pool = Ok t" using ex_thread(2) by blast
  have "\<exists>st'. add_obj_polling (ex_call False) ex_argin True 0 (ex_adm [] ex_idle) = (Ok (), st')"
    by (simp add: add_obj_polling_def ex_add_checks)
      (simp add: dev_thread_def push_obj_def ex_argin_def ex_adm_def upd_dev_def
        ex_thread t add_cmd_def send_cmd_def ex_call_def ex_req_def cmd_done_def count_obj_def add_props_def Let_def
        non_auto_props_def obj_props_def ex_adm_dev_def add_pool_conf_def)
  then show thesis using that by blast
qed


definition ex_two :: "polled_obj list" where
  "ex_two = [\<lparr>po_type = POLL_CMD, po_name = ''iostate'', po_upd = 1000000000\<rparr>, \<lparr>po_type = POLL_CMD, po_name = ''counter'', po_upd = 0\<rparr>]"

definition ex_rem :: PollThCmd where
  "ex_rem = (rem_cmd 1 POLL_CMD ''iostate'' 1000000000 ex_idle)\<lparr>cmd_pending := True\<rparr>"

lemma ex_counter_index: "get_polled_obj_by_type_name POLL_CMD ''counter'' (ex_adm_dev ex_two) = Ok 1"
  by (simp add: get_polled_obj_by_type_name_def ex_adm_dev_def ex_two_def)

theorem trigger_loses_removal_witness:
  "\<exists>st' pt'. trigger_cmd_polling 1 ''counter'' (ex_adm ex_two ex_rem) = (Ok (), st') \<and>
    execute_cmd (thread_env st') (ex_fresh\<lparr>works := [(ex_item 1 100)\<lparr>wi_name := [''iostate'']\<rparr>],
      ext_trig_works := [ex_trig_item\<lparr>wi_name := [''counter'']\<rparr>], local_cmd := adm_shared st' 7\<rparr>) = Ok pt' \<and>
    ((Some 1, POLL_CMD, ''iostate''), 1000000000) \<in># sched pt'"
proof -
  let ?st = "ex_adm ex_two ex_rem" and ?x = "ex_trig_item\<lparr>wi_name := [''counter'']\<rparr>"
  obtain t where t: "get_polling_thread_info_by_id 7 ex_pool = Ok t" using ex_thread(2) by blast
  have d: "device_name (adev_lock (ex_adm_dev ex_two)) = ''sys/tg/1''" "is_polled (ex_adm_dev ex_two)"
    "po_upd (poll_obj_list (ex_adm_dev ex_two) ! 1) = 0"
    by (simp_all add: ex_adm_dev_def ex_two_def)
  have a: "adm_dev ?st 1 = ex_adm_dev ex_two" "adm_pool ?st = ex_pool" by (simp_all add: ex_adm_def)
  obtain st' where st': "trigger_polling POLL_CMD 1 ''counter'' ?st = (Ok (), st')"
    using ex_thread(1) t ex_counter_index d a
    by (simp add: trigger_polling_def ex_lower Let_def del: list.map One_nat_def)
  let ?pt = "ex_fresh\<lparr>works := [(ex_item 1 100)\<lparr>wi_name := [''iostate'']\<rparr>], ext_trig_works := [?x], local_cmd := adm_shared st' 7\<rparr>"
  have x: "item_objs ?x = [((Some 1, POLL_CMD, ''counter''), 0)]" "trig_ok ?x"
    by (auto simp: ex_trig_item_def ex_item_def item_objs_def trig_ok_def is_object_def)
  let ?w = "(ex_item 1 100)\<lparr>wi_name := [''iostate'']\<rparr>"
  have w: "item_objs ?w = [((Some 1, POLL_CMD, ''iostate''), 1000000000)]" "item_ok ?w"
    by (auto simp: ex_item_def item_objs_def item_ok_def is_object_def)
  have P: "polled_of ?pt = ({#((Some 1, POLL_CMD, ''iostate''), 1000000000)#}, {#(Some 1, POLL_CMD, ''counter'')#})"
    by (simp add: polled_defs w x del: One_nat_def)
  have inv: "pt_inv ?pt" by (auto simp: pt_inv_def ex_fresh_fields w x sched_def trig_def simp del: One_nat_def)
  have c: "consistent {1} (?st, polled_of ?pt)"
    unfolding P by (simp add: consistent_def agrees_def polled_list_ok_def lists_of_def ex_adm_def ex_adm_dev_def ex_two_def
        dev_key_def is_object_def) code_simp
  have s: "adm_shared ?st 7 = (rem_cmd 1 POLL_CMD ''iostate'' 1000000000 ex_idle)\<lparr>cmd_pending := True\<rparr>"
    by (simp add: ex_adm_def ex_rem_def)
  have th: "7 = get_polling_thread_id_by_name (device_name (adev_lock (adm_dev ?st 1))) (adm_pool ?st)"
    using ex_thread(1) d(1) a by simp
  from trigger_loses_removal [OF st' th s _ c _ inv] obtain pt' where
    "execute_cmd (thread_env st') ?pt = Ok pt'" "polled_of pt' = polled_of ?pt" by auto
  then show ?thesis using st' P by (auto simp: trigger_cmd_polling_def polled_of_def)
qed

end
