(* ===== verification/Event_Change.thy ===== *)
theory Event_Change
  imports Complex_Main Poll_Ring "HOL-Library.Word"
begin

text \<open>
  The detection of events (\<open>eventsupplier.cpp\<close>). After each reading of a polled
  attribute the server compares the value with the one of the last event and decides
  whether clients are told: change and archive events by thresholds on the values,
  alarm events by the quality, periodic events by time. The theory models the comparison
  for every data type, with the integer arithmetic of C++, and the four kinds of events.
\<close>

section \<open>Floating-point arithmetic\<close>

text \<open>
  The arithmetic of the machine is a parameter: operations on the values of type
  \<open>double\<close>, among which are those of type \<open>float\<close>. A second set of operations computes
  in single precision.
\<close>

record 'f fp =
  fp_add :: "'f \<Rightarrow> 'f \<Rightarrow> 'f"
  fp_sub :: "'f \<Rightarrow> 'f \<Rightarrow> 'f"
  fp_mul :: "'f \<Rightarrow> 'f \<Rightarrow> 'f"
  fp_div :: "'f \<Rightarrow> 'f \<Rightarrow> 'f"
  fp_le :: "'f \<Rightarrow> 'f \<Rightarrow> bool"
  fp_eq :: "'f \<Rightarrow> 'f \<Rightarrow> bool"
  fp_nan :: "'f \<Rightarrow> bool"
  fp_of_int :: "int \<Rightarrow> 'f"

record 'f arith =
  dbl :: "'f fp"
  sgl :: "'f fp"
  dbl_1em10 :: 'f

abbreviation num :: "'f arith \<Rightarrow> int \<Rightarrow> 'f" where
  "num A \<equiv> fp_of_int (dbl A)"

definition INT_MAX :: int where
  "INT_MAX = 2147483647"

section \<open>Data\<close>

text \<open>
  The value of an attribute. The same type stands for the union of release 4 and 5 and
  for the content of the \<open>Any\<close> of the releases before; \<open>ATT_NO_DATA\<close> is a union or an
  \<open>Any\<close> without data. States are their numbers.
\<close>

datatype 'f AttrValUnion =
    ATT_BOOL "bool list"
  | ATT_SHORT "16 word list"
  | ATT_LONG "32 word list"
  | ATT_LONG64 "64 word list"
  | ATT_FLOAT "'f list"
  | ATT_DOUBLE "'f list"
  | ATT_UCHAR "8 word list"
  | ATT_USHORT "16 word list"
  | ATT_ULONG "32 word list"
  | ATT_ULONG64 "64 word list"
  | ATT_STRING "string list"
  | ATT_STATE "nat list"
  | DEVICE_STATE nat
  | ATT_ENCODED "(string \<times> 8 word list) list"
  | ATT_NO_DATA

type_synonym 'f att_value = "'f AttrValUnion AttributeValue"

record 'f SuppliedEventData =
  attr_val :: "'f att_value option"
  attr_val_3 :: "'f att_value option"
  attr_val_4 :: "'f att_value option"
  attr_val_5 :: "'f att_value option"

record 'f LastAttrValue =
  inited :: bool
  lv_quality :: AttrQuality
  lv_value :: "'f AttrValUnion"
  lv_err :: bool
  lv_except :: "DevError list"
  lv_value_4 :: "'f AttrValUnion"

datatype EventType =
    CHANGE_EVENT | PERIODIC_EVENT | ARCHIVE_EVENT | USER_EVENT | ATTR_CONF_EVENT
  | DATA_READY_EVENT | INTERFACE_CHANGE_EVENT | PIPE_EVENT | ALARM_EVENT

fun EventName :: "EventType \<Rightarrow> string" where
  "EventName CHANGE_EVENT = ''change''"
| "EventName PERIODIC_EVENT = ''periodic''"
| "EventName ARCHIVE_EVENT = ''archive''"
| "EventName USER_EVENT = ''user_event''"
| "EventName ATTR_CONF_EVENT = ''attr_conf''"
| "EventName DATA_READY_EVENT = ''data_ready''"
| "EventName INTERFACE_CHANGE_EVENT = ''intr_change''"
| "EventName PIPE_EVENT = ''pipe''"
| "EventName ALARM_EVENT = ''alarm''"

text \<open>
  The members of an attribute that the supplier uses. The dates of the last
  subscriptions are kept per kind of event and release of the client library.
\<close>

record 'f Attribute =
  is_dev_enum :: bool
  rel_change :: "'f \<times> 'f"
  abs_change :: "'f \<times> 'f"
  archive_rel_change :: "'f \<times> 'f"
  archive_abs_change :: "'f \<times> 'f"
  event_period :: int
  archive_period :: int
  periodic_counter :: int
  archive_periodic_counter :: int
  prev_change_event :: "'f LastAttrValue"
  prev_alarm_event :: "'f LastAttrValue"
  prev_archive_event :: "'f LastAttrValue"
  last_periodic :: int
  archive_last_periodic :: int
  archive_last_event :: int
  client_lib :: "EventType \<Rightarrow> int list"
  subscription :: "EventType \<Rightarrow> int \<Rightarrow> int"

text \<open>
  An event handed to the transport.
\<close>

record 'f pushed =
  pu_name :: string
  pu_filter :: "(string \<times> 'f) list"
  pu_filter_lg :: "(string \<times> int) list"
  pu_value :: "'f SuppliedEventData"
  pu_except :: "DevError list option"
  pu_inc_ctr :: bool

text \<open>
  The result of a comparison: whether there is a change, whether it is a forced one, and
  the differences computed last.
\<close>

record 'f detection =
  is_change :: bool
  force_change :: bool
  delta_rel :: 'f
  delta_abs :: 'f


section \<open>Comparing errors and storing values\<close>

fun compare_errors :: "DevError list \<Rightarrow> DevError list \<Rightarrow> bool" where
  "compare_errors (a # as) (b # bs) \<longleftrightarrow>
    (if err_severity a \<noteq> err_severity b then False
     else if err_origin a \<noteq> err_origin b then False
     else if err_reason a \<noteq> err_reason b then False
     else if err_desc a \<noteq> err_desc b then False
     else compare_errors as bs)"
| "compare_errors _ _ \<longleftrightarrow> True"

definition compare_exception :: "DevError list \<Rightarrow> DevError list \<Rightarrow> bool" where
  "compare_exception ex1 ex2 \<longleftrightarrow> (if length ex1 \<noteq> length ex2 then False else compare_errors ex1 ex2)"

definition store ::
    "'f att_value option \<Rightarrow> 'f att_value option \<Rightarrow> 'f att_value option \<Rightarrow> 'f att_value option \<Rightarrow>
     DevError list option \<Rightarrow> 'f LastAttrValue \<Rightarrow> 'f LastAttrValue" where
  "store attr_5 attr_4 attr_3 attr err l =
    (case err of
       Some e \<Rightarrow> l\<lparr>lv_except := e, lv_err := True\<rparr>
     | None \<Rightarrow>
         (case attr_5 of
            Some v \<Rightarrow> l\<lparr>lv_quality := av_quality v, lv_value_4 := av_value v\<rparr>
          | None \<Rightarrow>
              (case attr_4 of
                 Some v \<Rightarrow> l\<lparr>lv_quality := av_quality v, lv_value_4 := av_value v\<rparr>
               | None \<Rightarrow>
                   (case attr_3 of
                      Some v \<Rightarrow> l\<lparr>lv_quality := av_quality v, lv_value := av_value v\<rparr>
                    | None \<Rightarrow>
                        (case attr of
                           Some v \<Rightarrow> l\<lparr>lv_quality := av_quality v, lv_value := av_value v\<rparr>
                         | None \<Rightarrow> l))))\<lparr>lv_err := False\<rparr>)\<lparr>inited := True\<rparr>"

definition store_supplied :: "'f SuppliedEventData \<Rightarrow> DevError list option \<Rightarrow> 'f LastAttrValue \<Rightarrow> 'f LastAttrValue" where
  "store_supplied v = store (attr_val_5 v) (attr_val_4 v) (attr_val_3 v) (attr_val v)"

text \<open>
  The value that counts, and whether it is in an \<open>Any\<close>.
\<close>

definition the_value :: "'f SuppliedEventData \<Rightarrow> (bool \<times> 'f att_value) result" where
  "the_value v =
    (case attr_val_5 v of
       Some a \<Rightarrow> Ok (False, a)
     | None \<Rightarrow>
         (case attr_val_4 v of
            Some a \<Rightarrow> Ok (False, a)
          | None \<Rightarrow>
              (case attr_val_3 v of
                 Some a \<Rightarrow> Ok (True, a)
               | None \<Rightarrow> (case attr_val v of Some a \<Rightarrow> Ok (True, a) | None \<Rightarrow> Undef))))"


section \<open>Differences\<close>

text \<open>
  The relative difference in percent and the absolute one. Elements of at most 32 bits,
  signed or promoted to \<open>int\<close>, are computed in \<open>int\<close>, those of 64 bits in 64 bits;
  overflow of signed numbers is undefined. Unsigned numbers of 32 and 64 bits wrap.
\<close>

definition c_int :: "nat \<Rightarrow> int \<Rightarrow> int result" where
  "c_int w x = (if - (2 ^ (w - 1)) \<le> x \<and> x < 2 ^ (w - 1) then Ok x else Undef)"

definition rel_int :: "nat \<Rightarrow> int \<Rightarrow> int \<Rightarrow> int result" where
  "rel_int w c p =
    (if p \<noteq> 0 then rbind (c_int w (c - p)) (\<lambda>d. rbind (c_int w (d * 100)) (\<lambda>e. c_int w (e sdiv p)))
     else Ok (if c = p then 0 else 100))"

definition abs_int :: "nat \<Rightarrow> int \<Rightarrow> int \<Rightarrow> int result" where
  "abs_int w c p = c_int w (c - p)"

definition rel_uns :: "'a :: len word \<Rightarrow> 'a word \<Rightarrow> int result" where
  "rel_uns c p = Ok (if p \<noteq> 0 then uint ((c - p) * 100 div p) else if c = p then 0 else 100)"

definition abs_uns :: "'a :: len word \<Rightarrow> 'a word \<Rightarrow> int result" where
  "abs_uns c p = Ok (uint (c - p))"

definition outside :: "'f arith \<Rightarrow> 'f \<times> 'f \<Rightarrow> 'f \<Rightarrow> bool" where
  "outside A th x \<longleftrightarrow> fp_le (dbl A) x (fst th) \<or> fp_le (dbl A) (snd th) x"

text \<open>
  A pair of thresholds is in use if its first member is not \<open>INT_MAX\<close>.
\<close>

definition in_use :: "'f arith \<Rightarrow> 'f \<times> 'f \<Rightarrow> bool" where
  "in_use A th \<longleftrightarrow> \<not> fp_eq (dbl A) (fst th) (num A INT_MAX)"

definition rel_step :: "'f arith \<Rightarrow> 'f \<times> 'f \<Rightarrow> int result \<Rightarrow> 'f detection \<Rightarrow> 'f detection result" where
  "rel_step A th r d =
    (if in_use A th
     then rbind r (\<lambda>x. let d1 = d\<lparr>delta_rel := num A x\<rparr> in
       Ok (if outside A th (num A x) then d1\<lparr>is_change := True\<rparr> else d1))
     else Ok d)"

definition abs_step :: "'f arith \<Rightarrow> 'f \<times> 'f \<Rightarrow> int result \<Rightarrow> 'f detection \<Rightarrow> 'f detection result" where
  "abs_step A th r d =
    (if in_use A th
     then rbind r (\<lambda>x. let d1 = d\<lparr>delta_abs := num A x\<rparr> in
       Ok (if outside A th (num A x) then d1\<lparr>is_change := True\<rparr> else d1))
     else Ok d)"

definition num_elt :: "'f arith \<Rightarrow> 'f \<times> 'f \<Rightarrow> 'f \<times> 'f \<Rightarrow> int result \<Rightarrow> int result \<Rightarrow> 'f detection \<Rightarrow> 'f detection result" where
  "num_elt A rth ath r a d =
    rbind (rel_step A rth r d) (\<lambda>d1. if is_change d1 then Ok d1 else abs_step A ath a d1)"

text \<open>
  Floating-point elements. A change from or to \<open>NaN\<close> counts; the absolute difference
  is corrected for rounding errors.
\<close>

definition fl_rel_step :: "'f arith \<Rightarrow> 'f fp \<Rightarrow> 'f \<times> 'f \<Rightarrow> 'f \<Rightarrow> 'f \<Rightarrow> 'f detection \<Rightarrow> 'f detection" where
  "fl_rel_step A S th c p d =
    (if in_use A th
     then if fp_nan S p \<noteq> fp_nan S c then d\<lparr>is_change := True\<rparr>
       else let x = (if \<not> fp_eq S p (fp_of_int S 0) then fp_div S (fp_mul S (fp_sub S c p) (fp_of_int S 100)) p
                     else if fp_eq S c p then num A 0 else num A 100);
                d1 = d\<lparr>delta_rel := x\<rparr>
            in if outside A th x then d1\<lparr>is_change := True\<rparr> else d1
     else d)"

definition fl_abs_step :: "'f arith \<Rightarrow> 'f fp \<Rightarrow> 'f \<times> 'f \<Rightarrow> 'f \<Rightarrow> 'f \<Rightarrow> 'f detection \<Rightarrow> 'f detection" where
  "fl_abs_step A S th c p d =
    (if in_use A th
     then if fp_nan S p \<noteq> fp_nan S c then d\<lparr>is_change := True\<rparr>
       else let x = fp_sub S c p;
                max_change = fp_add (dbl A) x (fp_mul (dbl A) (snd th) (dbl_1em10 A));
                min_change = fp_add (dbl A) x (fp_mul (dbl A) (fst th) (dbl_1em10 A));
                d1 = d\<lparr>delta_abs := x\<rparr>
            in if fp_le (dbl A) min_change (fst th) \<or> fp_le (dbl A) (snd th) max_change
               then d1\<lparr>is_change := True\<rparr> else d1
     else d)"

definition fl_elt :: "'f arith \<Rightarrow> 'f fp \<Rightarrow> 'f \<times> 'f \<Rightarrow> 'f \<times> 'f \<Rightarrow> 'f \<Rightarrow> 'f \<Rightarrow> 'f detection \<Rightarrow> 'f detection result" where
  "fl_elt A S rth ath c p d =
    (let d1 = fl_rel_step A S rth c p d in Ok (if is_change d1 then d1 else fl_abs_step A S ath c p d1))"

text \<open>
  Elements that are compared for equality only.
\<close>

definition differs :: "'f arith \<Rightarrow> 'f detection \<Rightarrow> 'f detection" where
  "differs A d = d\<lparr>is_change := True, delta_rel := num A 100, delta_abs := num A 100\<rparr>"

definition same_elt :: "'f arith \<Rightarrow> 'a \<Rightarrow> 'a \<Rightarrow> 'f detection \<Rightarrow> 'f detection result" where
  "same_elt A c p d = Ok (if c \<noteq> p then differs A d else d)"

definition forced :: "'f detection \<Rightarrow> 'f detection" where
  "forced d = d\<lparr>is_change := True, force_change := True\<rparr>"

fun elts_change :: "('a \<Rightarrow> 'a \<Rightarrow> 'f detection \<Rightarrow> 'f detection result) \<Rightarrow> 'a list \<Rightarrow> 'a list \<Rightarrow> 'f detection \<Rightarrow> 'f detection result" where
  "elts_change e (c # cs) (p # ps) d =
    rbind (e c p d) (\<lambda>d1. if is_change d1 then Ok d1 else elts_change e cs ps d1)"
| "elts_change e _ _ d = Ok d"

definition seq_change :: "('a \<Rightarrow> 'a \<Rightarrow> 'f detection \<Rightarrow> 'f detection result) \<Rightarrow> 'a list \<Rightarrow> 'a list \<Rightarrow> 'f detection \<Rightarrow> 'f detection result" where
  "seq_change e cs ps d = (if length cs \<noteq> length ps then Ok (forced d) else elts_change e cs ps d)"

text \<open>
  The loop over the labels of an enumeration returns in its first turn.
\<close>

definition enum_change :: "'f arith \<Rightarrow> 'a list \<Rightarrow> 'a list \<Rightarrow> 'f detection \<Rightarrow> 'f detection result" where
  "enum_change A cs ps d =
    (if length cs \<noteq> length ps then Ok (forced d)
     else if cs = [] then Ok d
     else same_elt A (hd cs) (hd ps) d)"

definition signed_elt :: "'f arith \<Rightarrow> 'f \<times> 'f \<Rightarrow> 'f \<times> 'f \<Rightarrow> nat \<Rightarrow> ('a \<Rightarrow> int) \<Rightarrow> 'a \<Rightarrow> 'a \<Rightarrow> 'f detection \<Rightarrow> 'f detection result" where
  "signed_elt A rth ath w f c p = num_elt A rth ath (rel_int w (f c) (f p)) (abs_int w (f c) (f p))"

definition uns_elt :: "'f arith \<Rightarrow> 'f \<times> 'f \<Rightarrow> 'f \<times> 'f \<Rightarrow> 'a :: len word \<Rightarrow> 'a word \<Rightarrow> 'f detection \<Rightarrow> 'f detection result" where
  "uns_elt A rth ath c p = num_elt A rth ath (rel_uns c p) (abs_uns c p)"

definition encoded_change ::
    "'f arith \<Rightarrow> 'f \<times> 'f \<Rightarrow> 'f \<times> 'f \<Rightarrow> (string \<times> 8 word list) list \<Rightarrow> (string \<times> 8 word list) list \<Rightarrow>
     'f detection \<Rightarrow> 'f detection result" where
  "encoded_change A rth ath cs ps d =
    (if cs = [] \<or> ps = [] then Undef
     else let (cf, cd) = hd cs; (pf, pd) = hd ps in
       if length cd \<noteq> length pd \<or> length cf \<noteq> length pf then Ok (forced d)
       else if cf \<noteq> pf then Ok (differs A d)
       else elts_change (signed_elt A rth ath 32 uint) cd pd d)"

section \<open>Detecting a change\<close>

text \<open>
  The comparison of the new value with the one of the last event, by its type. A union
  is read as the type of the new value: for another type the accessor generated by the
  IDL compiler throws, with the exception \<open>corba\<close>. The extraction from an \<open>Any\<close> of
  another type leaves the pointer uninitialised, and an \<open>Any\<close> without data has no
  content type.
\<close>

definition other_type :: "exn \<Rightarrow> bool \<Rightarrow> 'a result" where
  "other_type corba any = (if any then Undef else Throw corba)"

fun detect_value ::
    "exn \<Rightarrow> 'f arith \<Rightarrow> bool \<Rightarrow> 'f \<times> 'f \<Rightarrow> 'f \<times> 'f \<Rightarrow> bool \<Rightarrow> 'f AttrValUnion \<Rightarrow> 'f AttrValUnion \<Rightarrow>
     'f detection \<Rightarrow> 'f detection result" where
  "detect_value corba A en rth ath any (ATT_ENCODED cs) prev d =
    (if any then Ok d
     else case prev of ATT_ENCODED ps \<Rightarrow> encoded_change A rth ath cs ps d | _ \<Rightarrow> other_type corba any)"
| "detect_value corba A en rth ath any (DEVICE_STATE c) prev d =
    (case prev of DEVICE_STATE p \<Rightarrow> same_elt A c p d | _ \<Rightarrow> other_type corba any)"
| "detect_value corba A en rth ath any (ATT_LONG cs) prev d =
    (case prev of ATT_LONG ps \<Rightarrow> seq_change (signed_elt A rth ath 32 sint) cs ps d | _ \<Rightarrow> other_type corba any)"
| "detect_value corba A en rth ath any (ATT_LONG64 cs) prev d =
    (case prev of ATT_LONG64 ps \<Rightarrow> seq_change (signed_elt A rth ath 64 sint) cs ps d | _ \<Rightarrow> other_type corba any)"
| "detect_value corba A en rth ath any (ATT_SHORT cs) prev d =
    (case prev of
       ATT_SHORT ps \<Rightarrow>
         (if en then enum_change A cs ps d else seq_change (signed_elt A rth ath 32 sint) cs ps d)
     | _ \<Rightarrow> other_type corba any)"
| "detect_value corba A en rth ath any (ATT_DOUBLE cs) prev d =
    (case prev of ATT_DOUBLE ps \<Rightarrow> seq_change (fl_elt A (dbl A) rth ath) cs ps d | _ \<Rightarrow> other_type corba any)"
| "detect_value corba A en rth ath any (ATT_STRING cs) prev d =
    (case prev of ATT_STRING ps \<Rightarrow> seq_change (same_elt A) cs ps d | _ \<Rightarrow> other_type corba any)"
| "detect_value corba A en rth ath any (ATT_FLOAT cs) prev d =
    (case prev of ATT_FLOAT ps \<Rightarrow> seq_change (fl_elt A (sgl A) rth ath) cs ps d | _ \<Rightarrow> other_type corba any)"
| "detect_value corba A en rth ath any (ATT_USHORT cs) prev d =
    (case prev of ATT_USHORT ps \<Rightarrow> seq_change (signed_elt A rth ath 32 uint) cs ps d | _ \<Rightarrow> other_type corba any)"
| "detect_value corba A en rth ath any (ATT_BOOL cs) prev d =
    (case prev of ATT_BOOL ps \<Rightarrow> seq_change (same_elt A) cs ps d | _ \<Rightarrow> other_type corba any)"
| "detect_value corba A en rth ath any (ATT_UCHAR cs) prev d =
    (case prev of ATT_UCHAR ps \<Rightarrow> seq_change (signed_elt A rth ath 32 uint) cs ps d | _ \<Rightarrow> other_type corba any)"
| "detect_value corba A en rth ath any (ATT_ULONG cs) prev d =
    (case prev of ATT_ULONG ps \<Rightarrow> seq_change (uns_elt A rth ath) cs ps d | _ \<Rightarrow> other_type corba any)"
| "detect_value corba A en rth ath any (ATT_ULONG64 cs) prev d =
    (case prev of ATT_ULONG64 ps \<Rightarrow> seq_change (uns_elt A rth ath) cs ps d | _ \<Rightarrow> other_type corba any)"
| "detect_value corba A en rth ath any (ATT_STATE cs) prev d =
    (case prev of ATT_STATE ps \<Rightarrow> seq_change (same_elt A) cs ps d | _ \<Rightarrow> other_type corba any)"
| "detect_value corba A en rth ath any ATT_NO_DATA prev d = (if any then Throw corba else Ok d)"

text \<open>
  The part that does not look at the values: an error that was not reported yet, the end
  of an error, a value that becomes invalid or valid again. \<open>None\<close> if it does not decide.
\<close>

definition forced_change :: "'f LastAttrValue \<Rightarrow> AttrQuality \<Rightarrow> DevError list option \<Rightarrow> bool option" where
  "forced_change prev q err =
    (case err of
       Some e \<Rightarrow> Some (\<not> (lv_err prev \<and> compare_exception e (lv_except prev)))
     | None \<Rightarrow>
         if lv_err prev then Some True
         else if q = ATTR_INVALID then Some (lv_quality prev \<noteq> ATTR_INVALID)
         else if lv_quality prev = ATTR_INVALID then Some True
         else None)"

definition no_change :: "'f arith \<Rightarrow> 'f detection" where
  "no_change A = \<lparr>is_change = False, force_change = False, delta_rel = num A 0, delta_abs = num A 0\<rparr>"

definition prev_event :: "bool \<Rightarrow> 'f Attribute \<Rightarrow> 'f LastAttrValue" where
  "prev_event archive a = (if archive then prev_archive_event a else prev_change_event a)"

definition thresholds :: "bool \<Rightarrow> 'f Attribute \<Rightarrow> ('f \<times> 'f) \<times> ('f \<times> 'f)" where
  "thresholds archive a =
    (if archive then (archive_rel_change a, archive_abs_change a) else (rel_change a, abs_change a))"

definition detect_change ::
    "exn \<Rightarrow> 'f arith \<Rightarrow> 'f Attribute \<Rightarrow> 'f SuppliedEventData \<Rightarrow> bool \<Rightarrow> DevError list option \<Rightarrow> 'f detection result" where
  "detect_change corba A a v archive err =
    rbind (the_value v) (\<lambda>(any, nv).
      let prev = prev_event archive a; (rth, ath) = thresholds archive a; d = no_change A in
      case forced_change prev (av_quality nv) err of
        Some b \<Rightarrow> Ok (if b then forced d else d)
      | None \<Rightarrow>
          if inited prev \<and> lv_quality prev \<noteq> ATTR_INVALID \<and> av_quality nv \<noteq> ATTR_INVALID
          then detect_value corba A (is_dev_enum a) rth ath any (av_value nv)
                 (if any then lv_value prev else lv_value_4 prev) d
          else Ok d)"


section \<open>Pushing events\<close>

text \<open>
  The conversions for clients of other releases. Converting from release 3 does not
  convert the data.
\<close>

definition without_data :: "'f att_value \<Rightarrow> 'f att_value" where
  "without_data v = v\<lparr>av_value := ATT_NO_DATA\<rparr>"

definition data_as_any :: "'f att_value \<Rightarrow> 'f att_value" where
  "data_as_any v = (if av_quality v \<noteq> ATTR_INVALID then v else without_data v)"

definition no_event_data :: "'f SuppliedEventData" where
  "no_event_data = \<lparr>attr_val = None, attr_val_3 = None, attr_val_4 = None, attr_val_5 = None\<rparr>"

definition convert_att_event_to_5 :: "'f SuppliedEventData \<Rightarrow> 'f SuppliedEventData" where
  "convert_att_event_to_5 v =
    no_event_data\<lparr>attr_val_5 :=
      (case attr_val_3 v of
         Some x \<Rightarrow> Some (without_data x)
       | None \<Rightarrow> (case attr_val_4 v of Some x \<Rightarrow> Some x | None \<Rightarrow> attr_val_5 v))\<rparr>"

definition convert_att_event_to_4 :: "'f SuppliedEventData \<Rightarrow> 'f SuppliedEventData" where
  "convert_att_event_to_4 v =
    no_event_data\<lparr>attr_val_4 :=
      (case attr_val_3 v of
         Some x \<Rightarrow> Some (without_data x)
       | None \<Rightarrow> (case attr_val_5 v of Some x \<Rightarrow> Some x | None \<Rightarrow> attr_val_4 v))\<rparr>"

definition convert_att_event_to_3 :: "'f SuppliedEventData \<Rightarrow> 'f SuppliedEventData" where
  "convert_att_event_to_3 v =
    no_event_data\<lparr>attr_val_3 :=
      (case attr_val_4 v of
         Some x \<Rightarrow> Some (data_as_any x)
       | None \<Rightarrow> (case attr_val_5 v of Some x \<Rightarrow> Some (data_as_any x) | None \<Rightarrow> attr_val_3 v))\<rparr>"

definition add_idl_prefix :: "string \<Rightarrow> string" where
  "add_idl_prefix n = ''idl5_'' @ n"

text \<open>
  The loop over the releases of the clients. The counter of the event is incremented
  with the first one.
\<close>

definition push_one ::
    "EventType \<Rightarrow> (string \<times> 'f) list \<Rightarrow> (string \<times> int) list \<Rightarrow> 'f SuppliedEventData \<Rightarrow> DevError list option \<Rightarrow>
     bool \<Rightarrow> int \<Rightarrow> 'f pushed" where
  "push_one ev fs ls v err inc lib =
    \<lparr>pu_name = (if lib = 6 \<or> lib = 5 then add_idl_prefix (EventName ev) else EventName ev),
     pu_filter = fs, pu_filter_lg = ls,
     pu_value = (if lib = 6 \<or> lib = 5 then convert_att_event_to_5 v
                 else if lib = 4 then convert_att_event_to_4 v else convert_att_event_to_3 v),
     pu_except = err, pu_inc_ctr = inc\<rparr>"

fun push_loop ::
    "(bool \<Rightarrow> int \<Rightarrow> 'f pushed) \<Rightarrow> bool \<Rightarrow> int list \<Rightarrow> 'f pushed list" where
  "push_loop f inc [] = []"
| "push_loop f inc (lib # libs) = f inc lib # push_loop f False libs"

definition flag :: "'f arith \<Rightarrow> bool \<Rightarrow> 'f" where
  "flag A b = num A (if b then 1 else 0)"

text \<open>
  The supplier's methods return whether they detected an event, the attribute and the
  events pushed.
\<close>

type_synonym 'f detected = "(bool \<times> 'f Attribute \<times> 'f pushed list) result"

definition detect_and_push_change_event ::
    "exn \<Rightarrow> 'f arith \<Rightarrow> 'f SuppliedEventData \<Rightarrow> DevError list option \<Rightarrow> 'f Attribute \<Rightarrow> 'f detected" where
  "detect_and_push_change_event corba A v err a =
    rbind (the_value v) (\<lambda>(_, nv).
    rbind (if \<not> inited (prev_change_event a)
           then Ok (a\<lparr>prev_change_event := store_supplied v err (prev_change_event a)\<rparr>, (no_change A)\<lparr>is_change := True\<rparr>)
           else rbind (detect_change corba A a v False err) (\<lambda>d. Ok (a, d))) (\<lambda>(a1, d).
      let quality_change = (err = None \<and> lv_quality (prev_change_event a1) \<noteq> av_quality nv);
          fs = [(''delta_change_rel'', delta_rel d), (''delta_change_abs'', delta_abs d),
                (''forced_event'', flag A (force_change d)), (''quality'', flag A quality_change)]
      in if is_change d \<or> quality_change
         then Ok (True, a1\<lparr>prev_change_event := store_supplied v err (prev_change_event a1)\<rparr>,
                push_loop (push_one CHANGE_EVENT fs [] v err) True (client_lib a1 CHANGE_EVENT))
         else Ok (False, a1, [])))"

definition alarm_quality :: "AttrQuality \<Rightarrow> bool" where
  "alarm_quality q \<longleftrightarrow> q = ATTR_ALARM \<or> q = ATTR_WARNING"

text \<open>
  Alarm events are only for clients of release 6; the default branch of the switch is
  empty in release builds.
\<close>

definition push_alarm :: "'f SuppliedEventData \<Rightarrow> DevError list option \<Rightarrow> bool \<Rightarrow> int \<Rightarrow> 'f pushed" where
  "push_alarm v err inc lib =
    \<lparr>pu_name = EventName ALARM_EVENT, pu_filter = [], pu_filter_lg = [],
     pu_value = (if lib = 6 then convert_att_event_to_5 v else no_event_data),
     pu_except = err, pu_inc_ctr = inc\<rparr>"

definition detect_and_push_alarm_event ::
    "'f SuppliedEventData \<Rightarrow> DevError list option \<Rightarrow> 'f Attribute \<Rightarrow> bool \<times> 'f Attribute \<times> 'f pushed list" where
  "detect_and_push_alarm_event v err a =
    (let the_quality = (case attr_val_5 v of Some x \<Rightarrow> av_quality x | None \<Rightarrow> ATTR_VALID);
         store_5 = store (attr_val_5 v) None None None err;
         first = (\<not> inited (prev_alarm_event a));
         prev = (if first then store_5 (prev_alarm_event a) else prev_alarm_event a);
         is_exception = (err \<noteq> None);
         exc_change = (is_exception \<noteq> lv_err prev \<or>
           (case err of Some e \<Rightarrow> \<not> compare_exception e (lv_except prev) | None \<Rightarrow> False));
         quality_has_changed = (lv_quality prev \<noteq> the_quality);
         to_or_from = (alarm_quality (lv_quality prev) \<or> alarm_quality the_quality);
         is_alarm = (first \<or> exc_change \<or> (\<not> is_exception \<and> quality_has_changed \<and> to_or_from))
     in if is_alarm
        then (True, a\<lparr>prev_alarm_event := store_5 prev\<rparr>, push_loop (push_alarm v err) True (client_lib a ALARM_EVENT))
        else (False, a\<lparr>prev_alarm_event := prev\<rparr>, []))"

text \<open>
  Periods are compared with a tolerance: two percent, one hundred milliseconds for periods
  of five seconds and more.
\<close>

definition ms :: "int \<Rightarrow> int" where
  "ms x = x * 1000000"

definition get_minimal_event_reporting_period :: "int \<Rightarrow> int" where
  "get_minimal_event_reporting_period p =
    (if p \<ge> ms 5000 then p - ms 100
     else if 0 \<le> p then (p * 98 + 50) div 100 else - ((- p * 98 + 50) div 100))"

definition detect_and_push_archive_event ::
    "exn \<Rightarrow> 'f arith \<Rightarrow> int \<Rightarrow> 'f SuppliedEventData \<Rightarrow> DevError list option \<Rightarrow> 'f Attribute \<Rightarrow> 'f detected" where
  "detect_and_push_archive_event corba A time_bef_attr v err a =
    rbind (the_value v) (\<lambda>(_, nv).
    let period_change = (archive_period a \<noteq> INT_MAX \<and>
          time_bef_attr - archive_last_periodic a > get_minimal_event_reporting_period (ms (archive_period a)) \<and>
          inited (prev_archive_event a)) in
    rbind (if \<not> inited (prev_archive_event a)
           then Ok (a\<lparr>prev_archive_event := store_supplied v err (prev_archive_event a),
                      archive_last_periodic := time_bef_attr, archive_last_event := time_bef_attr\<rparr>,
                    (no_change A)\<lparr>is_change := True\<rparr>)
           else if period_change then Ok (a, (no_change A)\<lparr>is_change := True\<rparr>)
           else rbind (detect_change corba A a v True err) (\<lambda>d. Ok (a, d))) (\<lambda>(a1, d).
      let quality_change = (err = None \<and> lv_quality (prev_archive_event a1) \<noteq> av_quality nv)
      in if is_change d \<or> quality_change
         then let ctr = archive_periodic_counter a1 + 1;
                  a2 = a1\<lparr>prev_archive_event := store_supplied v err (prev_archive_event a1)\<rparr>;
                  a3 = (if period_change then a2\<lparr>archive_periodic_counter := ctr, archive_last_periodic := time_bef_attr\<rparr> else a2);
                  fs = [(''delta_change_rel'', delta_rel d), (''delta_change_abs'', delta_abs d),
                        (''forced_event'', flag A (force_change d)), (''quality'', flag A quality_change),
                        (''delta_event'', fp_div (dbl A) (num A (time_bef_attr - archive_last_event a3)) (num A 1000000))];
                  ls = [(''counter'', if period_change then ctr else - 1)]
              in Ok (True, a3\<lparr>archive_last_event := time_bef_attr\<rparr>,
                   push_loop (push_one ARCHIVE_EVENT fs ls v err) True (client_lib a3 ARCHIVE_EVENT))
         else Ok (False, a1, [])))"

definition detect_and_push_periodic_event ::
    "int \<Rightarrow> 'f SuppliedEventData \<Rightarrow> DevError list option \<Rightarrow> 'f Attribute \<Rightarrow> bool \<times> 'f Attribute \<times> 'f pushed list" where
  "detect_and_push_periodic_event time_bef_attr v err a =
    (if time_bef_attr - last_periodic a > get_minimal_event_reporting_period (ms (event_period a))
     then let ctr = periodic_counter a + 1
          in (True, a\<lparr>periodic_counter := ctr, last_periodic := time_bef_attr\<rparr>,
              push_loop (push_one PERIODIC_EVENT [] [(''counter'', ctr)] v err) True (client_lib a PERIODIC_EVENT))
     else (False, a, []))"

text \<open>
  All kinds of events after a reading. Before each kind, the releases whose last
  subscription is too old are taken from the list of the attribute; the decision to look
  for an event is taken on the list as it was before. The stale releases below 4 are all
  looked for under the number 3.
\<close>

definition EVENT_RESUBSCRIBE_PERIOD :: int where
  "EVENT_RESUBSCRIBE_PERIOD = 600"

definition remove_client_lib :: "int \<Rightarrow> EventType \<Rightarrow> 'f Attribute \<Rightarrow> 'f Attribute" where
  "remove_client_lib l ev a = a\<lparr>client_lib := (client_lib a)(ev := remove1 l (client_lib a ev))\<rparr>"

definition set_client_lib :: "int \<Rightarrow> EventType \<Rightarrow> 'f Attribute \<Rightarrow> 'f Attribute" where
  "set_client_lib l ev a =
    (if l \<in> set (client_lib a ev) then a else a\<lparr>client_lib := (client_lib a)(ev := client_lib a ev @ [l])\<rparr>)"

definition drop_stale :: "int \<Rightarrow> EventType \<Rightarrow> int \<Rightarrow> 'f Attribute \<Rightarrow> 'f Attribute" where
  "drop_stale now ev lib a =
    (let sub = (if lib = 6 \<or> lib = 5 then 5 else if lib = 4 then 4 else 3);
         entry = (if lib = 6 \<or> lib = 5 \<or> lib = 4 then lib else 3)
     in if now - subscription a ev sub \<ge> EVENT_RESUBSCRIBE_PERIOD then remove_client_lib entry ev a else a)"

definition drop_stale_alarm :: "int \<Rightarrow> int \<Rightarrow> 'f Attribute \<Rightarrow> 'f Attribute" where
  "drop_stale_alarm now lib a =
    (if lib = 6 \<and> now - subscription a ALARM_EVENT 6 \<ge> EVENT_RESUBSCRIBE_PERIOD
     then remove_client_lib 6 ALARM_EVENT a else a)"

record SendEventType =
  se_change :: bool
  se_alarm :: bool
  se_archive :: bool
  se_periodic :: bool

text \<open>
  One kind of event: the state is the attribute with the events pushed so far.
\<close>

definition detect_kind ::
    "(int \<Rightarrow> 'f Attribute \<Rightarrow> 'f Attribute) \<Rightarrow> ('f Attribute \<Rightarrow> 'f detected) \<Rightarrow> EventType \<Rightarrow>
     'f Attribute \<times> 'f pushed list \<Rightarrow> bool result \<times> ('f Attribute \<times> 'f pushed list)" where
  "detect_kind stale f ev s =
    (let (a, log) = s; libs = client_lib a ev; a1 = fold stale libs a in
     if libs = [] then (Ok False, (a1, log))
     else case f a1 of
         Ok (b, a2, ps) \<Rightarrow> (Ok b, (a2, log @ ps))
       | Throw e \<Rightarrow> (Throw e, (a1, log))
       | Undef \<Rightarrow> (Undef, (a1, log)))"

definition detect_and_push_events ::
    "exn \<Rightarrow> 'f arith \<Rightarrow> int \<Rightarrow> int \<Rightarrow> 'f SuppliedEventData \<Rightarrow> DevError list option \<Rightarrow>
     'f Attribute \<times> 'f pushed list \<Rightarrow> SendEventType result \<times> ('f Attribute \<times> 'f pushed list)" where
  "detect_and_push_events corba A now time_bef_attr v err s =
    sbind (detect_kind (drop_stale now CHANGE_EVENT) (detect_and_push_change_event corba A v err) CHANGE_EVENT s) (\<lambda>c s.
    sbind (detect_kind (drop_stale_alarm now) (\<lambda>a. Ok (detect_and_push_alarm_event v err a)) ALARM_EVENT s) (\<lambda>al s.
    sbind (detect_kind (drop_stale now PERIODIC_EVENT) (\<lambda>a. Ok (detect_and_push_periodic_event time_bef_attr v err a)) PERIODIC_EVENT s) (\<lambda>p s.
    sbind (detect_kind (drop_stale now ARCHIVE_EVENT) (detect_and_push_archive_event corba A time_bef_attr v err) ARCHIVE_EVENT s) (\<lambda>ar s.
      (Ok \<lparr>se_change = c, se_alarm = al, se_archive = ar, se_periodic = p\<rparr>, s)))))"

section \<open>Event filters\<close>

text \<open>
  The common contract of the detection of change and alarm events: a reading is compared
  with the last one for which there was an event, and replaces it exactly when it differs
  from it significantly.
\<close>

fun fires :: "('v \<Rightarrow> 'v \<Rightarrow> bool) \<Rightarrow> 'v option \<Rightarrow> 'v \<Rightarrow> bool" where
  "fires sig None v = True"
| "fires sig (Some l) v = sig l v"

fun spec_events :: "('v \<Rightarrow> 'v \<Rightarrow> bool) \<Rightarrow> 'v option \<Rightarrow> 'v list \<Rightarrow> bool list" where
  "spec_events sig l [] = []"
| "spec_events sig l (v # vs) =
    fires sig l v # spec_events sig (if fires sig l v then Some v else l) vs"

fun run_readings :: "('r \<Rightarrow> 's \<Rightarrow> (bool \<times> 's \<times> 'p list) result) \<Rightarrow> 'r list \<Rightarrow> 's \<Rightarrow> (bool list \<times> 's) result" where
  "run_readings f [] s = Ok ([], s)"
| "run_readings f (r # rs) s =
    rbind (f r s) (\<lambda>(b, s1, ps). rbind (run_readings f rs s1) (\<lambda>(bs, s2). Ok (b # bs, s2)))"

locale event_filter =
  fixes step :: "'r \<Rightarrow> 's \<Rightarrow> (bool \<times> 's \<times> 'p list) result"
    and good :: "'r \<Rightarrow> bool"
    and inv :: "'s \<Rightarrow> bool"
    and last_view :: "'s \<Rightarrow> 'v option"
    and view :: "'r \<Rightarrow> 'v"
    and sig :: "'v \<Rightarrow> 'v \<Rightarrow> bool"
  assumes step_ok: "\<lbrakk>inv s; good r\<rbrakk> \<Longrightarrow>
    \<exists>s' ps. step r s = Ok (fires sig (last_view s) (view r), s', ps) \<and> inv s' \<and>
      last_view s' = (if fires sig (last_view s) (view r) then Some (view r) else last_view s)"
begin

lemma run_events:
  assumes "inv s" "\<And>r. r \<in> set rs \<Longrightarrow> good r"
  shows "\<exists>s'. run_readings step rs s = Ok (spec_events sig (last_view s) (map view rs), s') \<and> inv s'"
  using assms
proof (induction rs arbitrary: s)
  case (Cons r rs)
  obtain s1 ps where s1: "step r s = Ok (fires sig (last_view s) (view r), s1, ps)" "inv s1"
    "last_view s1 = (if fires sig (last_view s) (view r) then Some (view r) else last_view s)"
    using step_ok [OF Cons.prems(1)] Cons.prems(2) by (meson list.set_intros(1))
  obtain s2 where "run_readings step rs s1 = Ok (spec_events sig (last_view s1) (map view rs), s2)" "inv s2"
    using Cons.IH [OF s1(2)] Cons.prems(2) by auto
  then show ?case using s1 by simp
qed simp

end

text \<open>
  Error stacks are compared member by member.
\<close>

lemma compare_errors_iff: "length as = length bs \<Longrightarrow> compare_errors as bs \<longleftrightarrow> as = bs"
  by (induction as bs rule: compare_errors.induct) auto

lemma compare_exception_iff: "compare_exception as bs \<longleftrightarrow> as = bs"
  using compare_errors_iff [of as bs] by (auto simp: compare_exception_def)


section \<open>Alarm events\<close>

datatype alarm_view = A_error "DevError list" | A_alarm | A_warning | A_normal

fun quality_view :: "AttrQuality \<Rightarrow> alarm_view" where
  "quality_view ATTR_ALARM = A_alarm"
| "quality_view ATTR_WARNING = A_warning"
| "quality_view q = A_normal"

fun alarm_reading :: "'f att_value \<times> DevError list option \<Rightarrow> alarm_view" where
  "alarm_reading (v, Some e) = A_error e"
| "alarm_reading (v, None) = quality_view (av_quality v)"

definition alarm_last :: "'f Attribute \<Rightarrow> alarm_view option" where
  "alarm_last a =
    (let p = prev_alarm_event a in
     if \<not> inited p then None else Some (if lv_err p then A_error (lv_except p) else quality_view (lv_quality p)))"

definition supplied_5 :: "'f att_value \<Rightarrow> 'f SuppliedEventData" where
  "supplied_5 v = no_event_data\<lparr>attr_val_5 := Some v\<rparr>"

definition alarm_step :: "'f att_value \<times> DevError list option \<Rightarrow> 'f Attribute \<Rightarrow> 'f detected" where
  "alarm_step r a = Ok (detect_and_push_alarm_event (supplied_5 (fst r)) (snd r) a)"

lemma quality_view_differs:
  "quality_view p \<noteq> quality_view q \<longleftrightarrow> p \<noteq> q \<and> (alarm_quality p \<or> alarm_quality q)"
  by (cases p; cases q) (simp_all add: alarm_quality_def)

lemma quality_view_no_error [simp]:
  "quality_view q \<noteq> A_error e" "A_error e \<noteq> quality_view q"
  by (cases q; simp)+

interpretation alarm_filter: event_filter alarm_step "\<lambda>_. True" "\<lambda>_. True" alarm_last alarm_reading "(\<noteq>)"
proof
  fix a :: "'f Attribute" and r :: "'f att_value \<times> DevError list option"
  obtain v err where r: "r = (v, err)" by (cases r)
  show "\<exists>s' ps. alarm_step r a = Ok (fires (\<noteq>) (alarm_last a) (alarm_reading r), s', ps) \<and> True \<and>
      alarm_last s' = (if fires (\<noteq>) (alarm_last a) (alarm_reading r) then Some (alarm_reading r) else alarm_last a)"
    using quality_view_differs [of "lv_quality (prev_alarm_event a)" "av_quality v"]
    by (cases err)
      (auto simp: r alarm_step_def detect_and_push_alarm_event_def supplied_5_def no_event_data_def Let_def
        store_def alarm_last_def compare_exception_iff)
qed

text \<open>
  (C20) Alarm events follow the alarm state. Whatever an attribute is read as, the events
  are exactly those of a filter that reports the first reading and every change between
  normal, warning, alarm and error, another error included; changes of the value or among
  the normal qualities are not reported.
\<close>

theorem alarm_events_track:
  "\<exists>a'. run_readings alarm_step rs a = Ok (spec_events (\<noteq>) (alarm_last a) (map alarm_reading rs), a')"
  using alarm_filter.run_events [of rs a] by simp

section \<open>Change events\<close>

text \<open>
  Attributes of the integer types whose differences are computed with signed numbers.
  Readings for which no difference overflows are those of at most about one part in two
  hundred of the range.
\<close>

datatype int_kind = K_short | K_long | K_long64 | K_uchar | K_ushort

fun kind_width :: "int_kind \<Rightarrow> nat" where
  "kind_width K_long64 = 64"
| "kind_width k = 32"

fun int_vals :: "int_kind \<Rightarrow> 'f AttrValUnion \<Rightarrow> int list option" where
  "int_vals K_short (ATT_SHORT xs) = Some (map sint xs)"
| "int_vals K_long (ATT_LONG xs) = Some (map sint xs)"
| "int_vals K_long64 (ATT_LONG64 xs) = Some (map sint xs)"
| "int_vals K_uchar (ATT_UCHAR xs) = Some (map uint xs)"
| "int_vals K_ushort (ATT_USHORT xs) = Some (map uint xs)"
| "int_vals k v = None"

definition small :: "nat \<Rightarrow> int \<Rightarrow> bool" where
  "small w x \<longleftrightarrow> \<bar>x\<bar> * 200 < 2 ^ (w - 1)"

definition small_vals :: "int_kind \<Rightarrow> 'f AttrValUnion \<Rightarrow> bool" where
  "small_vals k v \<longleftrightarrow> (case int_vals k v of Some xs \<Rightarrow> list_all (small (kind_width k)) xs | None \<Rightarrow> False)"

datatype change_view = V_error "DevError list" | V_invalid | V_value AttrQuality "int list"

definition value_view :: "int_kind \<Rightarrow> AttrQuality \<Rightarrow> 'f AttrValUnion \<Rightarrow> change_view" where
  "value_view k q v = (if q = ATTR_INVALID then V_invalid else V_value q (the (int_vals k v)))"

fun change_reading :: "int_kind \<Rightarrow> 'f att_value \<times> DevError list option \<Rightarrow> change_view" where
  "change_reading k (v, Some e) = V_error e"
| "change_reading k (v, None) = value_view k (av_quality v) (av_value v)"

definition change_last :: "int_kind \<Rightarrow> 'f Attribute \<Rightarrow> change_view option" where
  "change_last k a =
    (let p = prev_change_event a in
     if \<not> inited p then None
     else Some (if lv_err p then V_error (lv_except p) else value_view k (lv_quality p) (lv_value_4 p)))"

fun good_reading :: "int_kind \<Rightarrow> 'f att_value \<times> DevError list option \<Rightarrow> bool" where
  "good_reading k (v, err) \<longleftrightarrow> err \<noteq> None \<or> av_quality v = ATTR_INVALID \<or> small_vals k (av_value v)"

definition change_inv :: "int_kind \<Rightarrow> 'f \<times> 'f \<Rightarrow> 'f \<times> 'f \<Rightarrow> 'f Attribute \<Rightarrow> bool" where
  "change_inv k rth ath a \<longleftrightarrow>
    (let p = prev_change_event a in
     rel_change a = rth \<and> abs_change a = ath \<and> \<not> is_dev_enum a \<and>
     (inited p \<and> \<not> lv_err p \<and> lv_quality p \<noteq> ATTR_INVALID \<longrightarrow> small_vals k (lv_value_4 p)))"

text \<open>
  The dead band: the relative change is a percentage truncated to an integer.
\<close>

definition percent :: "int \<Rightarrow> int \<Rightarrow> int" where
  "percent p c = (if p = 0 then (if c = 0 then 0 else 100) else (c - p) * 100 sdiv p)"

definition exceeds :: "'f arith \<Rightarrow> 'f \<times> 'f \<Rightarrow> 'f \<times> 'f \<Rightarrow> int \<Rightarrow> int \<Rightarrow> bool" where
  "exceeds A rth ath p c \<longleftrightarrow>
    in_use A rth \<and> outside A rth (num A (percent p c)) \<or> in_use A ath \<and> outside A ath (num A (c - p))"

fun significant :: "'f arith \<Rightarrow> 'f \<times> 'f \<Rightarrow> 'f \<times> 'f \<Rightarrow> change_view \<Rightarrow> change_view \<Rightarrow> bool" where
  "significant A rth ath (V_value q ps) (V_value r cs) \<longleftrightarrow>
    q \<noteq> r \<or> length ps \<noteq> length cs \<or> list_ex (\<lambda>(p, c). exceeds A rth ath p c) (zip ps cs)"
| "significant A rth ath l v \<longleftrightarrow> l \<noteq> v"

definition change_step :: "exn \<Rightarrow> 'f arith \<Rightarrow> 'f att_value \<times> DevError list option \<Rightarrow> 'f Attribute \<Rightarrow> 'f detected" where
  "change_step corba A r a = detect_and_push_change_event corba A (supplied_5 (fst r)) (snd r) a"

lemma abs_sdiv_le: "\<bar>a sdiv b\<bar> \<le> \<bar>a :: int\<bar>"
proof -
  have "\<bar>a sdiv b\<bar> \<le> \<bar>\<bar>a\<bar> div \<bar>b\<bar>\<bar>"
    by (simp add: signed_divide_int_def abs_mult abs_sgn_eq mult_le_one)
  also have "\<dots> \<le> \<bar>a\<bar>"
    using zdiv_mono2 [of "\<bar>a\<bar>" 1 "\<bar>b\<bar>"] by (cases "b = 0") (simp_all add: pos_imp_zdiv_nonneg_iff)
  finally show ?thesis .
qed

lemma c_int_ok: "\<bar>x\<bar> < 2 ^ (w - 1) \<Longrightarrow> c_int w x = Ok x"
  by (auto simp: c_int_def)

lemma small_diff:
  assumes "small w c" "small w p"
  shows "\<bar>c - p\<bar> < 2 ^ (w - 1)" "\<bar>(c - p) * 100\<bar> < 2 ^ (w - 1)"
proof -
  define b :: int where "b = 2 ^ (w - 1)"
  have "\<bar>c\<bar> * 200 < b" "\<bar>p\<bar> * 200 < b" using assms by (simp_all add: small_def b_def)
  moreover have "x * 200 < b \<Longrightarrow> y * 200 < b \<Longrightarrow> z \<le> x + y \<Longrightarrow> 0 \<le> z \<Longrightarrow> z < b \<and> z * 100 < b" for x y z
    by linarith
  ultimately have "\<bar>c - p\<bar> < b \<and> \<bar>c - p\<bar> * 100 < b" using abs_triangle_ineq4 abs_ge_zero by blast
  then have "\<bar>c - p\<bar> < b" "\<bar>(c - p) * 100\<bar> < b" by (simp_all only: abs_mult abs_numeral)
  then show "\<bar>c - p\<bar> < 2 ^ (w - 1)" "\<bar>(c - p) * 100\<bar> < 2 ^ (w - 1)" by (simp_all only: b_def)
qed

lemma small_ints [simp]:
  assumes "small w c" "small w p"
  shows "rel_int w c p = Ok (percent p c)" "abs_int w c p = Ok (c - p)"
proof -
  have "\<bar>(c - p) * 100 sdiv p\<bar> < 2 ^ (w - 1)"
    using abs_sdiv_le small_diff(2) [OF assms] by (rule le_less_trans)
  then show "rel_int w c p = Ok (percent p c)" "abs_int w c p = Ok (c - p)"
    using c_int_ok [OF small_diff(1) [OF assms]] c_int_ok [OF small_diff(2) [OF assms]]
    by (auto simp: rel_int_def abs_int_def percent_def c_int_ok simp del: left_diff_distrib_numeral)
qed

lemma signed_elt_exceeds:
  assumes "small w (f c)" "small w (f p)" "\<not> is_change d"
  shows "\<exists>d'. signed_elt A rth ath w f c p d = Ok d' \<and> (is_change d' \<longleftrightarrow> exceeds A rth ath (f p) (f c))"
  using assms
  by (auto simp: signed_elt_def num_elt_def rel_step_def abs_step_def exceeds_def Let_def)

lemma elts_change_exceeds:
  assumes "length cs = length ps" "list_all (small w) (map f cs)" "list_all (small w) (map f ps)" "\<not> is_change d"
  shows "\<exists>d'. elts_change (signed_elt A rth ath w f) cs ps d = Ok d' \<and>
    (is_change d' \<longleftrightarrow> list_ex (\<lambda>(p, c). exceeds A rth ath p c) (zip (map f ps) (map f cs)))"
  using assms
proof (induction cs ps arbitrary: d rule: list_induct2)
  case (Cons c cs p ps)
  obtain d1 where d1: "signed_elt A rth ath w f c p d = Ok d1" "is_change d1 \<longleftrightarrow> exceeds A rth ath (f p) (f c)"
    using signed_elt_exceeds [of w f c p d A rth ath] Cons.prems by auto
  show ?case
  proof (cases "is_change d1")
    case False
    then show ?thesis using d1 Cons.IH [of d1] Cons.prems by auto
  qed (use d1 in simp)
qed simp

lemma seq_change_exceeds:
  assumes "\<forall>x \<in> set cs. small w (f x)" "\<forall>x \<in> set ps. small w (f x)" "\<not> is_change d"
  shows "\<exists>d'. seq_change (signed_elt A rth ath w f) cs ps d = Ok d' \<and>
    (is_change d' \<longleftrightarrow> (length ps = length cs \<longrightarrow>
      list_ex (\<lambda>(p, c). exceeds A rth ath p c) (zip (map f ps) (map f cs))))"
  using elts_change_exceeds [of cs ps w f d A rth ath] assms
  by (auto simp: seq_change_def forced_def list_all_iff)

lemma small_vals_cases:
  assumes "small_vals k v"
  obtains xs where "int_vals k v = Some xs" "list_all (small (kind_width k)) xs"
  using assms by (auto simp: small_vals_def split: option.splits)

lemma detect_value_exceeds:
  assumes "small_vals k v" "small_vals k p" "\<not> is_change d"
  shows "\<exists>d'. detect_value corba A False rth ath False v p d = Ok d' \<and>
    (is_change d' \<longleftrightarrow> length (the (int_vals k p)) \<noteq> length (the (int_vals k v)) \<or>
      list_ex (\<lambda>(p, c). exceeds A rth ath p c) (zip (the (int_vals k p)) (the (int_vals k v))))"
proof -
  obtain cs where cs: "int_vals k v = Some cs" "list_all (small (kind_width k)) cs"
    using assms(1) by (rule small_vals_cases)
  obtain ps where ps: "int_vals k p = Some ps" "list_all (small (kind_width k)) ps"
    using assms(2) by (rule small_vals_cases)
  show ?thesis
    using cs ps assms(3)
    by (cases k; cases v; simp; cases p; simp; auto intro!: seq_change_exceeds simp: list_all_iff)
qed

lemma value_view_significant:
  "significant A rth ath (V_error e) (value_view k q v)" "significant A rth ath (value_view k q v) (V_error e)"
  by (simp_all add: value_view_def)

lemma stored_view:
  "change_last k (a\<lparr>prev_change_event := store_supplied (supplied_5 v) err p\<rparr>) = Some (change_reading k (v, err))"
  by (cases err) (simp_all add: change_last_def store_supplied_def store_def supplied_5_def no_event_data_def)

lemma stored_inv:
  assumes "change_inv k rth ath a" "good_reading k (v, err)"
  shows "change_inv k rth ath (a\<lparr>prev_change_event := store_supplied (supplied_5 v) err p\<rparr>)"
  using assms
  by (cases err) (auto simp: change_inv_def Let_def store_supplied_def store_def supplied_5_def no_event_data_def)

lemma detect_change_significant:
  assumes "change_inv k rth ath a" "good_reading k (v, err)" "inited (prev_change_event a)"
  shows "\<exists>d. detect_change corba A a (supplied_5 v) False err = Ok d \<and>
    ((is_change d \<or> err = None \<and> lv_quality (prev_change_event a) \<noteq> av_quality v) \<longleftrightarrow>
      significant A rth ath (the (change_last k a)) (change_reading k (v, err)))"
proof (cases err)
  case (Some e)
  then show ?thesis using assms(3)
    by (auto simp: detect_change_def supplied_5_def the_value_def Let_def prev_event_def thresholds_def
        forced_change_def compare_exception_iff forced_def no_change_def change_last_def value_view_def)
next
  case None
  let ?p = "prev_change_event a"
  note defs = detect_change_def supplied_5_def the_value_def Let_def prev_event_def thresholds_def
    forced_change_def forced_def change_last_def
  show ?thesis
  proof (cases "lv_err ?p \<or> lv_quality ?p = ATTR_INVALID \<or> av_quality v = ATTR_INVALID")
    case True
    then show ?thesis using None assms(3) by (auto simp: defs no_change_def value_view_def)
  next
    case False
    then have "small_vals k (av_value v)" "small_vals k (lv_value_4 ?p)"
      "rel_change a = rth" "abs_change a = ath" "\<not> is_dev_enum a"
      using None assms by (auto simp: change_inv_def Let_def)
    moreover have "\<not> is_change (no_change A)" by (simp add: no_change_def)
    ultimately show ?thesis using False None assms(3)
        detect_value_exceeds [of k "av_value v" "lv_value_4 ?p" "no_change A" corba A rth ath]
      by (auto simp: defs value_view_def)
  qed
qed

interpretation change_filter: event_filter "change_step corba A" "good_reading k" "change_inv k rth ath"
  "change_last k" "change_reading k" "significant A rth ath" for corba A k rth ath
proof
  fix a and r :: "'a att_value \<times> DevError list option"
  assume inv: "change_inv k rth ath a" and good: "good_reading k r"
  obtain v err where r: "r = (v, err)" by (cases r)
  have *: "the_value (supplied_5 v) = Ok (False, v)" by (simp add: the_value_def supplied_5_def)
  show "\<exists>s' ps. change_step corba A r a = Ok (fires (significant A rth ath) (change_last k a) (change_reading k r), s', ps) \<and>
      change_inv k rth ath s' \<and>
      change_last k s' = (if fires (significant A rth ath) (change_last k a) (change_reading k r)
        then Some (change_reading k r) else change_last k a)"
  proof (cases "inited (prev_change_event a)")
    case False
    then have "change_last k a = None" by (simp add: change_last_def)
    then show ?thesis using False stored_view stored_inv [OF inv] good
      by (simp add: r change_step_def detect_and_push_change_event_def * Let_def)
  next
    case True
    then obtain l where l: "change_last k a = Some l" by (simp add: change_last_def Let_def)
    obtain d where "detect_change corba A a (supplied_5 v) False err = Ok d"
      "(is_change d \<or> err = None \<and> lv_quality (prev_change_event a) \<noteq> av_quality v) \<longleftrightarrow>
        significant A rth ath l (change_reading k r)"
      using detect_change_significant [OF inv good [unfolded r] True] by (auto simp: r l)
    then show ?thesis using True stored_inv [OF inv good [unfolded r]] inv
      by (simp add: r l change_step_def detect_and_push_change_event_def * Let_def stored_view
          del: change_reading.simps)
  qed
qed


text \<open>
  Exact arithmetic on rational numbers, for examples.
\<close>

definition ex_fp :: "rat fp" where
  "ex_fp = \<lparr>fp_add = (+), fp_sub = (-), fp_mul = (*), fp_div = (/), fp_le = (\<le>), fp_eq = (=),
     fp_nan = (\<lambda>_. False), fp_of_int = of_int\<rparr>"

definition ex_arith :: "rat arith" where
  "ex_arith = \<lparr>dbl = ex_fp, sgl = ex_fp, dbl_1em10 = 1 / 10000000000\<rparr>"

definition ex_value :: "AttrQuality \<Rightarrow> rat AttrValUnion \<Rightarrow> rat att_value" where
  "ex_value q v = \<lparr>av_value = v, av_quality = q, av_time = \<lparr>tv_sec = 0, tv_usec = 0, tv_nsec = 0\<rparr>,
     av_name = ''level'', av_r_dim = \<lparr>dim_x = 1, dim_y = 0\<rparr>, av_w_dim = \<lparr>dim_x = 0, dim_y = 0\<rparr>,
     av_err_list = []\<rparr>"

definition ex_last :: "rat LastAttrValue" where
  "ex_last = \<lparr>inited = False, lv_quality = ATTR_VALID, lv_value = ATT_NO_DATA, lv_err = False,
     lv_except = [], lv_value_4 = ATT_NO_DATA\<rparr>"

definition ex_unused :: "rat \<times> rat" where
  "ex_unused = (2147483647, 2147483647)"

definition ex_attribute :: "rat Attribute" where
  "ex_attribute = \<lparr>is_dev_enum = False, rel_change = ex_unused, abs_change = (- 3, 3),
     archive_rel_change = ex_unused, archive_abs_change = (- 3, 3), event_period = 1000,
     archive_period = 2000, periodic_counter = 0, archive_periodic_counter = 0,
     prev_change_event = ex_last, prev_alarm_event = ex_last, prev_archive_event = ex_last,
     last_periodic = 0, archive_last_periodic = 0, archive_last_event = 0,
     client_lib = (\<lambda>_. [6, 4]), subscription = (\<lambda>_ _. 0)\<rparr>"

definition ex_error :: "DevError list" where
  "ex_error = [\<lparr>err_reason = ''API_DeviceTimedOut'', err_desc = ''timeout'', err_origin = ''read'', err_severity = ERR\<rparr>]"

definition ex_readings :: "(rat att_value \<times> DevError list option) list" where
  "ex_readings = map (\<lambda>x. (ex_value ATTR_VALID (ATT_LONG [x]), None)) [10, 12, 13] @
     [(ex_value ATTR_VALID (ATT_LONG [0]), Some ex_error), (ex_value ATTR_VALID (ATT_LONG [0]), Some ex_error),
      (ex_value ATTR_VALID (ATT_LONG [13]), None), (ex_value ATTR_WARNING (ATT_LONG [13]), None)]"

lemmas ex_defs = ex_fp_def ex_arith_def ex_value_def ex_last_def ex_unused_def ex_attribute_def ex_error_def ex_readings_def


section \<open>Periodic events\<close>

definition periodic_step :: "int \<times> 'f SuppliedEventData \<times> DevError list option \<Rightarrow> 'f Attribute \<Rightarrow> 'f detected" where
  "periodic_step r a = Ok (detect_and_push_periodic_event (fst r) (fst (snd r)) (snd (snd r)) a)"

interpretation periodic_filter: event_filter periodic_step "\<lambda>_. True" "\<lambda>a. event_period a = p"
  "\<lambda>a. Some (last_periodic a)" fst "\<lambda>l t. t - l > get_minimal_event_reporting_period (ms p)" for p
  by unfold_locales (auto simp: periodic_step_def detect_and_push_periodic_event_def Let_def)

text \<open>
  Periodic events are those of a timer with tolerance: an event is pushed exactly at
  the readings that come more than the minimal reporting period after the last event, and
  the date of the last event is the one of the reading.
\<close>

theorem periodic_events_spaced:
  "\<exists>a'. run_readings periodic_step rs a =
    Ok (spec_events (\<lambda>l t. t - l > get_minimal_event_reporting_period (ms (event_period a)))
          (Some (last_periodic a)) (map fst rs), a')"
  using periodic_filter.run_events [of a "event_period a" rs] by auto


section \<open>Archive events\<close>

text \<open>
  Archive events are not rarer than their period. Whatever a reading is, if more
  than the minimal reporting period has passed since the last periodic archive event,
  the supplier reports an event to every client, without comparing values; the event
  carries the next number, and the value and the date become the last ones.
\<close>

theorem archive_event_periodic:
  assumes "the_value v = Ok nv" "archive_period a \<noteq> INT_MAX" "inited (prev_archive_event a)"
    "t - archive_last_periodic a > get_minimal_event_reporting_period (ms (archive_period a))"
  shows "\<exists>a' ps. detect_and_push_archive_event corba A t v err a = Ok (True, a', ps) \<and>
    archive_last_periodic a' = t \<and> archive_last_event a' = t \<and>
    archive_periodic_counter a' = archive_periodic_counter a + 1 \<and>
    prev_archive_event a' = store_supplied v err (prev_archive_event a) \<and>
    length ps = length (client_lib a ARCHIVE_EVENT) \<and>
    list_all (\<lambda>e. pu_filter_lg e = [(''counter'', archive_periodic_counter a')]) ps"
proof -
  have len: "length (push_loop (push_one ARCHIVE_EVENT fs ls v err) inc libs) = length libs"
    and all: "list_all (\<lambda>e. pu_filter_lg e = ls) (push_loop (push_one ARCHIVE_EVENT fs ls v err) inc libs)"
    for fs ls inc libs
    by (induction libs arbitrary: inc) (simp_all add: push_one_def)
  show ?thesis using assms
    by (simp add: detect_and_push_archive_event_def Let_def split_beta len all)
qed


section \<open>Where the comparison misses or misjudges a change\<close>

definition comparable :: "'f LastAttrValue \<Rightarrow> 'f att_value \<Rightarrow> bool" where
  "comparable p v \<longleftrightarrow>
    inited p \<and> \<not> lv_err p \<and> lv_quality p = av_quality v \<and> av_quality v \<noteq> ATTR_INVALID"

lemma change_step_comparable:
  assumes "comparable (prev_change_event a) v"
    and "d = detect_value corba A (is_dev_enum a) (rel_change a) (abs_change a) False
      (av_value v) (lv_value_4 (prev_change_event a)) (no_change A)"
  shows "d = Undef \<Longrightarrow> change_step corba A (v, None) a = Undef"
    "d = Ok e \<Longrightarrow> \<not> is_change e \<Longrightarrow> change_step corba A (v, None) a = Ok (False, a, [])"
    "d = Ok e \<Longrightarrow> is_change e \<Longrightarrow> \<exists>a' ps. change_step corba A (v, None) a = Ok (True, a', ps)"
  using assms
  by (auto simp: comparable_def change_step_def detect_and_push_change_event_def detect_change_def
      the_value_def supplied_5_def Let_def prev_event_def thresholds_def forced_change_def)

text \<open>
  A change in an array of enumeration labels is only seen at its first element: if
  that is the same, there is no event, whatever the others are.
\<close>

theorem enum_tail_not_compared:
  assumes "is_dev_enum a" "comparable (prev_change_event a) v" "length cs = length ps"
    "av_value v = ATT_SHORT (x # cs)" "lv_value_4 (prev_change_event a) = ATT_SHORT (x # ps)"
  shows "change_step corba A (v, None) a = Ok (False, a, [])"
  by (rule change_step_comparable(2) [OF assms(2) refl, of _ _ "no_change A"])
    (use assms in \<open>simp_all add: enum_change_def same_elt_def no_change_def\<close>)

text \<open>
  Any decrease of an unsigned 32-bit attribute is a change. The difference wraps, so
  that a decrease by a few units is a difference near the top of the range: it reaches
  the upper threshold, however small it is and whatever the lower threshold is. The
  hypotheses on the arithmetic are that the conversion of integers to \<open>double\<close> keeps
  their order.
\<close>

theorem ulong_decrease_is_change:
  assumes ord: "\<And>x y. fp_le (dbl A) (num A x) (num A y) \<longleftrightarrow> x \<le> y"
    and eq: "\<And>x y. fp_eq (dbl A) (num A x) (num A y) \<longleftrightarrow> x = y"
    and "comparable (prev_change_event a) v"
    and "av_value v = ATT_ULONG [c]" "lv_value_4 (prev_change_event a) = ATT_ULONG [p]"
    and "abs_change a = (num A lo, num A hi)" "lo \<noteq> INT_MAX"
    and "c < p" "hi \<le> 2 ^ 32 - (uint p - uint c)"
  shows "\<exists>a' ps. change_step corba A (v, None) a = Ok (True, a', ps)"
proof -
  have "uint (c - p) = 2 ^ 32 - (uint p - uint c)"
    using \<open>c < p\<close> by (simp add: uint_sub_if' word_less_def)
  then have "outside A (num A lo, num A hi) (num A (uint (c - p)))"
    using \<open>hi \<le> _\<close> by (simp add: outside_def ord)
  then have "\<exists>e. uns_elt A (rel_change a) (abs_change a) c p (no_change A) = Ok e \<and> is_change e"
    using assms(6,7)
    by (auto simp: uns_elt_def num_elt_def rel_step_def abs_step_def rel_uns_def abs_uns_def Let_def in_use_def eq)
  then obtain e where "detect_value corba A (is_dev_enum a) (rel_change a) (abs_change a) False
      (av_value v) (lv_value_4 (prev_change_event a)) (no_change A) = Ok e" "is_change e"
    using assms(4,5) by (auto simp: seq_change_def)
  then show ?thesis using change_step_comparable(3) [OF assms(3) refl] by metis
qed

text \<open>
  With a relative threshold, a change of a signed 32-bit attribute whose hundredfold
  does not fit in 32 bits is undefined behaviour.
\<close>

theorem long_change_overflows:
  assumes "comparable (prev_change_event a) v"
    and "av_value v = ATT_LONG [c]" "lv_value_4 (prev_change_event a) = ATT_LONG [p]"
    and "in_use A (rel_change a)" "p \<noteq> 0" "2 ^ 31 \<le> (sint c - sint p) * 100"
  shows "change_step corba A (v, None) a = Undef"
proof -
  have "rel_int 32 (sint c) (sint p) = Undef"
    using assms(5,6) by (simp add: rel_int_def c_int_def signed_eq_0_iff)
  then show ?thesis
    by (intro change_step_comparable(1) [OF assms(1) refl])
      (use assms in \<open>simp add: seq_change_def signed_elt_def num_elt_def rel_step_def\<close>)
qed

section \<open>Examples\<close>

definition ex_reported :: "rat AttrValUnion \<Rightarrow> rat LastAttrValue" where
  "ex_reported v = ex_last\<lparr>inited := True, lv_value_4 := v\<rparr>"

definition ex_after :: "bool \<Rightarrow> rat AttrValUnion \<Rightarrow> rat Attribute" where
  "ex_after en v = ex_attribute\<lparr>is_dev_enum := en, rel_change := (- 10, 10),
     prev_change_event := ex_reported v, prev_archive_event := ex_reported v\<rparr>"

lemmas ex_after_defs = ex_reported_def ex_after_def ex_defs comparable_def

theorem archive_event_periodic_witness:
  "\<exists>a' ps. detect_and_push_archive_event Std_out_of_range ex_arith 2000000000
      (supplied_5 (ex_value ATTR_VALID (ATT_LONG [10]))) None (ex_after False (ATT_LONG [10])) = Ok (True, a', ps) \<and>
    archive_last_periodic a' = 2000000000 \<and> archive_periodic_counter a' = 1 \<and> length ps = 2"
proof -
  let ?v = "supplied_5 (ex_value ATTR_VALID (ATT_LONG [10]))" and ?a = "ex_after False (ATT_LONG [10])"
  have "the_value ?v = Ok (False, ex_value ATTR_VALID (ATT_LONG [10]))"
    by (simp add: the_value_def supplied_5_def)
  moreover have "archive_period ?a \<noteq> INT_MAX" "inited (prev_archive_event ?a)"
    "2000000000 - archive_last_periodic ?a > get_minimal_event_reporting_period (ms (archive_period ?a))"
    "archive_periodic_counter ?a = 0" "length (client_lib ?a ARCHIVE_EVENT) = 2"
    by (simp_all add: ex_after_defs INT_MAX_def get_minimal_event_reporting_period_def ms_def)
  ultimately show ?thesis
    using archive_event_periodic [of ?v _ ?a 2000000000 Std_out_of_range ex_arith None] by fastforce
qed

theorem enum_tail_not_compared_witness:
  "change_step Std_out_of_range ex_arith (ex_value ATTR_VALID (ATT_SHORT [1, 5]), None)
      (ex_after True (ATT_SHORT [1, 2])) = Ok (False, ex_after True (ATT_SHORT [1, 2]), [])"
  by (rule enum_tail_not_compared [where x = 1 and cs = "[5]" and ps = "[2]"]) (simp_all add: ex_after_defs)

theorem ulong_decrease_is_change_witness:
  "\<exists>a' ps. change_step Std_out_of_range ex_arith (ex_value ATTR_VALID (ATT_ULONG [9]), None)
      (ex_after False (ATT_ULONG [10])) = Ok (True, a', ps)"
  by (rule ulong_decrease_is_change [where c = 9 and p = 10 and lo = "- 3" and hi = 3])
    (simp_all add: ex_after_defs INT_MAX_def)

theorem long_change_overflows_witness:
  "change_step Std_out_of_range ex_arith (ex_value ATTR_VALID (ATT_LONG [30000000]), None)
      (ex_after False (ATT_LONG [1])) = Undef"
  by (rule long_change_overflows [where c = 30000000 and p = 1])
    (simp_all add: ex_after_defs in_use_def INT_MAX_def)

end
