(* ===== verification/File_Reader.thy ===== *)
theory File_Reader
  imports Tango_Prelude
begin

text \<open>
  The lexical part of the file database (\<open>filedatabase.cpp\<close>): the reader of characters
  with one character of lookahead, the words of a resource file, and the comparison of
  names without case. The theory shows that the loops end, and what each kind of word in
  the text is read as.
\<close>

section \<open>Names without case\<close>

fun equals_loop :: "bool \<Rightarrow> string \<Rightarrow> string \<Rightarrow> bool" where
  "equals_loop ret (a # as) (b # bs) \<longleftrightarrow> (if tolower a = tolower b then equals_loop True as bs else False)"
| "equals_loop ret _ _ \<longleftrightarrow> ret"

definition equalsIgnoreCase :: "string \<Rightarrow> string \<Rightarrow> bool" where
  "equalsIgnoreCase s1 s2 \<longleftrightarrow> (if length s1 = length s2 then equals_loop False (rev s1) (rev s2) else False)"

lemma equals_loop_iff:
  "length as = length bs \<Longrightarrow> equals_loop ret as bs \<longleftrightarrow> lower as = lower bs \<and> (ret \<or> as \<noteq> [])"
  by (induction ret as bs rule: equals_loop.induct) auto

lemma equalsIgnoreCase_iff: "equalsIgnoreCase s1 s2 \<longleftrightarrow> s1 \<noteq> [] \<and> lower s1 = lower s2"
proof (cases "length s1 = length s2")
  case True
  then show ?thesis
    by (auto simp: equalsIgnoreCase_def equals_loop_iff rev_map [symmetric])
next
  case False
  then show ?thesis by (metis equalsIgnoreCase_def length_map)
qed


section \<open>Characters\<close>

text \<open>
  The reader. \<open>rd_rest\<close> is what is left of the file and \<open>rd_eof\<close> the end-of-file flag of
  the stream, which is set by the first attempt to read past the end; that attempt leaves
  \<open>NextChar\<close> as it is. The type \<open>char\<close> is signed.
\<close>

record reader =
  CurrentChar :: char
  NextChar :: char
  rd_rest :: string
  rd_eof :: bool
  CrtLine :: nat
  StartLine :: nat

abbreviation NL :: char where "NL \<equiv> CHR 0x0A"
abbreviation DQ :: char where "DQ \<equiv> CHR 0x22"
abbreviation BSL :: char where "BSL \<equiv> CHR 0x5C"

definition schar :: "char \<Rightarrow> int" where
  "schar c = (let n = of_char c in if n \<ge> 128 then n - 256 else n)"

definition get_char :: "reader \<Rightarrow> reader" where
  "get_char r = (case rd_rest r of [] \<Rightarrow> r\<lparr>rd_eof := True\<rparr> | c # cs \<Rightarrow> r\<lparr>NextChar := c, rd_rest := cs\<rparr>)"

definition read_char :: "reader \<Rightarrow> reader" where
  "read_char r =
    (let r1 = r\<lparr>CurrentChar := NextChar r\<rparr>;
         r2 = (if \<not> rd_eof r1 then get_char r1 else r1\<lparr>NextChar := NUL\<rparr>)
     in if CurrentChar r2 = NL then r2\<lparr>CrtLine := CrtLine r2 + 1\<rparr> else r2)"

definition is_space :: "char \<Rightarrow> bool" where
  "is_space c \<longleftrightarrow> schar c \<le> 32 \<and> schar c > 0"

definition is_graph :: "char \<Rightarrow> bool" where
  "is_graph c \<longleftrightarrow> schar c > 32"

text \<open>
  The loops end because the file does: a bound on the number of characters before the
  current one is the null character.
\<close>

definition remaining :: "reader \<Rightarrow> nat" where
  "remaining r =
    (if \<not> rd_eof r then length (rd_rest r) + 3
     else if NextChar r \<noteq> NUL then 2 else if CurrentChar r \<noteq> NUL then 1 else 0)"

lemma remaining_read_char: "CurrentChar r \<noteq> NUL \<Longrightarrow> remaining (read_char r) < remaining r"
  by (auto simp: remaining_def read_char_def get_char_def Let_def split: list.split)

lemma remaining_read_char_le: "remaining (read_char r) \<le> remaining r"
  by (auto simp: remaining_def read_char_def get_char_def Let_def split: list.split)

lemma char_classes [simp]:
  "\<not> is_space NUL" "\<not> is_graph NUL" "\<not> is_graph NL" "\<not> is_graph (CHR '' '')" "is_graph (CHR ''#'')" "is_graph (CHR ''-'')" "is_graph DQ"
  "is_graph (CHR '':'')" "is_graph (CHR ''/'')" "is_graph BSL" "is_graph (CHR '','')"
  "is_space NL" "is_space (CHR '' '')"
  by (simp_all add: is_space_def is_graph_def schar_def)

lemma is_space_not_graph: "is_space c \<Longrightarrow> \<not> is_graph c"
  by (simp add: is_space_def is_graph_def)

lemma is_space_not_NUL [simp]: "is_space c \<Longrightarrow> c \<noteq> NUL"
  by auto

lemma is_graph_not_special [simp]: "is_graph c \<Longrightarrow> c \<noteq> NUL" "is_graph c \<Longrightarrow> c \<noteq> NL" "is_graph c \<Longrightarrow> \<not> is_space c"
  using is_space_not_graph by (auto simp: is_graph_def schar_def)

function jump_space :: "reader \<Rightarrow> reader" where
  "jump_space r = (if is_space (CurrentChar r) then jump_space (read_char r) else r)"
  by auto
termination by (relation "measure remaining") (auto intro!: remaining_read_char)

function jump_to_line_end :: "reader \<Rightarrow> reader" where
  "jump_to_line_end r =
    (if CurrentChar r \<noteq> NL \<and> CurrentChar r \<noteq> NUL then jump_to_line_end (read_char r) else r)"
  by auto
termination by (relation "measure remaining") (auto intro!: remaining_read_char)

definition jump_line :: "reader \<Rightarrow> reader" where
  "jump_line r = read_char (jump_to_line_end r)"

declare jump_space.simps [simp del] jump_to_line_end.simps [simp del]

lemma remaining_jump_space: "remaining (jump_space r) \<le> remaining r"
proof (induction r rule: jump_space.induct)
  case (1 r)
  then show ?case using remaining_read_char_le [of r] by (subst jump_space.simps) auto
qed

lemma remaining_jump_to_line_end: "remaining (jump_to_line_end r) \<le> remaining r"
proof (induction r rule: jump_to_line_end.induct)
  case (1 r)
  then show ?case using remaining_read_char_le [of r] by (subst jump_to_line_end.simps) auto
qed

lemma remaining_jump_line:
  assumes "CurrentChar r \<noteq> NUL"
  shows "remaining (jump_line r) < remaining r"
proof (cases "CurrentChar r = NL")
  case True
  then show ?thesis using assms remaining_read_char by (simp add: jump_line_def jump_to_line_end.simps)
next
  case False
  then have "jump_to_line_end r = jump_to_line_end (read_char r)"
    using assms by (subst jump_to_line_end.simps) simp
  then show ?thesis
    using remaining_read_char [OF assms] remaining_jump_to_line_end [of "read_char r"] remaining_read_char_le
    by (metis jump_line_def le_less_trans order.trans)
qed

function jump_comments :: "reader \<Rightarrow> reader" where
  "jump_comments r = (if CurrentChar r = CHR ''#'' then jump_comments (jump_space (jump_line r)) else r)"
  by auto
termination
  by (relation "measure remaining")
    (auto intro!: le_less_trans [OF remaining_jump_space] remaining_jump_line)

declare jump_comments.simps [simp del]

section \<open>Words\<close>

text \<open>
  A loop that collects characters while a condition on the reader holds; each condition
  of the code fails at the null character.
\<close>

function collect :: "(reader \<Rightarrow> bool) \<Rightarrow> reader \<Rightarrow> string \<times> reader" where
  "collect p r =
    (if CurrentChar r \<noteq> NUL \<and> p r
     then let (w, r1) = collect p (read_char r) in (CurrentChar r # w, r1)
     else ([], r))"
  by auto
termination by (relation "measure (remaining \<circ> snd)") (auto intro!: remaining_read_char)

text \<open>
  A string in which a backslash protects the next character.
\<close>

function collect_quoted :: "reader \<Rightarrow> string \<times> reader" where
  "collect_quoted r =
    (if CurrentChar r \<noteq> DQ \<and> CurrentChar r \<noteq> NUL
     then let r1 = (if CurrentChar r = BSL then read_char r else r);
              (w, r2) = collect_quoted (read_char r1)
          in (CurrentChar r1 # w, r2)
     else ([], r))"
  by auto
termination
  by (relation "measure remaining")
    (auto intro!: remaining_read_char le_less_trans [OF remaining_read_char_le remaining_read_char])

declare collect.simps [simp del] collect_quoted.simps [simp del]

datatype lex = TG_EMPTY | TG_STRING | TG_COMA | TG_COLON | TG_SLASH | TG_ASLASH | TG_ARROW

definition class_lex :: "string \<Rightarrow> lex" where
  "class_lex w =
    (if w = [] then TG_EMPTY
     else if w = ''/'' then TG_SLASH
     else if w = [BSL] then TG_ASLASH
     else if w = '','' then TG_COMA
     else if w = '':'' then TG_COLON
     else if w = ''->'' then TG_ARROW
     else TG_STRING)"

definition lexical_word_null :: string where
  "lexical_word_null = ''NULL''"

definition file_error :: "string \<Rightarrow> reader \<Rightarrow> 'a result" where
  "file_error what r = Throw (DevFailed ''API_DatabaseFileError'' (''File database: '' @ what @ '' at line '' @ dec (StartLine r)))"

text \<open>
  The next word. The loop over a comment in the style of C is never entered, so of such a
  comment only the start and one more character are skipped.
\<close>

definition or_null :: "string \<Rightarrow> string" where
  "or_null w = (if w = [] then lexical_word_null else w)"

definition arrow_ahead :: "reader \<Rightarrow> bool" where
  "arrow_ahead r \<longleftrightarrow> CurrentChar r = CHR ''-'' \<and> NextChar r = CHR ''>''"

definition special_char :: "char \<Rightarrow> bool" where
  "special_char c \<longleftrightarrow> c = CHR '':'' \<or> c = CHR ''/'' \<or> c = CHR '','' \<or> c = BSL"

definition word_char :: "reader \<Rightarrow> bool" where
  "word_char r \<longleftrightarrow> is_graph (CurrentChar r) \<and> \<not> special_char (CurrentChar r) \<and> \<not> arrow_ahead r"

definition word_at :: "reader \<Rightarrow> (string \<times> reader) result" where
  "word_at r0 =
    (let r = r0\<lparr>StartLine := CrtLine r0\<rparr> in
     if special_char (CurrentChar r) then Ok ([CurrentChar r], read_char r)
     else if arrow_ahead r then let r1 = read_char r in Ok ([CurrentChar r, CurrentChar r1], read_char r1)
     else if CurrentChar r = DQ
     then let (w, r1) = collect (\<lambda>r. CurrentChar r \<noteq> DQ \<and> CurrentChar r \<noteq> NL) (read_char r)
          in if CurrentChar r1 = NUL \<or> CurrentChar r1 = NL then file_error ''Error in file'' r1
             else Ok (w, read_char r1)
     else let (w, r1) = collect word_char r in Ok (or_null w, r1))"

definition read_word :: "reader \<Rightarrow> (string \<times> reader) result" where
  "read_word r0 =
    (let r = jump_comments (jump_space r0) in
     if CurrentChar r = CHR ''/''
     then let r1 = read_char r in
          if CurrentChar r1 = CHR ''*'' then word_at (jump_space (read_char (read_char r1)))
          else Ok (''/'', r1)
     else word_at r)"

definition full_char :: "reader \<Rightarrow> bool" where
  "full_char r \<longleftrightarrow> is_graph (CurrentChar r) \<and> CurrentChar r \<noteq> BSL \<and> CurrentChar r \<noteq> CHR '',''"

definition read_full_word :: "reader \<Rightarrow> (string \<times> reader) result" where
  "read_full_word r0 =
    (let r = jump_space (r0\<lparr>StartLine := CrtLine r0\<rparr>) in
     if CurrentChar r = CHR '','' \<or> CurrentChar r = BSL then Ok ([CurrentChar r], read_char r)
     else if CurrentChar r = DQ
     then let (w, r1) = collect_quoted (read_char r)
          in if CurrentChar r1 = NUL then file_error ''String too long'' r1
             else Ok (or_null w, read_char r1)
     else let (w, r1) = collect full_char r in Ok (or_null w, r1))"

text \<open>
  Reading a word uses up characters unless it is the null word.
\<close>

lemma remaining_jump_comments: "remaining (jump_comments r) \<le> remaining r"
proof (induction r rule: jump_comments.induct)
  case (1 r)
  have "remaining (jump_space (jump_line r)) \<le> remaining r" if "CurrentChar r = CHR ''#''"
    using remaining_jump_space [of "jump_line r"] remaining_jump_line [of r] that by simp
  then show ?case using 1 by (subst jump_comments.simps) (auto intro: order.trans)
qed

lemma remaining_collect: "remaining (snd (collect p r)) \<le> remaining r \<and> (fst (collect p r) \<noteq> [] \<longrightarrow> remaining (snd (collect p r)) < remaining r)"
proof (induction p r rule: collect.induct)
  case (1 p r)
  then show ?case using remaining_read_char [of r]
    by (subst (1 2 3) collect.simps) (auto simp: split_beta)
qed

lemma remaining_collect_quoted: "remaining (snd (collect_quoted r)) \<le> remaining r"
proof (induction r rule: collect_quoted.induct)
  case (1 r)
  then show ?case using remaining_read_char_le [of r] remaining_read_char_le [of "read_char r"]
    by (subst collect_quoted.simps) (auto simp: split_beta Let_def)
qed

lemma remaining_StartLine [simp]: "remaining (r\<lparr>StartLine := n\<rparr>) = remaining r"
  by (simp add: remaining_def)

lemma special_char_not_NUL: "special_char c \<Longrightarrow> c \<noteq> NUL"
  by (auto simp: special_char_def)

lemma remaining_word_at:
  assumes "word_at r = Ok (w, r')"
  shows "remaining r' \<le> remaining r \<and> (w \<noteq> lexical_word_null \<longrightarrow> remaining r' < remaining r)"
proof -
  define s where "s = r\<lparr>StartLine := CrtLine r\<rparr>"
  have s: "remaining s = remaining r" by (simp add: s_def)
  have step: "CurrentChar s \<noteq> NUL \<Longrightarrow> remaining (read_char s) < remaining r"
    using remaining_read_char [of s] s by simp
  have two: "remaining (read_char (read_char s)) \<le> remaining (read_char s)"
    by (rule remaining_read_char_le)
  have quoted: "remaining (read_char (snd (collect p (read_char s)))) \<le> remaining (read_char s)" for p
    using remaining_collect [of p "read_char s"] remaining_read_char_le [of "snd (collect p (read_char s))"] by simp
  show ?thesis
    using assms step two quoted [of "\<lambda>r. CurrentChar r \<noteq> DQ \<and> CurrentChar r \<noteq> NL"]
      remaining_collect [of word_char s] special_char_not_NUL [of "CurrentChar s"] s
    unfolding word_at_def Let_def s_def [symmetric]
    by (auto simp: arrow_ahead_def split_beta file_error_def or_null_def split: if_splits)
qed

lemma remaining_read_word:
  assumes "read_word r = Ok (w, r')"
  shows "remaining r' \<le> remaining r" "w \<noteq> lexical_word_null \<Longrightarrow> remaining r' < remaining r"
proof -
  define s where "s = jump_comments (jump_space r)"
  have s: "remaining s \<le> remaining r"
    using remaining_jump_comments [of "jump_space r"] remaining_jump_space [of r] by (simp add: s_def)
  define t where "t = jump_space (read_char (read_char (read_char s)))"
  have t: "remaining t \<le> remaining (read_char s)"
    using remaining_jump_space [of "read_char (read_char (read_char s))"]
      remaining_read_char_le [of "read_char (read_char s)"] remaining_read_char_le [of "read_char s"]
    by (simp add: t_def)
  have "remaining r' \<le> remaining r \<and> (w \<noteq> lexical_word_null \<longrightarrow> remaining r' < remaining r)"
    using assms s t remaining_read_char [of s] remaining_word_at [of s w r'] remaining_word_at [of t w r']
    unfolding read_word_def Let_def s_def [symmetric] t_def [symmetric]
    by (auto split: if_splits)
  then show "remaining r' \<le> remaining r" "w \<noteq> lexical_word_null \<Longrightarrow> remaining r' < remaining r" by auto
qed

lemma remaining_read_full_word:
  assumes "read_full_word r = Ok (w, r')"
  shows "remaining r' \<le> remaining r"
proof -
  define s where "s = jump_space (r\<lparr>StartLine := CrtLine r\<rparr>)"
  have s: "remaining s \<le> remaining r"
    using remaining_jump_space [of "r\<lparr>StartLine := CrtLine r\<rparr>"] by (simp add: s_def)
  have q: "remaining (read_char (snd (collect_quoted (read_char s)))) \<le> remaining s"
    using remaining_read_char_le [of "snd (collect_quoted (read_char s))"]
      remaining_collect_quoted [of "read_char s"] remaining_read_char_le [of s] by simp
  show ?thesis
    using assms s q remaining_read_char_le [of s] remaining_collect [of full_char s]
    unfolding read_full_word_def Let_def s_def [symmetric]
    by (auto simp: split_beta file_error_def split: if_splits)
qed


section \<open>What the reader sees\<close>

text \<open>
  The characters that come next, the current one first.
\<close>

primrec sees :: "reader \<Rightarrow> string \<Rightarrow> bool" where
  "sees r [] \<longleftrightarrow> True"
| "sees r (c # cs) \<longleftrightarrow> CurrentChar r = c \<and> sees (read_char r) cs"

definition advance :: "nat \<Rightarrow> reader \<Rightarrow> reader" where
  "advance n = read_char ^^ n"

lemma advance_simps [simp]: "advance 0 r = r" "advance (Suc n) r = advance n (read_char r)"
  by (simp_all add: advance_def funpow_swap1)

lemma NextChar_read_char: "NextChar r = CurrentChar (read_char r)"
  by (auto simp: read_char_def get_char_def Let_def split: list.split)

lemma sees_append: "sees r (xs @ ys) \<longleftrightarrow> sees r xs \<and> sees (advance (length xs) r) ys"
  by (induction xs arbitrary: r) auto

lemma sees_StartLine [simp]: "sees (r\<lparr>StartLine := n\<rparr>) xs = sees r xs"
proof (induction xs arbitrary: r)
  case (Cons c cs)
  have "read_char (r\<lparr>StartLine := n\<rparr>) = (read_char r)\<lparr>StartLine := n\<rparr>"
    by (auto simp: read_char_def get_char_def Let_def split: list.split)
  then show ?case using Cons by simp
qed simp

definition open_file :: "string \<Rightarrow> reader" where
  "open_file t = \<lparr>CurrentChar = CHR '' '', NextChar = CHR '' '', rd_rest = t, rd_eof = False, CrtLine = 1, StartLine = 0\<rparr>"

lemma read_char_fields:
  "CurrentChar (read_char r) = NextChar r"
  "NextChar (read_char r) = (if rd_eof r then NUL else case rd_rest r of [] \<Rightarrow> NextChar r | c # cs \<Rightarrow> c)"
  "rd_rest (read_char r) = (if rd_eof r then rd_rest r else tl (rd_rest r))"
  "rd_eof (read_char r) \<longleftrightarrow> rd_eof r \<or> rd_rest r = []"
  by (auto simp: read_char_def get_char_def Let_def split: list.split)

lemma sees_rest:
  assumes "\<not> rd_eof r"
  shows "sees r (CurrentChar r # NextChar r # rd_rest r @ [last (NextChar r # rd_rest r), NUL])"
  using assms
proof (induction "rd_rest r" arbitrary: r)
  case Nil
  then show ?case by (simp add: read_char_fields)
next
  case (Cons c cs)
  have r: "rd_rest (read_char r) = cs" "\<not> rd_eof (read_char r)" "NextChar (read_char r) = c"
    using Cons.hyps(2) [symmetric] Cons.prems by (simp_all add: read_char_def get_char_def Let_def)
  show ?case
    using Cons.hyps(1) [OF r(1) [symmetric] r(2)]
    by (simp only: r Cons.hyps(2) [symmetric] sees.simps(2) [of r] NextChar_read_char [of r] last.simps
        append_Cons list.distinct if_False if_True simp_thms)
qed

text \<open>
  The reader sees two spaces, the file, its last character once more and then the end.
\<close>

lemma sees_open_file: "sees (open_file t) (CHR '' '' # CHR '' '' # t @ [last (CHR '' '' # t), NUL])"
  using sees_rest [of "open_file t"] by (simp add: open_file_def)

lemma sees_jump_space:
  assumes "sees r (ws @ c # ys)" "list_all is_space ws" "\<not> is_space c"
  shows "sees (jump_space r) (c # ys)"
  using assms
proof (induction ws arbitrary: r)
  case Nil
  then show ?case by (subst jump_space.simps) auto
next
  case (Cons w ws)
  then show ?case by (subst jump_space.simps) simp
qed

lemma sees_jump_line:
  assumes "sees r (xs @ NL # ys)" "NL \<notin> set xs" "NUL \<notin> set xs"
  shows "sees (jump_line r) ys"
  using assms
proof (induction xs arbitrary: r)
  case Nil
  then show ?case by (simp add: jump_line_def jump_to_line_end.simps)
next
  case (Cons x xs)
  then have "jump_line r = jump_line (read_char r)"
    unfolding jump_line_def by (subst jump_to_line_end.simps) auto
  then show ?case using Cons by simp
qed

text \<open>
  Blanks and comment lines.
\<close>

inductive noise :: "string \<Rightarrow> bool" where
  blank: "list_all is_space ws \<Longrightarrow> noise ws"
| comment: "\<lbrakk>list_all is_space ws; NL \<notin> set b; NUL \<notin> set b; noise n\<rbrakk> \<Longrightarrow> noise (ws @ CHR ''#'' # b @ NL # n)"

lemma noise_append:
  assumes "noise m" "noise n"
  shows "noise (m @ n)"
  using assms
proof (induction m)
  case (blank ws)
  from blank(2) show ?case
  proof cases
    case blank
    then show ?thesis using \<open>list_all is_space ws\<close> by (intro noise.blank) simp
  next
    case (comment vs b k)
    then show ?thesis using \<open>list_all is_space ws\<close> noise.comment [of "ws @ vs" b k] by simp
  qed
next
  case (comment ws b k)
  then show ?case using noise.comment [of ws b "k @ n"] by simp
qed

lemma noise_comment_line: "NL \<notin> set b \<Longrightarrow> NUL \<notin> set b \<Longrightarrow> noise (CHR ''#'' # b @ [NL])"
  using noise.comment [of "[]" b "[]"] noise.blank [of "[]"] by simp

lemma noise_blank_line: "noise [NL]"
  by (rule noise.blank) simp

lemma sees_noise:
  assumes "noise n" "sees r (n @ c # ys)" "\<not> is_space c" "c \<noteq> CHR ''#''"
  shows "sees (jump_comments (jump_space r)) (c # ys)"
  using assms
proof (induction n arbitrary: r)
  case (blank ws)
  then have "sees (jump_space r) (c # ys)" by (intro sees_jump_space)
  moreover from this have "jump_comments (jump_space r) = jump_space r"
    using \<open>c \<noteq> _\<close> by (subst jump_comments.simps) simp
  ultimately show ?case by simp
next
  case (comment ws b n)
  have 1: "sees (jump_space r) (CHR ''#'' # b @ NL # n @ c # ys)"
    using comment.prems(1) comment.hyps(1) by (intro sees_jump_space) simp_all
  then have "sees (jump_line (jump_space r)) (n @ c # ys)"
    using comment.hyps by (intro sees_jump_line [of _ "CHR ''#'' # b"]) simp_all
  then have "sees (jump_comments (jump_space (jump_line (jump_space r)))) (c # ys)"
    using comment.IH comment.prems by blast
  moreover have "jump_comments (jump_space r) = jump_comments (jump_space (jump_line (jump_space r)))"
    using 1 by (subst jump_comments.simps) simp
  ultimately show ?case by simp
qed


section \<open>Reading what was written\<close>

text \<open>
  A text is read as a word if every reader that sees the text reads the word, and sees
  the rest of the text afterwards.
\<close>

definition reads :: "string \<Rightarrow> string \<Rightarrow> string \<Rightarrow> bool" where
  "reads xs w ys \<longleftrightarrow> (\<forall>r. sees r xs \<longrightarrow> (\<exists>r'. read_word r = Ok (w, r') \<and> sees r' ys))"

definition reads_full :: "string \<Rightarrow> string \<Rightarrow> string \<Rightarrow> bool" where
  "reads_full xs w ys \<longleftrightarrow> (\<forall>r. sees r xs \<longrightarrow> (\<exists>r'. read_full_word r = Ok (w, r') \<and> sees r' ys))"

fun no_arrow :: "string \<Rightarrow> bool" where
  "no_arrow (c # d # w) \<longleftrightarrow> \<not> (c = CHR ''-'' \<and> d = CHR ''>'') \<and> no_arrow (d # w)"
| "no_arrow w \<longleftrightarrow> True"

definition name_char :: "char \<Rightarrow> bool" where
  "name_char c \<longleftrightarrow> is_graph c \<and> \<not> special_char c"

definition wf_name :: "string \<Rightarrow> bool" where
  "wf_name w \<longleftrightarrow> w \<noteq> [] \<and> list_all name_char w \<and> no_arrow w \<and> hd w \<notin> {DQ, CHR ''#'', CHR ''*''}"

fun word_end :: "string \<Rightarrow> bool" where
  "word_end (c # d # ys) \<longleftrightarrow> c \<noteq> CHR ''>'' \<and> (\<not> name_char c \<or> c = CHR ''-'' \<and> d = CHR ''>'')"
| "word_end ys \<longleftrightarrow> False"

lemma word_end_stops: "sees r ys \<Longrightarrow> word_end ys \<Longrightarrow> \<not> word_char r"
  by (cases ys rule: word_end.cases)
    (auto simp: word_char_def name_char_def arrow_ahead_def NextChar_read_char)

lemma collect_name:
  assumes "list_all name_char w" "no_arrow w" "sees r (w @ ys)" "word_end ys"
  shows "\<exists>r'. collect word_char r = (w, r') \<and> sees r' ys"
  using assms
proof (induction w arbitrary: r)
  case Nil
  then show ?case using word_end_stops [of r ys] by (subst collect.simps) simp
next
  case (Cons c w)
  have "\<not> arrow_ahead r"
    using Cons.prems
    by (cases w; cases ys rule: word_end.cases) (auto simp: arrow_ahead_def NextChar_read_char)
  then have c: "word_char r" "CurrentChar r = c" "c \<noteq> NUL"
    using Cons.prems by (auto simp: word_char_def name_char_def)
  have "no_arrow w" using Cons.prems(2) by (cases w) simp_all
  then obtain r' where "collect word_char (read_char r) = (w, r')" "sees r' ys"
    using Cons.IH [of "read_char r"] Cons.prems by auto
  then show ?case using c by (subst collect.simps) simp
qed

lemma wf_name_lex [simp]: "wf_name w \<Longrightarrow> class_lex w = TG_STRING"
  by (auto simp: wf_name_def class_lex_def name_char_def special_char_def)

lemma reads_name:
  assumes "noise n" "wf_name w" "word_end ys"
  shows "reads (n @ w @ ys) w ys"
  unfolding reads_def
proof (intro allI impI)
  fix r assume r: "sees r (n @ w @ ys)"
  obtain c v where w: "w = c # v" using assms(2) by (cases w) (auto simp: wf_name_def)
  have c: "name_char c" "c \<noteq> DQ" "c \<noteq> CHR ''#''" using assms(2) by (simp_all add: w wf_name_def)
  define s where "s = jump_comments (jump_space r)"
  have s: "sees s (c # v @ ys)"
    using sees_noise [OF assms(1), of r c "v @ ys"] r c by (auto simp: s_def w name_char_def)
  then have "sees (s\<lparr>StartLine := CrtLine s\<rparr>) (w @ ys)" by (simp add: w del: sees.simps)
  then obtain r' where r': "collect word_char (s\<lparr>StartLine := CrtLine s\<rparr>) = (w, r')" "sees r' ys"
    using collect_name [of w "s\<lparr>StartLine := CrtLine s\<rparr>" ys] assms by (auto simp: wf_name_def)
  have "word_char (s\<lparr>StartLine := CrtLine s\<rparr>)"
    using r'(1) by (subst (asm) collect.simps) (auto simp: w split: if_splits)
  then have "\<not> arrow_ahead (s\<lparr>StartLine := CrtLine s\<rparr>)" by (simp add: word_char_def)
  moreover have "CurrentChar s = c" "\<not> special_char c" "c \<noteq> CHR ''/''"
    using s c by (auto simp: name_char_def special_char_def)
  ultimately have "read_word r = Ok (w, r')"
    using c r'(1) by (simp add: read_word_def word_at_def Let_def s_def [symmetric] w or_null_def)
  then show "\<exists>r'. read_word r = Ok (w, r') \<and> sees r' ys" using r'(2) by blast
qed

lemma reads_special:
  assumes "noise n" "special_char c" "c = CHR ''/'' \<Longrightarrow> ys \<noteq> [] \<and> hd ys \<noteq> CHR ''*''"
  shows "reads (n @ c # ys) [c] ys"
  unfolding reads_def
proof (intro allI impI)
  fix r assume r: "sees r (n @ c # ys)"
  define s where "s = jump_comments (jump_space r)"
  have "sees s (c # ys)"
    using sees_noise [OF assms(1) r] assms(2) by (auto simp: s_def special_char_def)
  then have s: "CurrentChar s = c" "sees (read_char s) ys" by simp_all
  moreover from this have "sees (read_char (s\<lparr>StartLine := CrtLine s\<rparr>)) ys"
    using sees_StartLine [of "CrtLine s" s "c # ys"] by simp
  moreover have "CurrentChar (read_char s) \<noteq> CHR ''*''" if "c = CHR ''/''"
    using assms(3) [OF that] s(2) by (cases ys) auto
  ultimately show "\<exists>r'. read_word r = Ok ([c], r') \<and> sees r' ys"
    using assms(2) by (auto simp: read_word_def word_at_def Let_def s_def [symmetric])
qed

lemma reads_arrow: "reads (''->'' @ ys) ''->'' ys"
  unfolding reads_def
proof (intro allI impI)
  fix r assume r: "sees r (''->'' @ ys)"
  define s where "s = r\<lparr>StartLine := CrtLine r\<rparr>"
  have s: "sees s (''->'' @ ys)" using r by (simp only: s_def sees_StartLine)
  have "\<not> is_space (CHR ''-'')" by simp
  then have "jump_comments (jump_space r) = r"
    using r by (subst jump_comments.simps, subst (1 2) jump_space.simps) simp
  then show "\<exists>r'. read_word r = Ok (''->'', r') \<and> sees r' ys"
    using r s
    by (simp add: read_word_def word_at_def Let_def s_def [symmetric] special_char_def arrow_ahead_def NextChar_read_char)
qed

lemma reads_end:
  assumes "noise n"
  shows "reads (n @ [NUL]) lexical_word_null []"
  unfolding reads_def
proof (intro allI impI)
  fix r assume "sees r (n @ [NUL])"
  then have "CurrentChar (jump_comments (jump_space r)) = NUL"
    using sees_noise [OF assms, of r NUL "[]"] by simp
  then show "\<exists>r'. read_word r = Ok (lexical_word_null, r') \<and> sees r' []"
    by (simp add: read_word_def word_at_def Let_def special_char_def arrow_ahead_def collect.simps or_null_def)
qed

text \<open>
  Values: plain words up to a comma or a blank, and strings in double quotes.
\<close>

definition plain_char :: "char \<Rightarrow> bool" where
  "plain_char c \<longleftrightarrow> is_graph c \<and> c \<noteq> BSL \<and> c \<noteq> CHR '',''"

definition escape_double_quote :: "string \<Rightarrow> string" where
  "escape_double_quote v = concat (map (\<lambda>c. if c = DQ then [BSL, c] else [c]) v)"

lemma collect_plain:
  assumes "list_all plain_char w" "sees r (w @ c # ys)" "\<not> plain_char c"
  shows "\<exists>r'. collect full_char r = (w, r') \<and> sees r' (c # ys)"
  using assms
proof (induction w arbitrary: r)
  case Nil
  then show ?case by (subst collect.simps) (auto simp: full_char_def plain_char_def)
next
  case (Cons b w)
  then obtain r' where "collect full_char (read_char r) = (w, r')" "sees r' (c # ys)"
    using Cons.IH [of "read_char r"] by auto
  then show ?case using Cons.prems by (subst collect.simps) (auto simp: full_char_def plain_char_def)
qed

lemma collect_quoted_escaped:
  assumes "BSL \<notin> set v" "NUL \<notin> set v" "sees r (escape_double_quote v @ DQ # ys)"
  shows "\<exists>r'. collect_quoted r = (v, r') \<and> sees r' (DQ # ys)"
  using assms
proof (induction v arbitrary: r)
  case Nil
  then show ?case by (subst collect_quoted.simps) (simp add: escape_double_quote_def)
next
  case (Cons c v)
  define s where "s = (if c = DQ then read_char r else r)"
  have s: "CurrentChar s = c" "sees (read_char s) (escape_double_quote v @ DQ # ys)"
    "CurrentChar r = (if c = DQ then BSL else c)"
    using Cons.prems(3) by (auto simp: s_def escape_double_quote_def)
  then obtain r' where "collect_quoted (read_char s) = (v, r')" "sees r' (DQ # ys)"
    using Cons.IH [of "read_char s"] Cons.prems by auto
  moreover have "(if CurrentChar r = BSL then read_char r else r) = s" "CurrentChar r \<noteq> DQ" "CurrentChar r \<noteq> NUL"
    using s Cons.prems by (auto simp: s_def)
  ultimately show ?case using s(1) by (subst collect_quoted.simps) (simp add: Let_def)
qed

lemma reads_full_plain:
  assumes "list_all is_space ws" "list_all plain_char v" "v \<noteq> []" "hd v \<noteq> DQ" "\<not> plain_char c"
  shows "reads_full (ws @ v @ c # ys) v (c # ys)"
  unfolding reads_full_def
proof (intro allI impI)
  fix r assume r: "sees r (ws @ v @ c # ys)"
  define s where "s = jump_space (r\<lparr>StartLine := CrtLine r\<rparr>)"
  obtain b u where v: "v = b # u" using assms(3) by (cases v) auto
  have b: "plain_char b" "b \<noteq> DQ" using assms by (simp_all add: v)
  have s: "sees s (v @ c # ys)"
    using sees_jump_space [of "r\<lparr>StartLine := CrtLine r\<rparr>" ws b "u @ c # ys"] r assms(1) b
    by (auto simp: s_def v plain_char_def)
  then obtain r' where "collect full_char s = (v, r')" "sees r' (c # ys)"
    using collect_plain [OF assms(2) _ assms(5)] by blast
  moreover have "CurrentChar s = b" using s by (simp add: v)
  ultimately show "\<exists>r'. read_full_word r = Ok (v, r') \<and> sees r' (c # ys)"
    using b by (simp add: read_full_word_def Let_def s_def [symmetric] plain_char_def or_null_def v)
qed

lemma reads_full_quoted:
  assumes "list_all is_space ws" "v \<noteq> []" "BSL \<notin> set v" "NUL \<notin> set v"
  shows "reads_full (ws @ DQ # escape_double_quote v @ DQ # ys) v ys"
  unfolding reads_full_def
proof (intro allI impI)
  fix r assume r: "sees r (ws @ DQ # escape_double_quote v @ DQ # ys)"
  define s where "s = jump_space (r\<lparr>StartLine := CrtLine r\<rparr>)"
  have s: "sees s (DQ # escape_double_quote v @ DQ # ys)"
    using sees_jump_space [of "r\<lparr>StartLine := CrtLine r\<rparr>" ws DQ] r assms(1) by (simp add: s_def)
  then obtain r' where "collect_quoted (read_char s) = (v, r')" "sees r' (DQ # ys)"
    using collect_quoted_escaped [OF assms(3,4), of "read_char s" ys] by auto
  then show "\<exists>r'. read_full_word r = Ok (v, r') \<and> sees r' ys"
    using s assms(2) by (simp add: read_full_word_def Let_def s_def [symmetric] or_null_def)
qed

lemma reads_full_backslash: "reads_full (BSL # ys) [BSL] ys"
  unfolding reads_full_def
proof (intro allI impI)
  fix r assume r: "sees r (BSL # ys)"
  then have s: "sees (r\<lparr>StartLine := CrtLine r\<rparr>) (BSL # ys)" by (simp only: sees_StartLine)
  then have "jump_space (r\<lparr>StartLine := CrtLine r\<rparr>) = r\<lparr>StartLine := CrtLine r\<rparr>"
    by (subst jump_space.simps) simp
  then show "\<exists>r'. read_full_word r = Ok ([BSL], r') \<and> sees r' ys"
    using s by (simp add: read_full_word_def)
qed

end
