(* ===== verification/File_Database.thy ===== *)
theory File_Database
  imports File_Reader
begin

text \<open>
  The file database (\<open>filedatabase.cpp\<close>): the objects of a resource file, the parser and
  the writer of the file. Devices are referred to from the server and from their class;
  they are kept in a store, and the references are positions in it.
\<close>

section \<open>Data\<close>

record t_property =
  p_name :: string
  p_value :: "string list"

record t_attribute_property =
  ap_name :: string
  ap_properties :: "t_property list"

record t_device =
  d_name :: string
  d_properties :: "t_property list"
  d_attribute_properties :: "t_attribute_property list"

record t_tango_class =
  c_name :: string
  c_devices :: "nat list"
  c_properties :: "t_property list"
  c_attribute_properties :: "t_attribute_property list"

record t_free_object =
  o_name :: string
  o_properties :: "t_property list"

record t_server =
  s_name :: string
  s_instance_name :: string
  s_classes :: "t_tango_class list"
  s_devices :: "nat list"
  s_free_objects :: "t_free_object list"
  s_heap :: "t_device list"

definition new_server :: t_server where
  "new_server = \<lparr>s_name = [], s_instance_name = [], s_classes = [], s_devices = [], s_free_objects = [], s_heap = []\<rparr>"

definition new_device :: "string \<Rightarrow> t_device" where
  "new_device n = \<lparr>d_name = n, d_properties = [], d_attribute_properties = []\<rparr>"

definition new_class :: "string \<Rightarrow> t_tango_class" where
  "new_class n = \<lparr>c_name = n, c_devices = [], c_properties = [], c_attribute_properties = []\<rparr>"

text \<open>
  Searches return the first match.
\<close>

fun position_of :: "('a \<Rightarrow> bool) \<Rightarrow> 'a list \<Rightarrow> nat option" where
  "position_of p [] = None"
| "position_of p (x # xs) = (if p x then Some 0 else map_option Suc (position_of p xs))"

definition update_nth :: "nat \<Rightarrow> ('a \<Rightarrow> 'a) \<Rightarrow> 'a list \<Rightarrow> 'a list" where
  "update_nth i f xs = xs[i := f (xs ! i)]"

definition search_device :: "t_server \<Rightarrow> string \<Rightarrow> nat option" where
  "search_device s name = find (\<lambda>i. equalsIgnoreCase (d_name (s_heap s ! i)) name) (s_devices s)"

definition search_class :: "t_server \<Rightarrow> string \<Rightarrow> nat option" where
  "search_class s name = position_of (\<lambda>c. equalsIgnoreCase (c_name c) name) (s_classes s)"

definition search_free_object :: "t_server \<Rightarrow> string \<Rightarrow> nat option" where
  "search_free_object s name = position_of (\<lambda>f. equalsIgnoreCase (o_name f) name) (s_free_objects s)"

definition search_attr_prop :: "t_attribute_property list \<Rightarrow> string \<Rightarrow> nat option" where
  "search_attr_prop aps name = position_of (\<lambda>a. equalsIgnoreCase (ap_name a) name) aps"

definition upd_device :: "nat \<Rightarrow> (t_device \<Rightarrow> t_device) \<Rightarrow> t_server \<Rightarrow> t_server" where
  "upd_device i f s = s\<lparr>s_heap := update_nth i f (s_heap s)\<rparr>"

definition upd_class :: "nat \<Rightarrow> (t_tango_class \<Rightarrow> t_tango_class) \<Rightarrow> t_server \<Rightarrow> t_server" where
  "upd_class i f s = s\<lparr>s_classes := update_nth i f (s_classes s)\<rparr>"

definition upd_free_object :: "nat \<Rightarrow> (t_free_object \<Rightarrow> t_free_object) \<Rightarrow> t_server \<Rightarrow> t_server" where
  "upd_free_object i f s = s\<lparr>s_free_objects := update_nth i f (s_free_objects s)\<rparr>"


section \<open>What the lines of the file mean\<close>

definition add_attr_prop :: "string \<Rightarrow> t_property \<Rightarrow> t_attribute_property list \<Rightarrow> t_attribute_property list" where
  "add_attr_prop name p aps =
    (case search_attr_prop aps name of
       Some i \<Rightarrow> update_nth i (\<lambda>a. a\<lparr>ap_properties := ap_properties a @ [p]\<rparr>) aps
     | None \<Rightarrow> aps @ [\<lparr>ap_name = name, ap_properties = [p]\<rparr>])"

definition define_class :: "string \<Rightarrow> string \<Rightarrow> string \<Rightarrow> string list \<Rightarrow> t_server \<Rightarrow> t_server" where
  "define_class family member name values s =
    (let k = length (s_heap s); n = length values;
         s1 = s\<lparr>s_instance_name := family\<rparr>
     in if equalsIgnoreCase member ''device''
        then s1\<lparr>s_classes := s_classes s @ [(new_class name)\<lparr>c_devices := [k..<k + n]\<rparr>],
                s_devices := s_devices s @ [k..<k + n], s_heap := s_heap s @ map new_device values\<rparr>
        else s1\<lparr>s_classes := s_classes s @ [new_class name]\<rparr>)"

text \<open>
  A property of an attribute of a device that is not defined dereferences a null pointer.
\<close>

definition define_dev_attr_prop :: "string \<Rightarrow> string \<Rightarrow> t_property \<Rightarrow> t_server \<Rightarrow> t_server result" where
  "define_dev_attr_prop dev attr p s =
    (case search_device s dev of
       Some i \<Rightarrow> Ok (upd_device i (\<lambda>d. d\<lparr>d_attribute_properties := add_attr_prop attr p (d_attribute_properties d)\<rparr>) s)
     | None \<Rightarrow> Undef)"

definition define_dev_prop :: "string \<Rightarrow> t_property \<Rightarrow> t_server \<Rightarrow> t_server" where
  "define_dev_prop dev p s =
    (case search_device s dev of
       Some i \<Rightarrow> upd_device i (\<lambda>d. d\<lparr>d_properties := d_properties d @ [p]\<rparr>) s
     | None \<Rightarrow> s)"

definition define_class_attr_prop :: "string \<Rightarrow> string \<Rightarrow> t_property \<Rightarrow> t_server \<Rightarrow> t_server" where
  "define_class_attr_prop cl attr p s =
    (case search_class s cl of
       Some i \<Rightarrow> upd_class i (\<lambda>c. c\<lparr>c_attribute_properties := add_attr_prop attr p (c_attribute_properties c)\<rparr>) s
     | None \<Rightarrow> s)"

definition define_class_prop :: "string \<Rightarrow> t_property \<Rightarrow> t_server \<Rightarrow> t_server" where
  "define_class_prop cl p s =
    (case search_class s cl of
       Some i \<Rightarrow> upd_class i (\<lambda>c. c\<lparr>c_properties := c_properties c @ [p]\<rparr>) s
     | None \<Rightarrow> s)"

definition define_free_prop :: "string \<Rightarrow> t_property \<Rightarrow> t_server \<Rightarrow> t_server" where
  "define_free_prop obj p s =
    (case search_free_object s obj of
       Some i \<Rightarrow> upd_free_object i (\<lambda>f. f\<lparr>o_properties := o_properties f @ [p]\<rparr>) s
     | None \<Rightarrow> s\<lparr>s_free_objects := s_free_objects s @ [\<lparr>o_name = obj, o_properties = [p]\<rparr>]\<rparr>)"


section \<open>The parser\<close>

lemma rbind_cong [fundef_cong]: "m = n \<Longrightarrow> (\<And>x. n = Ok x \<Longrightarrow> f x = g x) \<Longrightarrow> rbind m f = rbind n g"
  by (cases n) simp_all

definition CHECK_LEX :: "lex \<Rightarrow> string \<times> reader \<Rightarrow> (string \<times> reader) result" where
  "CHECK_LEX le wr = (if class_lex (fst wr) \<noteq> le then file_error ''Error in file'' (snd wr) else Ok wr)"

definition read_lex :: "lex \<Rightarrow> reader \<Rightarrow> (string \<times> reader) result" where
  "read_lex le r = rbind (read_word r) (CHECK_LEX le)"

text \<open>
  A list of values, and the word that follows it.
\<close>

function parse_values :: "string \<Rightarrow> lex \<Rightarrow> reader \<Rightarrow> (string list \<times> string \<times> reader) result" where
  "parse_values word lx r =
    (if (lx = TG_COMA \<or> lx = TG_ASLASH) \<and> word \<noteq> []
     then rbind (read_full_word r) (\<lambda>(w, r1).
          rbind (if class_lex w = TG_ASLASH then read_full_word r1 else Ok (w, r1)) (\<lambda>wr2.
          rbind (CHECK_LEX TG_STRING wr2) (\<lambda>(v, r2).
          rbind (read_word r2) (\<lambda>(w3, r3).
          rbind (parse_values w3 (class_lex w3) r3) (\<lambda>(vs, w4, r4). Ok (v # vs, w4, r4))))))
     else Ok ([], word, r))"
  by pat_completeness auto
termination
proof (relation "measure (\<lambda>(w, lx, r). remaining r + (if lx = TG_COMA \<or> lx = TG_ASLASH then 1 else 0))", goal_cases)
  case (2 word lx r wr1 w r1 wr2 wr2' v r2 wr3 w3 r3)
  have "remaining r1 \<le> remaining r" using 2 remaining_read_full_word by blast
  moreover have "remaining (snd wr2) \<le> remaining r1"
    using 2 remaining_read_full_word [of r1] by (cases wr2) (auto split: if_splits)
  moreover have "r2 = snd wr2" using 2 by (auto simp: CHECK_LEX_def file_error_def split: if_splits)
  moreover have "remaining r3 \<le> remaining r2" "w3 \<noteq> lexical_word_null \<Longrightarrow> remaining r3 < remaining r2"
    using 2 remaining_read_word by blast+
  moreover have "class_lex lexical_word_null = TG_STRING" by (simp add: class_lex_def lexical_word_null_def)
  ultimately show ?case using 2(1) by fastforce
qed simp

declare parse_values.simps [simp del]

definition parse_resource_value :: "string \<Rightarrow> reader \<Rightarrow> (string list \<times> string \<times> reader) result" where
  "parse_resource_value word r = parse_values word TG_COMA r"

text \<open>
  One entry of the file, given its first word. The parser stops with a message, which its
  caller ignores, or goes on with the next word.
\<close>

datatype entry_end =
    Stopped string t_server
  | Continued t_server string reader

definition expected :: "string \<Rightarrow> reader \<Rightarrow> t_server \<Rightarrow> entry_end result" where
  "expected what r s = Ok (Stopped (what @ '' expected at line '' @ dec (StartLine r)) s)"

definition with_values :: "string \<Rightarrow> reader \<Rightarrow> (string list \<Rightarrow> t_server result) \<Rightarrow> entry_end result" where
  "with_values word r f =
    rbind (parse_resource_value word r) (\<lambda>(values, word, r). rbind (f values) (\<lambda>s. Ok (Continued s word r)))"

definition slashes :: "string list \<Rightarrow> string" where
  "slashes ns = concat (map (\<lambda>n. CHR ''/'' # n) ns)"

text \<open>
  After four names there is a colon in the definition of a class, and an arrow before the
  property of an attribute.
\<close>

definition parse_four :: "string \<Rightarrow> string \<Rightarrow> string \<Rightarrow> string \<Rightarrow> reader \<Rightarrow> t_server \<Rightarrow> entry_end result" where
  "parse_four domain family member name r s =
    rbind (read_word r) (\<lambda>(word, r).
      case class_lex word of
        TG_COLON \<Rightarrow> with_values word r (\<lambda>vs. Ok (define_class family member name vs s))
      | TG_ARROW \<Rightarrow>
          rbind (read_lex TG_STRING r) (\<lambda>(prop, r).
          rbind (read_lex TG_COLON r) (\<lambda>(word, r).
            with_values word r (\<lambda>vs.
              define_dev_attr_prop (domain @ slashes [family, member]) name \<lparr>p_name = prop, p_value = vs\<rparr> s)))
      | _ \<Rightarrow> expected ''COLON or ->'' r s)"

definition parse_three :: "string \<Rightarrow> string \<Rightarrow> string \<Rightarrow> reader \<Rightarrow> t_server \<Rightarrow> entry_end result" where
  "parse_three domain family member r s =
    rbind (read_word r) (\<lambda>(word, r).
      case class_lex word of
        TG_SLASH \<Rightarrow> rbind (read_lex TG_STRING r) (\<lambda>(name, r). parse_four domain family member name r s)
      | TG_ARROW \<Rightarrow>
          rbind (read_lex TG_STRING r) (\<lambda>(prop, r).
          rbind (read_lex TG_COLON r) (\<lambda>(word, r).
            with_values word r (\<lambda>vs.
              let p = \<lparr>p_name = prop, p_value = vs\<rparr> in
              Ok (if equalsIgnoreCase domain ''class'' then define_class_attr_prop family member p s
                  else define_dev_prop (domain @ slashes [family, member]) p s))))
      | _ \<Rightarrow> expected ''SLASH or ->'' r s)"

text \<open>
  After two names and an arrow the word before the values is not looked at.
\<close>

definition parse_two :: "string \<Rightarrow> string \<Rightarrow> reader \<Rightarrow> t_server \<Rightarrow> entry_end result" where
  "parse_two domain family r s =
    rbind (read_lex TG_STRING r) (\<lambda>(member, r).
    rbind (read_word r) (\<lambda>(word, r).
    rbind (parse_resource_value word r) (\<lambda>(values, word, r).
      let p = \<lparr>p_name = member, p_value = values\<rparr> in
      if equalsIgnoreCase domain ''class'' then Ok (Continued (define_class_prop family p s) word r)
      else if equalsIgnoreCase domain ''free'' then Ok (Continued (define_free_prop family p s) word r)
      else Ok (Stopped (''Invlalid class property syntax on '' @ domain @ slashes [family, member]) s))))"

definition parse_entry :: "string \<Rightarrow> reader \<Rightarrow> t_server \<Rightarrow> entry_end result" where
  "parse_entry domain r s =
    (if class_lex domain = TG_STRING
     then rbind (read_lex TG_SLASH r) (\<lambda>(_, r).
          rbind (read_lex TG_STRING r) (\<lambda>(family, r).
          rbind (read_word r) (\<lambda>(word, r).
            case class_lex word of
              TG_SLASH \<Rightarrow> rbind (read_lex TG_STRING r) (\<lambda>(member, r). parse_three domain family member r s)
            | TG_ARROW \<Rightarrow> parse_two domain family r s
            | _ \<Rightarrow> expected ''SLASH or ->'' r s)))
     else Ok (Stopped (''Invalid resource name get  instead of STRING al line '' @ dec (StartLine r)) s))"

text \<open>
  An entry that is complete used up characters, so the loop over the entries ends.
\<close>

lemma remaining_read_lex:
  assumes "read_lex lx r = Ok (w, r')"
  shows "remaining r' \<le> remaining r" "lx \<noteq> TG_STRING \<Longrightarrow> remaining r' < remaining r"
proof -
  have w: "read_word r = Ok (w, r')" "class_lex w = lx"
    using assms by (auto simp: read_lex_def CHECK_LEX_def file_error_def result_simps split: if_splits)
  have "w \<noteq> lexical_word_null" if "lx \<noteq> TG_STRING"
    using w(2) that by (auto simp: class_lex_def lexical_word_null_def)
  then show "remaining r' \<le> remaining r" "lx \<noteq> TG_STRING \<Longrightarrow> remaining r' < remaining r"
    using remaining_read_word [OF w(1)] by blast+
qed

lemma remaining_parse_values:
  "parse_values word lx r = Ok (vs, w, r') \<Longrightarrow> remaining r' \<le> remaining r"
proof (induction word lx r arbitrary: vs w r' rule: parse_values.induct)
  case (1 word lx r)
  show ?case
  proof (cases "(lx = TG_COMA \<or> lx = TG_ASLASH) \<and> word \<noteq> []")
    case True
    from 1(2) True obtain w1 r1 v r2 w3 r3 us where
      r1: "read_full_word r = Ok (w1, r1)" and
      v: "(if class_lex w1 = TG_ASLASH then read_full_word r1 else Ok (w1, r1)) = Ok (v, r2)" and
      c: "CHECK_LEX TG_STRING (v, r2) = Ok (v, r2)" and
      r3: "read_word r2 = Ok (w3, r3)" and us: "parse_values w3 (class_lex w3) r3 = Ok (us, w, r')"
      by (subst (asm) parse_values.simps)
        (auto simp: result_simps CHECK_LEX_def file_error_def split: if_splits prod.splits)
    have "remaining r' \<le> remaining r3"
      by (rule 1(1) [OF True r1 refl v c refl r3 refl us])
    moreover have "remaining r2 \<le> remaining r1"
      using v remaining_read_full_word [of r1] by (auto split: if_splits)
    ultimately show ?thesis using remaining_read_full_word [OF r1] remaining_read_word(1) [OF r3] by linarith
  next
    case False
    show ?thesis using 1(2) unfolding parse_values.simps [of word lx r] if_not_P [OF False] by simp
  qed
qed

lemma remaining_with_values:
  "with_values word r f = Ok (Continued s w r') \<Longrightarrow> remaining r' \<le> remaining r"
  using remaining_parse_values
  by (fastforce simp: with_values_def parse_resource_value_def result_simps)

lemma remaining_parse_four:
  assumes "parse_four d f m n r s = Ok (Continued s' w r')"
  shows "remaining r' \<le> remaining r"
proof -
  obtain u r1 where u: "read_word r = Ok (u, r1)" using assms by (auto simp: parse_four_def result_simps)
  have r1: "remaining r1 \<le> remaining r" by (rule remaining_read_word(1) [OF u])
  show ?thesis
  proof (cases "class_lex u")
    case TG_COLON
    then show ?thesis using assms u r1 remaining_with_values by (fastforce simp: parse_four_def)
  next
    case TG_ARROW
    then obtain p r2 c r3 where "read_lex TG_STRING r1 = Ok (p, r2)" "read_lex TG_COLON r2 = Ok (c, r3)"
      "\<exists>g. with_values c r3 g = Ok (Continued s' w r')"
      using assms u by (fastforce simp: parse_four_def result_simps)
    then show ?thesis using r1 remaining_read_lex(1) remaining_with_values by (meson order.trans)
  qed (use assms u in \<open>simp_all add: parse_four_def expected_def\<close>)
qed

lemma remaining_parse_three:
  assumes "parse_three d f m r s = Ok (Continued s' w r')"
  shows "remaining r' \<le> remaining r"
proof -
  obtain u r1 where u: "read_word r = Ok (u, r1)" using assms by (auto simp: parse_three_def result_simps)
  have r1: "remaining r1 \<le> remaining r" by (rule remaining_read_word(1) [OF u])
  show ?thesis
  proof (cases "class_lex u")
    case TG_SLASH
    then obtain n r2 where "read_lex TG_STRING r1 = Ok (n, r2)" "parse_four d f m n r2 s = Ok (Continued s' w r')"
      using assms u by (auto simp: parse_three_def result_simps)
    then show ?thesis using r1 remaining_read_lex(1) remaining_parse_four by (meson order.trans)
  next
    case TG_ARROW
    then obtain p r2 c r3 where "read_lex TG_STRING r1 = Ok (p, r2)" "read_lex TG_COLON r2 = Ok (c, r3)"
      "\<exists>g. with_values c r3 g = Ok (Continued s' w r')"
      using assms u by (fastforce simp: parse_three_def result_simps)
    then show ?thesis using r1 remaining_read_lex(1) remaining_with_values by (meson order.trans)
  qed (use assms u in \<open>simp_all add: parse_three_def expected_def\<close>)
qed

lemma remaining_parse_two:
  assumes "parse_two d f r s = Ok (Continued s' w r')"
  shows "remaining r' \<le> remaining r"
proof -
  obtain m r1 u r2 vs v r3 where "read_lex TG_STRING r = Ok (m, r1)" "read_word r1 = Ok (u, r2)"
    and vs: "parse_values u TG_COMA r2 = Ok (vs, v, r3)"
    using assms by (auto simp: parse_two_def parse_resource_value_def result_simps)
  moreover from this have "r' = r3"
    using assms by (auto simp: parse_two_def parse_resource_value_def Let_def split: if_splits)
  ultimately show ?thesis
    using remaining_read_lex(1) remaining_read_word(1) remaining_parse_values [OF vs] by (meson order.trans)
qed

lemma remaining_parse_entry:
  assumes "parse_entry d r s = Ok (Continued s' w r')"
  shows "remaining r' < remaining r"
proof -
  obtain x r1 f r2 u r3 where x: "read_lex TG_SLASH r = Ok (x, r1)" and f: "read_lex TG_STRING r1 = Ok (f, r2)"
    and u: "read_word r2 = Ok (u, r3)"
    using assms by (auto simp: parse_entry_def result_simps split: if_splits)
  have "remaining r3 < remaining r"
    using remaining_read_lex(2) [OF x] remaining_read_lex(1) [OF f] remaining_read_word(1) [OF u] by simp
  moreover have "remaining r' \<le> remaining r3"
  proof (cases "class_lex u")
    case TG_SLASH
    then obtain m r4 where "read_lex TG_STRING r3 = Ok (m, r4)" "parse_three d f m r4 s = Ok (Continued s' w r')"
      using assms x f u by (auto simp: parse_entry_def result_simps split: if_splits)
    then show ?thesis using remaining_read_lex(1) remaining_parse_three by (meson order.trans)
  next
    case TG_ARROW
    then show ?thesis using assms x f u remaining_parse_two by (auto simp: parse_entry_def split: if_splits)
  qed (use assms x f u in \<open>simp_all add: parse_entry_def expected_def split: if_splits\<close>)
  ultimately show ?thesis by simp
qed

lemma entry_end_case_cong [fundef_cong]:
  "\<lbrakk>e = e'; \<And>m s. e' = Stopped m s \<Longrightarrow> f m s = f' m s; \<And>s w r. e' = Continued s w r \<Longrightarrow> g s w r = g' s w r\<rbrakk> \<Longrightarrow>
    case_entry_end f g e = case_entry_end f' g' e'"
  by (cases e') simp_all

function parse_loop :: "string \<Rightarrow> reader \<Rightarrow> t_server \<Rightarrow> (string \<times> t_server) result" where
  "parse_loop word r s =
    rbind (parse_entry word r s) (\<lambda>e.
      case e of
        Stopped msg s' \<Rightarrow> Ok (msg, s')
      | Continued s' word' r' \<Rightarrow> if word' = lexical_word_null then Ok ([], s') else parse_loop word' r' s')"
  by pat_completeness auto
termination
  by (relation "measure (\<lambda>(w, r, s). remaining r)") (auto dest: remaining_parse_entry)

declare parse_loop.simps [simp del]

definition parse_res_file :: "string \<Rightarrow> (string \<times> t_server) result" where
  "parse_res_file text =
    rbind (read_word (open_file text)) (\<lambda>(word, r).
      if word = [] then Ok (''file is empty...'', new_server)
      else parse_loop word r (new_server\<lparr>s_name := word\<rparr>))"

text \<open>
  The constructor throws if the file cannot be opened, and ignores the message.
\<close>

definition FileDatabase_new :: "string option \<Rightarrow> t_server result" where
  "FileDatabase_new file =
    (case file of
       None \<Rightarrow> Throw (DevFailed ''API_DatabaseFileError'' ''FILEDATABASE could not open file'')
     | Some text \<Rightarrow> rbind (parse_res_file text) (\<lambda>(msg, s). Ok s))"

section \<open>The writer\<close>

definition write_string_value :: "string \<Rightarrow> string" where
  "write_string_value v =
    (let q = (CHR '' '' \<in> set v \<or> NL \<in> set v \<or> DQ \<in> set v) in
     (if q then [DQ] else []) @ (if DQ \<in> set v then escape_double_quote v else v) @ (if q then [DQ] else []))"

definition write_more :: "(string \<Rightarrow> string) \<Rightarrow> nat \<Rightarrow> string list \<Rightarrow> string" where
  "write_more f margin vs = concat (map (\<lambda>v. [CHR '','', BSL, NL] @ replicate margin (CHR '' '') @ f v) vs)"

definition write_list :: "(string \<Rightarrow> string) \<Rightarrow> nat \<Rightarrow> string list \<Rightarrow> string" where
  "write_list f margin vs = (case vs of [] \<Rightarrow> [] | v # vs \<Rightarrow> f v @ write_more f margin vs)"

definition quote_name :: "string \<Rightarrow> string" where
  "quote_name n = DQ # n @ [DQ]"

definition dev_names :: "t_server \<Rightarrow> nat list \<Rightarrow> string list" where
  "dev_names s = map (\<lambda>i. d_name (s_heap s ! i))"

text \<open>
  A class without devices, and a property of a class without values or with an empty
  first value, lead outside a vector or a string.
\<close>

definition write_class_line :: "t_server \<Rightarrow> t_tango_class \<Rightarrow> string result" where
  "write_class_line s c =
    (if c_devices c = [] then Undef
     else let head = s_name s @ ''/'' @ s_instance_name s @ ''/DEVICE/'' @ c_name c @ '': '' in
       Ok (head @ write_list quote_name (length head) (dev_names s (c_devices c)) @ [NL]))"

definition prop_line :: "string \<Rightarrow> nat \<Rightarrow> t_property \<Rightarrow> string" where
  "prop_line head margin p =
    head @ ''->'' @ p_name p @ '': '' @ write_list write_string_value (margin + length (p_name p) + 2) (p_value p) @ [NL]"

definition class_prop_line :: "t_tango_class \<Rightarrow> t_property \<Rightarrow> string result" where
  "class_prop_line c p =
    (if p_value p = [] \<or> hd (p_value p) = [] then Undef
     else Ok (prop_line (''CLASS/'' @ c_name c) (6 + length (c_name c) + 2) p))"

definition attr_prop_lines :: "string \<Rightarrow> t_attribute_property list \<Rightarrow> string" where
  "attr_prop_lines head aps =
    concat (map (\<lambda>a. concat (map
      (prop_line (head @ ''/'' @ ap_name a) (length head + 1 + length (ap_name a) + 2)) (ap_properties a))) aps)"

definition ruler :: string where
  "ruler = replicate 45 (CHR ''#'') @ [NL]"

definition write_class :: "t_tango_class \<Rightarrow> string result" where
  "write_class c =
    rbind (rmap (class_prop_line c) (c_properties c)) (\<lambda>ps.
      Ok (ruler @ ''# CLASS '' @ c_name c @ [NL] @ [NL] @ concat ps @ [NL] @
        ''# CLASS '' @ c_name c @ '' attribute properties'' @ [NL] @ [NL] @
        attr_prop_lines (''CLASS/'' @ c_name c) (c_attribute_properties c) @ [NL]))"

definition write_device :: "t_device \<Rightarrow> string" where
  "write_device d =
    ''# DEVICE '' @ d_name d @ '' properties '' @ [NL] @ [NL] @
    concat (map (prop_line (d_name d) (length (d_name d) + 1)) (d_properties d)) @ [NL] @
    ''# DEVICE '' @ d_name d @ '' attribute properties'' @ [NL] @ [NL] @
    attr_prop_lines (d_name d) (d_attribute_properties d)"

definition write_free_object :: "t_free_object \<Rightarrow> string" where
  "write_free_object f = concat (map (prop_line (''FREE/'' @ o_name f) (5 + length (o_name f) + 2)) (o_properties f))"

definition write_file :: "t_server \<Rightarrow> string result" where
  "write_file s =
    rbind (rmap (write_class_line s) (s_classes s)) (\<lambda>lines.
    rbind (rmap write_class (s_classes s)) (\<lambda>parts.
      Ok (concat lines @ [NL] @ concat parts @ [NL] @
        concat (map (\<lambda>i. write_device (s_heap s ! i)) (s_devices s)) @
        ruler @ ''# FREE OBJECT attributes'' @ [NL] @ [NL] @
        concat (map write_free_object (s_free_objects s)))))"

end
