(* ===== verification/File_Db_Roundtrip.thy ===== *)
theory File_Db_Roundtrip
  imports File_Database
begin

text \<open>
  Writing and reading the file of the database. The theory shows that a database of well
  formed names and values is read back from its file as it was, and which values are not.
\<close>

section \<open>Lists of values\<close>

text \<open>
  A way of writing values after which the parser reads them back: in front of a comma or
  the end of the line.
\<close>

definition value_text :: "(string \<Rightarrow> string) \<Rightarrow> string \<Rightarrow> bool" where
  "value_text f v \<longleftrightarrow> class_lex v = TG_STRING \<and>
    (\<forall>ws c ys. list_all is_space ws \<longrightarrow> c = NL \<or> c = CHR '','' \<longrightarrow> reads_full (ws @ f v @ c # ys) v (c # ys))"

lemma value_text_reads:
  assumes "value_text f v" "list_all is_space ws" "sees r (ws @ f v @ write_more f m vs @ NL # ys)"
  shows "\<exists>r'. read_full_word r = Ok (v, r') \<and> sees r' (write_more f m vs @ NL # ys)"
proof -
  obtain c zs where c: "write_more f m vs @ NL # ys = c # zs" "c = NL \<or> c = CHR '',''"
    by (cases vs) (auto simp: write_more_def)
  then have "reads_full (ws @ f v @ c # zs) v (c # zs)"
    using assms(1,2) unfolding value_text_def by blast
  then show ?thesis using assms(3) unfolding c(1) reads_full_def by blast
qed

lemma parse_values_stop: "class_lex w = TG_STRING \<Longrightarrow> parse_values w (class_lex w) r = Ok ([], w, r)"
  by (subst parse_values.simps) simp

lemma lex_simps [simp]:
  "class_lex '','' = TG_COMA" "class_lex [BSL] = TG_ASLASH" "class_lex '':'' = TG_COLON"
  "class_lex ''/'' = TG_SLASH" "class_lex ''->'' = TG_ARROW" "class_lex lexical_word_null = TG_STRING"
  by (simp_all add: class_lex_def lexical_word_null_def)

lemma parse_values_more:
  assumes "list_all (value_text f) vs" "reads (NL # ys) w zs" "class_lex w = TG_STRING"
    "sees r (write_more f m vs @ NL # ys)"
  shows "\<exists>w1 r1 r'. read_word r = Ok (w1, r1) \<and> parse_values w1 (class_lex w1) r1 = Ok (vs, w, r') \<and> sees r' zs"
  using assms
proof (induction vs arbitrary: r)
  case Nil
  then obtain r1 where "read_word r = Ok (w, r1)" "sees r1 zs"
    by (auto simp: write_more_def reads_def)
  then show ?case using parse_values_stop [OF assms(3)] by blast
next
  case (Cons v vs)
  let ?sp = "replicate m (CHR '' '')"
  let ?ts = "write_more f m vs @ NL # ys"
  have "reads ([] @ CHR '','' # BSL # NL # ?sp @ f v @ ?ts) '','' (BSL # NL # ?sp @ f v @ ?ts)"
    by (rule reads_special) (simp_all add: noise.blank special_char_def)
  moreover have "sees r (CHR '','' # BSL # NL # ?sp @ f v @ ?ts)"
    using Cons.prems(4) by (simp add: write_more_def)
  ultimately obtain r1 where r1: "read_word r = Ok ('','', r1)" "sees r1 (BSL # NL # ?sp @ f v @ ?ts)"
    by (auto simp: reads_def simp del: sees.simps)
  obtain r2 where r2: "read_full_word r1 = Ok ([BSL], r2)" "sees r2 ((NL # ?sp) @ f v @ ?ts)"
    using reads_full_backslash r1(2) unfolding reads_full_def append_Cons by blast
  have "list_all is_space (NL # ?sp)" by (simp add: list_all_iff)
  then obtain r3 where r3: "read_full_word r2 = Ok (v, r3)" "sees r3 ?ts"
    using value_text_reads [OF _ _ r2(2)] Cons.prems(1) by auto
  obtain w4 r4 r' where "read_word r3 = Ok (w4, r4)" "parse_values w4 (class_lex w4) r4 = Ok (vs, w, r')" "sees r' zs"
    using Cons.IH [OF _ assms(2,3) r3(2)] Cons.prems(1) by auto
  moreover have "class_lex v = TG_STRING" using Cons.prems(1) by (simp add: value_text_def)
  ultimately have "parse_values '','' TG_COMA r1 = Ok (v # vs, w, r') \<and> sees r' zs"
    using r2(1) r3(1) by (subst parse_values.simps) (simp add: CHECK_LEX_def)
  then show ?case using r1(1) lex_simps(1) by metis
qed

lemma parse_resource_value_text:
  assumes "list_all (value_text f) vs" "vs \<noteq> []" "reads (NL # ys) w zs" "class_lex w = TG_STRING"
    "sees r (CHR '' '' # write_list f m vs @ NL # ys)"
  shows "\<exists>r'. parse_resource_value '':'' r = Ok (vs, w, r') \<and> sees r' zs"
proof -
  obtain v us where vs: "vs = v # us" using assms(2) by (cases vs) auto
  have "sees r ('' '' @ f v @ write_more f m us @ NL # ys)"
    using assms(5) by (simp add: vs write_list_def)
  moreover have "value_text f v" "list_all is_space '' ''" using assms(1) by (simp_all add: vs)
  ultimately obtain r1 where r1: "read_full_word r = Ok (v, r1)" "sees r1 (write_more f m us @ NL # ys)"
    using value_text_reads by blast
  obtain w4 r4 r' where "read_word r1 = Ok (w4, r4)" "parse_values w4 (class_lex w4) r4 = Ok (us, w, r')" "sees r' zs"
    using parse_values_more [OF _ assms(3,4) r1(2)] assms(1) vs by auto
  moreover have "class_lex v = TG_STRING" using assms(1) by (simp add: vs value_text_def)
  ultimately have "parse_values '':'' TG_COMA r = Ok (vs, w, r') \<and> sees r' zs"
    using r1(1) by (subst parse_values.simps) (simp add: CHECK_LEX_def vs)
  then show ?thesis unfolding parse_resource_value_def by blast
qed

text \<open>
  The values that are read back: not empty, not one of the special words, without
  backslash in a quoted value, and of printable characters without comma and backslash in
  a value that is not quoted.
\<close>

definition is_quoted :: "string \<Rightarrow> bool" where
  "is_quoted v \<longleftrightarrow> CHR '' '' \<in> set v \<or> NL \<in> set v \<or> DQ \<in> set v"

definition wf_value :: "string \<Rightarrow> bool" where
  "wf_value v \<longleftrightarrow> class_lex v = TG_STRING \<and>
    (if is_quoted v then BSL \<notin> set v \<and> NUL \<notin> set v else list_all plain_char v)"

lemma escape_id: "DQ \<notin> set v \<Longrightarrow> escape_double_quote v = v"
  by (induction v) (auto simp: escape_double_quote_def)

lemma not_empty_lex: "class_lex v = TG_STRING \<Longrightarrow> v \<noteq> []"
  by (auto simp: class_lex_def)

lemma separator_not_plain: "c = NL \<or> c = CHR '','' \<Longrightarrow> \<not> plain_char c"
  by (auto simp: plain_char_def)

lemma value_text_string:
  assumes "wf_value v"
  shows "value_text write_string_value v"
proof -
  have v: "class_lex v = TG_STRING" "v \<noteq> []" using assms not_empty_lex by (auto simp: wf_value_def)
  show ?thesis
  proof (cases "is_quoted v")
    case True
    then have "write_string_value v = DQ # escape_double_quote v @ [DQ]"
      using escape_id [of v] by (auto simp: write_string_value_def is_quoted_def)
    then show ?thesis using v assms True by (auto simp: value_text_def wf_value_def intro!: reads_full_quoted)
  next
    case False
    then have "DQ \<notin> set v" by (simp add: is_quoted_def)
    then have "hd v \<noteq> DQ" using v(2) hd_in_set by metis
    moreover have "write_string_value v = v" "list_all plain_char v"
      using False assms by (auto simp: write_string_value_def is_quoted_def wf_value_def)
    ultimately show ?thesis using v separator_not_plain unfolding value_text_def
      by (auto intro!: reads_full_plain)
  qed
qed

lemma value_text_name:
  assumes "class_lex n = TG_STRING" "BSL \<notin> set n" "NUL \<notin> set n" "DQ \<notin> set n"
  shows "value_text quote_name n"
  using assms not_empty_lex [OF assms(1)] escape_id [of n] reads_full_quoted [of _ n]
  by (auto simp: value_text_def quote_name_def)


section \<open>Entries\<close>

datatype entry =
    Class_def string string string string "string list"
  | Prop4 string string string string t_property
  | Prop3 string string string t_property
  | Prop2 string string t_property

fun entry_first :: "entry \<Rightarrow> string" where
  "entry_first (Class_def a b c n vs) = a"
| "entry_first (Prop4 a b c n p) = a"
| "entry_first (Prop3 a b c p) = a"
| "entry_first (Prop2 a b p) = a"

definition prop_text :: "nat \<Rightarrow> t_property \<Rightarrow> string" where
  "prop_text m p = ''->'' @ p_name p @ '': '' @ write_list write_string_value m (p_value p) @ [NL]"

text \<open>
  The text after the first name, with a margin for the continued lines.
\<close>

fun entry_rest :: "nat \<Rightarrow> entry \<Rightarrow> string" where
  "entry_rest m (Class_def a b c n vs) = slashes [b, c, n] @ '': '' @ write_list quote_name m vs @ [NL]"
| "entry_rest m (Prop4 a b c n p) = slashes [b, c, n] @ prop_text m p"
| "entry_rest m (Prop3 a b c p) = slashes [b, c] @ prop_text m p"
| "entry_rest m (Prop2 a b p) = slashes [b] @ prop_text m p"

definition wf_prop :: "t_property \<Rightarrow> bool" where
  "wf_prop p \<longleftrightarrow> wf_name (p_name p) \<and> p_value p \<noteq> [] \<and> list_all wf_value (p_value p)"

fun wf_entry :: "entry \<Rightarrow> bool" where
  "wf_entry (Class_def a b c n vs) \<longleftrightarrow>
    wf_name a \<and> wf_name b \<and> wf_name c \<and> wf_name n \<and> vs \<noteq> [] \<and> list_all (value_text quote_name) vs"
| "wf_entry (Prop4 a b c n p) \<longleftrightarrow> wf_name a \<and> wf_name b \<and> wf_name c \<and> wf_name n \<and> wf_prop p"
| "wf_entry (Prop3 a b c p) \<longleftrightarrow> wf_name a \<and> wf_name b \<and> wf_name c \<and> wf_prop p"
| "wf_entry (Prop2 a b p) \<longleftrightarrow>
    wf_name a \<and> wf_name b \<and> wf_prop p \<and> (equalsIgnoreCase a ''class'' \<or> equalsIgnoreCase a ''free'')"

fun apply_entry :: "entry \<Rightarrow> t_server \<Rightarrow> t_server result" where
  "apply_entry (Class_def a b c n vs) s = Ok (define_class b c n vs s)"
| "apply_entry (Prop4 a b c n p) s = define_dev_attr_prop (a @ slashes [b, c]) n p s"
| "apply_entry (Prop3 a b c p) s =
    Ok (if equalsIgnoreCase a ''class'' then define_class_attr_prop b c p s
        else define_dev_prop (a @ slashes [b, c]) p s)"
| "apply_entry (Prop2 a b p) s =
    Ok (if equalsIgnoreCase a ''class'' then define_class_prop b p s else define_free_prop b p s)"

lemma read_lex_iff: "read_lex lx r = Ok (w, r') \<longleftrightarrow> read_word r = Ok (w, r') \<and> class_lex w = lx"
  by (auto simp: read_lex_def CHECK_LEX_def file_error_def result_simps split: if_splits)

lemma t_property_eta [simp]: "\<lparr>p_name = p_name p, p_value = p_value p\<rparr> = p"
  by (cases p) simp

lemma read_lexD: "read_lex lx r = Ok wr \<Longrightarrow> read_word r = Ok wr"
  using read_lex_iff by (cases wr) blast

lemma reads_obtain:
  assumes "reads xs w ys" "sees r xs"
  obtains r' where "read_word r = Ok (w, r')" "sees r' ys"
  using assms unfolding reads_def by blast

lemma reads_obtain_lex:
  assumes "reads xs w ys" "sees r xs" "class_lex w = lx"
  obtains r' where "read_lex lx r = Ok (w, r')" "sees r' ys"
  using assms read_lex_iff unfolding reads_def by blast

lemma wf_nameE:
  assumes "wf_name w"
  obtains c v where "w = c # v" "c \<noteq> CHR ''*''"
  using assms by (cases w) (auto simp: wf_name_def)

lemma word_ends [simp]:
  "wf_name b \<Longrightarrow> word_end (CHR ''/'' # b @ ys)"
  "word_end (CHR ''-'' # CHR ''>'' # ys)" "word_end (CHR '':'' # CHR '' '' # ys)"
  by (auto simp: name_char_def special_char_def elim!: wf_nameE)

lemma reads_slash: "wf_name b \<Longrightarrow> reads (CHR ''/'' # b @ ys) ''/'' (b @ ys)"
  using reads_special [of "[]" "CHR ''/''" "b @ ys"]
  by (auto simp: noise.blank special_char_def elim!: wf_nameE)

lemma reads_plain_name: "wf_name w \<Longrightarrow> word_end ys \<Longrightarrow> reads (w @ ys) w ys"
  using reads_name [of "[]" w ys] by (simp add: noise.blank)

lemma reads_colon: "reads (CHR '':'' # ys) '':'' ys"
  using reads_special [of "[]" "CHR '':''" ys] by (simp add: noise.blank special_char_def)

text \<open>
  A slash and a name.
\<close>

lemma read_slash_name:
  assumes "sees r (CHR ''/'' # b @ ys)" "wf_name b" "word_end ys"
  obtains r1 r2 where "read_lex TG_SLASH r = Ok (''/'', r1)" "read_lex TG_STRING r1 = Ok (b, r2)" "sees r2 ys"
proof -
  obtain r1 where r1: "read_lex TG_SLASH r = Ok (''/'', r1)" "sees r1 (b @ ys)"
    using reads_obtain_lex [OF reads_slash [OF assms(2)] assms(1)] lex_simps by blast
  obtain r2 where "read_lex TG_STRING r1 = Ok (b, r2)" "sees r2 ys"
    using reads_obtain_lex [OF reads_plain_name [OF assms(2,3)] r1(2)] wf_name_lex [OF assms(2)] by blast
  with r1(1) show ?thesis by (rule that)
qed

text \<open>
  A property with its values and the word that follows.
\<close>

lemma read_prop_head:
  assumes "sees r (prop_text m p @ ys)" "wf_name (p_name p)"
  obtains r1 r2 r3 where "read_lex TG_ARROW r = Ok (''->'', r1)" "read_lex TG_STRING r1 = Ok (p_name p, r2)"
    "read_lex TG_COLON r2 = Ok ('':'', r3)" "sees r3 (CHR '' '' # write_list write_string_value m (p_value p) @ NL # ys)"
proof -
  let ?vs = "CHR '' '' # write_list write_string_value m (p_value p) @ NL # ys"
  have "sees r (''->'' @ p_name p @ CHR '':'' # ?vs)" using assms(1) by (simp add: prop_text_def del: sees.simps)
  then obtain r1 where r1: "read_lex TG_ARROW r = Ok (''->'', r1)" "sees r1 (p_name p @ CHR '':'' # ?vs)"
    using reads_obtain_lex [OF reads_arrow] lex_simps by blast
  obtain r2 where r2: "read_lex TG_STRING r1 = Ok (p_name p, r2)" "sees r2 (CHR '':'' # ?vs)"
    using reads_obtain_lex [OF reads_plain_name [OF assms(2)] r1(2)] wf_name_lex [OF assms(2)] word_ends(3) by blast
  obtain r3 where "read_lex TG_COLON r2 = Ok ('':'', r3)" "sees r3 ?vs"
    using reads_obtain_lex [OF reads_colon r2(2)] lex_simps by blast
  then show ?thesis using that r1(1) r2(1) by blast
qed

lemma read_prop:
  assumes "sees r (prop_text m p @ ys)" "wf_prop p" "reads (NL # ys) w zs" "class_lex w = TG_STRING"
  obtains r1 r2 r3 r' where "read_lex TG_ARROW r = Ok (''->'', r1)" "read_lex TG_STRING r1 = Ok (p_name p, r2)"
    "read_lex TG_COLON r2 = Ok ('':'', r3)" "parse_resource_value '':'' r3 = Ok (p_value p, w, r')" "sees r' zs"
proof -
  have p: "wf_name (p_name p)" "p_value p \<noteq> []" "list_all (value_text write_string_value) (p_value p)"
    using assms(2) value_text_string by (auto simp: wf_prop_def list_all_iff)
  obtain r1 r2 r3 where r: "read_lex TG_ARROW r = Ok (''->'', r1)" "read_lex TG_STRING r1 = Ok (p_name p, r2)"
    "read_lex TG_COLON r2 = Ok ('':'', r3)" "sees r3 (CHR '' '' # write_list write_string_value m (p_value p) @ NL # ys)"
    by (rule read_prop_head [OF assms(1) p(1)])
  obtain r' where "parse_resource_value '':'' r3 = Ok (p_value p, w, r')" "sees r' zs"
    using parse_resource_value_text [OF p(3,2) assms(3,4) r(4)] by blast
  then show ?thesis using that r(1-3) by blast
qed

lemma parse_four_text:
  assumes "reads (NL # ys) w zs" "class_lex w = TG_STRING"
  shows "wf_entry (Class_def a b c n vs) \<Longrightarrow> sees r ('': '' @ write_list quote_name m vs @ NL # ys) \<Longrightarrow>
      \<exists>r'. parse_four a b c n r s = Ok (Continued (define_class b c n vs s) w r') \<and> sees r' zs"
    and "wf_prop p \<Longrightarrow> sees r (prop_text m p @ ys) \<Longrightarrow> define_dev_attr_prop (a @ slashes [b, c]) n p s = Ok s' \<Longrightarrow>
      \<exists>r'. parse_four a b c n r s = Ok (Continued s' w r') \<and> sees r' zs"
proof -
  assume wf: "wf_entry (Class_def a b c n vs)" and r: "sees r ('': '' @ write_list quote_name m vs @ NL # ys)"
  have "sees r (CHR '':'' # CHR '' '' # write_list quote_name m vs @ NL # ys)"
    using r by (simp only: append_Cons append_Nil)
  then obtain r1 where r1: "read_lex TG_COLON r = Ok ('':'', r1)" "sees r1 (CHR '' '' # write_list quote_name m vs @ NL # ys)"
    using reads_obtain_lex [OF reads_colon] lex_simps by blast
  obtain r' where "parse_resource_value '':'' r1 = Ok (vs, w, r')" "sees r' zs"
    using parse_resource_value_text [OF _ _ assms r1(2)] wf by auto
  then show "\<exists>r'. parse_four a b c n r s = Ok (Continued (define_class b c n vs s) w r') \<and> sees r' zs"
    using r1(1) by (simp add: parse_four_def with_values_def read_lexD [OF r1(1)])
next
  assume wf: "wf_prop p" and r: "sees r (prop_text m p @ ys)" and s': "define_dev_attr_prop (a @ slashes [b, c]) n p s = Ok s'"
  obtain r1 r2 r3 r' where q: "read_lex TG_ARROW r = Ok (''->'', r1)" "read_lex TG_STRING r1 = Ok (p_name p, r2)"
    "read_lex TG_COLON r2 = Ok ('':'', r3)" "parse_resource_value '':'' r3 = Ok (p_value p, w, r')" "sees r' zs"
    by (rule read_prop [OF r wf assms])
  then show "\<exists>r'. parse_four a b c n r s = Ok (Continued s' w r') \<and> sees r' zs"
    using s' by (simp add: parse_four_def with_values_def read_lexD [OF q(1)])
qed

lemma parse_four_names:
  assumes "wf_name a" "wf_name b" "wf_name c" "wf_name n" "word_end ys" "sees r (slashes [b, c, n] @ ys)"
  obtains r' where "sees r' ys" "\<And>s. parse_entry a r s = parse_four a b c n r' s"
proof -
  have "sees r (CHR ''/'' # b @ CHR ''/'' # c @ CHR ''/'' # n @ ys)"
    using assms(6) by (simp add: slashes_def del: sees.simps)
  then obtain r1 r2 where b: "read_lex TG_SLASH r = Ok (''/'', r1)" "read_lex TG_STRING r1 = Ok (b, r2)"
    "sees r2 (CHR ''/'' # c @ CHR ''/'' # n @ ys)" using read_slash_name assms word_ends(1) by metis
  then obtain r3 r4 where c: "read_lex TG_SLASH r2 = Ok (''/'', r3)" "read_lex TG_STRING r3 = Ok (c, r4)"
    "sees r4 (CHR ''/'' # n @ ys)" using read_slash_name assms word_ends(1) by metis
  then obtain r5 r6 where n: "read_lex TG_SLASH r4 = Ok (''/'', r5)" "read_lex TG_STRING r5 = Ok (n, r6)"
    "sees r6 ys" using read_slash_name [OF c(3) assms(4,5)] by metis
  show ?thesis
    using b c n assms(1) by (intro that [OF n(3)]) (simp add: parse_entry_def parse_three_def read_lexD [OF c(1)] read_lexD [OF n(1)])
qed

lemma parse_three_names:
  assumes "wf_name a" "wf_name b" "wf_name c" "sees r (slashes [b, c] @ prop_text m p @ ys)"
  obtains r' where "sees r' (prop_text m p @ ys)" "\<And>s. parse_entry a r s = parse_three a b c r' s"
proof -
  let ?t = "prop_text m p @ ys"
  have "sees r (CHR ''/'' # b @ CHR ''/'' # c @ ?t)" using assms(4) by (simp add: slashes_def del: sees.simps)
  then obtain r1 r2 where b: "read_lex TG_SLASH r = Ok (''/'', r1)" "read_lex TG_STRING r1 = Ok (b, r2)"
    "sees r2 (CHR ''/'' # c @ ?t)" using read_slash_name assms(2,3) word_ends(1) by metis
  have "word_end ?t" by (simp add: prop_text_def)
  then obtain r3 r4 where c: "read_lex TG_SLASH r2 = Ok (''/'', r3)" "read_lex TG_STRING r3 = Ok (c, r4)"
    "sees r4 ?t" using read_slash_name [OF b(3) assms(3)] by metis
  show ?thesis using b c assms(1) by (intro that [OF c(3)]) (simp add: parse_entry_def read_lexD [OF c(1)])
qed

lemma parse_prop3_text:
  assumes "wf_name a" "wf_name b" "wf_name c" "wf_prop p" "sees r (slashes [b, c] @ prop_text m p @ ys)"
    "reads (NL # ys) w zs" "class_lex w = TG_STRING" "apply_entry (Prop3 a b c p) s = Ok s'"
  shows "\<exists>r'. parse_entry a r s = Ok (Continued s' w r') \<and> sees r' zs"
proof -
  obtain r4 where r4: "sees r4 (prop_text m p @ ys)" "\<And>s. parse_entry a r s = parse_three a b c r4 s"
    using parse_three_names [OF assms(1-3,5)] by blast
  obtain q1 q2 q3 r' where q: "read_lex TG_ARROW r4 = Ok (''->'', q1)" "read_lex TG_STRING q1 = Ok (p_name p, q2)"
    "read_lex TG_COLON q2 = Ok ('':'', q3)" "parse_resource_value '':'' q3 = Ok (p_value p, w, r')" "sees r' zs"
    by (rule read_prop [OF r4(1) assms(4,6,7)])
  then show ?thesis using assms(8)
    by (auto simp: r4(2) parse_three_def with_values_def Let_def read_lexD [OF q(1)] simp del: sees.simps)
qed

lemma parse_prop2_text:
  assumes "wf_entry (Prop2 a b p)" "sees r (slashes [b] @ prop_text m p @ ys)"
    "reads (NL # ys) w zs" "class_lex w = TG_STRING" "apply_entry (Prop2 a b p) s = Ok s'"
  shows "\<exists>r'. parse_entry a r s = Ok (Continued s' w r') \<and> sees r' zs"
proof -
  let ?t = "prop_text m p @ ys"
  have wf: "wf_name a" "wf_name b" "wf_prop p" using assms(1) by simp_all
  have r: "sees r (CHR ''/'' # b @ ?t)" using assms(2) by (simp add: slashes_def del: sees.simps)
  have "word_end ?t" by (simp add: prop_text_def)
  then obtain r1 r2 where b: "read_lex TG_SLASH r = Ok (''/'', r1)" "read_lex TG_STRING r1 = Ok (b, r2)"
    "sees r2 ?t" using read_slash_name [OF r wf(2)] by metis
  obtain q1 q2 q3 r' where q: "read_lex TG_ARROW r2 = Ok (''->'', q1)" "read_lex TG_STRING q1 = Ok (p_name p, q2)"
    "read_lex TG_COLON q2 = Ok ('':'', q3)" "parse_resource_value '':'' q3 = Ok (p_value p, w, r')" "sees r' zs"
    by (rule read_prop [OF b(3) wf(3) assms(3,4)])
  then show ?thesis using b wf assms(1,5)
    by (auto simp: parse_entry_def parse_two_def Let_def read_lexD [OF q(1)] read_lexD [OF q(3)] split: if_splits)
qed

lemma parse_entry_text:
  assumes "wf_entry e" "sees r (entry_rest m e @ ys)" "reads (NL # ys) w zs" "class_lex w = TG_STRING"
    "apply_entry e s = Ok s'"
  shows "\<exists>r'. parse_entry (entry_first e) r s = Ok (Continued s' w r') \<and> sees r' zs"
proof (cases e)
  case (Class_def a b c n vs)
  have "sees r (slashes [b, c, n] @ '': '' @ write_list quote_name m vs @ NL # ys)"
    using assms(2) by (simp add: Class_def del: sees.simps)
  then obtain q where q: "sees q ('': '' @ write_list quote_name m vs @ NL # ys)"
    "\<And>s. parse_entry a r s = parse_four a b c n q s"
    using parse_four_names [of a b c n "'': '' @ write_list quote_name m vs @ NL # ys" r] assms(1) word_ends(3)
    by (auto simp: Class_def simp del: sees.simps word_end.simps)
  show ?thesis using parse_four_text(1) [OF assms(3,4) assms(1) [unfolded Class_def] q(1), of s] assms(5)
    by (simp add: Class_def q(2))
next
  case (Prop4 a b c n p)
  have "word_end (prop_text m p @ ys)" by (simp add: prop_text_def)
  then obtain q where q: "sees q (prop_text m p @ ys)" "\<And>s. parse_entry a r s = parse_four a b c n q s"
    using parse_four_names [of a b c n "prop_text m p @ ys" r] assms(1,2) by (auto simp: Prop4)
  show ?thesis using parse_four_text(2) [OF assms(3,4) _ q(1)] assms(1,5) by (simp add: Prop4 q(2))
next
  case (Prop3 a b c p)
  then show ?thesis using parse_prop3_text [of a b c p r m ys w zs s s'] assms by simp
next
  case (Prop2 a b p)
  then show ?thesis using parse_prop2_text [of a b p r m ys w zs s s'] assms by simp
qed

section \<open>Files\<close>

text \<open>
  A file as its entries, each with the blanks and comments before it and its margin.
\<close>

type_synonym item = "string \<times> nat \<times> entry"

fun item_text :: "item \<Rightarrow> string" where
  "item_text (n, m, e) = n @ entry_first e @ entry_rest m e"

fun item_entry :: "item \<Rightarrow> entry" where
  "item_entry (n, m, e) = e"

fun wf_item :: "item \<Rightarrow> bool" where
  "wf_item (n, m, e) \<longleftrightarrow> noise n \<and> wf_entry e \<and> entry_first e \<noteq> lexical_word_null"

fun apply_entries :: "entry list \<Rightarrow> t_server \<Rightarrow> t_server result" where
  "apply_entries [] s = Ok s"
| "apply_entries (e # es) s = rbind (apply_entry e s) (apply_entries es)"

lemma apply_entries_append: "apply_entries (es @ fs) s = rbind (apply_entries es s) (apply_entries fs)"
  by (induction es arbitrary: s) (simp_all add: rbind_assoc cong: rbind_cong)

lemma wf_entry_first: "wf_entry e \<Longrightarrow> wf_name (entry_first e)"
  by (cases e) simp_all

lemma word_end_entry_rest: "wf_entry e \<Longrightarrow> word_end (entry_rest m e @ ys)"
  by (cases e) (simp_all add: slashes_def)

lemma reads_item:
  assumes "wf_item (n, m, e)" "noise k"
  shows "reads (k @ item_text (n, m, e) @ ys) (entry_first e) (entry_rest m e @ ys)"
  using reads_name [of "k @ n" "entry_first e" "entry_rest m e @ ys"] assms noise_append [of k n]
  by (simp add: wf_entry_first word_end_entry_rest)

lemma parse_loop_text:
  assumes "wf_item (n, m, e)" "list_all wf_item items" "noise fin"
    "apply_entries (e # map item_entry items) s = Ok s'"
    "sees r (entry_rest m e @ concat (map item_text items) @ fin @ [NUL])"
  shows "parse_loop (entry_first e) r s = Ok ([], s')"
  using assms
proof (induction items arbitrary: n m e r s)
  case Nil
  have "reads (NL # fin @ [NUL]) lexical_word_null []"
    using reads_end [OF noise_append [OF noise_blank_line Nil.prems(3)]] by simp
  then obtain r' where "parse_entry (entry_first e) r s = Ok (Continued s' lexical_word_null r')"
    using parse_entry_text [of e r m "fin @ [NUL]" lexical_word_null "[]" s s'] Nil.prems
    by (auto simp: result_simps)
  then show ?case by (subst parse_loop.simps) simp
next
  case (Cons i items)
  obtain k l f where i: "i = (k, l, f)" by (cases i)
  let ?ts = "concat (map item_text items) @ fin @ [NUL]"
  obtain s1 where s1: "apply_entry e s = Ok s1" "apply_entries (f # map item_entry items) s1 = Ok s'"
    using Cons.prems(4) by (auto simp: i result_simps)
  have f: "wf_item (k, l, f)" using Cons.prems(2) by (simp add: i)
  have "reads (NL # item_text i @ ?ts) (entry_first f) (entry_rest l f @ ?ts)"
    using reads_item [OF f noise_blank_line] by (simp add: i)
  then obtain r' where r': "parse_entry (entry_first e) r s = Ok (Continued s1 (entry_first f) r')"
    "sees r' (entry_rest l f @ ?ts)"
    using parse_entry_text [OF _ _ _ wf_name_lex [OF wf_entry_first] s1(1)] Cons.prems(1,5) f by fastforce
  have "parse_loop (entry_first f) r' s1 = Ok ([], s')"
    by (rule Cons.IH [OF f _ Cons.prems(3) s1(2) r'(2)]) (use Cons.prems(2) in simp)
  then show ?case using r'(1) f by (subst parse_loop.simps) simp
qed

lemma parse_file_text:
  assumes "list_all wf_item (i # items)" "noise fin" "last (concat (map item_text (i # items)) @ fin) = NL"
    "apply_entries (map item_entry (i # items)) (new_server\<lparr>s_name := entry_first (item_entry i)\<rparr>) = Ok s'"
  shows "parse_res_file (concat (map item_text (i # items)) @ fin) = Ok ([], s')"
proof -
  obtain n m e where i: "i = (n, m, e)" by (cases i)
  have e: "wf_item (n, m, e)" using assms(1) by (simp add: i)
  let ?ts = "concat (map item_text items) @ fin"
  have ne: "entry_first e \<noteq> []" using e wf_entry_first [of e] by (auto simp: wf_name_def)
  then have "last (CHR '' '' # item_text i @ ?ts) = NL" using assms(3) by (simp add: i)
  then have "sees (open_file (item_text i @ ?ts)) (''  '' @ item_text i @ ?ts @ [NL, NUL])"
    using sees_open_file [of "item_text i @ ?ts"] by simp
  moreover have "reads (''  '' @ item_text i @ ?ts @ [NL, NUL]) (entry_first e) (entry_rest m e @ ?ts @ [NL, NUL])"
    using reads_item [OF e, of "''  ''"] noise.blank [of "''  ''"] by (simp add: i)
  ultimately obtain r where r: "read_word (open_file (item_text i @ ?ts)) = Ok (entry_first e, r)"
    "sees r (entry_rest m e @ ?ts @ [NL, NUL])"
    by (auto elim: reads_obtain)
  have "parse_loop (entry_first e) r (new_server\<lparr>s_name := entry_first e\<rparr>) = Ok ([], s')"
    by (rule parse_loop_text [OF e, of items "fin @ [NL]"])
      (use assms r(2) noise_append [OF assms(2) noise_blank_line] in \<open>auto simp: i\<close>)
  then show ?thesis using r(1) ne by (simp add: parse_res_file_def i)
qed

text \<open>
  A file as a sequence of entries and of pieces without entries.
\<close>

datatype piece = Noise string | Entry nat entry

fun piece_text :: "piece \<Rightarrow> string" where
  "piece_text (Noise n) = n"
| "piece_text (Entry m e) = entry_first e @ entry_rest m e"

fun piece_entries :: "piece list \<Rightarrow> entry list" where
  "piece_entries [] = []"
| "piece_entries (Noise n # ps) = piece_entries ps"
| "piece_entries (Entry m e # ps) = e # piece_entries ps"

fun wf_piece :: "piece \<Rightarrow> bool" where
  "wf_piece (Noise n) \<longleftrightarrow> noise n"
| "wf_piece (Entry m e) \<longleftrightarrow> wf_entry e \<and> entry_first e \<noteq> lexical_word_null"

abbreviation pieces_text :: "piece list \<Rightarrow> string" where
  "pieces_text ps \<equiv> concat (map piece_text ps)"

lemma piece_entries_append [simp]: "piece_entries (ps @ qs) = piece_entries ps @ piece_entries qs"
  by (induction ps rule: piece_entries.induct) simp_all

lemma piece_entries_map [simp]: "piece_entries (map (\<lambda>x. Entry (f x) (g x)) xs) = map g xs"
  by (induction xs) simp_all

lemma piece_entries_concat [simp]: "piece_entries (concat pss) = concat (map piece_entries pss)"
  by (induction pss) simp_all

lemma pieces_items:
  assumes "list_all wf_piece ps"
  shows "\<exists>items fin. list_all wf_item items \<and> noise fin \<and>
    pieces_text ps = concat (map item_text items) @ fin \<and> map item_entry items = piece_entries ps"
  using assms
proof (induction ps)
  case Nil
  have "noise []" by (rule noise.blank) simp
  then show ?case by (intro exI [of _ "[]"]) simp
next
  case (Cons p ps)
  then obtain items fin where IH: "list_all wf_item items" "noise fin"
    "pieces_text ps = concat (map item_text items) @ fin" "map item_entry items = piece_entries ps" by auto
  show ?case
  proof (cases p)
    case (Entry m e)
    have "noise []" by (rule noise.blank) simp
    then show ?thesis using IH Cons.prems Entry
      by (intro exI [of _ "([], m, e) # items"] exI [of _ fin]) simp
  next
    case (Noise n)
    then have n: "noise n" using Cons.prems by simp
    show ?thesis
    proof (cases items)
      case Nil
      then show ?thesis using IH Noise noise_append [OF n IH(2)]
        by (intro exI [of _ "[]"] exI [of _ "n @ fin"]) simp
    next
      case (Cons i js)
      then obtain k m e where "items = (k, m, e) # js" by (cases i) auto
      then show ?thesis using IH Noise noise_append [OF n, of k]
        by (intro exI [of _ "(n @ k, m, e) # js"] exI [of _ fin]) simp
    qed
  qed
qed

lemma parse_pieces:
  assumes "list_all wf_piece ps" "last (pieces_text ps) = NL" "piece_entries ps = e # es"
    "apply_entries (e # es) (new_server\<lparr>s_name := entry_first e\<rparr>) = Ok s"
  shows "parse_res_file (pieces_text ps) = Ok ([], s)"
proof -
  obtain items fin where items: "list_all wf_item items" "noise fin"
    "pieces_text ps = concat (map item_text items) @ fin" "map item_entry items = e # es"
    using pieces_items [OF assms(1)] assms(3) by metis
  then obtain i js where "items = i # js" "item_entry i = e" by (cases items) auto
  then show ?thesis using parse_file_text [of i js fin s] items assms by simp
qed


section \<open>Databases\<close>

definition dn_domain :: "string \<Rightarrow> string" where
  "dn_domain n = takeWhile (\<lambda>c. c \<noteq> CHR ''/'') n"

definition dn_rest :: "string \<Rightarrow> string" where
  "dn_rest n = drop 1 (dropWhile (\<lambda>c. c \<noteq> CHR ''/'') n)"

definition dn_family :: "string \<Rightarrow> string" where
  "dn_family n = dn_domain (dn_rest n)"

definition dn_member :: "string \<Rightarrow> string" where
  "dn_member n = dn_rest (dn_rest n)"

definition wf_dev_name :: "string \<Rightarrow> bool" where
  "wf_dev_name n \<longleftrightarrow> n = dn_domain n @ slashes [dn_family n, dn_member n] \<and>
    wf_name (dn_domain n) \<and> wf_name (dn_family n) \<and> wf_name (dn_member n) \<and> DQ \<notin> set n \<and>
    dn_domain n \<noteq> lexical_word_null \<and> \<not> equalsIgnoreCase (dn_domain n) ''class''"

definition no_case_dup :: "string list \<Rightarrow> bool" where
  "no_case_dup ns \<longleftrightarrow> distinct (map lower ns)"

definition wf_attr_props :: "t_attribute_property list \<Rightarrow> bool" where
  "wf_attr_props aps \<longleftrightarrow> no_case_dup (map ap_name aps) \<and>
    list_all (\<lambda>a. wf_name (ap_name a) \<and> ap_properties a \<noteq> [] \<and> list_all wf_prop (ap_properties a)) aps"

definition wf_class :: "t_tango_class \<Rightarrow> bool" where
  "wf_class c \<longleftrightarrow> wf_name (c_name c) \<and> c_devices c \<noteq> [] \<and> list_all wf_prop (c_properties c) \<and>
    wf_attr_props (c_attribute_properties c)"

definition wf_device :: "t_device \<Rightarrow> bool" where
  "wf_device d \<longleftrightarrow> wf_dev_name (d_name d) \<and> list_all wf_prop (d_properties d) \<and>
    wf_attr_props (d_attribute_properties d)"

definition wf_free_object :: "t_free_object \<Rightarrow> bool" where
  "wf_free_object f \<longleftrightarrow> wf_name (o_name f) \<and> o_properties f \<noteq> [] \<and> list_all wf_prop (o_properties f)"

definition wf_server :: "t_server \<Rightarrow> bool" where
  "wf_server s \<longleftrightarrow> wf_name (s_name s) \<and> s_name s \<noteq> lexical_word_null \<and> wf_name (s_instance_name s) \<and>
    s_classes s \<noteq> [] \<and> list_all wf_class (s_classes s) \<and> no_case_dup (map c_name (s_classes s)) \<and>
    s_devices s = [0..<length (s_heap s)] \<and> concat (map c_devices (s_classes s)) = s_devices s \<and>
    list_all wf_device (s_heap s) \<and> no_case_dup (map d_name (s_heap s)) \<and>
    list_all wf_free_object (s_free_objects s) \<and> no_case_dup (map o_name (s_free_objects s))"

text \<open>
  The pieces of the file that is written for a database.
\<close>

definition class_entry :: "t_server \<Rightarrow> t_tango_class \<Rightarrow> entry" where
  "class_entry s c = Class_def (s_name s) (s_instance_name s) ''DEVICE'' (c_name c) (dev_names s (c_devices c))"

definition class_def_piece :: "t_server \<Rightarrow> t_tango_class \<Rightarrow> piece" where
  "class_def_piece s c =
    Entry (length (s_name s @ ''/'' @ s_instance_name s @ ''/DEVICE/'' @ c_name c @ '': '')) (class_entry s c)"

definition attr_pieces :: "nat \<Rightarrow> (string \<Rightarrow> t_property \<Rightarrow> entry) \<Rightarrow> t_attribute_property list \<Rightarrow> piece list" where
  "attr_pieces k f aps = concat (map (\<lambda>a. map
    (\<lambda>p. Entry (k + 1 + length (ap_name a) + 2 + length (p_name p) + 2) (f (ap_name a) p)) (ap_properties a)) aps)"

definition class_pieces :: "t_tango_class \<Rightarrow> piece list" where
  "class_pieces c =
    [Noise ruler, Noise (''# CLASS '' @ c_name c @ [NL]), Noise [NL]] @
    map (\<lambda>p. Entry (6 + length (c_name c) + 2 + length (p_name p) + 2) (Prop2 ''CLASS'' (c_name c) p)) (c_properties c) @
    [Noise [NL], Noise (''# CLASS '' @ c_name c @ '' attribute properties'' @ [NL]), Noise [NL]] @
    attr_pieces (6 + length (c_name c)) (Prop3 ''CLASS'' (c_name c)) (c_attribute_properties c) @ [Noise [NL]]"

definition device_pieces :: "t_device \<Rightarrow> piece list" where
  "device_pieces d =
    (let n = d_name d; a = dn_domain n; b = dn_family n; c = dn_member n in
    [Noise (''# DEVICE '' @ n @ '' properties '' @ [NL]), Noise [NL]] @
    map (\<lambda>p. Entry (length n + 1 + length (p_name p) + 2) (Prop3 a b c p)) (d_properties d) @
    [Noise [NL], Noise (''# DEVICE '' @ n @ '' attribute properties'' @ [NL]), Noise [NL]] @
    attr_pieces (length n) (Prop4 a b c) (d_attribute_properties d))"

definition free_pieces :: "t_free_object \<Rightarrow> piece list" where
  "free_pieces f =
    map (\<lambda>p. Entry (5 + length (o_name f) + 2 + length (p_name p) + 2) (Prop2 ''FREE'' (o_name f) p)) (o_properties f)"

definition server_pieces :: "t_server \<Rightarrow> piece list" where
  "server_pieces s =
    map (class_def_piece s) (s_classes s) @ [Noise [NL]] @ concat (map class_pieces (s_classes s)) @ [Noise [NL]] @
    concat (map device_pieces (s_heap s)) @
    [Noise ruler, Noise (''# FREE OBJECT attributes'' @ [NL]), Noise [NL]] @ concat (map free_pieces (s_free_objects s))"

lemma prop_line_text: "prop_line head m = (\<lambda>p. head @ prop_text (m + length (p_name p) + 2) p)"
  by (simp add: prop_line_def prop_text_def fun_eq_iff)

lemma pieces_text_concat: "pieces_text (concat pss) = concat (map pieces_text pss)"
  by (induction pss) simp_all

lemma attr_pieces_text:
  assumes "\<And>a p m. piece_text (Entry m (f a p)) = head @ ''/'' @ a @ prop_text m p" "k = length head"
  shows "pieces_text (attr_pieces k f aps) = attr_prop_lines head aps"
  unfolding attr_pieces_def attr_prop_lines_def pieces_text_concat map_map comp_def assms(1)
  by (simp add: assms(2) prop_line_text)

lemma class_pieces_text:
  assumes "list_all wf_prop (c_properties c)"
  shows "write_class c = Ok (pieces_text (class_pieces c))"
proof -
  have "rmap (class_prop_line c) (c_properties c) = Ok (map (prop_line (''CLASS/'' @ c_name c) (6 + length (c_name c) + 2)) (c_properties c))"
    using assms not_empty_lex
    by (intro rmap_Ok) (auto simp: class_prop_line_def wf_prop_def wf_value_def list_all_iff neq_Nil_conv)
  moreover have "pieces_text (attr_pieces (6 + length (c_name c)) (Prop3 ''CLASS'' (c_name c)) (c_attribute_properties c)) =
      attr_prop_lines (''CLASS/'' @ c_name c) (c_attribute_properties c)"
    by (rule attr_pieces_text) (simp_all add: slashes_def)
  ultimately show ?thesis
    by (simp add: write_class_def class_pieces_def comp_def prop_line_text slashes_def)
qed

lemma device_pieces_text:
  assumes "wf_dev_name (d_name d)"
  shows "pieces_text (device_pieces d) = write_device d"
proof -
  have n: "dn_domain (d_name d) @ slashes [dn_family (d_name d), dn_member (d_name d)] = d_name d"
    using assms by (simp add: wf_dev_name_def)
  have 4: "piece_text (Entry m (Prop4 (dn_domain (d_name d)) (dn_family (d_name d)) (dn_member (d_name d)) a p)) =
      d_name d @ ''/'' @ a @ prop_text m p" for m a p
    using arg_cong [OF n, of "\<lambda>x. x @ ''/'' @ a @ prop_text m p"] by (simp add: slashes_def)
  have 3: "piece_text (Entry m (Prop3 (dn_domain (d_name d)) (dn_family (d_name d)) (dn_member (d_name d)) p)) =
      d_name d @ prop_text m p" for m p
    using arg_cong [OF n, of "\<lambda>x. x @ prop_text m p"] by simp
  show ?thesis
    using attr_pieces_text [OF 4 refl, of "d_attribute_properties d"]
    by (simp add: write_device_def device_pieces_def Let_def comp_def 3 prop_line_text del: piece_text.simps(2))
qed

lemma free_pieces_text: "pieces_text (free_pieces f) = write_free_object f"
  by (simp add: write_free_object_def free_pieces_def comp_def prop_line_text slashes_def)

lemma server_pieces_text:
  assumes "wf_server s"
  shows "write_file s = Ok (pieces_text (server_pieces s))"
proof -
  have wf: "list_all wf_class (s_classes s)" "list_all wf_device (s_heap s)" "s_devices s = [0..<length (s_heap s)]"
    using assms by (simp_all add: wf_server_def)
  have "rmap (write_class_line s) (s_classes s) = Ok (map (piece_text \<circ> class_def_piece s) (s_classes s))"
    using wf(1) by (intro rmap_Ok)
      (auto simp: write_class_line_def class_def_piece_def class_entry_def wf_class_def list_all_iff slashes_def)
  moreover have "rmap write_class (s_classes s) = Ok (map (pieces_text \<circ> class_pieces) (s_classes s))"
    using wf(1) class_pieces_text by (intro rmap_Ok) (auto simp: wf_class_def list_all_iff)
  moreover have "map (\<lambda>i. write_device (s_heap s ! i)) (s_devices s) = map (pieces_text \<circ> device_pieces) (s_heap s)"
    using wf(2,3) device_pieces_text by (auto simp: wf_device_def list_all_length intro!: nth_equalityI)
  ultimately show ?thesis
    by (simp add: write_file_def server_pieces_def pieces_text_concat comp_def free_pieces_text)
qed

lemma wf_name_chars:
  assumes "wf_name w"
  shows "NL \<notin> set w \<and> NUL \<notin> set w \<and> BSL \<notin> set w"
proof -
  have "\<not> name_char NL" "\<not> name_char NUL" "\<not> name_char BSL" by (simp_all add: name_char_def special_char_def)
  moreover have "\<forall>c \<in> set w. name_char c" using assms by (simp add: wf_name_def list_all_iff)
  ultimately show ?thesis by blast
qed

lemma wf_dev_name_chars:
  assumes "wf_dev_name n"
  shows "NL \<notin> set n" "NUL \<notin> set n" "BSL \<notin> set n" "DQ \<notin> set n" "class_lex n = TG_STRING"
proof -
  obtain a b c where n: "n = a @ slashes [b, c]" and wf: "wf_name a" "wf_name b" "wf_name c"
    using assms unfolding wf_dev_name_def by blast
  show "NL \<notin> set n" "NUL \<notin> set n" "BSL \<notin> set n"
    using wf_name_chars [OF wf(1)] wf_name_chars [OF wf(2)] wf_name_chars [OF wf(3)]
    by (simp_all add: n slashes_def)
  have "a \<noteq> []" using wf(1) by (auto simp: wf_name_def)
  then show "class_lex n = TG_STRING" by (auto simp: class_lex_def n slashes_def Cons_eq_append_conv append_eq_Cons_conv)
qed (use assms in \<open>simp add: wf_dev_name_def\<close>)

text \<open>
  Every piece is well formed and ends a line.
\<close>

definition line_piece :: "piece \<Rightarrow> bool" where
  "line_piece p \<longleftrightarrow> wf_piece p \<and> (\<exists>t. piece_text p = t @ [NL])"

lemma line_piece_Entry: "line_piece (Entry m e) \<longleftrightarrow> wf_entry e \<and> entry_first e \<noteq> lexical_word_null"
  by (cases e) (auto simp: line_piece_def prop_text_def)

lemma line_piece_blank: "line_piece (Noise [NL])"
  using noise_blank_line by (auto simp: line_piece_def)

lemma line_piece_comment: "NL \<notin> set b \<Longrightarrow> NUL \<notin> set b \<Longrightarrow> line_piece (Noise (CHR ''#'' # b @ [NL]))"
  using noise_comment_line by (auto simp: line_piece_def)

lemma line_piece_ruler: "line_piece (Noise ruler)"
  using line_piece_comment [of "replicate 44 (CHR ''#'')"] by (simp add: ruler_def numeral_eq_Suc)

lemma line_pieces_last: "list_all line_piece ps \<Longrightarrow> ps \<noteq> [] \<Longrightarrow> last (pieces_text ps) = NL"
proof (induction ps)
  case (Cons p ps)
  then show ?case by (cases ps) (auto simp: line_piece_def)
qed simp

lemma line_attr_pieces:
  assumes "wf_attr_props aps" "\<And>a p. wf_name a \<Longrightarrow> wf_prop p \<Longrightarrow> wf_entry (f a p) \<and> entry_first (f a p) \<noteq> lexical_word_null"
  shows "list_all line_piece (attr_pieces k f aps)"
  using assms by (auto simp: attr_pieces_def list_all_iff line_piece_Entry wf_attr_props_def)

lemma keyword_names: "wf_name ''CLASS''" "wf_name ''FREE''" "wf_name ''DEVICE''"
  "''CLASS'' \<noteq> lexical_word_null" "''FREE'' \<noteq> lexical_word_null"
  by (simp_all add: wf_name_def name_char_def is_graph_def schar_def special_char_def lexical_word_null_def)

lemma keyword_cases:
  "equalsIgnoreCase ''CLASS'' ''class''" "equalsIgnoreCase ''FREE'' ''free''" "\<not> equalsIgnoreCase ''FREE'' ''class''"
  by code_simp+

lemma line_class_pieces:
  assumes "wf_class c"
  shows "list_all line_piece (class_pieces c)"
proof -
  have c: "wf_name (c_name c)" "list_all wf_prop (c_properties c)" "wf_attr_props (c_attribute_properties c)"
    using assms by (simp_all add: wf_class_def)
  have "list_all line_piece (attr_pieces (6 + length (c_name c)) (Prop3 ''CLASS'' (c_name c)) (c_attribute_properties c))"
    by (rule line_attr_pieces [OF c(3)]) (simp add: c(1) keyword_names)
  moreover have "line_piece (Noise (''# CLASS '' @ c_name c @ [NL]))"
    "line_piece (Noise (''# CLASS '' @ c_name c @ '' attribute properties'' @ [NL]))"
    using line_piece_comment [of "'' CLASS '' @ c_name c"] wf_name_chars [OF c(1)]
      line_piece_comment [of "'' CLASS '' @ c_name c @ '' attribute properties''"] by simp_all
  ultimately show ?thesis using c line_piece_ruler line_piece_blank
    by (auto simp: class_pieces_def list_all_iff line_piece_Entry keyword_names keyword_cases)
qed

lemma line_device_pieces:
  assumes "wf_device d"
  shows "list_all line_piece (device_pieces d)"
proof -
  have d: "wf_dev_name (d_name d)" "list_all wf_prop (d_properties d)" "wf_attr_props (d_attribute_properties d)"
    using assms by (simp_all add: wf_device_def)
  let ?e = "Prop4 (dn_domain (d_name d)) (dn_family (d_name d)) (dn_member (d_name d))"
  have "list_all line_piece (attr_pieces (length (d_name d)) ?e (d_attribute_properties d))"
    by (rule line_attr_pieces [OF d(3)]) (use d(1) in \<open>simp add: wf_dev_name_def\<close>)
  moreover have "line_piece (Noise (''# DEVICE '' @ d_name d @ '' properties '' @ [NL]))"
    "line_piece (Noise (''# DEVICE '' @ d_name d @ '' attribute properties'' @ [NL]))"
    using line_piece_comment [of "'' DEVICE '' @ d_name d @ '' properties ''"] wf_dev_name_chars [OF d(1)]
      line_piece_comment [of "'' DEVICE '' @ d_name d @ '' attribute properties''"] by simp_all
  ultimately show ?thesis using d line_piece_blank
    by (auto simp: device_pieces_def Let_def list_all_iff line_piece_Entry wf_dev_name_def)
qed

lemma line_server_pieces:
  assumes "wf_server s"
  shows "list_all line_piece (server_pieces s)"
proof -
  have dev: "value_text quote_name (d_name (s_heap s ! i))" if "c \<in> set (s_classes s)" "i \<in> set (c_devices c)" for c i
  proof -
    have "concat (map c_devices (s_classes s)) = [0..<length (s_heap s)]" using assms by (simp add: wf_server_def)
    moreover have "i \<in> set (concat (map c_devices (s_classes s)))" using that by auto
    ultimately have "i < length (s_heap s)" by (simp only: atLeastLessThan_upt [symmetric] atLeastLessThan_iff)
    then have "wf_dev_name (d_name (s_heap s ! i))"
      using assms by (simp add: wf_server_def list_all_length wf_device_def)
    then show ?thesis using wf_dev_name_chars by (intro value_text_name) auto
  qed
  have "list_all line_piece (map (class_def_piece s) (s_classes s))"
    using assms dev
    by (auto simp: list_all_iff class_def_piece_def class_entry_def line_piece_Entry wf_server_def wf_class_def
        keyword_names dev_names_def)
  moreover have "list_all line_piece (concat (map class_pieces (s_classes s)))"
    "list_all line_piece (concat (map device_pieces (s_heap s)))"
    using assms line_class_pieces line_device_pieces by (auto simp: wf_server_def list_all_iff)
  moreover have "list_all line_piece (concat (map free_pieces (s_free_objects s)))"
    using assms by (auto simp: wf_server_def wf_free_object_def list_all_iff free_pieces_def line_piece_Entry keyword_names keyword_cases)
  moreover have "line_piece (Noise (''# FREE OBJECT attributes'' @ [NL]))"
    using line_piece_comment [of "'' FREE OBJECT attributes''"] by simp
  ultimately show ?thesis using line_piece_blank line_piece_ruler by (simp add: server_pieces_def)
qed

section \<open>Rebuilding the database\<close>

lemma position_of_append: "list_all (\<lambda>x. \<not> p x) xs \<Longrightarrow> p x \<Longrightarrow> position_of p (xs @ x # ys) = Some (length xs)"
  by (induction xs) simp_all

lemma position_of_None: "list_all (\<lambda>x. \<not> p x) xs \<Longrightarrow> position_of p xs = None"
  by (induction xs) simp_all

lemma update_nth_append [simp]: "update_nth (length xs) f (xs @ x # ys) = xs @ f x # ys"
  by (simp add: update_nth_def)

lemma equalsIgnoreCase_refl: "n \<noteq> [] \<Longrightarrow> equalsIgnoreCase n n"
  by (simp add: equalsIgnoreCase_iff)

definition fresh :: "string \<Rightarrow> string list \<Rightarrow> bool" where
  "fresh n ns \<longleftrightarrow> lower n \<notin> set (map lower ns)"

lemma fresh_no_match: "fresh n (map f xs) \<Longrightarrow> list_all (\<lambda>x. \<not> equalsIgnoreCase (f x) n) xs"
  unfolding fresh_def list_all_iff equalsIgnoreCase_iff by (metis image_eqI image_image list.set_map)

text \<open>
  The properties of an attribute follow each other in the file.
\<close>

lemma add_attr_prop_new:
  "fresh n (map ap_name aps) \<Longrightarrow> add_attr_prop n p aps = aps @ [\<lparr>ap_name = n, ap_properties = [p]\<rparr>]"
  by (simp add: add_attr_prop_def search_attr_prop_def position_of_None fresh_no_match)

lemma add_attr_prop_known:
  "fresh n (map ap_name aps) \<Longrightarrow> n \<noteq> [] \<Longrightarrow>
    add_attr_prop n p (aps @ [\<lparr>ap_name = n, ap_properties = ps\<rparr>]) = aps @ [\<lparr>ap_name = n, ap_properties = ps @ [p]\<rparr>]"
  by (simp add: add_attr_prop_def search_attr_prop_def position_of_append fresh_no_match equalsIgnoreCase_refl)

lemma add_attr_group:
  assumes "fresh n (map ap_name aps)" "n \<noteq> []" "ps \<noteq> []"
  shows "fold (add_attr_prop n) ps aps = aps @ [\<lparr>ap_name = n, ap_properties = ps\<rparr>]"
proof -
  obtain q qs where ps: "ps = q # qs" using assms(3) by (cases ps) auto
  have "fold (add_attr_prop n) qs (aps @ [\<lparr>ap_name = n, ap_properties = rs\<rparr>]) = aps @ [\<lparr>ap_name = n, ap_properties = rs @ qs\<rparr>]" for rs
    by (induction qs arbitrary: rs) (simp_all add: add_attr_prop_known assms)
  then show ?thesis by (simp add: ps add_attr_prop_new assms)
qed

lemma add_attr_groups:
  assumes "wf_attr_props (aps @ gs)"
  shows "fold (\<lambda>a. fold (add_attr_prop (ap_name a)) (ap_properties a)) gs aps = aps @ gs"
  using assms
proof (induction gs arbitrary: aps)
  case (Cons g gs)
  have g: "fresh (ap_name g) (map ap_name aps)" "ap_name g \<noteq> []" "ap_properties g \<noteq> []"
    using Cons.prems by (auto simp: wf_attr_props_def no_case_dup_def fresh_def wf_name_def)
  have "\<lparr>ap_name = ap_name g, ap_properties = ap_properties g\<rparr> = g" by (cases g) simp
  then have "fold (add_attr_prop (ap_name g)) (ap_properties g) aps = aps @ [g]"
    using add_attr_group [OF g] by simp
  then show ?case using Cons.IH [of "aps @ [g]"] Cons.prems by simp
qed simp

text \<open>
  The sections of the file for the classes and for the devices have the same structure:
  objects that exist already, each found by its name, get their properties and then those
  of their attributes.
\<close>

locale object_section =
  fixes put :: "'c list \<Rightarrow> t_server \<Rightarrow> t_server"
    and valid :: "nat \<Rightarrow> t_server \<Rightarrow> bool"
    and key :: "'c \<Rightarrow> string"
    and ok_key :: "string \<Rightarrow> bool"
    and prop_entry :: "string \<Rightarrow> t_property \<Rightarrow> entry"
    and attr_entry :: "string \<Rightarrow> string \<Rightarrow> t_property \<Rightarrow> entry"
    and add_prop :: "t_property \<Rightarrow> 'c \<Rightarrow> 'c"
    and add_attr :: "string \<Rightarrow> t_property \<Rightarrow> 'c \<Rightarrow> 'c"
  assumes apply_prop: "\<lbrakk>valid (length xs + 1 + length ys) t; fresh (key c) (map key xs); ok_key (key c)\<rbrakk> \<Longrightarrow>
      apply_entry (prop_entry (key c) p) (put (xs @ c # ys) t) = Ok (put (xs @ add_prop p c # ys) t)"
    and apply_attr: "\<lbrakk>valid (length xs + 1 + length ys) t; fresh (key c) (map key xs); ok_key (key c)\<rbrakk> \<Longrightarrow>
      apply_entry (attr_entry (key c) a p) (put (xs @ c # ys) t) = Ok (put (xs @ add_attr a p c # ys) t)"
    and key_add [simp]: "key (add_prop p c) = key c" "key (add_attr a p c) = key c"
begin

lemma apply_props:
  assumes "valid (length xs + 1 + length ys) t" "fresh (key c) (map key xs)" "ok_key (key c)"
  shows "apply_entries (map (prop_entry (key c)) ps) (put (xs @ c # ys) t) = Ok (put (xs @ fold add_prop ps c # ys) t)"
  using assms
proof (induction ps arbitrary: c)
  case (Cons p ps)
  then show ?case using Cons.IH [of "add_prop p c"] by (simp add: apply_prop)
qed simp

lemma apply_attr_group:
  assumes "valid (length xs + 1 + length ys) t" "fresh (key c) (map key xs)" "ok_key (key c)"
  shows "apply_entries (map (attr_entry (key c) a) ps) (put (xs @ c # ys) t) = Ok (put (xs @ fold (add_attr a) ps c # ys) t)"
  using assms
proof (induction ps arbitrary: c)
  case (Cons p ps)
  then show ?case using Cons.IH [of "add_attr a p c"] by (simp add: apply_attr)
qed simp

lemma key_fold [simp]: "key (fold add_prop ps c) = key c" "key (fold (add_attr a) ps c) = key c"
  by (induction ps arbitrary: c) simp_all

lemma apply_attrs:
  assumes "valid (length xs + 1 + length ys) t" "fresh (key c) (map key xs)" "ok_key (key c)"
  shows "apply_entries (concat (map (\<lambda>a. map (attr_entry (key c) (ap_name a)) (ap_properties a)) as)) (put (xs @ c # ys) t) =
    Ok (put (xs @ fold (\<lambda>a. fold (add_attr (ap_name a)) (ap_properties a)) as c # ys) t)"
  using assms
proof (induction as arbitrary: c)
  case (Cons a as)
  then show ?case using Cons.IH [of "fold (add_attr (ap_name a)) (ap_properties a) c"]
    by (simp add: apply_entries_append apply_attr_group)
qed simp

lemma apply_section:
  assumes "valid (length xs + length cs) t" "no_case_dup (map key (xs @ cs))" "list_all (ok_key \<circ> key) cs"
    and "\<And>c. c \<in> set cs \<Longrightarrow> key (bare c) = key c \<and>
      fold (\<lambda>a. fold (add_attr (ap_name a)) (ap_properties a)) (aprops c) (fold add_prop (props c) (bare c)) = c"
  shows "apply_entries (concat (map (\<lambda>c. map (prop_entry (key c)) (props c) @
      concat (map (\<lambda>a. map (attr_entry (key c) (ap_name a)) (ap_properties a)) (aprops c))) cs)) (put (xs @ map bare cs) t) =
    Ok (put (xs @ cs) t)"
  using assms
proof (induction cs arbitrary: xs)
  case (Cons c cs)
  let ?ys = "map bare cs"
  have c: "key (bare c) = key c"
    "fold (\<lambda>a. fold (add_attr (ap_name a)) (ap_properties a)) (aprops c) (fold add_prop (props c) (bare c)) = c"
    using Cons.prems(4) by simp_all
  have f: "valid (length xs + 1 + length ?ys) t" "fresh (key c) (map key xs)" "ok_key (key c)"
    using Cons.prems by (auto simp: no_case_dup_def fresh_def)
  have "apply_entries (map (prop_entry (key c)) (props c)) (put (xs @ bare c # ?ys) t) =
      Ok (put (xs @ fold add_prop (props c) (bare c) # ?ys) t)"
    using apply_props [OF f(1), of "bare c" "props c"] f c(1) by simp
  moreover have "apply_entries (concat (map (\<lambda>a. map (attr_entry (key c) (ap_name a)) (ap_properties a)) (aprops c)))
      (put (xs @ fold add_prop (props c) (bare c) # ?ys) t) = Ok (put (xs @ c # ?ys) t)"
    using apply_attrs [OF f(1), of "fold add_prop (props c) (bare c)" "aprops c"] f c by simp
  ultimately show ?case using Cons.IH [of "xs @ [c]"] Cons.prems by (simp add: apply_entries_append)
qed simp

end

definition class_add_prop :: "t_property \<Rightarrow> t_tango_class \<Rightarrow> t_tango_class" where
  "class_add_prop p c = c\<lparr>c_properties := c_properties c @ [p]\<rparr>"

definition class_add_attr :: "string \<Rightarrow> t_property \<Rightarrow> t_tango_class \<Rightarrow> t_tango_class" where
  "class_add_attr a p c = c\<lparr>c_attribute_properties := add_attr_prop a p (c_attribute_properties c)\<rparr>"

definition device_add_prop :: "t_property \<Rightarrow> t_device \<Rightarrow> t_device" where
  "device_add_prop p d = d\<lparr>d_properties := d_properties d @ [p]\<rparr>"

definition device_add_attr :: "string \<Rightarrow> t_property \<Rightarrow> t_device \<Rightarrow> t_device" where
  "device_add_attr a p d = d\<lparr>d_attribute_properties := add_attr_prop a p (d_attribute_properties d)\<rparr>"

interpretation class_section: object_section "\<lambda>cs t. t\<lparr>s_classes := cs\<rparr>" "\<lambda>_ _. True" c_name "\<lambda>n. n \<noteq> []"
  "Prop2 ''CLASS''" "Prop3 ''CLASS''" class_add_prop class_add_attr
proof
  fix xs ys :: "t_tango_class list" and t :: t_server and c :: t_tango_class
  assume "fresh (c_name c) (map c_name xs)" "c_name c \<noteq> []"
  then have *: "search_class (t\<lparr>s_classes := xs @ c # ys\<rparr>) (c_name c) = Some (length xs)"
    by (simp add: search_class_def position_of_append fresh_no_match equalsIgnoreCase_refl)
  show "apply_entry (Prop2 ''CLASS'' (c_name c) p) (t\<lparr>s_classes := xs @ c # ys\<rparr>) =
      Ok (t\<lparr>s_classes := xs @ class_add_prop p c # ys\<rparr>)" for p
    by (simp add: keyword_cases define_class_prop_def * upd_class_def class_add_prop_def)
  show "apply_entry (Prop3 ''CLASS'' (c_name c) a p) (t\<lparr>s_classes := xs @ c # ys\<rparr>) =
      Ok (t\<lparr>s_classes := xs @ class_add_attr a p c # ys\<rparr>)" for a p
    by (simp add: keyword_cases define_class_attr_prop_def * upd_class_def class_add_attr_def)
qed (simp_all add: class_add_prop_def class_add_attr_def)

lemma find_nth: "find (\<lambda>i. p (hs ! i)) [0..<length hs] = position_of p hs"
proof (induction hs)
  case (Cons h hs)
  have *: "find q (map f xs) = map_option f (find (q \<circ> f) xs)" for q and f :: "nat \<Rightarrow> nat" and xs
    by (induction xs) simp_all
  have "[0..<length (h # hs)] = 0 # map Suc [0..<length hs]"
    using upt_conv_Cons [of 0 "Suc (length hs)"] by (simp add: map_Suc_upt)
  then show ?case using Cons by (simp add: * comp_def)
qed simp

abbreviation dev_prop3 :: "string \<Rightarrow> t_property \<Rightarrow> entry" where
  "dev_prop3 n \<equiv> Prop3 (dn_domain n) (dn_family n) (dn_member n)"

abbreviation dev_prop4 :: "string \<Rightarrow> string \<Rightarrow> t_property \<Rightarrow> entry" where
  "dev_prop4 n \<equiv> Prop4 (dn_domain n) (dn_family n) (dn_member n)"

interpretation device_section: object_section "\<lambda>hs t. t\<lparr>s_heap := hs\<rparr>" "\<lambda>n t. s_devices t = [0..<n]" d_name wf_dev_name
  dev_prop3 dev_prop4 device_add_prop device_add_attr
proof
  fix xs ys :: "t_device list" and t :: t_server and d :: t_device
  assume v: "s_devices t = [0..<length xs + 1 + length ys]"
    and f: "fresh (d_name d) (map d_name xs)" and wf: "wf_dev_name (d_name d)"
  have n: "dn_domain (d_name d) @ slashes [dn_family (d_name d), dn_member (d_name d)] = d_name d"
    using wf by (simp add: wf_dev_name_def)
  have "d_name d \<noteq> []" using wf_dev_name_chars(5) [OF wf] not_empty_lex by blast
  then have *: "search_device (t\<lparr>s_heap := xs @ d # ys\<rparr>) (d_name d) = Some (length xs)"
    using find_nth [of "\<lambda>e. equalsIgnoreCase (d_name e) (d_name d)" "xs @ d # ys"] v f
    by (simp add: search_device_def position_of_append fresh_no_match equalsIgnoreCase_refl)
  have "\<not> equalsIgnoreCase (dn_domain (d_name d)) ''class''" using wf by (simp add: wf_dev_name_def)
  then show "apply_entry (dev_prop3 (d_name d) p) (t\<lparr>s_heap := xs @ d # ys\<rparr>) =
      Ok (t\<lparr>s_heap := xs @ device_add_prop p d # ys\<rparr>)" for p
    by (simp add: n define_dev_prop_def * upd_device_def device_add_prop_def)
  show "apply_entry (dev_prop4 (d_name d) a p) (t\<lparr>s_heap := xs @ d # ys\<rparr>) =
      Ok (t\<lparr>s_heap := xs @ device_add_attr a p d # ys\<rparr>)" for a p
    by (simp add: n define_dev_attr_prop_def * upd_device_def device_add_attr_def)
qed (simp_all add: device_add_prop_def device_add_attr_def)

definition bare_class :: "t_tango_class \<Rightarrow> t_tango_class" where
  "bare_class c = (new_class (c_name c))\<lparr>c_devices := c_devices c\<rparr>"

definition bare_device :: "t_device \<Rightarrow> t_device" where
  "bare_device d = new_device (d_name d)"

lemma fold_class_props: "fold class_add_prop ps c = c\<lparr>c_properties := c_properties c @ ps\<rparr>"
  by (induction ps arbitrary: c) (simp_all add: class_add_prop_def)

lemma fold_class_attr:
  "fold (class_add_attr a) ps c = c\<lparr>c_attribute_properties := fold (add_attr_prop a) ps (c_attribute_properties c)\<rparr>"
  by (induction ps arbitrary: c) (simp_all add: class_add_attr_def)

lemma fold_class_attrs:
  "fold (\<lambda>a. fold (class_add_attr (ap_name a)) (ap_properties a)) as c =
    c\<lparr>c_attribute_properties := fold (\<lambda>a. fold (add_attr_prop (ap_name a)) (ap_properties a)) as (c_attribute_properties c)\<rparr>"
  by (induction as arbitrary: c) (simp_all add: fold_class_attr)

lemma rebuild_class:
  assumes "wf_attr_props (c_attribute_properties c)"
  shows "fold (\<lambda>a. fold (class_add_attr (ap_name a)) (ap_properties a)) (c_attribute_properties c)
    (fold class_add_prop (c_properties c) (bare_class c)) = c"
  using add_attr_groups [of "[]" "c_attribute_properties c"] assms
  by (simp add: fold_class_props fold_class_attrs bare_class_def new_class_def)

lemma fold_device_props: "fold device_add_prop ps d = d\<lparr>d_properties := d_properties d @ ps\<rparr>"
  by (induction ps arbitrary: d) (simp_all add: device_add_prop_def)

lemma fold_device_attr:
  "fold (device_add_attr a) ps d = d\<lparr>d_attribute_properties := fold (add_attr_prop a) ps (d_attribute_properties d)\<rparr>"
  by (induction ps arbitrary: d) (simp_all add: device_add_attr_def)

lemma fold_device_attrs:
  "fold (\<lambda>a. fold (device_add_attr (ap_name a)) (ap_properties a)) as d =
    d\<lparr>d_attribute_properties := fold (\<lambda>a. fold (add_attr_prop (ap_name a)) (ap_properties a)) as (d_attribute_properties d)\<rparr>"
  by (induction as arbitrary: d) (simp_all add: fold_device_attr)

lemma rebuild_device:
  assumes "wf_attr_props (d_attribute_properties d)"
  shows "fold (\<lambda>a. fold (device_add_attr (ap_name a)) (ap_properties a)) (d_attribute_properties d)
    (fold device_add_prop (d_properties d) (bare_device d)) = d"
  using add_attr_groups [of "[]" "d_attribute_properties d"] assms
  by (simp add: fold_device_props fold_device_attrs bare_device_def new_device_def)

text \<open>
  The definitions of the classes create the devices in the order of the store.
\<close>

lemma upt_split:
  assumes "xs @ ys = [k..<m]"
  shows "xs = [k..<k + length xs]" "ys = [k + length xs..<m]"
proof -
  have "length xs \<le> m - k" using arg_cong [OF assms, of length] by simp
  then have "xs = [] \<or> k + length xs \<le> m" by (cases xs) auto
  then show "xs = [k..<k + length xs]"
    using arg_cong [OF assms, of "take (length xs)"] by (auto simp: take_upt)
  show "ys = [k + length xs..<m]" using arg_cong [OF assms, of "drop (length xs)"] by simp
qed

lemma apply_class_entry:
  assumes "c_devices c = [length (s_heap t)..<length (s_heap t) + length (c_devices c)]"
  shows "apply_entry (class_entry s c) t = Ok (t\<lparr>s_instance_name := s_instance_name s,
    s_classes := s_classes t @ [bare_class c], s_devices := s_devices t @ c_devices c,
    s_heap := s_heap t @ map new_device (dev_names s (c_devices c))\<rparr>)"
proof -
  have "equalsIgnoreCase ''DEVICE'' ''device''" by code_simp
  then show ?thesis
    using assms by (simp add: class_entry_def define_class_def Let_def bare_class_def dev_names_def)
qed

lemma apply_class_entries:
  assumes "concat (map c_devices cs) = [length (s_heap t)..<m]" "s_instance_name t = s_instance_name s"
  shows "apply_entries (map (class_entry s) cs) t = Ok (t\<lparr>
    s_classes := s_classes t @ map bare_class cs, s_devices := s_devices t @ concat (map c_devices cs),
    s_heap := s_heap t @ map new_device (dev_names s (concat (map c_devices cs)))\<rparr>)"
  using assms
proof (induction cs arbitrary: t)
  case (Cons c cs)
  have c: "c_devices c = [length (s_heap t)..<length (s_heap t) + length (c_devices c)]"
    and cs: "concat (map c_devices cs) = [length (s_heap t) + length (c_devices c)..<m]"
    using upt_split [of "c_devices c" "concat (map c_devices cs)"] Cons.prems(1) by simp_all
  let ?t = "t\<lparr>s_classes := s_classes t @ [bare_class c], s_devices := s_devices t @ c_devices c,
    s_heap := s_heap t @ map new_device (dev_names s (c_devices c))\<rparr>"
  have "apply_entry (class_entry s c) t = Ok ?t"
    using apply_class_entry [OF c] Cons.prems(2) by simp
  then show ?case using Cons.IH [of ?t] cs Cons.prems(2) by (simp add: dev_names_def)
qed (simp add: dev_names_def)

lemma apply_first_class_entries:
  assumes "concat (map c_devices cs) = [length (s_heap t)..<m]" "cs \<noteq> []"
  shows "apply_entries (map (class_entry s) cs) t =
    apply_entries (map (class_entry s) cs) (t\<lparr>s_instance_name := s_instance_name s\<rparr>)"
  using assms(2) by (cases cs) (simp_all add: class_entry_def define_class_def Let_def)

text \<open>
  Free objects are created by their first property.
\<close>

lemma define_free_prop_new:
  "fresh n (map o_name fs) \<Longrightarrow>
    define_free_prop n p (t\<lparr>s_free_objects := fs\<rparr>) = t\<lparr>s_free_objects := fs @ [\<lparr>o_name = n, o_properties = [p]\<rparr>]\<rparr>"
  by (simp add: define_free_prop_def search_free_object_def position_of_None fresh_no_match)

lemma define_free_prop_known:
  "fresh n (map o_name fs) \<Longrightarrow> n \<noteq> [] \<Longrightarrow>
    define_free_prop n p (t\<lparr>s_free_objects := fs @ [\<lparr>o_name = n, o_properties = ps\<rparr>]\<rparr>) =
    t\<lparr>s_free_objects := fs @ [\<lparr>o_name = n, o_properties = ps @ [p]\<rparr>]\<rparr>"
  by (simp add: define_free_prop_def search_free_object_def position_of_append fresh_no_match equalsIgnoreCase_refl
      upd_free_object_def)

lemma apply_free_object:
  assumes "fresh (o_name f) (map o_name fs)" "o_name f \<noteq> []" "o_properties f \<noteq> []"
  shows "apply_entries (map (Prop2 ''FREE'' (o_name f)) (o_properties f)) (t\<lparr>s_free_objects := fs\<rparr>) =
    Ok (t\<lparr>s_free_objects := fs @ [f]\<rparr>)"
proof -
  obtain q qs where ps: "o_properties f = q # qs" using assms(3) by (cases "o_properties f") auto
  have "apply_entries (map (Prop2 ''FREE'' (o_name f)) qs)
      (t\<lparr>s_free_objects := fs @ [\<lparr>o_name = o_name f, o_properties = rs\<rparr>]\<rparr>) =
    Ok (t\<lparr>s_free_objects := fs @ [\<lparr>o_name = o_name f, o_properties = rs @ qs\<rparr>]\<rparr>)" for rs
    by (induction qs arbitrary: rs) (simp_all add: keyword_cases define_free_prop_known assms)
  then have "apply_entries (map (Prop2 ''FREE'' (o_name f)) (o_properties f)) (t\<lparr>s_free_objects := fs\<rparr>) =
      Ok (t\<lparr>s_free_objects := fs @ [\<lparr>o_name = o_name f, o_properties = o_properties f\<rparr>]\<rparr>)"
    by (simp add: ps keyword_cases define_free_prop_new assms)
  then show ?thesis by (cases f) simp
qed

lemma apply_free_objects:
  assumes "no_case_dup (map o_name (fs @ gs))" "list_all wf_free_object gs"
  shows "apply_entries (concat (map (\<lambda>f. map (Prop2 ''FREE'' (o_name f)) (o_properties f)) gs)) (t\<lparr>s_free_objects := fs\<rparr>) =
    Ok (t\<lparr>s_free_objects := fs @ gs\<rparr>)"
  using assms
proof (induction gs arbitrary: fs)
  case (Cons g gs)
  have "fresh (o_name g) (map o_name fs)" "o_name g \<noteq> []" "o_properties g \<noteq> []"
    using Cons.prems by (auto simp: no_case_dup_def fresh_def wf_free_object_def wf_name_def)
  then show ?case using Cons.IH [of "fs @ [g]"] Cons.prems by (simp add: apply_entries_append apply_free_object)
qed simp

definition class_entries :: "t_tango_class \<Rightarrow> entry list" where
  "class_entries c = map (Prop2 ''CLASS'' (c_name c)) (c_properties c) @
    concat (map (\<lambda>a. map (Prop3 ''CLASS'' (c_name c) (ap_name a)) (ap_properties a)) (c_attribute_properties c))"

definition device_entries :: "t_device \<Rightarrow> entry list" where
  "device_entries d = map (dev_prop3 (d_name d)) (d_properties d) @
    concat (map (\<lambda>a. map (dev_prop4 (d_name d) (ap_name a)) (ap_properties a)) (d_attribute_properties d))"

definition free_entries :: "t_free_object \<Rightarrow> entry list" where
  "free_entries f = map (Prop2 ''FREE'' (o_name f)) (o_properties f)"

lemma server_piece_entries:
  "piece_entries (server_pieces s) = map (class_entry s) (s_classes s) @ concat (map class_entries (s_classes s)) @
    concat (map device_entries (s_heap s)) @ concat (map free_entries (s_free_objects s))"
  by (simp add: server_pieces_def class_def_piece_def [abs_def] class_pieces_def device_pieces_def free_pieces_def
      attr_pieces_def class_entries_def [abs_def] device_entries_def [abs_def] free_entries_def [abs_def] Let_def comp_def)

lemma apply_server_entries:
  assumes "wf_server s"
  shows "apply_entries (piece_entries (server_pieces s)) (new_server\<lparr>s_name := s_name s\<rparr>) = Ok s"
proof -
  let ?n = "length (s_heap s)"
  let ?t = "new_server\<lparr>s_name := s_name s, s_instance_name := s_instance_name s, s_devices := [0..<?n]\<rparr>"
  have wf: "s_classes s \<noteq> []" "list_all wf_class (s_classes s)" "no_case_dup (map c_name (s_classes s))"
    "s_devices s = [0..<?n]" "concat (map c_devices (s_classes s)) = [0..<?n]"
    "list_all wf_device (s_heap s)" "no_case_dup (map d_name (s_heap s))"
    "list_all wf_free_object (s_free_objects s)" "no_case_dup (map o_name (s_free_objects s))"
    using assms by (simp_all add: wf_server_def)
  have names: "map new_device (dev_names s [0..<?n]) = map bare_device (s_heap s)"
    by (auto simp: dev_names_def bare_device_def intro!: nth_equalityI)
  have 1: "apply_entries (map (class_entry s) (s_classes s)) (new_server\<lparr>s_name := s_name s\<rparr>) =
      Ok (?t\<lparr>s_classes := map bare_class (s_classes s), s_heap := map bare_device (s_heap s)\<rparr>)"
    using apply_first_class_entries [of "s_classes s" "new_server\<lparr>s_name := s_name s\<rparr>" ?n s]
      apply_class_entries [of "s_classes s" "new_server\<lparr>s_name := s_name s, s_instance_name := s_instance_name s\<rparr>" ?n s] wf
    by (simp add: new_server_def names)
  have 2: "apply_entries (concat (map class_entries (s_classes s)))
      (?t\<lparr>s_classes := map bare_class (s_classes s), s_heap := map bare_device (s_heap s)\<rparr>) =
    Ok (?t\<lparr>s_classes := s_classes s, s_heap := map bare_device (s_heap s)\<rparr>)"
    using class_section.apply_section [where xs = "[]" and cs = "s_classes s" and bare = bare_class and
        aprops = c_attribute_properties and props = c_properties and t = "?t\<lparr>s_heap := map bare_device (s_heap s)\<rparr>"] wf(2,3) rebuild_class
    by (auto simp: class_entries_def [abs_def] list_all_iff wf_class_def wf_name_def bare_class_def new_class_def new_server_def)
  have 3: "apply_entries (concat (map device_entries (s_heap s)))
      (?t\<lparr>s_classes := s_classes s, s_heap := map bare_device (s_heap s)\<rparr>) =
    Ok (?t\<lparr>s_classes := s_classes s, s_heap := s_heap s\<rparr>)"
    using device_section.apply_section [where xs = "[]" and cs = "s_heap s" and bare = bare_device and
        aprops = d_attribute_properties and props = d_properties and t = "?t\<lparr>s_classes := s_classes s\<rparr>"] wf(6,7) rebuild_device
    by (auto simp: device_entries_def [abs_def] list_all_iff wf_device_def bare_device_def new_device_def)
  have 4: "apply_entries (concat (map free_entries (s_free_objects s)))
      (?t\<lparr>s_classes := s_classes s, s_heap := s_heap s\<rparr>) = Ok s"
    using apply_free_objects [of "[]" "s_free_objects s" "?t\<lparr>s_classes := s_classes s, s_heap := s_heap s\<rparr>"] wf(4,8,9)
    by (simp add: free_entries_def [abs_def] new_server_def)
  show ?thesis unfolding server_piece_entries apply_entries_append 1 rbind.simps 2 3 4 ..
qed

lemma write_read_back:
  assumes "wf_server s"
  shows "\<exists>text. write_file s = Ok text \<and> parse_res_file text = Ok ([], s)"
proof -
  let ?ps = "server_pieces s"
  have line: "list_all line_piece ?ps" by (rule line_server_pieces [OF assms])
  then have "list_all wf_piece ?ps" by (auto simp: list_all_iff line_piece_def)
  moreover have "last (pieces_text ?ps) = NL" by (rule line_pieces_last [OF line]) (simp add: server_pieces_def)
  moreover obtain c cs where c: "s_classes s = c # cs" using assms by (cases "s_classes s") (auto simp: wf_server_def)
  obtain es where es: "piece_entries ?ps = class_entry s c # es" by (simp add: server_piece_entries c)
  moreover have "entry_first (class_entry s c) = s_name s" by (simp add: class_entry_def)
  ultimately have "parse_res_file (pieces_text ?ps) = Ok ([], s)"
    using apply_server_entries [OF assms] parse_pieces [of ?ps "class_entry s c" es s] by simp
  then show ?thesis using server_pieces_text [OF assms] by blast
qed

text \<open>
  (C15) The file of the database is read back as it was written. For a database whose names
  can be read, whose objects have different names, and whose values are not empty, not one
  of the special words, without backslash in a quoted value and without blank, comma or
  backslash in another one, writing the file succeeds, and parsing it in a new server
  gives the same database, without message.
\<close>

theorem file_database_roundtrip:
  assumes "wf_server s"
  shows "\<exists>text. write_file s = Ok text \<and> parse_res_file text = Ok ([], s)"
  by (rule write_read_back [OF assms])

section \<open>Values that are not read back\<close>

text \<open>
  A word that is the text of a special word is written without quotes.
\<close>

definition special_word :: "string \<Rightarrow> bool" where
  "special_word v \<longleftrightarrow> v = ''/'' \<or> v = '':'' \<or> v = ''->''"

lemma special_word_text:
  assumes "special_word v"
  shows "write_string_value v = v" "list_all plain_char v" "v \<noteq> []" "hd v \<noteq> DQ" "class_lex v \<noteq> TG_STRING" "class_lex v \<noteq> TG_ASLASH"
  using assms by (auto simp: special_word_def write_string_value_def plain_char_def is_graph_def schar_def)

text \<open>
  A property whose first value is a slash, a colon or an arrow makes the file
  unreadable: from the text that is written for it the parser throws an exception, so the
  server cannot start from its own file any more.
\<close>

theorem special_value_unreadable:
  assumes "wf_name a" "wf_name b" "wf_name c" "wf_name (p_name p)" "p_value p = v # vs" "special_word v"
    "sees r (entry_rest m (Prop3 a b c p) @ ys)"
  shows "\<exists>msg. parse_entry a r s = Throw (DevFailed ''API_DatabaseFileError'' msg)"
proof -
  note v = special_word_text [OF assms(6)]
  have "sees r (slashes [b, c] @ prop_text m p @ ys)" using assms(7) by simp
  then obtain r4 where r4: "sees r4 (prop_text m p @ ys)" "\<And>s. parse_entry a r s = parse_three a b c r4 s"
    using parse_three_names [OF assms(1-3)] by metis
  obtain q1 q2 q3 where q: "read_lex TG_ARROW r4 = Ok (''->'', q1)" "read_lex TG_STRING q1 = Ok (p_name p, q2)"
    "read_lex TG_COLON q2 = Ok ('':'', q3)" "sees q3 (CHR '' '' # write_list write_string_value m (p_value p) @ NL # ys)"
    by (rule read_prop_head [OF r4(1) assms(4)])
  obtain d zs where d: "write_more write_string_value m vs @ NL # ys = d # zs" "\<not> plain_char d"
    by (cases vs) (auto simp: write_more_def plain_char_def)
  have "sees q3 ('' '' @ v @ d # zs)" using q(4) assms(5) v(1) d(1) by (simp add: write_list_def)
  then obtain q4 where "read_full_word q3 = Ok (v, q4)"
    using reads_full_plain [of "'' ''" v d zs] v d(2) by (auto simp: reads_full_def simp del: sees.simps)
  then have "\<exists>msg. parse_resource_value '':'' q3 = Throw (DevFailed ''API_DatabaseFileError'' msg)"
    using v(5,6) by (simp add: parse_resource_value_def, subst parse_values.simps) (simp add: CHECK_LEX_def file_error_def)
  then show ?thesis using q(2,3) by (auto simp: r4(2) parse_three_def with_values_def read_lexD [OF q(1)])
qed

text \<open>
  A value with a comma and without blank is split: from the text that is written for
  it the parser reads the two parts as two values.
\<close>

theorem comma_value_split:
  assumes "wf_value u" "wf_value v" "\<not> is_quoted u" "\<not> is_quoted v" "reads (NL # ys) w zs" "class_lex w = TG_STRING"
    "sees r (CHR '' '' # write_list write_string_value m [u @ CHR '','' # v] @ NL # ys)"
  shows "\<exists>r'. parse_resource_value '':'' r = Ok ([u, v], w, r') \<and> sees r' zs"
proof -
  have uv: "list_all plain_char u" "list_all plain_char v" "class_lex u = TG_STRING" "class_lex v = TG_STRING"
    using assms(1-4) by (simp_all add: wf_value_def)
  have ne: "u \<noteq> []" "v \<noteq> []" using uv(3,4) not_empty_lex by blast+
  have "DQ \<notin> set u" "DQ \<notin> set v" using assms(3,4) by (simp_all add: is_quoted_def)
  then have dq: "hd u \<noteq> DQ" "hd v \<noteq> DQ" using hd_in_set ne by metis+
  have "write_string_value (u @ CHR '','' # v) = u @ CHR '','' # v"
    using assms(3,4) by (auto simp: write_string_value_def is_quoted_def)
  then have "sees r ('' '' @ u @ CHR '','' # v @ NL # ys)"
    using assms(7) by (simp add: write_list_def write_more_def)
  moreover have "reads_full ('' '' @ u @ CHR '','' # v @ NL # ys) u (CHR '','' # v @ NL # ys)"
    using uv ne dq separator_not_plain by (intro reads_full_plain) simp_all
  ultimately obtain r1 where r1: "read_full_word r = Ok (u, r1)" "sees r1 (CHR '','' # v @ NL # ys)"
    by (auto simp: reads_full_def simp del: sees.simps)
  then obtain r2 where r2: "read_word r1 = Ok ('','', r2)" "sees r2 (v @ NL # ys)"
    using reads_special [of "[]" "CHR '',''" "v @ NL # ys"] noise.blank [of "[]"]
    by (auto simp: reads_def special_char_def simp del: sees.simps)
  obtain r3 where r3: "read_full_word r2 = Ok (v, r3)" "sees r3 (NL # ys)"
    using reads_full_plain [of "[]" v NL ys] uv ne dq r2(2) separator_not_plain by (auto simp: reads_full_def simp del: sees.simps)
  obtain r4 where r4: "read_word r3 = Ok (w, r4)" "sees r4 zs" using assms(5) r3(2) unfolding reads_def by blast
  have "parse_values '','' TG_COMA r2 = Ok ([v], w, r4)"
    using r3(1) r4(1) uv parse_values_stop [OF assms(6), of r4] by (subst parse_values.simps) (simp add: CHECK_LEX_def)
  then have "parse_values '':'' TG_COMA r = Ok ([u, v], w, r4)"
    using r1(1) r2(1) uv by (subst parse_values.simps) (simp add: CHECK_LEX_def)
  then show ?thesis using r4(2) by (simp add: parse_resource_value_def)
qed

text \<open>
  A property of an attribute of a device that the file does not define is undefined
  behaviour: the parser goes on with the null pointer of the search.
\<close>

theorem unknown_device_attr_undefined:
  assumes "wf_entry (Prop4 a b c n p)" "search_device s (a @ slashes [b, c]) = None"
    "reads (NL # ys) w zs" "class_lex w = TG_STRING" "sees r (entry_rest m (Prop4 a b c n p) @ ys)"
  shows "parse_entry a r s = Undef"
proof -
  have wf: "wf_name a" "wf_name b" "wf_name c" "wf_name n" "wf_prop p" using assms(1) by simp_all
  have "word_end (prop_text m p @ ys)" by (simp add: prop_text_def)
  then obtain q where q: "sees q (prop_text m p @ ys)" "\<And>s. parse_entry a r s = parse_four a b c n q s"
    using parse_four_names [OF wf(1-4), of "prop_text m p @ ys" r] assms(5) by auto
  obtain r1 r2 r3 r' where r: "read_lex TG_ARROW q = Ok (''->'', r1)" "read_lex TG_STRING r1 = Ok (p_name p, r2)"
    "read_lex TG_COLON r2 = Ok ('':'', r3)" "parse_resource_value '':'' r3 = Ok (p_value p, w, r')"
    using read_prop [OF q(1) wf(5) assms(3,4)] by metis
  then show ?thesis using assms(2)
    by (simp add: q(2) parse_four_def with_values_def define_dev_attr_prop_def read_lexD [OF r(1)])
qed

section \<open>Examples\<close>

definition ex_prop :: "string \<Rightarrow> string list \<Rightarrow> t_property" where
  "ex_prop n vs = \<lparr>p_name = n, p_value = vs\<rparr>"

definition ex_db :: t_server where
  "ex_db = \<lparr>s_name = ''Server'', s_instance_name = ''lab'',
    s_classes = [\<lparr>c_name = ''Motor'', c_devices = [0, 1], c_properties = [ex_prop ''unit'' [''mm'', ''a b'']],
      c_attribute_properties = [\<lparr>ap_name = ''speed'', ap_properties = [ex_prop ''max'' [''10'']]\<rparr>]\<rparr>],
    s_devices = [0, 1],
    s_free_objects = [\<lparr>o_name = ''site'', o_properties = [ex_prop ''name'' [''x:y/z'']]\<rparr>],
    s_heap = [\<lparr>d_name = ''a/b/1'', d_properties = [ex_prop ''host'' [''say \"hi\"'', ''b'']],
        d_attribute_properties = [\<lparr>ap_name = ''speed'', ap_properties = [ex_prop ''min'' [''1''], ex_prop ''max'' [''5'']]\<rparr>]\<rparr>,
      \<lparr>d_name = ''a/b/2'', d_properties = [], d_attribute_properties = []\<rparr>]\<rparr>"

theorem file_database_roundtrip_witness:
  "wf_server ex_db \<and> (\<exists>text. write_file ex_db = Ok text \<and> parse_res_file text = Ok ([], ex_db))"
proof -
  have "wf_server ex_db" by code_simp
  then show ?thesis using file_database_roundtrip [of ex_db] by simp
qed

definition ex_reader :: "string \<Rightarrow> reader" where
  "ex_reader t = \<lparr>CurrentChar = hd t, NextChar = hd (tl t), rd_rest = tl (tl t), rd_eof = False, CrtLine = 1, StartLine = 1\<rparr>"

lemma ex_reader_sees:
  assumes "2 \<le> length t"
  shows "sees (ex_reader t) t"
proof -
  obtain c d u where "t = c # d # u" using assms by (cases t; cases "tl t") auto
  then have "sees (ex_reader t) (t @ [last (d # u), NUL])"
    using sees_rest [of "ex_reader t"] by (simp add: ex_reader_def del: sees.simps)
  then show ?thesis unfolding sees_append by blast
qed

lemma ex_reads_end: "reads [NL, NUL] lexical_word_null []"
  using reads_end [OF noise_blank_line] by simp

theorem special_value_unreadable_witness:
  "\<exists>msg. parse_entry ''a'' (ex_reader (entry_rest 0 (Prop3 ''a'' ''b'' ''c'' (ex_prop ''root'' [''/''])))) new_server =
    Throw (DevFailed ''API_DatabaseFileError'' msg)"
proof (rule special_value_unreadable [where b = "''b''" and c = "''c''" and p = "ex_prop ''root'' [''/'']" and
      v = "''/''" and vs = "[]" and m = 0 and ys = "[]"])
  show "wf_name ''a''" "wf_name ''b''" "wf_name ''c''" by code_simp+
  show "wf_name (p_name (ex_prop ''root'' [''/'']))" by code_simp
  show "sees (ex_reader (entry_rest 0 (Prop3 ''a'' ''b'' ''c'' (ex_prop ''root'' [''/'']))))
      (entry_rest 0 (Prop3 ''a'' ''b'' ''c'' (ex_prop ''root'' [''/''])) @ [])"
    using ex_reader_sees [of "entry_rest 0 (Prop3 ''a'' ''b'' ''c'' (ex_prop ''root'' [''/'']))"]
    by (simp add: slashes_def del: sees.simps)
qed (simp_all add: ex_prop_def special_word_def)

theorem comma_value_split_witness:
  "\<exists>r'. parse_resource_value '':'' (ex_reader ('' x,y'' @ [NL, NUL])) = Ok ([''x'', ''y''], lexical_word_null, r')"
proof -
  have "wf_value ''x''" "wf_value ''y''" "\<not> is_quoted ''x''" "\<not> is_quoted ''y''" by code_simp+
  moreover have "CHR '' '' # write_list write_string_value 0 [''x'' @ CHR '','' # ''y''] @ NL # [NUL] = '' x,y'' @ [NL, NUL]"
    by (simp add: write_list_def write_more_def write_string_value_def)
  ultimately show ?thesis
    using comma_value_split [of "''x''" "''y''" "[NUL]" lexical_word_null "[]" "ex_reader ('' x,y'' @ [NL, NUL])" 0]
      ex_reads_end ex_reader_sees [of "'' x,y'' @ [NL, NUL]"] lex_simps(6) by auto
qed

theorem unknown_device_attr_undefined_witness:
  "parse_entry ''a'' (ex_reader (entry_rest 0 (Prop4 ''a'' ''b'' ''c'' ''speed'' (ex_prop ''min'' [''1''])) @ [NUL])) new_server = Undef"
proof (rule unknown_device_attr_undefined [where w = lexical_word_null and ys = "[NUL]" and zs = "[]" and m = 0])
  have "wf_name ''a''" "wf_name ''b''" "wf_name ''c''" "wf_name ''speed''" "wf_prop (ex_prop ''min'' [''1''])" by code_simp+
  then show "wf_entry (Prop4 ''a'' ''b'' ''c'' ''speed'' (ex_prop ''min'' [''1'']))" by simp
  show "sees (ex_reader (entry_rest 0 (Prop4 ''a'' ''b'' ''c'' ''speed'' (ex_prop ''min'' [''1''])) @ [NUL]))
      (entry_rest 0 (Prop4 ''a'' ''b'' ''c'' ''speed'' (ex_prop ''min'' [''1''])) @ [NUL])"
    by (rule ex_reader_sees) (simp add: slashes_def)
  show "reads (NL # [NUL]) lexical_word_null []" by (rule ex_reads_end)
qed (simp_all add: search_device_def new_server_def)

end
