(* ===== verification/File_Db_Requests.thy ===== *)
theory File_Db_Requests
  imports File_Db_Roundtrip
begin

text \<open>
  The requests to the file database (\<open>filedatabase.cpp\<close>), which answer for the database
  server: reading, writing and deleting the properties of devices, classes and free
  objects and of the attributes of devices and classes. The arguments and the replies are
  sequences of strings with counts in between.
\<close>

section \<open>Reading the arguments\<close>

text \<open>
  The database with its file. A position in the argument is the list of the strings from
  there on; reading past the end is undefined.
\<close>

record FileDb =
  m_server :: t_server
  db_file :: string
  db_filename :: string

type_synonym 'a db = "FileDb \<Rightarrow> 'a result \<times> FileDb"

text \<open>
  \<open>sscanf\<close> with at most six characters; a failure leaves the variable as it was.
\<close>

definition scan6 :: "string \<Rightarrow> int option" where
  "scan6 s =
    (let t = dropWhile is_blank s;
         sg = (t \<noteq> [] \<and> (hd t = CHR ''-'' \<or> hd t = CHR ''+''));
         ds = takeWhile is_digit (if sg then take 5 (tl t) else take 6 t)
     in if ds = [] then None
        else Some (if hd t = CHR ''-'' then - int (digits_value ds) else int (digits_value ds)))"

definition scan_u :: "nat \<Rightarrow> string \<Rightarrow> nat" where
  "scan_u old s = (case scan6 s of None \<Rightarrow> old | Some v \<Rightarrow> nat (v mod 2 ^ 32))"

definition scan_d :: "int \<Rightarrow> string \<Rightarrow> int" where
  "scan_d old s = (case scan6 s of None \<Rightarrow> old | Some v \<Rightarrow> v)"

fun take_strings :: "nat \<Rightarrow> string list \<Rightarrow> (string list \<times> string list) result" where
  "take_strings 0 xs = Ok ([], xs)"
| "take_strings (Suc n) (x # xs) = rbind (take_strings n xs) (\<lambda>(vs, ys). Ok (x # vs, ys))"
| "take_strings (Suc n) [] = Undef"

definition first_string :: "string list \<Rightarrow> string result" where
  "first_string xs = vec_get xs 0"

definition search_prop :: "t_property list \<Rightarrow> string \<Rightarrow> nat option" where
  "search_prop ps name = position_of (\<lambda>p. equalsIgnoreCase (p_name p) name) ps"

text \<open>
  Every request that changes the database writes the file.
\<close>

definition save :: "unit db" where
  "save st =
    (case write_file (m_server st) of
       Ok text \<Rightarrow> (Ok (), st\<lparr>db_file := text\<rparr>)
     | Throw e \<Rightarrow> (Throw e, st)
     | Undef \<Rightarrow> (Undef, st))"

definition upd_server :: "(t_server \<Rightarrow> t_server) \<Rightarrow> FileDb \<Rightarrow> FileDb" where
  "upd_server f st = st\<lparr>m_server := f (m_server st)\<rparr>"


section \<open>Properties of devices, classes and free objects\<close>

definition put_values :: "string \<Rightarrow> int \<Rightarrow> string list \<Rightarrow> t_property list \<Rightarrow> (string list \<times> t_property list) result" where
  "put_values name n xs ps =
    (case search_prop ps name of
       Some i \<Rightarrow>
         if n < 0 then Throw Std_length_error
         else rbind (take_strings (nat n) xs) (\<lambda>(vs, ys). Ok (ys, update_nth i (\<lambda>p. p\<lparr>p_value := vs\<rparr>) ps))
     | None \<Rightarrow> rbind (take_strings (nat n) xs) (\<lambda>(vs, ys). Ok (ys, ps @ [\<lparr>p_name = name, p_value = vs\<rparr>])))"

text \<open>
  The loop over the properties of a request. For a class it ends early when a new
  property is the last one of the argument.
\<close>

fun put_request_props :: "bool \<Rightarrow> nat \<Rightarrow> int \<Rightarrow> string list \<Rightarrow> t_property list \<Rightarrow> unit result \<times> t_property list" where
  "put_request_props early 0 nv xs ps = (Ok (), ps)"
| "put_request_props early (Suc k) nv (name # c # xs) ps =
    (let n = scan_d nv c in
     case put_values name n xs ps of
       Ok (ys, ps') \<Rightarrow>
         if early \<and> search_prop ps name = None \<and> ys = [] then (Ok (), ps') else put_request_props early k n ys ps'
     | Throw e \<Rightarrow> (Throw e, ps)
     | Undef \<Rightarrow> (Undef, ps))"
| "put_request_props early (Suc k) nv _ ps = (Undef, ps)"

definition del_props :: "string list \<Rightarrow> t_property list \<Rightarrow> t_property list" where
  "del_props names ps = fold (\<lambda>name ps.
    case search_prop ps name of Some i \<Rightarrow> take i ps @ drop (Suc i) ps | None \<Rightarrow> ps) names ps"

text \<open>
  The reply for a property.
\<close>

definition reply_prop :: "string \<Rightarrow> string list \<Rightarrow> string list" where
  "reply_prop name vs = name # dec (length vs) # vs"

definition DbGetDeviceProperty :: "string list \<Rightarrow> FileDb \<Rightarrow> string list result" where
  "DbGetDeviceProperty data_in st =
    rbind (first_string data_in) (\<lambda>dev.
      let s = m_server st; names = tl data_in in
      Ok (dev # dec (length names) #
        (case search_device s dev of
           Some i \<Rightarrow> concat (map (\<lambda>name.
             case search_prop (d_properties (s_heap s ! i)) name of
               Some m \<Rightarrow> let p = d_properties (s_heap s ! i) ! m in reply_prop (p_name p) (p_value p)
             | None \<Rightarrow> [name, ''0'', '' '']) names)
         | None \<Rightarrow> concat (map (\<lambda>name. [name, ''0'', '' '']) names))))"

definition DbPutDeviceProperty :: "string list \<Rightarrow> unit db" where
  "DbPutDeviceProperty data_in st =
    (case data_in of
       dev # c # xs \<Rightarrow>
         (case search_device (m_server st) dev of
            None \<Rightarrow> (Ok (), st)
          | Some i \<Rightarrow>
              let (r, ps) = put_request_props False (scan_u 0 c) 0 xs (d_properties (s_heap (m_server st) ! i));
                  st1 = upd_server (upd_device i (\<lambda>d. d\<lparr>d_properties := ps\<rparr>)) st
              in sbind (r, st1) (\<lambda>_. save))
     | _ \<Rightarrow> save st)"

definition DbDeleteDeviceProperty :: "string list \<Rightarrow> unit db" where
  "DbDeleteDeviceProperty data_in st =
    sbind (first_string data_in, st) (\<lambda>dev st.
      case search_device (m_server st) dev of
        Some i \<Rightarrow> save (upd_server (upd_device i (\<lambda>d. d\<lparr>d_properties := del_props (tl data_in) (d_properties d)\<rparr>)) st)
      | None \<Rightarrow> save st)"

definition DbGetClassProperty :: "string list \<Rightarrow> FileDb \<Rightarrow> string list result" where
  "DbGetClassProperty data_in st =
    rbind (first_string data_in) (\<lambda>cl.
      let s = m_server st; names = tl data_in in
      Ok (cl # dec (length names) #
        (case search_class s cl of
           Some i \<Rightarrow> concat (map (\<lambda>name.
             case search_prop (c_properties (s_classes s ! i)) name of
               Some m \<Rightarrow> reply_prop name (p_value (c_properties (s_classes s ! i) ! m))
             | None \<Rightarrow> [name, ''0'']) names)
         | None \<Rightarrow> concat (map (\<lambda>name. [name, ''0'']) names))))"

definition DbPutClassProperty :: "string list \<Rightarrow> unit db" where
  "DbPutClassProperty data_in st =
    (case data_in of
       cl # c # xs \<Rightarrow>
         (case search_class (m_server st) cl of
            None \<Rightarrow> (Ok (), st)
          | Some i \<Rightarrow>
              let (r, ps) = put_request_props True (scan_u 0 c) 0 xs (c_properties (s_classes (m_server st) ! i));
                  st1 = upd_server (upd_class i (\<lambda>d. d\<lparr>c_properties := ps\<rparr>)) st
              in sbind (r, st1) (\<lambda>_. save))
     | _ \<Rightarrow> save st)"

definition DbDeleteClassProperty :: "string list \<Rightarrow> unit db" where
  "DbDeleteClassProperty data_in st =
    sbind (first_string data_in, st) (\<lambda>cl st.
      case search_class (m_server st) cl of
        Some i \<Rightarrow> save (upd_server (upd_class i (\<lambda>d. d\<lparr>c_properties := del_props (tl data_in) (c_properties d)\<rparr>)) st)
      | None \<Rightarrow> save st)"

text \<open>
  Free objects. The reply is allocated with three strings for each property, so a property
  without values leaves an empty string at the end.
\<close>

definition bad_request :: "string \<Rightarrow> string \<Rightarrow> 'a result" where
  "bad_request reason fn = Throw (DevFailed reason (''Invalid number of arguments passed to '' @ fn))"

definition DbGetProperty :: "string list \<Rightarrow> FileDb \<Rightarrow> string list result" where
  "DbGetProperty data_in st =
    (case data_in of
       [] \<Rightarrow> bad_request ''API_InvalidCorbaAny'' ''FileDatabase::DbGetProperty''
     | obj # names \<Rightarrow>
         let s = m_server st;
             ps = (case search_free_object s obj of Some i \<Rightarrow> o_properties (s_free_objects s ! i) | None \<Rightarrow> []);
             found = (\<lambda>name. map_option ((!) ps) (search_prop ps name));
             empty = length (filter (\<lambda>name. case found name of Some p \<Rightarrow> p_value p = [] | None \<Rightarrow> False) names)
         in Ok (obj # dec (length names) #
              concat (map (\<lambda>name. case found name of Some p \<Rightarrow> reply_prop name (p_value p) | None \<Rightarrow> [name, ''0'', '' '']) names) @
              replicate empty []))"

fun put_free_props :: "nat \<Rightarrow> string list \<Rightarrow> t_property list \<Rightarrow> t_property list result" where
  "put_free_props 0 xs ps = Ok ps"
| "put_free_props (Suc k) (name # c # xs) ps =
    (let ps1 = (if search_prop ps name = None then ps @ [\<lparr>p_name = name, p_value = []\<rparr>] else ps) in
     rbind (take_strings (scan_u 0 c) xs) (\<lambda>(vs, ys).
       case search_prop ps1 name of
         Some i \<Rightarrow> put_free_props k ys (update_nth i (\<lambda>p. p\<lparr>p_value := vs\<rparr>) ps1)
       | None \<Rightarrow> Undef))"
| "put_free_props (Suc k) _ ps = Undef"

definition DbPutProperty :: "string list \<Rightarrow> unit db" where
  "DbPutProperty data_in st =
    (case data_in of
       obj # c # xs \<Rightarrow>
         let s = m_server st;
             s1 = (if search_free_object s obj = None
                   then s\<lparr>s_free_objects := s_free_objects s @ [\<lparr>o_name = obj, o_properties = []\<rparr>]\<rparr> else s)
         in case search_free_object s1 obj of
              Some i \<Rightarrow>
                sbind (put_free_props (scan_u 0 c) xs (o_properties (s_free_objects s1 ! i)), st) (\<lambda>ps st.
                  save (st\<lparr>m_server := upd_free_object i (\<lambda>f. f\<lparr>o_properties := ps\<rparr>) s1\<rparr>))
            | None \<Rightarrow> (Undef, st)
     | _ \<Rightarrow> (bad_request ''API_InvalidCorbaAny'' ''FileDatabase::DbPutProperty'', st))"

definition DbDeleteProperty :: "string list \<Rightarrow> unit db" where
  "DbDeleteProperty data_in st =
    (case data_in of
       obj # name # names \<Rightarrow>
         (case search_free_object (m_server st) obj of
            Some i \<Rightarrow> save (upd_server (upd_free_object i
              (\<lambda>f. f\<lparr>o_properties := del_props (name # names) (o_properties f)\<rparr>)) st)
          | None \<Rightarrow> (Ok (), st))
     | _ \<Rightarrow> (bad_request ''API_InvalidArgs'' ''FileDatabase::DbDeleteProperty'', st))"


section \<open>Properties of attributes\<close>

text \<open>
  The number of properties is written over the last string of the reply, which is the
  place kept for it if one group of properties has the name of the attribute.
\<close>

definition reply_attr :: "t_attribute_property list \<Rightarrow> string \<Rightarrow> string list" where
  "reply_attr aps name =
    fold (\<lambda>a out. if equalsIgnoreCase (ap_name a) name
        then butlast out @ [dec (length (ap_properties a))] @
          concat (map (\<lambda>p. reply_prop (p_name p) (p_value p)) (ap_properties a))
        else out) aps [name, ''0'']"

definition reply_attrs :: "string \<Rightarrow> string list \<Rightarrow> t_attribute_property list option \<Rightarrow> string list" where
  "reply_attrs obj names aps =
    obj # dec (length names) #
    (case aps of
       Some as \<Rightarrow> concat (map (reply_attr as) names)
     | None \<Rightarrow> concat (map (\<lambda>name. [name, ''0'']) names))"

definition DbGetDeviceAttributeProperty :: "string list \<Rightarrow> FileDb \<Rightarrow> string list result" where
  "DbGetDeviceAttributeProperty data_in st =
    rbind (first_string data_in) (\<lambda>dev. Ok (reply_attrs dev (tl data_in)
      (map_option (\<lambda>i. d_attribute_properties (s_heap (m_server st) ! i)) (search_device (m_server st) dev))))"

definition DbGetClassAttributeProperty :: "string list \<Rightarrow> FileDb \<Rightarrow> string list result" where
  "DbGetClassAttributeProperty data_in st =
    rbind (first_string data_in) (\<lambda>cl. Ok (reply_attrs cl (tl data_in)
      (map_option (\<lambda>i. c_attribute_properties (s_classes (m_server st) ! i)) (search_class (m_server st) cl))))"

text \<open>
  The loop over the stored properties of an attribute for one property of the request. It
  goes on after a match, and compares the properties that are left with the next name of
  the request. The result has the properties, the rest of the argument, the last count,
  whether there was a match and whether the argument was used up.
\<close>

fun upd_known :: "nat \<Rightarrow> t_property list \<Rightarrow> string list \<Rightarrow> (t_property list \<times> string list \<times> nat \<times> bool \<times> bool) result" where
  "upd_known nv [] xs = Ok ([], xs, nv, False, False)"
| "upd_known nv (p # ps) [] = Undef"
| "upd_known nv (p # ps) (name # xs) =
    (if equalsIgnoreCase (p_name p) name
     then case xs of
         [] \<Rightarrow> Undef
       | c # ys \<Rightarrow>
           let n = scan_u nv c in
           rbind (take_strings n ys) (\<lambda>(vs, zs).
             if zs = [] then Ok (p\<lparr>p_value := vs\<rparr> # ps, [], n, True, True)
             else rbind (upd_known n ps zs) (\<lambda>(ps', xs', n', _, ret). Ok (p\<lparr>p_value := vs\<rparr> # ps', xs', n', True, ret)))
     else rbind (upd_known nv ps (name # xs)) (\<lambda>(ps', rest). Ok (p # ps', rest)))"

fun put_attr_props :: "nat \<Rightarrow> nat \<Rightarrow> string list \<Rightarrow> t_property list \<Rightarrow> (t_property list \<times> string list \<times> nat \<times> bool) result" where
  "put_attr_props 0 nv xs ps = Ok (ps, xs, nv, False)"
| "put_attr_props (Suc i) nv xs ps =
    rbind (upd_known nv ps xs) (\<lambda>(ps, xs, nv, exist, ret).
      if ret then Ok (ps, xs, nv, True)
      else if exist then put_attr_props i nv xs ps
      else case xs of
          name # c # ys \<Rightarrow>
            let n = scan_u nv c in
            rbind (take_strings n ys) (\<lambda>(vs, zs).
              let ps' = ps @ [\<lparr>p_name = name, p_value = vs\<rparr>] in
              if zs = [] then Ok (ps', [], n, True) else put_attr_props i n zs ps')
        | _ \<Rightarrow> Undef)"

fun put_attrs :: "nat \<Rightarrow> nat \<Rightarrow> nat \<Rightarrow> string list \<Rightarrow> t_attribute_property list \<Rightarrow> t_attribute_property list result" where
  "put_attrs 0 np nv xs aps = Ok aps"
| "put_attrs (Suc j) np nv (name # c # xs) aps =
    (let aps1 = (if search_attr_prop aps name = None then aps @ [\<lparr>ap_name = name, ap_properties = []\<rparr>] else aps);
         np1 = scan_u np c
     in case search_attr_prop aps1 name of
          None \<Rightarrow> Undef
        | Some i \<Rightarrow>
            rbind (put_attr_props np1 nv xs (ap_properties (aps1 ! i))) (\<lambda>(ps, ys, nv1, ret).
              let aps2 = update_nth i (\<lambda>a. a\<lparr>ap_properties := ps\<rparr>) aps1 in
              if ret then Ok aps2 else put_attrs j np1 nv1 ys aps2))"
| "put_attrs (Suc j) np nv _ aps = Undef"

definition put_attr_request :: "string list \<Rightarrow> t_attribute_property list \<Rightarrow> t_attribute_property list result" where
  "put_attr_request xs aps = (case xs of c # ys \<Rightarrow> put_attrs (scan_u 0 c) 0 0 ys aps | [] \<Rightarrow> Undef)"

definition DbPutDeviceAttributeProperty :: "string list \<Rightarrow> unit db" where
  "DbPutDeviceAttributeProperty data_in st =
    sbind (first_string data_in, st) (\<lambda>dev st.
      case search_device (m_server st) dev of
        Some i \<Rightarrow>
          sbind (put_attr_request (tl data_in) (d_attribute_properties (s_heap (m_server st) ! i)), st) (\<lambda>aps st.
            save (upd_server (upd_device i (\<lambda>d. d\<lparr>d_attribute_properties := aps\<rparr>)) st))
      | None \<Rightarrow> save st)"

definition DbPutClassAttributeProperty :: "string list \<Rightarrow> unit db" where
  "DbPutClassAttributeProperty data_in st =
    sbind (first_string data_in, st) (\<lambda>cl st.
      case search_class (m_server st) cl of
        Some i \<Rightarrow>
          sbind (put_attr_request (tl data_in) (c_attribute_properties (s_classes (m_server st) ! i)), st) (\<lambda>aps st.
            save (upd_server (upd_class i (\<lambda>c. c\<lparr>c_attribute_properties := aps\<rparr>)) st))
      | None \<Rightarrow> save st)"

text \<open>
  Deletion goes through every group of properties with the name of the attribute.
\<close>

definition DbDeleteDeviceAttributeProperty :: "string list \<Rightarrow> unit db" where
  "DbDeleteDeviceAttributeProperty data_in st =
    sbind (first_string data_in, st) (\<lambda>dev st.
      case search_device (m_server st) dev of
        Some i \<Rightarrow>
          let aps = d_attribute_properties (s_heap (m_server st) ! i) in
          (if aps = [] then save st
           else case data_in of
               _ # attr # names \<Rightarrow>
                 save (upd_server (upd_device i (\<lambda>d. d\<lparr>d_attribute_properties :=
                   map (\<lambda>a. if equalsIgnoreCase (ap_name a) attr
                     then a\<lparr>ap_properties := del_props names (ap_properties a)\<rparr> else a) aps\<rparr>)) st)
             | _ \<Rightarrow> (Undef, st))
      | None \<Rightarrow> save st)"


section \<open>Other requests\<close>

definition DbGetDeviceList :: "string list \<Rightarrow> FileDb \<Rightarrow> string list result" where
  "DbGetDeviceList data_in st =
    (let s = m_server st in
     case data_in of
       [srv, cl] \<Rightarrow>
         if equalsIgnoreCase srv (s_name s @ ''/'' @ s_instance_name s)
         then case search_class s cl of
             Some i \<Rightarrow> Ok (dev_names s (c_devices (s_classes s ! i)))
           | None \<Rightarrow> Throw (DevFailed ''API_DatabaseFileError'' (''File database: Can't find class '' @ cl))
         else Throw (DevFailed ''API_DatabaseFileError'' (''File database: Can't find device server '' @ srv))
     | _ \<Rightarrow> Ok [])"

definition DbInfo :: "FileDb \<Rightarrow> string list result" where
  "DbInfo st =
    (let s = m_server st; n = dec (length (s_devices s)); ds = map ((!) (s_heap s)) (s_devices s) in
     Ok [''TANGO FileDatabase  '' @ db_filename st, [], ''Running since ----'', [],
       ''Devices defined = '' @ n, ''Devices exported = '' @ n,
       ''Device servers defined = 1'', ''Device servers exported = 1'', [],
       ''Class properties defined = '' @ dec (sum_list (map (length \<circ> c_properties) (s_classes s))),
       ''Device properties defined = '' @ dec (sum_list (map (length \<circ> d_properties) ds)),
       ''Class attribute properties defined = '' @ dec (sum_list (map (length \<circ> c_attribute_properties) (s_classes s))),
       ''Device attribute properties defined = '' @ dec (sum_list (map (length \<circ> d_attribute_properties) ds))])"

definition not_implemented :: "string list \<Rightarrow> FileDb \<Rightarrow> string list result" where
  "not_implemented data_in st = Throw (DevFailed ''API_NotSupported'' ''Call to a Filedatabase not implemented.'')"

definition DbGetDeviceMemberList :: "string list \<Rightarrow> FileDb \<Rightarrow> string list result" where
  "DbGetDeviceMemberList data_in st = Ok [''NoMember'']"

definition DbGetDeviceFamilyList :: "string list \<Rightarrow> FileDb \<Rightarrow> string list result" where
  "DbGetDeviceFamilyList data_in st = Ok [''NoDevice'']"

definition DbGetDeviceDomainList :: "string list \<Rightarrow> FileDb \<Rightarrow> string list result" where
  "DbGetDeviceDomainList data_in st = Ok [''NoDevice'']"

text \<open>
  The text that shows the database.
\<close>

definition numbered :: "string \<Rightarrow> ('a \<Rightarrow> string) \<Rightarrow> 'a list \<Rightarrow> string" where
  "numbered label f xs = concat (map (\<lambda>(l, x). label @ ''['' @ dec l @ ''] = '' @ f x) (zip [0..<length xs] xs))"

definition display_prop :: "string \<Rightarrow> t_property \<Rightarrow> string" where
  "display_prop margin p = margin @ ''proper = '' @ p_name p @ ''  value: '' @ [NL] @
    numbered ''                 value'' (\<lambda>v. v @ [NL]) (p_value p)"

definition display_attr :: "t_attribute_property \<Rightarrow> string" where
  "display_attr a = ''            attribute  = '' @ ap_name a @ [NL] @
    numbered ''                 property'' (\<lambda>p. p_name p @ [NL] @
      numbered ''                    value'' (\<lambda>v. v @ [NL]) (p_value p)) (ap_properties a)"

definition get_display :: "FileDb \<Rightarrow> string" where
  "get_display st =
    (let s = m_server st in
     '' ************************** '' @ [NL] @ ''server = '' @ s_name s @ [NL] @
     concat (map (\<lambda>c.
       ''    class = '' @ c_name c @ [NL] @
       concat (map (\<lambda>i. let d = s_heap s ! i in
         ''        device = '' @ d_name d @ [NL] @
         concat (map (display_prop ''            '') (d_properties d)) @
         concat (map display_attr (d_attribute_properties d))) (c_devices c)) @
       concat (map (display_prop ''        '') (c_properties c))) (s_classes s)))"

text \<open>
  The reference of the event channel is the name of the only device of a class.
\<close>

definition write_event_channel_ior :: "string \<Rightarrow> unit db" where
  "write_event_channel_ior ior st =
    (let s = m_server st; name = ''notifd_channel'' in
     case search_class s name of
       Some i \<Rightarrow>
         (case c_devices (s_classes s ! i) of
            a # _ \<Rightarrow> (Ok (), upd_server (upd_device a (\<lambda>d. d\<lparr>d_name := ior\<rparr>)) st)
          | [] \<Rightarrow> (Undef, st))
     | None \<Rightarrow>
         (Ok (), upd_server (\<lambda>s. s\<lparr>s_classes := s_classes s @ [(new_class name)\<lparr>c_devices := [length (s_heap s)]\<rparr>],
            s_heap := s_heap s @ [new_device ior]\<rparr>) st))"

section \<open>Properties as a map\<close>

text \<open>
  The contract of a store of named values: names are compared up to an equivalence.
\<close>

locale named_store =
  fixes lookup :: "'s \<Rightarrow> 'k \<Rightarrow> 'v option"
    and set_value :: "'k \<Rightarrow> 'v \<Rightarrow> 's \<Rightarrow> 's"
    and remove :: "'k \<Rightarrow> 's \<Rightarrow> 's"
    and norm :: "'k \<Rightarrow> 'n"
    and ok :: "'k \<Rightarrow> bool"
    and inv :: "'s \<Rightarrow> bool"
  assumes lookup_set: "ok k \<Longrightarrow> lookup (set_value k v s) l = (if norm k = norm l then Some v else lookup s l)"
    and lookup_remove: "inv s \<Longrightarrow> ok k \<Longrightarrow> lookup (remove k s) l = (if norm k = norm l then None else lookup s l)"
    and inv_set: "inv s \<Longrightarrow> ok k \<Longrightarrow> inv (set_value k v s)"
    and inv_remove: "inv s \<Longrightarrow> inv (remove k s)"
begin

lemma lookup_fold_set_other:
  assumes "(\<forall>(k, v) \<in> set kvs. ok k)" "norm l \<notin> set (map (norm \<circ> fst) kvs)"
  shows "lookup (fold (\<lambda>(k, v). set_value k v) kvs s) l = lookup s l"
  using assms by (induction kvs arbitrary: s) (auto simp: lookup_set)

lemma lookup_fold_set:
  assumes "(\<forall>(k, v) \<in> set kvs. ok k)" "distinct (map (norm \<circ> fst) kvs)" "(k, v) \<in> set kvs"
  shows "lookup (fold (\<lambda>(k, v). set_value k v) kvs s) k = Some v"
  using assms
proof (induction kvs arbitrary: s)
  case (Cons a kvs)
  show ?case
  proof (cases "a = (k, v)")
    case True
    then have "ok k" "lookup (fold (\<lambda>(k, v). set_value k v) kvs (set_value k v s)) k = lookup (set_value k v s) k"
      using Cons.prems by (auto intro!: lookup_fold_set_other)
    then show ?thesis using True by (simp add: lookup_set)
  next
    case False
    then show ?thesis using Cons.IH Cons.prems by (cases a) auto
  qed
qed simp

lemma inv_fold_set: "inv s \<Longrightarrow> (\<forall>(k, v) \<in> set kvs. ok k) \<Longrightarrow> inv (fold (\<lambda>(k, v). set_value k v) kvs s)"
  by (induction kvs arbitrary: s) (auto simp: inv_set)

lemma inv_fold_remove: "inv s \<Longrightarrow> inv (fold remove ks s)"
  by (induction ks arbitrary: s) (simp_all add: inv_remove)

lemma lookup_fold_remove:
  assumes "inv s" "\<forall>k \<in> set ks. ok k"
  shows "lookup (fold remove ks s) l = (if norm l \<in> set (map norm ks) then None else lookup s l)"
  using assms by (induction ks arbitrary: s) (auto simp: lookup_remove inv_remove)

end

definition prop_lookup :: "t_property list \<Rightarrow> string \<Rightarrow> string list option" where
  "prop_lookup ps name = map_option (\<lambda>i. p_value (ps ! i)) (search_prop ps name)"

definition set_prop :: "string \<Rightarrow> string list \<Rightarrow> t_property list \<Rightarrow> t_property list" where
  "set_prop name vs ps =
    (case search_prop ps name of
       Some i \<Rightarrow> update_nth i (\<lambda>p. p\<lparr>p_value := vs\<rparr>) ps
     | None \<Rightarrow> ps @ [\<lparr>p_name = name, p_value = vs\<rparr>])"

definition del_prop :: "string \<Rightarrow> t_property list \<Rightarrow> t_property list" where
  "del_prop name ps = (case search_prop ps name of Some i \<Rightarrow> take i ps @ drop (Suc i) ps | None \<Rightarrow> ps)"

lemma search_prop_simps [simp]:
  "search_prop [] n = None"
  "search_prop (p # ps) n = (if equalsIgnoreCase (p_name p) n then Some 0 else map_option Suc (search_prop ps n))"
  by (simp_all add: search_prop_def)

lemma set_prop_Nil [simp]: "set_prop n vs [] = [\<lparr>p_name = n, p_value = vs\<rparr>]"
  by (simp add: set_prop_def)

lemma set_prop_Cons [simp]:
  "set_prop n vs (p # ps) = (if equalsIgnoreCase (p_name p) n then p\<lparr>p_value := vs\<rparr> # ps else p # set_prop n vs ps)"
  by (simp add: set_prop_def update_nth_def split: option.split)

lemma del_prop_Nil [simp]: "del_prop n [] = []"
  by (simp add: del_prop_def)

lemma del_prop_Cons [simp]:
  "del_prop n (p # ps) = (if equalsIgnoreCase (p_name p) n then ps else p # del_prop n ps)"
  by (simp add: del_prop_def split: option.split)

lemma prop_lookup_simps [simp]:
  "prop_lookup [] n = None"
  "prop_lookup (p # ps) n = (if equalsIgnoreCase (p_name p) n then Some (p_value p) else prop_lookup ps n)"
  by (simp_all add: prop_lookup_def option.map_comp comp_def)

lemma names_set_prop:
  "map p_name (set_prop n vs ps) = map p_name ps @ (if search_prop ps n = None then [n] else [])"
  by (induction ps) auto

lemma names_del_prop: "set (del_prop n ps) \<subseteq> set ps"
  by (induction ps) auto

lemma search_prop_None: "search_prop ps n = None \<longleftrightarrow> n = [] \<or> lower n \<notin> set (map (lower \<circ> p_name) ps)"
  by (induction ps) (auto simp: equalsIgnoreCase_iff)

lemma prop_lookup_None: "lower n \<notin> set (map (lower \<circ> p_name) ps) \<Longrightarrow> prop_lookup ps n = None"
  by (simp add: prop_lookup_def search_prop_None)

interpretation props: named_store prop_lookup set_prop del_prop lower "\<lambda>k. k \<noteq> []"
  "\<lambda>ps. no_case_dup (map p_name ps)"
proof
  fix k l :: string and v :: "string list" and ps :: "t_property list"
  show "k \<noteq> [] \<Longrightarrow> prop_lookup (set_prop k v ps) l = (if lower k = lower l then Some v else prop_lookup ps l)"
    by (induction ps) (auto simp: equalsIgnoreCase_iff)
  show "no_case_dup (map p_name ps) \<Longrightarrow> k \<noteq> [] \<Longrightarrow>
      prop_lookup (del_prop k ps) l = (if lower k = lower l then None else prop_lookup ps l)"
    by (induction ps) (auto simp: equalsIgnoreCase_iff no_case_dup_def prop_lookup_None)
  show "no_case_dup (map p_name ps) \<Longrightarrow> k \<noteq> [] \<Longrightarrow> no_case_dup (map p_name (set_prop k v ps))"
    by (auto simp: names_set_prop no_case_dup_def search_prop_None)
  show "no_case_dup (map p_name ps) \<Longrightarrow> no_case_dup (map p_name (del_prop k ps))"
    by (induction ps) (use names_del_prop in \<open>auto simp: no_case_dup_def image_subset_iff image_iff\<close>)
qed

lemma del_props_fold: "del_props names ps = fold del_prop names ps"
  by (simp add: del_props_def del_prop_def [abs_def])

section \<open>Requests in the format of the client\<close>

text \<open>
  The strings of a request that sets properties: for each one its name, the number of its
  values and the values.
\<close>

definition enc_props :: "(string \<times> string list) list \<Rightarrow> string list" where
  "enc_props kvs = concat (map (\<lambda>(k, vs). k # dec (length vs) # vs) kvs)"

lemma enc_props_simps [simp]:
  "enc_props [] = []" "enc_props ((k, vs) # kvs) = k # dec (length vs) # vs @ enc_props kvs"
  by (simp_all add: enc_props_def)

lemma enc_props_empty: "enc_props kvs = [] \<longleftrightarrow> kvs = []"
  by (cases kvs) auto

lemma digit_not_blank: "is_digit c \<Longrightarrow> \<not> is_blank c"
  by (auto simp: is_digit_def is_blank_def)

lemma digit_not_sign: "\<not> is_digit (CHR ''-'')" "\<not> is_digit (CHR ''+'')"
  by (simp_all add: is_digit_def)

lemma scan6_dec:
  assumes "n < 10 ^ 6"
  shows "scan6 (dec n) = Some (int n)"
proof -
  have d: "list_all is_digit (dec n)" by (rule dec_digits)
  have ne: "dec n \<noteq> []" by (rule dec_nonempty)
  then have h: "is_digit (hd (dec n))" using d by (cases "dec n") simp_all
  then have "dropWhile is_blank (dec n) = dec n" using digit_not_blank ne by (cases "dec n") simp_all
  moreover have "hd (dec n) \<noteq> CHR ''-''" "hd (dec n) \<noteq> CHR ''+''" using h digit_not_sign by metis+
  moreover have "take 6 (dec n) = dec n" using length_dec [OF assms] by simp
  moreover have tw: "takeWhile is_digit (dec n) = dec n" using d by (simp add: list_all_iff)
  ultimately show ?thesis using ne by (simp add: scan6_def tw)
qed

lemma scan_dec: "n < 10 ^ 6 \<Longrightarrow> scan_u old (dec n) = n" "n < 10 ^ 6 \<Longrightarrow> scan_d o' (dec n) = int n"
  by (simp_all add: scan_u_def scan_d_def scan6_dec)

lemma take_strings_append [simp]: "take_strings (length vs) (vs @ xs) = Ok (vs, xs)"
  by (induction vs) simp_all

lemma put_values_enc: "put_values k (int (length vs)) (vs @ xs) ps = Ok (xs, set_prop k vs ps)"
  by (simp add: put_values_def set_prop_def split: option.split)

text \<open>
  A well formed request sets its properties in their order.
\<close>

lemma put_request_props_enc:
  assumes "\<forall>(k, vs) \<in> set kvs. length vs < 10 ^ 6"
  shows "put_request_props early (length kvs) nv (enc_props kvs) ps = (Ok (), fold (\<lambda>(k, v). set_prop k v) kvs ps)"
  using assms
proof (induction kvs arbitrary: nv ps)
  case (Cons a kvs)
  then show ?case by (cases a) (auto simp: scan_dec put_values_enc enc_props_empty simp del: search_prop_simps)
qed simp

lemma wf_prop_set_prop:
  "list_all wf_prop ps \<Longrightarrow> wf_prop \<lparr>p_name = k, p_value = vs\<rparr> \<Longrightarrow> list_all wf_prop (set_prop k vs ps)"
  by (induction ps) (auto simp: wf_prop_def)

lemma wf_prop_fold_set:
  "list_all wf_prop ps \<Longrightarrow> \<forall>(k, vs) \<in> set kvs. wf_prop \<lparr>p_name = k, p_value = vs\<rparr> \<Longrightarrow>
    list_all wf_prop (fold (\<lambda>(k, v). set_prop k v) kvs ps)"
  by (induction kvs arbitrary: ps) (auto simp: wf_prop_set_prop)

lemma wf_prop_fold_del: "list_all wf_prop ps \<Longrightarrow> list_all wf_prop (fold del_prop ns ps)"
proof (induction ns arbitrary: ps)
  case (Cons n ns)
  have "list_all wf_prop (del_prop n ps)" using Cons.prems names_del_prop [of n ps] by (auto simp: list_all_iff)
  then show ?case using Cons.IH by simp
qed simp

section \<open>Replies\<close>

lemma dec_literals: "dec (Suc 0) = ''1''" "dec 1 = ''1''" "dec 2 = ''2''" "dec (Suc (Suc 0)) = ''2''"
  by code_simp+

definition find_prop :: "t_property list \<Rightarrow> string \<Rightarrow> t_property option" where
  "find_prop ps n = find (\<lambda>p. equalsIgnoreCase (p_name p) n) ps"

lemma find_prop_search: "find_prop ps n = map_option ((!) ps) (search_prop ps n)"
  by (induction ps) (simp_all add: find_prop_def option.map_comp comp_def)

lemma find_prop_set_other: "lower k \<noteq> lower l \<Longrightarrow> find_prop (set_prop k v ps) l = find_prop ps l"
  by (induction ps) (auto simp: find_prop_def equalsIgnoreCase_iff)

lemma find_prop_fold_set_other:
  "lower l \<notin> set (map (lower \<circ> fst) kvs) \<Longrightarrow> find_prop (fold (\<lambda>(k, v). set_prop k v) kvs ps) l = find_prop ps l"
  by (induction kvs arbitrary: ps) (auto simp: find_prop_set_other)

lemma find_prop_del_other: "lower k \<noteq> lower l \<Longrightarrow> find_prop (del_prop k ps) l = find_prop ps l"
  by (induction ps) (auto simp: find_prop_def equalsIgnoreCase_iff)

lemma find_prop_fold_del_other:
  "lower l \<notin> set (map lower ks) \<Longrightarrow> find_prop (fold del_prop ks ps) l = find_prop ps l"
  by (induction ks arbitrary: ps) (auto simp: find_prop_del_other)

lemma find_prop_lookup:
  "prop_lookup ps n = Some vs \<Longrightarrow> \<exists>k. lower k = lower n \<and> find_prop ps n = Some \<lparr>p_name = k, p_value = vs\<rparr>"
  "prop_lookup ps n = None \<longleftrightarrow> find_prop ps n = None"
  by (induction ps) (auto simp: find_prop_def equalsIgnoreCase_iff split: if_splits)

definition prop_reply :: "t_property list \<Rightarrow> string \<Rightarrow> string list" where
  "prop_reply ps n = (case find_prop ps n of Some p \<Rightarrow> reply_prop (p_name p) (p_value p) | None \<Rightarrow> [n, ''0'', '' ''])"

lemma get_device_property:
  assumes "search_device (m_server st) dev = Some i"
  shows "DbGetDeviceProperty (dev # ns) st =
    Ok (dev # dec (length ns) # concat (map (prop_reply (d_properties (s_heap (m_server st) ! i))) ns))"
proof -
  have *: "prop_reply ps = (\<lambda>n. case search_prop ps n of
      Some m \<Rightarrow> let p = ps ! m in reply_prop (p_name p) (p_value p) | None \<Rightarrow> [n, ''0'', '' ''])" for ps
    by (auto simp: prop_reply_def find_prop_search Let_def split: option.split)
  show ?thesis using assms by (simp add: DbGetDeviceProperty_def first_string_def vec_get_def * Let_def)
qed

section \<open>The server after a change of one device\<close>

lemma search_device_bound: "wf_server s \<Longrightarrow> search_device s dev = Some i \<Longrightarrow> i < length (s_heap s)"
  by (auto simp: search_device_def wf_server_def find_Some_iff)

abbreviation with_props :: "nat \<Rightarrow> t_property list \<Rightarrow> t_server \<Rightarrow> t_server" where
  "with_props i ps \<equiv> upd_device i (\<lambda>d. d\<lparr>d_properties := ps\<rparr>)"

lemma with_props_heap:
  "i < length (s_heap s) \<Longrightarrow> s_heap (with_props i ps s) = (s_heap s)[i := (s_heap s ! i)\<lparr>d_properties := ps\<rparr>]"
  by (simp add: upd_device_def update_nth_def)

lemma with_props_names:
  assumes "i < length (s_heap s)"
  shows "map d_name (s_heap (with_props i ps s)) = map d_name (s_heap s)"
  using assms by (auto simp: with_props_heap map_update intro!: list_update_same_conv [THEN iffD2])

lemma wf_with_props:
  assumes "wf_server s" "i < length (s_heap s)" "list_all wf_prop ps"
  shows "wf_server (with_props i ps s)"
proof -
  have "list_all wf_device (s_heap (with_props i ps s))"
    using assms by (auto simp: with_props_heap wf_server_def list_all_length nth_list_update wf_device_def)
  then show ?thesis using assms(1) with_props_names [OF assms(2), of ps] assms(2)
    by (auto simp: wf_server_def with_props_heap) (auto simp: upd_device_def)
qed

lemma search_device_with_props:
  assumes "wf_server s" "i < length (s_heap s)"
  shows "search_device (with_props i ps s) dev = search_device s dev"
proof -
  have "s_devices (with_props i ps s) = s_devices s" by (simp add: upd_device_def)
  moreover have "d_name (s_heap (with_props i ps s) ! k) = d_name (s_heap s ! k)" if "k < length (s_heap s)" for k
    using assms(2) that by (simp add: with_props_heap nth_list_update)
  ultimately show ?thesis using assms(1) by (auto simp: search_device_def wf_server_def intro!: find_cong)
qed

lemma save_wf:
  assumes "wf_server (m_server st)"
  shows "\<exists>st'. save st = (Ok (), st') \<and> m_server st' = m_server st \<and>
    FileDatabase_new (Some (db_file st')) = Ok (m_server st')"
proof -
  obtain t where "write_file (m_server st) = Ok t" "parse_res_file t = Ok ([], m_server st)"
    using write_read_back [OF assms] by blast
  then show ?thesis by (simp add: save_def FileDatabase_new_def)
qed

section \<open>Setting and deleting the properties of a device\<close>


text \<open>
  Properties that a client deletes are gone: the request succeeds, the file has the
  database of the memory, the deleted names are answered as unknown properties, and the
  answer for every other name is as before.
\<close>

theorem device_property_deleted:
  assumes "wf_server (m_server st)" "search_device (m_server st) dev = Some i"
    and "no_case_dup (map p_name (d_properties (s_heap (m_server st) ! i)))" "[] \<notin> set names"
  shows "\<exists>st'. DbDeleteDeviceProperty (dev # names) st = (Ok (), st') \<and>
    FileDatabase_new (Some (db_file st')) = Ok (m_server st') \<and>
    (\<forall>n. DbGetDeviceProperty [dev, n] st' =
      (if lower n \<in> set (map lower names) then Ok [dev, ''1'', n, ''0'', '' ''] else DbGetDeviceProperty [dev, n] st))"
proof -
  let ?s = "m_server st" and ?ps = "d_properties (s_heap (m_server st) ! i)"
  let ?qs = "fold del_prop names ?ps"
  have i: "i < length (s_heap ?s)" by (rule search_device_bound [OF assms(1,2)])
  have "list_all wf_prop ?ps" using assms(1) i by (auto simp: wf_server_def list_all_length wf_device_def)
  then have wf: "wf_server (with_props i ?qs ?s)" using wf_with_props [OF assms(1) i] wf_prop_fold_del by blast
  obtain st' where st': "save (upd_server (with_props i ?qs) st) = (Ok (), st')" "m_server st' = with_props i ?qs ?s"
      "FileDatabase_new (Some (db_file st')) = Ok (m_server st')"
    using save_wf [of "upd_server (with_props i ?qs) st"] wf by (auto simp: upd_server_def)
  have "upd_device i (\<lambda>d. d\<lparr>d_properties := del_props names (d_properties d)\<rparr>) ?s = with_props i ?qs ?s"
    by (simp add: upd_device_def update_nth_def del_props_fold)
  then have del: "DbDeleteDeviceProperty (dev # names) st = (Ok (), st')"
    using assms(2) st'(1) by (simp add: DbDeleteDeviceProperty_def first_string_def vec_get_def upd_server_def)
  have ps: "d_properties (s_heap (m_server st') ! i) = ?qs" using i by (simp add: st'(2) with_props_heap)
  have dev: "search_device (m_server st') dev = Some i"
    using assms(2) search_device_with_props [OF assms(1) i] by (simp add: st'(2))
  have "find_prop ?qs n = (if lower n \<in> set (map lower names) then None else find_prop ?ps n)" for n
  proof -
    have "\<forall>k \<in> set names. k \<noteq> []" using assms(4) by auto
    then show ?thesis
      using props.lookup_fold_remove [OF assms(3), of names n] find_prop_lookup(2) [of ?qs n] find_prop_fold_del_other
      by (cases "lower n \<in> set (map lower names)") simp_all
  qed
  then have "DbGetDeviceProperty [dev, n] st' =
      (if lower n \<in> set (map lower names) then Ok [dev, ''1'', n, ''0'', '' ''] else DbGetDeviceProperty [dev, n] st)" for n
    by (auto simp: get_device_property [OF dev] get_device_property [OF assms(2)] ps prop_reply_def dec_literals)
  then show ?thesis using del st'(3) by blast
qed

lemma scan_literals: "scan_u k ''1'' = 1" "scan_u k ''2'' = 2"
  using scan_dec(1) [of 1 k] scan_dec(1) [of 2 k] by (simp_all add: dec_literals)

text \<open>
  A request that sets two properties of an attribute, both stored in the same order,
  and then one property of another attribute to a text that is not a number, is undefined:
  the loop over the stored properties goes on after the first match and takes the second
  property as well, the second turn then reads the name of the other attribute as a
  property, and the rest of the request as an attribute whose number of properties is the
  text.
\<close>

theorem put_attr_props_misread:
  assumes "ap_name a \<noteq> []" "ap_properties a = [p, q]" "p_name p \<noteq> []" "p_name q \<noteq> []"
    and "lower (p_name p) \<noteq> lower b" "lower (p_name q) \<noteq> lower b" "scan6 u = None"
  shows "put_attr_request [''2'', ap_name a, ''2'', p_name p, ''1'', v, p_name q, ''1'', w, b, ''1'', n, ''1'', u] [a] = Undef"
proof -
  have "search_attr_prop [a] (ap_name a) = Some 0"
    using assms(1) by (simp add: search_attr_prop_def equalsIgnoreCase_iff)
  moreover have "put_attr_props (Suc k) nv [] ps = Undef" for k nv ps by (cases ps) simp_all
  moreover have "scan_u k u = k" for k using assms(7) by (simp add: scan_u_def)
  ultimately show ?thesis
    using assms(2-6) by (simp add: put_attr_request_def scan_literals equalsIgnoreCase_iff update_nth_def numeral_2_eq_2
        Let_def split: option.split)
qed

section \<open>Examples\<close>

definition ex_filedb :: FileDb where
  "ex_filedb = \<lparr>m_server = ex_db, db_file = [], db_filename = ''lab.res''\<rparr>"

lemma ex_filedb_server: "m_server ex_filedb = ex_db" "wf_server ex_db" "search_device ex_db ''A/B/1'' = Some 0"
  "s_heap ex_db ! 0 = hd (s_heap ex_db)" "d_properties (hd (s_heap ex_db)) = [ex_prop ''host'' [''say \"hi\"'', ''b'']]"
  by (simp add: ex_filedb_def) code_simp+


theorem device_property_deleted_witness:
  "\<exists>st'. DbDeleteDeviceProperty [''a/b/1'', ''HOST''] ex_filedb = (Ok (), st') \<and>
    FileDatabase_new (Some (db_file st')) = Ok (m_server st') \<and>
    DbGetDeviceProperty [''a/b/1'', ''host''] st' = Ok [''a/b/1'', ''1'', ''host'', ''0'', '' '']"
proof -
  have "search_device ex_db ''a/b/1'' = Some 0" "no_case_dup [''host'']" "lower ''host'' = lower ''HOST''" by code_simp+
  then show ?thesis
    using device_property_deleted [of ex_filedb "''a/b/1''" 0 "[''HOST'']"] ex_filedb_server
    by (auto simp: ex_prop_def)
qed

theorem put_attr_props_misread_witness:
  "put_attr_request [''2'', ''speed'', ''2'', ''min'', ''1'', ''3'', ''max'', ''1'', ''4'', ''pos'', ''1'', ''unit'', ''1'', ''mm'']
    [\<lparr>ap_name = ''speed'', ap_properties = [ex_prop ''min'' [''1''], ex_prop ''max'' [''5'']]\<rparr>] = Undef"
proof -
  have "lower ''min'' \<noteq> lower ''pos''" "lower ''max'' \<noteq> lower ''pos''" "scan6 ''mm'' = None" by code_simp+
  then show ?thesis
    using put_attr_props_misread [of "\<lparr>ap_name = ''speed'', ap_properties = [ex_prop ''min'' [''1''], ex_prop ''max'' [''5'']]\<rparr>"
        "ex_prop ''min'' [''1'']" "ex_prop ''max'' [''5'']" "''pos''" "''mm''" "''3''" "''4''" "''unit''"]
    by (simp add: ex_prop_def)
qed

end
