(* ===== verification/Attr_Limits.thy ===== *)
theory Attr_Limits
  imports Event_Change Cmd_History
begin

text \<open>
  The limits of an attribute: the two alarm levels, the two warning levels
  (\<open>attribute.cpp\<close>) and the two bounds of written values (\<open>w_attribute.cpp\<close>), with the
  helpers of \<open>attribute_utils.cpp\<close>. Each limit has a setter that takes a typed value, one
  that takes a text, and a getter. The source repeats the three functions for each limit;
  here they are written once, with the limit as an argument.
\<close>

section \<open>Typed values\<close>

text \<open>
  A value of one of the types of the interface, and the type that
  \<open>tango_type_traits\<close> gives for it. States are their numbers.
\<close>

datatype 'f tval =
    V_BOOLEAN bool
  | V_UCHAR "8 word"
  | V_SHORT "16 word"
  | V_USHORT "16 word"
  | V_LONG "32 word"
  | V_ULONG "32 word"
  | V_LONG64 "64 word"
  | V_ULONG64 "64 word"
  | V_FLOAT 'f
  | V_DOUBLE 'f
  | V_STATE nat
  | V_STRING string
  | V_ENCODED string "8 word list"

fun type_value :: "'f tval \<Rightarrow> CmdArgType" where
  "type_value (V_BOOLEAN b) = DEV_BOOLEAN"
| "type_value (V_UCHAR w) = DEV_UCHAR"
| "type_value (V_SHORT w) = DEV_SHORT"
| "type_value (V_USHORT w) = DEV_USHORT"
| "type_value (V_LONG w) = DEV_LONG"
| "type_value (V_ULONG w) = DEV_ULONG"
| "type_value (V_LONG64 w) = DEV_LONG64"
| "type_value (V_ULONG64 w) = DEV_ULONG64"
| "type_value (V_FLOAT f) = DEV_FLOAT"
| "type_value (V_DOUBLE f) = DEV_DOUBLE"
| "type_value (V_STATE n) = DEV_STATE"
| "type_value (V_STRING s) = DEV_STRING"
| "type_value (V_ENCODED f d) = DEV_ENCODED"

text \<open>
  The union \<open>Attr_CheckVal\<close> holds the value written last. Comparing it as another type is
  undefined, and so is comparing values without an order.
\<close>

fun tv_int :: "'f tval \<Rightarrow> int option" where
  "tv_int (V_UCHAR w) = Some (uint w)"
| "tv_int (V_SHORT w) = Some (sint w)"
| "tv_int (V_USHORT w) = Some (uint w)"
| "tv_int (V_LONG w) = Some (sint w)"
| "tv_int (V_ULONG w) = Some (uint w)"
| "tv_int (V_LONG64 w) = Some (sint w)"
| "tv_int (V_ULONG64 w) = Some (uint w)"
| "tv_int _ = None"

definition tv_le :: "'f arith \<Rightarrow> 'f tval \<Rightarrow> 'f tval \<Rightarrow> bool result" where
  "tv_le A x y =
    (if type_value x \<noteq> type_value y then Undef
     else case (tv_int x, tv_int y) of
         (Some i, Some j) \<Rightarrow> Ok (i \<le> j)
       | _ \<Rightarrow>
           (case x of
              V_FLOAT a \<Rightarrow> (case y of V_FLOAT b \<Rightarrow> Ok (fp_le (sgl A) a b) | _ \<Rightarrow> Undef)
            | V_DOUBLE a \<Rightarrow> (case y of V_DOUBLE b \<Rightarrow> Ok (fp_le (dbl A) a b) | _ \<Rightarrow> Undef)
            | _ \<Rightarrow> Undef))"

text \<open>
  Output and input of numbers. Reading a number from a text (the whole text), writing a
  floating-point number, its integral part and its sign are parameters.
\<close>

record 'f text_io =
  read_dbl :: "string \<Rightarrow> 'f option"
  read_flt :: "string \<Rightarrow> 'f option"
  show_dbl :: "'f \<Rightarrow> string"
  show_flt :: "'f \<Rightarrow> string"
  integral :: "'f \<Rightarrow> int option"
  negative :: "'f \<Rightarrow> bool"
  negate :: "'f \<Rightarrow> 'f"

definition int_text :: "int \<Rightarrow> string" where
  "int_text i = (if i < 0 then CHR ''-'' # dec (nat (- i)) else dec (nat i))"

definition tv_text :: "'f text_io \<Rightarrow> 'f tval \<Rightarrow> string" where
  "tv_text T v =
    (case v of
       V_FLOAT f \<Rightarrow> show_flt T f
     | V_DOUBLE f \<Rightarrow> show_dbl T f
     | _ \<Rightarrow> (case tv_int v of Some i \<Rightarrow> int_text i | None \<Rightarrow> []))"


section \<open>Limits\<close>

datatype limit = Min_alarm | Max_alarm | Min_warning | Max_warning | Min_value | Max_value

fun limit_name :: "limit \<Rightarrow> string" where
  "limit_name Min_alarm = ''min_alarm''"
| "limit_name Max_alarm = ''max_alarm''"
| "limit_name Min_warning = ''min_warning''"
| "limit_name Max_warning = ''max_warning''"
| "limit_name Min_value = ''min_value''"
| "limit_name Max_value = ''max_value''"

fun opposite :: "limit \<Rightarrow> limit" where
  "opposite Min_alarm = Max_alarm"
| "opposite Max_alarm = Min_alarm"
| "opposite Min_warning = Max_warning"
| "opposite Max_warning = Min_warning"
| "opposite Min_value = Max_value"
| "opposite Max_value = Min_value"

definition is_lower :: "limit \<Rightarrow> bool" where
  "is_lower l \<longleftrightarrow> l = Min_alarm \<or> l = Min_warning \<or> l = Min_value"

definition is_bound :: "limit \<Rightarrow> bool" where
  "is_bound l \<longleftrightarrow> l = Min_value \<or> l = Max_value"

text \<open>
  An answer of the database: done, the loss of the connection, after which the call is
  made again, a failure that it reports, or another exception of the transport.
\<close>

datatype db_answer = Answered | Comm_failure | Db_failed | Db_exception

text \<open>
  The members of an attribute that the limits use. \<open>la_set\<close> stands for the bits of
  \<open>alarm_conf\<close> and for \<open>check_min_value\<close> and \<open>check_max_value\<close>; \<open>la_startup\<close> has the names
  in \<open>startup_exceptions\<close>. The database is the properties stored for the attribute and the
  answers that are to come; without further answers it works.
\<close>

record 'f lim_attr =
  la_data_type :: CmdArgType
  la_val :: "limit \<Rightarrow> 'f tval option"
  la_str :: "limit \<Rightarrow> string"
  la_set :: "limit \<Rightarrow> bool"
  la_startup :: "string list"
  la_check_startup :: bool
  la_run_loop :: bool
  la_conf_events :: nat
  la_db :: "string \<Rightarrow> string list option"
  la_answers :: "db_answer list"

text \<open>
  The surroundings: whether the server or the device is starting, whether there is a
  database, the default properties of the user and of the class.
\<close>

record 'f lim_env =
  le_starting :: bool
  le_use_db :: bool
  le_user :: "(string \<times> string) list"
  le_class :: "(string \<times> string) list"
  le_arith :: "'f arith"
  le_text :: "'f text_io"

type_synonym 'f lim_op = "'f lim_attr \<Rightarrow> unit result \<times> 'f lim_attr"

definition prop_in_list :: "string \<Rightarrow> (string \<times> string) list \<Rightarrow> string option" where
  "prop_in_list n ps = map_option snd (find (\<lambda>p. fst p = n) ps)"

definition throw_err_data_type :: "limit \<Rightarrow> 'a result" where
  "throw_err_data_type l = Throw (DevFailed ''API_AttrOptProp''
    (''The property '' @ limit_name l @ '' is not settable for the attribute data type''))"

definition throw_incoherent_val_err :: "string \<Rightarrow> string \<Rightarrow> 'a result" where
  "throw_incoherent_val_err mn mx = Throw (DevFailed ''API_IncoherentValues''
    (''Value of '' @ mn @ '' is greater than or equal to '' @ mx))"

definition throw_err_format :: "limit \<Rightarrow> 'a result" where
  "throw_err_format l = Throw (DevFailed ''API_AttrOptProp''
    (''The property '' @ limit_name l @ '' is defined in an unsupported format''))"

definition throw_incompatible :: "'a result" where
  "throw_incompatible = Throw (DevFailed ''API_IncompatibleAttrDataType'' ''data type does not match the type provided'')"


section \<open>The database\<close>

text \<open>
  A call is repeated as long as the connection is lost.
\<close>

fun db_call :: "db_answer list \<Rightarrow> unit result \<times> db_answer list" where
  "db_call [] = (Ok (), [])"
| "db_call (Answered # as) = (Ok (), as)"
| "db_call (Comm_failure # as) = db_call as"
| "db_call (Db_failed # as) = (Throw (DevFailed ''API_DatabaseAccess'' ''database''), as)"
| "db_call (Db_exception # as) = (Throw CORBA_exception, as)"

definition db_write :: "string \<Rightarrow> string list option \<Rightarrow> 'f lim_op" where
  "db_write name v a =
    (case db_call (la_answers a) of
       (Ok _, as) \<Rightarrow> (Ok (), a\<lparr>la_answers := as, la_db := (la_db a)(name := v)\<rparr>)
     | (Throw e, as) \<Rightarrow> (Throw e, a\<lparr>la_answers := as\<rparr>)
     | (Undef, as) \<Rightarrow> (Undef, a))"

text \<open>
  The text that is stored depends on the type of the attribute; for an encoded attribute
  there is no case, and the property is stored without a value.
\<close>

definition upd_att_prop_db :: "'f lim_env \<Rightarrow> limit \<Rightarrow> 'f tval \<Rightarrow> 'f lim_op" where
  "upd_att_prop_db E l v a =
    db_write (limit_name l) (Some (if la_data_type a = DEV_ENCODED then [] else [tv_text (le_text E) v])) a"

definition AlrmValueNotSpec :: string where
  "AlrmValueNotSpec = ''Not specified''"

definition NotANumber :: string where
  "NotANumber = ''NaN''"

definition avns_in_db :: "'f lim_env \<Rightarrow> limit \<Rightarrow> 'f lim_op" where
  "avns_in_db E l a = (if le_use_db E then db_write (limit_name l) (Some [AlrmValueNotSpec]) a else (Ok (), a))"

definition push_att_conf_event :: "'f lim_env \<Rightarrow> 'f lim_attr \<Rightarrow> 'f lim_attr" where
  "push_att_conf_event E a = (if le_starting E then a else a\<lparr>la_conf_events := la_conf_events a + 1\<rparr>)"

text \<open>
  The flag that is cleared is that of a bound; for the alarm and warning levels the
  setters pass a variable that is not used.
\<close>

definition avns_in_att :: "'f lim_env \<Rightarrow> limit \<Rightarrow> 'f lim_attr \<Rightarrow> 'f lim_attr" where
  "avns_in_att E l a =
    push_att_conf_event E (a\<lparr>la_set := (if is_bound l then (la_set a)(l := False) else la_set a),
      la_str := (la_str a)(l := AlrmValueNotSpec)\<rparr>)"

definition delete_startup_exception :: "'f lim_env \<Rightarrow> string \<Rightarrow> 'f lim_attr \<Rightarrow> 'f lim_attr" where
  "delete_startup_exception E name a =
    (if la_check_startup a
     then let names = filter (\<lambda>n. n \<noteq> name) (la_startup a) in
       a\<lparr>la_startup := names, la_check_startup := (names \<noteq> []), la_run_loop := (\<not> le_starting E \<or> la_run_loop a)\<rparr>
     else a)"


section \<open>Setting a limit to a value\<close>

definition no_limit_type :: "limit \<Rightarrow> CmdArgType \<Rightarrow> bool" where
  "no_limit_type l t \<longleftrightarrow> t = DEV_STRING \<or> t = DEV_BOOLEAN \<or> t = DEV_STATE \<or> t = DEV_ENUM \<and> \<not> is_bound l"

definition type_matches :: "CmdArgType \<Rightarrow> CmdArgType \<Rightarrow> bool" where
  "type_matches dt t \<longleftrightarrow> dt = DEV_ENCODED \<and> t = DEV_UCHAR \<or> dt = t"

definition check_limit_type :: "limit \<Rightarrow> 'f tval \<Rightarrow> 'f lim_attr \<Rightarrow> unit result" where
  "check_limit_type l v a =
    (if no_limit_type l (la_data_type a) then throw_err_data_type l
     else if \<not> type_matches (la_data_type a) (type_value v) then throw_incompatible
     else Ok ())"

definition check_coherence :: "'f lim_env \<Rightarrow> limit \<Rightarrow> 'f tval \<Rightarrow> 'f lim_attr \<Rightarrow> unit result" where
  "check_coherence E l v a =
    (if la_set a (opposite l)
     then case la_val a (opposite l) of
         None \<Rightarrow> Undef
       | Some u \<Rightarrow>
           rbind (if is_lower l then tv_le (le_arith E) u v else tv_le (le_arith E) v u) (\<lambda>bad.
             if bad
             then (if is_lower l then throw_incoherent_val_err (limit_name l) (limit_name (opposite l))
                   else throw_incoherent_val_err (limit_name (opposite l)) (limit_name l))
             else Ok ())
     else Ok ())"

text \<open>
  The database: a value that is the default of the user is deleted, another one is
  stored. Only a failure to store that the database reports takes the value back.
\<close>

definition update_db :: "'f lim_env \<Rightarrow> limit \<Rightarrow> 'f tval \<Rightarrow> 'f tval option \<Rightarrow> 'f lim_op" where
  "update_db E l v old a =
    (if \<not> le_use_db E then (Ok (), a)
     else if prop_in_list (limit_name l) (le_user E) = Some (tv_text (le_text E) v)
     then db_write (limit_name l) None a
     else case upd_att_prop_db E l v a of
         (Throw (DevFailed r d), a1) \<Rightarrow> (Throw (DevFailed r d), a1\<lparr>la_val := (la_val a1)(l := old)\<rparr>)
       | other \<Rightarrow> other)"

definition set_limit :: "'f lim_env \<Rightarrow> limit \<Rightarrow> 'f tval \<Rightarrow> 'f lim_op" where
  "set_limit E l v a =
    (if type_value v = DEV_ENCODED
     then (Throw (DevFailed ''API_MethodArgument'' ''Attribute properties cannot be set with Tango::DevEncoded data type''), a)
     else sbind (check_limit_type l v a, a) (\<lambda>_ a.
          sbind (check_coherence E l v a, a) (\<lambda>_ a.
          sbind (update_db E l v (la_val a l) (a\<lparr>la_val := (la_val a)(l := Some v)\<rparr>)) (\<lambda>_ a.
            (Ok (), delete_startup_exception E (limit_name l) (push_att_conf_event E
              (a\<lparr>la_set := (la_set a)(l := True), la_str := (la_str a)(l := tv_text (le_text E) v)\<rparr>)))))))"

section \<open>Setting a limit from a text\<close>

definition same_text :: "string \<Rightarrow> string \<Rightarrow> bool" where
  "same_text s t \<longleftrightarrow> lower s = lower t"

datatype choice = Not_specified | Text string

text \<open>
  What the text stands for: the special words and the empty text ask for the default of
  the class or of the user, or for no limit.
\<close>

definition choose_text :: "'f lim_env \<Rightarrow> limit \<Rightarrow> string \<Rightarrow> choice" where
  "choose_text E l new =
    (let user = prop_in_list (limit_name l) (le_user E) in
     case prop_in_list (limit_name l) (le_class E) of
       Some c \<Rightarrow>
         if same_text new AlrmValueNotSpec then Not_specified
         else if same_text new NotANumber \<or> same_text new c then Text c
         else if new = [] then (case user of Some u \<Rightarrow> Text u | None \<Rightarrow> Not_specified)
         else Text new
     | None \<Rightarrow>
         (case user of
            Some u \<Rightarrow>
              if same_text new AlrmValueNotSpec then Not_specified
              else if same_text new NotANumber \<or> same_text new u \<or> new = [] then Text u
              else Text new
          | None \<Rightarrow>
              if same_text new AlrmValueNotSpec \<or> same_text new NotANumber \<or> new = [] then Not_specified
              else Text new))"

text \<open>
  Conversion of a floating-point number to an integer type is undefined if the integral
  part does not fit.
\<close>

definition conv_signed :: "nat \<Rightarrow> int option \<Rightarrow> int result" where
  "conv_signed w n = (case n of Some i \<Rightarrow> if - (2 ^ (w - 1)) \<le> i \<and> i < 2 ^ (w - 1) then Ok i else Undef | None \<Rightarrow> Undef)"

definition conv_unsigned :: "nat \<Rightarrow> int option \<Rightarrow> int result" where
  "conv_unsigned w n = (case n of Some i \<Rightarrow> if 0 \<le> i \<and> i < 2 ^ w then Ok i else Undef | None \<Rightarrow> Undef)"

definition format_error :: "limit \<Rightarrow> 'a result" where
  "format_error l = (if l = Max_value then throw_err_data_type l else throw_err_format l)"

definition read_limit :: "'f text_io \<Rightarrow> limit \<Rightarrow> CmdArgType \<Rightarrow> string \<Rightarrow> 'f tval option result" where
  "read_limit T l dt s =
    (let dbl = (\<lambda>f. case read_dbl T s of Some d \<Rightarrow> f d | None \<Rightarrow> format_error l);
         signed = (\<lambda>w c. dbl (\<lambda>d. rbind (conv_signed w (integral T d)) (\<lambda>i. Ok (Some (c i)))));
         unsigned = (\<lambda>w c. dbl (\<lambda>d. rbind (conv_unsigned w (integral T (if negative T d then negate T d else d)))
           (\<lambda>i. Ok (Some (c i)))))
     in if dt = DEV_SHORT then signed 16 (\<lambda>i. V_SHORT (word_of_int i))
        else if dt = DEV_LONG then signed 32 (\<lambda>i. V_LONG (word_of_int i))
        else if dt = DEV_LONG64 then signed 64 (\<lambda>i. V_LONG64 (word_of_int i))
        else if dt = DEV_DOUBLE then dbl (\<lambda>d. Ok (Some (V_DOUBLE d)))
        else if dt = DEV_FLOAT
        then (case read_flt T s of Some f \<Rightarrow> Ok (Some (V_FLOAT f)) | None \<Rightarrow> format_error l)
        else if dt = DEV_USHORT then unsigned 16 (\<lambda>i. V_USHORT (word_of_int i))
        else if dt = DEV_UCHAR then unsigned 8 (\<lambda>i. V_UCHAR (word_of_int i))
        else if dt = DEV_ULONG then unsigned 32 (\<lambda>i. V_ULONG (word_of_int i))
        else if dt = DEV_ULONG64 then unsigned 64 (\<lambda>i. V_ULONG64 (word_of_int i))
        else if dt = DEV_ENCODED then unsigned 8 (\<lambda>i. V_UCHAR (word_of_int i))
        else Ok None)"

definition set_limit_str :: "'f lim_env \<Rightarrow> limit \<Rightarrow> string \<Rightarrow> 'f lim_op" where
  "set_limit_str E l new a =
    (let dt = la_data_type a; never = (dt = DEV_STRING \<or> dt = DEV_BOOLEAN \<or> dt = DEV_STATE) in
     if never \<or> dt = DEV_ENUM \<and> l = Min_value then (throw_err_data_type l, a)
     else case choose_text E l new of
         Not_specified \<Rightarrow> sbind (avns_in_db E l a) (\<lambda>_ a. (Ok (), avns_in_att E l a))
       | Text s \<Rightarrow>
           if never \<or> dt = DEV_ENUM then (throw_err_data_type l, a)
           else sbind (read_limit (le_text E) l dt s, a) (\<lambda>v a.
             case v of Some v \<Rightarrow> set_limit E l v a | None \<Rightarrow> (Ok (), a)))"


section \<open>Reading a limit\<close>

definition get_limit :: "limit \<Rightarrow> CmdArgType \<Rightarrow> 'f lim_attr \<Rightarrow> 'f tval result" where
  "get_limit l t a =
    (if \<not> type_matches (la_data_type a) t then throw_incompatible
     else if \<not> is_bound l \<and> no_limit_type l (la_data_type a)
     then Throw (DevFailed ''API_AttrOptProp'' (limit_name l @ '' has no meaning for the attribute's data type''))
     else if \<not> la_set a l then Throw (DevFailed ''API_AttrNotAllowed'' (limit_name l @ '' not defined for this attribute''))
     else case la_val a l of
         Some v \<Rightarrow> if type_value v = t then Ok v else Undef
       | None \<Rightarrow> Undef)"


section \<open>The functions of the source\<close>

definition set_min_alarm :: "'f lim_env \<Rightarrow> 'f tval \<Rightarrow> 'f lim_op" where
  "set_min_alarm E = set_limit E Min_alarm"

definition set_min_alarm_str :: "'f lim_env \<Rightarrow> string \<Rightarrow> 'f lim_op" where
  "set_min_alarm_str E = set_limit_str E Min_alarm"

definition get_min_alarm :: "CmdArgType \<Rightarrow> 'f lim_attr \<Rightarrow> 'f tval result" where
  "get_min_alarm = get_limit Min_alarm"

definition set_max_alarm :: "'f lim_env \<Rightarrow> 'f tval \<Rightarrow> 'f lim_op" where
  "set_max_alarm E = set_limit E Max_alarm"

definition set_max_alarm_str :: "'f lim_env \<Rightarrow> string \<Rightarrow> 'f lim_op" where
  "set_max_alarm_str E = set_limit_str E Max_alarm"

definition get_max_alarm :: "CmdArgType \<Rightarrow> 'f lim_attr \<Rightarrow> 'f tval result" where
  "get_max_alarm = get_limit Max_alarm"

definition set_min_warning :: "'f lim_env \<Rightarrow> 'f tval \<Rightarrow> 'f lim_op" where
  "set_min_warning E = set_limit E Min_warning"

definition set_min_warning_str :: "'f lim_env \<Rightarrow> string \<Rightarrow> 'f lim_op" where
  "set_min_warning_str E = set_limit_str E Min_warning"

definition get_min_warning :: "CmdArgType \<Rightarrow> 'f lim_attr \<Rightarrow> 'f tval result" where
  "get_min_warning = get_limit Min_warning"

definition set_max_warning :: "'f lim_env \<Rightarrow> 'f tval \<Rightarrow> 'f lim_op" where
  "set_max_warning E = set_limit E Max_warning"

definition set_max_warning_str :: "'f lim_env \<Rightarrow> string \<Rightarrow> 'f lim_op" where
  "set_max_warning_str E = set_limit_str E Max_warning"

definition get_max_warning :: "CmdArgType \<Rightarrow> 'f lim_attr \<Rightarrow> 'f tval result" where
  "get_max_warning = get_limit Max_warning"

definition set_min_value :: "'f lim_env \<Rightarrow> 'f tval \<Rightarrow> 'f lim_op" where
  "set_min_value E = set_limit E Min_value"

definition set_min_value_str :: "'f lim_env \<Rightarrow> string \<Rightarrow> 'f lim_op" where
  "set_min_value_str E = set_limit_str E Min_value"

definition get_min_value :: "CmdArgType \<Rightarrow> 'f lim_attr \<Rightarrow> 'f tval result" where
  "get_min_value = get_limit Min_value"

definition set_max_value :: "'f lim_env \<Rightarrow> 'f tval \<Rightarrow> 'f lim_op" where
  "set_max_value E = set_limit E Max_value"

definition set_max_value_str :: "'f lim_env \<Rightarrow> string \<Rightarrow> 'f lim_op" where
  "set_max_value_str E = set_limit_str E Max_value"

definition get_max_value :: "CmdArgType \<Rightarrow> 'f lim_attr \<Rightarrow> 'f tval result" where
  "get_max_value = get_limit Max_value"

text \<open>
  A request to set a limit, by a value or by a text.
\<close>

datatype 'f lim_req = By_value limit "'f tval" | By_text limit string

fun lim_exec :: "'f lim_env \<Rightarrow> 'f lim_req \<Rightarrow> 'f lim_op" where
  "lim_exec E (By_value Min_alarm v) = set_min_alarm E v"
| "lim_exec E (By_value Max_alarm v) = set_max_alarm E v"
| "lim_exec E (By_value Min_warning v) = set_min_warning E v"
| "lim_exec E (By_value Max_warning v) = set_max_warning E v"
| "lim_exec E (By_value Min_value v) = set_min_value E v"
| "lim_exec E (By_value Max_value v) = set_max_value E v"
| "lim_exec E (By_text Min_alarm s) = set_min_alarm_str E s"
| "lim_exec E (By_text Max_alarm s) = set_max_alarm_str E s"
| "lim_exec E (By_text Min_warning s) = set_min_warning_str E s"
| "lim_exec E (By_text Max_warning s) = set_max_warning_str E s"
| "lim_exec E (By_text Min_value s) = set_min_value_str E s"
| "lim_exec E (By_text Max_value s) = set_max_value_str E s"

lemma lim_exec_value: "lim_exec E (By_value l v) = set_limit E l v"
  by (cases l) (simp_all add: set_min_alarm_def set_max_alarm_def set_min_warning_def set_max_warning_def
      set_min_value_def set_max_value_def)

lemma lim_exec_text: "lim_exec E (By_text l s) = set_limit_str E l s"
  by (cases l) (simp_all add: set_min_alarm_str_def set_max_alarm_str_def set_min_warning_str_def
      set_max_warning_str_def set_min_value_str_def set_max_value_str_def)


section \<open>Well-typed limits\<close>

lemma opposite_simps [simp]:
  "opposite (opposite l) = l" "opposite l \<noteq> l" "l \<noteq> opposite l" "is_lower (opposite l) \<longleftrightarrow> \<not> is_lower l"
  by (cases l; simp add: is_lower_def)+

text \<open>
  Types whose values have an order, and the type of the limits of an attribute.
\<close>

definition numeric :: "'f tval \<Rightarrow> bool" where
  "numeric v \<longleftrightarrow> type_value v \<notin> {DEV_BOOLEAN, DEV_STATE, DEV_STRING, DEV_ENCODED}"

definition lim_type :: "CmdArgType \<Rightarrow> CmdArgType" where
  "lim_type dt = (if dt = DEV_ENCODED then DEV_UCHAR else dt)"

lemma tv_le_defined: "numeric u \<Longrightarrow> type_value u = type_value v \<Longrightarrow> \<exists>b. tv_le A u v = Ok b"
  by (cases u; cases v) (simp_all add: numeric_def tv_le_def)

text \<open>
  Limits that are set have a value of the type of the attribute, and a lower limit is
  not above or equal to the upper one.
\<close>

definition wf_limits :: "'f arith \<Rightarrow> 'f lim_attr \<Rightarrow> bool" where
  "wf_limits A a \<longleftrightarrow>
    (\<forall>l v. la_val a l = Some v \<longrightarrow> numeric v \<and> type_value v = lim_type (la_data_type a)) \<and>
    (\<forall>l. la_set a l \<longrightarrow> la_val a l \<noteq> None) \<and>
    (\<forall>l u v. is_lower l \<and> la_set a l \<and> la_set a (opposite l) \<and> la_val a l = Some u \<and> la_val a (opposite l) = Some v \<longrightarrow>
      tv_le A v u = Ok False)"

lemma wf_limitsD:
  assumes "wf_limits A a"
  shows "la_val a l = Some v \<Longrightarrow> numeric v" "la_val a l = Some v \<Longrightarrow> type_value v = lim_type (la_data_type a)"
    "la_set a l \<Longrightarrow> \<exists>v. la_val a l = Some v"
    "is_lower l \<Longrightarrow> la_set a l \<Longrightarrow> la_set a (opposite l) \<Longrightarrow> la_val a l = Some u \<Longrightarrow> la_val a (opposite l) = Some v \<Longrightarrow>
      tv_le A v u = Ok False"
  using assms unfolding wf_limits_def by auto

text \<open>
  The order of the pair of a limit, whichever of the two is the lower one.
\<close>

definition ordered :: "'f arith \<Rightarrow> limit \<Rightarrow> 'f tval \<Rightarrow> 'f tval \<Rightarrow> bool" where
  "ordered A l v u \<longleftrightarrow> (if is_lower l then tv_le A u v else tv_le A v u) = Ok False"

lemma check_limit_type_Ok:
  assumes "check_limit_type l v a = Ok ()" "type_value v \<noteq> DEV_ENCODED"
  shows "numeric v" "type_value v = lim_type (la_data_type a)"
  using assms
  by (auto simp: check_limit_type_def throw_err_data_type_def throw_incompatible_def no_limit_type_def
      type_matches_def numeric_def lim_type_def split: if_splits)

lemma check_limit_type_not_Undef: "check_limit_type l v a \<noteq> Undef"
  by (simp add: check_limit_type_def throw_err_data_type_def throw_incompatible_def)

lemma check_coherence_Ok:
  assumes "check_coherence E l v a = Ok ()" "la_set a (opposite l)" "la_val a (opposite l) = Some u"
  shows "ordered (le_arith E) l v u"
  using assms
  by (auto simp: check_coherence_def ordered_def throw_incoherent_val_err_def result_simps split: if_splits)

lemma check_coherence_not_Undef:
  assumes "wf_limits (le_arith E) a" "numeric v" "type_value v = lim_type (la_data_type a)"
  shows "check_coherence E l v a \<noteq> Undef"
proof (cases "la_set a (opposite l)")
  case True
  then obtain u where u: "la_val a (opposite l) = Some u" using wf_limitsD(3) [OF assms(1)] by blast
  have t: "numeric u" "type_value u = type_value v"
    using wf_limitsD(1,2) [OF assms(1) u] assms(3) by simp_all
  obtain b c where "tv_le (le_arith E) u v = Ok b" "tv_le (le_arith E) v u = Ok c"
    using tv_le_defined [OF t] tv_le_defined [OF assms(2) t(2) [symmetric]] by blast
  then show ?thesis using True u by (simp add: check_coherence_def throw_incoherent_val_err_def)
qed (simp add: check_coherence_def)

lemma db_call_not_Undef: "fst (db_call as) \<noteq> Undef"
  by (induction as rule: db_call.induct) simp_all

text \<open>
  What the database calls and the messages leave alone.
\<close>

definition same_limits :: "'f lim_attr \<Rightarrow> 'f lim_attr \<Rightarrow> bool" where
  "same_limits a b \<longleftrightarrow> la_data_type b = la_data_type a \<and> la_val b = la_val a \<and> la_set b = la_set a \<and> la_str b = la_str a"

lemma same_limits_refl [simp]: "same_limits a a"
  by (simp add: same_limits_def)

lemma db_write_same:
  shows "same_limits a (snd (db_write n v a))" "fst (db_write n v a) \<noteq> Undef"
proof -
  obtain r as where r: "db_call (la_answers a) = (r, as)" by fastforce
  then have "r \<noteq> Undef" using db_call_not_Undef [of "la_answers a"] by simp
  then have "same_limits a (snd (db_write n v a)) \<and> fst (db_write n v a) \<noteq> Undef"
    unfolding db_write_def r by (cases r) (simp_all add: same_limits_def)
  then show "same_limits a (snd (db_write n v a))" "fst (db_write n v a) \<noteq> Undef" by simp_all
qed

lemma avns_in_db_same: "same_limits a (snd (avns_in_db E l a))" "fst (avns_in_db E l a) \<noteq> Undef"
  by (simp_all add: avns_in_db_def db_write_same)

lemma wf_same_limits: "same_limits a b \<Longrightarrow> wf_limits A b \<longleftrightarrow> wf_limits A a"
  by (simp add: same_limits_def wf_limits_def)

lemma message_fields [simp]:
  "la_data_type (push_att_conf_event E a) = la_data_type a" "la_val (push_att_conf_event E a) = la_val a"
  "la_set (push_att_conf_event E a) = la_set a" "la_str (push_att_conf_event E a) = la_str a"
  "la_db (push_att_conf_event E a) = la_db a"
  "la_data_type (delete_startup_exception E n a) = la_data_type a" "la_val (delete_startup_exception E n a) = la_val a"
  "la_set (delete_startup_exception E n a) = la_set a" "la_str (delete_startup_exception E n a) = la_str a"
  "la_db (delete_startup_exception E n a) = la_db a"
  by (simp_all add: push_att_conf_event_def delete_startup_exception_def Let_def)

text \<open>
  The update of the database leaves the new value, or takes it back.
\<close>

lemma update_db_same:
  assumes "update_db E l v old a = (r, b)"
  shows "r \<noteq> Undef" "same_limits a b \<or> same_limits (a\<lparr>la_val := (la_val a)(l := old)\<rparr>) b" "r = Ok () \<Longrightarrow> same_limits a b"
proof -
  obtain q c where w: "upd_att_prop_db E l v a = (q, c)" by fastforce
  then have q: "q \<noteq> Undef" "same_limits a c"
    using db_write_same [where n = "limit_name l" and a = a] by (auto simp: upd_att_prop_db_def prod_eq_iff)
  obtain d e where d: "db_write (limit_name l) None a = (d, e)" by fastforce
  then have d': "d \<noteq> Undef" "same_limits a e" using db_write_same [where n = "limit_name l" and v = None and a = a] by simp_all
  let ?P = "r \<noteq> Undef \<and> (same_limits a b \<or> same_limits (a\<lparr>la_val := (la_val a)(l := old)\<rparr>) b) \<and> (r = Ok () \<longrightarrow> same_limits a b)"
  have ?P
  proof (cases "le_use_db E \<and> prop_in_list (limit_name l) (le_user E) \<noteq> Some (tv_text (le_text E) v)")
    case True
    then have "(r, b) = (case (q, c) of (Throw (DevFailed r d), a1) \<Rightarrow> (Throw (DevFailed r d), a1\<lparr>la_val := (la_val a1)(l := old)\<rparr>)
        | other \<Rightarrow> other)" using assms w by (simp add: update_db_def)
    then show ?thesis using q by (auto simp: same_limits_def split: result.splits exn.splits)
  next
    case False
    then show ?thesis using assms d d' by (auto simp: update_db_def split: if_splits)
  qed
  then show "r \<noteq> Undef" "same_limits a b \<or> same_limits (a\<lparr>la_val := (la_val a)(l := old)\<rparr>) b" "r = Ok () \<Longrightarrow> same_limits a b"
    by simp_all
qed

lemma wf_limits_set:
  assumes "wf_limits A a" "numeric v" "type_value v = lim_type (la_data_type a)"
    and "\<And>u. la_set a (opposite l) \<Longrightarrow> la_val a (opposite l) = Some u \<Longrightarrow> ordered A l v u"
  shows "wf_limits A (a\<lparr>la_val := (la_val a)(l := Some v), la_set := (la_set a)(l := True)\<rparr>)"
    and "wf_limits A (a\<lparr>la_val := (la_val a)(l := Some v)\<rparr>)"
proof -
  note w = wf_limitsD [OF assms(1)]
  have o: "tv_le A y x = Ok False"
    if "is_lower k" "la_set a (opposite l)" "la_val a (opposite l) = Some u" "k = l \<or> opposite k = l"
      "x = (if k = l then v else u)" "y = (if k = l then u else v)" for k u x y
    using assms(4) [OF that(2,3)] that by (auto simp: ordered_def split: if_splits)
  have *: "tv_le A y x = Ok False"
    if "is_lower k" "((la_set a)(l := True)) k" "((la_set a)(l := True)) (opposite k)"
      "((la_val a)(l := Some v)) k = Some x" "((la_val a)(l := Some v)) (opposite k) = Some y" for k x y
  proof (cases "k = l \<or> opposite k = l")
    case True
    then show ?thesis using that o [of k "if k = l then y else x" x y] by (auto split: if_splits)
  next
    case False
    then show ?thesis using that w(4) [of k x y] by simp
  qed
  show "wf_limits A (a\<lparr>la_val := (la_val a)(l := Some v), la_set := (la_set a)(l := True)\<rparr>)"
    unfolding wf_limits_def using * assms(2,3) w(1,2,3) by auto
  show "wf_limits A (a\<lparr>la_val := (la_val a)(l := Some v)\<rparr>)"
    unfolding wf_limits_def using * assms(2,3) w(1,2,3) by auto
qed

lemma set_limit_refused:
  assumes "wf_limits (le_arith E) a" "set_limit E l v a = (r, b)"
    and "type_value v = DEV_ENCODED \<or> check_limit_type l v a \<noteq> Ok () \<or> check_coherence E l v a \<noteq> Ok ()"
  shows "b = a \<and> r \<noteq> Undef"
  using assms(3)
proof (elim disjE)
  assume "check_limit_type l v a \<noteq> Ok ()"
  then show ?thesis using assms(2) check_limit_type_not_Undef [of l v a]
    by (cases "check_limit_type l v a") (auto simp: set_limit_def split: if_splits)
next
  assume c: "check_coherence E l v a \<noteq> Ok ()"
  show ?thesis
  proof (cases "type_value v \<noteq> DEV_ENCODED \<and> check_limit_type l v a = Ok ()")
    case True
    then have "check_coherence E l v a \<noteq> Undef"
      using check_coherence_not_Undef [OF assms(1)] check_limit_type_Ok by blast
    then show ?thesis using assms(2) c True by (cases "check_coherence E l v a") (auto simp: set_limit_def)
  next
    case False
    then show ?thesis using assms(2) check_limit_type_not_Undef [of l v a]
      by (cases "check_limit_type l v a") (auto simp: set_limit_def split: if_splits)
  qed
qed (use assms(2) in \<open>auto simp: set_limit_def\<close>)

text \<open>
  Every request keeps the limits well formed, also when it fails.
\<close>

lemma set_limit_wf:
  assumes "wf_limits (le_arith E) a" "set_limit E l v a = (r, b)"
  shows "wf_limits (le_arith E) b" "r \<noteq> Undef" "la_data_type b = la_data_type a"
proof -
  let ?a1 = "a\<lparr>la_val := (la_val a)(l := Some v)\<rparr>"
  have "wf_limits (le_arith E) b \<and> r \<noteq> Undef \<and> la_data_type b = la_data_type a"
  proof (cases "type_value v = DEV_ENCODED \<or> check_limit_type l v a \<noteq> Ok () \<or> check_coherence E l v a \<noteq> Ok ()")
    case True
    then have "b = a \<and> r \<noteq> Undef" by (rule set_limit_refused [OF assms])
    then show ?thesis using assms(1) by simp
  next
    case False
    then have t: "numeric v" "type_value v = lim_type (la_data_type a)" using check_limit_type_Ok by blast+
    have o: "ordered (le_arith E) l v u" if "la_set a (opposite l)" "la_val a (opposite l) = Some u" for u
      using check_coherence_Ok [OF _ that] False by simp
    obtain q c where q: "update_db E l v (la_val a l) ?a1 = (q, c)" by fastforce
    have rb: "(r, b) = sbind (q, c) (\<lambda>_ a. (Ok (), delete_startup_exception E (limit_name l) (push_att_conf_event E
        (a\<lparr>la_set := (la_set a)(l := True), la_str := (la_str a)(l := tv_text (le_text E) v)\<rparr>))))"
      using assms(2) False q by (simp add: set_limit_def)
    note u = update_db_same [OF q]
    have old: "wf_limits (le_arith E) (?a1\<lparr>la_val := (la_val ?a1)(l := la_val a l)\<rparr>)" using assms(1) by simp
    show ?thesis
    proof (cases "q = Ok ()")
      case True
      let ?b = "c\<lparr>la_set := (la_set c)(l := True), la_str := (la_str c)(l := tv_text (le_text E) v)\<rparr>"
      have c: "same_limits ?a1 c" by (rule u(3) [OF True])
      then have "wf_limits (le_arith E) ?b = wf_limits (le_arith E) (?a1\<lparr>la_set := (la_set ?a1)(l := True)\<rparr>)"
        by (simp add: wf_limits_def same_limits_def)
      moreover have "same_limits ?b b" "r = Ok ()" "la_data_type b = la_data_type c"
        using rb True by (auto simp: same_limits_def)
      ultimately show ?thesis using wf_limits_set(1) [OF assms(1) t o] c wf_same_limits [of ?b b] by (simp add: same_limits_def)
    next
      case False
      then have "r \<noteq> Undef \<and> b = c" using rb u(1) by (cases q) simp_all
      moreover have "wf_limits (le_arith E) c \<and> la_data_type c = la_data_type a"
        using u(2)
      proof
        assume c: "same_limits ?a1 c"
        then show ?thesis using wf_limits_set(2) [OF assms(1) t o] wf_same_limits [OF c] by (simp add: same_limits_def)
      next
        assume c: "same_limits (?a1\<lparr>la_val := (la_val ?a1)(l := la_val a l)\<rparr>) c"
        then show ?thesis using old wf_same_limits [OF c] by (simp add: same_limits_def)
      qed
      ultimately show ?thesis by simp
    qed
  qed
  then show "wf_limits (le_arith E) b" "r \<noteq> Undef" "la_data_type b = la_data_type a" by simp_all
qed

lemma set_limit_str_wf:
  assumes "wf_limits (le_arith E) a"
  shows "wf_limits (le_arith E) (snd (set_limit_str E l s a)) \<and> la_data_type (snd (set_limit_str E l s a)) = la_data_type a"
proof -
  obtain r b where w: "avns_in_db E l a = (r, b)" by fastforce
  then have b: "same_limits a b" "r \<noteq> Undef" using avns_in_db_same [where a = a and E = E and l = l] by simp_all
  then have wb: "wf_limits (le_arith E) b" using assms wf_same_limits by blast
  then have "wf_limits (le_arith E) (avns_in_att E l b)"
    by (auto simp: wf_limits_def avns_in_att_def)
  then have avns: "wf_limits (le_arith E) (snd (sbind (avns_in_db E l a) (\<lambda>_ a. (Ok (), avns_in_att E l a)))) \<and>
      la_data_type (snd (sbind (avns_in_db E l a) (\<lambda>_ a. (Ok (), avns_in_att E l a)))) = la_data_type a"
    using b wb by (cases r) (simp_all add: w avns_in_att_def same_limits_def)
  have set: "wf_limits (le_arith E) (snd (set_limit E l v a)) \<and> la_data_type (snd (set_limit E l v a)) = la_data_type a" for v
    using set_limit_wf(1,3) [OF assms prod.collapse [symmetric], of l v] by blast
  have from_text: "wf_limits (le_arith E) (snd (sbind (m, a) (\<lambda>v a. case v of Some v \<Rightarrow> set_limit E l v a | None \<Rightarrow> (Ok (), a)))) \<and>
      la_data_type (snd (sbind (m, a) (\<lambda>v a. case v of Some v \<Rightarrow> set_limit E l v a | None \<Rightarrow> (Ok (), a)))) = la_data_type a" for m
    using set assms by (cases m) (auto split: option.split)
  show ?thesis
    unfolding set_limit_str_def Let_def using avns from_text assms by (simp split: choice.split)
qed

fun lim_run :: "('f lim_env \<times> 'f lim_req) list \<Rightarrow> 'f lim_attr \<Rightarrow> 'f lim_attr" where
  "lim_run [] a = a"
| "lim_run ((E, r) # rs) a = lim_run rs (snd (lim_exec E r a))"

lemma lim_run_wf:
  assumes "wf_limits A a" "\<forall>(E, r) \<in> set rs. le_arith E = A"
  shows "wf_limits A (lim_run rs a) \<and> la_data_type (lim_run rs a) = la_data_type a"
  using assms
proof (induction rs arbitrary: a)
  case (Cons e rs)
  obtain E r where e: "e = (E, r)" by fastforce
  have E: "le_arith E = A" using Cons.prems e by auto
  have "wf_limits A (snd (lim_exec E r a)) \<and> la_data_type (snd (lim_exec E r a)) = la_data_type a"
  proof (cases r)
    case (By_value l v)
    obtain q b where q: "set_limit E l v a = (q, b)" by fastforce
    have "wf_limits (le_arith E) a" using Cons.prems(1) E by simp
    note w = set_limit_wf [OF this q]
    have "snd (lim_exec E r a) = b" by (simp add: By_value lim_exec_value q)
    then show ?thesis using w E by simp
  next
    case (By_text l s)
    then show ?thesis using set_limit_str_wf [of E a l s] Cons.prems(1) E by (simp add: lim_exec_text)
  qed
  then show ?case using Cons.IH [of "snd (lim_exec E r a)"] Cons.prems(2) e by simp
qed simp

lemma get_limit_Ok:
  "get_limit l t a = Ok v \<longleftrightarrow> la_set a l \<and> la_val a l = Some v \<and> type_value v = t \<and> type_matches (la_data_type a) t \<and>
    (is_bound l \<or> \<not> no_limit_type l (la_data_type a))"
  by (auto simp: get_limit_def throw_incompatible_def split: if_splits option.splits)

text \<open>
  (C9) The limits of an attribute are type safe. After any sequence of requests, by value
  or by text, accepted, refused or failed in the database, in whatever state the server
  is, the values that are kept have the type of the attribute: no further request with a
  value is undefined, reading a limit in its type is not undefined either, and a lower
  limit that can be read is below the upper one.
\<close>

theorem limits_type_safe:
  assumes "\<forall>l. \<not> la_set a l \<and> la_val a l = None" "\<forall>(E, r) \<in> set rs. le_arith E = A"
  shows "le_arith E = A \<Longrightarrow> fst (lim_exec E (By_value l v) (lim_run rs a)) \<noteq> Undef \<and>
    get_limit l (lim_type (la_data_type a)) (lim_run rs a) \<noteq> Undef \<and>
    (is_lower l \<and> get_limit l t (lim_run rs a) = Ok x \<and> get_limit (opposite l) t (lim_run rs a) = Ok y \<longrightarrow>
      tv_le A y x = Ok False)"
proof -
  assume E: "le_arith E = A"
  let ?b = "lim_run rs a"
  have w: "wf_limits A ?b" "la_data_type ?b = la_data_type a"
    using lim_run_wf [of A a rs] assms by (simp_all add: wf_limits_def)
  have wE: "wf_limits (le_arith E) ?b" using w(1) E by simp
  obtain q b where q: "set_limit E l v ?b = (q, b)" by fastforce
  have "fst (lim_exec E (By_value l v) ?b) \<noteq> Undef"
    using set_limit_wf(2) [OF wE q] q by (simp add: lim_exec_value)
  moreover have "get_limit l (lim_type (la_data_type a)) ?b \<noteq> Undef"
  proof (cases "la_set ?b l")
    case True
    then obtain z where "la_val ?b l = Some z" using wf_limitsD(3) [OF w(1)] by blast
    then show ?thesis using True wf_limitsD(2) [OF w(1)] w(2) by (simp add: get_limit_def throw_incompatible_def)
  qed (simp add: get_limit_def throw_incompatible_def)
  moreover have "tv_le A y x = Ok False"
    if "is_lower l" "get_limit l t ?b = Ok x" "get_limit (opposite l) t ?b = Ok y"
    using wf_limitsD(4) [OF w(1) that(1)] that(2,3) get_limit_Ok by blast
  ultimately show ?thesis by blast
qed

section \<open>What the requests do\<close>

definition db_text :: "'f lim_env \<Rightarrow> limit \<Rightarrow> 'f lim_attr \<Rightarrow> string list option" where
  "db_text E l a =
    (case la_db a (limit_name l) of Some ts \<Rightarrow> Some ts | None \<Rightarrow> map_option (\<lambda>t. [t]) (prop_in_list (limit_name l) (le_user E)))"

lemma db_write_Ok: "db_write n v a = (Ok (), b) \<Longrightarrow> la_db b = (la_db a)(n := v)"
  by (auto simp: db_write_def split: prod.splits result.splits)

lemma update_db_Ok:
  assumes "update_db E l v old a = (Ok (), b)" "le_use_db E" "la_data_type a \<noteq> DEV_ENCODED"
  shows "db_text E l b = Some [tv_text (le_text E) v]"
  using assms
  by (auto simp: update_db_def upd_att_prop_db_def db_text_def db_write_Ok split: if_splits result.splits exn.splits
      prod.splits)

lemma set_limit_Ok:
  assumes "set_limit E l v a = (Ok (), b)"
  shows "la_val b = (la_val a)(l := Some v)" "la_set b = (la_set a)(l := True)"
    "la_str b = (la_str a)(l := tv_text (le_text E) v)" "la_data_type b = la_data_type a"
    "type_matches (la_data_type a) (type_value v)" "\<not> no_limit_type l (la_data_type a)"
    "le_use_db E \<Longrightarrow> la_data_type a \<noteq> DEV_ENCODED \<Longrightarrow> db_text E l b = Some [tv_text (le_text E) v]"
proof -
  let ?a1 = "a\<lparr>la_val := (la_val a)(l := Some v)\<rparr>"
  have t: "check_limit_type l v a = Ok ()"
    using assms by (cases "check_limit_type l v a") (auto simp: set_limit_def split: if_splits)
  have c: "check_coherence E l v a = Ok ()" "type_value v \<noteq> DEV_ENCODED"
    using assms t by (cases "check_coherence E l v a"; auto simp: set_limit_def split: if_splits)+
  obtain q d where q: "update_db E l v (la_val a l) ?a1 = (q, d)" by fastforce
  have q_Ok: "q = Ok ()" using assms t c q by (cases q) (auto simp: set_limit_def)
  have b: "b = delete_startup_exception E (limit_name l) (push_att_conf_event E
      (d\<lparr>la_set := (la_set d)(l := True), la_str := (la_str d)(l := tv_text (le_text E) v)\<rparr>))"
    using assms t c q q_Ok by (simp add: set_limit_def)
  have d: "same_limits ?a1 d" using update_db_same(3) [OF q q_Ok] .
  then show "la_val b = (la_val a)(l := Some v)" "la_set b = (la_set a)(l := True)"
    "la_str b = (la_str a)(l := tv_text (le_text E) v)" "la_data_type b = la_data_type a"
    by (simp_all add: b same_limits_def)
  show "type_matches (la_data_type a) (type_value v)" "\<not> no_limit_type l (la_data_type a)"
    using t by (auto simp: check_limit_type_def throw_incompatible_def throw_err_data_type_def split: if_splits)
  show "le_use_db E \<Longrightarrow> la_data_type a \<noteq> DEV_ENCODED \<Longrightarrow> db_text E l b = Some [tv_text (le_text E) v]"
    using update_db_Ok [of E l v "la_val a l" ?a1 d] q q_Ok by (simp add: b db_text_def)
qed

text \<open>
  A limit that was set is read back: the getter returns the value, the configuration
  shows its text, the database or the default of the user has the same text, and the
  other limits are as before.
\<close>

theorem limit_set_get:
  assumes "lim_exec E (By_value l v) a = (Ok (), b)"
  shows "get_limit l (type_value v) b = Ok v \<and> la_str b l = tv_text (le_text E) v \<and>
    (\<forall>k t. k \<noteq> l \<longrightarrow> get_limit k t b = get_limit k t a \<and> la_str b k = la_str a k) \<and>
    (le_use_db E \<and> la_data_type a \<noteq> DEV_ENCODED \<longrightarrow> db_text E l b = Some [tv_text (le_text E) v])"
proof -
  note s = set_limit_Ok [of E l v a b]
  have ok: "set_limit E l v a = (Ok (), b)" using assms by (simp add: lim_exec_value)
  have "get_limit l (type_value v) b = Ok v" using s(1,2,4,5,6) [OF ok] by (simp add: get_limit_def)
  moreover have "get_limit k t b = get_limit k t a \<and> la_str b k = la_str a k" if "k \<noteq> l" for k t
    using s(1,2,3,4) [OF ok] that by (simp add: get_limit_def)
  ultimately show ?thesis using s(3,7) [OF ok] by simp
qed

lemma choose_not_specified: "choose_text E l AlrmValueNotSpec = Not_specified"
proof -
  have "same_text s s" for s by (simp add: same_text_def)
  then show ?thesis by (simp add: choose_text_def Let_def split: option.split)
qed

text \<open>
  An alarm or warning level is not removed by the text that asks for it. With a working
  database a request with the text for no value is accepted and the configuration shows no
  value, but the level can still be read and stays active. The bounds of written values
  are removed.
\<close>

theorem level_not_removed:
  assumes "get_limit l t a = Ok v" "la_answers a = []" "\<not> no_limit_type Min_alarm (la_data_type a)"
  shows "\<exists>b. lim_exec E (By_text l AlrmValueNotSpec) a = (Ok (), b) \<and> la_str b l = AlrmValueNotSpec \<and>
    (if is_bound l then \<exists>m. get_limit l t b = Throw (DevFailed ''API_AttrNotAllowed'' m)
     else get_limit l t b = Ok v \<and> la_set b l)"
proof -
  obtain b where b: "avns_in_db E l a = (Ok (), b)"
    using assms(2) by (cases "le_use_db E") (simp_all add: avns_in_db_def db_write_def)
  have same: "same_limits a b" using avns_in_db_same(1) [where a = a and E = E and l = l] b by simp
  have exec: "lim_exec E (By_text l AlrmValueNotSpec) a = (Ok (), avns_in_att E l b)"
    using assms(3) b unfolding lim_exec_text set_limit_str_def choose_not_specified
    by (simp add: no_limit_type_def is_bound_def)
  have "\<exists>m. get_limit l t (avns_in_att E l b) = Throw (DevFailed ''API_AttrNotAllowed'' m)" if "is_bound l"
    using assms(1) [unfolded get_limit_Ok] that same by (simp add: get_limit_def avns_in_att_def same_limits_def)
  moreover have "get_limit l t (avns_in_att E l b) = Ok v \<and> la_set (avns_in_att E l b) l" if "\<not> is_bound l"
    using assms(1) [unfolded get_limit_Ok] that same by (simp add: get_limit_Ok avns_in_att_def same_limits_def)
  ultimately show ?thesis using exec by (simp add: avns_in_att_def)
qed

text \<open>
  A failed request may change the limit. When the new value is the default of the user
  and the database fails to delete the property, the request throws, but the new value is
  kept: a limit that was set before is then the new value, while the configuration shows
  the old one.
\<close>

theorem limit_changed_on_failure:
  assumes "check_limit_type l v a = Ok ()" "check_coherence E l v a = Ok ()" "type_value v \<noteq> DEV_ENCODED"
    and "le_use_db E" "prop_in_list (limit_name l) (le_user E) = Some (tv_text (le_text E) v)" "la_answers a = [Db_failed]"
    and "la_set a l"
  shows "\<exists>e b. lim_exec E (By_value l v) a = (Throw e, b) \<and> get_limit l (type_value v) b = Ok v \<and> la_str b = la_str a"
proof -
  let ?b = "a\<lparr>la_val := (la_val a)(l := Some v), la_answers := []\<rparr>"
  have "lim_exec E (By_value l v) a = (Throw (DevFailed ''API_DatabaseAccess'' ''database''), ?b)"
    using assms(1-6) by (simp add: lim_exec_value set_limit_def update_db_def db_write_def)
  moreover have "get_limit l (type_value v) ?b = Ok v"
    using assms(1,7) by (auto simp: get_limit_def check_limit_type_def throw_incompatible_def throw_err_data_type_def split: if_splits)
  ultimately show ?thesis by auto
qed


section \<open>Examples\<close>

definition ex_fp :: "int fp" where
  "ex_fp = \<lparr>fp_add = (+), fp_sub = (-), fp_mul = (*), fp_div = (div), fp_le = (\<le>), fp_eq = (=), fp_nan = (\<lambda>_. False),
    fp_of_int = (\<lambda>i. i)\<rparr>"

definition ex_env :: "int lim_env" where
  "ex_env = \<lparr>le_starting = False, le_use_db = True, le_user = [(''min_alarm'', ''5'')], le_class = [],
    le_arith = \<lparr>dbl = ex_fp, sgl = ex_fp, dbl_1em10 = 0\<rparr>,
    le_text = \<lparr>read_dbl = (\<lambda>s. Some (int (digits_value s))), read_flt = (\<lambda>s. Some (int (digits_value s))),
      show_dbl = int_text, show_flt = int_text, integral = Some, negative = (\<lambda>i. i < 0), negate = (\<lambda>i. - i)\<rparr>\<rparr>"

definition ex_attr :: "int lim_attr" where
  "ex_attr = \<lparr>la_data_type = DEV_SHORT, la_val = (\<lambda>_. None), la_str = (\<lambda>_. AlrmValueNotSpec), la_set = (\<lambda>_. False),
    la_startup = [''min_alarm''], la_check_startup = True, la_run_loop = False, la_conf_events = 0, la_db = (\<lambda>_. None),
    la_answers = []\<rparr>"

definition ex_limited :: "int lim_attr" where
  "ex_limited = ex_attr\<lparr>la_val := (la_val ex_attr)(Min_alarm := Some (V_SHORT 3)), la_set := (la_set ex_attr)(Min_alarm := True),
    la_str := (la_str ex_attr)(Min_alarm := ''3'')\<rparr>"

theorem limits_type_safe_witness:
  "fst (lim_exec ex_env (By_value Min_alarm (V_SHORT 9)) (lim_run [(ex_env, By_value Max_alarm (V_SHORT 7))] ex_attr)) \<noteq> Undef"
  using limits_type_safe [of ex_attr "[(ex_env, By_value Max_alarm (V_SHORT 7))]" "le_arith ex_env" ex_env Min_alarm "V_SHORT 9"]
  by (simp add: ex_attr_def)

theorem limit_set_get_witness:
  "get_limit Max_alarm DEV_SHORT (snd (lim_exec ex_env (By_value Max_alarm (V_SHORT 7)) ex_limited)) = Ok (V_SHORT 7) \<and>
    get_limit Min_alarm DEV_SHORT (snd (lim_exec ex_env (By_value Max_alarm (V_SHORT 7)) ex_limited)) = Ok (V_SHORT 3)"
proof -
  obtain b where "lim_exec ex_env (By_value Max_alarm (V_SHORT 7)) ex_limited = (Ok (), b)"
    by (auto simp: lim_exec_value set_limit_def ex_limited_def ex_attr_def ex_env_def check_limit_type_def no_limit_type_def
        type_matches_def check_coherence_def is_lower_def tv_le_def update_db_def prop_in_list_def upd_att_prop_db_def
        db_write_def)
  moreover have "get_limit Min_alarm DEV_SHORT ex_limited = Ok (V_SHORT 3)"
    by (simp add: get_limit_def ex_limited_def ex_attr_def no_limit_type_def type_matches_def)
  ultimately show ?thesis using limit_set_get [of ex_env Max_alarm "V_SHORT 7" ex_limited b] by simp
qed

theorem level_not_removed_witness:
  "\<exists>b. lim_exec ex_env (By_text Min_alarm AlrmValueNotSpec) ex_limited = (Ok (), b) \<and> la_str b Min_alarm = AlrmValueNotSpec \<and>
    get_limit Min_alarm DEV_SHORT b = Ok (V_SHORT 3)"
proof -
  have "get_limit Min_alarm DEV_SHORT ex_limited = Ok (V_SHORT 3)" "la_answers ex_limited = []"
    "\<not> no_limit_type Min_alarm (la_data_type ex_limited)"
    by (simp_all add: get_limit_def ex_limited_def ex_attr_def no_limit_type_def type_matches_def)
  then show ?thesis using level_not_removed [of Min_alarm DEV_SHORT ex_limited "V_SHORT 3" ex_env] by (auto simp: is_bound_def)
qed

theorem limit_changed_on_failure_witness:
  "\<exists>e b. lim_exec ex_env (By_value Min_alarm (V_SHORT 5)) (ex_limited\<lparr>la_answers := [Db_failed]\<rparr>) = (Throw e, b) \<and>
    get_limit Min_alarm DEV_SHORT b = Ok (V_SHORT 5)"
proof -
  have "tv_text (le_text ex_env) (V_SHORT 5) = ''5''" by code_simp
  then have "prop_in_list (limit_name Min_alarm) (le_user ex_env) = Some (tv_text (le_text ex_env) (V_SHORT 5))"
    by (simp add: prop_in_list_def ex_env_def)
  then show ?thesis
    using limit_changed_on_failure [of Min_alarm "V_SHORT 5" "ex_limited\<lparr>la_answers := [Db_failed]\<rparr>" ex_env]
    by (auto simp: check_limit_type_def check_coherence_def no_limit_type_def type_matches_def ex_limited_def ex_attr_def ex_env_def)
qed

end
