(* ===== verification/W_Attribute.thy ===== *)
theory W_Attribute
  imports Attr_Limits
begin

text \<open>
  Writing an attribute (\<open>w_attribute.cpp\<close>): the check of a value that a client sends, its
  type, its dimensions, the bounds and the labels of an enumeration, the copies of the
  value that the attribute keeps, and the return to the value before a failed write.
\<close>

section \<open>Data\<close>

datatype AttrDataFormat = SCALAR | SPECTRUM | IMAGE | FMT_UNKNOWN

datatype AttrWriteType = READ | READ_WITH_WRITE | WRITE | READ_WRITE

text \<open>
  A value from a client, in an \<open>Any\<close> or in the union of the later releases: the type of
  its elements and the elements.
\<close>

datatype 'f incoming = Incoming CmdArgType "'f tval list"

definition wf_incoming :: "'f incoming \<Rightarrow> bool" where
  "wf_incoming i = (case i of Incoming t vs \<Rightarrow> list_all (\<lambda>v. type_value v = t) vs)"

text \<open>
  A writable attribute. \<open>wa_value\<close> is the member for the data type (\<open>short_val\<close>, \<open>long_val\<close>,
  ...), \<open>wa_old\<close> the one with the prefix \<open>old_\<close>, \<open>wa_last\<close> the array of the last written
  value, and \<open>wa_ptr\<close> what the pointer to the new value points to. \<open>wa_str_alive\<close> tells
  whether \<open>str_val\<close>, which attributes of every type have, is allocated. Dates are in
  microseconds.
\<close>

record 'f w_attr =
  wa_limits :: "'f lim_attr"
  wa_format :: AttrDataFormat
  wa_enum_labels :: "string list"
  wa_value :: "'f tval"
  wa_old :: "'f tval"
  wa_ptr :: "'f tval list"
  wa_last :: "'f tval list"
  w_dim_x :: int
  w_dim_y :: int
  wa_str_alive :: bool
  wa_user_set :: bool
  wa_write_date :: int

record 'f w_env =
  we_arith :: "'f arith"
  we_finite :: "'f \<Rightarrow> bool"
  we_nan_allowed :: bool

type_synonym ('f, 'a) w_op = "'f w_attr \<Rightarrow> 'a result \<times> 'f w_attr"

abbreviation wa_data_type :: "'f w_attr \<Rightarrow> CmdArgType" where
  "wa_data_type a \<equiv> la_data_type (wa_limits a)"

text \<open>
  Enumerations are written as short integers.
\<close>

definition elt_type :: "CmdArgType \<Rightarrow> CmdArgType" where
  "elt_type dt = (if dt = DEV_ENUM then DEV_SHORT else dt)"

definition writable_types :: "CmdArgType list" where
  "writable_types = [DEV_SHORT, DEV_ENUM, DEV_LONG, DEV_LONG64, DEV_DOUBLE, DEV_STRING, DEV_FLOAT, DEV_USHORT, DEV_UCHAR,
    DEV_ULONG, DEV_ULONG64, DEV_STATE, DEV_BOOLEAN, DEV_ENCODED]"


section \<open>The check of a value\<close>

definition tv_lt :: "'f arith \<Rightarrow> 'f tval \<Rightarrow> 'f tval \<Rightarrow> bool result" where
  "tv_lt A x y =
    rbind (tv_le A x y) (\<lambda>le.
      case (x, y) of
        (V_FLOAT a, V_FLOAT b) \<Rightarrow> Ok (le \<and> \<not> fp_eq (sgl A) a b)
      | (V_DOUBLE a, V_DOUBLE b) \<Rightarrow> Ok (le \<and> \<not> fp_eq (dbl A) a b)
      | _ \<Rightarrow> Ok (le \<and> tv_int x \<noteq> tv_int y))"

definition outside_limit :: "string \<Rightarrow> 'a result" where
  "outside_limit what = Throw (DevFailed ''API_WAttrOutsideLimit'' (''Set value for attribute is '' @ what))"

definition check_nan :: "'f w_env \<Rightarrow> 'f tval \<Rightarrow> unit result" where
  "check_nan E v =
    (case v of
       V_FLOAT f \<Rightarrow> if \<not> we_nan_allowed E \<and> \<not> we_finite E f then outside_limit ''a NaN or INF value'' else Ok ()
     | V_DOUBLE f \<Rightarrow> if \<not> we_nan_allowed E \<and> \<not> we_finite E f then outside_limit ''a NaN or INF value'' else Ok ()
     | _ \<Rightarrow> Ok ())"

definition limit_value :: "limit \<Rightarrow> 'f w_attr \<Rightarrow> 'f tval result" where
  "limit_value l a = (case la_val (wa_limits a) l of Some v \<Rightarrow> Ok v | None \<Rightarrow> Undef)"

definition check_bounds :: "'f w_env \<Rightarrow> 'f w_attr \<Rightarrow> 'f tval \<Rightarrow> unit result" where
  "check_bounds E a v =
    rbind (if la_set (wa_limits a) Min_value
           then rbind (limit_value Min_value a) (\<lambda>m. rbind (tv_lt (we_arith E) v m) (\<lambda>b.
             if b then outside_limit ''below the minimum authorized'' else Ok ()))
           else Ok ()) (\<lambda>_.
    if la_set (wa_limits a) Max_value
    then rbind (limit_value Max_value a) (\<lambda>m. rbind (tv_lt (we_arith E) m v) (\<lambda>b.
      if b then outside_limit ''above the maximum authorized'' else Ok ()))
    else Ok ())"

fun check_all :: "('a \<Rightarrow> unit result) \<Rightarrow> 'a list \<Rightarrow> unit result" where
  "check_all f [] = Ok ()"
| "check_all f (x # xs) = rbind (f x) (\<lambda>_. check_all f xs)"

definition check_enum :: "'f w_attr \<Rightarrow> 'f tval \<Rightarrow> unit result" where
  "check_enum a v =
    (if wa_data_type a = DEV_ENUM
     then case tv_int v of
         Some i \<Rightarrow> if i < 0 \<or> i \<ge> int (length (wa_enum_labels a))
           then outside_limit ''negative or above the maximun authorized'' else Ok ()
       | None \<Rightarrow> Undef
     else Ok ())"

text \<open>
  Booleans and strings are not checked; of an encoded value every byte is.
\<close>

fun check_elt :: "'f w_env \<Rightarrow> 'f w_attr \<Rightarrow> 'f tval \<Rightarrow> unit result" where
  "check_elt E a (V_BOOLEAN b) = Ok ()"
| "check_elt E a (V_STRING s) = Ok ()"
| "check_elt E a (V_ENCODED f d) = check_all (\<lambda>c. check_bounds E a (V_UCHAR c)) d"
| "check_elt E a v = rbind (check_nan E v) (\<lambda>_. check_bounds E a v)"

definition check_data_limits :: "'f w_env \<Rightarrow> 'f tval list \<Rightarrow> 'f w_attr \<Rightarrow> unit result" where
  "check_data_limits E vs a = rbind (check_all (check_elt E a) vs) (\<lambda>_. check_all (check_enum a) vs)"

text \<open>
  The number of elements against the dimensions, whose product is of 64 bits.
\<close>

definition check_length :: "nat \<Rightarrow> nat \<Rightarrow> nat \<Rightarrow> unit result" where
  "check_length nb_data x y =
    (if y = 0 \<and> nb_data \<noteq> x \<or> y \<noteq> 0 \<and> nb_data \<noteq> (x * y) mod 2 ^ 64
     then Throw (DevFailed ''API_AttrIncorrectDataNumber'' ''Incorrect data number'') else Ok ())"

definition update_internal_sequence :: "'f w_env \<Rightarrow> 'f tval list \<Rightarrow> nat \<Rightarrow> nat \<Rightarrow> ('f, unit) w_op" where
  "update_internal_sequence E seq x y a =
    sbind (check_length (length seq) x y, a) (\<lambda>_ a.
    sbind (check_data_limits E seq a, a) (\<lambda>_ a.
      let a = a\<lparr>wa_ptr := seq\<rparr> in
      if wa_format a = SCALAR
      then case seq of
          v # _ \<Rightarrow> (Ok (), a\<lparr>wa_old := wa_value a, wa_value := v, w_dim_x := 1, w_dim_y := 0\<rparr>)
        | [] \<Rightarrow> (Undef, a)
      else (Ok (), a\<lparr>w_dim_x := int x, w_dim_y := int y\<rparr>)))"

definition check_written_value :: "'f w_env \<Rightarrow> 'f incoming \<Rightarrow> nat \<Rightarrow> nat \<Rightarrow> ('f, unit) w_op" where
  "check_written_value E i x y a =
    (if wa_data_type a \<notin> set writable_types then (Undef, a)
     else case i of Incoming t vs \<Rightarrow>
       if t \<noteq> elt_type (wa_data_type a)
       then (Throw (DevFailed ''API_IncompatibleAttrDataType'' ''Incompatible attribute type''), a)
       else update_internal_sequence E vs x y a)"


section \<open>The copies of the value\<close>

definition copy_data :: "'f incoming \<Rightarrow> ('f, unit) w_op" where
  "copy_data i a =
    (if wa_data_type a \<notin> set writable_types then (Undef, a)
     else if wa_data_type a = DEV_ENCODED then (Ok (), a)
     else case i of Incoming t vs \<Rightarrow>
       if t = elt_type (wa_data_type a) then (Ok (), a\<lparr>wa_last := vs\<rparr>) else (Undef, a))"

text \<open>
  A value that the server itself sets: the sequence has as many elements of the array as
  the dimensions say, counted with 32 bits.
\<close>

definition set_write_value :: "'f w_env \<Rightarrow> CmdArgType \<Rightarrow> 'f tval list \<Rightarrow> nat \<Rightarrow> nat \<Rightarrow> ('f, unit) w_op" where
  "set_write_value E t vs x y a =
    (let n = (if y = 0 then x else (x * y) mod 2 ^ 64) mod 2 ^ 32 in
     if n > length vs then (Undef, a)
     else sbind (check_written_value E (Incoming t (take n vs)) x y a) (\<lambda>_ a.
          sbind (copy_data (Incoming t (take n vs)) a) (\<lambda>_ a.
            (Ok (), a\<lparr>wa_user_set := True\<rparr>))))"

definition set_write_value_scalar :: "'f w_env \<Rightarrow> 'f tval \<Rightarrow> ('f, unit) w_op" where
  "set_write_value_scalar E v = set_write_value E (type_value v) [v] 1 0"

definition set_write_value_strings :: "'f w_env \<Rightarrow> string list \<Rightarrow> nat \<Rightarrow> nat \<Rightarrow> ('f, unit) w_op" where
  "set_write_value_strings E ss x y a =
    (let i = Incoming DEV_STRING (map V_STRING ss) in
     sbind (check_written_value E i x y a) (\<lambda>_ a.
     sbind (copy_data i a) (\<lambda>_ a. (Ok (), a\<lparr>wa_user_set := True\<rparr>))))"

definition set_write_value_encoded :: "('f, unit) w_op" where
  "set_write_value_encoded a = (Throw (DevFailed ''API_NotSupportedFeature''
    ''This is a not supported call in case of DevEncoded attribute''), a)"

text \<open>
  The return to the value before. For unsigned characters the string is freed instead.
\<close>

definition rollback :: "('f, unit) w_op" where
  "rollback a =
    (if wa_data_type a \<notin> set writable_types then (Undef, a)
     else if wa_data_type a = DEV_UCHAR
     then (if wa_str_alive a then (Ok (), a\<lparr>wa_str_alive := False\<rparr>) else (Undef, a))
     else if wa_data_type a = DEV_ENCODED
     then (Throw (DevFailed ''API_NotSupportedFeature'' ''This is a not supported call in case of DevEncoded attribute''), a)
     else (Ok (), a\<lparr>wa_value := wa_old a\<rparr>))"

definition get_write_value_length :: "'f w_attr \<Rightarrow> int" where
  "get_write_value_length a =
    (case wa_format a of SCALAR \<Rightarrow> 1 | SPECTRUM \<Rightarrow> w_dim_x a | IMAGE \<Rightarrow> w_dim_x a * w_dim_y a | FMT_UNKNOWN \<Rightarrow> 0)"

definition set_written_date :: "int \<Rightarrow> 'f w_attr \<Rightarrow> 'f w_attr" where
  "set_written_date now a = a\<lparr>wa_write_date := now\<rparr>"

text \<open>
  The destructor frees the two strings.
\<close>

definition WAttribute_delete :: "'f w_attr \<Rightarrow> unit result" where
  "WAttribute_delete a = (if wa_str_alive a then Ok () else Undef)"

section \<open>Memorised values\<close>

text \<open>
  Whether the memorised value is outside a new bound: at the start of the server the text
  in the database, read with the stream operator, later the last written value. Reading an
  unsigned character takes the first character of the text, and writing one gives the
  character. \<open>me_read\<close> is the stream operator for the other types.
\<close>

record 'f mem_env =
  me_starting :: bool
  me_arith :: "'f arith"
  me_text :: "'f text_io"
  me_read :: "CmdArgType \<Rightarrow> string \<Rightarrow> 'f tval"
  me_value :: "string option"

definition stream_read :: "'f mem_env \<Rightarrow> CmdArgType \<Rightarrow> string \<Rightarrow> 'f tval" where
  "stream_read M t s =
    (if t = DEV_UCHAR
     then case dropWhile is_blank s of c # _ \<Rightarrow> V_UCHAR (of_char c) | [] \<Rightarrow> V_UCHAR 0
     else me_read M t s)"

definition stream_text :: "'f mem_env \<Rightarrow> 'f tval \<Rightarrow> string" where
  "stream_text M v = (case v of V_UCHAR w \<Rightarrow> [char_of (unat w)] | _ \<Rightarrow> tv_text (me_text M) v)"

definition outside_bound :: "'f mem_env \<Rightarrow> limit \<Rightarrow> 'f w_attr \<Rightarrow> 'f tval \<Rightarrow> bool result" where
  "outside_bound M l a v =
    rbind (limit_value l a) (\<lambda>m. if l = Min_value then tv_lt (me_arith M) v m else tv_lt (me_arith M) m v)"

fun first_outside :: "('a \<Rightarrow> bool result) \<Rightarrow> 'a list \<Rightarrow> 'a option result" where
  "first_outside f [] = Ok None"
| "first_outside f (x # xs) = rbind (f x) (\<lambda>b. if b then Ok (Some x) else first_outside f xs)"

definition mem_value_below_above :: "'f mem_env \<Rightarrow> limit \<Rightarrow> 'f w_attr \<Rightarrow> string option result" where
  "mem_value_below_above M l a =
    (case me_value M of
       None \<Rightarrow> Ok None
     | Some s \<Rightarrow>
         if wa_data_type a \<notin> {DEV_SHORT, DEV_LONG, DEV_LONG64, DEV_DOUBLE, DEV_FLOAT, DEV_USHORT, DEV_UCHAR, DEV_ULONG, DEV_ULONG64}
         then Ok None
         else if me_starting M
         then rbind (outside_bound M l a (stream_read M (wa_data_type a) s)) (\<lambda>b. Ok (if b then Some s else None))
         else rbind (first_outside (outside_bound M l a) (wa_last a)) (\<lambda>v. Ok (map_option (stream_text M) v)))"


section \<open>Accepted values\<close>

text \<open>
  For the integer types: the bounds as integers.
\<close>

definition within_bounds :: "'f w_attr \<Rightarrow> int \<Rightarrow> bool" where
  "within_bounds a i \<longleftrightarrow>
    (la_set (wa_limits a) Min_value \<longrightarrow> the (tv_int (the (la_val (wa_limits a) Min_value))) \<le> i) \<and>
    (la_set (wa_limits a) Max_value \<longrightarrow> i \<le> the (tv_int (the (la_val (wa_limits a) Max_value))))"

definition acceptable :: "'f w_attr \<Rightarrow> 'f tval \<Rightarrow> bool" where
  "acceptable a v \<longleftrightarrow> within_bounds a (the (tv_int v)) \<and>
    (wa_data_type a = DEV_ENUM \<longrightarrow> 0 \<le> the (tv_int v) \<and> the (tv_int v) < int (length (wa_enum_labels a)))"

definition integer_types :: "CmdArgType list" where
  "integer_types = [DEV_SHORT, DEV_ENUM, DEV_LONG, DEV_LONG64, DEV_USHORT, DEV_UCHAR, DEV_ULONG, DEV_ULONG64]"

definition dims_fit :: "nat \<Rightarrow> nat \<Rightarrow> nat \<Rightarrow> bool" where
  "dims_fit n x y \<longleftrightarrow> n = (if y = 0 then x else (x * y) mod 2 ^ 64)"

lemma integer_value:
  assumes "type_value v \<in> set integer_types"
  shows "\<exists>i. tv_int v = Some i"
  using assms by (cases v) (simp_all add: integer_types_def)

lemma tv_lt_integer:
  assumes "tv_int x = Some i" "tv_int y = Some j" "type_value x = type_value y"
  shows "tv_lt A x y = Ok (i < j)"
  using assms by (cases x; cases y) (auto simp: tv_lt_def tv_le_def)

lemma bound_integer:
  assumes "wf_limits A (wa_limits a)" "type_value v \<in> set integer_types" "type_value v = elt_type (wa_data_type a)"
    "la_set (wa_limits a) l"
  obtains m i j where "limit_value l a = Ok m" "la_val (wa_limits a) l = Some m" "tv_int m = Some j" "tv_int v = Some i"
    "type_value m = type_value v" "wa_data_type a \<noteq> DEV_ENUM"
proof -
  obtain m where m: "la_val (wa_limits a) l = Some m" using wf_limitsD(3) [OF assms(1,4)] by blast
  have t: "type_value m = lim_type (wa_data_type a)" by (rule wf_limitsD(2) [OF assms(1) m])
  have "type_value m \<noteq> DEV_ENUM" by (cases m) simp_all
  then have e: "wa_data_type a \<noteq> DEV_ENUM" using t by (auto simp: lim_type_def)
  moreover have "wa_data_type a \<noteq> DEV_ENCODED" using assms(2,3) by (auto simp: elt_type_def integer_types_def)
  ultimately have tm: "type_value m = type_value v" using t assms(3) by (simp add: lim_type_def elt_type_def)
  obtain i where i: "tv_int v = Some i" using integer_value [OF assms(2)] by blast
  obtain j where j: "tv_int m = Some j" using integer_value [of m] assms(2) tm by auto
  show thesis using that [of m j i] m i j tm e by (simp add: limit_value_def)
qed

lemma check_bounds_integer:
  assumes "wf_limits (we_arith E) (wa_limits a)" "type_value v \<in> set integer_types"
    "type_value v = elt_type (wa_data_type a)"
  shows "if within_bounds a (the (tv_int v)) then check_bounds E a v = Ok ()
    else \<exists>m. check_bounds E a v = Throw (DevFailed ''API_WAttrOutsideLimit'' m)"
proof -
  let ?i = "the (tv_int v)"
  have lo: "(if la_set (wa_limits a) Min_value
      then rbind (limit_value Min_value a) (\<lambda>m. rbind (tv_lt (we_arith E) v m) (\<lambda>b.
        if b then outside_limit ''below the minimum authorized'' else Ok ()))
      else Ok ()) =
      (if la_set (wa_limits a) Min_value \<and> \<not> the (tv_int (the (la_val (wa_limits a) Min_value))) \<le> ?i
       then outside_limit ''below the minimum authorized'' else Ok ())"
  proof (cases "la_set (wa_limits a) Min_value")
    case True
    show ?thesis
      by (rule bound_integer [OF assms True]) (auto simp: tv_lt_integer)
  qed simp
  have hi: "(if la_set (wa_limits a) Max_value
      then rbind (limit_value Max_value a) (\<lambda>m. rbind (tv_lt (we_arith E) m v) (\<lambda>b.
        if b then outside_limit ''above the maximum authorized'' else Ok ()))
      else Ok ()) =
      (if la_set (wa_limits a) Max_value \<and> \<not> ?i \<le> the (tv_int (the (la_val (wa_limits a) Max_value)))
       then outside_limit ''above the maximum authorized'' else Ok ())"
  proof (cases "la_set (wa_limits a) Max_value")
    case True
    show ?thesis
      by (rule bound_integer [OF assms True]) (auto simp: tv_lt_integer)
  qed simp
  show ?thesis
    unfolding check_bounds_def lo hi by (auto simp: within_bounds_def outside_limit_def)
qed

text \<open>
  A check that passes exactly for the values of a set, and otherwise throws with a reason.
\<close>

definition decides :: "string \<Rightarrow> ('a \<Rightarrow> bool) \<Rightarrow> ('a \<Rightarrow> unit result) \<Rightarrow> 'a \<Rightarrow> bool" where
  "decides reason p f x \<longleftrightarrow> (if p x then f x = Ok () else \<exists>m. f x = Throw (DevFailed reason m))"

lemma check_all_decides:
  "\<forall>x \<in> set xs. decides reason p f x \<Longrightarrow> decides reason (\<lambda>xs. \<forall>x \<in> set xs. p x) (check_all f) xs"
  by (induction xs) (auto simp: decides_def split: if_splits)

lemma integer_elt:
  assumes "type_value v \<in> set integer_types"
  shows "check_elt E a v = check_bounds E a v"
  using assms by (cases v) (simp_all add: integer_types_def check_nan_def)

lemma check_elt_decides:
  assumes "wf_limits (we_arith E) (wa_limits a)" "type_value v \<in> set integer_types"
    "type_value v = elt_type (wa_data_type a)"
  shows "decides ''API_WAttrOutsideLimit'' (\<lambda>v. within_bounds a (the (tv_int v))) (check_elt E a) v"
  using check_bounds_integer [OF assms] integer_elt [OF assms(2)] by (simp add: decides_def)

lemma check_enum_decides:
  assumes "type_value v \<in> set integer_types"
  shows "decides ''API_WAttrOutsideLimit''
    (\<lambda>v. wa_data_type a = DEV_ENUM \<longrightarrow> 0 \<le> the (tv_int v) \<and> the (tv_int v) < int (length (wa_enum_labels a))) (check_enum a) v"
  using integer_value [OF assms] by (auto simp: decides_def check_enum_def outside_limit_def)

lemma check_data_limits_decides:
  assumes "wf_limits (we_arith E) (wa_limits a)" "\<forall>v \<in> set vs. type_value v = elt_type (wa_data_type a)"
    and "elt_type (wa_data_type a) \<in> set integer_types"
  shows "decides ''API_WAttrOutsideLimit'' (\<lambda>vs. \<forall>v \<in> set vs. acceptable a v) (\<lambda>vs. check_data_limits E vs a) vs"
proof -
  have "\<forall>v \<in> set vs. decides ''API_WAttrOutsideLimit'' (\<lambda>v. within_bounds a (the (tv_int v))) (check_elt E a) v"
    using check_elt_decides [OF assms(1)] assms(2,3) by simp
  then have b: "decides ''API_WAttrOutsideLimit'' (\<lambda>vs. \<forall>v \<in> set vs. within_bounds a (the (tv_int v))) (check_all (check_elt E a)) vs"
    by (rule check_all_decides)
  have e: "decides ''API_WAttrOutsideLimit'' (\<lambda>vs. \<forall>v \<in> set vs. wa_data_type a = DEV_ENUM \<longrightarrow>
      0 \<le> the (tv_int v) \<and> the (tv_int v) < int (length (wa_enum_labels a))) (check_all (check_enum a)) vs"
    using assms(2,3) by (intro check_all_decides ballI check_enum_decides) simp
  show ?thesis
  proof (cases "\<forall>v \<in> set vs. within_bounds a (the (tv_int v))")
    case True
    then have "check_data_limits E vs a = check_all (check_enum a) vs" using b by (simp add: decides_def check_data_limits_def)
    then show ?thesis using e True by (simp add: decides_def acceptable_def)
  next
    case False
    then obtain m where "check_all (check_elt E a) vs = Throw (DevFailed ''API_WAttrOutsideLimit'' m)"
      using b unfolding decides_def if_not_P [OF False] by blast
    then have "check_data_limits E vs a = Throw (DevFailed ''API_WAttrOutsideLimit'' m)" by (simp add: check_data_limits_def)
    then show ?thesis using False by (auto simp: decides_def acceptable_def)
  qed
qed

lemma update_internal_sequence_Ok:
  assumes "check_length (length vs) x y = Ok ()" "check_data_limits E vs a = Ok ()" "vs \<noteq> []"
  shows "\<exists>b. update_internal_sequence E vs x y a = (Ok (), b) \<and> wa_ptr b = vs \<and>
    (wa_format a = SCALAR \<longrightarrow> wa_value b = hd vs \<and> wa_old b = wa_value a)"
proof -
  obtain v ws where vs: "vs = v # ws" using assms(3) by (cases vs) auto
  show ?thesis using assms(1,2) unfolding update_internal_sequence_def vs by (simp add: Let_def)
qed


text \<open>
  After a failed write of a scalar attribute the value before is restored, for every
  type except unsigned characters and encoded values. For unsigned characters the new
  value stays, the string of the attribute is freed, and the next failed write or the
  destruction of the attribute frees it again.
\<close>

theorem rollback_restores:
  assumes "check_written_value E i x y a = (Ok (), b)" "wa_format a = SCALAR" "wa_str_alive a"
    and "wa_data_type a \<noteq> DEV_ENCODED"
  shows "if wa_data_type a = DEV_UCHAR
    then \<exists>c. rollback b = (Ok (), c) \<and> wa_value c = hd (wa_ptr b) \<and> fst (rollback c) = Undef \<and> WAttribute_delete c = Undef
    else \<exists>c. rollback b = (Ok (), c) \<and> wa_value c = wa_value a \<and> WAttribute_delete c = Ok ()"
proof -
  obtain t vs where i: "i = Incoming t vs" by (cases i)
  have w: "wa_data_type a \<in> set writable_types" "update_internal_sequence E vs x y a = (Ok (), b)"
    using assms(1) i by (auto simp: check_written_value_def split: if_splits)
  have "check_length (length vs) x y = Ok ()"
    using w(2) by (cases "check_length (length vs) x y") (simp_all add: update_internal_sequence_def)
  moreover have "check_data_limits E vs a = Ok ()"
    using w(2) calculation by (cases "check_data_limits E vs a") (simp_all add: update_internal_sequence_def)
  ultimately obtain v ws where "vs = v # ws"
      "b = a\<lparr>wa_ptr := vs, wa_old := wa_value a, wa_value := v, w_dim_x := 1, w_dim_y := 0\<rparr>"
    using w(2) assms(2) by (cases vs) (auto simp: update_internal_sequence_def Let_def)
  then show ?thesis using w(1) assms(3,4)
    by (cases "wa_data_type a = DEV_UCHAR") (simp_all add: rollback_def WAttribute_delete_def)
qed

section \<open>Examples\<close>

definition ex_wenv :: "int w_env" where
  "ex_wenv = \<lparr>we_arith = le_arith ex_env, we_finite = (\<lambda>_. True), we_nan_allowed = False\<rparr>"

definition ex_wattr :: "CmdArgType \<Rightarrow> int tval \<Rightarrow> int w_attr" where
  "ex_wattr t v = \<lparr>wa_limits = ex_attr\<lparr>la_data_type := t\<rparr>, wa_format = SCALAR, wa_enum_labels = [], wa_value = v, wa_old = v,
    wa_ptr = [], wa_last = [v], w_dim_x = 1, w_dim_y = 0, wa_str_alive = True, wa_user_set = False, wa_write_date = 0\<rparr>"

definition ex_bounded :: "int w_attr" where
  "ex_bounded = (ex_wattr DEV_SHORT (V_SHORT 0))\<lparr>wa_limits := ex_attr\<lparr>la_val := (\<lambda>_. None)(Max_value := Some (V_SHORT 7)),
    la_set := (\<lambda>_. False)(Max_value := True)\<rparr>\<rparr>"


theorem rollback_restores_witness:
  "\<exists>c. rollback (snd (check_written_value ex_wenv (Incoming DEV_UCHAR [V_UCHAR 9]) 1 0 (ex_wattr DEV_UCHAR (V_UCHAR 3)))) = (Ok (), c) \<and>
    wa_value c = V_UCHAR 9 \<and> fst (rollback c) = Undef \<and> WAttribute_delete c = Undef"
proof -
  let ?a = "ex_wattr DEV_UCHAR (V_UCHAR 3)"
  obtain b where b: "check_written_value ex_wenv (Incoming DEV_UCHAR [V_UCHAR 9]) 1 0 ?a = (Ok (), b)" "wa_ptr b = [V_UCHAR 9]"
    by (simp add: check_written_value_def writable_types_def elt_type_def update_internal_sequence_def check_length_def
        check_data_limits_def check_nan_def check_bounds_def check_enum_def ex_wattr_def ex_attr_def)
  then show ?thesis
    using rollback_restores [OF b(1)] by (simp add: ex_wattr_def)
qed

end
