(* ===== verification/Attr_Alarm.thy ===== *)
theory Attr_Alarm
  imports W_Attribute
begin

text \<open>
  The value of an attribute and its alarms (\<open>attribute.cpp\<close>, \<open>w_attribute.cpp\<close>,
  \<open>multiattribute.cpp\<close>): setting the value in a reading, the comparison with the alarm and
  warning levels, the comparison of the value that is read with the one that was written,
  the quality that results, and the messages in the log and in the status of the device.
\<close>

section \<open>Data\<close>

datatype alarm_flag = min_level | max_level | rds_flag | min_warn | max_warn

datatype log_level = Log_error | Log_warn | Log_info

text \<open>
  An attribute, with its writable part and its limits. \<open>al_alarm\<close> is the bit set of the
  alarms found, \<open>al_rds_conf\<close> the bit for the comparison with the written value in
  \<open>alarm_conf\<close>; the other bits are those of the limits. \<open>al_value\<close> is the sequence of the
  value, if there is one. Dates are in microseconds, \<open>al_delta_t\<close> is in milliseconds.
\<close>

record 'f al_attr =
  al_w :: "'f w_attr"
  al_writable :: bool
  al_name :: string
  al_label :: string
  al_is_fwd :: bool
  al_is_polled :: bool
  al_quality :: AttrQuality
  al_old_quality :: AttrQuality
  al_alarm :: "alarm_flag \<Rightarrow> bool"
  al_old_alarm :: "alarm_flag \<Rightarrow> bool"
  al_rds_conf :: bool
  al_value :: "'f tval list option"
  al_data_size :: nat
  al_dim_x :: int
  al_dim_y :: int
  al_max_x :: int
  al_max_y :: int
  al_delta_t :: int
  al_delta_val :: "'f tval option"
  al_date :: bool
  al_when :: int
  al_log :: "(log_level \<times> string) list"

text \<open>
  The surroundings: the clock, the arithmetic, and for each floating-point type the largest
  number and the smallest positive normalised one, which is what
  \<open>std::numeric_limits::min\<close> returns for it.
\<close>

record 'f al_env =
  ae_now :: int
  ae_arith :: "'f arith"
  ae_dbl_max :: 'f
  ae_dbl_min :: 'f
  ae_flt_max :: 'f
  ae_flt_min :: 'f

type_synonym ('f, 'a) al_op = "'f al_attr \<Rightarrow> 'a result \<times> 'f al_attr"

abbreviation al_data_type :: "'f al_attr \<Rightarrow> CmdArgType" where
  "al_data_type a \<equiv> wa_data_type (al_w a)"

abbreviation al_limits :: "'f al_attr \<Rightarrow> 'f lim_attr" where
  "al_limits a \<equiv> wa_limits (al_w a)"

fun alarm_conf :: "'f al_attr \<Rightarrow> alarm_flag \<Rightarrow> bool" where
  "alarm_conf a min_level = la_set (al_limits a) Min_alarm"
| "alarm_conf a max_level = la_set (al_limits a) Max_alarm"
| "alarm_conf a min_warn = la_set (al_limits a) Min_warning"
| "alarm_conf a max_warn = la_set (al_limits a) Max_warning"
| "alarm_conf a rds_flag = al_rds_conf a"

definition alarm_none :: "(alarm_flag \<Rightarrow> bool) \<Rightarrow> bool" where
  "alarm_none s \<longleftrightarrow> \<not> s min_level \<and> \<not> s max_level \<and> \<not> s rds_flag \<and> \<not> s min_warn \<and> \<not> s max_warn"


section \<open>The value\<close>

definition compute_data_size :: "AttrDataFormat \<Rightarrow> int \<Rightarrow> int \<Rightarrow> int" where
  "compute_data_size f x y = (case f of SCALAR \<Rightarrow> 1 | SPECTRUM \<Rightarrow> x | IMAGE \<Rightarrow> x * y | FMT_UNKNOWN \<Rightarrow> 0)"

definition value_error :: "string \<Rightarrow> 'a result" where
  "value_error what = Throw (DevFailed ''API_AttrOptProp'' what)"

definition set_time :: "'f al_env \<Rightarrow> 'f al_attr \<Rightarrow> 'f al_attr" where
  "set_time E a = (if al_date a then a\<lparr>al_when := ae_now E\<rparr> else a)"

definition enum_value_ok :: "string list \<Rightarrow> 'f tval \<Rightarrow> bool" where
  "enum_value_ok labels v = (case tv_int v of Some i \<Rightarrow> 0 \<le> i \<and> i \<le> int (length labels) - 1 | None \<Rightarrow> False)"

text \<open>
  The value of a reading, of type \<open>t\<close>. The number of elements is the product of the
  dimensions, taken with 32 bits; a buffer with fewer elements is undefined. For strings
  the alarms are not reset.
\<close>

definition set_value :: "'f al_env \<Rightarrow> CmdArgType \<Rightarrow> 'f tval list option \<Rightarrow> int \<Rightarrow> int \<Rightarrow> ('f, unit) al_op" where
  "set_value E t p x y a =
    (let dt = al_data_type a; labels = wa_enum_labels (al_w a); sz = compute_data_size (wa_format (al_w a)) x y;
         n = nat (sz mod 2 ^ 32);
         a1 = a\<lparr>al_dim_x := x, al_dim_y := y, al_data_size := n, al_quality := ATTR_VALID\<rparr>
     in if \<not> (dt = t \<or> t = DEV_SHORT \<and> dt = DEV_ENUM) then (value_error ''Invalid incoming data type'', a)
        else if x > al_max_x a \<or> y > al_max_y a then (value_error ''Data size exceeds given limit'', a)
        else if \<not> (- (2 ^ 63) \<le> sz \<and> sz < 2 ^ 63) then (Undef, a)
        else if n \<noteq> 0 \<and> p = None then (value_error ''Data pointer is NULL'', a1)
        else if dt = DEV_ENUM \<and> labels = [] then (value_error ''data type is enum but no enum labels are defined'', a1)
        else let vs = (case p of Some vs \<Rightarrow> vs | None \<Rightarrow> []) in
          if n > length vs then (Undef, a1)
          else if dt = DEV_ENUM \<and> \<not> list_all (enum_value_ok labels) (take n vs) then (value_error ''Wrong value'', a1)
          else (Ok (), set_time E (a1\<lparr>al_value := Some (take n vs),
            al_alarm := (if t = DEV_STRING then al_alarm a else (\<lambda>_. False))\<rparr>)))"

definition set_quality :: "AttrQuality \<Rightarrow> 'f al_attr \<Rightarrow> 'f al_attr" where
  "set_quality q a = a\<lparr>al_quality := q\<rparr>"

definition save_alarm_quality :: "'f al_attr \<Rightarrow> 'f al_attr" where
  "save_alarm_quality a = a\<lparr>al_old_quality := al_quality a, al_old_alarm := al_alarm a\<rparr>"

definition delete_seq :: "'f al_attr \<Rightarrow> 'f al_attr" where
  "delete_seq a = a\<lparr>al_value := None, al_data_size := 0\<rparr>"

definition delete_seq_and_reset_alarm :: "'f al_attr \<Rightarrow> 'f al_attr" where
  "delete_seq_and_reset_alarm a = (delete_seq a)\<lparr>al_quality := ATTR_VALID, al_alarm := (\<lambda>_. False)\<rparr>"


section \<open>Alarm and warning levels\<close>

text \<open>
  The loop over the first elements of the value, up to the first one with a property.
\<close>

fun any_upto :: "('a \<Rightarrow> bool result) \<Rightarrow> nat \<Rightarrow> 'a list \<Rightarrow> bool result" where
  "any_upto f 0 xs = Ok False"
| "any_upto f (Suc n) [] = Undef"
| "any_upto f (Suc n) (x # xs) = rbind (f x) (\<lambda>b. if b then Ok True else any_upto f n xs)"

definition against :: "'f al_env \<Rightarrow> limit \<Rightarrow> 'f al_attr \<Rightarrow> 'f tval \<Rightarrow> bool result" where
  "against E l a v =
    (case la_val (al_limits a) l of
       Some m \<Rightarrow> if is_lower l then tv_le (ae_arith E) v m else tv_le (ae_arith E) m v
     | None \<Rightarrow> Undef)"

definition raise_alarm :: "AttrQuality \<Rightarrow> alarm_flag \<Rightarrow> 'f al_attr \<Rightarrow> 'f al_attr" where
  "raise_alarm q f a = a\<lparr>al_quality := q, al_alarm := (al_alarm a)(f := True)\<rparr>"

definition check_one :: "'f al_env \<Rightarrow> AttrQuality \<Rightarrow> alarm_flag \<Rightarrow> limit \<Rightarrow> nat \<Rightarrow> 'f tval list \<Rightarrow> ('f, bool) al_op" where
  "check_one E q f l n vs a =
    (if alarm_conf a f
     then sbind (any_upto (against E l a) n vs, a) (\<lambda>b a. (Ok b, if b then raise_alarm q f a else a))
     else (Ok False, a))"

definition check_two ::
  "'f al_env \<Rightarrow> AttrQuality \<Rightarrow> alarm_flag \<Rightarrow> alarm_flag \<Rightarrow> limit \<Rightarrow> limit \<Rightarrow> nat \<Rightarrow> 'f tval list \<Rightarrow> ('f, bool) al_op" where
  "check_two E q fmin fmax lmin lmax n vs a =
    sbind (check_one E q fmin lmin n vs a) (\<lambda>b1 a.
    sbind (check_one E q fmax lmax n vs a) (\<lambda>b2 a. (Ok (b1 \<or> b2), a)))"

definition general_check_alarm :: "'f al_env \<Rightarrow> AttrQuality \<Rightarrow> limit \<Rightarrow> limit \<Rightarrow> ('f, bool) al_op" where
  "general_check_alarm E q lmin lmax a =
    (case al_value a of
       None \<Rightarrow> (Undef, a)
     | Some vs \<Rightarrow>
         if q = ATTR_ALARM then check_two E q min_level max_level lmin lmax (al_data_size a) vs a
         else if q = ATTR_WARNING then check_two E q min_warn max_warn lmin lmax (al_data_size a) vs a
         else (Throw (DevFailed ''API_InternalError'' ''Unknown alarm_type''), a))"

text \<open>
  For an encoded value the flags are those of the alarm levels for both qualities.
\<close>

definition general_check_devencoded_alarm :: "'f al_env \<Rightarrow> AttrQuality \<Rightarrow> limit \<Rightarrow> limit \<Rightarrow> ('f, bool) al_op" where
  "general_check_devencoded_alarm E q lmin lmax a =
    (case al_value a of
       Some (V_ENCODED fmt d # _) \<Rightarrow>
         if q = ATTR_ALARM \<or> q = ATTR_WARNING
         then check_two E q min_level max_level lmin lmax (length d) (map V_UCHAR d) a
         else (Throw (DevFailed ''API_InternalError'' ''Unknown alarm_type''), a)
     | _ \<Rightarrow> (Undef, a))"

definition level_types :: "CmdArgType list" where
  "level_types = [DEV_SHORT, DEV_LONG, DEV_LONG64, DEV_DOUBLE, DEV_FLOAT, DEV_USHORT, DEV_UCHAR, DEV_ULONG64, DEV_ULONG]"

definition check_level_alarm :: "'f al_env \<Rightarrow> ('f, bool) al_op" where
  "check_level_alarm E a =
    (if al_data_type a \<in> set level_types then general_check_alarm E ATTR_ALARM Min_alarm Max_alarm a
     else if al_data_type a = DEV_ENCODED then general_check_devencoded_alarm E ATTR_ALARM Min_alarm Max_alarm a
     else (Ok False, a))"

definition check_warn_alarm :: "'f al_env \<Rightarrow> ('f, bool) al_op" where
  "check_warn_alarm E a =
    (if al_data_type a \<in> set level_types then general_check_alarm E ATTR_WARNING Min_warning Max_warning a
     else if al_data_type a = DEV_ENCODED then general_check_devencoded_alarm E ATTR_WARNING Min_warning Max_warning a
     else (Ok False, a))"

section \<open>Read different from set\<close>

text \<open>
  The comparison of a value read with the value written, by type. Signed types shorter
  than 32 bits are computed with 32 bits; a sum or a difference that does not fit is
  undefined.
\<close>

definition signed_bits :: "CmdArgType \<Rightarrow> nat option" where
  "signed_bits t = (if t = DEV_SHORT then Some 16 else if t = DEV_LONG then Some 32 else if t = DEV_LONG64 then Some 64 else None)"

definition promoted :: "nat \<Rightarrow> int \<Rightarrow> int result" where
  "promoted w i = (let p = max 32 w in if - (2 ^ (p - 1)) \<le> i \<and> i < 2 ^ (p - 1) then Ok i else Undef)"

definition distance :: "int \<Rightarrow> int \<Rightarrow> int" where
  "distance x y = (if x > y then x - y else y - x)"

definition rds_near :: "nat \<Rightarrow> int \<Rightarrow> int \<Rightarrow> int \<Rightarrow> bool result" where
  "rds_near w x y d = rbind (promoted w (distance x y)) (\<lambda>k. Ok (k \<ge> d))"

definition rds_signed :: "nat \<Rightarrow> int \<Rightarrow> int \<Rightarrow> int \<Rightarrow> bool result" where
  "rds_signed w x y d =
    (if x < 0 then rbind (promoted w (2 ^ (w - 1) - 1 + x)) (\<lambda>m. if y > m then Ok True else rds_near w x y d)
     else rbind (promoted w (- (2 ^ (w - 1)) + x)) (\<lambda>m. if y \<le> m then Ok True else rds_near w x y d))"

text \<open>
  Floating-point types, with their largest number and the number that
  \<open>std::numeric_limits::min\<close> gives, which is the smallest positive one.
\<close>

definition rds_float :: "'f fp \<Rightarrow> 'f \<Rightarrow> 'f \<Rightarrow> 'f \<Rightarrow> 'f \<Rightarrow> 'f \<Rightarrow> bool" where
  "rds_float F mx mn x y d =
    (let less = (\<lambda>u v. fp_le F u v \<and> \<not> fp_eq F u v); zero = fp_of_int F 0
     in if fp_nan F x \<noteq> fp_nan F y then True
        else if less x zero \<and> less (fp_add F mx x) y then True
        else if fp_le F zero x \<and> fp_le F y (fp_add F mn x) then True
        else fp_le F d (if less y x then fp_sub F x y else fp_sub F y x))"

definition rds_elt :: "'f al_env \<Rightarrow> 'f tval option \<Rightarrow> 'f tval \<times> 'f tval \<Rightarrow> bool result" where
  "rds_elt E d p =
    (case (p, d) of
       ((x, y), Some k) \<Rightarrow>
         if type_value x = type_value y \<and> type_value k = type_value x
         then case (tv_int x, tv_int y, tv_int k) of
             (Some i, Some j, Some m) \<Rightarrow>
               (case signed_bits (type_value x) of Some w \<Rightarrow> rds_signed w i j m | None \<Rightarrow> Ok (distance i j \<ge> m))
           | _ \<Rightarrow>
               (case [x, y, k] of
                  [V_DOUBLE u, V_DOUBLE v, V_DOUBLE m] \<Rightarrow> Ok (rds_float (dbl (ae_arith E)) (ae_dbl_max E) (ae_dbl_min E) u v m)
                | [V_FLOAT u, V_FLOAT v, V_FLOAT m] \<Rightarrow> Ok (rds_float (sgl (ae_arith E)) (ae_flt_max E) (ae_flt_min E) u v m)
                | _ \<Rightarrow> Undef)
         else Undef
     | _ \<Rightarrow> Undef)"

definition check_rds_out_of_range :: "'f al_env \<Rightarrow> 'f tval list \<Rightarrow> 'f tval list \<Rightarrow> ('f, bool) al_op" where
  "check_rds_out_of_range E written vs a =
    (let nb_read = (if wa_format (al_w a) = SCALAR then 1 else length vs)
     in sbind (any_upto (rds_elt E (al_delta_val a)) (min nb_read (length written)) (zip written vs), a)
          (\<lambda>b a. (Ok b, if b then raise_alarm ATTR_ALARM rds_flag a else a)))"

definition check_rds_encoded :: "'f tval \<Rightarrow> 'f tval list \<Rightarrow> ('f, bool) al_op" where
  "check_rds_encoded written vs a =
    (case (written, vs) of
       (V_ENCODED f d, V_ENCODED g e # _) \<Rightarrow>
         if f \<noteq> g then (Ok True, raise_alarm ATTR_ALARM rds_flag a)
         else sbind (any_upto (\<lambda>(x, y). case al_delta_val a of Some (V_UCHAR m) \<Rightarrow> Ok (\<bar>uint x - uint y\<bar> \<ge> uint m) | _ \<Rightarrow> Undef)
             (min (length d) (length e)) (zip d e), a)
           (\<lambda>b a. (Ok b, if b then raise_alarm ATTR_ALARM rds_flag a else a))
     | _ \<Rightarrow> (Undef, a))"

definition rds_due :: "'f al_env \<Rightarrow> 'f al_attr \<Rightarrow> bool" where
  "rds_due E a \<longleftrightarrow> al_writable a \<and> wa_write_date (al_w a) div 1000000 \<noteq> 0 \<and>
    ae_now E - wa_write_date (al_w a) \<ge> al_delta_t a * 1000"

definition check_rds_alarm :: "'f al_env \<Rightarrow> ('f, bool) al_op" where
  "check_rds_alarm E a =
    (if \<not> rds_due E a then (Ok False, a)
     else case al_value a of
         None \<Rightarrow> if al_data_type a \<in> set level_types \<or> al_data_type a = DEV_ENCODED then (Undef, a) else (Ok False, a)
       | Some vs \<Rightarrow>
           if al_data_type a \<in> set level_types then check_rds_out_of_range E (wa_last (al_w a)) vs a
           else if al_data_type a = DEV_ENCODED then check_rds_encoded (wa_value (al_w a)) vs a
           else (Ok False, a))"


section \<open>The check\<close>

definition add_log :: "log_level \<Rightarrow> string \<Rightarrow> 'f al_attr \<Rightarrow> 'f al_attr" where
  "add_log l what a = a\<lparr>al_log := al_log a @ [(l, what @ '' for attribute '' @ al_name a)]\<rparr>"

definition log_alarm_quality :: "'f al_attr \<Rightarrow> 'f al_attr" where
  "log_alarm_quality a =
    (if al_alarm a min_level then add_log Log_error ''MIN ALARM'' a
     else if al_alarm a max_level then add_log Log_error ''MAX ALARM'' a
     else if al_alarm a rds_flag then add_log Log_warn ''RDS (Read Different Set) ALARM'' a
     else if al_alarm a min_warn then add_log Log_warn ''MIN WARNING'' a
     else if al_alarm a max_warn then add_log Log_warn ''MAX WARNING'' a
     else a)"

definition same_flags :: "(alarm_flag \<Rightarrow> bool) \<Rightarrow> (alarm_flag \<Rightarrow> bool) \<Rightarrow> bool" where
  "same_flags s t \<longleftrightarrow> s min_level = t min_level \<and> s max_level = t max_level \<and> s rds_flag = t rds_flag \<and>
    s min_warn = t min_warn \<and> s max_warn = t max_warn"

definition log_quality :: "'f al_attr \<Rightarrow> 'f al_attr" where
  "log_quality a =
    (if al_quality a \<noteq> al_old_quality a
     then if alarm_none (al_alarm a)
       then case al_quality a of
           ATTR_INVALID \<Rightarrow> add_log Log_error ''INVALID quality'' a
         | ATTR_CHANGING \<Rightarrow> add_log Log_info ''CHANGING quality'' a
         | ATTR_VALID \<Rightarrow> add_log Log_info ''INFO quality'' a
         | ATTR_WARNING \<Rightarrow> add_log Log_warn ''User defined WARNING quality'' a
         | ATTR_ALARM \<Rightarrow> add_log Log_error ''User defined ALARM quality'' a
       else log_alarm_quality a
     else if \<not> same_flags (al_alarm a) (al_old_alarm a) then log_alarm_quality a
     else a)"

definition check_alarm :: "'f al_env \<Rightarrow> ('f, bool) al_op" where
  "check_alarm E a =
    (let returned = al_quality a = ATTR_ALARM \<or> al_quality a = ATTR_WARNING
     in if alarm_none (alarm_conf a)
        then (Throw (DevFailed ''API_AttrNoAlarm'' (''No alarm defined for attribute '' @ al_name a)), a)
        else if \<not> al_is_fwd a \<and> al_quality a \<noteq> ATTR_VALID then (Ok returned, log_quality a)
        else
          sbind (if alarm_conf a min_level \<or> alarm_conf a max_level then check_level_alarm E a else (Ok False, a)) (\<lambda>b a.
          let returned = returned \<or> b in
          sbind (if \<not> returned \<and> (alarm_conf a min_warn \<or> alarm_conf a max_warn) then check_warn_alarm E a
                 else (Ok False, a)) (\<lambda>b a.
          let returned = returned \<or> b in
          sbind (if alarm_conf a rds_flag then check_rds_alarm E a else (Ok False, a)) (\<lambda>b a.
            (Ok (returned \<or> b), log_quality a)))))"


section \<open>The attributes of a device\<close>

text \<open>
  The attributes of a device and the positions of those with an alarm.
\<close>

record 'f multi_attr =
  attr_list :: "'f al_attr list"
  alarm_attr_list :: "nat list"

fun check_alarms :: "'f al_env \<Rightarrow> nat list \<Rightarrow> bool \<Rightarrow> 'f multi_attr \<Rightarrow> bool result \<times> 'f multi_attr" where
  "check_alarms E [] ret m = (Ok ret, m)"
| "check_alarms E (i # js) ret m =
    (if i \<ge> length (attr_list m) then (Undef, m)
     else let a = attr_list m ! i; ret = (ret \<or> al_quality a = ATTR_ALARM) in
       if al_quality a = ATTR_INVALID \<or> al_is_polled a then check_alarms E js ret m
       else let (r, b) = check_alarm E a in
         sbind (r, m\<lparr>attr_list := (attr_list m)[i := b]\<rparr>) (\<lambda>tmp_ret m. check_alarms E js (ret \<or> tmp_ret) m))"

definition multi_check_alarm :: "'f al_env \<Rightarrow> 'f multi_attr \<Rightarrow> bool result \<times> 'f multi_attr" where
  "multi_check_alarm E m = check_alarms E (alarm_attr_list m) False m"

definition LabelNotSpec :: string where
  "LabelNotSpec = ''No label''"

definition alarm_line :: "string \<Rightarrow> 'f al_attr \<Rightarrow> string" where
  "alarm_line what a = CHR 0x0A # what @ '' for '' @ (if al_label a = LabelNotSpec then ''attribute '' @ al_name a else al_label a)"

definition alarm_lines :: "'f al_attr \<Rightarrow> string" where
  "alarm_lines a =
    (if al_alarm a min_level then alarm_line ''Alarm : Value too low'' a
     else if al_alarm a max_level then alarm_line ''Alarm : Value too high'' a else []) @
    (if al_alarm a rds_flag then alarm_line ''Alarm : Read too Different than Set (RDS)'' a else []) @
    (if al_alarm a min_warn then alarm_line ''Warning : Value too low'' a
     else if al_alarm a max_warn then alarm_line ''Warning : Value too high'' a else [])"

fun read_alarms :: "'f multi_attr \<Rightarrow> nat list \<Rightarrow> string \<Rightarrow> string result" where
  "read_alarms m [] status = Ok status"
| "read_alarms m (i # js) status =
    (if i \<ge> length (attr_list m) then Undef else read_alarms m js (status @ alarm_lines (attr_list m ! i)))"

definition read_alarm :: "'f multi_attr \<Rightarrow> string \<Rightarrow> string result" where
  "read_alarm m status = read_alarms m (alarm_attr_list m) status"

definition is_att_quality_alarmed :: "'f multi_attr \<Rightarrow> bool" where
  "is_att_quality_alarmed m = list_ex (\<lambda>a. al_quality a = ATTR_ALARM \<or> al_quality a = ATTR_WARNING) (attr_list m)"

definition quality_line :: "'f al_attr \<Rightarrow> string" where
  "quality_line a =
    (let who = (if al_label a = LabelNotSpec then al_name a else al_label a)
     in if al_quality a = ATTR_ALARM then CHR 0x0A # ''Alarm : Quality factor set to ALARM for attribute '' @ who
        else if al_quality a = ATTR_WARNING then CHR 0x0A # ''Warning : Quality factor set to WARNING for attribute '' @ who
        else [])"

definition add_alarmed_quality_factor :: "'f multi_attr \<Rightarrow> string \<Rightarrow> string" where
  "add_alarmed_quality_factor m status =
    status @ concat (map (\<lambda>i. if i \<in> set (alarm_attr_list m) then [] else quality_line (attr_list m ! i))
      [0..<length (attr_list m)])"

section \<open>Integer types\<close>

lemma any_upto_exists:
  assumes "n \<le> length xs" "\<And>x. x \<in> set (take n xs) \<Longrightarrow> f x = Ok (g x)"
  shows "any_upto f n xs = Ok (\<exists>x \<in> set (take n xs). g x)"
  using assms by (induction f n xs rule: any_upto.induct) auto

lemma distance_abs [simp]: "distance x y = \<bar>x - y\<bar>"
  by (simp add: distance_def)

text \<open>
  The detours around an overflow in the comparison of signed values give the same answer
  as the comparison of their distance.
\<close>

lemma rds_signed_exact:
  assumes "w = 16 \<or> w = 32 \<or> w = 64"
    and "- (2 ^ (w - 1)) \<le> x" "x < 2 ^ (w - 1)" "- (2 ^ (w - 1)) \<le> y" "y < 2 ^ (w - 1)" "d < 2 ^ (w - 1)"
  shows "rds_signed w x y d = Ok (d \<le> \<bar>x - y\<bar>)"
  using assms by (auto simp: rds_signed_def rds_near_def promoted_def Let_def)

lemma sint_bounds:
  "- (2 ^ (LENGTH('a) - 1)) \<le> sint (w :: 'a::len word)" "sint (w :: 'a::len word) < 2 ^ (LENGTH('a) - 1)"
  using sint_range_size [of w] by (simp_all add: word_size)

lemma signed_value_range:
  assumes "tv_int v = Some i" "signed_bits (type_value v) = Some w"
  shows "(w = 16 \<or> w = 32 \<or> w = 64) \<and> - (2 ^ (w - 1)) \<le> i \<and> i < 2 ^ (w - 1)"
proof (cases v)
  case (V_SHORT u)
  then show ?thesis using assms sint_bounds [of u] by (simp add: signed_bits_def)
next
  case (V_LONG u)
  then show ?thesis using assms sint_bounds [of u] by (simp add: signed_bits_def)
next
  case (V_LONG64 u)
  then show ?thesis using assms sint_bounds [of u] by (simp add: signed_bits_def)
qed (use assms in \<open>simp_all add: signed_bits_def\<close>)

lemma rds_elt_integer:
  assumes "type_value x \<in> set integer_types" "type_value y = type_value x" "type_value k = type_value x"
  shows "rds_elt E (Some k) (x, y) = Ok (the (tv_int k) \<le> \<bar>the (tv_int x) - the (tv_int y)\<bar>)"
proof -
  obtain i j m where v: "tv_int x = Some i" "tv_int y = Some j" "tv_int k = Some m"
    using integer_value assms by metis
  show ?thesis
  proof (cases "signed_bits (type_value x)")
    case None
    then show ?thesis using assms(2,3) v by (simp add: rds_elt_def)
  next
    case (Some w)
    then have "rds_signed w i j m = Ok (m \<le> \<bar>i - j\<bar>)"
      using signed_value_range [OF v(1)] signed_value_range [OF v(2)] signed_value_range [OF v(3)] assms(2,3)
      by (intro rds_signed_exact) auto
    then show ?thesis using assms(2,3) v Some by (simp add: rds_elt_def)
  qed
qed

text \<open>
  What the levels and the written value say about a reading, on integers.
\<close>

definition level_int :: "limit \<Rightarrow> 'f al_attr \<Rightarrow> int" where
  "level_int l a = the (tv_int (the (la_val (al_limits a) l)))"

definition beyond :: "limit \<Rightarrow> 'f al_attr \<Rightarrow> bool" where
  "beyond l a \<longleftrightarrow> la_set (al_limits a) l \<and>
    (\<exists>v \<in> set (the (al_value a)). if is_lower l then the (tv_int v) \<le> level_int l a else level_int l a \<le> the (tv_int v))"

definition read_differs :: "'f al_env \<Rightarrow> 'f al_attr \<Rightarrow> bool" where
  "read_differs E a \<longleftrightarrow> al_rds_conf a \<and> rds_due E a \<and>
    (\<exists>(x, y) \<in> set (zip (wa_last (al_w a)) (the (al_value a))).
      the (tv_int (the (al_delta_val a))) \<le> \<bar>the (tv_int x) - the (tv_int y)\<bar>)"

text \<open>
  A reading of an integer attribute: the value that \<open>set_value\<close> leaves, the values that
  were written, and the threshold have the type of the attribute.
\<close>

definition wf_reading :: "'f al_attr \<Rightarrow> bool" where
  "wf_reading a \<longleftrightarrow> al_data_type a \<in> set integer_types \<and> al_data_type a \<noteq> DEV_ENUM \<and>
    (\<exists>vs. al_value a = Some vs \<and> al_data_size a = length vs \<and> (wa_format (al_w a) = SCALAR \<longrightarrow> length vs = 1) \<and>
      (\<forall>v \<in> set vs. type_value v = al_data_type a)) \<and>
    (\<forall>v \<in> set (wa_last (al_w a)). type_value v = al_data_type a) \<and>
    (al_rds_conf a \<longrightarrow> (\<exists>d. al_delta_val a = Some d \<and> type_value d = al_data_type a))"

definition mark :: "AttrQuality \<Rightarrow> alarm_flag \<Rightarrow> bool \<Rightarrow> 'f al_attr \<Rightarrow> 'f al_attr" where
  "mark q f b a = (if b then raise_alarm q f a else a)"

lemma mark_fields [simp]:
  "al_w (mark q f b a) = al_w a" "al_value (mark q f b a) = al_value a" "al_data_size (mark q f b a) = al_data_size a"
  "al_delta_val (mark q f b a) = al_delta_val a" "al_rds_conf (mark q f b a) = al_rds_conf a"
  "al_delta_t (mark q f b a) = al_delta_t a" "al_writable (mark q f b a) = al_writable a"
  "al_quality (mark q f b a) = (if b then q else al_quality a)"
  "al_alarm (mark q f b a) = (if b then (al_alarm a)(f := True) else al_alarm a)"
  by (simp_all add: mark_def raise_alarm_def)

lemma mark_spec [simp]:
  "alarm_conf (mark q f b a) g = alarm_conf a g" "wf_reading (mark q f b a) = wf_reading a"
  "beyond l (mark q f b a) = beyond l a" "read_differs E (mark q f b a) = read_differs E a"
  by (cases g) (simp_all add: wf_reading_def beyond_def level_int_def read_differs_def rds_due_def)

lemma check_one_integer:
  assumes "wf_limits (ae_arith E) (al_limits a)" "wf_reading a" "alarm_conf a f = la_set (al_limits a) l"
  shows "check_one E q f l (al_data_size a) (the (al_value a)) a = (Ok (beyond l a), mark q f (beyond l a) a)"
proof (cases "la_set (al_limits a) l")
  case True
  obtain vs where vs: "al_value a = Some vs" "al_data_size a = length vs" "\<And>v. v \<in> set vs \<Longrightarrow> type_value v = al_data_type a"
    using assms(2) by (auto simp: wf_reading_def)
  obtain m where m: "la_val (al_limits a) l = Some m" using wf_limitsD(3) [OF assms(1) True] by blast
  have dt: "al_data_type a \<in> set integer_types" using assms(2) by (simp add: wf_reading_def)
  then have t: "type_value m = al_data_type a"
    using wf_limitsD(2) [OF assms(1) m] by (auto simp: lim_type_def integer_types_def)
  have "against E l a v = Ok (if is_lower l then the (tv_int v) \<le> level_int l a else level_int l a \<le> the (tv_int v))"
    if mem: "v \<in> set (take (length vs) vs)" for v
  proof -
    obtain i j where "tv_int v = Some i" "tv_int m = Some j"
      using integer_value [of v] integer_value [of m] vs(3) [of v] mem t dt by auto
    then show ?thesis using m vs(3) [of v] mem t by (simp add: against_def level_int_def tv_le_def)
  qed
  then have "any_upto (against E l a) (length vs) vs = Ok (beyond l a)"
    using vs(1) True by (subst any_upto_exists [OF le_refl]) (simp_all add: beyond_def)
  then show ?thesis using True vs assms(3) by (simp add: check_one_def mark_def)
next
  case False
  then show ?thesis using assms(3) by (simp add: check_one_def mark_def beyond_def)
qed

lemma check_two_integer:
  assumes "wf_limits (ae_arith E) (al_limits a)" "wf_reading a"
    and "alarm_conf a f = la_set (al_limits a) l" "alarm_conf a g = la_set (al_limits a) k"
  shows "check_two E q f g l k (al_data_size a) (the (al_value a)) a =
    (Ok (beyond l a \<or> beyond k a), mark q g (beyond k a) (mark q f (beyond l a) a))"
  using check_one_integer [OF assms(1-3), of q]
    check_one_integer [of E "mark q f (beyond l a) a" g k q] assms
  by (simp add: check_two_def)

lemma level_type: "wf_reading a \<Longrightarrow> al_data_type a \<in> set level_types"
  by (auto simp: wf_reading_def integer_types_def level_types_def)

lemma check_level_integer:
  assumes "wf_limits (ae_arith E) (al_limits a)" "wf_reading a"
  shows "check_level_alarm E a = (Ok (beyond Min_alarm a \<or> beyond Max_alarm a),
      mark ATTR_ALARM max_level (beyond Max_alarm a) (mark ATTR_ALARM min_level (beyond Min_alarm a) a))"
    "check_warn_alarm E a = (Ok (beyond Min_warning a \<or> beyond Max_warning a),
      mark ATTR_WARNING max_warn (beyond Max_warning a) (mark ATTR_WARNING min_warn (beyond Min_warning a) a))"
proof -
  obtain vs where "al_value a = Some vs" using assms(2) by (auto simp: wf_reading_def)
  then show "check_level_alarm E a = (Ok (beyond Min_alarm a \<or> beyond Max_alarm a),
      mark ATTR_ALARM max_level (beyond Max_alarm a) (mark ATTR_ALARM min_level (beyond Min_alarm a) a))"
    "check_warn_alarm E a = (Ok (beyond Min_warning a \<or> beyond Max_warning a),
      mark ATTR_WARNING max_warn (beyond Max_warning a) (mark ATTR_WARNING min_warn (beyond Min_warning a) a))"
    using check_two_integer [OF assms] level_type [OF assms(2)]
    by (simp_all add: check_level_alarm_def check_warn_alarm_def general_check_alarm_def)
qed

lemma check_rds_integer:
  assumes "wf_reading a" "al_rds_conf a"
  shows "check_rds_alarm E a = (Ok (read_differs E a), mark ATTR_ALARM rds_flag (read_differs E a) a)"
proof (cases "rds_due E a")
  case True
  obtain vs d where v: "al_value a = Some vs" "wa_format (al_w a) = SCALAR \<longrightarrow> length vs = 1"
      "\<And>v. v \<in> set vs \<Longrightarrow> type_value v = al_data_type a" "al_delta_val a = Some d" "type_value d = al_data_type a"
      "\<And>v. v \<in> set (wa_last (al_w a)) \<Longrightarrow> type_value v = al_data_type a" "al_data_type a \<in> set integer_types"
    using assms by (auto simp: wf_reading_def)
  let ?g = "\<lambda>(x, y). the (tv_int d) \<le> \<bar>the (tv_int x) - the (tv_int y)\<bar>"
  let ?n = "min (if wa_format (al_w a) = SCALAR then 1 else length vs) (length (wa_last (al_w a)))"
  have e: "rds_elt E (al_delta_val a) p = Ok (?g p)" if mem: "p \<in> set (zip (wa_last (al_w a)) vs)" for p
  proof -
    obtain x y where p: "p = (x, y)" "x \<in> set (wa_last (al_w a))" "y \<in> set vs"
      using mem by (metis set_zip_leftD set_zip_rightD surj_pair)
    then show ?thesis using v(3,5,6,7) by (simp add: v(4) rds_elt_integer)
  qed
  have n: "?n = length (zip (wa_last (al_w a)) vs)" using v(2) by auto
  have "any_upto (rds_elt E (al_delta_val a)) ?n (zip (wa_last (al_w a)) vs) = Ok (\<exists>p \<in> set (zip (wa_last (al_w a)) vs). ?g p)"
    unfolding n using e by (subst any_upto_exists [OF le_refl, where g = ?g]) simp_all
  moreover have "read_differs E a \<longleftrightarrow> (\<exists>p \<in> set (zip (wa_last (al_w a)) vs). ?g p)"
    using True assms(2) v(1,4) by (simp add: read_differs_def)
  ultimately show ?thesis
    using True v(1) level_type [OF assms(1)] by (simp add: check_rds_alarm_def check_rds_out_of_range_def mark_def)
next
  case False
  then show ?thesis by (simp add: check_rds_alarm_def read_differs_def mark_def)
qed

lemma log_fields [simp]:
  "al_quality (log_quality a) = al_quality a" "al_alarm (log_quality a) = al_alarm a"
  "al_value (log_quality a) = al_value a" "al_w (log_quality a) = al_w a"
  by (auto simp: log_quality_def log_alarm_quality_def add_log_def split: AttrQuality.split)

text \<open>
  The three stages of the check.
\<close>

lemma alarm_stages:
  assumes "wf_limits (ae_arith E) (al_limits a)" "wf_reading a"
  shows "(if alarm_conf a min_level \<or> alarm_conf a max_level then check_level_alarm E a else (Ok False, a)) =
      (Ok (beyond Min_alarm a \<or> beyond Max_alarm a),
       mark ATTR_ALARM max_level (beyond Max_alarm a) (mark ATTR_ALARM min_level (beyond Min_alarm a) a))"
    and "(if \<not> r \<and> (alarm_conf a min_warn \<or> alarm_conf a max_warn) then check_warn_alarm E a else (Ok False, a)) =
      (Ok (\<not> r \<and> (beyond Min_warning a \<or> beyond Max_warning a)),
       mark ATTR_WARNING max_warn (\<not> r \<and> beyond Max_warning a) (mark ATTR_WARNING min_warn (\<not> r \<and> beyond Min_warning a) a))"
    and "(if alarm_conf a rds_flag then check_rds_alarm E a else (Ok False, a)) =
      (Ok (read_differs E a), mark ATTR_ALARM rds_flag (read_differs E a) a)"
  using check_level_integer [OF assms] check_rds_integer [OF assms(2)]
  by (auto simp: beyond_def read_differs_def mark_def)

lemma check_alarm_stages:
  assumes "al_quality a = ATTR_VALID" "\<not> alarm_none (alarm_conf a)"
    and "(if alarm_conf a min_level \<or> alarm_conf a max_level then check_level_alarm E a else (Ok False, a)) = (Ok b, a1)"
    and "(if \<not> b \<and> (alarm_conf a1 min_warn \<or> alarm_conf a1 max_warn) then check_warn_alarm E a1 else (Ok False, a1)) = (Ok c, a2)"
    and "(if alarm_conf a2 rds_flag then check_rds_alarm E a2 else (Ok False, a2)) = (Ok d, a3)"
  shows "check_alarm E a = (Ok ((b \<or> c) \<or> d), log_quality a3)"
  unfolding check_alarm_def Let_def assms(1)
  by (simp only: assms(2-5) sbind.simps AttrQuality.distinct simp_thms if_False if_True)

lemma mark_wf:
  "wf_limits A (al_limits a) \<Longrightarrow> wf_limits A (al_limits (mark q f b (mark r g c a)))"
  "wf_reading a \<Longrightarrow> wf_reading (mark q f b (mark r g c a))"
  by simp_all

definition warned :: "limit \<Rightarrow> 'f al_attr \<Rightarrow> bool" where
  "warned l a \<longleftrightarrow> \<not> (beyond Min_alarm a \<or> beyond Max_alarm a) \<and> beyond l a"

lemma check_alarm_marks:
  assumes "wf_limits (ae_arith E) (al_limits a)" "wf_reading a" "al_quality a = ATTR_VALID" "\<not> alarm_none (alarm_conf a)"
  shows "check_alarm E a =
    (Ok (beyond Min_alarm a \<or> beyond Max_alarm a \<or> warned Min_warning a \<or> warned Max_warning a \<or> read_differs E a),
     log_quality (mark ATTR_ALARM rds_flag (read_differs E a)
      (mark ATTR_WARNING max_warn (warned Max_warning a) (mark ATTR_WARNING min_warn (warned Min_warning a)
        (mark ATTR_ALARM max_level (beyond Max_alarm a) (mark ATTR_ALARM min_level (beyond Min_alarm a) a))))))"
proof -
  note w = mark_wf(1) [OF assms(1)] mark_wf(2) [OF assms(2)]
  note stages = alarm_stages(1) [OF assms(1,2)] alarm_stages(2) [OF w] alarm_stages(3) [OF mark_wf(1) [OF w(1)] mark_wf(2) [OF w(2)]]
  show ?thesis
    using check_alarm_stages [OF assms(3,4) stages] by (simp add: warned_def conj_disj_distribL disj_assoc)
qed

text \<open>
  (C8) For a reading of an integer attribute with a valid quality the check of the alarms
  decides exactly what the configuration says. An element at or below the minimum alarm
  level, an element at or above the maximum alarm level, or, once the time for the device
  to follow has passed, a distance of at least the threshold between an element read and
  the one written at the same position give the quality ALARM. Otherwise the warning levels
  give the quality WARNING. Every flag is set exactly for its reason, the warning flags only
  when no alarm level is reached, the answer is whether there is any reason, and no
  comparison overflows.
\<close>

theorem check_alarm_quality:
  assumes "wf_limits (ae_arith E) (al_limits a)" "wf_reading a"
    and "al_quality a = ATTR_VALID" "alarm_none (al_alarm a)" "\<not> alarm_none (alarm_conf a)"
  defines "lo \<equiv> beyond Min_alarm a" and "hi \<equiv> beyond Max_alarm a" and "rds \<equiv> read_differs E a"
    and "warn_lo \<equiv> warned Min_warning a" and "warn_hi \<equiv> warned Max_warning a"
  shows "\<exists>b. check_alarm E a = (Ok (lo \<or> hi \<or> warn_lo \<or> warn_hi \<or> rds), b) \<and>
    al_quality b = (if lo \<or> hi \<or> rds then ATTR_ALARM else if warn_lo \<or> warn_hi then ATTR_WARNING else ATTR_VALID) \<and>
    (al_alarm b min_level \<longleftrightarrow> lo) \<and> (al_alarm b max_level \<longleftrightarrow> hi) \<and> (al_alarm b rds_flag \<longleftrightarrow> rds) \<and>
    (al_alarm b min_warn \<longleftrightarrow> warn_lo) \<and> (al_alarm b max_warn \<longleftrightarrow> warn_hi) \<and> al_value b = al_value a"
  using check_alarm_marks [OF assms(1-3,5)] assms(3,4)
  by (auto simp: lo_def hi_def warn_lo_def warn_hi_def rds_def warned_def alarm_none_def)

text \<open>
  A double attribute that is written with a value that is not negative and reads back
  exactly that value raises the alarm for a reading that read_differs from the set value, as
  soon as the time for the device to follow has passed, whatever the threshold. Two facts
  on the arithmetic are used: the value is a number, and adding the smallest positive
  number to it does not make it smaller.
\<close>

theorem rds_float_false_alarm:
  assumes "al_data_type a = DEV_DOUBLE" "al_quality a = ATTR_VALID" "\<forall>l. \<not> la_set (al_limits a) l"
    and "al_rds_conf a" "rds_due E a" "al_delta_val a = Some (V_DOUBLE d)"
    and "wa_last (al_w a) = [V_DOUBLE v]" "al_value a = Some [V_DOUBLE v]"
    and "fp_le (dbl (ae_arith E)) (fp_of_int (dbl (ae_arith E)) 0) v"
    and "fp_le (dbl (ae_arith E)) v (fp_add (dbl (ae_arith E)) (ae_dbl_min E) v)"
  shows "\<exists>b. check_alarm E a = (Ok True, b) \<and> al_quality b = ATTR_ALARM \<and> al_alarm b rds_flag"
proof -
  have "rds_elt E (Some (V_DOUBLE d)) (V_DOUBLE v, V_DOUBLE v) = Ok True"
    using assms(9,10) by (simp add: rds_elt_def rds_float_def Let_def)
  moreover have "min (if wa_format (al_w a) = SCALAR then 1 else length [V_DOUBLE v]) (length [V_DOUBLE v]) = Suc 0" by simp
  ultimately have "check_rds_alarm E a = (Ok True, raise_alarm ATTR_ALARM rds_flag a)"
    using assms(1,5-8) by (simp add: check_rds_alarm_def check_rds_out_of_range_def level_types_def)
  then show ?thesis using assms(2-4) by (simp add: check_alarm_def alarm_none_def raise_alarm_def)
qed

text \<open>
  The warning levels of an encoded attribute do nothing unless an alarm level is set
  as well: whatever the bytes of the value, the check finds no reason and the quality
  stays valid.
\<close>

theorem encoded_warning_lost:
  assumes "al_data_type a = DEV_ENCODED" "al_quality a = ATTR_VALID" "al_value a = Some [V_ENCODED f d]"
    and "\<not> la_set (al_limits a) Min_alarm" "\<not> la_set (al_limits a) Max_alarm" "\<not> al_rds_conf a"
    and "la_set (al_limits a) Min_warning \<or> la_set (al_limits a) Max_warning"
  shows "check_alarm E a = (Ok False, log_quality a)"
proof -
  have "check_warn_alarm E a = (Ok False, a)"
    using assms(1,3-5)
    by (simp add: check_warn_alarm_def level_types_def general_check_devencoded_alarm_def check_two_def check_one_def)
  then show ?thesis using assms(2,4-7) by (simp add: check_alarm_def alarm_none_def)
qed


section \<open>The state of the device\<close>

definition ready :: "'f al_env \<Rightarrow> 'f al_attr \<Rightarrow> bool" where
  "ready E a \<longleftrightarrow> wf_limits (ae_arith E) (al_limits a) \<and> wf_reading a \<and> al_quality a = ATTR_VALID \<and> alarm_none (al_alarm a) \<and>
    \<not> alarm_none (alarm_conf a) \<and> \<not> al_is_polled a"

lemma alarm_lines_empty: "alarm_lines a = [] \<longleftrightarrow> alarm_none (al_alarm a)"
  by (auto simp: alarm_lines_def alarm_line_def alarm_none_def)

lemma check_alarm_ready:
  assumes "ready E a"
  obtains r b where "check_alarm E a = (Ok r, b)" "r \<longleftrightarrow> alarm_lines b \<noteq> []"
    "r \<longleftrightarrow> al_quality b = ATTR_ALARM \<or> al_quality b = ATTR_WARNING"
proof -
  note c = check_alarm_marks [of E a]
  show thesis
    by (rule that [OF c])
      (use assms in \<open>auto simp: ready_def alarm_lines_empty alarm_none_def\<close>)
qed

lemma check_alarms_ready:
  assumes "\<forall>i \<in> set js. i < length (attr_list m) \<and> ready E (attr_list m ! i)" "distinct js"
  shows "\<exists>m'. check_alarms E js ret m = (Ok (ret \<or> (\<exists>i \<in> set js. alarm_lines (attr_list m' ! i) \<noteq> [])), m') \<and>
    length (attr_list m') = length (attr_list m) \<and> alarm_attr_list m' = alarm_attr_list m \<and>
    (\<forall>i. i \<notin> set js \<longrightarrow> attr_list m' ! i = attr_list m ! i) \<and>
    (\<forall>i \<in> set js. alarm_lines (attr_list m' ! i) \<noteq> [] \<longleftrightarrow>
      al_quality (attr_list m' ! i) = ATTR_ALARM \<or> al_quality (attr_list m' ! i) = ATTR_WARNING)"
  using assms
proof (induction js arbitrary: m ret)
  case (Cons i js)
  let ?a = "attr_list m ! i"
  have i: "i < length (attr_list m)" "ready E ?a" "i \<notin> set js" using Cons.prems by auto
  obtain r b where b: "check_alarm E ?a = (Ok r, b)" "r \<longleftrightarrow> alarm_lines b \<noteq> []"
      "r \<longleftrightarrow> al_quality b = ATTR_ALARM \<or> al_quality b = ATTR_WARNING"
    using check_alarm_ready [OF i(2)] by blast
  let ?m = "m\<lparr>attr_list := (attr_list m)[i := b]\<rparr>"
  have "\<forall>j \<in> set js. j < length (attr_list ?m) \<and> ready E (attr_list ?m ! j)"
    using Cons.prems(1) i(3) by (auto simp: nth_list_update)
  then obtain m' where m': "check_alarms E js (ret \<or> r) ?m = (Ok ((ret \<or> r) \<or> (\<exists>i \<in> set js. alarm_lines (attr_list m' ! i) \<noteq> [])), m')"
      "length (attr_list m') = length (attr_list ?m)" "alarm_attr_list m' = alarm_attr_list ?m"
      "\<forall>k. k \<notin> set js \<longrightarrow> attr_list m' ! k = attr_list ?m ! k"
      "\<forall>i \<in> set js. alarm_lines (attr_list m' ! i) \<noteq> [] \<longleftrightarrow>
        al_quality (attr_list m' ! i) = ATTR_ALARM \<or> al_quality (attr_list m' ! i) = ATTR_WARNING"
    using Cons.IH [of ?m "ret \<or> r"] Cons.prems(2) by auto
  have n: "attr_list m' ! i = b" using m'(4) i(1,3) by simp
  have "check_alarms E (i # js) ret m = check_alarms E js (ret \<or> r) ?m"
    using i(1,2) b(1) by (simp add: ready_def Let_def)
  then show ?case
    using m' n b(2,3) by (intro exI [of _ m']) auto
qed simp

lemma read_alarms_lines:
  assumes "\<forall>i \<in> set js. i < length (attr_list m)"
  shows "read_alarms m js s = Ok (s @ concat (map (\<lambda>i. alarm_lines (attr_list m ! i)) js))"
  using assms by (induction js arbitrary: s) auto


section \<open>Examples\<close>

text \<open>
  Whole numbers in the place of the floating-point ones.
\<close>

definition ex_aenv :: "int al_env" where
  "ex_aenv = \<lparr>ae_now = 9000000, ae_arith = le_arith ex_env, ae_dbl_max = 1000, ae_dbl_min = 1, ae_flt_max = 1000, ae_flt_min = 1\<rparr>"

definition ex_reading :: "CmdArgType \<Rightarrow> int tval \<Rightarrow> int tval \<Rightarrow> int al_attr" where
  "ex_reading t w v = \<lparr>al_w = (ex_wattr t w)\<lparr>wa_write_date := 2000000\<rparr>, al_writable = True, al_name = ''pressure'',
    al_label = ''Pressure'', al_is_fwd = False, al_is_polled = False, al_quality = ATTR_VALID, al_old_quality = ATTR_VALID,
    al_alarm = (\<lambda>_. False), al_old_alarm = (\<lambda>_. False), al_rds_conf = False, al_value = Some [v], al_data_size = 1,
    al_dim_x = 1, al_dim_y = 0, al_max_x = 1, al_max_y = 0, al_delta_t = 1000, al_delta_val = None, al_date = True,
    al_when = 9000000, al_log = []\<rparr>"

text \<open>
  A short attribute, written with 20, whose level for the maximum alarm is 7 and whose
  reading should not be 5 away from the written value.
\<close>

definition ex_hot :: "int \<Rightarrow> int al_attr" where
  "ex_hot v = (ex_reading DEV_SHORT (V_SHORT 20) (V_SHORT (word_of_int v)))\<lparr>
    al_w := (ex_wattr DEV_SHORT (V_SHORT 20))\<lparr>wa_write_date := 2000000,
      wa_limits := ex_attr\<lparr>la_val := (\<lambda>_. None)(Max_alarm := Some (V_SHORT 7)), la_set := (\<lambda>_. False)(Max_alarm := True)\<rparr>\<rparr>,
    al_rds_conf := True, al_delta_val := Some (V_SHORT 5)\<rparr>"

lemma ex_hot_limits: "wf_limits A (al_limits (ex_hot v))"
  by (auto simp: wf_limits_def ex_hot_def ex_wattr_def ex_attr_def numeric_def lim_type_def is_lower_def split: if_splits)

lemma ex_hot_ready: "ready E (ex_hot v)"
  using ex_hot_limits
  by (simp add: ready_def wf_reading_def ex_hot_def ex_reading_def ex_wattr_def ex_attr_def integer_types_def alarm_none_def)

theorem check_alarm_quality_witness:
  "\<exists>b. check_alarm ex_aenv (ex_hot 9) = (Ok True, b) \<and> al_quality b = ATTR_ALARM \<and> al_alarm b max_level \<and> al_alarm b rds_flag \<and>
    \<not> al_alarm b min_level"
proof -
  have "beyond Max_alarm (ex_hot 9)" "\<not> beyond Min_alarm (ex_hot 9)" "read_differs ex_aenv (ex_hot 9)"
    by (simp_all add: beyond_def level_int_def read_differs_def rds_due_def is_lower_def ex_hot_def ex_reading_def ex_wattr_def ex_attr_def
        ex_aenv_def)
  then show ?thesis
    using check_alarm_quality [of ex_aenv "ex_hot 9"] ex_hot_ready [of ex_aenv 9] by (auto simp: ready_def)
qed

theorem rds_float_false_alarm_witness:
  "\<exists>b. check_alarm ex_aenv ((ex_reading DEV_DOUBLE (V_DOUBLE 3) (V_DOUBLE 3))\<lparr>al_rds_conf := True, al_delta_val := Some (V_DOUBLE 100)\<rparr>)
    = (Ok True, b) \<and> al_quality b = ATTR_ALARM \<and> al_alarm b rds_flag"
  by (rule rds_float_false_alarm [where d = 100 and v = 3])
    (simp_all add: ex_reading_def ex_wattr_def ex_attr_def rds_due_def ex_aenv_def ex_env_def ex_fp_def)

theorem encoded_warning_lost_witness:
  "check_alarm ex_aenv ((ex_reading DEV_ENCODED (V_ENCODED ''raw'' []) (V_ENCODED ''raw'' [200]))\<lparr>
      al_w := (ex_wattr DEV_ENCODED (V_ENCODED ''raw'' []))\<lparr>wa_limits := ex_attr\<lparr>la_data_type := DEV_ENCODED,
        la_val := (\<lambda>_. None)(Max_warning := Some (V_UCHAR 7)), la_set := (\<lambda>_. False)(Max_warning := True)\<rparr>\<rparr>\<rparr>) =
    (Ok False, log_quality ((ex_reading DEV_ENCODED (V_ENCODED ''raw'' []) (V_ENCODED ''raw'' [200]))\<lparr>
      al_w := (ex_wattr DEV_ENCODED (V_ENCODED ''raw'' []))\<lparr>wa_limits := ex_attr\<lparr>la_data_type := DEV_ENCODED,
        la_val := (\<lambda>_. None)(Max_warning := Some (V_UCHAR 7)), la_set := (\<lambda>_. False)(Max_warning := True)\<rparr>\<rparr>\<rparr>))"
  by (rule encoded_warning_lost [where f = "''raw''" and d = "[200]"])
    (simp_all add: ex_reading_def ex_wattr_def ex_attr_def)


end
