(* ===== verification/Dev_Write.thy ===== *)
theory Dev_Write
  imports Attr_Alarm
begin

text \<open>
  Writing the attributes of a device (\<open>device_3.cpp\<close>): the call with one or more values, the
  search of the attributes, the check of the values, the code of the user that drives the
  hardware, the restoration after a failure, the storage of memorised values, and the list
  of the failures that the caller gets. Before it the rest of the class \<open>WAttribute\<close>
  (\<open>w_attribute.cpp\<close>, \<open>attrsetval.cpp\<close>).
\<close>

section \<open>Writable attributes\<close>

text \<open>
  The constructor. The number of the state is that of \<open>UNKNOWN\<close>.
\<close>

definition initial_value :: "'f arith \<Rightarrow> CmdArgType \<Rightarrow> 'f tval" where
  "initial_value A t =
    (case t of
       DEV_LONG \<Rightarrow> V_LONG 0
     | DEV_LONG64 \<Rightarrow> V_LONG64 0
     | DEV_DOUBLE \<Rightarrow> V_DOUBLE (fp_of_int (dbl A) 0)
     | DEV_FLOAT \<Rightarrow> V_FLOAT (fp_of_int (sgl A) 0)
     | DEV_STRING \<Rightarrow> V_STRING ''Not initialised''
     | DEV_BOOLEAN \<Rightarrow> V_BOOLEAN True
     | DEV_USHORT \<Rightarrow> V_USHORT 0
     | DEV_UCHAR \<Rightarrow> V_UCHAR 0
     | DEV_ULONG \<Rightarrow> V_ULONG 0
     | DEV_ULONG64 \<Rightarrow> V_ULONG64 0
     | DEV_STATE \<Rightarrow> V_STATE 13
     | DEV_ENCODED \<Rightarrow> V_ENCODED ''Not initialised'' []
     | _ \<Rightarrow> V_SHORT 0)"

definition WAttribute_new :: "'f arith \<Rightarrow> 'f lim_attr \<Rightarrow> AttrDataFormat \<Rightarrow> string list \<Rightarrow> 'f w_attr" where
  "WAttribute_new A lims f labels =
    (let v = initial_value A (la_data_type lims)
     in \<lparr>wa_limits = lims, wa_format = f, wa_enum_labels = labels, wa_value = v, wa_old = v, wa_ptr = [v], wa_last = [v],
         w_dim_x = 1, w_dim_y = 0, wa_str_alive = True, wa_user_set = False, wa_write_date = 0\<rparr>)"

text \<open>
  The written value as the value of a reading: for a scalar the value itself, otherwise the
  copy of the last written sequence.
\<close>

definition set_rvalue :: "'f al_env \<Rightarrow> ('f, unit) al_op" where
  "set_rvalue E a =
    (let w = al_w a; t = elt_type (al_data_type a)
     in if al_data_type a \<notin> set writable_types then (Ok (), a)
        else if al_data_type a = DEV_ENCODED \<or> wa_format w = SCALAR then set_value E t (Some [wa_value w]) 1 0 a
        else set_value E t (Some (wa_last w)) (w_dim_x w) (w_dim_y w) a)"

definition reset_value :: "'f al_attr \<Rightarrow> 'f al_attr" where
  "reset_value a = a\<lparr>al_value := None\<rparr>"

definition set_date :: "int \<Rightarrow> 'f al_attr \<Rightarrow> 'f al_attr" where
  "set_date t a = a\<lparr>al_when := t\<rparr>"

text \<open>
  A value with its date and quality. An invalid value is dropped, except for encoded values.
\<close>

definition set_value_date_quality ::
  "'f al_env \<Rightarrow> CmdArgType \<Rightarrow> 'f tval list option \<Rightarrow> int \<Rightarrow> AttrQuality \<Rightarrow> int \<Rightarrow> int \<Rightarrow> ('f, unit) al_op" where
  "set_value_date_quality E t p date q x y a =
    sbind (set_value E t p x y a) (\<lambda>_ a.
      let a = set_date date (set_quality q a)
      in (Ok (), if q = ATTR_INVALID \<and> t \<noteq> DEV_ENCODED then delete_seq a else a))"

text \<open>
  An encoded value in two parts.
\<close>

definition set_value_encoded :: "'f al_env \<Rightarrow> string option \<Rightarrow> 8 word list option \<Rightarrow> ('f, unit) al_op" where
  "set_value_encoded E f d a =
    (case (f, d) of
       (Some f, Some d) \<Rightarrow> set_value E DEV_ENCODED (Some [V_ENCODED f d]) 1 0 a
     | _ \<Rightarrow> (value_error ''Data pointer is NULL'', a))"

definition set_encoded_date_quality ::
  "'f al_env \<Rightarrow> string option \<Rightarrow> 8 word list option \<Rightarrow> int \<Rightarrow> AttrQuality \<Rightarrow> ('f, unit) al_op" where
  "set_encoded_date_quality E f d date q a =
    sbind (set_value_encoded E f d a) (\<lambda>_ a. (Ok (), set_date date (set_quality q a)))"

text \<open>
  The written value after the value that was read, for an attribute that is read and
  written. An encoded value is put at the second place.
\<close>

definition add_write_value :: "'f tval list \<Rightarrow> ('f, unit) al_op" where
  "add_write_value ws a =
    (case al_value a of
       None \<Rightarrow> (Undef, a)
     | Some vs \<Rightarrow>
         (case (al_data_type a, vs, ws) of
            (DEV_ENCODED, v # _, w # _) \<Rightarrow> (Ok (), a\<lparr>al_value := Some [v, w]\<rparr>)
          | (DEV_ENCODED, _, _) \<Rightarrow> (Undef, a)
          | _ \<Rightarrow> (Ok (), a\<lparr>al_value := Some (vs @ ws)\<rparr>)))"


section \<open>The device\<close>

record 'f wr_attr =
  wt_att :: "'f al_attr"
  wt_writable :: AttrWriteType
  wt_memorized :: bool
  wt_mem_value :: string
  wt_mem_failed :: bool

text \<open>
  The device: its attributes, the release of its interface, what the code of the user works
  on (\<open>wd_hw\<close>), the flag of the loop that reports the configuration, the device that the
  thread works for, and the memorised values in the database.
\<close>

record ('f, 'd) wdev =
  wd_name :: string
  wd_attrs :: "'f wr_attr list"
  wd_vers :: int
  wd_hw :: 'd
  wd_conf_loop :: bool
  wd_assoc :: string
  wd_db :: "string \<Rightarrow> string option"

text \<open>
  How a method of the user ends. \<open>U_multi\<close> is the exception with a list of named failures.
\<close>

datatype user_end = U_ok | U_failed exn | U_multi "(string \<times> DevError list) list" | U_undef

text \<open>
  The surroundings: the methods of the user, which may change the attribute that they
  write, the clock, the database and its answer.
\<close>

record ('f, 'd) wuser =
  wu_hook :: "'d \<Rightarrow> unit result \<times> 'd"
  wu_allowed :: "nat \<Rightarrow> 'd \<Rightarrow> bool result \<times> 'd"
  wu_write :: "nat \<Rightarrow> 'f w_attr \<Rightarrow> 'd \<Rightarrow> user_end \<times> 'f w_attr \<times> 'd"
  wu_hardware :: "nat list \<Rightarrow> 'd \<Rightarrow> user_end \<times> 'd"
  wu_env :: "'f w_env"
  wu_now :: int
  wu_use_db :: bool
  wu_db_answer :: "unit result"
  wu_text :: "'f text_io"

text \<open>
  A value of the call, and a failure that the caller gets: the name, the position of the
  value in the call, the exception.
\<close>

record 'f wval =
  wv_name :: string
  wv_value :: "'f incoming"
  wv_dim_x :: int
  wv_dim_y :: int

record named_err =
  ne_name :: string
  ne_index :: nat
  ne_exn :: exn

type_synonym att_idx = "nat \<times> nat"

definition dev_failed :: "exn \<Rightarrow> bool" where
  "dev_failed e = (case e of DevFailed _ _ \<Rightarrow> True | EventSystemFailed _ _ \<Rightarrow> True | DevFailed_stack _ \<Rightarrow> True | _ \<Rightarrow> False)"

abbreviation att_of :: "('f, 'd) wdev \<Rightarrow> nat \<Rightarrow> 'f wr_attr" where
  "att_of d j \<equiv> wd_attrs d ! j"

abbreviation w_of :: "('f, 'd) wdev \<Rightarrow> nat \<Rightarrow> 'f w_attr" where
  "w_of d j \<equiv> al_w (wt_att (att_of d j))"

definition set_att :: "nat \<Rightarrow> 'f wr_attr \<Rightarrow> ('f, 'd) wdev \<Rightarrow> ('f, 'd) wdev" where
  "set_att j a d = d\<lparr>wd_attrs := (wd_attrs d)[j := a]\<rparr>"

definition set_w :: "nat \<Rightarrow> 'f w_attr \<Rightarrow> ('f, 'd) wdev \<Rightarrow> ('f, 'd) wdev" where
  "set_w j w d = set_att j ((att_of d j)\<lparr>wt_att := (wt_att (att_of d j))\<lparr>al_w := w\<rparr>\<rparr>) d"


section \<open>The attributes of the call\<close>

text \<open>
  The search goes through a map from the names in lower case to positions, here the
  position of the first attribute with the name.
\<close>

fun index_of :: "('a \<Rightarrow> bool) \<Rightarrow> 'a list \<Rightarrow> nat option" where
  "index_of p [] = None"
| "index_of p (x # xs) = (if p x then Some 0 else map_option Suc (index_of p xs))"

definition get_attr_ind_by_name :: "string \<Rightarrow> ('f, 'd) wdev \<Rightarrow> nat result" where
  "get_attr_ind_by_name n d =
    (case index_of (\<lambda>a. lower (al_name (wt_att a)) = lower n) (wd_attrs d) of
       Some j \<Rightarrow> Ok j
     | None \<Rightarrow> Throw (DevFailed ''API_AttrNotFound'' (n @ '' attribute not found'')))"

definition select_attr :: "('f, 'd) wdev \<Rightarrow> 'f wval \<Rightarrow> nat result" where
  "select_attr d v =
    rbind (get_attr_ind_by_name (wv_name v) d) (\<lambda>j.
      let a = att_of d j; att = wt_att a
      in if wt_writable a = READ \<or> wt_writable a = READ_WITH_WRITE
         then Throw (DevFailed ''API_AttrNotWritable'' (''Attribute '' @ al_name att @ '' is not writable''))
         else if wa_format (al_w att) \<noteq> SCALAR \<and> al_max_x att < wv_dim_x v
         then Throw (DevFailed ''API_WAttrOutsideLimit'' (''X dimesion is greater than the max defined for attribute '' @ al_name att))
         else if wa_format (al_w att) \<noteq> SCALAR \<and> al_max_y att < wv_dim_y v
         then Throw (DevFailed ''API_WAttrOutsideLimit'' (''Y dimesion is greater than the max defined for attribute '' @ al_name att))
         else if la_check_startup (wa_limits (al_w att))
         then Throw (DevFailed ''API_AttrConfig'' (''Attribute : '' @ al_name att))
         else Ok j)"

fun select_attrs :: "('f, 'd) wdev \<Rightarrow> nat \<Rightarrow> 'f wval list \<Rightarrow> (att_idx list \<times> named_err list) result" where
  "select_attrs d i [] = Ok ([], [])"
| "select_attrs d i (v # vs) =
    (case select_attr d v of
       Ok j \<Rightarrow> rbind (select_attrs d (Suc i) vs) (\<lambda>(us, es). Ok ((i, j) # us, es))
     | Throw e \<Rightarrow>
         if dev_failed e
         then rbind (select_attrs d (Suc i) vs) (\<lambda>(us, es). Ok (us, \<lparr>ne_name = wv_name v, ne_index = i, ne_exn = e\<rparr> # es))
         else Throw e
     | Undef \<Rightarrow> Undef)"

text \<open>
  The check of the values. \<open>done\<close> are the attributes before the iterator. After a failure
  the attribute is erased; the loop ends if it was the last one, and it ends too if it was
  the first one of the list.
\<close>

definition ulong_of :: "int \<Rightarrow> nat" where
  "ulong_of i = nat (i mod 2 ^ 64)"

fun check_values ::
  "'f w_env \<Rightarrow> 'f wval list \<Rightarrow> att_idx list \<Rightarrow> att_idx list \<Rightarrow> named_err list \<Rightarrow> ('f, 'd) wdev \<Rightarrow>
    (att_idx list \<times> named_err list) result \<times> ('f, 'd) wdev" where
  "check_values E vals done [] es d = (Ok (done, es), d)"
| "check_values E vals done ((i, j) # us) es d =
    (let v = vals ! i
     in case check_written_value E (wv_value v) (ulong_of (wv_dim_x v)) (ulong_of (wv_dim_y v)) (w_of d j) of
          (Ok _, w) \<Rightarrow> check_values E vals (done @ [(i, j)]) us es (set_w j w d)
        | (Throw e, w) \<Rightarrow>
            if dev_failed e
            then let es = es @ [\<lparr>ne_name = wv_name v, ne_index = i, ne_exn = e\<rparr>]; d = set_w j w d
                 in if us = [] then (Ok (done, es), d)
                    else if done = [] then (Ok (us, es), d)
                    else check_values E vals done us es d
            else (Throw e, set_w j w d)
        | (Undef, w) \<Rightarrow> (Undef, d))"


section \<open>The hardware\<close>

definition rollback_scalar :: "nat \<Rightarrow> ('f, 'd) wdev \<Rightarrow> unit result \<times> ('f, 'd) wdev" where
  "rollback_scalar j d =
    (if wa_format (w_of d j) = SCALAR then case rollback (w_of d j) of (r, w) \<Rightarrow> (r, set_w j w d) else (Ok (), d))"

text \<open>
  One attribute: the flags, the permission, the method of the user. A failure in a list of
  named ones stands for its first one.
\<close>

definition user_write :: "('f, 'd) wuser \<Rightarrow> nat \<Rightarrow> ('f, 'd) wdev \<Rightarrow> unit result \<times> ('f, 'd) wdev" where
  "user_write U j d =
    (let a = att_of d j; w = (al_w (wt_att a))\<lparr>wa_user_set := False\<rparr>;
         d = set_att j (a\<lparr>wt_att := (reset_value (wt_att a))\<lparr>al_w := w\<rparr>\<rparr>) d
     in case wu_allowed U j (wd_hw d) of
          (Throw e, h) \<Rightarrow> (Throw e, d\<lparr>wd_hw := h\<rparr>)
        | (Undef, h) \<Rightarrow> (Undef, d)
        | (Ok False, h) \<Rightarrow>
            (Throw (DevFailed ''API_AttrNotAllowed'' (''It is currently not allowed to write attribute '' @ al_name (wt_att a))),
             d\<lparr>wd_hw := h\<rparr>)
        | (Ok True, h) \<Rightarrow>
            (case wu_write U j w h of
               (r, w, h) \<Rightarrow>
                 let d = (set_w j w d)\<lparr>wd_hw := h\<rparr>
                 in case r of
                      U_ok \<Rightarrow>
                        if wt_mem_failed a
                        then (Ok (), (set_att j ((att_of d j)\<lparr>wt_mem_failed := False\<rparr>) d)\<lparr>wd_conf_loop := True\<rparr>)
                        else (Ok (), d)
                    | U_failed e \<Rightarrow> (Throw e, d)
                    | U_multi [] \<Rightarrow> (Undef, d)
                    | U_multi ((n, e) # _) \<Rightarrow> (Throw (DevFailed_stack e), d)
                    | U_undef \<Rightarrow> (Undef, d)))"

fun write_values ::
  "('f, 'd) wuser \<Rightarrow> 'f wval list \<Rightarrow> att_idx list \<Rightarrow> named_err list \<Rightarrow> ('f, 'd) wdev \<Rightarrow>
    (att_idx list \<times> named_err list) result \<times> ('f, 'd) wdev" where
  "write_values U vals [] es d = (Ok ([], es), d)"
| "write_values U vals ((i, j) # us) es d =
    (case user_write U j d of
       (Ok _, d) \<Rightarrow>
         sbind (write_values U vals us es d) (\<lambda>(kept, es) d. (Ok ((i, j) # kept, es), d))
     | (Throw e, d) \<Rightarrow>
         if dev_failed e
         then sbind (rollback_scalar j d) (\<lambda>_ d.
           write_values U vals us (es @ [\<lparr>ne_name = wv_name (vals ! i), ne_index = i, ne_exn = e\<rparr>]) d)
         else (Throw e, d)
     | (Undef, d) \<Rightarrow> (Undef, d))"

text \<open>
  The failures of \<open>write_attr_hardware\<close>: named ones, each of which must be one of the
  attributes that are left, or one for all of them.
\<close>

fun named_failures ::
  "(string \<times> DevError list) list \<Rightarrow> att_idx list \<Rightarrow> named_err list \<Rightarrow> ('f, 'd) wdev \<Rightarrow>
    (att_idx list \<times> named_err list) result \<times> ('f, 'd) wdev" where
  "named_failures [] us es d = (Ok (us, es), d)"
| "named_failures ((n, e) # fs) us es d =
    (case index_of (\<lambda>u. lower (al_name (wt_att (att_of d (snd u)))) = lower n) us of
       None \<Rightarrow> (Undef, d)
     | Some k \<Rightarrow>
         sbind (rollback_scalar (snd (us ! k)) d) (\<lambda>_ d.
           named_failures fs (take k us @ drop (Suc k) us) (es @ [\<lparr>ne_name = n, ne_index = fst (us ! k), ne_exn = DevFailed_stack e\<rparr>]) d))"

fun all_failed ::
  "exn \<Rightarrow> att_idx list \<Rightarrow> nat list \<Rightarrow> named_err list \<Rightarrow> ('f, 'd) wdev \<Rightarrow> named_err list result \<times> ('f, 'd) wdev" where
  "all_failed e us [] es d = (Ok es, d)"
| "all_failed e us (j # js) es d =
    sbind (rollback_scalar j d) (\<lambda>_ d.
      all_failed e us js (es @ [\<lparr>ne_name = al_name (wt_att (att_of d j)),
        ne_index = (case find (\<lambda>u. snd u = j) us of Some u \<Rightarrow> fst u | None \<Rightarrow> 0), ne_exn = e\<rparr>]) d)"

definition write_hardware ::
  "('f, 'd) wuser \<Rightarrow> att_idx list \<Rightarrow> named_err list \<Rightarrow> ('f, 'd) wdev \<Rightarrow>
    (att_idx list \<times> named_err list) result \<times> ('f, 'd) wdev" where
  "write_hardware U us es d =
    (if wd_vers d < 4 then (Ok (us, es), d)
     else case wu_hardware U (map snd us) (wd_hw d) of
       (r, h) \<Rightarrow>
         let d = d\<lparr>wd_hw := h\<rparr>
         in case r of
              U_ok \<Rightarrow> (Ok (us, es), d)
            | U_multi fs \<Rightarrow> named_failures fs us es d
            | U_failed e \<Rightarrow>
                if dev_failed e then sbind (all_failed e us (map snd us) es d) (\<lambda>es d. (Ok ([], es), d)) else (Throw e, d)
            | U_undef \<Rightarrow> (Undef, d))"


section \<open>The copies and the database\<close>

definition MemNotUsed :: string where
  "MemNotUsed = ''Not used yet''"

text \<open>
  The copy of the value, unless the method of the user set one, the mark of a memorised
  attribute and the date for the comparison of read and set value.
\<close>

definition copy_value :: "('f, 'd) wuser \<Rightarrow> 'f wval \<Rightarrow> nat \<Rightarrow> ('f, 'd) wdev \<Rightarrow> unit result \<times> ('f, 'd) wdev" where
  "copy_value U v j d =
    (case (if wa_user_set (w_of d j) then (Ok (), w_of d j) else copy_data (wv_value v) (w_of d j)) of
       (Ok _, w) \<Rightarrow>
         let a = att_of d j; att = wt_att a;
             w = (if al_rds_conf att then set_written_date (wu_now U) w else w);
             a = a\<lparr>wt_att := att\<lparr>al_w := w\<rparr>,
               wt_mem_value := (if wt_memorized a \<and> wt_mem_value a = MemNotUsed then ''Set'' else wt_mem_value a)\<rparr>
         in (Ok (), set_att j a d)
     | (Throw e, w) \<Rightarrow> (Throw e, d)
     | (Undef, w) \<Rightarrow> (Undef, d))"

fun copy_values ::
  "('f, 'd) wuser \<Rightarrow> 'f wval list \<Rightarrow> att_idx list \<Rightarrow> ('f, 'd) wdev \<Rightarrow> unit result \<times> ('f, 'd) wdev" where
  "copy_values U vals [] d = (Ok (), d)"
| "copy_values U vals ((i, j) # us) d = sbind (copy_value U (vals ! i) j d) (\<lambda>_ d. copy_values U vals us d)"

text \<open>
  The text of a memorised value. For an encoded value the number of the properties, which
  was put in the same variable before, is stored.
\<close>

definition mem_text :: "'f text_io \<Rightarrow> 'f tval \<Rightarrow> string" where
  "mem_text T v =
    (case v of
       V_BOOLEAN b \<Rightarrow> (if b then ''true'' else ''false'')
     | V_STRING s \<Rightarrow> s
     | V_STATE n \<Rightarrow> dec n
     | _ \<Rightarrow> tv_text T v)"

definition mem_entry :: "'f text_io \<Rightarrow> ('f, 'd) wdev \<Rightarrow> nat \<Rightarrow> (string \<times> string) result" where
  "mem_entry T d j =
    (let w = w_of d j; n = al_name (wt_att (att_of d j))
     in if wa_data_type w = DEV_ENCODED then Ok (n, ''1'')
        else case wa_last w of v # _ \<Rightarrow> Ok (n, mem_text T v) | [] \<Rightarrow> Undef)"

definition write_attributes_in_db :: "('f, 'd) wuser \<Rightarrow> nat list \<Rightarrow> ('f, 'd) wdev \<Rightarrow> unit result \<times> ('f, 'd) wdev" where
  "write_attributes_in_db U js d =
    sbind (rmap (mem_entry (wu_text U) d) js, d) (\<lambda>ps d.
      sbind (wu_db_answer U, d) (\<lambda>_ d. (Ok (), d\<lparr>wd_db := wd_db d ++ map_of (rev ps)\<rparr>)))"

definition store_memorized ::
  "('f, 'd) wuser \<Rightarrow> 'f wval list \<Rightarrow> att_idx list \<Rightarrow> named_err list \<Rightarrow> ('f, 'd) wdev \<Rightarrow> named_err list result \<times> ('f, 'd) wdev" where
  "store_memorized U vals us es d =
    (let ms = filter (\<lambda>u. wt_memorized (att_of d (snd u))) us
     in if wu_use_db U \<and> ms \<noteq> []
        then case write_attributes_in_db U (map snd ms) d of
            (Ok _, d) \<Rightarrow> (Ok es, d)
          | (Throw e, d) \<Rightarrow>
              if dev_failed e
              then (Ok (es @ map (\<lambda>u. \<lparr>ne_name = wv_name (vals ! fst u), ne_index = fst u, ne_exn = e\<rparr>) ms), d)
              else (Throw e, d)
          | (Undef, d) \<Rightarrow> (Undef, d)
        else (Ok es, d))"


section \<open>The call\<close>

text \<open>
  The result is the list of the failures: the call returns if it is empty, and throws it
  otherwise.
\<close>

definition write_body ::
  "('f, 'd) wuser \<Rightarrow> 'f wval list \<Rightarrow> ('f, 'd) wdev \<Rightarrow> named_err list result \<times> ('f, 'd) wdev" where
  "write_body U vals d =
    sbind (select_attrs d 0 vals, d) (\<lambda>(us, es) d.
    sbind (if length es \<noteq> length vals then case wu_hook U (wd_hw d) of (r, h) \<Rightarrow> (r, d\<lparr>wd_hw := h\<rparr>) else (Ok (), d)) (\<lambda>_ d.
    sbind (check_values (wu_env U) vals [] us es d) (\<lambda>(us, es) d.
    sbind (if length es \<noteq> length vals
           then sbind (write_values U vals us es d) (\<lambda>(us, es) d. write_hardware U us es d)
           else (Ok (us, es), d)) (\<lambda>(us, es) d.
    sbind (copy_values U vals us d) (\<lambda>_ d.
    store_memorized U vals us es d)))))"

definition write_attributes_34 ::
  "('f, 'd) wuser \<Rightarrow> 'f wval list \<Rightarrow> ('f, 'd) wdev \<Rightarrow> named_err list result \<times> ('f, 'd) wdev" where
  "write_attributes_34 U vals d =
    (if wd_attrs d = [] then (Throw (DevFailed ''API_AttrNotFound'' ''The device does not have any attribute''), d)
     else case write_body U vals (d\<lparr>wd_assoc := wd_name d\<rparr>) of (r, d') \<Rightarrow> (r, d'\<lparr>wd_assoc := wd_assoc d\<rparr>))"

section \<open>What the stages keep\<close>

lemma nth_update: "xs[j := a] ! k = (if k = j \<and> j < length xs then a else xs ! k)"
  by (cases "j < length xs"; cases "k = j") (simp_all add: list_update_beyond)

lemma w_of_set_w: "w_of (set_w j w d) k = (if k = j \<and> j < length (wd_attrs d) then w else w_of d k)"
  by (simp add: set_w_def set_att_def nth_update)

lemma length_set [simp]:
  "length (wd_attrs (set_w j w d)) = length (wd_attrs d)" "length (wd_attrs (set_att j a d)) = length (wd_attrs d)"
  by (simp_all add: set_w_def set_att_def)

definition same_types :: "('f, 'd) wdev \<Rightarrow> ('f, 'd) wdev \<Rightarrow> bool" where
  "same_types d e \<longleftrightarrow> length (wd_attrs e) = length (wd_attrs d) \<and> (\<forall>k. wa_data_type (w_of e k) = wa_data_type (w_of d k))"

lemma same_types_refl [simp]: "same_types d d"
  by (simp add: same_types_def)

lemma same_types_trans: "same_types d e \<Longrightarrow> same_types e f \<Longrightarrow> same_types d f"
  by (simp add: same_types_def)

lemma same_types_hw [simp]: "same_types d (e\<lparr>wd_hw := h\<rparr>) = same_types d e" "same_types (d\<lparr>wd_hw := h\<rparr>) e = same_types d e"
  "same_types d (e\<lparr>wd_conf_loop := b\<rparr>) = same_types d e"
  by (simp_all add: same_types_def)

lemma same_types_set_w: "wa_data_type w = wa_data_type (w_of d j) \<Longrightarrow> same_types d (set_w j w d)"
  by (simp add: same_types_def w_of_set_w)

lemma same_types_set_att: "wa_data_type (al_w (wt_att a)) = wa_data_type (w_of d j) \<Longrightarrow> same_types d (set_att j a d)"
  by (simp add: same_types_def set_att_def nth_update)

lemma check_written_value_keeps:
  "wa_limits (snd (check_written_value E i x y a)) = wa_limits a"
  "fst (check_written_value E i x y a) \<noteq> Ok () \<Longrightarrow> fst (check_written_value E i x y a) \<noteq> Undef \<Longrightarrow> snd (check_written_value E i x y a) = a"
proof -
  obtain t vs where i: "i = Incoming t vs" by (cases i)
  have "wa_limits (snd (update_internal_sequence E vs x y a)) = wa_limits a \<and>
    (fst (update_internal_sequence E vs x y a) \<noteq> Ok () \<longrightarrow> fst (update_internal_sequence E vs x y a) \<noteq> Undef \<longrightarrow>
      snd (update_internal_sequence E vs x y a) = a)"
    by (cases "check_length (length vs) x y"; cases "check_data_limits E vs a"; cases vs)
      (simp_all add: update_internal_sequence_def Let_def)
  then show "wa_limits (snd (check_written_value E i x y a)) = wa_limits a"
    "fst (check_written_value E i x y a) \<noteq> Ok () \<Longrightarrow> fst (check_written_value E i x y a) \<noteq> Undef \<Longrightarrow> snd (check_written_value E i x y a) = a"
    by (auto simp: i check_written_value_def)
qed

lemma rollback_keeps: "wa_limits (snd (rollback a)) = wa_limits a"
  by (simp add: rollback_def)

lemma rollback_scalar_types: "same_types d (snd (rollback_scalar j d))"
  using rollback_keeps [of "w_of d j"]
  by (auto simp: rollback_scalar_def same_types_set_w split: prod.split)

text \<open>
  The methods of the user leave the type of an attribute as it is.
\<close>

definition keeps_types :: "('f, 'd) wuser \<Rightarrow> bool" where
  "keeps_types U \<longleftrightarrow> (\<forall>j w h. wa_data_type (fst (snd (wu_write U j w h))) = wa_data_type w)"

lemma user_write_types:
  assumes "keeps_types U"
  shows "same_types d (snd (user_write U j d))"
proof -
  define a where "a = att_of d j"
  define w where "w = (al_w (wt_att a))\<lparr>wa_user_set := False\<rparr>"
  define d1 where "d1 = set_att j (a\<lparr>wt_att := (reset_value (wt_att a))\<lparr>al_w := w\<rparr>\<rparr>) d"
  have 1: "same_types d d1"
    unfolding d1_def by (rule same_types_set_att) (simp add: w_def a_def)
  obtain r h where rh: "wu_allowed U j (wd_hw d1) = (r, h)" by (cases "wu_allowed U j (wd_hw d1)")
  obtain q w2 h2 where q: "wu_write U j w h = (q, w2, h2)" by (cases "wu_write U j w h")
  have dt: "wa_data_type w2 = wa_data_type (w_of d j)"
    using assms q unfolding keeps_types_def w_def a_def by (metis fst_conv snd_conv w_attr.select_convs(1) w_attr.surjective w_attr.update_convs(11))
  have 2: "same_types d1 (set_w j w2 d1)"
    using 1 dt by (intro same_types_set_w) (simp add: same_types_def)
  have 3: "same_types (set_w j w2 d1) (set_att j ((att_of (set_w j w2 d1) j)\<lparr>wt_mem_failed := False\<rparr>) (set_w j w2 d1))"
    by (rule same_types_set_att) simp
  note t = 1 same_types_trans [OF 1 2] same_types_trans [OF same_types_trans [OF 1 2] 3]
  have eq: "user_write U j d =
    (case wu_allowed U j (wd_hw d1) of
          (Throw e, h) \<Rightarrow> (Throw e, d1\<lparr>wd_hw := h\<rparr>)
        | (Undef, h) \<Rightarrow> (Undef, d1)
        | (Ok False, h) \<Rightarrow>
            (Throw (DevFailed ''API_AttrNotAllowed'' (''It is currently not allowed to write attribute '' @ al_name (wt_att a))),
             d1\<lparr>wd_hw := h\<rparr>)
        | (Ok True, h) \<Rightarrow>
            (case wu_write U j w h of
               (r, w, h) \<Rightarrow>
                 let d = (set_w j w d1)\<lparr>wd_hw := h\<rparr>
                 in case r of
                      U_ok \<Rightarrow>
                        if wt_mem_failed a
                        then (Ok (), (set_att j ((att_of d j)\<lparr>wt_mem_failed := False\<rparr>) d)\<lparr>wd_conf_loop := True\<rparr>)
                        else (Ok (), d)
                    | U_failed e \<Rightarrow> (Throw e, d)
                    | U_multi [] \<Rightarrow> (Undef, d)
                    | U_multi ((n, e) # _) \<Rightarrow> (Throw (DevFailed_stack e), d)
                    | U_undef \<Rightarrow> (Undef, d)))"
    by (simp only: user_write_def Let_def a_def w_def d1_def)
  have hw: "set_att j x (y\<lparr>wd_hw := k\<rparr>) = (set_att j x y)\<lparr>wd_hw := k\<rparr>" for x y k by (simp add: set_att_def)
  show ?thesis
    unfolding eq rh using t q
    by (auto simp: hw Let_def split: result.split bool.split user_end.split list.split)
qed

section \<open>No failure is lost\<close>

text \<open>
  What a stage does with the attributes of the call: each one is kept or has a failure.
\<close>

definition accounts :: "att_idx list \<Rightarrow> named_err list \<Rightarrow> att_idx list \<Rightarrow> named_err list \<Rightarrow> bool" where
  "accounts us es us' es' \<longleftrightarrow> set us' \<subseteq> set us \<and> set es \<subseteq> set es' \<and>
    (\<forall>u \<in> set us. u \<in> set us' \<or> fst u \<in> ne_index ` set es') \<and> (distinct (map snd us) \<longrightarrow> distinct (map snd us'))"

lemma accounts_refl [simp]: "accounts us es us es"
  by (simp add: accounts_def)

lemma accounts_trans: "accounts us es us' es' \<Longrightarrow> accounts us' es' us'' es'' \<Longrightarrow> accounts us es us'' es''"
  unfolding accounts_def by blast

lemma accounts_Cons:
  "accounts us es us' es' \<Longrightarrow> accounts (u # us) es (u # us') es'"
  "accounts us (es @ [e]) us' es' \<Longrightarrow> fst u = ne_index e \<Longrightarrow> accounts (u # us) es us' es'"
  unfolding accounts_def by auto

lemma select_attrs_complete:
  assumes "select_attrs d i vs = Ok (us, es)"
  shows "(\<forall>k < length vs. (\<exists>j. (i + k, j) \<in> set us) \<or> i + k \<in> ne_index ` set es) \<and>
    (\<forall>(m, j) \<in> set us. i \<le> m \<and> m < i + length vs \<and> select_attr d (vs ! (m - i)) = Ok j)"
  using assms
proof (induction vs arbitrary: i us es)
  case (Cons v vs)
  obtain us1 es1 where rest: "select_attrs d (Suc i) vs = Ok (us1, es1)"
    and new: "(\<exists>j. select_attr d v = Ok j \<and> us = (i, j) # us1 \<and> es = es1) \<or>
      us = us1 \<and> (\<exists>e. es = \<lparr>ne_name = wv_name v, ne_index = i, ne_exn = e\<rparr> # es1)"
    using Cons.prems by (cases "select_attr d v") (auto simp: rbind_eq_Ok split: if_splits)
  note ih = Cons.IH [OF rest]
  have nth: "(v # vs) ! (m - i) = vs ! (m - Suc i)" if "Suc i \<le> m" for m using that by (simp add: nth_Cons')
  have "(\<exists>j. (i + k, j) \<in> set us) \<or> i + k \<in> ne_index ` set es" if k: "k < length (v # vs)" for k
  proof (cases k)
    case 0
    then show ?thesis using new by auto
  next
    case (Suc l)
    then show ?thesis using ih new k by auto
  qed
  moreover have "i \<le> m \<and> m < i + length (v # vs) \<and> select_attr d ((v # vs) ! (m - i)) = Ok j" if "(m, j) \<in> set us" for m j
    using that ih new nth [of m] by fastforce
  ultimately show ?case by blast
qed simp

lemma write_values_accounts:
  assumes "write_values U vals us es d = (Ok (us', es'), d')" "keeps_types U"
  shows "accounts us es us' es' \<and> same_types d d'"
  using assms
proof (induction U vals us es d arbitrary: us' es' d' rule: write_values.induct)
  case (2 U vals i j us es d)
  obtain r d1 where u: "user_write U j d = (r, d1)" by (cases "user_write U j d")
  have t: "same_types d d1" using user_write_types [OF 2(4), of d j] u by simp
  show ?case
  proof (cases r)
    case (Ok x)
    then obtain kept where "write_values U vals us es d1 = (Ok (kept, es'), d')" "us' = (i, j) # kept"
      using 2(3) u by (cases "write_values U vals us es d1"; cases "fst (write_values U vals us es d1)") auto
    then show ?thesis
      using 2(1) [OF u [symmetric] Ok] 2(4) t same_types_trans accounts_Cons(1) by blast
  next
    case (Throw e)
    let ?es = "es @ [\<lparr>ne_name = wv_name (vals ! i), ne_index = i, ne_exn = e\<rparr>]"
    obtain q d2 where q: "rollback_scalar j d1 = (q, d2)" by (cases "rollback_scalar j d1")
    have e: "dev_failed e" using 2(3) u Throw by (auto split: if_splits)
    then obtain y where y: "q = Ok y" "write_values U vals us ?es d2 = (Ok (us', es'), d')"
      using 2(3) u Throw q by (cases q) auto
    have "same_types d1 d2" using rollback_scalar_types [of d1 j] q by simp
    moreover have "accounts us ?es us' es' \<and> same_types d2 d'"
      using 2(2) [OF u [symmetric] Throw e] y 2(4) by simp
    ultimately show ?thesis using t same_types_trans accounts_Cons(2) [of us es _ us' es' "(i, j)"] by fastforce
  next
    case Undef
    then show ?thesis using 2(3) u by simp
  qed
qed simp

lemma index_of_Some: "index_of p xs = Some k \<Longrightarrow> k < length xs \<and> p (xs ! k)"
  by (induction xs arbitrary: k) (auto split: if_splits)

lemma accounts_remove:
  assumes "k < length us" "ne_index e = fst (us ! k)"
  shows "accounts us es (take k us @ drop (Suc k) us) (es @ [e])"
proof -
  have us: "us = take k us @ us ! k # drop (Suc k) us" by (rule id_take_nth_drop [OF assms(1)])
  have "set us = insert (us ! k) (set (take k us @ drop (Suc k) us))" by (subst us) simp
  moreover have "distinct (map snd us) \<longrightarrow> distinct (map snd (take k us @ drop (Suc k) us))" by (subst us) simp
  ultimately show ?thesis using assms(2) by (auto simp: accounts_def)
qed

lemma named_failures_accounts:
  assumes "named_failures fs us es d = (Ok (us', es'), d')"
  shows "accounts us es us' es' \<and> same_types d d'"
  using assms
proof (induction fs us es d arbitrary: us' es' d' rule: named_failures.induct)
  case (2 n e fs us es d)
  obtain k where k: "index_of (\<lambda>u. lower (al_name (wt_att (att_of d (snd u)))) = lower n) us = Some k"
    using 2(2) by (auto split: option.splits)
  let ?e = "\<lparr>ne_name = n, ne_index = fst (us ! k), ne_exn = DevFailed_stack e\<rparr>"
  obtain q d2 where q: "rollback_scalar (snd (us ! k)) d = (q, d2)" by (cases "rollback_scalar (snd (us ! k)) d")
  obtain y where y: "q = Ok y" "named_failures fs (take k us @ drop (Suc k) us) (es @ [?e]) d2 = (Ok (us', es'), d')"
    using 2(2) k q by (cases q) auto
  have "same_types d d2" using rollback_scalar_types [of d "snd (us ! k)"] q by simp
  moreover have "accounts us es (take k us @ drop (Suc k) us) (es @ [?e])"
    using index_of_Some [OF k] by (intro accounts_remove) auto
  ultimately show ?case
    using 2(1) [OF k] y accounts_trans same_types_trans by blast
qed simp

lemma find_index:
  assumes "distinct (map snd us)" "u \<in> set us"
  shows "find (\<lambda>v. snd v = snd u) us = Some u"
  using assms by (induction us) (auto simp: image_iff)

lemma all_failed_accounts:
  assumes "all_failed e us js es d = (Ok es', d')" "distinct (map snd us)"
  shows "set es \<subseteq> set es' \<and> (\<forall>u \<in> set us. snd u \<in> set js \<longrightarrow> fst u \<in> ne_index ` set es') \<and> same_types d d'"
  using assms
proof (induction e us js es d arbitrary: es' d' rule: all_failed.induct)
  case (2 e us j js es d)
  obtain q d2 where q: "rollback_scalar j d = (q, d2)" by (cases "rollback_scalar j d")
  let ?e = "\<lparr>ne_name = al_name (wt_att (att_of d2 j)),
        ne_index = (case find (\<lambda>u. snd u = j) us of Some u \<Rightarrow> fst u | None \<Rightarrow> 0), ne_exn = e\<rparr>"
  obtain y where y: "q = Ok y" "all_failed e us js (es @ [?e]) d2 = (Ok es', d')"
    using 2(2) q by (cases q) auto
  have "same_types d d2" using rollback_scalar_types [of d j] q by simp
  moreover have ih: "set (es @ [?e]) \<subseteq> set es' \<and> (\<forall>u \<in> set us. snd u \<in> set js \<longrightarrow> fst u \<in> ne_index ` set es') \<and> same_types d2 d'"
    using 2(1) y 2(3) by blast
  moreover have "fst u \<in> ne_index ` set es'" if u: "u \<in> set us" "snd u = j" for u
  proof -
    have "ne_index ?e = fst u" using find_index [OF 2(3) u(1)] u(2) by simp
    then show ?thesis using ih by (metis image_eqI in_set_conv_decomp set_append subset_code(1) append_Cons)
  qed
  ultimately show ?case using same_types_trans by auto
qed simp

lemma write_hardware_accounts:
  assumes "write_hardware U us es d = (Ok (us', es'), d')" "distinct (map snd us)"
  shows "accounts us es us' es' \<and> same_types d d'"
proof (cases "wd_vers d < 4")
  case False
  obtain r h where r: "wu_hardware U (map snd us) (wd_hw d) = (r, h)" by (cases "wu_hardware U (map snd us) (wd_hw d)")
  let ?d = "d\<lparr>wd_hw := h\<rparr>"
  show ?thesis
  proof (cases r)
    case (U_failed e)
    then have "us' = [] \<and> all_failed e us (map snd us) es ?d = (Ok es', d')"
      using assms(1) False r
      by (cases "all_failed e us (map snd us) es ?d"; cases "fst (all_failed e us (map snd us) es ?d)")
        (auto simp: write_hardware_def Let_def split: if_splits)
    then show ?thesis using all_failed_accounts [OF _ assms(2)] by (fastforce simp: accounts_def)
  next
    case (U_multi fs)
    then have "named_failures fs us es ?d = (Ok (us', es'), d')" using assms(1) False r by (simp add: write_hardware_def Let_def)
    then show ?thesis using named_failures_accounts by fastforce
  qed (use assms(1) False r in \<open>auto simp: write_hardware_def Let_def\<close>)
qed (use assms in \<open>auto simp: write_hardware_def Let_def\<close>)

text \<open>
  The check of a value of the call against its attribute.
\<close>

abbreviation checked_w :: "'f w_env \<Rightarrow> 'f wval \<Rightarrow> 'f w_attr \<Rightarrow> unit result \<times> 'f w_attr" where
  "checked_w E v w \<equiv> check_written_value E (wv_value v) (ulong_of (wv_dim_x v)) (ulong_of (wv_dim_y v)) w"

lemma check_values_accounts:
  assumes "check_values E vals done us es d = (Ok (us', es'), d')"
    and "done = [] \<Longrightarrow> us \<noteq> [] \<Longrightarrow> fst (checked_w E (vals ! fst (hd us)) (w_of d (snd (hd us)))) = Ok ()"
    and "distinct (map snd (done @ us))"
  shows "accounts (done @ us) es us' es' \<and> same_types d d' \<and>
    (\<forall>(i, j) \<in> set us' - set done. fst (checked_w E (vals ! i) (w_of d j)) = Ok ())"
  using assms
proof (induction E vals "done" us es d arbitrary: us' es' d' rule: check_values.induct)
  case (2 E vals dn i j us es d)
  let ?v = "vals ! i"
  obtain r w where c: "checked_w E ?v (w_of d j) = (r, w)" by (cases "checked_w E ?v (w_of d j)")
  have t: "same_types d (set_w j w d)"
    using check_written_value_keeps(1) [of E "wv_value ?v" _ _ "w_of d j"] c by (intro same_types_set_w) (metis snd_conv)
  have other: "w_of (set_w j w d) k = w_of d k" if "(m, k) \<in> set us" for m k
    using that 2(5) by (auto simp: w_of_set_w image_iff)
  show ?case
  proof (cases r)
    case (Ok x)
    have run: "check_values E vals (dn @ [(i, j)]) us es (set_w j w d) = (Ok (us', es'), d')"
      using 2(3) c Ok by (simp add: Let_def)
    have ih: "accounts ((dn @ [(i, j)]) @ us) es us' es' \<and> same_types (set_w j w d) d' \<and>
      (\<forall>(i, k) \<in> set us' - set (dn @ [(i, j)]). fst (checked_w E (vals ! i) (w_of (set_w j w d) k)) = Ok ())"
      using 2(1) [OF refl c [symmetric] Ok run] 2(5) by simp
    have "fst (checked_w E (vals ! m) (w_of d k)) = Ok ()" if m: "(m, k) \<in> set us' - set dn" for m k
    proof (cases "(m, k) = (i, j)")
      case True
      then show ?thesis using c Ok by simp
    next
      case False
      then have "(m, k) \<in> set us" using m ih by (auto simp: accounts_def)
      moreover have "fst (checked_w E (vals ! m) (w_of (set_w j w d) k)) = Ok ()" using ih m False by auto
      ultimately show ?thesis using other by simp
    qed
    then show ?thesis using ih t same_types_trans by auto
  next
    case (Throw e)
    let ?es = "es @ [\<lparr>ne_name = wv_name ?v, ne_index = i, ne_exn = e\<rparr>]"
    have dn: "dn \<noteq> []" using 2(4) c Throw by auto
    have df: "dev_failed e" using 2(3) c Throw by (auto simp: Let_def split: if_splits)
    have a: "accounts (dn @ (i, j) # us) es (dn @ us) ?es"
      by (auto simp: accounts_def)
    show ?thesis
    proof (cases "us = []")
      case True
      then have "us' = dn" "es' = ?es" "d' = set_w j w d" using 2(3) c Throw df by (auto simp: Let_def)
      then show ?thesis using a t True by simp
    next
      case False
      have run: "check_values E vals dn us ?es (set_w j w d) = (Ok (us', es'), d')"
        using 2(3) c Throw df False dn by (simp add: Let_def)
      have ih: "accounts (dn @ us) ?es us' es' \<and> same_types (set_w j w d) d' \<and>
        (\<forall>(i, k) \<in> set us' - set dn. fst (checked_w E (vals ! i) (w_of (set_w j w d) k)) = Ok ())"
        using 2(2) [OF refl c [symmetric] Throw df refl refl False dn run] 2(5) dn by simp
      have "fst (checked_w E (vals ! m) (w_of d k)) = Ok ()" if m: "(m, k) \<in> set us' - set dn" for m k
      proof -
        have "(m, k) \<in> set us" using m ih by (auto simp: accounts_def)
        moreover have "fst (checked_w E (vals ! m) (w_of (set_w j w d) k)) = Ok ()" using ih m by auto
        ultimately show ?thesis using other by simp
      qed
      then show ?thesis using ih t same_types_trans accounts_trans [OF a] by auto
    qed
  next
    case Undef
    then show ?thesis using 2(3) c by (simp add: Let_def)
  qed
qed simp

lemma copy_value_last:
  assumes "copy_value U v j d = (Ok (), d')" "j < length (wd_attrs d)"
  shows "same_types d d' \<and> (\<forall>k. k \<noteq> j \<longrightarrow> w_of d' k = w_of d k) \<and>
    (wv_value v = Incoming t vs \<longrightarrow>
      wa_last (w_of d' j) = vs \<or> wa_user_set (w_of d' j) \<or> wa_data_type (w_of d' j) = DEV_ENCODED)"
proof -
  let ?w = "w_of d j"
  obtain x w where w: "(if wa_user_set ?w then (Ok (), ?w) else copy_data (wv_value v) ?w) = (Ok x, w)"
    using assms(1) unfolding copy_value_def by (auto split: prod.splits result.splits)
  define a where "a = (att_of d j)\<lparr>wt_att := (wt_att (att_of d j))\<lparr>al_w := (if al_rds_conf (wt_att (att_of d j)) then set_written_date (wu_now U) w else w)\<rparr>,
    wt_mem_value := (if wt_memorized (att_of d j) \<and> wt_mem_value (att_of d j) = MemNotUsed then ''Set'' else wt_mem_value (att_of d j))\<rparr>"
  have d': "d' = set_att j a d"
    using assms(1) w unfolding copy_value_def Let_def a_def by simp
  have l: "wa_limits w = wa_limits ?w" "wa_user_set w = wa_user_set ?w"
    and c: "wv_value v = Incoming t vs \<Longrightarrow> wa_last w = vs \<or> wa_user_set w \<or> wa_data_type w = DEV_ENCODED"
    using w by (auto simp: copy_data_def split: if_splits incoming.splits)
  have aw: "al_w (wt_att a) = (if al_rds_conf (wt_att (att_of d j)) then set_written_date (wu_now U) w else w)"
    by (simp add: a_def)
  have "same_types d d'" unfolding d' by (rule same_types_set_att) (simp add: aw l set_written_date_def)
  moreover have "w_of d' k = w_of d k" if "k \<noteq> j" for k using that by (simp add: d' set_att_def)
  moreover have "w_of d' j = al_w (wt_att a)" using assms(2) by (simp add: d' set_att_def)
  ultimately show ?thesis using c by (simp add: aw set_written_date_def)
qed

lemma copy_values_last:
  assumes "copy_values U vals us d = (Ok (), d')" "distinct (map snd us)" "\<forall>u \<in> set us. snd u < length (wd_attrs d)"
  shows "same_types d d' \<and> (\<forall>k. k \<notin> snd ` set us \<longrightarrow> w_of d' k = w_of d k) \<and>
    (\<forall>(i, j) \<in> set us. \<forall>t vs. wv_value (vals ! i) = Incoming t vs \<longrightarrow>
      wa_last (w_of d' j) = vs \<or> wa_user_set (w_of d' j) \<or> wa_data_type (w_of d' j) = DEV_ENCODED)"
  using assms
proof (induction U vals us d arbitrary: d' rule: copy_values.induct)
  case (2 U vals i j us d)
  obtain d1 where d1: "copy_value U (vals ! i) j d = (Ok (), d1)" "copy_values U vals us d1 = (Ok (), d')"
    using 2(2) by (cases "copy_value U (vals ! i) j d"; cases "fst (copy_value U (vals ! i) j d)") auto
  have j: "j < length (wd_attrs d)" "j \<notin> snd ` set us" using 2(3,4) by auto
  note s = copy_value_last [OF d1(1) j(1)]
  have st: "same_types d d1" "\<forall>k. k \<noteq> j \<longrightarrow> w_of d1 k = w_of d k" using s [of undefined undefined] by blast+
  have "\<forall>u \<in> set us. snd u < length (wd_attrs d1)" using 2(4) st(1) by (auto simp: same_types_def)
  then have ih: "same_types d1 d' \<and> (\<forall>k. k \<notin> snd ` set us \<longrightarrow> w_of d' k = w_of d1 k) \<and>
    (\<forall>(i, j) \<in> set us. \<forall>t vs. wv_value (vals ! i) = Incoming t vs \<longrightarrow>
      wa_last (w_of d' j) = vs \<or> wa_user_set (w_of d' j) \<or> wa_data_type (w_of d' j) = DEV_ENCODED)"
    using 2(1) [OF d1(2)] 2(3) by simp
  have "wa_last (w_of d' j) = vs \<or> wa_user_set (w_of d' j) \<or> wa_data_type (w_of d' j) = DEV_ENCODED"
    if "wv_value (vals ! i) = Incoming t vs" for t vs
    using s [of t vs] that ih j(2) by simp
  moreover have "same_types d d'" using same_types_trans st(1) ih by blast
  ultimately show ?case using ih st(2) by auto
qed simp

lemma store_memorized_keeps:
  assumes "store_memorized U vals us es d = (Ok es', d')"
  shows "wd_attrs d' = wd_attrs d \<and> set es \<subseteq> set es'"
proof -
  let ?ms = "filter (\<lambda>u. wt_memorized (att_of d (snd u))) us"
  have "wd_attrs (snd (write_attributes_in_db U js d)) = wd_attrs d" for js
    by (cases "rmap (mem_entry (wu_text U) d) js"; cases "wu_db_answer U") (simp_all add: write_attributes_in_db_def)
  then have k: "wd_attrs f = wd_attrs d" if "write_attributes_in_db U js d = (q, f)" for js q f by (metis that snd_conv)
  obtain q f where q: "write_attributes_in_db U (map snd ?ms) d = (q, f)" by (cases "write_attributes_in_db U (map snd ?ms) d")
  then show ?thesis
    using assms k [OF q] by (auto simp: store_memorized_def Let_def split: if_splits result.splits)
qed

lemma select_attr_Ok:
  assumes "select_attr d v = Ok j"
  shows "j < length (wd_attrs d) \<and> lower (al_name (wt_att (att_of d j))) = lower (wv_name v)"
proof -
  obtain k where "index_of (\<lambda>a. lower (al_name (wt_att a)) = lower (wv_name v)) (wd_attrs d) = Some k" "k = j"
    using assms by (auto simp: select_attr_def get_attr_ind_by_name_def rbind_eq_Ok Let_def split: option.splits if_splits)
  then show ?thesis using index_of_Some by fastforce
qed

lemma select_attrs_positions:
  assumes "select_attrs d i vs = Ok (us, es)"
  shows "distinct (map fst us)"
  using assms
proof (induction vs arbitrary: i us es)
  case (Cons v vs)
  obtain us1 es1 where rest: "select_attrs d (Suc i) vs = Ok (us1, es1)" and new: "us = us1 \<or> (\<exists>j. us = (i, j) # us1)"
    using Cons.prems by (cases "select_attr d v") (auto simp: rbind_eq_Ok split: if_splits)
  have "i \<notin> fst ` set us1" using select_attrs_complete [OF rest] by fastforce
  then show ?case using Cons.IH [OF rest] new by auto
qed simp

lemma select_attrs_distinct:
  assumes "select_attrs d 0 vals = Ok (us, es)" "distinct (map (\<lambda>v. lower (wv_name v)) vals)"
  shows "distinct (map snd us)" "\<forall>u \<in> set us. snd u < length (wd_attrs d)"
proof -
  have sel: "m < length vals \<and> select_attr d (vals ! m) = Ok j" if "(m, j) \<in> set us" for m j
    using select_attrs_complete [OF assms(1)] that by auto
  have "m = n" if "(m, j) \<in> set us" "(n, j) \<in> set us" for m n j
  proof -
    have "lower (wv_name (vals ! m)) = lower (wv_name (vals ! n))"
      using sel [OF that(1)] sel [OF that(2)] select_attr_Ok [of d "vals ! m" j] select_attr_Ok [of d "vals ! n" j] by metis
    then have "map (\<lambda>v. lower (wv_name v)) vals ! m = map (\<lambda>v. lower (wv_name v)) vals ! n"
      using sel [OF that(1)] sel [OF that(2)] by simp
    then show ?thesis using sel [OF that(1)] sel [OF that(2)] nth_eq_iff_index_eq [OF assms(2)] by simp
  qed
  then have "inj_on snd (set us)" by (auto intro!: inj_onI)
  moreover have "distinct us" using select_attrs_positions [OF assms(1)] by (simp add: distinct_map)
  ultimately show "distinct (map snd us)" by (simp add: distinct_map)
  show "\<forall>u \<in> set us. snd u < length (wd_attrs d)" using sel select_attr_Ok by fastforce
qed

lemma select_attrs_cong: "wd_attrs e = wd_attrs d \<Longrightarrow> select_attrs e i vs = select_attrs d i vs"
proof (induction vs arbitrary: i)
  case (Cons v vs)
  have "select_attr e v = select_attr d v" using Cons.prems by (simp add: select_attr_def get_attr_ind_by_name_def)
  then show ?case using Cons by (simp split: result.split)
qed simp

lemma select_attr_assoc [simp]: "select_attr (d\<lparr>wd_assoc := n\<rparr>) v = select_attr d v"
  by (simp add: select_attr_def get_attr_ind_by_name_def)

text \<open>
  The first of the attributes of the call that can be written accepts its value.
\<close>

definition first_accepted :: "('f, 'd) wuser \<Rightarrow> 'f wval list \<Rightarrow> ('f, 'd) wdev \<Rightarrow> bool" where
  "first_accepted U vals d \<longleftrightarrow>
    (case select_attrs d 0 vals of
       Ok ((i, j) # us, es) \<Rightarrow> fst (checked_w (wu_env U) (vals ! i) (w_of d j)) = Ok ()
     | _ \<Rightarrow> True)"

lemma write_body_parts:
  assumes "write_body U vals d = (Ok errs, d')"
  obtains us es d1 us2 es2 d2 us3 es3 d3 d4 where
    "select_attrs d 0 vals = Ok (us, es)" "wd_attrs d1 = wd_attrs d"
    "check_values (wu_env U) vals [] us es d1 = (Ok (us2, es2), d2)"
    "(if length es2 \<noteq> length vals
      then sbind (write_values U vals us2 es2 d2) (\<lambda>(us, es) d. write_hardware U us es d) else (Ok (us2, es2), d2)) =
      (Ok (us3, es3), d3)"
    "copy_values U vals us3 d3 = (Ok (), d4)" "store_memorized U vals us3 es3 d4 = (Ok errs, d')"
proof -
  have sb: "\<exists>x s. m = (Ok x, s) \<and> f x s = (Ok y, t)" if "sbind m f = (Ok y, t)"
    for m :: "'x result \<times> ('a, 'b) wdev" and f :: "'x \<Rightarrow> ('a, 'b) wdev \<Rightarrow> 'y result \<times> ('a, 'b) wdev" and y t
    using that by (cases m; cases "fst m") auto
  obtain p where p: "select_attrs d 0 vals = Ok p"
    using assms unfolding write_body_def by (cases "select_attrs d 0 vals") simp_all
  obtain us es where q: "p = (us, es)" by (cases p)
  let ?hook = "if length es \<noteq> length vals then case wu_hook U (wd_hw d) of (r, h) \<Rightarrow> (r, d\<lparr>wd_hw := h\<rparr>) else (Ok (), d)"
  have a: "sbind ?hook (\<lambda>_ d. sbind (check_values (wu_env U) vals [] us es d) (\<lambda>(us, es) d.
    sbind (if length es \<noteq> length vals
           then sbind (write_values U vals us es d) (\<lambda>(us, es) d. write_hardware U us es d)
           else (Ok (us, es), d)) (\<lambda>(us, es) d.
    sbind (copy_values U vals us d) (\<lambda>_ d. store_memorized U vals us es d)))) = (Ok errs, d')"
    using assms unfolding write_body_def p q by simp
  obtain x d1 where d1: "?hook = (Ok x, d1)" "sbind (check_values (wu_env U) vals [] us es d1) (\<lambda>(us, es) d.
    sbind (if length es \<noteq> length vals
           then sbind (write_values U vals us es d) (\<lambda>(us, es) d. write_hardware U us es d)
           else (Ok (us, es), d)) (\<lambda>(us, es) d.
    sbind (copy_values U vals us d) (\<lambda>_ d. store_memorized U vals us es d))) = (Ok errs, d')"
    using sb [OF a] by blast
  obtain us2 es2 d2 where d2: "check_values (wu_env U) vals [] us es d1 = (Ok (us2, es2), d2)"
    "sbind (if length es2 \<noteq> length vals
           then sbind (write_values U vals us2 es2 d2) (\<lambda>(us, es) d. write_hardware U us es d)
           else (Ok (us2, es2), d2)) (\<lambda>(us, es) d.
      sbind (copy_values U vals us d) (\<lambda>_ d. store_memorized U vals us es d)) = (Ok errs, d')"
    using sb [OF d1(2)] by auto
  obtain us3 es3 d3 where d3: "(if length es2 \<noteq> length vals
           then sbind (write_values U vals us2 es2 d2) (\<lambda>(us, es) d. write_hardware U us es d)
           else (Ok (us2, es2), d2)) = (Ok (us3, es3), d3)"
    "sbind (copy_values U vals us3 d3) (\<lambda>_ d. store_memorized U vals us3 es3 d) = (Ok errs, d')"
    using sb [OF d2(2)] by auto
  obtain d4 where "copy_values U vals us3 d3 = (Ok (), d4)" "store_memorized U vals us3 es3 d4 = (Ok errs, d')"
    using sb [OF d3(2)] by auto
  moreover have "wd_attrs d1 = wd_attrs d" using d1(1) by (auto split: if_splits prod.splits)
  ultimately show thesis using that p q d2(1) d3(1) by simp
qed

lemma write_body_accounts:
  assumes "write_body U vals d = (Ok errs, d')" "keeps_types U" "distinct (map (\<lambda>v. lower (wv_name v)) vals)"
    and "first_accepted U vals d" "i < length vals" "i \<notin> ne_index ` set errs"
  shows "\<exists>j t vs. select_attr d (vals ! i) = Ok j \<and> wv_value (vals ! i) = Incoming t vs \<and>
    fst (checked_w (wu_env U) (vals ! i) (w_of d j)) = Ok () \<and>
    (wa_last (w_of d' j) = vs \<or> wa_user_set (w_of d' j) \<or> wa_data_type (w_of d j) = DEV_ENCODED)"
proof (rule write_body_parts [OF assms(1)])
  fix us es d1 us2 es2 d2 us3 es3 d3 d4
  assume s: "select_attrs d 0 vals = Ok (us, es)" and d1: "wd_attrs d1 = wd_attrs d"
    and c: "check_values (wu_env U) vals [] us es d1 = (Ok (us2, es2), d2)"
    and w: "(if length es2 \<noteq> length vals
      then sbind (write_values U vals us2 es2 d2) (\<lambda>(us, es) d. write_hardware U us es d) else (Ok (us2, es2), d2)) =
      (Ok (us3, es3), d3)"
    and p: "copy_values U vals us3 d3 = (Ok (), d4)" and m: "store_memorized U vals us3 es3 d4 = (Ok errs, d')"
  note ds = select_attrs_distinct [OF s assms(3)]
  have first: "us \<noteq> [] \<Longrightarrow> fst (checked_w (wu_env U) (vals ! fst (hd us)) (w_of d1 (snd (hd us)))) = Ok ()"
    using assms(4) s d1 by (cases us) (auto simp: first_accepted_def)
  have 2: "accounts us es us2 es2" "same_types d1 d2"
    "\<forall>(i, j) \<in> set us2. fst (checked_w (wu_env U) (vals ! i) (w_of d1 j)) = Ok ()"
    using check_values_accounts [OF c] first ds(1) by auto
  have dist2: "distinct (map snd us2)" using 2(1) ds(1) by (simp add: accounts_def)
  have 3: "accounts us2 es2 us3 es3 \<and> same_types d2 d3"
  proof (cases "length es2 \<noteq> length vals")
    case True
    then obtain us5 es5 d5 where "write_values U vals us2 es2 d2 = (Ok (us5, es5), d5)" "write_hardware U us5 es5 d5 = (Ok (us3, es3), d3)"
      using w by (cases "write_values U vals us2 es2 d2"; cases "fst (write_values U vals us2 es2 d2)") auto
    moreover have "distinct (map snd us5)"
      using write_values_accounts [OF calculation(1) assms(2)] dist2 by (simp add: accounts_def)
    ultimately show ?thesis
      using write_values_accounts [OF _ assms(2)] write_hardware_accounts accounts_trans same_types_trans by metis
  qed (use w in auto)
  have dist3: "distinct (map snd us3)" using 3 dist2 by (simp add: accounts_def)
  have sub: "set us3 \<subseteq> set us" using 2(1) 3 by (auto simp: accounts_def)
  have len: "length (wd_attrs d3) = length (wd_attrs d)" using 2(2) 3 d1 by (simp add: same_types_def)
  then have lt: "\<forall>u \<in> set us3. snd u < length (wd_attrs d3)" using sub ds(2) by auto
  have 4: "same_types d3 d4" "\<forall>(i, j) \<in> set us3. \<forall>t vs. wv_value (vals ! i) = Incoming t vs \<longrightarrow>
      wa_last (w_of d4 j) = vs \<or> wa_user_set (w_of d4 j) \<or> wa_data_type (w_of d4 j) = DEV_ENCODED"
    using copy_values_last [OF p dist3 lt] by blast+
  have 5: "wd_attrs d' = wd_attrs d4" "set es3 \<subseteq> set errs" using store_memorized_keeps [OF m] by auto
  have acc: "accounts us es us3 es3" using accounts_trans [OF 2(1)] 3 by blast
  have "i \<notin> ne_index ` set es" using acc 5(2) assms(6) by (auto simp: accounts_def)
  then obtain j where j: "(i, j) \<in> set us" using select_attrs_complete [OF s] assms(5) by auto
  have "i \<notin> ne_index ` set es3" using 5(2) assms(6) by auto
  then have j3: "(i, j) \<in> set us3" using acc j by (auto simp: accounts_def)
  then have j2: "(i, j) \<in> set us2" using 3 by (auto simp: accounts_def)
  obtain t vs where v: "wv_value (vals ! i) = Incoming t vs" by (cases "wv_value (vals ! i)")
  have "select_attr d (vals ! i) = Ok j" using select_attrs_complete [OF s] j by auto
  moreover have "fst (checked_w (wu_env U) (vals ! i) (w_of d j)) = Ok ()" using 2(3) j2 d1 by auto
  moreover have "wa_data_type (w_of d4 j) = wa_data_type (w_of d j)" using 2(2) 3 4(1) d1 by (simp add: same_types_def)
  then have "wa_last (w_of d' j) = vs \<or> wa_user_set (w_of d' j) \<or> wa_data_type (w_of d j) = DEV_ENCODED"
    using 4(2) j3 v 5(1) by fastforce
  ultimately show ?thesis using v by blast
qed

text \<open>
  (C4) No failure of a write is lost. In a call for different attributes, if the first one
  that can be written accepts its value, every value for which the caller gets no failure
  was accepted by the check of its attribute, and is the value written last of that
  attribute, unless the method of the user set another one. This holds for any failures of
  the methods of the user, of the hardware and of the database.
\<close>

theorem write_failures_reported:
  assumes "write_attributes_34 U vals d = (Ok errs, d')" "keeps_types U" "distinct (map (\<lambda>v. lower (wv_name v)) vals)"
    and "first_accepted U vals d" "i < length vals" "i \<notin> ne_index ` set errs"
  shows "\<exists>j t vs. select_attr d (vals ! i) = Ok j \<and> wv_value (vals ! i) = Incoming t vs \<and>
    fst (checked_w (wu_env U) (vals ! i) (w_of d j)) = Ok () \<and>
    (wa_last (w_of d' j) = vs \<or> wa_user_set (w_of d' j) \<or> wa_data_type (w_of d j) = DEV_ENCODED)"
proof -
  let ?d = "d\<lparr>wd_assoc := wd_name d\<rparr>"
  obtain e where e: "write_body U vals ?d = (Ok errs, e)" "d' = e\<lparr>wd_assoc := wd_assoc d\<rparr>"
    using assms(1) by (auto simp: write_attributes_34_def split: if_splits prod.splits)
  have s: "select_attrs ?d 0 vals = select_attrs d 0 vals" by (rule select_attrs_cong) simp
  have "first_accepted U vals ?d" using assms(4) by (auto simp: first_accepted_def s split: result.split list.split)
  from write_body_accounts [OF e(1) assms(2,3) this assms(5,6)] show ?thesis
    using e(2) by (simp add: select_attr_def get_attr_ind_by_name_def)
qed

text \<open>
  (C34) A failure of the first value of a call disables the check of the others. The value for
  the second attribute is not checked, whatever it is; the method of the user is called with
  the value from before, the new value becomes the one written last, and the caller gets a
  failure for the first attribute only.
\<close>

theorem first_failure_skips_checks:
  assumes "select_attr d v1 = Ok j1" "select_attr d v2 = Ok j2" "j1 \<noteq> j2"
    and "fst (checked_w (wu_env U) v1 (w_of d j1)) = Throw e" "dev_failed e"
    and "wu_hook U (wd_hw d) = (Ok (), h1)" "wu_allowed U j2 h1 = (Ok True, h2)"
    and "wu_write U j2 ((w_of d j2)\<lparr>wa_user_set := False\<rparr>) h2 = (U_ok, (w_of d j2)\<lparr>wa_user_set := False\<rparr>, h3)"
    and "wu_hardware U [j2] h3 = (U_ok, h4)" "wd_vers d \<ge> 4"
    and "wv_value v2 = Incoming (elt_type (wa_data_type (w_of d j2))) vs"
    and "wa_data_type (w_of d j2) \<in> set writable_types" "wa_data_type (w_of d j2) \<noteq> DEV_ENCODED"
    and "\<not> wt_memorized (att_of d j2)" "\<not> wt_mem_failed (att_of d j2)"
  shows "\<exists>d'. write_attributes_34 U [v1, v2] d = (Ok [\<lparr>ne_name = wv_name v1, ne_index = 0, ne_exn = e\<rparr>], d') \<and>
    wd_hw d' = h4 \<and> wa_last (w_of d' j2) = vs \<and> wa_value (w_of d' j2) = wa_value (w_of d j2)"
proof -
  let ?d = "d\<lparr>wd_assoc := wd_name d\<rparr>" and ?es = "[\<lparr>ne_name = wv_name v1, ne_index = 0, ne_exn = e\<rparr>]"
  let ?w = "(w_of d j2)\<lparr>wa_user_set := False\<rparr>"
  have len: "j1 < length (wd_attrs d)" "j2 < length (wd_attrs d)"
    using select_attr_Ok assms(1,2) by blast+
  have sel: "select_attrs ?d 0 [v1, v2] = Ok ([(0, j1), (1, j2)], [])"
    using assms(1,2) by simp
  define d1 where "d1 = set_w j1 (snd (checked_w (wu_env U) v1 (w_of d j1))) (?d\<lparr>wd_hw := h1\<rparr>)"
  have chk: "check_values (wu_env U) [v1, v2] [] [(0, j1), (1, j2)] [] (?d\<lparr>wd_hw := h1\<rparr>) = (Ok ([(1, j2)], ?es), d1)"
    using assms(4,5) by (cases "checked_w (wu_env U) v1 (w_of d j1)") (simp add: d1_def)
  have a: "att_of d1 j2 = att_of d j2" "wd_hw d1 = h1" "wd_vers d1 = wd_vers d" "length (wd_attrs d1) = length (wd_attrs d)"
    using assms(3) by (simp_all add: d1_def set_w_def set_att_def)
  define a2 where "a2 = (att_of d j2)\<lparr>wt_att := (reset_value (wt_att (att_of d j2)))\<lparr>al_w := ?w\<rparr>\<rparr>"
  define d2 where "d2 = (set_w j2 ?w (set_att j2 a2 d1))\<lparr>wd_hw := h3\<rparr>"
  have "user_write U j2 d1 = (Ok (), d2)"
    using assms(7,8,15) a len(2) by (simp add: user_write_def Let_def d2_def a2_def set_att_def)
  then have wr: "write_values U [v1, v2] [(1, j2)] ?es d1 = (Ok ([(1, j2)], ?es), d2)" by simp
  have a2: "att_of d2 j2 = a2" "wd_hw d2 = h3" "wd_vers d2 = wd_vers d"
    using len(2) a by (simp_all add: d2_def set_w_def set_att_def a2_def)
  have hw: "write_hardware U [(1, j2)] ?es d2 = (Ok ([(1, j2)], ?es), d2\<lparr>wd_hw := h4\<rparr>)"
    using assms(9,10) a2 by (simp add: write_hardware_def)
  have "copy_data (wv_value v2) ?w = (Ok (), ?w\<lparr>wa_last := vs\<rparr>)"
    using assms(11-13) by (simp add: copy_data_def)
  then obtain d3 where cp: "copy_values U [v1, v2] [(1, j2)] (d2\<lparr>wd_hw := h4\<rparr>) = (Ok (), d3)"
      "wa_last (w_of d3 j2) = vs" "wa_value (w_of d3 j2) = wa_value (w_of d j2)" "wd_hw d3 = h4"
      "wt_memorized (att_of d3 j2) = wt_memorized (att_of d j2)"
    using a2 len(2) a(4) by (simp add: copy_value_def a2_def Let_def set_att_def d2_def set_w_def set_written_date_def)
  then have st: "store_memorized U [v1, v2] [(1, j2)] ?es d3 = (Ok ?es, d3)"
    using assms(14) by (simp add: store_memorized_def)
  have "write_body U [v1, v2] ?d = (Ok ?es, d3)"
    using assms(6) chk wr hw cp(1) st unfolding write_body_def sel by simp
  then show ?thesis using len cp by (auto simp: write_attributes_34_def)
qed

section \<open>One attribute\<close>

lemma scalar_checked:
  assumes "check_written_value E i x y a = (Ok (), b)" "wa_format a = SCALAR"
  obtains t v vs where "i = Incoming t (v # vs)" "t = elt_type (wa_data_type a)" "wa_data_type a \<in> set writable_types"
    "b = a\<lparr>wa_ptr := v # vs, wa_old := wa_value a, wa_value := v, w_dim_x := 1, w_dim_y := 0\<rparr>"
proof -
  obtain t vs where i: "i = Incoming t vs" by (cases i)
  have w: "wa_data_type a \<in> set writable_types" "t = elt_type (wa_data_type a)" "update_internal_sequence E vs x y a = (Ok (), b)"
    using assms(1) i by (auto simp: check_written_value_def split: if_splits)
  have "check_length (length vs) x y = Ok ()"
    using w(3) by (cases "check_length (length vs) x y") (simp_all add: update_internal_sequence_def)
  moreover have "check_data_limits E vs a = Ok ()"
    using w(3) calculation by (cases "check_data_limits E vs a") (simp_all add: update_internal_sequence_def)
  ultimately show thesis
    using that w i assms(2) by (cases vs) (auto simp: update_internal_sequence_def Let_def)
qed

text \<open>
  The methods of the user only look at the attribute.
\<close>

definition leaves_attr :: "('f, 'd) wuser \<Rightarrow> bool" where
  "leaves_attr U \<longleftrightarrow> (\<forall>j w h. fst (snd (wu_write U j w h)) = w)"

lemma user_write_w:
  assumes "leaves_attr U" "user_write U j d = (r, d')" "j < length (wd_attrs d)"
  shows "w_of d' j = (w_of d j)\<lparr>wa_user_set := False\<rparr> \<and> length (wd_attrs d') = length (wd_attrs d)"
proof -
  have w: "fst (snd (wu_write U j w h)) = w" for w h using assms(1) by (simp add: leaves_attr_def)
  define a where "a = att_of d j"
  define w where "w = (al_w (wt_att a))\<lparr>wa_user_set := False\<rparr>"
  define d1 where "d1 = set_att j (a\<lparr>wt_att := (reset_value (wt_att a))\<lparr>al_w := w\<rparr>\<rparr>) d"
  obtain q h where q: "wu_allowed U j (wd_hw d1) = (q, h)" by (cases "wu_allowed U j (wd_hw d1)")
  obtain z h2 where z: "wu_write U j w h = (z, w, h2)"
    using w [of w h] by (cases "wu_write U j w h") auto
  have d1: "w_of d1 j = w" "length (wd_attrs d1) = length (wd_attrs d)" using assms(3) by (simp_all add: d1_def set_att_def)
  have "w_of d' j = w \<and> length (wd_attrs d') = length (wd_attrs d)"
    using assms(2,3) d1 q z unfolding user_write_def Let_def a_def [symmetric] w_def [symmetric] d1_def [symmetric]
    by (auto simp: set_w_def set_att_def split: result.splits bool.splits user_end.splits list.splits if_splits)
  then show ?thesis by (simp add: w_def a_def)
qed

text \<open>
  Rolling back a checked value of a scalar attribute.
\<close>

definition untouched :: "'f w_attr \<Rightarrow> 'f w_attr \<Rightarrow> bool" where
  "untouched w w' \<longleftrightarrow> wa_value w' = wa_value w \<and> wa_last w' = wa_last w"

lemma rollback_scalar_untouched:
  assumes "check_written_value E i x y w = (Ok (), b)" "wa_format w = SCALAR"
    and "wa_data_type w \<noteq> DEV_UCHAR" "wa_data_type w \<noteq> DEV_ENCODED"
    and "w_of d j = b\<lparr>wa_user_set := False\<rparr>" "j < length (wd_attrs d)"
  shows "\<exists>d'. rollback_scalar j d = (Ok (), d') \<and> untouched w (w_of d' j) \<and> length (wd_attrs d') = length (wd_attrs d)"
  by (rule scalar_checked [OF assms(1,2)])
    (use assms(2-6) in \<open>simp add: rollback_scalar_def rollback_def w_of_set_w untouched_def\<close>)

lemma write_hardware_none:
  assumes "write_hardware U [] es d = (Ok (us', es'), d')"
  shows "us' = [] \<and> wd_attrs d' = wd_attrs d"
proof -
  obtain r h where r: "wu_hardware U [] (wd_hw d) = (r, h)" by (cases "wu_hardware U [] (wd_hw d)")
  have "named_failures fs [] es (d\<lparr>wd_hw := h\<rparr>) = (Ok (us', es'), d') \<Longrightarrow> us' = [] \<and> wd_attrs d' = wd_attrs d" for fs
    by (cases fs) auto
  then show ?thesis
    using assms r by (auto simp: write_hardware_def Let_def split: if_splits user_end.splits)
qed

lemma write_hardware_one:
  assumes "write_hardware U [(i, j)] es d = (Ok (us', es'), d')"
    and "\<And>h. \<exists>e. rollback_scalar j (d\<lparr>wd_hw := h\<rparr>) = (Ok (), e) \<and> P (w_of e j)"
  shows "us' = [(i, j)] \<and> es' = es \<or> us' = [] \<and> P (w_of d' j)"
proof (cases "wd_vers d < 4")
  case False
  obtain r h where r: "wu_hardware U [j] (wd_hw d) = (r, h)" by (cases "wu_hardware U [j] (wd_hw d)")
  obtain f where f: "rollback_scalar j (d\<lparr>wd_hw := h\<rparr>) = (Ok (), f)" "P (w_of f j)" using assms(2) by blast
  have multi: "us' = [(i, j)] \<and> es' = es \<or> us' = [] \<and> P (w_of d' j)"
    if "named_failures fs [(i, j)] es (d\<lparr>wd_hw := h\<rparr>) = (Ok (us', es'), d')" for fs
  proof (cases fs)
    case (Cons p gs)
    show ?thesis
      using that f unfolding Cons by (cases p; cases gs) (auto split: if_splits)
  qed (use that in auto)
  show ?thesis
    using assms(1) False r f multi by (auto simp: write_hardware_def Let_def split: if_splits user_end.splits)
qed (use assms in \<open>auto simp: write_hardware_def\<close>)

lemma rmap_not_Throw: "(\<And>x. f x \<noteq> Throw e) \<Longrightarrow> rmap f xs \<noteq> Throw e"
proof (induction xs)
  case (Cons x xs)
  then show ?case by (cases "f x"; cases "rmap f xs") auto
qed simp

lemma store_memorized_ok:
  assumes "store_memorized U vals us es d = (Ok es', d')" "wu_db_answer U = Ok ()"
  shows "es' = es"
proof -
  have "mem_entry T d k \<noteq> Throw e" for T k e by (auto simp: mem_entry_def Let_def split: list.split)
  then have "rmap (mem_entry T d) js \<noteq> Throw e" for T js e by (rule rmap_not_Throw)
  then show ?thesis
    using assms
    by (cases "rmap (mem_entry (wu_text U) d) (map snd (filter (\<lambda>u. wt_memorized (att_of d (snd u))) us))")
      (auto simp: store_memorized_def write_attributes_in_db_def Let_def split: if_splits)
qed


text \<open>
  What was written is what a write-only attribute returns. After a value is accepted and
  copied, the value of the reading is the sequence that was written, for scalars, spectra
  and images, if the dimensions are within the limits of the attribute; the quality is
  valid and no alarm is set.
\<close>

theorem written_value_read_back:
  assumes "check_written_value E (Incoming t vs) x y (al_w a) = (Ok (), w1)" "copy_data (Incoming t vs) w1 = (Ok (), w2)"
    and "al_data_type a \<noteq> DEV_ENCODED" "al_data_type a \<noteq> DEV_STRING" "al_data_type a \<noteq> DEV_ENUM"
    and "wa_format (al_w a) = SCALAR \<Longrightarrow> x = 1 \<and> y = 0" "wa_format (al_w a) = SPECTRUM \<Longrightarrow> y = 0"
    and "wa_format (al_w a) = IMAGE \<Longrightarrow> y \<noteq> 0" "wa_format (al_w a) \<noteq> FMT_UNKNOWN"
    and "int x \<le> al_max_x a" "int y \<le> al_max_y a" "x * y < 2 ^ 32" "x < 2 ^ 32"
  shows "\<exists>b. set_rvalue A (a\<lparr>al_w := w2\<rparr>) = (Ok (), b) \<and> al_value b = Some vs \<and> al_quality b = ATTR_VALID \<and> alarm_none (al_alarm b)"
proof -
  let ?w = "al_w a"
  have t: "al_data_type a \<in> set writable_types" "t = elt_type (al_data_type a)" "update_internal_sequence E vs x y ?w = (Ok (), w1)"
    using assms(1) by (auto simp: check_written_value_def split: if_splits)
  have len: "check_length (length vs) x y = Ok ()"
    using t(3) by (cases "check_length (length vs) x y") (simp_all add: update_internal_sequence_def)
  have chk: "check_data_limits E vs ?w = Ok ()"
    using t(3) len by (cases "check_data_limits E vs ?w") (simp_all add: update_internal_sequence_def)
  have n: "length vs = (if y = 0 then x else x * y)"
    using len assms(12) by (auto simp: check_length_def split: if_splits)
  have e: "elt_type (al_data_type a) = al_data_type a" using assms(5) by (simp add: elt_type_def)
  have l1: "wa_limits w1 = wa_limits ?w" "wa_format w1 = wa_format ?w" using t(3) len chk
    by (cases vs; cases "wa_format ?w = SCALAR"; auto simp: update_internal_sequence_def Let_def)+
  then have w2: "w2 = w1\<lparr>wa_last := vs\<rparr>" using assms(2,3) t(1) by (auto simp: copy_data_def split: if_splits)
  show ?thesis
  proof (cases "wa_format ?w = SCALAR")
    case True
    then obtain v where v: "vs = [v]" using n assms(6) by (auto simp: length_Suc_conv)
    have "wa_value w1 = v" using t(3) len chk True v by (auto simp: update_internal_sequence_def Let_def)
    then show ?thesis
      using t(1) e assms(3-6,10,11) True l1 v
      by (simp add: set_rvalue_def w2 set_value_def compute_data_size_def set_time_def alarm_none_def Let_def)
  next
    case False
    then have d: "w_dim_x w1 = int x" "w_dim_y w1 = int y" using t(3) len chk by (auto simp: update_internal_sequence_def Let_def)
    have sz: "compute_data_size (wa_format ?w) (int x) (int y) = int (length vs)"
      using False n assms(7-9) by (cases "wa_format ?w") (auto simp: compute_data_size_def)
    have "length vs < 2 ^ 32" using n assms(12,13) by simp
    then show ?thesis
      using t(1) e assms(3-5,10,11) False l1 d sz
      by (simp add: set_rvalue_def w2 set_value_def set_time_def alarm_none_def Let_def)
  qed
qed

section \<open>Examples\<close>

text \<open>
  A device with two short attributes, whose set values may not be above 7. The hardware is
  the list of the values that the method of the user got.
\<close>

definition ex_user :: "(int, int tval list) wuser" where
  "ex_user = \<lparr>wu_hook = (\<lambda>h. (Ok (), h)), wu_allowed = (\<lambda>j h. (Ok True, h)),
    wu_write = (\<lambda>j w h. (if wa_value w = V_SHORT 6 then U_failed (DevFailed ''broken'' ''motor'') else U_ok, w, h @ [wa_value w])),
    wu_hardware = (\<lambda>js h. (U_ok, h)), wu_env = ex_wenv, wu_now = 5000000, wu_use_db = True, wu_db_answer = Ok (),
    wu_text = le_text ex_env\<rparr>"

definition ex_speed :: "int w_attr" where
  "ex_speed = ex_bounded\<lparr>wa_limits := (wa_limits ex_bounded)\<lparr>la_check_startup := False\<rparr>\<rparr>"

definition ex_watt :: "string \<Rightarrow> int wr_attr" where
  "ex_watt n = \<lparr>wt_att = (ex_reading DEV_SHORT (V_SHORT 0) (V_SHORT 0))\<lparr>al_w := ex_speed, al_name := n\<rparr>, wt_writable = WRITE,
    wt_memorized = False, wt_mem_value = MemNotUsed, wt_mem_failed = False\<rparr>"

definition ex_wdev :: "(int, int tval list) wdev" where
  "ex_wdev = \<lparr>wd_name = ''lab/motor/1'', wd_attrs = [ex_watt ''speed'', ex_watt ''position''], wd_vers = 5, wd_hw = [],
    wd_conf_loop = False, wd_assoc = [], wd_db = (\<lambda>_. None)\<rparr>"

definition ex_wval :: "string \<Rightarrow> int tval \<Rightarrow> int wval" where
  "ex_wval n v = \<lparr>wv_name = n, wv_value = Incoming DEV_SHORT [v], wv_dim_x = 1, wv_dim_y = 0\<rparr>"

lemmas ex_write_defs = ex_user_def ex_watt_def ex_wdev_def ex_wval_def

lemma ex_select: "select_attr ex_wdev (ex_wval ''speed'' v) = Ok 0" "select_attr ex_wdev (ex_wval ''position'' v) = Ok 1"
  by (simp_all add: select_attr_def get_attr_ind_by_name_def ex_write_defs ex_reading_def ex_speed_def ex_bounded_def ex_wattr_def ex_attr_def
      tolower_def Let_def)

lemma ex_w_of: "w_of ex_wdev 0 = ex_speed" "w_of ex_wdev (Suc 0) = ex_speed"
  by (simp_all add: ex_write_defs)

lemma ex_check:
  "fst (checked_w ex_wenv (ex_wval n (V_SHORT 9)) ex_speed) =
    Throw (DevFailed ''API_WAttrOutsideLimit'' ''Set value for attribute is above the maximum authorized'')"
  "fst (checked_w ex_wenv (ex_wval n (V_SHORT 5)) ex_speed) = Ok ()"
  by (simp_all add: check_written_value_def ex_wval_def ex_speed_def ex_bounded_def ex_wattr_def ex_attr_def writable_types_def elt_type_def
      update_internal_sequence_def check_length_def ulong_of_def check_data_limits_def check_nan_def check_bounds_def
      limit_value_def tv_lt_def tv_le_def outside_limit_def check_enum_def)

theorem first_failure_skips_checks_witness:
  "\<exists>d'. write_attributes_34 ex_user [ex_wval ''speed'' (V_SHORT 9), ex_wval ''position'' (V_SHORT 9)] ex_wdev =
      (Ok [\<lparr>ne_name = ''speed'', ne_index = 0, ne_exn = DevFailed ''API_WAttrOutsideLimit'' ''Set value for attribute is above the maximum authorized''\<rparr>], d') \<and>
    wd_hw d' = [V_SHORT 0] \<and> wa_last (w_of d' 1) = [V_SHORT 9] \<and> wa_value (w_of d' 1) = V_SHORT 0"
proof -
  have "wu_env ex_user = ex_wenv" "wd_hw ex_wdev = []" by (simp_all add: ex_write_defs)
  moreover have "wa_value ex_speed = V_SHORT 0" "wa_data_type ex_speed = DEV_SHORT"
    by (simp_all add: ex_speed_def ex_bounded_def ex_wattr_def ex_attr_def)
  ultimately show ?thesis
    using first_failure_skips_checks [of ex_wdev "ex_wval ''speed'' (V_SHORT 9)" 0 "ex_wval ''position'' (V_SHORT 9)" 1 ex_user
        "DevFailed ''API_WAttrOutsideLimit'' ''Set value for attribute is above the maximum authorized''" "[]" "[]" "[V_SHORT 0]" "[V_SHORT 0]" "[V_SHORT 9]"]
      ex_select ex_w_of ex_check
    by (simp add: dev_failed_def ex_user_def ex_wdev_def ex_watt_def writable_types_def elt_type_def)
      (simp add: ex_wval_def)
qed

lemma ex_run:
  "fst (write_attributes_34 ex_user [ex_wval ''speed'' (V_SHORT 5), ex_wval ''position'' (V_SHORT 9)] ex_wdev) =
    Ok [\<lparr>ne_name = ''position'', ne_index = 1, ne_exn = DevFailed ''API_WAttrOutsideLimit'' ''Set value for attribute is above the maximum authorized''\<rparr>]"
  "fst (write_attributes_34 ex_user [ex_wval ''speed'' (V_SHORT 6)] ex_wdev) =
    Ok [\<lparr>ne_name = ''speed'', ne_index = 0, ne_exn = DevFailed ''broken'' ''motor''\<rparr>]"
  by code_simp+

theorem write_failures_reported_witness:
  "\<exists>errs d'. write_attributes_34 ex_user [ex_wval ''speed'' (V_SHORT 5), ex_wval ''position'' (V_SHORT 9)] ex_wdev = (Ok errs, d') \<and>
    ne_index ` set errs = {1} \<and> (wa_last (w_of d' 0) = [V_SHORT 5] \<or> wa_user_set (w_of d' 0))"
proof -
  let ?vals = "[ex_wval ''speed'' (V_SHORT 5), ex_wval ''position'' (V_SHORT 9)]"
  obtain errs d' where r: "write_attributes_34 ex_user ?vals ex_wdev = (Ok errs, d')" "ne_index ` set errs = {1}"
    using ex_run(1) by (cases "write_attributes_34 ex_user ?vals ex_wdev") simp
  have "first_accepted ex_user ?vals ex_wdev"
    using ex_select ex_w_of ex_check by (simp add: first_accepted_def) (simp add: ex_user_def)
  moreover have "keeps_types ex_user" by (simp add: keeps_types_def ex_user_def)
  moreover have "distinct (map (\<lambda>v. lower (wv_name v)) ?vals)" by (simp add: ex_wval_def)
  moreover have "wv_value (?vals ! 0) = Incoming DEV_SHORT [V_SHORT 5]" "wa_data_type ex_speed \<noteq> DEV_ENCODED"
    by (simp_all add: ex_wval_def ex_speed_def ex_bounded_def ex_wattr_def ex_attr_def)
  ultimately show ?thesis
    using write_failures_reported [OF r(1), of 0] r ex_select ex_w_of by auto
qed


theorem written_value_read_back_witness:
  "\<exists>b. set_rvalue ex_aenv ((ex_reading DEV_SHORT (V_SHORT 0) (V_SHORT 0))\<lparr>al_w := ex_speed\<lparr>wa_ptr := [V_SHORT 4], wa_old := V_SHORT 0,
      wa_value := V_SHORT 4, w_dim_x := 1, w_dim_y := 0, wa_last := [V_SHORT 4]\<rparr>\<rparr>) =
    (Ok (), b) \<and> al_value b = Some [V_SHORT 4]"
proof -
  let ?a = "(ex_reading DEV_SHORT (V_SHORT 0) (V_SHORT 0))\<lparr>al_w := ex_speed\<rparr>"
  let ?w = "ex_speed\<lparr>wa_ptr := [V_SHORT 4], wa_old := V_SHORT 0, wa_value := V_SHORT 4, w_dim_x := 1, w_dim_y := 0\<rparr>"
  have s: "wa_format ex_speed = SCALAR" "wa_data_type ex_speed = DEV_SHORT"
    by (simp_all add: ex_speed_def ex_bounded_def ex_wattr_def ex_attr_def)
  have "check_written_value ex_wenv (Incoming DEV_SHORT [V_SHORT 4]) 1 0 (al_w ?a) = (Ok (), ?w)"
    by (simp add: check_written_value_def ex_speed_def ex_bounded_def ex_wattr_def ex_attr_def writable_types_def elt_type_def
        update_internal_sequence_def check_length_def check_data_limits_def check_nan_def check_bounds_def
        limit_value_def tv_lt_def tv_le_def check_enum_def)
  moreover have "copy_data (Incoming DEV_SHORT [V_SHORT 4]) ?w = (Ok (), ?w\<lparr>wa_last := [V_SHORT 4]\<rparr>)"
    using s by (simp add: copy_data_def writable_types_def elt_type_def)
  ultimately show ?thesis
    using written_value_read_back [of ex_wenv DEV_SHORT "[V_SHORT 4]" 1 0 ?a ?w "?w\<lparr>wa_last := [V_SHORT 4]\<rparr>" ex_aenv] s
    by (auto simp: ex_reading_def)
qed

end
