(* ===== verification/Group_Call.thy ===== *)
theory Group_Call
  imports Tango_Prelude
begin

text \<open>
  Groups of devices in the client (\<open>client/group.cpp\<close>): a tree of groups and devices,
  to which devices are added and from which they are removed by name or pattern, and the
  calls to all devices of a group: a request to each of them, and the collection of the
  replies.
\<close>

section \<open>Data\<close>

text \<open>
  A request that waits for its reply: the number that the proxy gave, the names of the
  command or attributes, the exception of a request that could not be sent.
\<close>

record areq =
  rq_id :: int
  obj_names :: "string list"
  rq_ex :: "exn option"
  rq_enabled :: bool

record gdev =
  gd_name :: string
  gd_enabled :: bool
  gd_proxy :: bool
  gd_arp :: "int \<Rightarrow> areq option"

record ginfo =
  gr_name :: string
  gr_enabled :: bool
  gr_arp :: "int \<Rightarrow> bool option"
  asynch_req_id :: int

datatype gelem = Device gdev | Group ginfo "gelem list"

fun is_device_i :: "gelem \<Rightarrow> bool" where
  "is_device_i (Device d) = True"
| "is_device_i (Group g es) = False"

fun get_name :: "gelem \<Rightarrow> string" where
  "get_name (Device d) = gd_name d"
| "get_name (Group g es) = gr_name g"

fun is_enabled :: "gelem \<Rightarrow> bool" where
  "is_enabled (Device d) = gd_enabled d"
| "is_enabled (Group g es) = gr_enabled g"

fun set_enabled :: "bool \<Rightarrow> gelem \<Rightarrow> gelem" where
  "set_enabled b (Device d) = Device (d\<lparr>gd_enabled := b\<rparr>)"
| "set_enabled b (Group g es) = Group (g\<lparr>gr_enabled := b\<rparr>) es"

fun elements :: "gelem \<Rightarrow> gelem list" where
  "elements (Device d) = []"
| "elements (Group g es) = es"

definition Group_new :: "string \<Rightarrow> gelem" where
  "Group_new n = Group \<lparr>gr_name = n, gr_enabled = True, gr_arp = (\<lambda>_. None), asynch_req_id = 0\<rparr> []"

text \<open>
  The requests and the kinds of their replies.
\<close>

datatype 'v grequest =
    Command string
  | Command_arg string 'v
  | Read_attr string
  | Read_attrs "string list"
  | Write_attr string 'v

datatype gkind = Cmd_reply | Attr_reply | Attrs_reply | Write_reply

fun req_names :: "'v grequest \<Rightarrow> string list" where
  "req_names (Command c) = [c]"
| "req_names (Command_arg c v) = [c]"
| "req_names (Read_attr a) = [a]"
| "req_names (Read_attrs al) = al"
| "req_names (Write_attr a v) = [a]"

fun req_kind :: "'v grequest \<Rightarrow> gkind" where
  "req_kind (Command c) = Cmd_reply"
| "req_kind (Command_arg c v) = Cmd_reply"
| "req_kind (Read_attr a) = Attr_reply"
| "req_kind (Read_attrs al) = Attrs_reply"
| "req_kind (Write_attr a v) = Write_reply"

record 'v greply =
  dev_name_m :: string
  obj_name_m :: string
  has_failed_m :: bool
  group_element_enabled_m :: bool
  exception_m :: "exn option"
  data_m :: "'v option"

text \<open>
  The constructors of a reply: with data, without (the reply to a write), with an error
  (\<open>None\<close> is an empty \<open>DevFailed\<close>), of a disabled device.
\<close>

definition data_reply :: "string \<Rightarrow> string \<Rightarrow> 'v \<Rightarrow> 'v greply" where
  "data_reply d n v = \<lparr>dev_name_m = d, obj_name_m = n, has_failed_m = False, group_element_enabled_m = True,
     exception_m = None, data_m = Some v\<rparr>"

definition done_reply :: "string \<Rightarrow> string \<Rightarrow> bool \<Rightarrow> 'v greply" where
  "done_reply d n en = \<lparr>dev_name_m = d, obj_name_m = n, has_failed_m = False, group_element_enabled_m = en,
     exception_m = None, data_m = None\<rparr>"

definition failed_reply :: "string \<Rightarrow> string \<Rightarrow> exn option \<Rightarrow> 'v greply" where
  "failed_reply d n x = \<lparr>dev_name_m = d, obj_name_m = n, has_failed_m = True, group_element_enabled_m = True,
     exception_m = x, data_m = None\<rparr>"

text \<open>
  The data of a reply, \<open>None\<close> when it has none (an empty \<open>DeviceData\<close>); the flag is the class
  variable \<open>exception_enabled\<close>.
\<close>

definition get_data :: "bool \<Rightarrow> 'v greply \<Rightarrow> 'v option result" where
  "get_data exception_enabled r =
    (if \<not> group_element_enabled_m r \<and> exception_enabled
     then Throw (DevFailed ''no data - group member is disabled'' ''no available data'')
     else if has_failed_m r \<and> exception_enabled
     then (case exception_m r of Some x \<Rightarrow> Throw x | None \<Rightarrow> Throw (DevFailed_stack []))
     else Ok (data_m r))"

text \<open>
  The proxies of the devices and the databases, on a state \<open>'w\<close> of the world: a call gives a
  value or throws. A proxy is named by its device. The read of one attribute gives no object, a
  value or the error stack of the attribute; the databases give the devices that match a
  pattern.
\<close>

record ('w, 'v) proxies =
  px_connect :: "string \<Rightarrow> 'w \<Rightarrow> (exn + unit) \<times> 'w"
  px_connected :: "string \<Rightarrow> 'w \<Rightarrow> (exn + bool) \<times> 'w"
  px_timeout :: "string \<Rightarrow> int \<Rightarrow> 'w \<Rightarrow> (exn + unit) \<times> 'w"
  px_ping :: "string \<Rightarrow> 'w \<Rightarrow> (exn + int) \<times> 'w"
  px_send :: "string \<Rightarrow> 'v grequest \<Rightarrow> bool \<Rightarrow> 'w \<Rightarrow> (exn + int) \<times> 'w"
  px_cmd_reply :: "string \<Rightarrow> int \<Rightarrow> int \<Rightarrow> 'w \<Rightarrow> (exn + 'v) \<times> 'w"
  px_attr_reply :: "string \<Rightarrow> int \<Rightarrow> int \<Rightarrow> 'w \<Rightarrow> (exn + ('v + DevError list) option) \<times> 'w"
  px_attrs_reply :: "string \<Rightarrow> int \<Rightarrow> int \<Rightarrow> 'w \<Rightarrow> (exn + ('v + DevError list) list option) \<times> 'w"
  px_write_reply :: "string \<Rightarrow> int \<Rightarrow> int \<Rightarrow> 'w \<Rightarrow> (exn + unit) \<times> 'w"
  px_defined :: "(string \<times> int) option \<Rightarrow> string \<Rightarrow> 'w \<Rightarrow> (exn + string list) \<times> 'w"
  px_fqdn :: "string \<Rightarrow> string"


section \<open>Names and patterns\<close>

definition full_name :: "string option \<Rightarrow> string \<Rightarrow> string" where
  "full_name path n = (case path of None \<Rightarrow> n | Some p \<Rightarrow> p @ ''.'' @ n)"

definition is_pattern :: "string \<Rightarrow> bool" where
  "is_pattern n \<longleftrightarrow> CHR ''*'' \<in> set n"

text \<open>
  The parts of a pattern between its stars; \<open>start\<close> holds at the beginning of the pattern.
\<close>

function tokenize_from :: "bool \<Rightarrow> string \<Rightarrow> string list" where
  "tokenize_from start s =
    (case find_char (CHR ''*'') s of
       None \<Rightarrow> if s = [] then [] else [s]
     | Some k \<Rightarrow> (if start \<and> k = 0 then [] else [take k s]) @ tokenize_from False (drop (Suc k) s))"
  by pat_completeness auto

termination
  by (relation "measure (\<lambda>(_, s). length s)") (auto dest: find_char_Some_less)

definition tokenize_i :: "string \<Rightarrow> string list" where
  "tokenize_i p = tokenize_from True p"

text \<open>
  Each part is searched from the position of the part before.
\<close>

fun match_from :: "string \<Rightarrow> string list \<Rightarrow> bool" where
  "match_from s [] = True"
| "match_from s (t # ts) = (case find_str (lower t) s of None \<Rightarrow> False | Some k \<Rightarrow> match_from (drop k s) ts)"

definition match_i :: "string \<Rightarrow> string list \<Rightarrow> bool" where
  "match_i p ts = match_from (lower p) ts"

definition name_matches :: "string option \<Rightarrow> string \<Rightarrow> string \<Rightarrow> bool" where
  "name_matches path name n = (match_i name (tokenize_i n) \<or> match_i (full_name path name) (tokenize_i n))"

definition name_equals :: "string option \<Rightarrow> string \<Rightarrow> string \<Rightarrow> bool" where
  "name_equals path name n = (lower n = lower name \<or> lower n = lower (full_name path name))"

definition name_hit :: "string option \<Rightarrow> string \<Rightarrow> string \<Rightarrow> bool" where
  "name_hit path name n = (if is_pattern n then name_matches path name n else name_equals path name n)"


section \<open>The tree\<close>

fun get_device_list :: "bool \<Rightarrow> gelem \<Rightarrow> string list" and device_names :: "bool \<Rightarrow> gelem list \<Rightarrow> string list" where
  "get_device_list fwd (Device d) = []"
| "get_device_list fwd (Group g es) = device_names fwd es"
| "device_names fwd [] = []"
| "device_names fwd (e # es) =
    (if is_device_i e then [get_name e] else if fwd then get_device_list fwd e else []) @ device_names fwd es"

fun get_hiearchy :: "gelem \<Rightarrow> gdev list" and hierarchy_of :: "gelem list \<Rightarrow> gdev list" where
  "get_hiearchy (Device d) = [d]"
| "get_hiearchy (Group g es) = hierarchy_of es"
| "hierarchy_of [] = []"
| "hierarchy_of (e # es) = get_hiearchy e @ hierarchy_of es"

fun get_size_i :: "bool \<Rightarrow> gelem \<Rightarrow> nat" and size_of :: "bool \<Rightarrow> gelem list \<Rightarrow> nat" where
  "get_size_i fwd (Device d) = 1"
| "get_size_i fwd (Group g es) = size_of fwd es"
| "size_of fwd [] = 0"
| "size_of fwd (e # es) = (if is_device_i e \<or> fwd then get_size_i True e else 0) + size_of fwd es"

text \<open>
  A search gives the way to the element: the positions in the groups, none for the element
  itself.
\<close>

fun first_index :: "('a \<Rightarrow> bool) \<Rightarrow> 'a list \<Rightarrow> nat option" where
  "first_index p [] = None"
| "first_index p (x # xs) = (if p x then Some 0 else map_option Suc (first_index p xs))"

fun find_i :: "string option \<Rightarrow> string \<Rightarrow> bool \<Rightarrow> gelem \<Rightarrow> nat list option"
  and find_in :: "string option \<Rightarrow> string \<Rightarrow> nat \<Rightarrow> gelem list \<Rightarrow> nat list option" where
  "find_i path n fwd (Device d) = (if name_equals path (gd_name d) n then Some [] else None)"
| "find_i path n fwd (Group g es) =
    (if name_hit path (gr_name g) n then Some []
     else case first_index (\<lambda>e. name_hit (Some (full_name path (gr_name g))) (get_name e) n) es of
         Some k \<Rightarrow> Some [k]
       | None \<Rightarrow> if fwd then find_in (Some (full_name path (gr_name g))) n 0 es else None)"
| "find_in path n k [] = None"
| "find_in path n k (e # es) =
    (case find_i path n True e of Some ps \<Rightarrow> Some (k # ps) | None \<Rightarrow> find_in path n (Suc k) es)"

fun elem_at :: "nat list \<Rightarrow> gelem \<Rightarrow> gelem option" where
  "elem_at [] e = Some e"
| "elem_at (k # ps) e = (if k < length (elements e) then elem_at ps (elements e ! k) else None)"

fun update_at :: "nat list \<Rightarrow> (gelem \<Rightarrow> gelem) \<Rightarrow> gelem \<Rightarrow> gelem" where
  "update_at [] f e = f e"
| "update_at (k # ps) f (Group g es) = Group g (if k < length es then es[k := update_at ps f (es ! k)] else es)"
| "update_at (k # ps) f (Device d) = Device d"

definition gcontains :: "string \<Rightarrow> bool \<Rightarrow> gelem \<Rightarrow> bool" where
  "gcontains n fwd e = (find_i None n fwd e \<noteq> None)"

definition get_group :: "string \<Rightarrow> gelem \<Rightarrow> nat list option" where
  "get_group n e =
    (case find_i None n True e of
       Some ps \<Rightarrow> (case elem_at ps e of Some x \<Rightarrow> if is_device_i x then None else Some ps | None \<Rightarrow> None)
     | None \<Rightarrow> None)"

definition enable :: "string \<Rightarrow> bool \<Rightarrow> gelem \<Rightarrow> gelem" where
  "enable n fwd e = (case find_i None n fwd e of Some ps \<Rightarrow> update_at ps (set_enabled True) e | None \<Rightarrow> e)"

definition disable :: "string \<Rightarrow> bool \<Rightarrow> gelem \<Rightarrow> gelem" where
  "disable n fwd e = (case find_i None n fwd e of Some ps \<Rightarrow> update_at ps (set_enabled False) e | None \<Rightarrow> e)"

definition is_enabled_by_name :: "string \<Rightarrow> bool \<Rightarrow> gelem \<Rightarrow> bool" where
  "is_enabled_by_name n fwd e =
    (case find_i None n fwd e of
       Some ps \<Rightarrow> (case elem_at ps e of Some x \<Rightarrow> is_enabled x | None \<Rightarrow> False)
     | None \<Rightarrow> False)"

section \<open>Devices of a group\<close>

text \<open>
  \<open>DevFailed\<close> and its subclasses are kept; any other exception is replaced.
\<close>

fun is_devfailed :: "exn \<Rightarrow> bool" where
  "is_devfailed (DevFailed r d) = True"
| "is_devfailed (EventSystemFailed r d) = True"
| "is_devfailed (DevFailed_stack es) = True"
| "is_devfailed _ = False"

definition caught :: "exn \<Rightarrow> exn" where
  "caught x = (if is_devfailed x then x else DevFailed ''unknown exception caught'' ''unknown error'')"

definition dev_proxy :: "('w, 'v) proxies \<Rightarrow> gdev \<Rightarrow> 'w \<Rightarrow> (exn + unit) \<times> gdev \<times> 'w" where
  "dev_proxy px d w =
    (if gd_proxy d then (Inr (), d, w)
     else case px_connect px (gd_name d) w of
         (Inl x, w') \<Rightarrow> (Inl x, d, w')
       | (Inr _, w') \<Rightarrow> (Inr (), d\<lparr>gd_proxy := True\<rparr>, w'))"

definition call_proxy ::
    "('w, 'v) proxies \<Rightarrow> (string \<Rightarrow> 'w \<Rightarrow> (exn + 'a) \<times> 'w) \<Rightarrow> gdev \<Rightarrow> 'w \<Rightarrow> (exn + 'a) \<times> gdev \<times> 'w" where
  "call_proxy px call d w =
    (case dev_proxy px d w of
       (Inl x, d', w') \<Rightarrow> (Inl x, d', w')
     | (Inr _, d', w') \<Rightarrow> (case call (gd_name d) w' of (r, w'') \<Rightarrow> (r, d', w'')))"

definition dev_set_timeout :: "('w, 'v) proxies \<Rightarrow> int \<Rightarrow> gdev \<Rightarrow> 'w \<Rightarrow> gdev \<times> 'w" where
  "dev_set_timeout px tmo d w = (if 0 \<le> tmo then snd (call_proxy px (\<lambda>n. px_timeout px n tmo) d w) else (d, w))"

text \<open>
  A new device of a group: a connection is tried, with the time-out when it succeeds.
\<close>

definition GroupDeviceElement_new :: "('w, 'v) proxies \<Rightarrow> string \<Rightarrow> int \<Rightarrow> 'w \<Rightarrow> gdev \<times> 'w" where
  "GroupDeviceElement_new px n tmo w =
    (case dev_proxy px \<lparr>gd_name = n, gd_enabled = True, gd_proxy = False, gd_arp = (\<lambda>_. None)\<rparr> w of
       (Inl x, d, w') \<Rightarrow> (d, w')
     | (Inr _, d, w') \<Rightarrow> dev_set_timeout px tmo d w')"

definition dev_get_device :: "('w, 'v) proxies \<Rightarrow> string option \<Rightarrow> string \<Rightarrow> gdev \<Rightarrow> 'w \<Rightarrow> bool \<times> gdev \<times> 'w" where
  "dev_get_device px path n d w =
    (if name_equals path (gd_name d) (lower n)
     then (case dev_proxy px d w of (Inl x, d', w') \<Rightarrow> (False, d', w') | (Inr _, d', w') \<Rightarrow> (True, d', w'))
     else (False, d, w))"

definition dev_get_device_idx :: "('w, 'v) proxies \<Rightarrow> int \<Rightarrow> gdev \<Rightarrow> 'w \<Rightarrow> bool result \<times> gdev \<times> 'w" where
  "dev_get_device_idx px idx d w =
    (if idx - 1 = 0
     then (case dev_proxy px d w of (Inl x, d', w') \<Rightarrow> (Throw x, d', w') | (Inr _, d', w') \<Rightarrow> (Ok True, d', w'))
     else (Ok False, d, w))"

definition dev_ping :: "('w, 'v) proxies \<Rightarrow> gdev \<Rightarrow> 'w \<Rightarrow> bool \<times> gdev \<times> 'w" where
  "dev_ping px d w =
    (case call_proxy px (px_ping px) d w of (Inl x, d', w') \<Rightarrow> (False, d', w') | (Inr t, d', w') \<Rightarrow> (True, d', w'))"

text \<open>
  A \<open>std::map\<close> keeps the entry that it has when another is inserted for the same key.
\<close>

definition pending_insert :: "(int \<Rightarrow> 'a option) \<Rightarrow> int \<Rightarrow> 'a \<Rightarrow> int \<Rightarrow> 'a option" where
  "pending_insert m k v = (case m k of None \<Rightarrow> m(k \<mapsto> v) | Some _ \<Rightarrow> m)"

definition dev_push :: "bool \<Rightarrow> int \<Rightarrow> areq \<Rightarrow> gdev \<Rightarrow> gdev" where
  "dev_push fgt rid r d = (if fgt then d else d\<lparr>gd_arp := pending_insert (gd_arp d) rid r\<rparr>)"

definition dev_asynch :: "('w, 'v) proxies \<Rightarrow> 'v grequest \<Rightarrow> bool \<Rightarrow> int \<Rightarrow> gdev \<Rightarrow> 'w \<Rightarrow> gdev \<times> 'w" where
  "dev_asynch px q fgt rid d w =
    (if \<not> gd_enabled d
     then (dev_push fgt rid \<lparr>rq_id = rid, obj_names = req_names q, rq_ex = None, rq_enabled = False\<rparr> d, w)
     else case call_proxy px (\<lambda>n. px_send px n q fgt) d w of
         (Inr ari, d', w') \<Rightarrow>
           (dev_push fgt rid \<lparr>rq_id = ari, obj_names = req_names q, rq_ex = None, rq_enabled = True\<rparr> d', w')
       | (Inl x, d', w') \<Rightarrow>
           (dev_push fgt rid \<lparr>rq_id = -1, obj_names = req_names q, rq_ex = Some (caught x), rq_enabled = True\<rparr> d', w'))"

text \<open>
  The names of the objects that a reply of a kind is made for: the first one only, but for the
  reading of several attributes.
\<close>

definition reply_names :: "gkind \<Rightarrow> areq \<Rightarrow> string list result" where
  "reply_names kind r =
    (if kind = Attrs_reply then Ok (obj_names r)
     else case obj_names r of [] \<Rightarrow> Undef | n # _ \<Rightarrow> Ok [n])"

definition attr_reply :: "string \<Rightarrow> string \<Rightarrow> 'v + DevError list \<Rightarrow> 'v greply" where
  "attr_reply d n a = (case a of Inl v \<Rightarrow> data_reply d n v | Inr es \<Rightarrow> failed_reply d n (Some (DevFailed_stack es)))"

fun attrs_replies :: "string \<Rightarrow> string list \<Rightarrow> ('v + DevError list) list \<Rightarrow> 'v greply list result" where
  "attrs_replies d [] as = Ok []"
| "attrs_replies d (n # ns) [] = Undef"
| "attrs_replies d (n # ns) (a # as) = rbind (attrs_replies d ns as) (\<lambda>rs. Ok (attr_reply d n a # rs))"

definition null_reply :: "exn" where
  "null_reply = DevFailed ''Tango::DeviceProxy::read_attribute_reply returned NULL'' ''internal error''"

text \<open>
  The reply of the device for the named objects.
\<close>

definition fetch ::
    "('w, 'v) proxies \<Rightarrow> gkind \<Rightarrow> string list \<Rightarrow> int \<Rightarrow> int \<Rightarrow> string \<Rightarrow> 'w \<Rightarrow> (exn + 'v greply list result) \<times> 'w" where
  "fetch px kind ns rid tmo d w =
    (case kind of
       Cmd_reply \<Rightarrow> (case px_cmd_reply px d rid tmo w of (r, w') \<Rightarrow>
         (map_sum id (\<lambda>v. Ok (map (\<lambda>n. data_reply d n v) ns)) r, w'))
     | Attr_reply \<Rightarrow> (case px_attr_reply px d rid tmo w of (r, w') \<Rightarrow>
         (map_sum id (\<lambda>a. Ok (map (\<lambda>n. case a of None \<Rightarrow> failed_reply d n (Some null_reply) | Some v \<Rightarrow> attr_reply d n v) ns)) r, w'))
     | Attrs_reply \<Rightarrow> (case px_attrs_reply px d rid tmo w of (r, w') \<Rightarrow>
         (map_sum id (\<lambda>a. case a of None \<Rightarrow> Ok (map (\<lambda>n. failed_reply d n (Some null_reply)) ns)
            | Some dal \<Rightarrow> attrs_replies d ns dal) r, w'))
     | Write_reply \<Rightarrow> (case px_write_reply px d rid tmo w of (r, w') \<Rightarrow>
         (map_sum id (\<lambda>_. Ok (map (\<lambda>n. done_reply d n True) ns)) r, w')))"

definition dev_erase :: "int \<Rightarrow> gdev \<Rightarrow> gdev" where
  "dev_erase rid d = d\<lparr>gd_arp := (gd_arp d)(rid := None)\<rparr>"

definition bad_poll_id :: exn where
  "bad_poll_id = DevFailed ''API_BadAsynPollId'' ''Invalid asynch. request identifier specified''"

definition dev_reply ::
    "('w, 'v) proxies \<Rightarrow> gkind \<Rightarrow> int \<Rightarrow> int \<Rightarrow> gdev \<Rightarrow> 'w \<Rightarrow> 'v greply list result \<times> gdev \<times> 'w" where
  "dev_reply px kind rid tmo d w =
    (case gd_arp d rid of
       None \<Rightarrow> (Ok [failed_reply (gd_name d) ''unknown'' (Some bad_poll_id)], d, w)
     | Some r \<Rightarrow> (case reply_names kind r of
         Ok ns \<Rightarrow>
           if \<not> gd_enabled d then (Ok (map (\<lambda>n. done_reply (gd_name d) n False) ns), dev_erase rid d, w)
           else if rq_id r = -1 then (Ok (map (\<lambda>n. failed_reply (gd_name d) n (rq_ex r)) ns), dev_erase rid d, w)
           else (case call_proxy px (fetch px kind ns (rq_id r) tmo) d w of
               (Inr rs, d', w') \<Rightarrow> (rs, dev_erase rid d', w')
             | (Inl x, d', w') \<Rightarrow> (Ok (map (\<lambda>n. failed_reply (gd_name d) n (Some (caught x))) ns), dev_erase rid d', w'))
       | Throw x \<Rightarrow> (Throw x, d, w)
       | Undef \<Rightarrow> (Undef, d, w)))"

section \<open>Building a group\<close>

fun set_timeout_millis :: "('w, 'v) proxies \<Rightarrow> int \<Rightarrow> gelem \<Rightarrow> 'w \<Rightarrow> gelem \<times> 'w"
  and set_timeout_all :: "('w, 'v) proxies \<Rightarrow> int \<Rightarrow> gelem list \<Rightarrow> 'w \<Rightarrow> gelem list \<times> 'w" where
  "set_timeout_millis px tmo (Device d) w = (case dev_set_timeout px tmo d w of (d', w') \<Rightarrow> (Device d', w'))"
| "set_timeout_millis px tmo (Group g es) w = (case set_timeout_all px tmo es w of (es', w') \<Rightarrow> (Group g es', w'))"
| "set_timeout_all px tmo [] w = ([], w)"
| "set_timeout_all px tmo (e # es) w =
    (case set_timeout_millis px tmo e w of
       (e', w') \<Rightarrow> (case set_timeout_all px tmo es w' of (es', w'') \<Rightarrow> (e' # es', w'')))"

text \<open>
  The end of the elements; \<open>true\<close> when the element was added.
\<close>

definition add_i :: "bool \<Rightarrow> gelem \<Rightarrow> gelem \<Rightarrow> bool \<times> gelem" where
  "add_i fwd e root =
    (case find_i None (get_name e) fwd root of
       Some (p # ps) \<Rightarrow> (False, root)
     | _ \<Rightarrow> (case root of Group g es \<Rightarrow> (True, Group g (es @ [e])) | Device d \<Rightarrow> (False, root)))"

text \<open>
  The time-out of an element that the group has already; errors are ignored.
\<close>

definition retime :: "('w, 'v) proxies \<Rightarrow> int \<Rightarrow> nat list \<Rightarrow> gelem \<Rightarrow> 'w \<Rightarrow> gelem \<times> 'w" where
  "retime px tmo ps root w =
    (case elem_at ps root of
       Some e \<Rightarrow> (case set_timeout_millis px tmo e w of (e', w') \<Rightarrow> (update_at ps (\<lambda>_. e') root, w'))
     | None \<Rightarrow> (root, w))"

definition add_device :: "('w, 'v) proxies \<Rightarrow> int \<Rightarrow> gdev \<Rightarrow> gelem \<Rightarrow> 'w \<Rightarrow> gelem \<times> 'w" where
  "add_device px tmo d root w =
    (case add_i True (Device d) root of
       (True, root') \<Rightarrow> (root', w)
     | (False, _) \<Rightarrow> (case find_i None (gd_name d) True root of
         Some ps \<Rightarrow> retime px tmo ps root w
       | None \<Rightarrow> (root, w)))"

text \<open>
  The devices are created first, and then added one after the other.
\<close>

fun create_group_elements :: "('w, 'v) proxies \<Rightarrow> int \<Rightarrow> string list \<Rightarrow> 'w \<Rightarrow> gdev list \<times> 'w" where
  "create_group_elements px tmo [] w = ([], w)"
| "create_group_elements px tmo (n # ns) w =
    (case GroupDeviceElement_new px n tmo w of
       (d, w') \<Rightarrow> (case create_group_elements px tmo ns w' of (ds, w'') \<Rightarrow> (d # ds, w'')))"

fun add_devices :: "('w, 'v) proxies \<Rightarrow> int \<Rightarrow> gdev list \<Rightarrow> gelem \<Rightarrow> 'w \<Rightarrow> gelem \<times> 'w" where
  "add_devices px tmo [] root w = (root, w)"
| "add_devices px tmo (d # ds) root w =
    (case add_device px tmo d root w of (root', w') \<Rightarrow> add_devices px tmo ds root' w')"

text \<open>
  The host, the port and the rest of a pattern, in lower case; the host is empty when the
  pattern names none. The number is read by a stream: zero when there is none, and the nearest
  \<open>int\<close> when it is too large.
\<close>

definition stream_int :: "string \<Rightarrow> int" where
  "stream_int s =
    (let t = dropWhile is_blank s;
         neg = (t \<noteq> [] \<and> hd t = CHR ''-'');
         u = (if t \<noteq> [] \<and> (hd t = CHR ''-'' \<or> hd t = CHR ''+'') then tl t else t);
         v = int (digits_value (takeWhile is_digit u))
     in if neg then max (- (2 ^ 31)) (- v) else min (2 ^ 31 - 1) v)"

definition strip_protocol :: "string \<Rightarrow> string result" where
  "strip_protocol s =
    (case find_str ''://'' s of
       None \<Rightarrow> Ok (if 2 < length s \<and> s ! 0 = CHR ''/'' \<and> s ! 1 = CHR ''/'' then drop 2 s else s)
     | Some k \<Rightarrow>
         if take k s = ''tango'' then Ok (drop (k + 3) s)
         else Throw (DevFailed ''API_UnsupportedProtocol'' (take k s @ '' protocol is an unsupported protocol'')))"

definition wrong_syntax :: "string \<Rightarrow> exn" where
  "wrong_syntax p = DevFailed ''API_WrongDeviceNameSyntax'' (''Wrong device name syntax in '' @ p)"

definition parse_name :: "(string \<Rightarrow> string) \<Rightarrow> string \<Rightarrow> (string \<times> int \<times> string) result" where
  "parse_name fqdn p =
    rbind (strip_protocol (lower p)) (\<lambda>name_wo_prot.
      case find_char (CHR ''/'') name_wo_prot of
        None \<Rightarrow> Throw (wrong_syntax p)
      | Some k \<Rightarrow> (case find_char (CHR '':'') (take k name_wo_prot) of
          None \<Rightarrow> Ok ([], 0, name_wo_prot)
        | Some c \<Rightarrow>
            let tmp_host = take c name_wo_prot; port = drop (Suc c) (take k name_wo_prot) in
            if port = [] then Throw (wrong_syntax p)
            else Ok (if CHR ''.'' \<in> set tmp_host then tmp_host else fqdn tmp_host, stream_int port,
                     drop (Suc k) name_wo_prot)))"

definition show_int :: "int \<Rightarrow> string" where
  "show_int i = (if i < 0 then ''-'' @ dec (nat (- i)) else dec (nat i))"

definition build_full_device_name :: "string \<Rightarrow> int \<Rightarrow> string \<Rightarrow> string" where
  "build_full_device_name host port n = ''tango://'' @ host @ '':'' @ show_int port @ ''/'' @ n"

definition resolve_device_names :: "('w, 'v) proxies \<Rightarrow> string \<Rightarrow> 'w \<Rightarrow> string list result \<times> 'w" where
  "resolve_device_names px p w =
    (if \<not> is_pattern p then (Ok [p], w)
     else case parse_name (px_fqdn px) p of
         Throw x \<Rightarrow> (Throw x, w)
       | Undef \<Rightarrow> (Undef, w)
       | Ok (host, port, q) \<Rightarrow>
           if host = [] then
             (case px_defined px None p w of (Inl x, w') \<Rightarrow> (Throw x, w') | (Inr ns, w') \<Rightarrow> (Ok ns, w'))
           else
             (case px_defined px (Some (host, port)) q w of
                (Inl x, w') \<Rightarrow> (Throw x, w')
              | (Inr ns, w') \<Rightarrow> (Ok (map (build_full_device_name host port) ns), w')))"

definition add :: "('w, 'v) proxies \<Rightarrow> int \<Rightarrow> string \<Rightarrow> gelem \<Rightarrow> 'w \<Rightarrow> unit result \<times> gelem \<times> 'w" where
  "add px tmo p root w =
    (case resolve_device_names px p w of
       (Ok ns, w') \<Rightarrow> (case create_group_elements px tmo ns w' of
         (ds, w'') \<Rightarrow> (case add_devices px tmo ds root w'' of (root', w3) \<Rightarrow> (Ok (), root', w3)))
     | (Throw x, w') \<Rightarrow> (Throw x, root, w')
     | (Undef, w') \<Rightarrow> (Undef, root, w'))"

fun add_list :: "('w, 'v) proxies \<Rightarrow> int \<Rightarrow> string list \<Rightarrow> gelem \<Rightarrow> 'w \<Rightarrow> unit result \<times> gelem \<times> 'w" where
  "add_list px tmo [] root w = (Ok (), root, w)"
| "add_list px tmo (p # ps) root w =
    (case add px tmo p root w of
       (Ok _, root', w') \<Rightarrow> add_list px tmo ps root' w'
     | r \<Rightarrow> r)"

text \<open>
  A group that is no part of the group and does not hold it is added under its name, unless the
  group has an element of the name; its time-outs are set in any case.
\<close>

definition add_group :: "('w, 'v) proxies \<Rightarrow> int \<Rightarrow> gelem \<Rightarrow> gelem \<Rightarrow> 'w \<Rightarrow> gelem \<times> gelem option \<times> 'w" where
  "add_group px tmo sub root w =
    (case set_timeout_millis px tmo sub w of
       (sub', w') \<Rightarrow> (case add_i False sub' root of
         (True, root') \<Rightarrow> (root', None, w')
       | (False, root') \<Rightarrow> (root', Some sub', w')))"

text \<open>
  The elements that a name or a pattern removes: the first one of the name, all that match the
  pattern; and the same in the groups that remain.
\<close>

fun remove_first :: "('a \<Rightarrow> bool) \<Rightarrow> 'a list \<Rightarrow> 'a list" where
  "remove_first p [] = []"
| "remove_first p (x # xs) = (if p x then xs else x # remove_first p xs)"

definition remove_local :: "string option \<Rightarrow> string \<Rightarrow> gelem list \<Rightarrow> gelem list" where
  "remove_local path p es =
    (if is_pattern p then filter (\<lambda>e. \<not> name_matches path (get_name e) p) es
     else remove_first (\<lambda>e. name_equals path (get_name e) p) es)"

lemma size_remove_first: "size_list f (remove_first p xs) \<le> size_list f xs"
  by (induction xs) auto

lemma size_filter_le: "size_list f (filter p xs) \<le> size_list f xs"
  by (induction xs) auto

lemma size_remove_local: "size_list f (remove_local path p es) \<le> size_list f es"
  by (auto simp: remove_local_def size_remove_first size_filter_le)

function remove_i :: "string option \<Rightarrow> string \<Rightarrow> bool \<Rightarrow> gelem \<Rightarrow> gelem"
  and remove_all_in :: "string option \<Rightarrow> string \<Rightarrow> bool \<Rightarrow> gelem list \<Rightarrow> gelem list" where
  "remove_i path p fwd (Device d) = Device d"
| "remove_i path p fwd (Group g es) =
    (if name_equals path (gr_name g) p then Group g es
     else let here = Some (full_name path (gr_name g)); es' = remove_local here p es in
       Group g (if fwd then remove_all_in here p fwd es' else es'))"
| "remove_all_in path p fwd [] = []"
| "remove_all_in path p fwd (e # es) = remove_i path p fwd e # remove_all_in path p fwd es"
  by pat_completeness auto

termination
proof (relation "measure (\<lambda>x. case x of Inl (_, _, _, e) \<Rightarrow> size e | Inr (_, _, _, es) \<Rightarrow> size_list size es)", goal_cases)
  case (2 path p fwd g es x xa)
  then show ?case
    using size_remove_local [of size x p es] by (auto simp: le_imp_less_Suc)
qed auto

fun gremove :: "string list \<Rightarrow> bool \<Rightarrow> gelem \<Rightarrow> gelem" where
  "gremove [] fwd e = e"
| "gremove (p # ps) fwd e = gremove ps fwd (remove_i None p fwd e)"

fun remove_all :: "gelem \<Rightarrow> gelem" where
  "remove_all (Group g es) = Group g []"
| "remove_all (Device d) = Device d"

section \<open>Calls to a group\<close>

text \<open>
  The search of a device by its name and by its number gives the way to it. The number is
  counted down by one for each element, a device or a group.
\<close>

fun get_device :: "('w, 'v) proxies \<Rightarrow> string option \<Rightarrow> string \<Rightarrow> gelem \<Rightarrow> 'w \<Rightarrow> nat list option \<times> gelem \<times> 'w"
  and get_device_in :: "('w, 'v) proxies \<Rightarrow> string option \<Rightarrow> string \<Rightarrow> gelem list \<Rightarrow> 'w \<Rightarrow> nat list option \<times> gelem list \<times> 'w" where
  "get_device px path n (Device d) w =
    (case dev_get_device px path n d w of (b, d', w') \<Rightarrow> (if b then Some [] else None, Device d', w'))"
| "get_device px path n (Group g es) w =
    (case get_device_in px (Some (full_name path (gr_name g))) n es w of (r, es', w') \<Rightarrow> (r, Group g es', w'))"
| "get_device_in px path n [] w = (None, [], w)"
| "get_device_in px path n (e # es) w =
    (case get_device px path n e w of
       (Some ps, e', w') \<Rightarrow> (Some (0 # ps), e' # es, w')
     | (None, e', w') \<Rightarrow> (case get_device_in px path n es w' of
         (Some (p # ps), es', w'') \<Rightarrow> (Some (Suc p # ps), e' # es', w'')
       | (r, es', w'') \<Rightarrow> (r, e' # es', w'')))"

fun get_device_idx :: "('w, 'v) proxies \<Rightarrow> int \<Rightarrow> gelem \<Rightarrow> 'w \<Rightarrow> nat list option result \<times> gelem \<times> 'w"
  and get_device_idx_in :: "('w, 'v) proxies \<Rightarrow> int \<Rightarrow> gelem list \<Rightarrow> 'w \<Rightarrow> nat list option result \<times> gelem list \<times> 'w" where
  "get_device_idx px idx (Device d) w =
    (case dev_get_device_idx px idx d w of
       (Ok b, d', w') \<Rightarrow> (Ok (if b then Some [] else None), Device d', w')
     | (Throw x, d', w') \<Rightarrow> (Throw x, Device d', w')
     | (Undef, d', w') \<Rightarrow> (Undef, Device d', w'))"
| "get_device_idx px idx (Group g es) w =
    (case get_device_idx_in px idx es w of (r, es', w') \<Rightarrow> (r, Group g es', w'))"
| "get_device_idx_in px idx [] w = (Ok None, [], w)"
| "get_device_idx_in px idx (e # es) w =
    (case get_device_idx px idx e w of
       (Ok (Some ps), e', w') \<Rightarrow> (Ok (Some (0 # ps)), e' # es, w')
     | (Ok None, e', w') \<Rightarrow> (case get_device_idx_in px (idx - 1) es w' of
         (Ok (Some (p # ps)), es', w'') \<Rightarrow> (Ok (Some (Suc p # ps)), e' # es', w'')
       | (r, es', w'') \<Rightarrow> (r, e' # es', w''))
     | (r, e', w') \<Rightarrow> (r, e' # es, w'))"

fun gping :: "('w, 'v) proxies \<Rightarrow> bool \<Rightarrow> gelem \<Rightarrow> 'w \<Rightarrow> bool \<times> gelem \<times> 'w"
  and gping_in :: "('w, 'v) proxies \<Rightarrow> bool \<Rightarrow> gelem list \<Rightarrow> 'w \<Rightarrow> bool \<times> gelem list \<times> 'w" where
  "gping px fwd (Device d) w = (case dev_ping px d w of (b, d', w') \<Rightarrow> (b, Device d', w'))"
| "gping px fwd (Group g es) w = (case gping_in px fwd es w of (b, es', w') \<Rightarrow> (b, Group g es', w'))"
| "gping_in px fwd [] w = (True, [], w)"
| "gping_in px fwd (e # es) w =
    (if is_device_i e \<or> fwd then
       (case gping px fwd e w of
          (False, e', w') \<Rightarrow> (False, e' # es, w')
        | (True, e', w') \<Rightarrow> (case gping_in px fwd es w' of (b, es', w'') \<Rightarrow> (b, e' # es', w'')))
     else (case gping_in px fwd es w of (b, es', w') \<Rightarrow> (b, e # es', w')))"

definition next_asynch_request_id :: "ginfo \<Rightarrow> int \<times> ginfo" where
  "next_asynch_request_id g = (let n = (asynch_req_id g + 1) mod 0x0FFF in (n, g\<lparr>asynch_req_id := n\<rparr>))"

definition request_id :: "int \<Rightarrow> ginfo \<Rightarrow> int \<times> ginfo" where
  "request_id rid g = (if rid = -1 then next_asynch_request_id g else (rid, g))"

definition push_async_request :: "bool \<Rightarrow> int \<Rightarrow> bool \<Rightarrow> ginfo \<Rightarrow> ginfo" where
  "push_async_request fgt rid fwd g = (if fgt then g else g\<lparr>gr_arp := pending_insert (gr_arp g) rid fwd\<rparr>)"

text \<open>
  A command without argument, the reading of one attribute and the writing of one value ask the
  connected devices first: \<open>asynch_connected\<close> notes those that are not, and \<open>asynch_late\<close> asks
  them afterwards. The other requests take the elements in their order.
\<close>

fun connected_first :: "'v grequest \<Rightarrow> bool" where
  "connected_first (Command c) = True"
| "connected_first (Command_arg c v) = False"
| "connected_first (Read_attr a) = True"
| "connected_first (Read_attrs al) = False"
| "connected_first (Write_attr a v) = True"

fun asynch_late :: "('w, 'v) proxies \<Rightarrow> 'v grequest \<Rightarrow> bool \<Rightarrow> int \<Rightarrow> bool list \<Rightarrow> gelem list \<Rightarrow> 'w \<Rightarrow> gelem list \<times> 'w" where
  "asynch_late px q fgt rid (True # fs) (Device d # es) w =
    (case dev_asynch px q fgt rid d w of
       (d', w') \<Rightarrow> (case asynch_late px q fgt rid fs es w' of (es', w'') \<Rightarrow> (Device d' # es', w'')))"
| "asynch_late px q fgt rid (f # fs) (e # es) w =
    (case asynch_late px q fgt rid fs es w of (es', w') \<Rightarrow> (e # es', w'))"
| "asynch_late px q fgt rid fs es w = (es, w)"

fun asynch_i ::
    "('w, 'v) proxies \<Rightarrow> 'v grequest \<Rightarrow> bool \<Rightarrow> bool \<Rightarrow> int \<Rightarrow> gelem \<Rightarrow> 'w \<Rightarrow> int result \<times> gelem \<times> 'w"
  and asynch_connected ::
    "('w, 'v) proxies \<Rightarrow> 'v grequest \<Rightarrow> bool \<Rightarrow> bool \<Rightarrow> int \<Rightarrow> gelem list \<Rightarrow> 'w \<Rightarrow> bool list result \<times> gelem list \<times> 'w" where
  "asynch_i px q fgt fwd rid (Device d) w = (case dev_asynch px q fgt rid d w of (d', w') \<Rightarrow> (Ok rid, Device d', w'))"
| "asynch_i px q fgt fwd rid (Group g es) w =
    (case request_id rid g of (rid', g') \<Rightarrow>
      (case asynch_connected px q fgt fwd rid' es w of
         (Ok fs, es', w') \<Rightarrow> (case asynch_late px q fgt rid' fs es' w' of
           (es'', w'') \<Rightarrow> (Ok rid', Group (push_async_request fgt rid' fwd g') es'', w''))
       | (Throw x, es', w') \<Rightarrow> (Throw x, Group g' es', w')
       | (Undef, es', w') \<Rightarrow> (Undef, Group g' es', w')))"
| "asynch_connected px q fgt fwd rid [] w = (Ok [], [], w)"
| "asynch_connected px q fgt fwd rid (Device d # es) w =
    (case (if connected_first q then call_proxy px (px_connected px) d w else (Inr True, d, w)) of
       (Inl x, d', w') \<Rightarrow> (Throw x, Device d' # es, w')
     | (Inr c, d', w') \<Rightarrow>
         (case (if c then dev_asynch px q fgt rid d' w' else (d', w')) of
            (d'', w'') \<Rightarrow> (case asynch_connected px q fgt fwd rid es w'' of
              (r, es', w3) \<Rightarrow> (rbind r (\<lambda>fs. Ok ((\<not> c) # fs)), Device d'' # es', w3))))"
| "asynch_connected px q fgt fwd rid (Group g gs # es) w =
    (if fwd then
       (case asynch_i px q fgt fwd rid (Group g gs) w of
          (Ok _, e', w') \<Rightarrow> (case asynch_connected px q fgt fwd rid es w' of
            (r, es', w'') \<Rightarrow> (rbind r (\<lambda>fs. Ok (False # fs)), e' # es', w''))
        | (Throw x, e', w') \<Rightarrow> (Throw x, e' # es, w')
        | (Undef, e', w') \<Rightarrow> (Undef, e' # es, w'))
     else (case asynch_connected px q fgt fwd rid es w of
        (r, es', w') \<Rightarrow> (rbind r (\<lambda>fs. Ok (False # fs)), Group g gs # es', w')))"

text \<open>
  One request for each device: the devices of the group take the requests in the order of the
  elements, a subgroup as many as it has devices.
\<close>

definition wrong_argument_list :: "nat \<Rightarrow> nat \<Rightarrow> exn" where
  "wrong_argument_list gsize n = DevFailed ''API_MethodArgument''
    (''the size of the input argument list must equal the number of device in the group [expected:'' @ dec gsize @
     '' - got:'' @ dec n @ '']'')"

fun asynch_args ::
    "('w, 'v) proxies \<Rightarrow> 'v grequest list \<Rightarrow> bool \<Rightarrow> bool \<Rightarrow> int \<Rightarrow> gelem \<Rightarrow> 'w \<Rightarrow> int result \<times> gelem \<times> 'w"
  and asynch_args_in ::
    "('w, 'v) proxies \<Rightarrow> 'v grequest list \<Rightarrow> bool \<Rightarrow> bool \<Rightarrow> int \<Rightarrow> gelem list \<Rightarrow> 'w \<Rightarrow> unit result \<times> gelem list \<times> 'w" where
  "asynch_args px qs fgt fwd rid (Device d) w = (Undef, Device d, w)"
| "asynch_args px qs fgt fwd rid (Group g es) w =
    (if size_of fwd es \<noteq> length qs then (Throw (wrong_argument_list (size_of fwd es) (length qs)), Group g es, w)
     else case request_id rid g of (rid', g') \<Rightarrow>
       (case asynch_args_in px qs fgt fwd rid' es w of
          (Ok _, es', w') \<Rightarrow> (Ok rid', Group (push_async_request fgt rid' fwd g') es', w')
        | (Throw x, es', w') \<Rightarrow> (Throw x, Group g' es', w')
        | (Undef, es', w') \<Rightarrow> (Undef, Group g' es', w')))"
| "asynch_args_in px qs fgt fwd rid [] w = (Ok (), [], w)"
| "asynch_args_in px qs fgt fwd rid (Device d # es) w =
    (case qs of
       [] \<Rightarrow> (Undef, Device d # es, w)
     | q # qs' \<Rightarrow> (case dev_asynch px q fgt rid d w of
         (d', w') \<Rightarrow> (case asynch_args_in px qs' fgt fwd rid es w' of (r, es', w'') \<Rightarrow> (r, Device d' # es', w''))))"
| "asynch_args_in px qs fgt fwd rid (Group g gs # es) w =
    (if fwd then
       (if length qs < size_of fwd gs then (Undef, Group g gs # es, w)
        else case asynch_args px (take (size_of fwd gs) qs) fgt fwd rid (Group g gs) w of
            (Ok _, e', w') \<Rightarrow> (case asynch_args_in px (drop (size_of fwd gs) qs) fgt fwd rid es w' of
              (r, es', w'') \<Rightarrow> (r, e' # es', w''))
          | (Throw x, e', w') \<Rightarrow> (Throw x, e' # es, w')
          | (Undef, e', w') \<Rightarrow> (Undef, e' # es, w'))
     else (case asynch_args_in px qs fgt fwd rid es w of (r, es', w') \<Rightarrow> (r, Group g gs # es', w')))"

text \<open>
  The replies of a group, in the order of its elements.
\<close>

fun reply_i ::
    "('w, 'v) proxies \<Rightarrow> gkind \<Rightarrow> int \<Rightarrow> int \<Rightarrow> gelem \<Rightarrow> 'w \<Rightarrow> 'v greply list result \<times> gelem \<times> 'w"
  and replies_in ::
    "('w, 'v) proxies \<Rightarrow> gkind \<Rightarrow> int \<Rightarrow> int \<Rightarrow> bool \<Rightarrow> gelem list \<Rightarrow> 'w \<Rightarrow> 'v greply list result \<times> gelem list \<times> 'w" where
  "reply_i px kind rid tmo (Device d) w =
    (case dev_reply px kind rid tmo d w of (r, d', w') \<Rightarrow> (r, Device d', w'))"
| "reply_i px kind rid tmo (Group g es) w =
    (case gr_arp g rid of
       None \<Rightarrow> (Throw bad_poll_id, Group g es, w)
     | Some fwd \<Rightarrow> (case replies_in px kind rid tmo fwd es w of
         (Ok rs, es', w') \<Rightarrow> (Ok rs, Group (g\<lparr>gr_arp := (gr_arp g)(rid := None)\<rparr>) es', w')
       | (Throw x, es', w') \<Rightarrow> (Throw x, Group g es', w')
       | (Undef, es', w') \<Rightarrow> (Undef, Group g es', w')))"
| "replies_in px kind rid tmo fwd [] w = (Ok [], [], w)"
| "replies_in px kind rid tmo fwd (e # es) w =
    (if is_device_i e \<or> fwd then
       (case reply_i px kind rid tmo e w of
          (Ok rs, e', w') \<Rightarrow> (case replies_in px kind rid tmo fwd es w' of
            (r, es', w'') \<Rightarrow> (rbind r (\<lambda>rs'. Ok (rs @ rs')), e' # es', w''))
        | (Throw x, e', w') \<Rightarrow> (Throw x, e' # es, w')
        | (Undef, e', w') \<Rightarrow> (Undef, e' # es, w'))
     else (case replies_in px kind rid tmo fwd es w of (r, es', w') \<Rightarrow> (r, e # es', w')))"

definition list_has_failed :: "'v greply list \<Rightarrow> bool" where
  "list_has_failed rs = list_ex has_failed_m rs"

text \<open>
  The synchronous calls: \<open>command_inout\<close>, \<open>read_attribute\<close>, \<open>read_attributes\<close>, \<open>write_attribute\<close>, and
  those with a value for each device.
\<close>

definition group_call :: "('w, 'v) proxies \<Rightarrow> 'v grequest \<Rightarrow> bool \<Rightarrow> gelem \<Rightarrow> 'w \<Rightarrow> 'v greply list result \<times> gelem \<times> 'w" where
  "group_call px q fwd e w =
    (case asynch_i px q False fwd (-1) e w of
       (Ok rid, e', w') \<Rightarrow> reply_i px (req_kind q) rid 0 e' w'
     | (Throw x, e', w') \<Rightarrow> (Throw x, e', w')
     | (Undef, e', w') \<Rightarrow> (Undef, e', w'))"

definition group_call_args ::
    "('w, 'v) proxies \<Rightarrow> gkind \<Rightarrow> 'v grequest list \<Rightarrow> bool \<Rightarrow> gelem \<Rightarrow> 'w \<Rightarrow> 'v greply list result \<times> gelem \<times> 'w" where
  "group_call_args px kind qs fwd e w =
    (case asynch_args px qs False fwd (-1) e w of
       (Ok rid, e', w') \<Rightarrow> reply_i px kind rid 0 e' w'
     | (Throw x, e', w') \<Rightarrow> (Throw x, e', w')
     | (Undef, e', w') \<Rightarrow> (Undef, e', w'))"

text \<open>
  The calls of the class, by the kinds of requests.
\<close>

definition command_inout :: "('w, 'v) proxies \<Rightarrow> string \<Rightarrow> bool \<Rightarrow> gelem \<Rightarrow> 'w \<Rightarrow> 'v greply list result \<times> gelem \<times> 'w" where
  "command_inout px c fwd = group_call px (Command c) fwd"

definition command_inout_data :: "('w, 'v) proxies \<Rightarrow> string \<Rightarrow> 'v \<Rightarrow> bool \<Rightarrow> gelem \<Rightarrow> 'w \<Rightarrow> 'v greply list result \<times> gelem \<times> 'w" where
  "command_inout_data px c d fwd = group_call px (Command_arg c d) fwd"

definition command_inout_list :: "('w, 'v) proxies \<Rightarrow> string \<Rightarrow> 'v list \<Rightarrow> bool \<Rightarrow> gelem \<Rightarrow> 'w \<Rightarrow> 'v greply list result \<times> gelem \<times> 'w" where
  "command_inout_list px c ds fwd = group_call_args px Cmd_reply (map (Command_arg c) ds) fwd"

definition read_attribute :: "('w, 'v) proxies \<Rightarrow> string \<Rightarrow> bool \<Rightarrow> gelem \<Rightarrow> 'w \<Rightarrow> 'v greply list result \<times> gelem \<times> 'w" where
  "read_attribute px a fwd = group_call px (Read_attr a) fwd"

definition read_attributes :: "('w, 'v) proxies \<Rightarrow> string list \<Rightarrow> bool \<Rightarrow> gelem \<Rightarrow> 'w \<Rightarrow> 'v greply list result \<times> gelem \<times> 'w" where
  "read_attributes px al fwd = group_call px (Read_attrs al) fwd"

definition write_attribute :: "('w, 'v) proxies \<Rightarrow> string \<times> 'v \<Rightarrow> bool \<Rightarrow> gelem \<Rightarrow> 'w \<Rightarrow> 'v greply list result \<times> gelem \<times> 'w" where
  "write_attribute px d fwd = group_call px (Write_attr (fst d) (snd d)) fwd"

definition write_attribute_list :: "('w, 'v) proxies \<Rightarrow> (string \<times> 'v) list \<Rightarrow> bool \<Rightarrow> gelem \<Rightarrow> 'w \<Rightarrow> 'v greply list result \<times> gelem \<times> 'w" where
  "write_attribute_list px ds fwd = group_call_args px Write_reply (map (\<lambda>d. Write_attr (fst d) (snd d)) ds) fwd"

definition command_inout_data_asynch_i :: "('w, 'v) proxies \<Rightarrow> string \<Rightarrow> 'v \<Rightarrow> bool \<Rightarrow> bool \<Rightarrow> int \<Rightarrow> gelem \<Rightarrow> 'w \<Rightarrow> int result \<times> gelem \<times> 'w" where
  "command_inout_data_asynch_i px c d fgt fwd rid = asynch_i px (Command_arg c d) fgt fwd rid"

definition read_attribute_asynch_i :: "('w, 'v) proxies \<Rightarrow> string \<Rightarrow> bool \<Rightarrow> int \<Rightarrow> gelem \<Rightarrow> 'w \<Rightarrow> int result \<times> gelem \<times> 'w" where
  "read_attribute_asynch_i px a fwd rid = asynch_i px (Read_attr a) False fwd rid"

definition read_attributes_asynch_i :: "('w, 'v) proxies \<Rightarrow> string list \<Rightarrow> bool \<Rightarrow> int \<Rightarrow> gelem \<Rightarrow> 'w \<Rightarrow> int result \<times> gelem \<times> 'w" where
  "read_attributes_asynch_i px al fwd rid = asynch_i px (Read_attrs al) False fwd rid"

definition write_attribute_asynch_i :: "('w, 'v) proxies \<Rightarrow> string \<times> 'v \<Rightarrow> bool \<Rightarrow> int \<Rightarrow> gelem \<Rightarrow> 'w \<Rightarrow> int result \<times> gelem \<times> 'w" where
  "write_attribute_asynch_i px d fwd rid = asynch_i px (Write_attr (fst d) (snd d)) False fwd rid"

definition write_attribute_list_asynch_i :: "('w, 'v) proxies \<Rightarrow> (string \<times> 'v) list \<Rightarrow> bool \<Rightarrow> int \<Rightarrow> gelem \<Rightarrow> 'w \<Rightarrow> int result \<times> gelem \<times> 'w" where
  "write_attribute_list_asynch_i px ds fwd rid = asynch_args px (map (\<lambda>d. Write_attr (fst d) (snd d)) ds) False fwd rid"

definition read_attribute_reply_i :: "('w, 'v) proxies \<Rightarrow> int \<Rightarrow> int \<Rightarrow> gelem \<Rightarrow> 'w \<Rightarrow> 'v greply list result \<times> gelem \<times> 'w" where
  "read_attribute_reply_i px = reply_i px Attr_reply"

definition read_attributes_reply_i :: "('w, 'v) proxies \<Rightarrow> int \<Rightarrow> int \<Rightarrow> gelem \<Rightarrow> 'w \<Rightarrow> 'v greply list result \<times> gelem \<times> 'w" where
  "read_attributes_reply_i px = reply_i px Attrs_reply"

definition write_attribute_reply_i :: "('w, 'v) proxies \<Rightarrow> int \<Rightarrow> int \<Rightarrow> gelem \<Rightarrow> 'w \<Rightarrow> 'v greply list result \<times> gelem \<times> 'w" where
  "write_attribute_reply_i px = reply_i px Write_reply"

text \<open>
  The printed tree, the end of the text at the root included.
\<close>

fun dump :: "string option \<Rightarrow> nat \<Rightarrow> gelem \<Rightarrow> string" and dump_all :: "string option \<Rightarrow> nat \<Rightarrow> gelem list \<Rightarrow> string" where
  "dump path n (Device d) = replicate n (CHR 0x09) @ ''|- DEVICE: '' @ gd_name d @ [CHR 0x0A]"
| "dump path n (Group g es) =
    replicate n (CHR 0x09) @ ''|- GROUP: '' @ full_name path (gr_name g) @
    '' ['' @ dec (size_of False es) @ '':'' @ dec (size_of True es) @ '']'' @ [CHR 0x0A] @
    dump_all (Some (full_name path (gr_name g))) (Suc n) es @ (if n = 0 then [CHR 0x00] else [])"
| "dump_all path n [] = []"
| "dump_all path n (e # es) = dump path n e @ dump_all path n es"

section \<open>Devices and sizes\<close>

lemma hierarchy_append [simp]: "hierarchy_of (xs @ ys) = hierarchy_of xs @ hierarchy_of ys"
  by (induction xs) auto

lemma device_names_hierarchy:
  "\<not> is_device_i e \<Longrightarrow> get_device_list True e = map gd_name (get_hiearchy e)"
  "device_names True es = map gd_name (hierarchy_of es)"
  by (induction e and es rule: get_hiearchy_hierarchy_of.induct) (auto elim: is_device_i.elims)

lemma size_hierarchy:
  "get_size_i True e = length (get_hiearchy e)"
  "size_of True es = length (hierarchy_of es)"
  by (induction e and es rule: get_hiearchy_hierarchy_of.induct) auto

lemma next_id_range: "next_asynch_request_id g = (rid, g') \<Longrightarrow> 0 \<le> rid \<and> rid < 0x0FFF"
  by (auto simp: next_asynch_request_id_def Let_def)


section \<open>One request for each device\<close>

text \<open>
  The specification: the devices of the whole hierarchy in their order, each with its request.
\<close>

fun ask_each :: "('w, 'v) proxies \<Rightarrow> bool \<Rightarrow> int \<Rightarrow> ('v grequest \<times> gdev) list \<Rightarrow> 'w \<Rightarrow> gdev list \<times> 'w" where
  "ask_each px fgt rid [] w = ([], w)"
| "ask_each px fgt rid ((q, d) # qds) w =
    (case dev_asynch px q fgt rid d w of
       (d', w') \<Rightarrow> (case ask_each px fgt rid qds w' of (ds, w'') \<Rightarrow> (d' # ds, w'')))"

lemma ask_each_append:
  "ask_each px fgt rid (xs @ ys) w =
    (case ask_each px fgt rid xs w of (ds, w') \<Rightarrow> (case ask_each px fgt rid ys w' of (ds', w'') \<Rightarrow> (ds @ ds', w'')))"
  by (induction xs arbitrary: w) (auto split: prod.splits)

lemma zip_split: "length xs \<le> length qs \<Longrightarrow> zip qs (xs @ ys) = zip (take (length xs) qs) xs @ zip (drop (length xs) qs) ys"
  by (metis append_take_drop_id length_take min.absorb2 zip_append)

lemma asynch_args_flat:
  "rid \<noteq> -1 \<Longrightarrow> length qs = get_size_i True e \<Longrightarrow> fwd \<Longrightarrow> \<not> is_device_i e \<Longrightarrow>
     \<exists>e'. asynch_args px qs fgt fwd rid e w = (Ok rid, e', snd (ask_each px fgt rid (zip qs (get_hiearchy e)) w)) \<and>
       get_hiearchy e' = fst (ask_each px fgt rid (zip qs (get_hiearchy e)) w)"
  "rid \<noteq> -1 \<Longrightarrow> length qs = size_of True es \<Longrightarrow> fwd \<Longrightarrow>
     \<exists>es'. asynch_args_in px qs fgt fwd rid es w = (Ok (), es', snd (ask_each px fgt rid (zip qs (hierarchy_of es)) w)) \<and>
       hierarchy_of es' = fst (ask_each px fgt rid (zip qs (hierarchy_of es)) w)"
proof (induction px qs fgt fwd rid e w and px qs fgt fwd rid es w rule: asynch_args_asynch_args_in.induct)
  case (2 px qs fgt fwd rid g es w)
  then show ?case
    by (auto simp: request_id_def)
next
  case (4 px qs fgt fwd rid d es w)
  then obtain q qs' where qs: "qs = q # qs'" by (cases qs) auto
  obtain d' w' where d: "dev_asynch px q fgt rid d w = (d', w')" by (cases "dev_asynch px q fgt rid d w")
  show ?case
    using 4(1) [OF qs d [symmetric]] 4(2-) qs d by (auto split: prod.splits)
next
  case (5 px qs fgt fwd rid g gs es w)
  let ?n = "size_of True gs"
  have n: "\<not> length qs < size_of fwd gs" "length (take ?n qs) = ?n"
    "length (drop ?n qs) = size_of True es" "length (hierarchy_of gs) = ?n" and le: "length (hierarchy_of gs) \<le> length qs"
    using 5(5,6) by (auto simp: size_hierarchy)
  obtain e' where e: "asynch_args px (take ?n qs) fgt fwd rid (Group g gs) w =
      (Ok rid, e', snd (ask_each px fgt rid (zip (take ?n qs) (hierarchy_of gs)) w))"
    "get_hiearchy e' = fst (ask_each px fgt rid (zip (take ?n qs) (hierarchy_of gs)) w)"
    using 5(1) [OF _ n(1) 5(4)] 5(6) n(2) by auto
  obtain es' where es: "asynch_args_in px (drop ?n qs) fgt fwd rid es (snd (ask_each px fgt rid (zip (take ?n qs) (hierarchy_of gs)) w)) =
      (Ok (), es', snd (ask_each px fgt rid (zip (drop ?n qs) (hierarchy_of es)) (snd (ask_each px fgt rid (zip (take ?n qs) (hierarchy_of gs)) w))))"
    "hierarchy_of es' = fst (ask_each px fgt rid (zip (drop ?n qs) (hierarchy_of es)) (snd (ask_each px fgt rid (zip (take ?n qs) (hierarchy_of gs)) w)))"
    using 5(2) e(1) 5(4,6) n by (auto simp del: asynch_args.simps) blast
  show ?case
    using 5(6) n(1) e es zip_split [OF le, of "hierarchy_of es"] n(4) by (auto simp: ask_each_append split: prod.splits)
qed auto

text \<open>
  (C13) A call with one argument for each device gives the arguments to the devices in the order of
  the device list, through all subgroups.
\<close>

theorem arguments_distributed:
  assumes "length qs = length (get_device_list True (Group g es))"
    and rid: "next_asynch_request_id g = (rid, g')"
  shows "\<exists>e'. asynch_args px qs fgt True (-1) (Group g es) w =
      (Ok rid, e', snd (ask_each px fgt rid (zip qs (get_hiearchy (Group g es))) w)) \<and>
    get_hiearchy e' = fst (ask_each px fgt rid (zip qs (get_hiearchy (Group g es))) w)"
proof -
  have len: "length qs = size_of True es"
    using assms(1) by (simp add: device_names_hierarchy size_hierarchy)
  have "rid \<noteq> -1"
    using next_id_range [OF rid] by simp
  from asynch_args_flat(2) [OF this len, of True px fgt w]
  show ?thesis
    using len rid by (auto simp: request_id_def)
qed


section \<open>A call and its replies\<close>

text \<open>
  No request is pending under the number, and the devices have their proxies.
\<close>

fun ready :: "int \<Rightarrow> gelem \<Rightarrow> bool" and ready_all :: "int \<Rightarrow> gelem list \<Rightarrow> bool" where
  "ready rid (Device d) = (gd_proxy d \<and> gd_arp d rid = None)"
| "ready rid (Group g es) = (gr_arp g rid = None \<and> ready_all rid es)"
| "ready_all rid [] = True"
| "ready_all rid (e # es) = (ready rid e \<and> ready_all rid es)"

text \<open>
  The second tree is the first with a request of the names stored by every device that was
  asked, and with the number stored by the groups.
\<close>

fun sent :: "int \<Rightarrow> string list \<Rightarrow> bool \<Rightarrow> gelem \<Rightarrow> gelem \<Rightarrow> bool"
  and sent_all :: "int \<Rightarrow> string list \<Rightarrow> bool \<Rightarrow> gelem list \<Rightarrow> gelem list \<Rightarrow> bool" where
  "sent rid ns fwd (Device d) (Device d') = (\<exists>r. obj_names r = ns \<and> d' = d\<lparr>gd_arp := (gd_arp d)(rid \<mapsto> r)\<rparr>)"
| "sent rid ns fwd (Group g es) (Group g' es') =
    (if fwd then g' = g\<lparr>gr_arp := (gr_arp g)(rid \<mapsto> fwd)\<rparr> \<and> sent_all rid ns fwd es es' else g' = g \<and> es' = es)"
| "sent rid ns fwd _ _ = False"
| "sent_all rid ns fwd [] [] = True"
| "sent_all rid ns fwd (e # es) (e' # es') = (sent rid ns fwd e e' \<and> sent_all rid ns fwd es es')"
| "sent_all rid ns fwd _ _ = False"

text \<open>
  The same after the first pass: the marked devices were not asked.
\<close>

fun part_sent :: "int \<Rightarrow> string list \<Rightarrow> bool \<Rightarrow> bool list \<Rightarrow> gelem list \<Rightarrow> gelem list \<Rightarrow> bool" where
  "part_sent rid ns fwd [] [] [] = True"
| "part_sent rid ns fwd (f # fs) (e # es) (e' # es') =
    ((if f then is_device_i e \<and> e' = e else sent rid ns fwd e e') \<and> part_sent rid ns fwd fs es es')"
| "part_sent rid ns fwd _ _ _ = False"

lemma call_proxy_ready: "gd_proxy d \<Longrightarrow> call_proxy px call d w = (case call (gd_name d) w of (r, w') \<Rightarrow> (r, d, w'))"
  by (simp add: call_proxy_def dev_proxy_def)

lemma sent_device: "obj_names r = ns \<Longrightarrow> sent rid ns fwd (Device d) (Device (d\<lparr>gd_arp := (gd_arp d)(rid \<mapsto> r)\<rparr>))"
  by auto

lemma dev_asynch_sent:
  assumes "ready rid (Device d)"
  shows "\<exists>d' w'. dev_asynch px q False rid d w = (d', w') \<and> sent rid (req_names q) fwd (Device d) (Device d')"
  using assms
  by (auto simp: dev_asynch_def call_proxy_ready dev_push_def pending_insert_def simp del: sent.simps
      intro!: sent_device split: prod.splits sum.splits)

lemma asynch_late_sent:
  assumes "part_sent rid (req_names q) fwd fs es es'" "ready_all rid es"
  shows "\<exists>es'' w'. asynch_late px q False rid fs es' w = (es'', w') \<and> sent_all rid (req_names q) fwd es es''"
  using assms
proof (induction rid "req_names q" fwd fs es es' arbitrary: w rule: part_sent.induct)
  case (2 rid fwd f fs e es e' es')
  show ?case
  proof (cases f)
    case True
    then obtain d where d: "e = Device d" "e' = Device d" using 2(2) by (cases e) auto
    obtain d' w' where a: "dev_asynch px q False rid d w = (d', w')" "sent rid (req_names q) fwd (Device d) (Device d')"
      using dev_asynch_sent [of rid d px q w fwd] 2(3) d by auto
    then show ?thesis
      using 2(1) [of w'] 2(2,3) True d by (auto simp del: sent.simps)
  next
    case False
    then have "asynch_late px q False rid (f # fs) (e' # es') w = (case asynch_late px q False rid fs es' w of (xs, w') \<Rightarrow> (e' # xs, w'))"
      by (cases e') auto
    then show ?thesis
      using 2(1) [of w] 2(2,3) False by auto
  qed
qed auto

lemma asynch_sent:
  assumes conn: "\<And>n w. \<exists>b w'. px_connected px n w = (Inr b, w')"
  shows "rid \<noteq> -1 \<Longrightarrow> ready rid e \<Longrightarrow> fwd \<Longrightarrow> \<not> fgt \<Longrightarrow>
      \<exists>e' w'. asynch_i px q fgt fwd rid e w = (Ok rid, e', w') \<and> sent rid (req_names q) fwd e e'"
    "rid \<noteq> -1 \<Longrightarrow> ready_all rid es \<Longrightarrow> \<not> fgt \<Longrightarrow>
      \<exists>fs es' w'. asynch_connected px q fgt fwd rid es w = (Ok fs, es', w') \<and> part_sent rid (req_names q) fwd fs es es'"
  using conn
proof (induction px q fgt fwd rid e w and px q fgt fwd rid es w rule: asynch_i_asynch_connected.induct)
  case (1 px q fgt fwd rid d w)
  then show ?case using dev_asynch_sent [of rid d px q w fwd] by auto
next
  case (2 px q fgt fwd rid g es w)
  then obtain fs es' w' where c: "asynch_connected px q fgt fwd rid es w = (Ok fs, es', w')"
    "part_sent rid (req_names q) fwd fs es es'" by (auto simp: request_id_def)
  then show ?case
    using asynch_late_sent [OF c(2), of px w'] 2(2-) by (auto simp: request_id_def push_async_request_def pending_insert_def)
next
  case (4 px q fgt fwd rid d es w)
  obtain c d' w' where s: "(if connected_first q then call_proxy px (px_connected px) d w else (Inr True, d, w)) = (Inr c, d', w')" and d': "d' = d"
    using 4(3) 4(5) [of "gd_name d" w] by (cases "connected_first q") (auto simp: call_proxy_ready)
  obtain d'' w'' where a: "(if c then dev_asynch px q fgt rid d' w' else (d', w')) = (d'', w'')"
    "if c then sent rid (req_names q) fwd (Device d) (Device d'') else d'' = d"
    using dev_asynch_sent [of rid d px q w' fwd] 4(3,4) d' by (cases c) auto
  show ?case
    using 4(1) [OF s [symmetric] _ refl a(1) [symmetric]] 4(2-) s a by (auto simp del: sent.simps)
next
  case (5 px q fgt fwd rid g gs es w)
  show ?case
  proof (cases fwd)
    case True
    then obtain e' w' where e: "asynch_i px q fgt fwd rid (Group g gs) w = (Ok rid, e', w')"
        "sent rid (req_names q) fwd (Group g gs) e'"
      using 5 by auto
    show ?thesis
      using 5(2) [OF True e(1) [symmetric] refl refl] 5(4-) e True by (auto simp del: asynch_i.simps sent.simps)
  next
    case False
    then show ?thesis using 5(3-) by (auto simp del: asynch_i.simps)
  qed
qed auto

text \<open>
  The device and the object that a reply is for. A device that replies to the reading of
  several attributes gives a value or an error for each of the names.
\<close>

definition reply_key :: "'v greply \<Rightarrow> string \<times> string" where
  "reply_key r = (dev_name_m r, obj_name_m r)"

definition answers_complete :: "('w, 'v) proxies \<Rightarrow> 'v grequest \<Rightarrow> bool" where
  "answers_complete px q \<longleftrightarrow> req_kind q = Attrs_reply \<longrightarrow>
    (\<forall>d rid tmo w dal w'. px_attrs_reply px d rid tmo w = (Inr (Some dal), w') \<longrightarrow> length dal = length (req_names q))"

lemma reply_key_simps [simp]:
  "reply_key (data_reply d n v) = (d, n)" "reply_key (done_reply d n en) = (d, n)" "reply_key (failed_reply d n x) = (d, n)"
  "reply_key (attr_reply d n a) = (d, n)"
  by (simp_all add: reply_key_def data_reply_def done_reply_def failed_reply_def attr_reply_def split: sum.split)

lemma attrs_replies_keys:
  "length ns = length as \<Longrightarrow> \<exists>rs. attrs_replies d ns as = Ok rs \<and> map reply_key rs = map (Pair d) ns"
  by (induction d ns as rule: attrs_replies.induct) auto

lemma reply_names_sent: "obj_names r = req_names q \<Longrightarrow> reply_names (req_kind q) r = Ok (req_names q)"
  by (cases q) (auto simp: reply_names_def)

lemma map_sum_eq_Inr: "map_sum id f x = Inr y \<longleftrightarrow> (\<exists>v. x = Inr v \<and> y = f v)"
  by (cases x) auto

lemma fetch_keys:
  assumes "answers_complete px q" "fetch px (req_kind q) (req_names q) rid tmo d w = (Inr res, w')"
  shows "\<exists>rs. res = Ok rs \<and> map reply_key rs = map (Pair d) (req_names q)"
proof (cases q)
  case (Read_attrs al)
  then obtain a where a: "px_attrs_reply px d rid tmo w = (Inr a, w')"
      "res = (case a of None \<Rightarrow> Ok (map (\<lambda>n. failed_reply d n (Some null_reply)) al) | Some dal \<Rightarrow> attrs_replies d al dal)"
    using assms(2) by (auto simp: fetch_def map_sum_eq_Inr split: prod.splits)
  show ?thesis
  proof (cases a)
    case (Some dal)
    then have "length al = length dal"
      using assms(1) a(1) Read_attrs by (simp add: answers_complete_def) metis
    then show ?thesis
      using attrs_replies_keys [of al dal d] a(2) Some Read_attrs by simp
  qed (use a Read_attrs in \<open>auto simp: comp_def\<close>)
qed (use assms(2) in \<open>auto simp: fetch_def map_sum_eq_Inr split: prod.splits option.splits\<close>)

text \<open>
  The names of the devices that a request reaches in an element.
\<close>

definition reached :: "bool \<Rightarrow> gelem \<Rightarrow> string list" where
  "reached fwd e = (if is_device_i e then [get_name e] else if fwd then get_device_list fwd e else [])"

definition keys_for :: "string list \<Rightarrow> string list \<Rightarrow> (string \<times> string) list" where
  "keys_for ds ns = concat (map (\<lambda>d. map (Pair d) ns) ds)"

lemma keys_for_append [simp]: "keys_for (xs @ ys) ns = keys_for xs ns @ keys_for ys ns" "keys_for [] ns = []"
  by (simp_all add: keys_for_def)

lemma device_names_reached: "device_names fwd (e # es) = reached fwd e @ device_names fwd es"
  by (simp add: reached_def)

lemma dev_reply_sent:
  assumes ready: "ready rid (Device d)" and sent: "sent rid (req_names q) fwd (Device d) (Device d')"
    and compl: "answers_complete px q"
  shows "\<exists>rs w'. dev_reply px (req_kind q) rid tmo d' w = (Ok rs, d, w') \<and> map reply_key rs = map (Pair (gd_name d)) (req_names q)"
proof -
  obtain r where r: "obj_names r = req_names q" "d' = d\<lparr>gd_arp := (gd_arp d)(rid \<mapsto> r)\<rparr>"
    using sent by auto
  have erase: "dev_erase rid d' = d"
    using r(2) ready by (simp add: dev_erase_def fun_upd_idem)
  obtain x w' where f: "fetch px (req_kind q) (req_names q) (rq_id r) tmo (gd_name d) w = (x, w')"
    by (cases "fetch px (req_kind q) (req_names q) (rq_id r) tmo (gd_name d) w")
  then have "call_proxy px (fetch px (req_kind q) (req_names q) (rq_id r) tmo) d' w = (x, d', w')"
    using r(2) ready by (simp add: call_proxy_ready)
  then show ?thesis
    using r reply_names_sent [OF r(1)] erase f fetch_keys [OF compl, of "rq_id r" tmo "gd_name d" w]
    by (cases x) (auto simp: dev_reply_def comp_def)
qed

lemma replies_sent:
  assumes compl: "answers_complete px q"
  shows "sent rid ns fwd e e' \<Longrightarrow> ns = req_names q \<Longrightarrow> ready rid e \<Longrightarrow> is_device_i e \<or> fwd \<Longrightarrow>
      \<exists>rs w'. reply_i px (req_kind q) rid tmo e' w = (Ok rs, e, w') \<and> map reply_key rs = keys_for (reached fwd e) ns"
    and "sent_all rid ns fwd es es' \<Longrightarrow> ns = req_names q \<Longrightarrow> ready_all rid es \<Longrightarrow>
      \<exists>rs w'. replies_in px (req_kind q) rid tmo fwd es' w = (Ok rs, es, w') \<and> map reply_key rs = keys_for (device_names fwd es) ns"
proof (induction rid ns fwd e e' and rid ns fwd es es' arbitrary: w and w rule: sent_sent_all.induct)
  case (1 rid ns fwd d d')
  then show ?case
    using dev_reply_sent [OF 1(3) _ compl, of fwd d' tmo w] by (auto simp: keys_for_def reached_def simp del: sent.simps)
next
  case (2 rid ns fwd g es g' es')
  have g: "g\<lparr>gr_arp := (gr_arp g)(rid := None)\<rparr> = g" using 2(4) by (simp add: fun_upd_idem)
  have fwd: fwd using 2(5) by simp
  then obtain rs w' where "replies_in px (req_kind q) rid tmo fwd es' w = (Ok rs, es, w')"
      "map reply_key rs = keys_for (device_names fwd es) ns"
    using 2(1) [OF fwd, of w] 2(2-4) by auto
  then show ?case
    using 2(2) g fwd by (auto simp: reached_def)
next
  case (5 rid ns fwd e es e' es')
  have same: "is_device_i e' = is_device_i e" using 5(3) by (cases e; cases e') auto
  obtain rs w' where r: "replies_in px (req_kind q) rid tmo fwd es' w = (Ok rs, es, w')"
      "map reply_key rs = keys_for (device_names fwd es) ns"
    using 5(2) [of w] 5(3-) by auto
  show ?case
  proof (cases "is_device_i e \<or> fwd")
    case True
    then obtain rs0 w0 where r0: "reply_i px (req_kind q) rid tmo e' w = (Ok rs0, e, w0)"
        "map reply_key rs0 = keys_for (reached fwd e) ns"
      using 5(1) [of w] 5(3-) by auto
    show ?thesis
      using 5(2) [of w0] 5(3-) r0 True same by (auto simp: device_names_reached simp del: device_names.simps)
  next
    case False
    then have "e' = e" using 5(3) by (cases e; cases e') auto
    then show ?thesis
      using r False by (auto simp: device_names_reached reached_def simp del: device_names.simps)
  qed
qed auto

text \<open>
  (C12) A synchronous call gives replies of all devices that it reaches, in the order of the device
  list, one for each name of the request, and leaves no request pending: but for the counter of
  the requests the group is as before.
\<close>

theorem group_call_complete:
  assumes rid: "next_asynch_request_id g = (rid, g')"
    and ready: "ready rid (Group g es)"
    and conn: "\<And>n w. \<exists>b w'. px_connected px n w = (Inr b, w')"
    and compl: "answers_complete px q"
  shows "\<exists>rs w'. group_call px q fwd (Group g es) w = (Ok rs, Group g' es, w') \<and>
    map reply_key rs = keys_for (get_device_list fwd (Group g es)) (req_names q)"
proof -
  have ne: "rid \<noteq> -1" using next_id_range [OF rid] by simp
  have r: "ready_all rid es" "gr_arp g rid = None" using ready by auto
  have g': "g' = g\<lparr>asynch_req_id := rid\<rparr>" using rid by (auto simp: next_asynch_request_id_def Let_def)
  have same: "g'\<lparr>gr_arp := (gr_arp g)(rid := None)\<rparr> = g'"
    using r(2) g' by (simp add: fun_upd_idem)
  obtain fs es' w' where c: "asynch_connected px q False fwd rid es w = (Ok fs, es', w')"
      "part_sent rid (req_names q) fwd fs es es'"
    using asynch_sent(2) [OF conn ne r(1), of False q fwd w] by auto
  obtain es'' w'' where l: "asynch_late px q False rid fs es' w' = (es'', w'')" "sent_all rid (req_names q) fwd es es''"
    using asynch_late_sent [OF c(2) r(1), of px w'] by auto
  obtain rs w3 where p: "replies_in px (req_kind q) rid 0 fwd es'' w'' = (Ok rs, es, w3)"
      "map reply_key rs = keys_for (device_names fwd es) (req_names q)"
    using replies_sent(2) [OF compl l(2) refl r(1), of 0 w''] by auto
  have "asynch_i px q False fwd (-1) (Group g es) w = (Ok rid, Group (g'\<lparr>gr_arp := (gr_arp g)(rid \<mapsto> fwd)\<rparr>) es'', w'')"
    using rid c l r(2) g' by (simp add: request_id_def push_async_request_def pending_insert_def)
  then show ?thesis
    using p same by (simp add: group_call_def)
qed

definition ex_px :: "(nat, int) proxies" where
  "ex_px = \<lparr>px_connect = (\<lambda>n w. (Inl CORBA_exception, w)), px_connected = (\<lambda>n w. (Inr (n \<noteq> ''a/b/1''), w)),
     px_timeout = (\<lambda>n t w. (Inr (), w)), px_ping = (\<lambda>n w. (Inr 1, w)),
     px_send = (\<lambda>n q f w. (Inr (int w), Suc w)), px_cmd_reply = (\<lambda>n r t w. (Inr r, w)),
     px_attr_reply = (\<lambda>n r t w. (Inr None, w)), px_attrs_reply = (\<lambda>n r t w. (Inr None, w)),
     px_write_reply = (\<lambda>n r t w. (Inr (), w)), px_defined = (\<lambda>h p w. (Inr [], w)), px_fqdn = (\<lambda>h. h)\<rparr>"

definition ex_gdev :: "string \<Rightarrow> bool \<Rightarrow> gdev" where
  "ex_gdev n p = \<lparr>gd_name = n, gd_enabled = True, gd_proxy = p, gd_arp = (\<lambda>_. None)\<rparr>"

definition ex_ginfo :: "string \<Rightarrow> ginfo" where
  "ex_ginfo n = \<lparr>gr_name = n, gr_enabled = True, gr_arp = (\<lambda>_. None), asynch_req_id = 0\<rparr>"

definition ex_elems :: "gelem list" where
  "ex_elems = [Device (ex_gdev ''a/b/1'' True), Group (ex_ginfo ''sub'') [Device (ex_gdev ''a/b/2'' True)]]"

theorem group_call_complete_witness:
  "\<exists>rs w'. group_call ex_px (Command ''On'') True (Group (ex_ginfo ''g'') ex_elems) 5 =
     (Ok rs, Group ((ex_ginfo ''g'')\<lparr>asynch_req_id := 1\<rparr>) ex_elems, w') \<and>
   map reply_key rs = [(''a/b/1'', ''On''), (''a/b/2'', ''On'')]"
proof -
  have "next_asynch_request_id (ex_ginfo ''g'') = (1, (ex_ginfo ''g'')\<lparr>asynch_req_id := 1\<rparr>)"
    by (simp add: next_asynch_request_id_def ex_ginfo_def)
  moreover have "ready 1 (Group (ex_ginfo ''g'') ex_elems)"
    by (simp add: ex_elems_def ex_gdev_def ex_ginfo_def)
  moreover have "\<And>n w. \<exists>b w'. px_connected ex_px n w = (Inr b, w')"
    by (simp add: ex_px_def)
  moreover have "answers_complete ex_px (Command ''On'' :: int grequest)"
    by (simp add: answers_complete_def)
  ultimately show ?thesis
    using group_call_complete [of "ex_ginfo ''g''" 1 _ ex_elems ex_px "Command ''On''" True 5]
    by (simp add: ex_elems_def ex_gdev_def keys_for_def)
qed

theorem arguments_distributed_witness:
  "\<exists>e'. asynch_args ex_px [Command_arg ''Set'' 10, Command_arg ''Set'' 20] False True (-1) (Group (ex_ginfo ''g'') ex_elems) 5 =
     (Ok 1, e', snd (ask_each ex_px False 1 [(Command_arg ''Set'' 10, ex_gdev ''a/b/1'' True), (Command_arg ''Set'' 20, ex_gdev ''a/b/2'' True)] 5)) \<and>
   get_hiearchy e' = fst (ask_each ex_px False 1 [(Command_arg ''Set'' 10, ex_gdev ''a/b/1'' True), (Command_arg ''Set'' 20, ex_gdev ''a/b/2'' True)] 5)"
proof -
  have "next_asynch_request_id (ex_ginfo ''g'') = (1, (ex_ginfo ''g'')\<lparr>asynch_req_id := 1\<rparr>)"
    by (simp add: next_asynch_request_id_def ex_ginfo_def)
  moreover have "get_hiearchy (Group (ex_ginfo ''g'') ex_elems) = [ex_gdev ''a/b/1'' True, ex_gdev ''a/b/2'' True]"
    by (simp add: ex_elems_def)
  moreover have "length [Command_arg ''Set'' (10 :: int), Command_arg ''Set'' 20] = length (get_device_list True (Group (ex_ginfo ''g'') ex_elems))"
    by (simp add: ex_elems_def)
  ultimately show ?thesis
    using arguments_distributed [of "[Command_arg ''Set'' 10, Command_arg ''Set'' 20]" "ex_ginfo ''g''" ex_elems 1 _ ex_px False 5]
    by (simp only: zip_Cons_Cons zip_Nil)
qed


section \<open>Devices that cannot be reached\<close>




section \<open>Devices by number\<close>

lemma get_device_idx_flat:
  assumes "\<forall>d\<in>set ds. gd_proxy d"
  shows "get_device_idx_in px idx (map Device ds) w =
    (Ok (if 1 \<le> idx \<and> idx \<le> int (length ds) then Some [nat (idx - 1)] else None), map Device ds, w)"
  using assms
proof (induction ds arbitrary: idx)
  case (Cons d ds)
  show ?case
  proof (cases "idx = 1")
    case False
    then show ?thesis
      using Cons.IH [of "idx - 1"] Cons.prems
      by (auto simp: dev_get_device_idx_def nat_diff_distrib Suc_nat_eq_nat_zadd1)
  qed (use Cons.prems in \<open>auto simp: dev_get_device_idx_def dev_proxy_def\<close>)
qed auto

text \<open>
  The number of a device counts from one and finds the device in a group without subgroups;
  after a subgroup it does not: a device that follows a subgroup of two devices is found under
  no number.
\<close>

theorem device_by_number:
  assumes "\<forall>d\<in>set (a # b # c # ds). gd_proxy d"
  shows "get_device_idx px idx (Group g (map Device ds)) w =
      (Ok (if 1 \<le> idx \<and> idx \<le> int (get_size_i True (Group g (map Device ds))) then Some [nat (idx - 1)] else None),
       Group g (map Device ds), w) \<and>
    get_size_i True (Group g [Group h [Device a, Device b], Device c]) = 3 \<and>
    (\<forall>i. fst (get_device_idx px i (Group g [Group h [Device a, Device b], Device c]) w) \<noteq> Ok (Some [1]))"
proof -
  have "size_of True (map Device ds) = length ds" by (induction ds) auto
  then show ?thesis
    using assms get_device_idx_flat [of ds px idx w]
    by (auto simp: dev_get_device_idx_def dev_proxy_def split: if_splits)
qed

theorem device_by_number_witness:
  "fst (get_device_idx ex_px 2 (Group (ex_ginfo ''g'') [Device (ex_gdev ''a/b/1'' True), Device (ex_gdev ''a/b/2'' True)]) 5) = Ok (Some [1]) \<and>
   fst (get_device_idx ex_px 3 (Group (ex_ginfo ''g'')
     [Group (ex_ginfo ''h'') [Device (ex_gdev ''a/b/1'' True), Device (ex_gdev ''a/b/2'' True)], Device (ex_gdev ''a/b/3'' True)]) 5) \<noteq> Ok (Some [1])"
proof -
  let ?d = "\<lambda>n. ex_gdev n True"
  have "\<forall>d\<in>set (?d ''a/b/1'' # ?d ''a/b/2'' # ?d ''a/b/3'' # [?d ''a/b/1'', ?d ''a/b/2'']). gd_proxy d"
    by (simp add: ex_gdev_def)
  from device_by_number [OF this, of ex_px 2 "ex_ginfo ''g''" 5 "ex_ginfo ''h''"]
  show ?thesis
    by simp
qed

section \<open>Adding devices\<close>

lemma hierarchy_concat: "hierarchy_of es = concat (map get_hiearchy es)"
  by (induction es) auto

lemma set_timeout_names:
  "map gd_name (get_hiearchy (fst (set_timeout_millis px tmo e w))) = map gd_name (get_hiearchy e)"
  "map gd_name (hierarchy_of (fst (set_timeout_all px tmo es w))) = map gd_name (hierarchy_of es)"
proof (induction px tmo e w and px tmo es w rule: set_timeout_millis_set_timeout_all.induct)
  case (1 px tmo d w)
  then show ?case
    by (auto simp: dev_set_timeout_def call_proxy_def dev_proxy_def split: prod.splits sum.splits)
qed (fastforce split: prod.splits)+

lemma update_at_names:
  assumes "elem_at ps e = Some x" "map gd_name (get_hiearchy y) = map gd_name (get_hiearchy x)"
  shows "map gd_name (get_hiearchy (update_at ps (\<lambda>_. y) e)) = map gd_name (get_hiearchy e)"
  using assms
proof (induction ps arbitrary: e)
  case (Cons k ps)
  then obtain g es where e: "e = Group g es" and k: "k < length es" by (cases e) (auto split: if_splits)
  have "map gd_name (get_hiearchy (update_at ps (\<lambda>_. y) (es ! k))) = map gd_name (get_hiearchy (es ! k))"
    using Cons.IH [of "es ! k"] Cons.prems e k by simp
  then have "map (map gd_name \<circ> get_hiearchy) (es[k := update_at ps (\<lambda>_. y) (es ! k)]) = map (map gd_name \<circ> get_hiearchy) es"
    using k by (simp add: map_update list_update_same_conv)
  then show ?case
    using e k by (simp add: hierarchy_concat map_concat)
qed auto

lemma retime_names: "map gd_name (get_hiearchy (fst (retime px tmo ps e w))) = map gd_name (get_hiearchy e)"
  using update_at_names [of ps e] set_timeout_names(1) [of px tmo _ w]
  by (fastforce simp: retime_def split: option.splits prod.splits)

lemma update_at_group: "\<not> is_device_i e \<Longrightarrow> \<not> is_device_i (f e) \<Longrightarrow> \<not> is_device_i (update_at ps f e)"
  by (cases ps; cases e) auto

lemma find_in_not_Nil: "find_in path n k es \<noteq> Some []"
  by (induction es arbitrary: k) (auto split: option.splits)

lemma first_index_None: "first_index p xs = None \<longleftrightarrow> (\<forall>x\<in>set xs. \<not> p x)"
  by (induction xs) auto

lemma find_i_None:
  "find_i path n fwd e = None \<Longrightarrow> fwd \<Longrightarrow> \<not> is_pattern n \<Longrightarrow> lower n \<notin> (lower \<circ> gd_name) ` set (get_hiearchy e)"
  "find_in path n k es = None \<Longrightarrow> \<not> is_pattern n \<Longrightarrow> lower n \<notin> (lower \<circ> gd_name) ` set (hierarchy_of es)"
  by (induction path n fwd e and path n k es rule: find_i_find_in.induct)
    (auto simp: name_equals_def split: if_splits option.splits)

lemma new_device_name: "gd_name (fst (GroupDeviceElement_new px n tmo w)) = n"
  by (auto simp: GroupDeviceElement_new_def dev_set_timeout_def call_proxy_def dev_proxy_def split: prod.splits sum.splits)




section \<open>Patterns\<close>

lemma prefix_at_self: "prefix_at p (p @ s)"
  by (induction p) auto

lemma find_str_inside: "find_str p (a @ p @ b) \<noteq> None"
  using prefix_at_self [of p b] by (induction a) (cases "p @ b"; auto)+

lemma tokenize_prefix: "CHR ''*'' \<notin> set t \<Longrightarrow> t \<noteq> [] \<Longrightarrow> tokenize_i (t @ ''*'') = [t]"
  by (simp add: tokenize_i_def)

text \<open>
  A pattern with a star at its end is meant for the names that begin with its text; a removal
  deletes the elements that have the text anywhere in their names.
\<close>

theorem pattern_not_anchored:
  assumes "CHR ''*'' \<notin> set t" "t \<noteq> []" and "\<not> name_equals None (gr_name g) (t @ ''*'')"
  shows "\<forall>e\<in>set (elements (remove_i None (t @ ''*'') False (Group g es))). \<forall>a b. get_name e \<noteq> a @ t @ b"
proof -
  have "name_matches path n (t @ ''*'')" if "n = a @ t @ b" for path n a b
    using that find_str_inside [of "lower t" "lower a" "lower b"] tokenize_prefix [OF assms(1,2)]
    by (auto simp: name_matches_def match_i_def split: option.splits)
  then show ?thesis
    using assms(3) by (auto simp: remove_local_def is_pattern_def Let_def)
qed

theorem pattern_not_anchored_witness:
  "\<forall>e\<in>set (elements (remove_i None ''b/*'' False (Group (ex_ginfo ''g'') ex_elems))). \<forall>a b. get_name e \<noteq> a @ ''b/'' @ b"
proof -
  have "\<not> name_equals None (gr_name (ex_ginfo ''g'')) (''b/'' @ ''*'')" by code_simp
  then show ?thesis
    using pattern_not_anchored [of "''b/''" "ex_ginfo ''g''" ex_elems] by simp
qed

section \<open>Devices enabled between a request and its reply\<close>

text \<open>
  A disabled device is not asked, and its entry takes the number of the group's request for the
  number of the proxy's. When the device is enabled before the replies are collected, the proxy
  is asked for the reply to that number, which may be another request's.
\<close>

theorem enabled_late_takes_foreign_reply:
  assumes "\<not> gd_enabled d" "gd_proxy d" "gd_arp d rid = None" "rid \<noteq> -1"
    and "px_cmd_reply px (gd_name d) rid tmo w = (Inr v, w')"
  shows "\<exists>d'. dev_asynch px (Command c) False rid d w = (d', w) \<and>
    dev_reply px Cmd_reply rid tmo (d'\<lparr>gd_enabled := True\<rparr>) w =
      (Ok [data_reply (gd_name d) c v], d\<lparr>gd_enabled := True\<rparr>, w')"
  using assms
  by (auto simp: dev_asynch_def dev_push_def pending_insert_def dev_reply_def reply_names_def call_proxy_ready fetch_def
      dev_erase_def fun_upd_idem)

theorem enabled_late_takes_foreign_reply_witness:
  "\<exists>d'. dev_asynch ex_px (Command ''On'') False 3 ((ex_gdev ''a/b/1'' True)\<lparr>gd_enabled := False\<rparr>) 5 = (d', 5) \<and>
    dev_reply ex_px Cmd_reply 3 0 (d'\<lparr>gd_enabled := True\<rparr>) 5 =
      (Ok [data_reply ''a/b/1'' ''On'' 3], ex_gdev ''a/b/1'' True, 5)"
  using enabled_late_takes_foreign_reply
    [of "(ex_gdev ''a/b/1'' True)\<lparr>gd_enabled := False\<rparr>" 3 ex_px 0 5 3 5 "''On''"]
  by (simp add: ex_gdev_def ex_px_def)

end
