(* ===== verification/Dev_Monitor.thy ===== *)
theory Dev_Monitor
  imports Tango_Prelude
begin

text \<open>
  The monitors that serialise the requests of a device server
  (\<open>include/tango/server/tango_monitor.h\<close>, \<open>server/auto_tango_monitor.cpp\<close>): a monitor that
  its owner may take again, with a time-out for the others, and the choice of the monitor by
  the serialisation model of the server. The threads are interleaved at the points where they
  hold the mutex of the monitor.
\<close>

section \<open>One monitor\<close>

type_synonym thread_id = nat

record TangoMonitor =
  mon_name :: string
  mon_timeout :: int
  locking_thread :: "thread_id option"
  locked_ctr :: int

definition DEFAULT_TIMEOUT :: int where
  "DEFAULT_TIMEOUT = 3200"

definition TangoMonitor_new :: "string \<Rightarrow> TangoMonitor" where
  "TangoMonitor_new na = \<lparr>mon_name = na, mon_timeout = DEFAULT_TIMEOUT, locking_thread = None, locked_ctr = 0\<rparr>"

definition get_locking_thread_id :: "TangoMonitor \<Rightarrow> int" where
  "get_locking_thread_id m = (case locking_thread m of Some t \<Rightarrow> int t | None \<Rightarrow> -1)"

text \<open>
  \<open>get_monitor\<close> up to its end or to a wait: \<open>get_resume\<close> is one round of the loop, after a wait
  that was not ended by the time-out.
\<close>

datatype mon_outcome = Got TangoMonitor | Must_wait

definition get_resume :: "thread_id \<Rightarrow> TangoMonitor \<Rightarrow> mon_outcome" where
  "get_resume th m =
    (if 0 < locked_ctr m then Must_wait
     else Got (m\<lparr>locking_thread := Some th, locked_ctr := locked_ctr m + 1\<rparr>))"

definition get_monitor :: "thread_id \<Rightarrow> TangoMonitor \<Rightarrow> mon_outcome" where
  "get_monitor th m =
    (if locked_ctr m = 0 then Got (m\<lparr>locking_thread := Some th, locked_ctr := locked_ctr m + 1\<rparr>)
     else if locking_thread m \<noteq> Some th then get_resume th m
     else Got (m\<lparr>locked_ctr := locked_ctr m + 1\<rparr>))"

definition monitor_timed_out :: "thread_id \<Rightarrow> TangoMonitor \<Rightarrow> exn" where
  "monitor_timed_out th m = DevFailed ''API_CommandTimedOut''
    (''Thread '' @ dec th @ '' is not able to acquire serialization monitor \"'' @ mon_name m @ ''\",  it is currently held by thread '' @
     (if get_locking_thread_id m < 0 then ''-1'' else dec (nat (get_locking_thread_id m))) @ ''.'')"

text \<open>
  The result tells whether one of the waiting threads is signalled.
\<close>

definition rel_monitor :: "thread_id \<Rightarrow> TangoMonitor \<Rightarrow> bool \<times> TangoMonitor" where
  "rel_monitor th m =
    (if locked_ctr m = 0 \<or> locking_thread m \<noteq> Some th then (False, m)
     else let m' = m\<lparr>locked_ctr := locked_ctr m - 1\<rparr> in
       if locked_ctr m' = 0 then (True, m'\<lparr>locking_thread := None\<rparr>) else (False, m'))"

text \<open>
  The time-out as seconds and nanoseconds from now, in unsigned numbers of 64 bits.
\<close>

definition monitor_wait :: "int \<Rightarrow> int \<times> int" where
  "monitor_wait nb_millis =
    (let nb_sec = (nb_millis sdiv 1000) mod 2 ^ 64
     in (nb_sec, ((nb_millis - nb_sec * 1000) mod 2 ^ 64 * 1000000) mod 2 ^ 64))"

lemma monitor_wait_exact:
  assumes "0 \<le> ms" "ms < 2 ^ 63"
  shows "monitor_wait ms = (ms div 1000, ms mod 1000 * 1000000)"
proof -
  have "0 \<le> ms div 1000" using assms(1) by (simp add: div_int_pos_iff)
  then have "(ms div 1000) mod 2 ^ 64 = ms div 1000" using assms(2) div_mult_below [of 1000 ms] by simp
  moreover have "ms - ms div 1000 * 1000 = ms mod 1000" by (simp add: minus_div_mult_eq_mod)
  ultimately show ?thesis
    using assms pos_mod_bound [of 1000 ms] pos_mod_sign [of 1000 ms] by (simp add: monitor_wait_def sdiv_div_nonneg Let_def)
qed


section \<open>Threads at a monitor\<close>

text \<open>
  What a thread does with the monitor: nothing or its own work, waiting, or woken and about to
  take the mutex again. \<open>depth\<close> counts the calls of \<open>get_monitor\<close> that returned and were not yet
  followed by their \<open>rel_monitor\<close>.
\<close>

datatype tpc = Running | Sleeping | Woken

record msys =
  mon :: TangoMonitor
  pcs :: "thread_id \<Rightarrow> tpc"
  depth :: "thread_id \<Rightarrow> nat"

definition msys_new :: "string \<Rightarrow> msys" where
  "msys_new na = \<lparr>mon = TangoMonitor_new na, pcs = (\<lambda>_. Running), depth = (\<lambda>_. 0)\<rparr>"

text \<open>
  The steps of a thread. A sleeping thread may wake without a signal, and times out with the
  exception of \<open>monitor_timed_out\<close>; a signal wakes any one of the sleeping threads.
\<close>

inductive mstep :: "thread_id \<Rightarrow> msys \<Rightarrow> msys \<Rightarrow> bool" where
  enter: "pcs s t = Running \<Longrightarrow> get_monitor t (mon s) = Got m \<Longrightarrow>
    mstep t s (s\<lparr>mon := m, depth := (depth s)(t := Suc (depth s t))\<rparr>)"
| enter_wait: "pcs s t = Running \<Longrightarrow> get_monitor t (mon s) = Must_wait \<Longrightarrow>
    mstep t s (s\<lparr>pcs := (pcs s)(t := Sleeping)\<rparr>)"
| wake: "pcs s t = Sleeping \<Longrightarrow> mstep t s (s\<lparr>pcs := (pcs s)(t := Woken)\<rparr>)"
| resume: "pcs s t = Woken \<Longrightarrow> get_resume t (mon s) = Got m \<Longrightarrow>
    mstep t s (s\<lparr>mon := m, pcs := (pcs s)(t := Running), depth := (depth s)(t := Suc (depth s t))\<rparr>)"
| resume_wait: "pcs s t = Woken \<Longrightarrow> get_resume t (mon s) = Must_wait \<Longrightarrow>
    mstep t s (s\<lparr>pcs := (pcs s)(t := Sleeping)\<rparr>)"
| time_out: "pcs s t = Sleeping \<Longrightarrow> mstep t s (s\<lparr>pcs := (pcs s)(t := Running)\<rparr>)"
| leave: "pcs s t = Running \<Longrightarrow> rel_monitor t (mon s) = (False, m) \<Longrightarrow>
    mstep t s (s\<lparr>mon := m, depth := (depth s)(t := depth s t - 1)\<rparr>)"
| leave_signal: "pcs s t = Running \<Longrightarrow> rel_monitor t (mon s) = (True, m) \<Longrightarrow> pcs s u = Sleeping \<Longrightarrow>
    mstep t s (s\<lparr>mon := m, pcs := (pcs s)(u := Woken), depth := (depth s)(t := depth s t - 1)\<rparr>)"
| leave_alone: "pcs s t = Running \<Longrightarrow> rel_monitor t (mon s) = (True, m) \<Longrightarrow> \<forall>u. pcs s u \<noteq> Sleeping \<Longrightarrow>
    mstep t s (s\<lparr>mon := m, depth := (depth s)(t := depth s t - 1)\<rparr>)"

text \<open>
  The owner is the only thread inside, the counter is its depth, and a free monitor has a woken
  thread when threads wait for it.
\<close>

definition mon_inv :: "msys \<Rightarrow> bool" where
  "mon_inv s \<longleftrightarrow>
    (case locking_thread (mon s) of
       None \<Rightarrow> locked_ctr (mon s) = 0 \<and> (\<forall>t. depth s t = 0)
     | Some t \<Rightarrow> locked_ctr (mon s) = int (depth s t) \<and> 0 < depth s t \<and> (\<forall>u. u \<noteq> t \<longrightarrow> depth s u = 0)) \<and>
    (locked_ctr (mon s) = 0 \<longrightarrow> (\<exists>t. pcs s t = Sleeping) \<longrightarrow> (\<exists>t. pcs s t = Woken))"

lemma mon_inv_new: "mon_inv (msys_new na)"
  by (simp add: mon_inv_def msys_new_def TangoMonitor_new_def)

lemma mstep_inv: "mstep t s s' \<Longrightarrow> mon_inv s \<Longrightarrow> mon_inv s'"
proof (induction rule: mstep.induct)
  case (enter s t m)
  then show ?case
    by (auto simp: mon_inv_def get_monitor_def get_resume_def split: option.splits if_splits)
next
  case (enter_wait s t)
  then show ?case
    by (auto simp: mon_inv_def get_monitor_def get_resume_def split: option.splits if_splits)
next
  case (resume s t m)
  then show ?case
    by (auto simp: mon_inv_def get_resume_def split: option.splits if_splits)
next
  case (resume_wait s t)
  then show ?case
    by (auto simp: mon_inv_def get_resume_def split: option.splits if_splits)
next
  case (time_out s t)
  then show ?case
    by (auto simp: mon_inv_def split: option.splits if_splits) metis+
next
  case (leave s t m)
  then show ?case
    by (auto simp: mon_inv_def rel_monitor_def Let_def split: option.splits if_splits)
next
  case (leave_signal s t m u)
  then show ?case
    by (auto simp: mon_inv_def rel_monitor_def Let_def split: option.splits if_splits)
next
  case (leave_alone s t m)
  then show ?case
    by (auto simp: mon_inv_def rel_monitor_def Let_def split: option.splits if_splits)
qed (auto simp: mon_inv_def split: option.splits)

inductive mreach :: "string \<Rightarrow> msys \<Rightarrow> bool" for na where
  start: "mreach na (msys_new na)"
| step: "mreach na s \<Longrightarrow> mstep t s s' \<Longrightarrow> mreach na s'"

lemma mreach_inv: "mreach na s \<Longrightarrow> mon_inv s"
  by (induction rule: mreach.induct) (auto intro: mon_inv_new mstep_inv)

text \<open>
  (C36) No signal is lost: while the monitor is free and a thread waits for it, one of the threads that
  waited can take it with its next step.
\<close>

theorem free_monitor_is_taken:
  assumes "mreach na s" "locked_ctr (mon s) = 0" "pcs s t = Sleeping"
  shows "\<exists>u s'. pcs s u = Woken \<and> mstep u s s' \<and> locking_thread (mon s') = Some u \<and> depth s' u = 1"
proof -
  have inv: "mon_inv s" using assms(1) by (rule mreach_inv)
  then obtain u where u: "pcs s u = Woken"
    using assms(2,3) by (auto simp: mon_inv_def)
  have "depth s u = 0"
    using inv assms(2) by (auto simp: mon_inv_def split: option.splits)
  moreover have "get_resume u (mon s) = Got ((mon s)\<lparr>locking_thread := Some u, locked_ctr := locked_ctr (mon s) + 1\<rparr>)"
    using assms(2) by (simp add: get_resume_def)
  ultimately show ?thesis
    using mstep.resume [OF u] u by force
qed


section \<open>The monitors of a server\<close>

text \<open>
  A server has a monitor for each device, for each class and for the process. A thread waits at
  one of them at most: it takes a step at a monitor only while it waits at no other.
\<close>

datatype SerialModel = BY_DEVICE | BY_CLASS | BY_PROCESS | NO_SYNC

datatype mon_key = Dev_mon nat | Class_mon nat | Process_mon

text \<open>
  The monitor that a guard of a device or of a class takes, if any. The destructor of the guard
  releases it.
\<close>

definition AutoTangoMonitor_dev :: "SerialModel \<Rightarrow> (nat \<Rightarrow> nat) \<Rightarrow> nat \<Rightarrow> bool \<Rightarrow> mon_key option" where
  "AutoTangoMonitor_dev ser class_of dev force =
    (case ser of
       NO_SYNC \<Rightarrow> if force then Some (Dev_mon dev) else None
     | BY_DEVICE \<Rightarrow> Some (Dev_mon dev)
     | BY_CLASS \<Rightarrow> Some (Class_mon (class_of dev))
     | BY_PROCESS \<Rightarrow> Some Process_mon)"

definition AutoTangoMonitor_class :: "SerialModel \<Rightarrow> nat \<Rightarrow> mon_key option" where
  "AutoTangoMonitor_class ser cl =
    (case ser of
       NO_SYNC \<Rightarrow> None
     | BY_DEVICE \<Rightarrow> None
     | BY_CLASS \<Rightarrow> Some (Class_mon cl)
     | BY_PROCESS \<Rightarrow> Some Process_mon)"

definition NoSyncModelTangoMonitor :: "SerialModel \<Rightarrow> nat \<Rightarrow> mon_key option" where
  "NoSyncModelTangoMonitor ser dev = (if ser = NO_SYNC then Some (Dev_mon dev) else None)"

inductive server_step ::
    "(thread_id \<Rightarrow> 's \<Rightarrow> 's \<Rightarrow> bool) \<Rightarrow> ('s \<Rightarrow> thread_id \<Rightarrow> bool) \<Rightarrow> ('k \<Rightarrow> 's) \<Rightarrow> ('k \<Rightarrow> 's) \<Rightarrow> bool"
  for step waits where
  "step t (S k) s' \<Longrightarrow> (\<And>k'. k' \<noteq> k \<Longrightarrow> \<not> waits (S k') t) \<Longrightarrow> server_step step waits S (S(k := s'))"

definition waits_at :: "msys \<Rightarrow> thread_id \<Rightarrow> bool" where
  "waits_at s t \<longleftrightarrow> pcs s t \<noteq> Running"

definition inside :: "msys \<Rightarrow> thread_id \<Rightarrow> bool" where
  "inside s t \<longleftrightarrow> 0 < depth s t"

abbreviation server_run :: "(mon_key \<Rightarrow> msys) \<Rightarrow> (mon_key \<Rightarrow> msys) \<Rightarrow> bool" where
  "server_run \<equiv> (server_step mstep waits_at)\<^sup>*\<^sup>*"

text \<open>
  What the guards rely on: an invariant of the monitor under which one thread is inside.
\<close>

locale exclusive =
  fixes step :: "thread_id \<Rightarrow> 's \<Rightarrow> 's \<Rightarrow> bool"
    and holds :: "'s \<Rightarrow> thread_id \<Rightarrow> bool"
    and sound :: "'s \<Rightarrow> bool"
  assumes step_sound: "step t s s' \<Longrightarrow> sound s \<Longrightarrow> sound s'"
    and sound_exclusive: "sound s \<Longrightarrow> holds s t \<Longrightarrow> holds s u \<Longrightarrow> t = u"
begin

lemma server_step_sound: "server_step step waits S S' \<Longrightarrow> \<forall>k. sound (S k) \<Longrightarrow> \<forall>k. sound (S' k)"
  by (auto elim!: server_step.cases dest: step_sound)

lemma server_steps_sound: "(server_step step waits)\<^sup>*\<^sup>* S S' \<Longrightarrow> \<forall>k. sound (S k) \<Longrightarrow> \<forall>k. sound (S' k)"
proof (induction rule: rtranclp_induct)
  case (step S' S'')
  then show ?case using server_step_sound [OF step.hyps(2)] by simp
qed simp

lemma one_inside:
  assumes "(server_step step waits)\<^sup>*\<^sup>* S S'" "\<forall>k. sound (S k)" "holds (S' k) t" "holds (S' k) u"
  shows "t = u"
  using server_steps_sound [OF assms(1,2)] sound_exclusive [OF _ assms(3,4)] by simp

end

lemma mon_inv_exclusive: "mon_inv s \<Longrightarrow> inside s t \<Longrightarrow> inside s u \<Longrightarrow> t = u"
  by (cases "locking_thread (mon s)") (auto simp: mon_inv_def inside_def, (metis less_irrefl)+)

interpretation tm: exclusive mstep inside mon_inv
  using mstep_inv mon_inv_exclusive by unfold_locales auto

text \<open>
  (C6) Two threads that are inside the guards of requests are the same thread if the guards are for
  the same device, or for devices of one class when the server serialises by class, or for any
  devices when it serialises by process. Without synchronisation this holds for the forced guards
  and those of \<open>NoSyncModelTangoMonitor\<close>.
\<close>

theorem requests_serialised:
  assumes "server_run (\<lambda>k. msys_new (names k)) S"
    and "AutoTangoMonitor_dev ser class_of d force = Some k" "inside (S k) t"
    and "AutoTangoMonitor_dev ser class_of d' force' = Some k' \<or> (d' = d \<and> NoSyncModelTangoMonitor ser d' = Some k')" "inside (S k') u"
    and "d = d' \<or> (ser = BY_CLASS \<and> class_of d = class_of d') \<or> ser = BY_PROCESS"
  shows "t = u"
proof -
  have "k' = k"
    using assms(2,4,6) by (auto simp: AutoTangoMonitor_dev_def NoSyncModelTangoMonitor_def split: SerialModel.splits if_splits)
  then show ?thesis
    using tm.one_inside [OF assms(1) _ assms(3)] assms(5) mon_inv_new by simp
qed

text \<open>
  A thread at depth one is inside after one call, and a second thread then waits.
\<close>

lemma first_enter:
  "mstep t (msys_new na) ((msys_new na)\<lparr>mon := (TangoMonitor_new na)\<lparr>locking_thread := Some t, locked_ctr := 1\<rparr>,
     depth := (\<lambda>_. 0)(t := 1)\<rparr>)"
  using mstep.enter [of "msys_new na" t "(TangoMonitor_new na)\<lparr>locking_thread := Some t, locked_ctr := 1\<rparr>"]
  by (simp add: msys_new_def get_monitor_def TangoMonitor_new_def)

theorem requests_serialised_witness:
  "\<exists>S. server_run (\<lambda>k. msys_new ''m'') S \<and> {u. inside (S (Class_mon 0)) u} = {7}"
proof -
  let ?s = "(msys_new ''m'')\<lparr>mon := (TangoMonitor_new ''m'')\<lparr>locking_thread := Some 7, locked_ctr := 1\<rparr>, depth := (\<lambda>_. 0)(7 := 1)\<rparr>"
  let ?S = "(\<lambda>k. msys_new ''m'')(Class_mon 0 := ?s)"
  have run: "server_run (\<lambda>k. msys_new ''m'') ?S"
    by (rule r_into_rtranclp, rule server_step.intros [where k = "Class_mon 0" and t = 7])
      (use first_enter [of 7 "''m''"] in \<open>simp_all add: waits_at_def msys_new_def\<close>)
  have "inside (?S (Class_mon 0)) 7" by (simp add: inside_def)
  moreover have "7 = u" if "inside (?S (Class_mon 0)) u" for u
    using requests_serialised [OF run, of BY_CLASS "\<lambda>_. 0" 1 False "Class_mon 0" 7 2 False "Class_mon 0" u] that calculation
    by (simp add: AutoTangoMonitor_dev_def)
  ultimately show ?thesis
    using run by blast
qed

theorem free_monitor_is_taken_witness:
  "\<exists>s. mreach ''m'' s \<and> pcs s 2 = Sleeping \<and> locked_ctr (mon s) = 0 \<and>
    (\<exists>u s'. pcs s u = Woken \<and> mstep u s s' \<and> locking_thread (mon s') = Some u \<and> depth s' u = 1)"
proof -
  let ?m = "(TangoMonitor_new ''m'')\<lparr>locking_thread := Some 1, locked_ctr := 1\<rparr>"
  let ?a = "(msys_new ''m'')\<lparr>mon := ?m, depth := (\<lambda>_. 0)(1 := 1)\<rparr>"
  let ?b = "?a\<lparr>pcs := (\<lambda>_. Running)(2 := Sleeping)\<rparr>"
  let ?c = "?b\<lparr>pcs := (\<lambda>_. Running)(2 := Sleeping, 3 := Sleeping)\<rparr>"
  let ?d = "?c\<lparr>mon := TangoMonitor_new ''m'', pcs := (\<lambda>_. Running)(2 := Sleeping, 3 := Woken), depth := (\<lambda>_. 0)(1 := 0)\<rparr>"
  have "mreach ''m'' ?a"
    by (rule mreach.step [OF mreach.start first_enter])
  moreover have "mstep 2 ?a ?b"
    using mstep.enter_wait [of ?a 2] by (simp add: msys_new_def get_monitor_def get_resume_def TangoMonitor_new_def)
  moreover have "mstep 3 ?b ?c"
    using mstep.enter_wait [of ?b 3] by (simp add: msys_new_def get_monitor_def get_resume_def TangoMonitor_new_def)
  moreover have "mstep 1 ?c ?d"
    using mstep.leave_signal [of ?c 1 "TangoMonitor_new ''m''" 3]
    by (simp add: msys_new_def rel_monitor_def TangoMonitor_new_def Let_def)
  ultimately have r: "mreach ''m'' ?d"
    using mreach.step by blast
  from free_monitor_is_taken [OF r, of 2] show ?thesis
    using r by (force simp: TangoMonitor_new_def)
qed

end
