(* ===== verification/Access_Control.thy ===== *)
theory Access_Control
  imports Tango_Prelude
begin

text \<open>
  The controlled access of a client (\<open>client/accessproxy.cpp\<close>, \<open>client/dbapi_base.cpp\<close>,
  \<open>client/devapi_base.cpp\<close>): the rights of the user on a device, as the access control service
  gives them, and the commands that are allowed without the right to write.
\<close>

section \<open>Data\<close>

datatype AccessControlType = ACCESS_READ | ACCESS_WRITE

record AccessProxy =
  ap_name :: string
  user :: string
  host_ips :: "string list"
  forced :: bool
  allowed_cmd_table :: "string \<Rightarrow> string list option"

text \<open>
  What the access control depends on: the environment variables, the name of the user, the
  addresses of the host, the commands of the service and the requests to the database.
\<close>

record 'w acc_env =
  ae_getenv :: "string \<Rightarrow> string option"
  ae_user :: "string option"
  ae_ips :: "exn + string list"
  ae_open :: "string \<Rightarrow> 'w \<Rightarrow> (exn + unit) \<times> 'w"
  ae_ping :: "string \<Rightarrow> 'w \<Rightarrow> (exn + unit) \<times> 'w"
  ae_rights :: "string \<Rightarrow> string \<Rightarrow> string list \<Rightarrow> 'w \<Rightarrow> (exn + string) \<times> 'w"
  ae_allowed :: "string \<Rightarrow> string \<Rightarrow> 'w \<Rightarrow> (exn + string list) \<times> 'w"
  ae_services :: "'w \<Rightarrow> (exn + string list) \<times> 'w"
  ae_class :: "string \<Rightarrow> 'w \<Rightarrow> (exn + string) \<times> 'w"

definition of_sum :: "exn + 'a \<Rightarrow> 'a result" where
  "of_sum x = (case x of Inl e \<Rightarrow> Throw e | Inr v \<Rightarrow> Ok v)"

text \<open>
  The errors of a \<open>DevFailed\<close>, \<open>None\<close> for another exception; the first error of an empty list is
  undefined.
\<close>

fun error_list :: "exn \<Rightarrow> DevError list option" where
  "error_list (DevFailed r d) = Some [\<lparr>err_reason = r, err_desc = d, err_origin = [], err_severity = ERR\<rparr>]"
| "error_list (EventSystemFailed r d) = Some [\<lparr>err_reason = r, err_desc = d, err_origin = [], err_severity = ERR\<rparr>]"
| "error_list (DevFailed_stack es) = Some es"
| "error_list _ = None"


section \<open>The proxy of the access control service\<close>

definition AccessProxy_new :: "'w acc_env \<Rightarrow> string \<Rightarrow> 'w \<Rightarrow> AccessProxy result \<times> 'w" where
  "AccessProxy_new E n w =
    (let f = (case ae_getenv E ''SUPER_TANGO'' of Some v \<Rightarrow> lower v = ''true'' | None \<Rightarrow> False);
         a = \<lparr>ap_name = n, user = [], host_ips = [], forced = f, allowed_cmd_table = (\<lambda>_. None)\<rparr>
     in case ae_open E n w of
          (Inl x, w') \<Rightarrow> (Throw x, w')
        | (Inr _, w') \<Rightarrow>
            if f then (Ok a, w')
            else (case ae_ping E n w' of (Inl x, w'') \<Rightarrow> (Throw x, w'') | (Inr _, w'') \<Rightarrow> (Ok a, w'')))"

text \<open>
  The name of the user, taken once; \<open>None\<close> when it cannot be had.
\<close>

definition get_user :: "'w acc_env \<Rightarrow> AccessProxy \<Rightarrow> AccessProxy option" where
  "get_user E a =
    (if user a \<noteq> [] then Some a
     else case ae_user E of None \<Rightarrow> None | Some u \<Rightarrow> Some (a\<lparr>user := lower u\<rparr>))"

definition usable_ip :: "string \<Rightarrow> bool" where
  "usable_ip ip \<longleftrightarrow> \<not> prefix_at ''127.'' ip \<and> CHR '':'' \<notin> set ip"

definition get_ips :: "'w acc_env \<Rightarrow> AccessProxy \<Rightarrow> AccessProxy option result" where
  "get_ips E a =
    (if host_ips a \<noteq> [] then Ok (Some a)
     else case ae_ips E of
         Inl x \<Rightarrow> if error_list x = None then Throw x else Ok None
       | Inr adrs \<Rightarrow>
           let ips = filter usable_ip adrs; at_least_one = (if adrs = [] then [] else hd adrs)
           in Ok (Some (a\<lparr>host_ips := if ips = [] then [at_least_one] else ips\<rparr>)))"

text \<open>
  One round of the loop: with all addresses, or with the first one by the older command.
\<close>

definition access_request :: "bool \<Rightarrow> string \<Rightarrow> AccessProxy \<Rightarrow> string \<times> string list" where
  "access_request multi_ip dev a =
    (if multi_ip then (''GetAccessForMultiIp'', user a # dev # host_ips a)
     else (''GetAccess'', [user a, hd (host_ips a), dev]))"

definition access_round ::
    "'w acc_env \<Rightarrow> bool \<Rightarrow> string \<Rightarrow> AccessProxy \<Rightarrow> 'w \<Rightarrow> AccessControlType result \<times> AccessProxy \<times> 'w" where
  "access_round E multi_ip dev a w =
    (case get_user E a of
       None \<Rightarrow> (Ok ACCESS_READ, a, w)
     | Some a' \<Rightarrow> (case get_ips E a' of
         Throw x \<Rightarrow> (Throw x, a', w)
       | Undef \<Rightarrow> (Undef, a', w)
       | Ok None \<Rightarrow> (Ok ACCESS_READ, a', w)
       | Ok (Some a'') \<Rightarrow> (case access_request multi_ip dev a'' of
           (cmd, args) \<Rightarrow> (case ae_rights E (ap_name a'') cmd args w of
             (Inl x, w') \<Rightarrow> (Throw x, a'', w')
           | (Inr right, w') \<Rightarrow> (Ok (if right = ''write'' then ACCESS_WRITE else ACCESS_READ), a'', w')))))"

text \<open>
  The handler of a round: the next round after an unknown command, and another error when the
  service is not exported.
\<close>

definition access_handler :: "exn \<Rightarrow> bool result" where
  "access_handler x =
    (case error_list x of
       None \<Rightarrow> Throw x
     | Some [] \<Rightarrow> Undef
     | Some (e # es) \<Rightarrow>
         if err_reason e = ''API_CommandNotFound'' then Ok True
         else if err_reason e = ''API_DeviceNotExported'' then
           Throw (DevFailed_stack (e # es @ [\<lparr>err_reason = ''API_CannotCheckAccessControl'',
             err_desc = ''Cannot import Access Control device !'', err_origin = [], err_severity = ERR\<rparr>]))
         else Throw x)"

definition ap_check_access_control ::
    "'w acc_env \<Rightarrow> string \<Rightarrow> AccessProxy \<Rightarrow> 'w \<Rightarrow> AccessControlType result \<times> AccessProxy \<times> 'w" where
  "ap_check_access_control E dev a w =
    (if forced a then (Ok ACCESS_WRITE, a, w)
     else case access_round E True dev a w of
         (Throw x, a', w') \<Rightarrow>
           (case access_handler x of
              Ok _ \<Rightarrow> (case access_round E False dev a' w' of
                (Throw y, a'', w'') \<Rightarrow> (rbind (access_handler y) (\<lambda>_. Ok ACCESS_READ), a'', w'')
              | r \<Rightarrow> r)
            | Throw y \<Rightarrow> (Throw y, a', w')
            | Undef \<Rightarrow> (Undef, a', w'))
       | r \<Rightarrow> r)"

text \<open>
  The commands that a class allows, asked for once and kept; none when the request fails.
\<close>

definition get_allowed_commands :: "'w acc_env \<Rightarrow> string \<Rightarrow> AccessProxy \<Rightarrow> 'w \<Rightarrow> string list result \<times> AccessProxy \<times> 'w" where
  "get_allowed_commands E cl a w =
    (case ae_allowed E (ap_name a) cl w of
       (Inr l, w') \<Rightarrow> (Ok l, a\<lparr>allowed_cmd_table := (allowed_cmd_table a)(cl \<mapsto> l)\<rparr>, w')
     | (Inl x, w') \<Rightarrow>
         if error_list x = None then (Throw x, a, w')
         else (Ok [], a\<lparr>allowed_cmd_table := (allowed_cmd_table a)(cl \<mapsto> [])\<rparr>, w'))"

definition ap_is_command_allowed :: "'w acc_env \<Rightarrow> string \<Rightarrow> string \<Rightarrow> AccessProxy \<Rightarrow> 'w \<Rightarrow> bool result \<times> AccessProxy \<times> 'w" where
  "ap_is_command_allowed E cl cmd a w =
    (case (case allowed_cmd_table a cl of Some l \<Rightarrow> (Ok l, a, w) | None \<Rightarrow> get_allowed_commands E cl a w) of
       (r, a', w') \<Rightarrow> (rbind r (\<lambda>allowed. Ok (list_ex (\<lambda>c. lower c = lower cmd) allowed)), a', w'))"


section \<open>The database\<close>

record acc_db =
  db_device_name :: string
  db_fqdn :: "(string \<times> string) option"
  check_acc :: bool
  access_checked :: bool
  db_access :: AccessControlType
  access_proxy :: "AccessProxy option"
  access_service_defined :: bool
  access_except_errors :: "DevError list"

text \<open>
  The host and the port are added to the name of the service if the database was not taken from
  the environment variable and the name has two slashes.
\<close>

definition access_devname :: "acc_db \<Rightarrow> string \<Rightarrow> string" where
  "access_devname db n =
    (case db_fqdn db of
       Some (host, port) \<Rightarrow> if length (filter (\<lambda>c. c = CHR ''/'') n) = 2 then ''tango://'' @ host @ '':'' @ port @ ''/'' @ n else n
     | None \<Rightarrow> n)"

text \<open>
  The proxy of the service, made on the first request: \<open>None\<close> when no service is defined.
\<close>

definition open_service :: "'w acc_env \<Rightarrow> string \<Rightarrow> acc_db \<Rightarrow> 'w \<Rightarrow> bool result \<times> acc_db \<times> 'w" where
  "open_service E n db w =
    (case AccessProxy_new E (access_devname db n) w of
       (Ok a, w') \<Rightarrow> (Ok True, db\<lparr>access_proxy := Some a\<rparr>, w')
     | (Throw x, w') \<Rightarrow> (Throw x, db, w')
     | (Undef, w') \<Rightarrow> (Undef, db, w'))"

definition find_service :: "'w acc_env \<Rightarrow> acc_db \<Rightarrow> 'w \<Rightarrow> bool result \<times> acc_db \<times> 'w" where
  "find_service E db w =
    (if access_checked db \<or> access_proxy db \<noteq> None then (Ok True, db, w)
     else case ae_getenv E ''ACCESS_DEVNAME'' of
         Some n \<Rightarrow> open_service E n db w
       | None \<Rightarrow> (case ae_services E w of
           (Inl x, w') \<Rightarrow> (Throw x, db, w')
         | (Inr [], w') \<Rightarrow> (Ok False, db\<lparr>db_access := ACCESS_WRITE\<rparr>, w')
         | (Inr (n # ns), w') \<Rightarrow> open_service E n (db\<lparr>access_service_defined := True\<rparr>) w'))"

definition ask_service :: "'w acc_env \<Rightarrow> string \<Rightarrow> acc_db \<Rightarrow> 'w \<Rightarrow> AccessControlType result \<times> acc_db \<times> 'w" where
  "ask_service E dev db w =
    (case access_proxy db of
       Some a \<Rightarrow> (case ap_check_access_control E dev a w of
         (Ok r, a', w') \<Rightarrow> (Ok r, db\<lparr>access_proxy := Some a', access_except_errors := []\<rparr>, w')
       | (r, a', w') \<Rightarrow> (r, db\<lparr>access_proxy := Some a'\<rparr>, w'))
     | None \<Rightarrow> (Ok (if access_service_defined db then ACCESS_READ else ACCESS_WRITE), db\<lparr>access_except_errors := []\<rparr>, w))"

text \<open>
  The description of the first error is extended when the service is defined and not reachable.
\<close>

definition access_failed :: "exn \<Rightarrow> acc_db \<Rightarrow> AccessControlType result \<times> acc_db" where
  "access_failed x db =
    (case error_list x of
       None \<Rightarrow> (Throw x, db)
     | Some [] \<Rightarrow> (Undef, db)
     | Some (e # es) \<Rightarrow>
         let e' = (if err_reason e = ''API_DeviceNotExported'' \<or> err_reason e = ''DB_DeviceNotDefined''
                   then e\<lparr>err_desc := err_desc e @ [CHR 0x0A] @
                     ''Controlled access service defined in Db but unreachable --> Read access given to all devices...''\<rparr>
                   else e)
         in (Ok ACCESS_READ, db\<lparr>access_except_errors := e' # es\<rparr>))"

definition check_access_control :: "'w acc_env \<Rightarrow> string \<Rightarrow> acc_db \<Rightarrow> 'w \<Rightarrow> AccessControlType result \<times> acc_db \<times> 'w" where
  "check_access_control E dev db w =
    (if access_checked db \<and> dev = db_device_name db then (Ok (db_access db), db, w)
     else case find_service E db w of
         (Ok False, db', w') \<Rightarrow> (Ok ACCESS_WRITE, db', w')
       | (Ok True, db', w') \<Rightarrow> (case ask_service E dev db' w' of
           (Throw x, db'', w'') \<Rightarrow> (case access_failed x db'' of (r, db3) \<Rightarrow> (r, db3, w''))
         | r \<Rightarrow> r)
       | (Throw x, db', w') \<Rightarrow> (case access_failed x db' of (r, db'') \<Rightarrow> (r, db'', w'))
       | (Undef, db', w') \<Rightarrow> (Undef, db', w'))"

definition check_access :: "'w acc_env \<Rightarrow> acc_db \<Rightarrow> 'w \<Rightarrow> unit result \<times> acc_db \<times> 'w" where
  "check_access E db w =
    (if check_acc db \<and> \<not> access_checked db then
       (case check_access_control E (db_device_name db) db w of
          (Ok r, db', w') \<Rightarrow> (Ok (), db'\<lparr>db_access := r, access_checked := True\<rparr>, w')
        | (Throw x, db', w') \<Rightarrow> (Throw x, db', w')
        | (Undef, db', w') \<Rightarrow> (Undef, db', w'))
     else (Ok (), db, w))"

text \<open>
  The allowed commands of the class of a device; the database itself has the class \<open>Database\<close>.
\<close>

definition class_allows :: "'w acc_env \<Rightarrow> string \<Rightarrow> string \<Rightarrow> acc_db \<Rightarrow> 'w \<Rightarrow> bool result \<times> acc_db \<times> 'w" where
  "class_allows E cl cmd db w =
    (case access_proxy db of
       None \<Rightarrow> (Undef, db, w)
     | Some a \<Rightarrow> (case ap_is_command_allowed E cl cmd a w of (r, a', w') \<Rightarrow> (r, db\<lparr>access_proxy := Some a'\<rparr>, w')))"

definition allowed_by_class :: "'w acc_env \<Rightarrow> string \<Rightarrow> string \<Rightarrow> acc_db \<Rightarrow> 'w \<Rightarrow> bool result \<times> acc_db \<times> 'w" where
  "allowed_by_class E dev cmd db w =
    (if dev = db_device_name db then
       (if db_access db = ACCESS_READ then class_allows E ''Database'' cmd db w else (Ok True, db, w))
     else case ae_class E dev w of
         (Inl x, w') \<Rightarrow> (Throw x, db, w')
       | (Inr cl, w') \<Rightarrow> class_allows E cl cmd db w')"

definition db_is_command_allowed :: "'w acc_env \<Rightarrow> string \<Rightarrow> string \<Rightarrow> acc_db \<Rightarrow> 'w \<Rightarrow> bool result \<times> acc_db \<times> 'w" where
  "db_is_command_allowed E dev cmd db w =
    (if access_proxy db \<noteq> None then allowed_by_class E dev cmd db w
     else case check_access_control E dev db w of
         (Ok acc, db', w') \<Rightarrow>
           if access_proxy db' = None then (Ok (acc \<noteq> ACCESS_READ), db', w')
           else allowed_by_class E dev cmd (db'\<lparr>db_access := acc, access_except_errors := []\<rparr>) w'
       | (Throw x, db', w') \<Rightarrow> (Throw x, db', w')
       | (Undef, db', w') \<Rightarrow> (Undef, db', w'))"


section \<open>The calls of a client\<close>

text \<open>
  What a proxy with the given right checks before it sends a command or writes attributes. A
  call that is refused first looks whether the device is alive.
\<close>

definition refuse :: "'w acc_env \<Rightarrow> string \<Rightarrow> string \<Rightarrow> 'w \<Rightarrow> unit result \<times> 'w" where
  "refuse E dev desc w =
    (case ae_ping E dev w of
       (Inl x, w') \<Rightarrow> (Throw x, w')
     | (Inr _, w') \<Rightarrow> (Throw (DevFailed ''API_ReadOnlyMode'' desc), w'))"

text \<open>
  The stream ends the text with a null character before it adds the description of the error,
  and the exception takes the text up to the first one.
\<close>

definition refused_text :: "string \<Rightarrow> string \<Rightarrow> DevError list \<Rightarrow> string" where
  "refused_text dev cmd es = takeWhile (\<lambda>c. c \<noteq> NUL)
    (''Command '' @ cmd @ '' on device '' @ dev @ '' is not authorized'' @
     (case es of [] \<Rightarrow> [NUL]
      | e # _ \<Rightarrow> '' because an error occurs while talking to the Controlled Access Service'' @ [NUL] @
          (if find_str ''defined'' (err_desc e) \<noteq> None then [CHR 0x0A] @ err_desc e else []) @ [NUL]))"

definition command_access ::
    "'w acc_env \<Rightarrow> AccessControlType \<Rightarrow> string \<Rightarrow> string \<Rightarrow> acc_db \<Rightarrow> 'w \<Rightarrow> unit result \<times> acc_db \<times> 'w" where
  "command_access E act dev cmd db w =
    (if act = ACCESS_WRITE then (Ok (), db, w)
     else case db_is_command_allowed E dev cmd db w of
         (Ok True, db', w') \<Rightarrow> (Ok (), db', w')
       | (Ok False, db', w') \<Rightarrow>
           (case refuse E dev (refused_text dev cmd (access_except_errors db')) w' of (r, w'') \<Rightarrow> (r, db', w''))
       | (Throw x, db', w') \<Rightarrow> (Throw x, db', w')
       | (Undef, db', w') \<Rightarrow> (Undef, db', w'))"

definition write_access :: "'w acc_env \<Rightarrow> AccessControlType \<Rightarrow> string \<Rightarrow> 'w \<Rightarrow> unit result \<times> 'w" where
  "write_access E act dev w =
    (if act = ACCESS_READ then refuse E dev (''Writing attribute(s) on device '' @ dev @ '' is not authorized'') w
     else (Ok (), w))"

section \<open>Who may write\<close>

text \<open>
  The service answered that the user may write, for the device and the addresses of the host.
\<close>

definition granted :: "'w acc_env \<Rightarrow> string \<Rightarrow> AccessProxy \<Rightarrow> bool" where
  "granted E dev a \<longleftrightarrow> (\<exists>multi_ip w w'. ae_rights E (ap_name a) (fst (access_request multi_ip dev a)) (snd (access_request multi_ip dev a)) w = (Inr ''write'', w'))"

definition super_tango :: "'w acc_env \<Rightarrow> bool" where
  "super_tango E \<longleftrightarrow> (\<exists>v. ae_getenv E ''SUPER_TANGO'' = Some v \<and> lower v = ''true'')"

definition user_known :: "'w acc_env \<Rightarrow> AccessProxy \<Rightarrow> bool" where
  "user_known E a \<longleftrightarrow> user a = [] \<or> (\<exists>u. ae_user E = Some u \<and> user a = lower u)"

definition user_is :: "'w acc_env \<Rightarrow> AccessProxy \<Rightarrow> bool" where
  "user_is E a \<longleftrightarrow> (\<exists>u. ae_user E = Some u \<and> user a = lower u)"

lemma get_user_is: "get_user E a = Some a' \<Longrightarrow> user_known E a \<Longrightarrow> user_is E a'"
  by (auto simp: get_user_def user_known_def user_is_def split: if_splits option.splits)

lemma get_ips_user: "get_ips E a = Ok (Some a') \<Longrightarrow> user a' = user a"
  by (auto simp: get_ips_def Let_def split: if_splits sum.splits)

lemma round_user: "access_round E m dev a w = (r, a', w') \<Longrightarrow> user_known E a \<Longrightarrow> user_known E a'"
  using get_user_is [of E a] get_ips_user [of E]
  by (auto simp: access_round_def user_known_def user_is_def split: option.splits result.splits prod.splits sum.splits)

lemma round_write:
  assumes "access_round E m dev a w = (Ok ACCESS_WRITE, a', w')" "user_known E a"
  shows "granted E dev a' \<and> user_is E a'"
  using assms get_user_is [OF _ assms(2)] get_ips_user [of E]
  by (auto simp: access_round_def granted_def user_is_def split: option.splits result.splits prod.splits sum.splits if_splits)
    (metis fst_conv snd_conv)+

lemma ap_write:
  assumes "ap_check_access_control E dev a w = (Ok ACCESS_WRITE, a', w')" "user_known E a" "\<not> forced a"
  shows "granted E dev a' \<and> user_is E a'"
proof -
  obtain r1 a1 w1 where r1: "access_round E True dev a w = (r1, a1, w1)" by (cases "access_round E True dev a w")
  show ?thesis
  proof (cases r1)
    case (Ok x1)
    then show ?thesis using assms r1 round_write [of E True dev a w a' w'] by (simp add: ap_check_access_control_def)
  next
    case (Throw x)
    obtain r2 a2 w2 where r2: "access_round E False dev a1 w1 = (r2, a2, w2)" by (cases "access_round E False dev a1 w1")
    have "r2 = Ok ACCESS_WRITE" "a2 = a'" "w2 = w'"
      using assms(1,3) r1 r2 Throw by (auto simp: ap_check_access_control_def rbind_eq_Ok split: result.splits)
    then show ?thesis
      using round_write [of E False dev a1 w1] r2 round_user [OF r1 assms(2)] by simp
  next
    case Undef
    then show ?thesis using assms r1 by (simp add: ap_check_access_control_def)
  qed
qed

lemma AccessProxy_new_fresh: "AccessProxy_new E n w = (Ok a, w') \<Longrightarrow> user_known E a \<and> (forced a \<longrightarrow> super_tango E)"
  by (auto simp: AccessProxy_new_def Let_def user_known_def super_tango_def split: prod.splits sum.splits if_splits option.splits)

lemma open_service_fresh:
  "open_service E n db w = (Ok b, db', w') \<Longrightarrow> b \<and> (\<exists>a. access_proxy db' = Some a \<and> user_known E a \<and> (forced a \<longrightarrow> super_tango E))"
  using AccessProxy_new_fresh [of E "access_devname db n" w] by (auto simp: open_service_def split: prod.splits result.splits)


definition ex_acc :: "nat acc_env" where
  "ex_acc = \<lparr>ae_getenv = (\<lambda>_. None), ae_user = Some ''Ann'', ae_ips = Inr [''127.0.0.1'', ''10.0.0.5''],
     ae_open = (\<lambda>n w. (Inr (), w)), ae_ping = (\<lambda>n w. (Inr (), w)),
     ae_rights = (\<lambda>s c args w. (if c = ''GetAccess'' then Inr (if hd args = ''ann'' then ''write'' else ''read'') else Inl (DevFailed ''API_CommandNotFound'' []), Suc w)),
     ae_allowed = (\<lambda>s cl w. (Inr [''State'', ''Status''], w)), ae_services = (\<lambda>w. (Inr [''sys/access/1''], w)), ae_class = (\<lambda>d w. (Inr ''Motor'', w))\<rparr>"

definition ex_acc_db :: acc_db where
  "ex_acc_db = \<lparr>db_device_name = ''sys/database/2'', db_fqdn = None, check_acc = True, access_checked = False, db_access = ACCESS_READ,
     access_proxy = None, access_service_defined = False, access_except_errors = []\<rparr>"


text \<open>
  A service that is named by the environment variable and cannot be reached: the first device
  is read-only, but once the access to the database was checked every other device may be
  written.
\<close>

theorem unreachable_service_grants_write:
  assumes "ae_getenv E ''ACCESS_DEVNAME'' = Some n" "\<And>m v. ae_open E m v = (Inl (DevFailed r d), v)"
    and "check_acc db" "\<not> access_checked db" "access_proxy db = None" "\<not> access_service_defined db"
    and "dev \<noteq> db_device_name db"
  shows "fst (check_access_control E dev db w) = Ok ACCESS_READ \<and>
    (\<exists>db' w'. check_access E db w = (Ok (), db', w') \<and> db_access db' = ACCESS_READ \<and> fst (check_access_control E dev db' w') = Ok ACCESS_WRITE)"
proof -
  have "open_service E n db w = (Throw (DevFailed r d), db, w)"
    using assms(2) by (simp add: open_service_def AccessProxy_new_def Let_def)
  then have "find_service E db w = (Throw (DevFailed r d), db, w)"
    using assms(1,4,5) by (simp add: find_service_def)
  then show ?thesis
    using assms(3-) by (auto simp: check_access_control_def check_access_def access_failed_def Let_def find_service_def ask_service_def)
qed

theorem unreachable_service_grants_write_witness:
  "\<exists>db' w'. check_access (ex_acc\<lparr>ae_getenv := (\<lambda>v. if v = ''ACCESS_DEVNAME'' then Some ''sys/access/1'' else None),
      ae_open := (\<lambda>m v. (Inl (DevFailed ''API_DeviceNotExported'' []), v))\<rparr>) ex_acc_db 0 = (Ok (), db', w') \<and>
    db_access db' = ACCESS_READ \<and>
    fst (check_access_control (ex_acc\<lparr>ae_getenv := (\<lambda>v. if v = ''ACCESS_DEVNAME'' then Some ''sys/access/1'' else None),
      ae_open := (\<lambda>m v. (Inl (DevFailed ''API_DeviceNotExported'' []), v))\<rparr>) ''a/b/c'' db' w') = Ok ACCESS_WRITE"
  using unreachable_service_grants_write [of "ex_acc\<lparr>ae_getenv := (\<lambda>v. if v = ''ACCESS_DEVNAME'' then Some ''sys/access/1'' else None),
      ae_open := (\<lambda>m v. (Inl (DevFailed ''API_DeviceNotExported'' []), v))\<rparr>" "''sys/access/1''" "''API_DeviceNotExported''" "[]" ex_acc_db "''a/b/c''" 0]
  by (simp add: ex_acc_db_def)


section \<open>Commands without the right to write\<close>



text \<open>
  The failure of one request for the allowed commands is kept: the commands of the class are
  refused from then on, whatever the service answers later.
\<close>

theorem failed_request_kept:
  assumes "allowed_cmd_table a cl = None" "ae_allowed E (ap_name a) cl w = (Inl (DevFailed r d), w')"
  shows "\<exists>a'. ap_is_command_allowed E cl cmd a w = (Ok False, a', w') \<and>
    ap_is_command_allowed E' cl cmd' a' w2 = (Ok False, a', w2)"
  using assms by (simp add: ap_is_command_allowed_def get_allowed_commands_def)

end
