(* ===== verification/Std_Order.thy ===== *)
theory Std_Order
  imports Tango_Prelude
begin

text \<open>
  The order of \<open>std::string\<close>, that of the keys of a \<open>std::map\<close> and of sorted names, and the
  sorting of a vector by the names of its elements.
\<close>

section \<open>Strings\<close>

text \<open>
  Characters are compared as unsigned numbers.
\<close>

fun str_less :: "string \<Rightarrow> string \<Rightarrow> bool" where
  "str_less [] [] = False"
| "str_less [] (y # ys) = True"
| "str_less (x # xs) [] = False"
| "str_less (x # xs) (y # ys) = (if x = y then str_less xs ys else (of_char x :: nat) < of_char y)"

lemma str_less_irrefl [simp]: "\<not> str_less x x"
  by (induction x) auto

lemma str_less_trans: "str_less x y \<Longrightarrow> str_less y z \<Longrightarrow> str_less x z"
proof (induction x z arbitrary: y rule: str_less.induct)
  case (2 z zs)
  then show ?case by simp
next
  case (4 x xs z zs)
  then show ?case by (cases y) (auto split: if_splits)
qed (auto elim: str_less.elims)

lemma str_less_linear: "x \<noteq> y \<Longrightarrow> \<not> str_less x y \<Longrightarrow> str_less y x"
proof (induction x y rule: str_less.induct)
  case (4 x xs y ys)
  have "of_char x < (of_char y :: nat) \<or> of_char y < (of_char x :: nat)" if "x \<noteq> y"
    using that nat_neq_iff [of "of_char x" "of_char y"] by simp
  then show ?case using 4 by (auto split: if_splits)
qed auto


section \<open>Sorting by name\<close>

text \<open>
  \<open>std::sort\<close> on elements that are compared by their names; the order of elements of the same
  name is not determined by the standard, and the lemmas below are for distinct names.
\<close>

fun insert_by :: "('a \<Rightarrow> string) \<Rightarrow> 'a \<Rightarrow> 'a list \<Rightarrow> 'a list" where
  "insert_by nm x [] = [x]"
| "insert_by nm x (y # ys) = (if str_less (nm y) (nm x) then y # insert_by nm x ys else x # y # ys)"

fun sort_by :: "('a \<Rightarrow> string) \<Rightarrow> 'a list \<Rightarrow> 'a list" where
  "sort_by nm [] = []"
| "sort_by nm (x # xs) = insert_by nm x (sort_by nm xs)"

lemma set_insert_by [simp]: "set (insert_by nm x ys) = insert x (set ys)"
  by (induction nm x ys rule: insert_by.induct) auto

lemma set_sort_by [simp]: "set (sort_by nm xs) = set xs"
  by (induction xs) auto

lemma sorted_insert_by:
  "sorted_wrt (\<lambda>a b. str_less (nm a) (nm b)) ys \<Longrightarrow> nm x \<notin> nm ` set ys \<Longrightarrow>
    sorted_wrt (\<lambda>a b. str_less (nm a) (nm b)) (insert_by nm x ys)"
proof (induction nm x ys rule: insert_by.induct)
  case (2 nm x y ys)
  have less: "str_less (nm x) (nm y)" if "\<not> str_less (nm y) (nm x)"
    using that 2(3) str_less_linear [of "nm y" "nm x"] by auto
  then show ?case
    using 2 by (auto intro: str_less_trans)
qed simp

lemma sorted_sort_by: "distinct (map nm xs) \<Longrightarrow> sorted_wrt (\<lambda>a b. str_less (nm a) (nm b)) (sort_by nm xs)"
  by (induction xs) (auto intro: sorted_insert_by)

lemma sorted_by_unique:
  assumes "sorted_wrt (\<lambda>a b. str_less (nm a) (nm b)) xs" "sorted_wrt (\<lambda>a b. str_less (nm a) (nm b)) ys" "set xs = set ys"
  shows "xs = ys"
  using assms
proof (induction xs arbitrary: ys)
  case (Cons x xs)
  then obtain y ys' where ys: "ys = y # ys'" by (cases ys) auto
  have "x = y"
  proof (rule ccontr)
    assume "x \<noteq> y"
    then have "str_less (nm y) (nm x)" "str_less (nm x) (nm y)"
      using Cons.prems ys by (metis list.set_intros(1) set_ConsD sorted_wrt.simps(2))+
    then show False using str_less_trans str_less_irrefl by blast
  qed
  moreover have "x \<notin> set xs" "y \<notin> set ys'"
    using Cons.prems(1,2) ys by (auto simp: str_less_irrefl)
  ultimately have "set xs = set ys'"
    using Cons.prems(3) ys by auto
  then show ?case
    using Cons.IH [of ys'] Cons.prems(1,2) ys \<open>x = y\<close> by simp
qed simp

lemma sort_by_eq_iff:
  assumes "distinct (map nm xs)" "distinct (map nm ys)"
  shows "sort_by nm xs = sort_by nm ys \<longleftrightarrow> set xs = set ys"
  using sorted_by_unique [OF sorted_sort_by [OF assms(1)] sorted_sort_by [OF assms(2)]] by (metis set_sort_by)

lemma insert_by_map: "(\<And>x. nm' (f x) = nm x) \<Longrightarrow> map f (insert_by nm x ys) = insert_by nm' (f x) (map f ys)"
  by (induction nm x ys rule: insert_by.induct) auto

lemma sort_by_map:
  assumes "\<And>x. nm' (f x) = nm x"
  shows "map f (sort_by nm xs) = sort_by nm' (map f xs)"
  by (induction xs) (simp_all add: insert_by_map [of nm' f nm, OF assms])

end
