(* ===== verification/Sub_Devices.thy ===== *)
theory Sub_Devices
  imports Std_Order
begin

text \<open>
  The list of the sub-devices that the devices of a server use (\<open>server/subdev_diag.cpp\<close>): their
  registration, their report to clients and their storage as properties in the database.
\<close>

section \<open>Data\<close>

record SubDeviceList =
  sub_devices :: "string list"
  modified :: bool

text \<open>
  \<open>std::map\<close> keeps its keys in the order of their characters, taken as unsigned numbers.
\<close>

type_synonym sub_map = "(string \<times> SubDeviceList) list"

record SubDevDiag =
  sub_device_map :: sub_map
  sub_device_startup_map :: "string \<Rightarrow> string list"

definition SubDevDiag_new :: SubDevDiag where
  "SubDevDiag_new = \<lparr>sub_device_map = [], sub_device_startup_map = (\<lambda>_. [])\<rparr>"

fun sub_insert :: "string \<Rightarrow> SubDeviceList \<Rightarrow> sub_map \<Rightarrow> sub_map" where
  "sub_insert k l [] = [(k, l)]"
| "sub_insert k l ((k', l') # m) =
    (if k = k' then (k, l) # m else if str_less k k' then (k, l) # (k', l') # m else (k', l') # sub_insert k l m)"

definition sub_erase :: "string \<Rightarrow> sub_map \<Rightarrow> sub_map" where
  "sub_erase k m = filter (\<lambda>p. fst p \<noteq> k) m"


section \<open>Operations\<close>

text \<open>
  The device of a thread: only the threads of the library have one.
\<close>

definition set_associated_device :: "bool \<Rightarrow> string \<Rightarrow> string \<Rightarrow> string" where
  "set_associated_device library_thread dev current = (if library_thread then dev else current)"

definition get_associated_device :: "bool \<Rightarrow> string \<Rightarrow> string" where
  "get_associated_device library_thread current = (if library_thread then current else [])"

definition register_sub_device :: "string \<Rightarrow> string \<Rightarrow> SubDevDiag \<Rightarrow> SubDevDiag" where
  "register_sub_device dev sub s =
    (let k = lower dev; n = lower sub in
     case map_of (sub_device_map s) k of
       None \<Rightarrow> s\<lparr>sub_device_map := sub_insert k \<lparr>sub_devices = [n], modified = True\<rparr> (sub_device_map s)\<rparr>
     | Some l \<Rightarrow>
         if n \<in> set (sub_devices l) then s
         else s\<lparr>sub_device_map := sub_insert k \<lparr>sub_devices = sub_devices l @ [n], modified = True\<rparr> (sub_device_map s)\<rparr>)"

definition remove_sub_devices :: "string \<Rightarrow> SubDevDiag \<Rightarrow> SubDevDiag" where
  "remove_sub_devices dev s = s\<lparr>sub_device_map := sub_erase (lower dev) (sub_device_map s)\<rparr>"

definition remove_all_sub_devices :: "SubDevDiag \<Rightarrow> SubDevDiag" where
  "remove_all_sub_devices s = s\<lparr>sub_device_map := []\<rparr>"

definition get_sub_devices :: "SubDevDiag \<Rightarrow> string list" where
  "get_sub_devices s =
    concat (map (\<lambda>(k, l). map (\<lambda>n. if k = [] then n else k @ '' '' @ n) (sub_devices l)) (sub_device_map s))"

text \<open>
  The comparison with the list of the start of the server, and the storage of a list that
  differs; \<open>put\<close> writes the property of a device.
\<close>

definition as_at_startup :: "string list \<Rightarrow> string list \<Rightarrow> bool" where
  "as_at_startup l l0 \<longleftrightarrow> length l = length l0 \<and> list_all (\<lambda>n. n \<in> set l0) l"

fun is_failed :: "exn \<Rightarrow> bool" where
  "is_failed (DevFailed r d) = True"
| "is_failed (EventSystemFailed r d) = True"
| "is_failed (DevFailed_stack es) = True"
| "is_failed _ = False"

definition store_one ::
    "(string \<Rightarrow> string list \<Rightarrow> 'w \<Rightarrow> (exn + unit) \<times> 'w) \<Rightarrow> bool \<Rightarrow> string \<Rightarrow> (string \<Rightarrow> string list) \<Rightarrow> string \<Rightarrow> SubDeviceList \<Rightarrow> 'w \<Rightarrow>
      SubDeviceList result \<times> 'w" where
  "store_one put use_db adm startup k l w =
    (if \<not> modified l then (Ok l, w)
     else if as_at_startup (sub_devices l) (startup k) then (Ok (l\<lparr>modified := False\<rparr>), w)
     else if \<not> use_db then (Ok (l\<lparr>modified := False\<rparr>), w)
     else case put (if k = [] then adm else k) (sub_devices l) w of
         (Inr _, w') \<Rightarrow> (Ok (l\<lparr>modified := False\<rparr>), w')
       | (Inl x, w') \<Rightarrow> (if is_failed x then Ok l else Throw x, w'))"

fun store_all ::
    "(string \<Rightarrow> string list \<Rightarrow> 'w \<Rightarrow> (exn + unit) \<times> 'w) \<Rightarrow> bool \<Rightarrow> string \<Rightarrow> (string \<Rightarrow> string list) \<Rightarrow> sub_map \<Rightarrow> 'w \<Rightarrow>
      unit result \<times> sub_map \<times> 'w" where
  "store_all put use_db adm startup [] w = (Ok (), [], w)"
| "store_all put use_db adm startup ((k, l) # m) w =
    (case store_one put use_db adm startup k l w of
       (Ok l', w') \<Rightarrow> (case store_all put use_db adm startup m w' of (r, m', w'') \<Rightarrow> (r, (k, l') # m', w''))
     | (Throw x, w') \<Rightarrow> (Throw x, (k, l) # m, w')
     | (Undef, w') \<Rightarrow> (Undef, (k, l) # m, w'))"

definition store_sub_devices ::
    "(string \<Rightarrow> string list \<Rightarrow> 'w \<Rightarrow> (exn + unit) \<times> 'w) \<Rightarrow> bool \<Rightarrow> string \<Rightarrow> SubDevDiag \<Rightarrow> 'w \<Rightarrow> unit result \<times> SubDevDiag \<times> 'w" where
  "store_sub_devices put use_db adm s w =
    (case store_all put use_db adm (sub_device_startup_map s) (sub_device_map s) w of
       (r, m, w') \<Rightarrow> (r, s\<lparr>sub_device_map := m\<rparr>, w'))"

text \<open>
  The lists at the start of the server, from the cache of the database: the answer for a device
  has the number of values at position three and the values behind it.
\<close>

definition atol_positive :: "string \<Rightarrow> bool" where
  "atol_positive s =
    (let t = dropWhile is_blank s; u = (if t \<noteq> [] \<and> hd t = CHR ''+'' then tl t else t)
     in 0 < digits_value (takeWhile is_digit u))"

fun get_sub_devices_from_cache :: "(string \<Rightarrow> exn + string list) \<Rightarrow> string \<Rightarrow> string list \<Rightarrow> SubDevDiag \<Rightarrow> SubDevDiag result" where
  "get_sub_devices_from_cache cache adm [] s = Ok s"
| "get_sub_devices_from_cache cache adm (d # ds) s =
    (let dev = lower d; key = (if dev = lower adm then [] else dev) in
     case cache dev of
       Inl x \<Rightarrow> if is_failed x then get_sub_devices_from_cache cache adm ds s else Throw x
     | Inr vs \<Rightarrow>
         if length vs < 4 then Undef
         else if atol_positive (vs ! 3) then
           get_sub_devices_from_cache cache adm ds
             (s\<lparr>sub_device_startup_map := (sub_device_startup_map s)(key := sub_device_startup_map s key @ drop 4 vs)\<rparr>)
         else get_sub_devices_from_cache cache adm ds s)"


section \<open>The lists of the devices\<close>

text \<open>
  The keys are in order, and every device has a list without repetitions, in lower case.
\<close>

definition sub_inv :: "SubDevDiag \<Rightarrow> bool" where
  "sub_inv s \<longleftrightarrow> sorted_wrt str_less (map fst (sub_device_map s)) \<and>
    (\<forall>(k, l) \<in> set (sub_device_map s). k = lower k \<and> sub_devices l \<noteq> [] \<and> distinct (sub_devices l) \<and> list_all (\<lambda>n. n = lower n) (sub_devices l))"

lemma set_sub_insert: "set (sub_insert k l m) \<subseteq> insert (k, l) (set m)"
  by (induction k l m rule: sub_insert.induct) auto

lemma keys_sub_insert: "set (map fst (sub_insert k l m)) = insert k (fst ` set m)"
  by (induction k l m rule: sub_insert.induct) auto

lemma sorted_sub_insert: "sorted_wrt str_less (map fst m) \<Longrightarrow> sorted_wrt str_less (map fst (sub_insert k l m))"
proof (induction k l m rule: sub_insert.induct)
  case (2 k l k' l' m)
  then show ?case
    using keys_sub_insert [of k l m] by (auto intro: str_less_linear str_less_trans simp: image_iff) 
qed auto

lemma map_of_sub_insert:
  "sorted_wrt str_less (map fst m) \<Longrightarrow> map_of (sub_insert k l m) = (map_of m)(k \<mapsto> l)"
  by (induction k l m rule: sub_insert.induct) (auto simp: fun_eq_iff)

lemma lower_lower: "lower (lower n) = lower n"
  by (auto simp: tolower_def Let_def)

lemma register_inv: "sub_inv s \<Longrightarrow> sub_inv (register_sub_device dev sub s)"
proof -
  note low = lower_lower
  assume inv: "sub_inv s"
  show "sub_inv (register_sub_device dev sub s)"
  proof (cases "map_of (sub_device_map s) (lower dev)")
    case None
    then show ?thesis
      using inv set_sub_insert [of "lower dev" "\<lparr>sub_devices = [lower sub], modified = True\<rparr>" "sub_device_map s"] low
      by (fastforce simp: register_sub_device_def Let_def sub_inv_def sorted_sub_insert)
  next
    case (Some l)
    then have "(lower dev, l) \<in> set (sub_device_map s)" by (rule map_of_SomeD)
    then show ?thesis
      using inv Some set_sub_insert [of "lower dev" "\<lparr>sub_devices = sub_devices l @ [lower sub], modified = True\<rparr>" "sub_device_map s"] low
      by (fastforce simp: register_sub_device_def Let_def sub_inv_def sorted_sub_insert)
  qed
qed

text \<open>
  Lists without repetitions are compared as sets.
\<close>

lemma as_at_startup_set:
  assumes "distinct l" "as_at_startup l l0"
  shows "set l = set l0"
proof (rule card_subset_eq)
  show "set l \<subseteq> set l0" using assms(2) by (auto simp: as_at_startup_def list_all_iff)
  show "card (set l) = card (set l0)"
    using assms card_length [of l0] card_mono [OF _ \<open>set l \<subseteq> set l0\<close>] by (simp add: as_at_startup_def distinct_card)
qed simp

text \<open>
  The database as a function from devices to their lists, in which a property is written without
  failure.
\<close>

definition put_list :: "string \<Rightarrow> string list \<Rightarrow> (string \<Rightarrow> string list) \<Rightarrow> (exn + unit) \<times> (string \<Rightarrow> string list)" where
  "put_list d l db = (Inr (), db(d := l))"

definition db_key :: "string \<Rightarrow> string \<Rightarrow> string" where
  "db_key adm k = (if k = [] then adm else k)"

definition stored :: "(string \<Rightarrow> string list) \<Rightarrow> string \<Rightarrow> sub_map \<Rightarrow> bool" where
  "stored db adm m \<longleftrightarrow> (\<forall>(k, l) \<in> set m. set (db (db_key adm k)) = set (sub_devices l) \<and> \<not> modified l)"

lemma store_one_stored:
  assumes "distinct (sub_devices l)" "set (db (db_key adm k)) = set (startup k)" "modified l"
  shows "\<exists>db'. store_one put_list True adm startup k l db = (Ok (l\<lparr>modified := False\<rparr>), db') \<and>
    set (db' (db_key adm k)) = set (sub_devices l) \<and> (\<forall>k'. k' \<noteq> db_key adm k \<longrightarrow> db' k' = db k')"
  using assms as_at_startup_set [OF assms(1)]
  by (auto simp: store_one_def put_list_def db_key_def)

lemma db_key_inj: "adm \<notin> insert k (fst ` set m) \<Longrightarrow> k' \<in> fst ` set m \<Longrightarrow> k' \<noteq> k \<Longrightarrow> db_key adm k' \<noteq> db_key adm k"
  by (auto simp: db_key_def)

lemma store_all_stored:
  assumes "sorted_wrt str_less (map fst m)" "adm \<notin> fst ` set m"
    and "\<forall>(k, l) \<in> set m. distinct (sub_devices l) \<and> modified l \<and> set (db (db_key adm k)) = set (startup k)"
  shows "\<exists>m' db'. store_all put_list True adm startup m db = (Ok (), m', db') \<and> stored db' adm m' \<and>
    map (\<lambda>(k, l). (k, sub_devices l)) m' = map (\<lambda>(k, l). (k, sub_devices l)) m \<and>
    (\<forall>k'. k' \<notin> db_key adm ` fst ` set m \<longrightarrow> db' k' = db k')"
  using assms
proof (induction m arbitrary: db)
  case Nil
  then show ?case by (simp add: stored_def)
next
  case (Cons p m)
  obtain k l where p: "p = (k, l)" by (cases p)
  obtain db1 where s1: "store_one put_list True adm startup k l db = (Ok (l\<lparr>modified := False\<rparr>), db1)"
      "set (db1 (db_key adm k)) = set (sub_devices l)" "\<forall>k'. k' \<noteq> db_key adm k \<longrightarrow> db1 k' = db k'"
    using store_one_stored [of l db adm k startup] Cons.prems(3) p by auto
  have keys: "k' \<noteq> k" if "k' \<in> fst ` set m" for k'
    using that Cons.prems(1) p by (auto simp: image_iff)
  have other: "db_key adm k' \<noteq> db_key adm k" if "k' \<in> fst ` set m" for k'
    using db_key_inj [of adm k m k'] keys that Cons.prems(2) p by auto
  have rest: "\<forall>(k', l') \<in> set m. distinct (sub_devices l') \<and> modified l' \<and> set (db1 (db_key adm k')) = set (startup k')"
  proof (clarify, intro conjI)
    fix k' l' assume kl: "(k', l') \<in> set m"
    then have "db1 (db_key adm k') = db (db_key adm k')" using s1(3) other [of k'] by force
    then show "distinct (sub_devices l')" "modified l'" "set (db1 (db_key adm k')) = set (startup k')"
      using Cons.prems(3) kl by auto
  qed
  obtain m' db' where s2: "store_all put_list True adm startup m db1 = (Ok (), m', db')" "stored db' adm m'"
      "map (\<lambda>(k, l). (k, sub_devices l)) m' = map (\<lambda>(k, l). (k, sub_devices l)) m"
      "\<forall>k'. k' \<notin> db_key adm ` fst ` set m \<longrightarrow> db' k' = db1 k'"
    using Cons.IH [OF _ _ rest] Cons.prems(1,2) p by auto
  have "db' (db_key adm k) = db1 (db_key adm k)"
    using s2(4) other by (metis imageE)
  then show ?case
    using p s1 s2 by (auto simp: stored_def)
qed

text \<open>
  (C40) The first storage after the start is exact: if the database holds what the server read from it
  at its start, and every list was built since then, the database afterwards holds the names of
  each list, whether it was written or found equal.
\<close>

theorem first_storage_exact:
  assumes "sub_inv s" "adm \<notin> fst ` set (sub_device_map s)"
    and "\<forall>(k, l) \<in> set (sub_device_map s). modified l \<and> set (db (db_key adm k)) = set (sub_device_startup_map s k)"
  shows "\<exists>s' db'. store_sub_devices put_list True adm s db = (Ok (), s', db') \<and> stored db' adm (sub_device_map s') \<and>
    get_sub_devices s' = get_sub_devices s"
proof -
  have "\<forall>(k, l) \<in> set (sub_device_map s). distinct (sub_devices l) \<and> modified l \<and> set (db (db_key adm k)) = set (sub_device_startup_map s k)"
    using assms(1,3) by (auto simp: sub_inv_def)
  moreover have "sorted_wrt str_less (map fst (sub_device_map s))"
    using assms(1) by (simp add: sub_inv_def)
  ultimately obtain m' db' where m: "store_all put_list True adm (sub_device_startup_map s) (sub_device_map s) db = (Ok (), m', db')"
      "stored db' adm m'" "map (\<lambda>(k, l). (k, sub_devices l)) m' = map (\<lambda>(k, l). (k, sub_devices l)) (sub_device_map s)"
    using store_all_stored [of "sub_device_map s" adm db "sub_device_startup_map s"] assms(2) by auto
  have "get_sub_devices x = concat (map (\<lambda>(k, ns). map (\<lambda>n. if k = [] then n else k @ '' '' @ n) ns)
      (map (\<lambda>(k, l). (k, sub_devices l)) (sub_device_map x)))" for x
    by (auto simp: get_sub_devices_def intro!: arg_cong [where f = concat])
  then show ?thesis
    using m by (simp add: store_sub_devices_def del: map_map)
qed

text \<open>
  A later storage is not: the comparison is always with the lists of the start. A server that
  starts with two sub-devices of a device, stores the list when one of them is registered again
  and once more when the second is, leaves the first one alone in the database.
\<close>

theorem second_sub_device_not_stored:
  assumes "a = lower a" "b = lower b" "a \<noteq> b" "dev = lower dev" "dev \<noteq> []"
    and "sub_device_map s = []" "sub_device_startup_map s dev = [a, b]"
  shows "\<exists>s1 db1 s2 db2.
    store_sub_devices put_list True adm (register_sub_device dev a s) db = (Ok (), s1, db1) \<and>
    store_sub_devices put_list True adm (register_sub_device dev b s1) db1 = (Ok (), s2, db2) \<and>
    map_of (sub_device_map s2) dev = Some \<lparr>sub_devices = [a, b], modified = False\<rparr> \<and> db2 dev = [a]"
  using assms
  by (simp add: store_sub_devices_def register_sub_device_def Let_def store_one_def as_at_startup_def put_list_def)

theorem second_sub_device_not_stored_witness:
  "\<exists>s1 db1 s2 db2.
    store_sub_devices put_list True ''adm'' (register_sub_device ''x/y/z'' ''m1'' (SubDevDiag_new\<lparr>sub_device_startup_map := (\<lambda>_. [''m1'', ''m2''])\<rparr>)) (\<lambda>_. [''m1'', ''m2'']) = (Ok (), s1, db1) \<and>
    store_sub_devices put_list True ''adm'' (register_sub_device ''x/y/z'' ''m2'' s1) db1 = (Ok (), s2, db2) \<and>
    map_of (sub_device_map s2) ''x/y/z'' = Some \<lparr>sub_devices = [''m1'', ''m2''], modified = False\<rparr> \<and> db2 ''x/y/z'' = [''m1'']"
proof -
  have "''m1'' = lower ''m1''" "''m2'' = lower ''m2''" "''x/y/z'' = lower ''x/y/z''" by code_simp+
  from second_sub_device_not_stored [OF this(1,2) _ this(3), of "SubDevDiag_new\<lparr>sub_device_startup_map := (\<lambda>_. [''m1'', ''m2''])\<rparr>" "''adm''" "\<lambda>_. [''m1'', ''m2'']"]
  show ?thesis by (simp add: SubDevDiag_new_def)
qed

theorem first_storage_exact_witness:
  "\<exists>s' db'. store_sub_devices put_list True ''adm'' (register_sub_device ''x/y/z'' ''m1'' SubDevDiag_new) (\<lambda>_. []) = (Ok (), s', db') \<and>
    stored db' ''adm'' (sub_device_map s') \<and> get_sub_devices s' = get_sub_devices (register_sub_device ''x/y/z'' ''m1'' SubDevDiag_new)"
proof -
  have inv: "sub_inv (register_sub_device ''x/y/z'' ''m1'' SubDevDiag_new)"
    by (rule register_inv) (simp add: sub_inv_def SubDevDiag_new_def)
  have m: "sub_device_map (register_sub_device ''x/y/z'' ''m1'' SubDevDiag_new) = [(''x/y/z'', \<lparr>sub_devices = [''m1''], modified = True\<rparr>)]"
    by code_simp
  have st: "sub_device_startup_map (register_sub_device ''x/y/z'' ''m1'' SubDevDiag_new) = (\<lambda>_. [])"
    by (simp add: register_sub_device_def SubDevDiag_new_def Let_def)
  show ?thesis
    using first_storage_exact [OF inv, of "''adm''" "\<lambda>_. []"] by (simp add: m st)
qed

end
