(* ===== verification/Dev_Interface.thy ===== *)
theory Dev_Interface
  imports Std_Order W_Attribute
begin

text \<open>
  The detection of a change of the interface of a device (\<open>server/devintr.cpp\<close>) and the thread
  that reports it with a delay (\<open>server/dintrthread.cpp\<close>, \<open>push_dev_intr\<close> of
  \<open>server/device.cpp\<close>).
\<close>

section \<open>Interfaces\<close>

record CmdIntr =
  ci_name :: string
  in_type :: int
  out_type :: int

record AttrIntr =
  ai_name :: string
  ai_writable :: AttrWriteType
  ai_data_type :: int
  ai_data_format :: AttrDataFormat
  max_x :: int
  max_y :: int
  mem :: bool
  mem_init :: bool
  writable_attr_name :: string
  enum_labels :: "string list"

text \<open>
  The commands of the class and of the device, and the attributes of the device, with the
  members that are read here; the names are in lower case.
\<close>

record intr_dev =
  class_cmds :: "CmdIntr list"
  local_cmds :: "CmdIntr list"
  dev_attrs :: "AttrIntr list"

record DevIntr =
  di_cmds :: "CmdIntr list"
  di_atts :: "AttrIntr list"

definition build_cmd_interfaces :: "intr_dev \<Rightarrow> CmdIntr list" where
  "build_cmd_interfaces dev = sort_by ci_name (class_cmds dev @ local_cmds dev)"

text \<open>
  What is memorised and the associated attribute count for attributes that can be written.
\<close>

definition att_interface :: "AttrIntr \<Rightarrow> AttrIntr" where
  "att_interface a =
    (if ai_writable a = READ_WRITE \<or> ai_writable a = WRITE then a
     else a\<lparr>mem := False, mem_init := False, writable_attr_name := []\<rparr>)"

definition build_att_interfaces :: "intr_dev \<Rightarrow> AttrIntr list" where
  "build_att_interfaces dev = sort_by ai_name (map att_interface (dev_attrs dev))"

definition get_interface :: "intr_dev \<Rightarrow> DevIntr" where
  "get_interface dev = \<lparr>di_cmds = build_cmd_interfaces dev, di_atts = build_att_interfaces dev\<rparr>"

definition cmd_intr_eq :: "CmdIntr \<Rightarrow> CmdIntr \<Rightarrow> bool" where
  "cmd_intr_eq a b \<longleftrightarrow> ci_name a = ci_name b \<and> in_type a = in_type b \<and> out_type a = out_type b"

definition attr_intr_eq :: "AttrIntr \<Rightarrow> AttrIntr \<Rightarrow> bool" where
  "attr_intr_eq a b \<longleftrightarrow>
    ai_name a = ai_name b \<and> ai_writable a = ai_writable b \<and> ai_data_type a = ai_data_type b \<and> ai_data_format a = ai_data_format b \<and>
    max_x a = max_x b \<and> max_y a = max_y b \<and> mem a = mem b \<and> mem_init a = mem_init b \<and>
    writable_attr_name a = writable_attr_name b \<and> length (enum_labels a) = length (enum_labels b)"

definition has_changed :: "DevIntr \<Rightarrow> intr_dev \<Rightarrow> bool" where
  "has_changed i dev =
    (if \<not> list_all2 cmd_intr_eq (build_cmd_interfaces dev) (di_cmds i) then True
     else \<not> list_all2 attr_intr_eq (build_att_interfaces dev) (di_atts i))"

text \<open>
  The part of an attribute that the comparison sees: of the labels of an enumeration only their
  number.
\<close>

definition compared :: "AttrIntr \<Rightarrow> AttrIntr" where
  "compared a = a\<lparr>enum_labels := replicate (length (enum_labels a)) []\<rparr>"

lemma cmd_intr_eq_iff: "cmd_intr_eq = (=)"
  by (intro ext) (auto simp: cmd_intr_eq_def)

lemma attr_intr_eq_iff: "attr_intr_eq = (\<lambda>a b. compared a = compared b)"
proof (intro ext)
  fix a b show "attr_intr_eq a b = (compared a = compared b)"
    by (cases a; cases b) (auto simp: attr_intr_eq_def compared_def dest: arg_cong [where f = length])
qed

lemma list_all2_map_eq: "list_all2 (\<lambda>a b. f a = f b) xs ys \<longleftrightarrow> map f xs = map f ys"
  by (induction xs arbitrary: ys) (auto simp: list_all2_Cons1)

definition names_distinct :: "intr_dev \<Rightarrow> bool" where
  "names_distinct dev \<longleftrightarrow> distinct (map ci_name (class_cmds dev @ local_cmds dev)) \<and> distinct (map ai_name (dev_attrs dev))"

definition visible_interface :: "intr_dev \<Rightarrow> CmdIntr set \<times> AttrIntr set" where
  "visible_interface dev =
    (set (class_cmds dev) \<union> set (local_cmds dev), (compared \<circ> att_interface) ` set (dev_attrs dev))"

text \<open>
  (C38) The interface has changed exactly if the commands or the compared parts of the attributes
  differ as sets: the order in which they were added does not matter.
\<close>

theorem interface_change_exact:
  assumes "names_distinct old" "names_distinct new"
  shows "has_changed (get_interface old) new \<longleftrightarrow> visible_interface old \<noteq> visible_interface new"
proof -
  let ?c = "\<lambda>d. class_cmds d @ local_cmds d" and ?a = "\<lambda>d. map (compared \<circ> att_interface) (dev_attrs d)"
  have nm: "ai_name (compared a) = ai_name a" "ai_name (att_interface a) = ai_name a" for a
    by (simp_all add: compared_def att_interface_def)
  have d: "distinct (map ai_name (?a old))" "distinct (map ai_name (?a new))"
    using assms nm by (simp_all add: names_distinct_def comp_def)
  have c: "list_all2 cmd_intr_eq (build_cmd_interfaces new) (build_cmd_interfaces old) \<longleftrightarrow> set (?c new) = set (?c old)"
    using assms sort_by_eq_iff [of ci_name "?c new" "?c old"]
    by (simp add: cmd_intr_eq_iff list.rel_eq build_cmd_interfaces_def names_distinct_def)
  have "map compared (build_att_interfaces e) = sort_by ai_name (?a e)" for e
    using sort_by_map [of ai_name compared ai_name "map att_interface (dev_attrs e)"] nm by (simp add: build_att_interfaces_def)
  then have "list_all2 attr_intr_eq (build_att_interfaces new) (build_att_interfaces old) \<longleftrightarrow> set (?a new) = set (?a old)"
    using sort_by_eq_iff [OF d(2,1)] by (simp add: attr_intr_eq_iff list_all2_map_eq)
  then show ?thesis
    using c by (auto simp: has_changed_def get_interface_def visible_interface_def)
qed

definition ex_idev :: "string list \<Rightarrow> intr_dev" where
  "ex_idev labels = \<lparr>class_cmds = [\<lparr>ci_name = ''state'', in_type = 0, out_type = 19\<rparr>], local_cmds = [],
     dev_attrs = [\<lparr>ai_name = ''mode'', ai_writable = READ, ai_data_type = 29, ai_data_format = SCALAR, max_x = 1, max_y = 0,
       mem = False, mem_init = False, writable_attr_name = [], enum_labels = labels\<rparr>]\<rparr>"

theorem interface_change_exact_witness:
  "has_changed (get_interface (ex_idev [''Off''])) (ex_idev [''Off'', ''On'']) \<longleftrightarrow> visible_interface (ex_idev [''Off'']) \<noteq> visible_interface (ex_idev [''Off'', ''On''])"
  using interface_change_exact [of "ex_idev [''Off'']" "ex_idev [''Off'', ''On'']"] by (simp add: names_distinct_def ex_idev_def)

text \<open>
  New labels of an enumeration are no change when their number stays the same.
\<close>

lemma renamed_labels_not_seen: "\<not> has_changed (get_interface (ex_idev [''Off'', ''On''])) (ex_idev [''Closed'', ''Open''])"
  by code_simp


section \<open>The thread\<close>

text \<open>
  The thread waits for commands and reports after a time without one; a request that changes the
  interface holds the monitor of the device, and the report takes it. \<open>Th_check\<close> is the wait in
  \<open>get_command\<close>, \<open>Th_pushing\<close> the attempt to take the monitor, \<open>Th_report\<close> the report,
  \<open>Th_leaving\<close> the end of the loop.
\<close>

datatype th_pc = Th_none | Th_check | Th_command | Th_pushing | Th_report | Th_leaving

datatype rq_pc = Rq_idle | Rq_changed | Rq_waiting | Rq_failed

record isys =
  cmd_pending :: bool
  th_running :: bool
  th :: th_pc
  rq :: rq_pc

definition isys_new :: isys where
  "isys_new = \<lparr>cmd_pending = False, th_running = False, th = Th_none, rq = Rq_idle\<rparr>"

inductive istep :: "isys \<Rightarrow> isys \<Rightarrow> bool" where
  change: "rq s = Rq_idle \<Longrightarrow> th s \<noteq> Th_report \<Longrightarrow> istep s (s\<lparr>rq := Rq_changed\<rparr>)"
| start_thread: "rq s = Rq_changed \<Longrightarrow> \<not> th_running s \<Longrightarrow>
    istep s (s\<lparr>cmd_pending := False, th_running := True, th := Th_check, rq := Rq_idle\<rparr>)"
| send: "rq s = Rq_changed \<Longrightarrow> th_running s \<Longrightarrow> istep s (s\<lparr>cmd_pending := True, rq := Rq_waiting\<rparr>)"
| answered: "rq s = Rq_waiting \<Longrightarrow> \<not> cmd_pending s \<Longrightarrow> istep s (s\<lparr>rq := Rq_idle\<rparr>)"
| request_timeout: "rq s = Rq_waiting \<Longrightarrow> cmd_pending s \<Longrightarrow> istep s (s\<lparr>rq := Rq_failed\<rparr>)"
| get_command: "th s = Th_check \<Longrightarrow> cmd_pending s \<Longrightarrow> istep s (s\<lparr>th := Th_command\<rparr>)"
| quiet: "th s = Th_check \<Longrightarrow> \<not> cmd_pending s \<Longrightarrow> istep s (s\<lparr>th := Th_pushing\<rparr>)"
| execute_cmd: "th s = Th_command \<Longrightarrow> istep s (s\<lparr>cmd_pending := False, th := Th_check\<rparr>)"
| take_monitor: "th s = Th_pushing \<Longrightarrow> rq s = Rq_idle \<or> rq s = Rq_failed \<Longrightarrow> istep s (s\<lparr>th := Th_report\<rparr>)"
| monitor_timeout: "th s = Th_pushing \<Longrightarrow> rq s \<noteq> Rq_idle \<Longrightarrow> istep s (s\<lparr>th := Th_leaving\<rparr>)"
| report: "th s = Th_report \<Longrightarrow> istep s (s\<lparr>th := Th_leaving\<rparr>)"
| leave: "th s = Th_leaving \<Longrightarrow> istep s (s\<lparr>th_running := False, th := Th_none\<rparr>)"

inductive_cases istep_elim: "istep s s'"

abbreviation ireach :: "isys \<Rightarrow> bool" where
  "ireach s \<equiv> istep\<^sup>*\<^sup>* isys_new s"

text \<open>
  A request waits for a thread that will not answer.
\<close>

definition stuck :: "isys \<Rightarrow> bool" where
  "stuck s \<longleftrightarrow> rq s = Rq_waiting \<and> cmd_pending s \<and> th s \<in> {Th_none, Th_pushing, Th_leaving}"

lemma stuck_step: "istep s s' \<Longrightarrow> stuck s \<Longrightarrow> stuck s' \<or> rq s' = Rq_failed"
  by (auto elim!: istep_elim simp: stuck_def)

lemma failed_step: "istep s s' \<Longrightarrow> rq s = Rq_failed \<Longrightarrow> rq s' = Rq_failed"
  by (auto elim!: istep_elim)

text \<open>
  (C39) A request that is sent after the thread found no command and before the thread ended fails: no
  step but the time-out of the request ends its wait.
\<close>

theorem late_request_fails:
  assumes "istep\<^sup>*\<^sup>* s s'" "stuck s" "rq s' \<noteq> Rq_waiting"
  shows "rq s' = Rq_failed"
proof -
  have "stuck s' \<or> rq s' = Rq_failed"
    using assms(1,2) by (induction rule: rtranclp_induct) (auto dest: stuck_step failed_step)
  then show ?thesis using assms(3) by (auto simp: stuck_def)
qed

theorem late_request_fails_witness:
  "\<exists>s s'. ireach s \<and> stuck s \<and> istep\<^sup>*\<^sup>* s s' \<and> rq s' = Rq_failed"
proof -
  let ?a = "isys_new\<lparr>rq := Rq_changed\<rparr>"
  let ?b = "isys_new\<lparr>th_running := True, th := Th_check\<rparr>"
  let ?c = "?b\<lparr>th := Th_pushing\<rparr>"
  let ?d = "?c\<lparr>rq := Rq_changed\<rparr>"
  let ?e = "?d\<lparr>cmd_pending := True, rq := Rq_waiting\<rparr>"
  have "istep isys_new ?a" using istep.change [of isys_new] by (simp add: isys_new_def)
  moreover have "istep ?a ?b" using istep.start_thread [of ?a] by (simp add: isys_new_def)
  moreover have "istep ?b ?c" using istep.quiet [of ?b] by (simp add: isys_new_def)
  moreover have "istep ?c ?d" using istep.change [of ?c] by (simp add: isys_new_def)
  moreover have "istep ?d ?e" using istep.send [of ?d] by (simp add: isys_new_def)
  ultimately have "ireach ?e" by (meson rtranclp.rtrancl_into_rtrancl rtranclp.rtrancl_refl)
  moreover have stuck: "stuck ?e" by (simp add: stuck_def)
  moreover have step: "istep\<^sup>*\<^sup>* ?e (?e\<lparr>rq := Rq_failed\<rparr>)"
    using istep.request_timeout [of ?e] by (simp add: r_into_rtranclp)
  moreover have "rq (?e\<lparr>rq := Rq_failed\<rparr>) = Rq_failed"
    using late_request_fails [OF step stuck] by simp
  ultimately show ?thesis by blast
qed

end
