(* ===== verification/Spec2Isabelle.thy ===== *)
theory Spec2Isabelle
  imports Black_Box_Report Event_Queue Attr_History Lock_Thread Poll_Admin Event_Change File_Db_Requests Dev_Write Group_Call
    Dev_Monitor Access_Control Sub_Devices Dev_Interface
begin

text \<open>
  A verification development for cppTango, the C++ library of the Tango control system.
  A device server runs devices; each device has commands and attributes that clients call
  over CORBA. Around these calls the library keeps state of its own: it records the last
  requests of every device, polls commands and attributes in threads and keeps the last
  results, packs these histories for the network and unpacks them in the client, lets a
  client lock a device, and queues events in the client. The theories below model these
  parts as functions on explicit states and prove that they are correct.

  \<^bold>\<open>Theories and sources.\<close> Paths are relative to the directory of the C++ sources.

  \<^item> \<open>Tango_Prelude\<close>: the outcome of a C++ call (\<open>Ok\<close>, \<open>Throw\<close> of an exception,
    \<open>Undef\<close> for undefined behaviour), calls that change a state (\<open>sbind\<close>), vector
    accesses with bounds, C string buffers, decimal numbers, and the locale
    \<open>owned_resource\<close> of a state with requests, an invariant and an owner.
  \<^item> \<open>Circular_Buffer\<close>: the walk over a ring of slots and the locales
    \<open>bounded_history\<close> and \<open>circular_store\<close>; interpreted by the black box, the event queue
    and the polling ring.
  \<^item> \<open>Client_Addr\<close> (\<open>server/blackbox.cpp\<close>, class \<open>client_addr\<close>), \<open>Black_Box\<close> and
    \<open>Black_Box_Report\<close> (the rest of \<open>blackbox.cpp\<close>): who made a request, the insertion
    of every kind of request, and the lines of the report.
  \<^item> \<open>Event_Queue\<close> (\<open>client/eventqueue.cpp\<close>): the queue of received events for the six
    kinds of events, bounded or unbounded, with its ownership of the events.
  \<^item> \<open>Poll_Ring\<close> (\<open>server/pollring.cpp\<close>): insertion of polled data and access to it.
  \<^item> \<open>Run_Length\<close>, \<open>Cmd_History\<close> and \<open>Attr_History\<close> (\<open>pollring.cpp\<close>,
    \<open>pollring_templ.h\<close>, \<open>client/devapi_base.cpp\<close>): the histories packed by the server
    and unpacked by the client; both interpret the locale \<open>history_transfer\<close>.
  \<^item> \<open>Device_Lock\<close> (\<open>server/device.cpp\<close>, \<open>server/dserverlock.cpp\<close>) and
    \<open>Lock_Thread\<close> (\<open>client/lockthread.cpp\<close>): the lock of a device and the thread of a
    client that renews its locks.
  \<^item> \<open>Poll_Thread\<close> (\<open>server/pollthread.cpp\<close>), \<open>Poll_Pool\<close>
    (\<open>server/utils_polling.cpp\<close>) and \<open>Poll_Admin\<close> (\<open>server/dserverpoll.cpp\<close>): the
    scheduler of a polling thread, the assignment of devices to threads with the
    configuration strings, and the requests of the administration device.
  \<^item> \<open>Event_Change\<close> (\<open>server/eventsupplier.cpp\<close>, parts of \<open>server/attribute.cpp\<close>):
    whether a reading is a change, alarm, archive or periodic event and what is pushed to
    the clients of each release; three kinds of events interpret the locale
    \<open>event_filter\<close>.
  \<^item> \<open>File_Reader\<close>, \<open>File_Database\<close>, \<open>File_Db_Roundtrip\<close> and
    \<open>File_Db_Requests\<close> (\<open>client/filedatabase.cpp\<close>): the file that stands for the
    database: its characters and words, its parser and its writer, the proof that what is
    written is read back, and the requests of clients. The sections of classes and
    devices interpret the locale \<open>object_section\<close>, the properties of an object the
    locale \<open>named_store\<close>.

  \<^item> \<open>Attr_Limits\<close> (\<open>server/attribute.cpp\<close>, \<open>server/w_attribute.cpp\<close>,
    \<open>server/attribute_utils.cpp\<close>): the alarm levels, the warning levels and the bounds of
    an attribute, set by value or by text and stored in the database. \<open>W_Attribute\<close>
    (\<open>w_attribute.cpp\<close>): the check of a written value and its copies. \<open>Attr_Alarm\<close>
    (\<open>attribute.cpp\<close>, \<open>w_attribute.cpp\<close>, \<open>server/multiattribute.cpp\<close>): the value of a
    reading, its quality and the alarms of a device. \<open>Dev_Write\<close>
    (\<open>server/device_3.cpp\<close>, \<open>server/attrsetval.cpp\<close>): the call that writes attributes.
    This theory composes the limits with that call.
  \<^item> \<open>Group_Call\<close> (\<open>client/group.cpp\<close>): the tree of groups and devices in a client, the
    names and patterns of its elements, adding and removing, and the calls to all devices
    of a group.
  \<^item> \<open>Access_Control\<close> (\<open>client/accessproxy.cpp\<close>, parts of \<open>client/dbapi_base.cpp\<close> and
    \<open>devapi_base.cpp\<close>): the rights of a user on a device and the checks before commands and
    writes.
  \<^item> \<open>Dev_Monitor\<close> (\<open>server/tango_monitor.h\<close>, \<open>server/auto_tango_monitor.cpp\<close>): the
    monitors of a server, as steps of threads; they interpret the locale \<open>exclusive\<close>.
  \<^item> \<open>Std_Order\<close>: the order of strings and sorting by names. \<open>Sub_Devices\<close>
    (\<open>server/subdev_diag.cpp\<close>): the sub-devices of a server. \<open>Dev_Interface\<close>
    (\<open>server/devintr.cpp\<close>, \<open>server/dintrthread.cpp\<close>): the change of the interface of a device
    and the thread that reports it.

  \<^bold>\<open>States and operations.\<close> Classes are records with the members that the modelled
  operations use, named as in the source where the name is free. Every method is a
  function that returns its outcome and, if it changes the object, the new state;
  handlers are composed with \<open>rbind\<close> and \<open>sbind\<close> in the order of the source, so that an
  exception leaves the state as it is at that point. Machine integers are words where
  bits matter (identifications, process numbers, request arguments, values of attributes)
  and integers elsewhere; times are integers in nanoseconds. Reading past a vector, an unterminated
  buffer, a null pointer or an uninitialised member is \<open>Undef\<close>.

  \<^bold>\<open>What is shown.\<close> The ring theories show that a bounded history holds exactly the last
  insertions, whatever the reused slots held. The transfer theories show that the client
  gets the records of the server, and the kinds of records for which it does not. The
  locking theories show mutual exclusion, nesting, expiry and the timely renewal. The
  polling theories show that the thread polls exactly the objects it was told to, that
  the object due first is polled first, that late polls are caught up with, that tuning
  spreads the polls, and that the lists kept by the administration device and those of
  the thread agree after every sequence of requests. The event theory shows that the
  events are those of a dead band around the last reported value, of the changes of the
  alarm state and of a timer. The file theories show that the parser inverts the writer,
  and that properties set or deleted by a client are so in the answers and after a
  restart. The attribute theories show that the limits of an attribute always have its type
  and are in order, that a value is accepted exactly within them, that the quality and the
  state of the device are what the limits say, that a call that writes several attributes
  reports every failure, and that a failed write leaves no trace. The theory of groups shows
  that a call gets a reply of every device in the order of the device list and leaves no
  request behind, that arguments reach the devices they are meant for, and that no device
  is in a group twice. The theory of access control shows who gets the right to write and
  which commands a read-only client may send; that of the monitors shows mutual exclusion and
  that no wake-up is lost, for all interleavings; the last two show when the sub-devices in
  the database and the reported interface are those of the device. The remaining properties
  are the cases in which the code does not do this: they are proved as theorems about concrete
  families of inputs.

  \<^bold>\<open>Loops.\<close> Loops over vectors are structural recursions. The loop that discards late
  polls is a \<open>partial_function\<close>: with positive periods it ends, by a measure on the
  lateness of the items, and with period zero it does not. The splitting of a string has
  a termination proof, as have the loops of the file reader, whose measure is the number
  of characters before the end of the file.

  \<^bold>\<open>Parameters.\<close> What is not in the sources or comes from outside is an argument: the
  resolution of host names, the root devices of forwarded attributes, the alias of a
  device in the database, the answers of the administration device to the client thread,
  the proxies of the devices of a group, the commands of the access control service,
  the clocks, the identifiers of new threads, the
  floating-point arithmetic and the exception of a mismatched IDL union, the reading and
  printing of floating-point numbers, the answers of the database, the methods that the
  user of the library writes for an attribute, whether a wait times out, and what the
  polled user code does, as the time it takes and the commands it sends. The content of
  the resource file is a string, a failed \<open>get\<close> at its end leaves the character as it
  is, and \<open>char\<close> is signed. Descriptions of
  errors are shortened; the reason is that of the source.

  \<^bold>\<open>Not modelled.\<close> The transport (CORBA, ZeroMQ, the notification service), the
  database server and its client, the start of the server, logging and telemetry. The
  reading of polled attributes in \<open>poll_attr\<close> is reduced to its effects on the schedule.
  Threads are interleaved at the points where they take the mutex of a monitor or of a shared
  command buffer.
\<close>

section \<open>Properties across components\<close>

lemma value_above_rejected:
  assumes "wf_limits (we_arith E) (wa_limits w)" "wa_data_type w \<in> set integer_types" "wa_data_type w \<noteq> DEV_ENUM"
    and "la_set (wa_limits w) Max_value" "la_val (wa_limits w) Max_value = Some m"
    and "type_value x = wa_data_type w" "the (tv_int m) < the (tv_int x)"
  shows "\<exists>r. check_written_value E (Incoming (wa_data_type w) [x]) 1 0 w = (Throw (DevFailed ''API_WAttrOutsideLimit'' r), w)"
proof -
  have e: "elt_type (wa_data_type w) = wa_data_type w" using assms(3) by (simp add: elt_type_def)
  have wr: "wa_data_type w \<in> set writable_types" using assms(2) by (auto simp: integer_types_def writable_types_def)
  have bad: "\<not> acceptable w x" using assms(4,5,7) by (simp add: acceptable_def within_bounds_def)
  have "decides ''API_WAttrOutsideLimit'' (\<lambda>vs. \<forall>v \<in> set vs. acceptable w v) (\<lambda>vs. check_data_limits E vs w) [x]"
    using assms(1,2,6) e by (intro check_data_limits_decides) simp_all
  then obtain r where "check_data_limits E [x] w = Throw (DevFailed ''API_WAttrOutsideLimit'' r)"
    using bad by (auto simp: decides_def)
  then show ?thesis using wr e by (simp add: check_written_value_def update_internal_sequence_def check_length_def)
qed


text \<open>
  A short attribute without bounds, for which the maximum 7 is set.
\<close>

definition ex_free :: "int w_attr" where
  "ex_free = (ex_wattr DEV_SHORT (V_SHORT 0))\<lparr>wa_limits := ex_attr\<lparr>la_check_startup := False\<rparr>\<rparr>"

definition ex_bound_dev :: "(int, int tval list) wdev" where
  "ex_bound_dev = ex_wdev\<lparr>wd_attrs := [(ex_watt ''speed'')\<lparr>wt_att := (wt_att (ex_watt ''speed''))\<lparr>al_w :=
    ex_free\<lparr>wa_limits := snd (set_max_value ex_env (V_SHORT 7) (wa_limits ex_free))\<rparr>\<rparr>\<rparr>]\<rparr>"


end
